(* ===== verification/Sunda_Prelude.thy ===== *)
theory Sunda_Prelude
  imports Main
begin

text \<open>
  Shared vocabulary of the development.

  \<^item> \<open>cres\<close>: the result of C code that may run into undefined behaviour. A buffer overrun, a
    null dereference, an access to freed memory or to a union member that is not in use, a division by zero
    or an index outside a table is the value \<open>Crash\<close>, never an unspecified
    HOL value.
  \<^item> \<open>scan\<close>: the loop \<open>for (i = lo; i < n; i++) if (P(i)) return i; return -1;\<close>, which the
    source writes out for each of its tables (server, pid, service and connection table).
  \<^item> fixed-width reads of integers: \<open>i32\<close> is the conversion of C to a 32-bit \<open>int\<close>.
  \<^item> the locale \<open>slot_table\<close>: the contract of a table with free slots and a first-free search,
    interpreted by every table of the program.
\<close>

named_theorems cstr \<open>facts about C strings\<close>
named_theorems tabs \<open>facts about the tables in shared memory\<close>

section \<open>Outcomes of C code\<close>

datatype fault = OutOfBounds | NullDeref | BufOverflow | DivByZero | UseAfterFree | WrongMember

datatype 'a cres = Ret 'a | Crash fault

fun cbind :: "'a cres \<Rightarrow> ('a \<Rightarrow> 'b cres) \<Rightarrow> 'b cres" where
  "cbind (Ret x) f = f x"
| "cbind (Crash e) f = Crash e"

fun returns :: "'a cres \<Rightarrow> bool" where
  "returns (Ret x) = True"
| "returns (Crash e) = False"

lemma cbind_Ret_iff: "cbind m f = Ret y \<longleftrightarrow> (\<exists>x. m = Ret x \<and> f x = Ret y)"
  by (cases m) auto

lemma cbind_Crash_iff:
  "cbind m f = Crash e \<longleftrightarrow> m = Crash e \<or> (\<exists>x. m = Ret x \<and> f x = Crash e)"
  by (cases m) auto

lemma cbind_assoc: "cbind (cbind m f) g = cbind m (\<lambda>x. cbind (f x) g)"
  by (cases m) auto

text \<open>Code that need not return: \<open>None\<close> is a function that runs forever.\<close>

type_synonym 'a crun = "'a cres option"

fun rbind :: "'a crun \<Rightarrow> ('a \<Rightarrow> 'b crun) \<Rightarrow> 'b crun" where
  "rbind None f = None"
| "rbind (Some (Crash e)) f = Some (Crash e)"
| "rbind (Some (Ret x)) f = f x"

lemma rbind_Ret: "rbind m f = Some (Ret y) \<longleftrightarrow> (\<exists>x. m = Some (Ret x) \<and> f x = Some (Ret y))"
  by (cases "(m, f)" rule: rbind.cases) auto

lemma rbind_alt: "rbind m f = Option.bind m (\<lambda>r. case r of Crash e \<Rightarrow> Some (Crash e) | Ret x \<Rightarrow> f x)"
  by (cases "(m, f)" rule: rbind.cases) auto

lemma rbind_mono [partial_function_mono]:
  assumes "mono_option F" and "\<And>y. mono_option (\<lambda>f. G f y)"
  shows "mono_option (\<lambda>f. rbind (F f) (G f))"
  unfolding rbind_alt
proof (rule bind_mono [OF assms(1)])
  show "mono_option (\<lambda>f. case y of Crash e \<Rightarrow> Some (Crash e) | Ret x \<Rightarrow> G f x)" for y
    using assms(2) by (cases y) (auto intro: option.const_mono)
qed

section \<open>Integers at their width\<close>

definition i32 :: "int \<Rightarrow> int" where
  "i32 x = (x + 2 ^ 31) mod 2 ^ 32 - 2 ^ 31"

definition in_i32 :: "int \<Rightarrow> bool" where
  "in_i32 x \<longleftrightarrow> - (2 ^ 31) \<le> x \<and> x < 2 ^ 31"

lemma i32_id: "in_i32 x \<Longrightarrow> i32 x = x"
  by (simp add: i32_def in_i32_def)

lemma i32_range: "in_i32 (i32 x)"
proof -
  have "0 \<le> (x + 2 ^ 31) mod 2 ^ 32" "(x + 2 ^ 31) mod 2 ^ 32 < (2::int) ^ 32"
    by simp_all
  then show ?thesis by (simp add: i32_def in_i32_def)
qed

section \<open>The search loop\<close>

function scan :: "(nat \<Rightarrow> bool) \<Rightarrow> nat \<Rightarrow> nat \<Rightarrow> int" where
  "scan P i n = (if i < n then (if P i then int i else scan P (Suc i) n) else -1)"
  by pat_completeness auto
termination
  by (relation "measure (\<lambda>(P, i, n). n - i)") auto

declare scan.simps [simp del]

lemma scan_none: "scan P i n = -1 \<longleftrightarrow> (\<forall>k. i \<le> k \<and> k < n \<longrightarrow> \<not> P k)"
proof (induction P i n rule: scan.induct)
  case (1 P i n)
  show ?case
  proof (cases "i < n \<and> \<not> P i")
    case True
    then have "scan P i n = scan P (Suc i) n" by (simp add: scan.simps [of P i n])
    with 1 True show ?thesis
      by (auto simp: Suc_le_eq) (metis le_neq_implies_less)
  next
    case False
    then show ?thesis by (auto simp: scan.simps [of P i n])
  qed
qed

lemma scan_some: "scan P i n = int k \<longleftrightarrow> i \<le> k \<and> k < n \<and> P k \<and> (\<forall>j. i \<le> j \<and> j < k \<longrightarrow> \<not> P j)"
proof (induction P i n rule: scan.induct)
  case (1 P i n)
  show ?case
  proof (cases "i < n \<and> \<not> P i")
    case True
    then have "scan P i n = scan P (Suc i) n" by (simp add: scan.simps [of P i n])
    with 1 True show ?thesis
      by (auto simp: Suc_le_eq) (metis le_neq_implies_less)
  next
    case False
    then show ?thesis
      by (auto simp: scan.simps [of P i n] intro: le_neq_implies_less)
  qed
qed

lemma scan_cases [case_names none some]:
  obtains "scan P i n = -1" "\<forall>k. i \<le> k \<and> k < n \<longrightarrow> \<not> P k"
  | k where "scan P i n = int k" "i \<le> k" "k < n" "P k" "\<forall>j. i \<le> j \<and> j < k \<longrightarrow> \<not> P j"
proof (cases "\<exists>k. i \<le> k \<and> k < n \<and> P k")
  case True
  define k where "k = (LEAST k. i \<le> k \<and> k < n \<and> P k)"
  have k: "i \<le> k" "k < n" "P k"
    using LeastI_ex [OF True] unfolding k_def by auto
  moreover have "\<forall>j. i \<le> j \<and> j < k \<longrightarrow> \<not> P j"
    using k(2) not_less_Least unfolding k_def by (metis order.strict_trans)
  ultimately show ?thesis
    using that(2) [of k] by (simp add: scan_some)
next
  case False
  then show ?thesis using that(1) by (auto simp: scan_none)
qed

lemma scan_neg_iff: "scan P i n < 0 \<longleftrightarrow> scan P i n = -1"
  by (rule scan_cases [of P i n]) auto

lemma scan_least: "P k \<Longrightarrow> i \<le> k \<Longrightarrow> k < n \<Longrightarrow> 0 \<le> scan P i n \<and> scan P i n \<le> int k"
  by (rule scan_cases [of P i n]) (auto simp: not_less [symmetric])

lemma scan_cong:
  assumes "\<And>k. i \<le> k \<Longrightarrow> k < n \<Longrightarrow> P k = Q k"
  shows "scan P i n = scan Q i n"
proof (cases rule: scan_cases [of P i n])
  case none
  moreover have "scan Q i n = -1" using none(2) assms by (auto simp: scan_none)
  ultimately show ?thesis by simp
next
  case (some k)
  then have "scan Q i n = int k"
    using assms by (auto simp: scan_some)
  with some show ?thesis by simp
qed

section \<open>Tables with free slots\<close>

text \<open>
  The contract of a first-free search: \<open>find t\<close> is the C return value, \<open>free t i\<close> says that
  slot \<open>i\<close> is free, \<open>lo\<close> and \<open>width t\<close> bound the search, \<open>put t i x\<close> stores an entry, and
  \<open>inv\<close> is the shape of a well-formed table.
\<close>

locale slot_table =
  fixes find :: "'t \<Rightarrow> int"
    and free :: "'t \<Rightarrow> nat \<Rightarrow> bool"
    and lo :: nat
    and width :: "'t \<Rightarrow> nat"
    and put :: "'t \<Rightarrow> nat \<Rightarrow> 'x \<Rightarrow> 't"
    and busy :: "'x \<Rightarrow> bool"
    and inv :: "'t \<Rightarrow> bool"
  assumes find_scan: "find t = scan (free t) lo (width t)"
    and inv_put: "inv t \<Longrightarrow> inv (put t i x)"
    and width_put: "width (put t i x) = width t"
    and free_put: "inv t \<Longrightarrow> i < width t \<Longrightarrow> busy x \<Longrightarrow> free (put t i x) j \<longleftrightarrow> free t j \<and> j \<noteq> i"
begin

definition free_slots :: "'t \<Rightarrow> nat set" where
  "free_slots t = {i. lo \<le> i \<and> i < width t \<and> free t i}"

lemma finite_free: "finite (free_slots t)"
  by (rule finite_subset [of _ "{..<width t}"]) (auto simp: free_slots_def)

lemma find_full: "find t < 0 \<longleftrightarrow> free_slots t = {}"
  unfolding find_scan scan_neg_iff scan_none free_slots_def by auto

lemma find_slot: "find t \<ge> 0 \<Longrightarrow> nat (find t) \<in> free_slots t"
  unfolding find_scan free_slots_def
  by (rule scan_cases [of "free t" lo "width t"]) auto

lemma find_bounds: "find t \<ge> 0 \<Longrightarrow> lo \<le> nat (find t) \<and> nat (find t) < width t \<and> free t (nat (find t))"
  using find_slot [of t] by (simp add: free_slots_def)

lemma put_free: "inv t \<Longrightarrow> find t \<ge> 0 \<Longrightarrow> busy x \<Longrightarrow>
    free_slots (put t (nat (find t)) x) = free_slots t - {nat (find t)}"
  using find_bounds [of t] by (auto simp: free_slots_def width_put free_put)

lemma put_card: "inv t \<Longrightarrow> find t \<ge> 0 \<Longrightarrow> busy x \<Longrightarrow>
    Suc (card (free_slots (put t (nat (find t)) x))) = card (free_slots t)"
  by (simp add: put_free card_Suc_Diff1 [OF finite_free find_slot])

end

end
