(* ===== verification/CString.thy ===== *)
theory CString
  imports Sunda_Prelude
begin

text \<open>
  C strings and \<open>src/dev/src/pubfun/common/funstr.c\<close>.

  A C string is the list of the characters before its terminator; a piece of memory that may hold
  terminators inside is a list of characters as well, read by \<open>c_str\<close>. The functions of
  \<open>funstr.c\<close> are written as the index loops of the source (\<open>rtrim_end\<close>, \<open>ltrim_start\<close>,
  \<open>trim_lo\<close>, \<open>trim_hi\<close>, \<open>shift_left\<close>), and the lemmas show which list function each loop
  computes. The library functions the program calls (\<open>strtok\<close>, \<open>strncmp\<close>, \<open>strncpy\<close>,
  \<open>atoi\<close>, \<open>sprintf\<close> with \<open>%d\<close> and \<open>%0*d\<close>) are modelled as the C standard and glibc
  define them.
\<close>

section \<open>Definitions\<close>

abbreviation NUL :: char where "NUL \<equiv> CHR 0x00"
abbreviation NL :: char where "NL \<equiv> CHR 0x0A"
abbreviation SP :: char where "SP \<equiv> CHR '' ''"

definition c_str :: "char list \<Rightarrow> string" where
  "c_str m = takeWhile (\<lambda>c. c \<noteq> NUL) m"

definition cchar :: "string \<Rightarrow> nat \<Rightarrow> char" where
  "cchar s i = (if i < length s then s ! i else NUL)"

definition strncmp_eq :: "string \<Rightarrow> string \<Rightarrow> nat \<Rightarrow> bool" where
  "strncmp_eq a b n \<longleftrightarrow> take n a = take n b"

text \<open>\<open>strtok\<close>: the token, and the text behind the delimiter that was overwritten.\<close>

definition strtok :: "string \<Rightarrow> string \<Rightarrow> (string \<times> string) option" where
  "strtok delims s =
     (let t = dropWhile (\<lambda>c. c \<in> set delims) s
      in if t = [] then None
         else Some (takeWhile (\<lambda>c. c \<notin> set delims) t,
                    drop 1 (dropWhile (\<lambda>c. c \<notin> set delims) t)))"

definition isdigit :: "char \<Rightarrow> bool" where
  "isdigit c \<longleftrightarrow> 48 \<le> (of_char c :: nat) \<and> (of_char c :: nat) \<le> 57"

definition digit_val :: "char \<Rightarrow> int" where
  "digit_val c = int (of_char c) - 48"

definition isspace :: "char \<Rightarrow> bool" where
  "isspace c \<longleftrightarrow> c = SP \<or> (9 \<le> (of_char c :: nat) \<and> (of_char c :: nat) \<le> 13)"

fun digits_val :: "int \<Rightarrow> string \<Rightarrow> int" where
  "digits_val a [] = a"
| "digits_val a (c # cs) = (if isdigit c then digits_val (10 * a + digit_val c) cs else a)"

text \<open>\<open>strtol(s, NULL, 10)\<close>, saturating at the range of a 64-bit \<open>long\<close>.\<close>

definition atol :: "string \<Rightarrow> int" where
  "atol s =
     (let t = dropWhile isspace s;
          v = (case t of [] \<Rightarrow> 0
               | c # r \<Rightarrow> if c = CHR ''-'' then - digits_val 0 r
                          else if c = CHR ''+'' then digits_val 0 r else digits_val 0 t)
      in max (- (2 ^ 63)) (min (2 ^ 63 - 1) v))"

definition atoi :: "string \<Rightarrow> int" where
  "atoi s = i32 (atol s)"

fun show_nat :: "nat \<Rightarrow> string" where
  "show_nat n = (if n < 10 then [char_of (48 + n)]
                 else show_nat (n div 10) @ [char_of (48 + n mod 10)])"

declare show_nat.simps [simp del]

text \<open>\<open>%d\<close> and \<open>%0*d\<close> of \<open>sprintf\<close>.\<close>

definition show_int :: "int \<Rightarrow> string" where
  "show_int x = (if x < 0 then CHR ''-'' # show_nat (nat (- x)) else show_nat (nat x))"

definition show_pad :: "nat \<Rightarrow> nat \<Rightarrow> string" where
  "show_pad w n = replicate (w - length (show_nat n)) (CHR ''0'') @ show_nat n"

text \<open>\<open>strcmp\<close> by the sign of its result.\<close>

fun strcmp :: "string \<Rightarrow> string \<Rightarrow> int" where
  "strcmp [] [] = 0"
| "strcmp [] (c # cs) = -1"
| "strcmp (c # cs) [] = 1"
| "strcmp (a # as) (b # bs) =
     (if a = b then strcmp as bs else if (of_char a :: nat) < of_char b then -1 else 1)"

subsection \<open>funstr.c\<close>

definition is_ws :: "char \<Rightarrow> bool" where
  "is_ws c \<longleftrightarrow> c = SP \<or> c = CHR 0x09 \<or> c = CHR 0x0D \<or> c = NL"

text \<open>The backward loop of \<open>RightTrim\<close>: \<open>n\<close> is \<open>s + 1 - sBuf\<close>.\<close>

fun rtrim_end :: "string \<Rightarrow> nat \<Rightarrow> nat" where
  "rtrim_end buf 0 = 0"
| "rtrim_end buf (Suc n) = (if is_ws (buf ! n) then rtrim_end buf n else Suc n)"

definition RightTrim :: "string \<Rightarrow> string" where
  "RightTrim buf = take (rtrim_end buf (length buf)) buf"

text \<open>The forward loop of \<open>LeftTrim\<close>, then \<open>strcpy(str, s)\<close> when \<open>s > str\<close>.\<close>

fun ltrim_start :: "string \<Rightarrow> nat" where
  "ltrim_start [] = 0"
| "ltrim_start (c # cs) = (if is_ws c then Suc (ltrim_start cs) else 0)"

definition LeftTrim :: "string \<Rightarrow> string" where
  "LeftTrim str = (let s = ltrim_start str in if s > 0 then drop s str else str)"

text \<open>
  \<open>AllTrim\<close>: \<open>i\<close> runs up over blanks, \<open>j\<close> down from \<open>strlen(str) - 1\<close>, the characters between
  are moved to the front one by one and the terminator is written behind them. (For an empty or
  all-blank string the source reads \<open>str[-1]\<close> before it tests \<open>j >= 0\<close>; the value read
  does not influence the result.)
\<close>

fun trim_lo :: "string \<Rightarrow> int" where
  "trim_lo [] = 0"
| "trim_lo (c # cs) = (if c = SP then 1 + trim_lo cs else 0)"

fun trim_hi :: "string \<Rightarrow> nat \<Rightarrow> int" where
  "trim_hi str 0 = -1"
| "trim_hi str (Suc j) = (if str ! j = SP then trim_hi str j else int j)"

fun shift_left :: "string \<Rightarrow> nat \<Rightarrow> nat \<Rightarrow> nat \<Rightarrow> string" where
  "shift_left str i k 0 = str"
| "shift_left str i k (Suc m) = shift_left (str[k := str ! (k + i)]) i (Suc k) m"

definition AllTrim :: "string \<Rightarrow> string" where
  "AllTrim str =
     (let i = trim_lo str; j = trim_hi str (length str); n = nat (j - i + 1)
      in take n (shift_left str (nat i) 0 n))"

definition IsDigitBuf :: "string \<Rightarrow> nat \<Rightarrow> int" where
  "IsDigitBuf sBuf nLen =
     (if nLen = 0 then 1
      else if scan (\<lambda>i. \<not> isdigit (cchar sBuf i)) 0 nLen = -1 then 1 else 0)"

section \<open>What the loops compute\<close>

definition strip_left :: "string \<Rightarrow> string" where
  "strip_left s = dropWhile (\<lambda>c. c = SP) s"

definition strip :: "string \<Rightarrow> string" where
  "strip s = rev (strip_left (rev (strip_left s)))"

definition rstrip_ws :: "string \<Rightarrow> string" where
  "rstrip_ws s = rev (dropWhile is_ws (rev s))"

lemma strip_left_Nil [simp]: "strip_left [] = []"
  by (simp add: strip_left_def)

lemma strip_left_append: "\<exists>c \<in> set xs. c \<noteq> SP \<Longrightarrow> strip_left (xs @ ys) = strip_left xs @ ys"
  by (auto simp: strip_left_def dropWhile_append1)

lemma rtrim_end_le: "rtrim_end buf n \<le> n"
  by (induction n) auto

lemma rtrim_end_take: "n \<le> length buf \<Longrightarrow> take (rtrim_end buf n) buf = rstrip_ws (take n buf)"
  by (induction n) (auto simp: rstrip_ws_def take_Suc_conv_app_nth)

lemma RightTrim_eq [cstr]: "RightTrim s = rstrip_ws s"
  using rtrim_end_take [of "length s" s] by (simp add: RightTrim_def)

lemma ltrim_start_drop: "drop (ltrim_start s) s = dropWhile is_ws s"
  by (induction s) auto

lemma LeftTrim_eq [cstr]: "LeftTrim s = dropWhile is_ws s"
  using ltrim_start_drop [of s] by (auto simp: LeftTrim_def Let_def)

lemma trim_lo_bounds: "0 \<le> trim_lo s \<and> trim_lo s \<le> int (length s)"
  by (induction s) auto

lemma trim_lo_drop: "drop (nat (trim_lo s)) s = strip_left s"
  by (induction s) (use trim_lo_bounds in \<open>auto simp: strip_left_def nat_add_distrib\<close>)

lemma trim_hi_bounds: "-1 \<le> trim_hi s n \<and> trim_hi s n < int n"
  by (induction n) auto

lemma trim_hi_take:
  "n \<le> length s \<Longrightarrow> take (nat (trim_hi s n + 1)) s = rev (strip_left (rev (take n s)))"
proof (induction n)
  case (Suc n)
  show ?case
  proof (cases "s ! n = SP")
    case True
    then show ?thesis using Suc by (simp add: take_Suc_conv_app_nth strip_left_def)
  next
    case False
    have "nat (int n + 1) = Suc n" by simp
    then show ?thesis
      using Suc.prems False by (simp add: take_Suc_conv_app_nth strip_left_def)
  qed
qed (simp add: strip_left_def)

text \<open>Moving a block down in place, from the left, copies it unchanged.\<close>

lemma shift_left_length [simp]: "length (shift_left s i k m) = length s"
  by (induction m arbitrary: s k) auto

lemma shift_left_nth:
  "k + m + i \<le> length s \<Longrightarrow> j < length s \<Longrightarrow>
     shift_left s i k m ! j = (if k \<le> j \<and> j < k + m then s ! (j + i) else s ! j)"
proof (induction m arbitrary: s k)
  case (Suc m)
  have "shift_left s i k (Suc m) ! j = shift_left (s[k := s ! (k + i)]) i (Suc k) m ! j"
    by simp
  also have "\<dots> = (if Suc k \<le> j \<and> j < Suc k + m then s[k := s ! (k + i)] ! (j + i)
                    else s[k := s ! (k + i)] ! j)"
    using Suc.prems by (intro Suc.IH) auto
  also have "\<dots> = (if k \<le> j \<and> j < k + Suc m then s ! (j + i) else s ! j)"
    using Suc.prems by (auto simp: nth_list_update)
  finally show ?case .
qed auto

lemma shift_left_take:
  assumes "m + i \<le> length s"
  shows "take m (shift_left s i 0 m) = take m (drop i s)"
  by (rule nth_equalityI) (use assms in \<open>auto simp: shift_left_nth add.commute\<close>)

lemma strip_left_rev_hi: "strip_left s = [] \<Longrightarrow> trim_hi s (length s) = -1"
proof -
  assume "strip_left s = []"
  then have "\<forall>c \<in> set s. c = SP" by (simp add: strip_left_def dropWhile_eq_Nil_conv)
  then have "n \<le> length s \<Longrightarrow> trim_hi s n = -1" for n
    by (induction n) auto
  then show ?thesis by blast
qed

lemma strip_middle:
  "strip_left s \<noteq> [] \<Longrightarrow>
     take (nat (trim_hi s (length s) - trim_lo s + 1)) (drop (nat (trim_lo s)) s) = strip s"
proof -
  let ?i = "nat (trim_lo s)" and ?j = "nat (trim_hi s (length s) + 1)"
  assume ne: "strip_left s \<noteq> []"
  have "rev (strip_left (rev s)) = take ?j s"
    using trim_hi_take [of "length s" s] by simp
  moreover have "rev s = rev (strip_left s) @ rev (take ?i s)"
    using trim_lo_drop [of s] by (metis append_take_drop_id rev_append)
  moreover have "\<exists>c \<in> set (rev (strip_left s)). c \<noteq> SP"
    using ne hd_dropWhile [of "\<lambda>c. c = SP" s] list.set_sel(1) [of "strip_left s"]
    unfolding strip_left_def by (intro bexI [of _ "hd (dropWhile (\<lambda>c. c = SP) s)"]) auto
  ultimately have "take ?j s = take ?i s @ rev (strip_left (rev (strip_left s)))"
    using strip_left_append by (metis rev_append rev_rev_ident)
  then have "drop ?i (take ?j s) = strip s"
    using trim_lo_bounds [of s] by (simp add: strip_def min_absorb2 nat_le_iff)
  moreover have "nat (trim_hi s (length s) - trim_lo s + 1) = ?j - ?i"
    using trim_lo_bounds [of s] trim_hi_bounds [of s "length s"] by arith
  ultimately show ?thesis by (simp add: drop_take)
qed

lemma AllTrim_eq [cstr]: "AllTrim s = strip s"
proof (cases "strip_left s = []")
  case True
  then have "nat (trim_hi s (length s) - trim_lo s + 1) = 0"
    using strip_left_rev_hi [OF True] trim_lo_bounds [of s] by simp
  with True show ?thesis by (simp add: AllTrim_def Let_def strip_def)
next
  case False
  have "nat (trim_hi s (length s) - trim_lo s + 1) + nat (trim_lo s) \<le> length s"
    using trim_lo_bounds [of s] trim_hi_bounds [of s "length s"] by linarith
  then show ?thesis
    using strip_middle [OF False] by (simp add: AllTrim_def Let_def shift_left_take)
qed

lemma IsDigitBuf_iff: "IsDigitBuf s (length s) = 1 \<longleftrightarrow> (\<forall>c \<in> set s. isdigit c)"
  by (auto simp: IsDigitBuf_def scan_none cchar_def all_set_conv_all_nth)

lemma IsDigitBuf_values: "IsDigitBuf s n = 0 \<or> IsDigitBuf s n = 1"
  by (simp add: IsDigitBuf_def)

section \<open>Printing and reading numbers\<close>

lemma isdigit_char_of: "n < 10 \<Longrightarrow> isdigit (char_of (48 + n)) \<and> digit_val (char_of (48 + n)) = int n"
  by (simp add: isdigit_def digit_val_def)

lemma show_nat_digits: "\<forall>c \<in> set (show_nat n). isdigit c"
proof (induction n rule: show_nat.induct)
  case (1 n)
  then show ?case
    by (subst show_nat.simps) (auto simp: isdigit_char_of simp del: of_char_of)
qed

lemma show_nat_nonempty: "show_nat n \<noteq> []"
  by (subst show_nat.simps) simp

lemma digits_val_show:
  "digits_val a (show_nat n @ r) = digits_val (a * 10 ^ length (show_nat n) + int n) r"
proof (induction n arbitrary: a r rule: show_nat.induct)
  case (1 n)
  show ?case
  proof (cases "n < 10")
    case True
    then show ?thesis
      using isdigit_char_of [of n] by (simp add: show_nat.simps [of n] algebra_simps)
  next
    case False
    have "int n = 10 * int (n div 10) + int (n mod 10)"
      by (metis mult_div_mod_eq of_nat_add of_nat_mult of_nat_numeral)
    then have e: "10 * (a * 10 ^ length (show_nat (n div 10)) + int (n div 10)) + int (n mod 10)
        = a * 10 ^ Suc (length (show_nat (n div 10))) + int n"
      by (simp add: algebra_simps)
    have "digits_val a (show_nat n @ r)
        = digits_val a (show_nat (n div 10) @ char_of (48 + n mod 10) # r)"
      using False by (simp add: show_nat.simps [of n])
    also have "\<dots> = digits_val (a * 10 ^ length (show_nat (n div 10)) + int (n div 10))
        (char_of (48 + n mod 10) # r)"
      using "1" [OF False] by blast
    also have "\<dots> = digits_val (a * 10 ^ Suc (length (show_nat (n div 10))) + int n) r"
      using isdigit_char_of [of "n mod 10"] e by (simp del: power_Suc)
    finally show ?thesis using False by (simp add: show_nat.simps [of n])
  qed
qed

lemma not_space_digit: "isdigit c \<Longrightarrow> \<not> isspace c \<and> c \<noteq> CHR ''-'' \<and> c \<noteq> CHR ''+''"
  by (auto simp: isdigit_def isspace_def)

lemma digits_val_stop: "r = [] \<or> \<not> isdigit (hd r) \<Longrightarrow> digits_val a r = a"
  by (cases r) auto

lemma atoi_show_nat:
  assumes "int n < 2 ^ 31" "r = [] \<or> \<not> isdigit (hd r)"
  shows "atoi (show_nat n @ r) = int n"
proof -
  obtain c cs where c: "show_nat n = c # cs"
    using show_nat_nonempty by (meson neq_Nil_conv)
  have d: "isdigit c" using show_nat_digits [of n] c by simp
  have "digits_val 0 (show_nat n @ r) = int n"
    using assms(2) by (simp add: digits_val_show digits_val_stop)
  then have "atol (show_nat n @ r) = int n"
    using c not_space_digit [OF d] assms(1) by (simp add: atol_def Let_def)
  then show ?thesis using assms(1) by (simp add: atoi_def i32_id in_i32_def)
qed

lemma show_nat_no_char: "\<not> isdigit c \<Longrightarrow> c \<notin> set (show_nat n)"
  using show_nat_digits by blast

lemma show_nat_length: "n < 10 ^ k \<Longrightarrow> 0 < k \<Longrightarrow> length (show_nat n) \<le> k"
proof (induction n arbitrary: k rule: show_nat.induct)
  case (1 n)
  show ?case
  proof (cases "n < 10")
    case True
    then show ?thesis using 1(3) by (simp add: show_nat.simps [of n])
  next
    case False
    then obtain j where j: "k = Suc j" "0 < j" using 1(2,3) by (cases k; cases "k - 1"; auto)
    then have "n div 10 < 10 ^ j" using 1(2) by (simp add: less_mult_imp_div_less mult.commute)
    then show ?thesis using 1(1) [OF False] j False by (simp add: show_nat.simps [of n])
  qed
qed

lemma show_pad_length: "n < 10 ^ w \<Longrightarrow> 0 < w \<Longrightarrow> length (show_pad w n) = w"
  using show_nat_length [of n w] by (simp add: show_pad_def)

lemma show_pad_digits: "\<forall>c \<in> set (show_pad w n). isdigit c"
  using show_nat_digits [of n] by (auto simp: show_pad_def isdigit_def)

lemma show_pad_nonempty: "show_pad w n \<noteq> []"
  using show_nat_nonempty by (simp add: show_pad_def)

lemma strcmp_zero [simp]: "strcmp a b = 0 \<longleftrightarrow> a = b"
  by (induction a b rule: strcmp.induct) auto

lemma strcmp_self [simp]: "strcmp a a = 0"
  by simp

lemma strcmp_swap: "strcmp b a = - strcmp a b"
  by (induction a b rule: strcmp.induct) (auto simp: of_char_eq_iff not_less order.order_iff_strict)

lemma strcmp_trans: "strcmp a b < 0 \<Longrightarrow> strcmp b c < 0 \<Longrightarrow> strcmp a c < 0"
proof (induction a b arbitrary: c rule: strcmp.induct)
  case (2 x xs)
  then show ?case by (cases c) auto
next
  case (4 a as b bs)
  then show ?case by (cases c) (auto split: if_splits)
qed auto

end
