(* ===== verification/DateTime.thy ===== *)
theory DateTime
  imports CString "HOL-Library.Signed_Division"
begin

text \<open>
  The calendar functions of \<open>src/dev/src/pubfun/common/funtime.c\<close>: \<open>checkdate\<close>, \<open>CheckDate\<close>,
  \<open>CheckStrDate\<close>, \<open>CountDate\<close>, \<open>DiffDate\<close> and \<open>GetDateDiff\<close>. Dates are the numbers
  \<open>YYYYMMDD\<close> of the source, taken apart with the truncating division of C (\<open>sdiv\<close>, \<open>smod\<close>).

  The reference is \<open>daynum\<close>, the number of a day counted from the start of year 0 of the
  proleptic Gregorian calendar. The day-by-day loop of \<open>CountDate\<close> adds its offset to
  \<open>daynum\<close>, and the three summation loops of \<open>DiffDate\<close> compute a difference of \<open>daynum\<close>.
  \<open>GetDate\<close> and \<open>GetCurrentTime\<close> print the clock, which is an argument.
\<close>

section \<open>funtime.c\<close>

definition IsLeapYear :: "int \<Rightarrow> bool" where
  "IsLeapYear n \<longleftrightarrow> (n smod 4 = 0 \<and> n smod 100 \<noteq> 0) \<or> n smod 400 = 0"

definition YEARDAYS :: "int \<Rightarrow> int" where
  "YEARDAYS a = (if IsLeapYear a then 366 else 365)"

definition RMONTHDAYS :: "int \<Rightarrow> int \<Rightarrow> int" where
  "RMONTHDAYS a b =
     (if a = 2 then (if IsLeapYear b then 29 else 28)
      else if (a < 8 \<and> a smod 2 = 0) \<or> (a \<ge> 8 \<and> a smod 2 \<noteq> 0) then 30 else 31)"

definition checkdate :: "int \<Rightarrow> int \<Rightarrow> int \<Rightarrow> int" where
  "checkdate iYear iMonth iDay =
     (if iYear < 0 \<or> iYear > 9999 then -1
      else if iMonth \<in> {1, 3, 5, 7, 8, 10, 12} then (if iDay \<le> 0 \<or> iDay > 31 then -3 else 0)
      else if iMonth \<in> {4, 6, 9, 11} then (if iDay \<le> 0 \<or> iDay > 30 then -3 else 0)
      else if iMonth = 2 then
        (if (iYear smod 4 = 0 \<and> iYear smod 100 \<noteq> 0) \<or> iYear smod 400 = 0
         then (if iDay \<le> 0 \<or> iDay > 29 then -3 else 0)
         else (if iDay \<le> 0 \<or> iDay > 28 then -3 else 0))
      else -2)"

definition CheckDate :: "string \<Rightarrow> int" where
  "CheckDate sDate =
     (if length sDate \<noteq> 8 then -1
      else let iRet = checkdate (atoi (take 4 sDate)) (atoi (take 2 (drop 4 sDate)))
                        (atoi (take 2 (drop 6 sDate)))
           in if iRet \<noteq> 0 then -1 else 0)"

definition CheckStrDate :: "string \<Rightarrow> int" where
  "CheckStrDate sDate =
     (if length sDate \<noteq> 8 then -1
      else let iRet = checkdate (atoi (take 4 sDate)) (atoi (take 2 (drop 4 sDate)))
                        (atoi (take 2 (drop 6 sDate)))
           in if iRet \<noteq> 0 then -1 else 0)"

text \<open>The fields of a \<open>YYYYMMDD\<close> number, stored into \<open>int\<close> variables.\<close>

type_synonym date = "int \<times> int \<times> int"

definition split_date :: "int \<Rightarrow> date" where
  "split_date l = (i32 (l sdiv 10000), i32 (l smod 10000 sdiv 100), i32 (l smod 100))"

definition check3 :: "date \<Rightarrow> int" where
  "check3 d = (case d of (y, m, dd) \<Rightarrow> checkdate y m dd)"

text \<open>One turn of the loop of \<open>CountDate\<close>.\<close>

definition date_step :: "int \<Rightarrow> date \<Rightarrow> date" where
  "date_step step date =
     (case date of (iYear, iMonth, iDays) \<Rightarrow>
       let iDays = iDays + step
       in if iDays \<le> 0 \<or> iDays > RMONTHDAYS iMonth iYear then
            (let iMonth = iMonth + step;
                 (iYear, iMonth) = (if iMonth \<le> 0 then (iYear + step, 12)
                                    else if iMonth > 12 then (iYear + step, 1)
                                    else (iYear, iMonth))
             in (iYear, iMonth, if iDays \<le> 0 then RMONTHDAYS iMonth iYear else 1))
          else (iYear, iMonth, iDays))"

fun count_loop :: "nat \<Rightarrow> int \<Rightarrow> date \<Rightarrow> date" where
  "count_loop 0 step date = date"
| "count_loop (Suc n) step date = count_loop n step (date_step step date)"

text \<open>\<open>sprintf(sResultDate, "%8ld", x)\<close>.\<close>

definition show_w8 :: "int \<Rightarrow> string" where
  "show_w8 x = replicate (8 - length (show_int x)) SP @ show_int x"

definition CountDate :: "string \<Rightarrow> int \<Rightarrow> string option" where
  "CountDate sStartDate iOffset =
     (let date = split_date (atol sStartDate)
      in if check3 date \<noteq> 0 then None
         else case count_loop (nat \<bar>iOffset\<bar>) (if iOffset \<ge> 0 then 1 else -1) date of
                (iYear, iMonth, iDays) \<Rightarrow> Some (show_w8 (i32 (iYear * 10000 + iMonth * 100 + iDays))))"

text \<open>The loop \<open>for (i = lo; i < hi; i++) Days += f(i)\<close>.\<close>

function for_sum :: "(int \<Rightarrow> int) \<Rightarrow> int \<Rightarrow> int \<Rightarrow> int \<Rightarrow> int" where
  "for_sum f i hi days = (if i < hi then for_sum f (i + 1) hi (days + f i) else days)"
  by pat_completeness auto
termination
  by (relation "measure (\<lambda>(f, i, hi, days). nat (hi - i))") auto

declare for_sum.simps [simp del]

definition DiffDate :: "int \<Rightarrow> int \<Rightarrow> int option" where
  "DiffDate lStartDate lEndDate =
     (let (lS, lE, flag) = (if lStartDate > lEndDate then (lEndDate, lStartDate, -1)
                            else (lStartDate, lEndDate, 1));
          (sYear, sMonth, sDays) = split_date lS;
          (eYear, eMonth, eDays) = split_date lE
      in if checkdate sYear sMonth sDays \<noteq> 0 \<or> checkdate eYear eMonth eDays \<noteq> 0 then None
         else let days = for_sum YEARDAYS sYear eYear 0;
                  days = for_sum (\<lambda>i. RMONTHDAYS i eYear) 1 eMonth days;
                  days = days + eDays;
                  days = for_sum (\<lambda>i. - RMONTHDAYS i sYear) 1 sMonth days;
                  days = days - sDays
              in Some (flag * days))"

definition GetDateDiff :: "string \<Rightarrow> string \<Rightarrow> int option" where
  "GetDateDiff sStartDate sEndDate = DiffDate (atol sStartDate) (atol sEndDate)"

subsection \<open>The clock\<close>

text \<open>\<open>struct tm\<close>, as \<open>localtime\<close> gives it.\<close>

record tm =
  tm_year :: int
  tm_mon :: int
  tm_mday :: int
  tm_hour :: int
  tm_min :: int
  tm_sec :: int

text \<open>The formats \<open>%.wd\<close>, \<open>%0wd\<close> and \<open>%wd\<close>.\<close>

definition prec_d :: "nat \<Rightarrow> int \<Rightarrow> string" where
  "prec_d w x = (if x < 0 then [CHR ''-''] else []) @ show_pad w (nat \<bar>x\<bar>)"

definition zero_d :: "nat \<Rightarrow> int \<Rightarrow> string" where
  "zero_d w x = (if x < 0 then CHR ''-'' # show_pad (w - 1) (nat (- x)) else show_pad w (nat x))"

definition wide_d :: "nat \<Rightarrow> int \<Rightarrow> string" where
  "wide_d w x = replicate (w - length (show_int x)) SP @ show_int x"

definition GetDate :: "tm \<Rightarrow> string" where
  "GetDate t = prec_d 4 (tm_year t + 1900) @ prec_d 2 (tm_mon t + 1) @ prec_d 2 (tm_mday t)"

definition GetCurrentTime :: "tm \<Rightarrow> string" where
  "GetCurrentTime t = wide_d 4 (tm_year t + 1900) @ zero_d 2 (tm_mon t + 1) @ zero_d 2 (tm_mday t) @ zero_d 2 (tm_hour t) @
     zero_d 2 (tm_min t) @ zero_d 2 (tm_sec t)"

section \<open>The Gregorian day count\<close>

definition valid_date :: "date \<Rightarrow> bool" where
  "valid_date d \<longleftrightarrow> (case d of (y, m, dd) \<Rightarrow> 1 \<le> m \<and> m \<le> 12 \<and> 1 \<le> dd \<and> dd \<le> RMONTHDAYS m y)"

definition days_before_year :: "int \<Rightarrow> int" where
  "days_before_year y = 365 * y + (y + 3) div 4 - (y + 99) div 100 + (y + 399) div 400"

definition daynum :: "date \<Rightarrow> int" where
  "daynum d = (case d of (y, m, dd) \<Rightarrow>
     days_before_year y + (\<Sum>i \<in> {1..<m}. RMONTHDAYS i y) + dd)"

lemma smod_zero_iff: "(a::int) smod k = 0 \<longleftrightarrow> k dvd a"
  by (simp add: signed_modulo_int_def sgn_if dvd_eq_mod_eq_0 [symmetric])

lemma leap_iff: "IsLeapYear y \<longleftrightarrow> 4 dvd y \<and> (100 dvd y \<longrightarrow> 400 dvd y)"
proof -
  have "400 dvd y \<Longrightarrow> 4 dvd y" using dvd_trans [of 4 400 y] by simp
  then show ?thesis by (auto simp: IsLeapYear_def smod_zero_iff)
qed

lemma div_next:
  assumes "0 < k"
  shows "((y::int) + k) div k = (y + (k - 1)) div k + (if k dvd y then 1 else 0)"
proof -
  define q r where "q = y div k" and "r = y mod k"
  have y: "y = k * q + r" and r: "0 \<le> r" "r < k"
    using assms by (simp_all add: q_def r_def)
  have "(y + (k - 1)) div k = q + (r + (k - 1)) div k"
    unfolding y using assms by (simp add: add.assoc)
  moreover have "(r + (k - 1)) div k = (if r = 0 then 0 else 1)"
    using r div_pos_pos_trivial [of "r - 1" k] div_add_self2 [of k "r - 1"]
    by (auto simp: algebra_simps)
  moreover have "(y + k) div k = q + 1"
    using assms by (simp add: q_def div_add_self2)
  moreover have "k dvd y \<longleftrightarrow> r = 0"
    by (simp add: r_def dvd_eq_mod_eq_0)
  ultimately show ?thesis by simp
qed

lemma days_before_year_Suc: "days_before_year (y + 1) = days_before_year y + YEARDAYS y"
proof -
  define a b c where "a = (y + 3) div 4" and "b = (y + 99) div 100" and "c = (y + 399) div 400"
  have e: "(y + 1 + 3) div 4 = a + (if 4 dvd y then 1 else 0)"
    "(y + 1 + 99) div 100 = b + (if 100 dvd y then 1 else 0)"
    "(y + 1 + 399) div 400 = c + (if 400 dvd y then 1 else 0)"
    unfolding a_def b_def c_def add.assoc using div_next [of 4 y] div_next [of 100 y] div_next [of 400 y]
    by (simp_all only: arith_simps(1) numeral_plus_one one_plus_numeral) auto
  have "400 dvd y \<Longrightarrow> 100 dvd y" "100 dvd y \<Longrightarrow> 4 dvd y"
    using dvd_trans [of 100 400 y] dvd_trans [of 4 100 y] by simp_all
  then consider "\<not> 4 dvd y" "\<not> 100 dvd y" "\<not> 400 dvd y" | "4 dvd y" "\<not> 100 dvd y" "\<not> 400 dvd y"
    | "4 dvd y" "100 dvd y" "\<not> 400 dvd y" | "4 dvd y" "100 dvd y" "400 dvd y"
    by blast
  then show ?thesis
    unfolding days_before_year_def YEARDAYS_def leap_iff e a_def [symmetric] b_def [symmetric]
      c_def [symmetric]
    by cases simp_all
qed

lemma sum_Suc_upper: "1 \<le> m \<Longrightarrow> (\<Sum>i \<in> {1..<m + 1}. f i) = (\<Sum>i \<in> {1..<m}. f i) + f (m::int)" for f :: "int \<Rightarrow> int"
proof -
  assume "1 \<le> m"
  then have "{1..<m + 1} = insert m {1..<m}" by auto
  then show ?thesis by simp
qed

lemma year_sum: "(\<Sum>i \<in> {1..<13}. RMONTHDAYS i y) = YEARDAYS y"
proof -
  have "{1..<13::int} = set [1..12]" by auto
  then have "{1..<13::int} = {1, 2, 3, 4, 5, 6, 7, 8, 9, 10, 11, 12}"
    by (simp add: upto.simps insert_commute)
  then show ?thesis by (simp add: RMONTHDAYS_def YEARDAYS_def signed_modulo_int_def)
qed

lemma RMONTHDAYS_pos: "28 \<le> RMONTHDAYS m y \<and> RMONTHDAYS m y \<le> 31"
  by (simp add: RMONTHDAYS_def)

text \<open>A turn of the loop moves by one day, forwards and backwards.\<close>

lemma date_step_forward:
  assumes "valid_date d"
  shows "valid_date (date_step 1 d) \<and> daynum (date_step 1 d) = daynum d + 1"
proof -
  obtain y m dd where d: "d = (y, m, dd)" by (cases d)
  have v: "1 \<le> m" "m \<le> 12" "1 \<le> dd" "dd \<le> RMONTHDAYS m y"
    using assms d by (simp_all add: valid_date_def)
  consider (day) "dd + 1 \<le> RMONTHDAYS m y" | (month) "dd = RMONTHDAYS m y" "m < 12"
    | (year) "dd = RMONTHDAYS m y" "m = 12"
    using v by linarith
  then show ?thesis
  proof cases
    case day
    then show ?thesis using v d by (simp add: date_step_def Let_def valid_date_def daynum_def)
  next
    case month
    then show ?thesis
      using v d RMONTHDAYS_pos [of "m + 1" y]
      by (simp add: date_step_def Let_def valid_date_def daynum_def sum_Suc_upper)
  next
    case year
    then show ?thesis
      using v d RMONTHDAYS_pos [of 1 "y + 1"] year_sum [of y] sum_Suc_upper [of 12 "\<lambda>i. RMONTHDAYS i y"]
      by (simp add: date_step_def Let_def valid_date_def daynum_def days_before_year_Suc)
  qed
qed

lemma date_step_backward:
  assumes "valid_date d"
  shows "valid_date (date_step (-1) d) \<and> daynum (date_step (-1) d) = daynum d - 1"
proof -
  obtain y m dd where d: "d = (y, m, dd)" by (cases d)
  have v: "1 \<le> m" "m \<le> 12" "1 \<le> dd" "dd \<le> RMONTHDAYS m y"
    using assms d by (simp_all add: valid_date_def)
  consider (day) "dd > 1" | (month) "dd = 1" "m > 1" | (year) "dd = 1" "m = 1"
    using v by linarith
  then show ?thesis
  proof cases
    case day
    then show ?thesis using v d by (simp add: date_step_def Let_def valid_date_def daynum_def)
  next
    case month
    then show ?thesis
      using v d RMONTHDAYS_pos [of "m - 1" y] sum_Suc_upper [of "m - 1" "\<lambda>i. RMONTHDAYS i y"]
      by (simp add: date_step_def Let_def valid_date_def daynum_def)
  next
    case year
    then show ?thesis
      using v d RMONTHDAYS_pos [of 12 "y - 1"] year_sum [of "y - 1"]
        sum_Suc_upper [of 12 "\<lambda>i. RMONTHDAYS i (y - 1)"] days_before_year_Suc [of "y - 1"]
      by (simp add: date_step_def Let_def valid_date_def daynum_def)
  qed
qed

lemma count_loop_daynum:
  assumes "valid_date d" "step = 1 \<or> step = -1"
  shows "valid_date (count_loop n step d) \<and> daynum (count_loop n step d) = daynum d + step * int n"
  using assms
proof (induction n arbitrary: d)
  case (Suc n)
  then have "valid_date (date_step step d) \<and> daynum (date_step step d) = daynum d + step"
    using date_step_forward [OF Suc.prems(1)] date_step_backward [OF Suc.prems(1)] by auto
  with Suc show ?case by (auto simp: algebra_simps)
qed simp

lemma month_class:
  "1 \<le> m \<and> m \<le> 12 \<longleftrightarrow> m \<in> {1, 3, 5, 7, 8, 10, 12} \<or> m \<in> {4, 6, 9, 11} \<or> m = (2::int)"
  by simp presburger

lemma month_days:
  "m \<in> {1, 3, 5, 7, 8, 10, 12} \<Longrightarrow> RMONTHDAYS m y = 31"
  "m \<in> {4, 6, 9, 11} \<Longrightarrow> RMONTHDAYS m y = 30"
  "RMONTHDAYS 2 y = (if IsLeapYear y then 29 else 28)"
  by (auto simp: RMONTHDAYS_def signed_modulo_int_def)

lemma checkdate_iff:
  "checkdate y m d = 0 \<longleftrightarrow> 0 \<le> y \<and> y \<le> 9999 \<and> valid_date (y, m, d)"
proof (cases "1 \<le> m \<and> m \<le> 12")
  case True
  then consider "m \<in> {1, 3, 5, 7, 8, 10, 12}" | "m \<in> {4, 6, 9, 11}" | "m = 2"
    using month_class by blast
  then show ?thesis
  proof cases
    case 1
    with True show ?thesis by (auto simp: checkdate_def valid_date_def month_days(1))
  next
    case 2
    then have "m \<notin> {1, 3, 5, 7, 8, 10, 12}" by auto
    with 2 True show ?thesis by (auto simp: checkdate_def valid_date_def month_days(2))
  next
    case 3
    then show ?thesis
      by (auto simp: checkdate_def valid_date_def month_days(3) IsLeapYear_def)
  qed
next
  case False
  then have "m \<notin> {1, 3, 5, 7, 8, 10, 12}" "m \<notin> {4, 6, 9, 11}" "m \<noteq> 2"
    using month_class [of m] by blast+
  with False show ?thesis by (auto simp: checkdate_def valid_date_def)
qed

lemma for_sum_eq: "for_sum f i hi days = days + (\<Sum>k \<in> {i..<hi}. f k)"
proof (induction f i hi days rule: for_sum.induct)
  case (1 f i hi days)
  show ?case
  proof (cases "i < hi")
    case True
    then have "{i..<hi} = insert i {i + 1..<hi}" by auto
    with 1 True show ?thesis by (simp add: for_sum.simps [of f i])
  next
    case False
    then show ?thesis by (simp add: for_sum.simps [of f i])
  qed
qed

lemma year_sums:
  assumes "a \<le> b"
  shows "(\<Sum>k \<in> {a..<b}. YEARDAYS k) = days_before_year b - days_before_year a"
  using assms
proof (induction b rule: int_ge_induct)
  case (step i)
  then have "{a..<i + 1} = insert i {a..<i}" by auto
  with step show ?case by (simp add: days_before_year_Suc)
qed simp

lemma split_date_ok:
  assumes "check3 (split_date l) = 0" "\<bar>l\<bar> < 2 ^ 31"
  shows "split_date l = (l div 10000, l mod 10000 div 100, l mod 100)" "0 \<le> l"
proof -
  have small: "in_i32 (l sdiv 10000)" "in_i32 (l smod 10000 sdiv 100)" "in_i32 (l smod 100)"
    using assms(2) by (auto simp: in_i32_def signed_divide_int_def signed_modulo_int_def sgn_if)
  show nn: "0 \<le> l"
  proof (rule ccontr)
    assume "\<not> 0 \<le> l"
    then have "l smod 100 \<le> 0"
      by (simp add: signed_modulo_int_def sgn_if)
    then show False
      using assms(1) small by (auto simp: check3_def split_date_def i32_id checkdate_iff valid_date_def)
  qed
  then show "split_date l = (l div 10000, l mod 10000 div 100, l mod 100)"
    using small by (auto simp: split_date_def i32_id signed_divide_int_def signed_modulo_int_def sgn_if)
qed

lemma check3_split: "check3 d = 0 \<longleftrightarrow> 0 \<le> fst d \<and> fst d \<le> 9999 \<and> valid_date d"
  by (cases d) (simp add: check3_def checkdate_iff)

lemma diff_loops:
  assumes "sy \<le> ey"
  shows "for_sum (\<lambda>i. - RMONTHDAYS i sy) 1 sm
           (for_sum (\<lambda>i. RMONTHDAYS i ey) 1 em (for_sum YEARDAYS sy ey 0) + ed) - sd
       = daynum (ey, em, ed) - daynum (sy, sm, sd)"
  using assms by (simp add: for_sum_eq year_sums daynum_def sum_negf)

lemma DiffDate_ordered:
  assumes "l \<le> l'" "check3 (split_date l) = 0" "check3 (split_date l') = 0"
    "\<bar>l\<bar> < 2 ^ 31" "\<bar>l'\<bar> < 2 ^ 31"
  shows "DiffDate l l' = Some (daynum (split_date l') - daynum (split_date l))"
proof -
  obtain sy sm sd ey em ed where s: "split_date l = (sy, sm, sd)" and e: "split_date l' = (ey, em, ed)"
    by (metis prod_cases3)
  have "sy = l div 10000" "ey = l' div 10000"
    using split_date_ok(1) [OF assms(2,4)] split_date_ok(1) [OF assms(3,5)] s e by simp_all
  then have "sy \<le> ey" using assms(1) by (simp add: zdiv_mono1)
  moreover have "checkdate sy sm sd = 0" "checkdate ey em ed = 0"
    using assms(2,3) s e by (simp_all add: check3_def)
  ultimately show ?thesis
    using assms(1) by (simp add: DiffDate_def s e diff_loops)
qed

lemma DiffDate_swapped:
  assumes "l > l'" "check3 (split_date l) = 0" "check3 (split_date l') = 0"
  shows "DiffDate l l' = map_option uminus (DiffDate l' l)"
  using assms by (simp add: DiffDate_def Let_def check3_def split: prod.splits)

lemma DiffDate_daynum:
  assumes "check3 (split_date l) = 0" "check3 (split_date l') = 0" "\<bar>l\<bar> < 2 ^ 31" "\<bar>l'\<bar> < 2 ^ 31"
  shows "DiffDate l l' = Some (daynum (split_date l') - daynum (split_date l))"
proof (cases "l \<le> l'")
  case True
  then show ?thesis using assms by (intro DiffDate_ordered)
next
  case False
  then have "DiffDate l' l = Some (daynum (split_date l) - daynum (split_date l'))"
    using assms by (intro DiffDate_ordered) auto
  with False show ?thesis using assms by (simp add: DiffDate_swapped)
qed

text \<open>The decimal form of a date reads back as the date.\<close>

definition join_date :: "date \<Rightarrow> int" where
  "join_date d = (case d of (y, m, dd) \<Rightarrow> y * 10000 + m * 100 + dd)"

lemma join_bounds:
  assumes "valid_date d" "0 \<le> fst d" "fst d \<le> 9999"
  shows "0 \<le> join_date d" "join_date d < 10 ^ 8"
proof -
  obtain y m dd where d: "d = (y, m, dd)" by (cases d)
  then show "0 \<le> join_date d" "join_date d < 10 ^ 8"
    using assms RMONTHDAYS_pos [of m y] by (auto simp: join_date_def valid_date_def)
qed

lemma split_join:
  assumes "valid_date d" "0 \<le> fst d" "fst d \<le> 9999"
  shows "split_date (join_date d) = d"
proof -
  obtain y m dd where d: "d = (y, m, dd)" by (cases d)
  have v: "1 \<le> m" "m \<le> 12" "1 \<le> dd" "dd \<le> 31" "0 \<le> y" "y \<le> 9999"
    using assms d RMONTHDAYS_pos [of m y] by (auto simp: valid_date_def)
  have a: "join_date d = 10000 * y + (100 * m + dd)" "0 \<le> 100 * m + dd" "100 * m + dd < 10000"
    using v d by (simp_all add: join_date_def)
  have "join_date d div 10000 = y" "join_date d mod 10000 = 100 * m + dd"
    unfolding a(1) using a(2,3) by simp_all
  moreover have "(100 * m + dd) div 100 = m" "(100 * m + dd) mod 100 = dd"
    using v by simp_all
  moreover have "join_date d mod 100 = dd"
    unfolding a(1) using v by (simp add: mod_add_eq [symmetric] mod_mult_left_eq [symmetric])
  moreover have "in_i32 y" "in_i32 m" "in_i32 dd" "0 < join_date d"
    using v a by (simp_all add: in_i32_def)
  ultimately show ?thesis
    using d join_bounds [OF assms] v
    by (simp add: split_date_def signed_divide_int_def signed_modulo_int_def sgn_if i32_id)
qed

lemma atol_show_w8: "0 \<le> x \<Longrightarrow> x < 2 ^ 63 \<Longrightarrow> atol (show_w8 x) = x"
proof -
  assume x: "0 \<le> x" "x < 2 ^ 63"
  obtain c cs where c: "show_nat (nat x) = c # cs"
    using show_nat_nonempty by (meson neq_Nil_conv)
  have d: "isdigit c" using show_nat_digits [of "nat x"] c by simp
  have sp: "dropWhile isspace (replicate n SP @ s) = dropWhile isspace s" for n s
    by (induction n) (auto simp: isspace_def)
  have "digits_val 0 (show_nat (nat x)) = x"
    using digits_val_show [of 0 "nat x" "[]"] x by simp
  then show ?thesis
    using c not_space_digit [OF d] x by (simp add: atol_def show_w8_def show_int_def sp)
qed

text \<open>The year of a valid date is fixed by its day number.\<close>

lemma days_before_year_mono: "a \<le> b \<Longrightarrow> days_before_year a \<le> days_before_year b"
  using year_sums [of a b] sum_nonneg [of "{a..<b}" YEARDAYS] by (simp add: YEARDAYS_def)

lemma month_sum_le: "1 \<le> m \<Longrightarrow> m \<le> 12 \<Longrightarrow>
    (\<Sum>i \<in> {1..<m}. RMONTHDAYS i y) + RMONTHDAYS m y \<le> YEARDAYS y"
proof -
  assume m: "1 \<le> m" "m \<le> 12"
  have "(\<Sum>i \<in> {1..<m + 1}. RMONTHDAYS i y) \<le> (\<Sum>i \<in> {1..<13}. RMONTHDAYS i y)"
    using m RMONTHDAYS_pos [of _ y] by (intro sum_mono2) (auto intro: order_trans [of 0 28])
  then show ?thesis using sum_Suc_upper [of m "\<lambda>i. RMONTHDAYS i y"] m year_sum [of y] by simp
qed

lemma daynum_year:
  assumes "valid_date d"
  shows "days_before_year (fst d) < daynum d \<and> daynum d \<le> days_before_year (fst d + 1)"
proof -
  obtain y m dd where d: "d = (y, m, dd)" by (cases d)
  have v: "1 \<le> m" "m \<le> 12" "1 \<le> dd" "dd \<le> RMONTHDAYS m y"
    using assms d by (simp_all add: valid_date_def)
  have "0 \<le> (\<Sum>i \<in> {1..<m}. RMONTHDAYS i y)"
    using RMONTHDAYS_pos [of _ y] by (intro sum_nonneg) (auto intro: order_trans [of 0 28])
  then show ?thesis
    using month_sum_le [OF v(1,2), of y] v d by (simp add: daynum_def days_before_year_Suc)
qed

lemma daynum_years_4:
  assumes "valid_date d" "1 \<le> daynum d" "daynum d \<le> 3652425"
  shows "0 \<le> fst d \<and> fst d \<le> 9999"
proof -
  have b: "days_before_year 0 = 0" "days_before_year 10000 = 3652425"
    by (simp_all add: days_before_year_def)
  have "\<not> fst d + 1 \<le> 0"
    using daynum_year [OF assms(1)] days_before_year_mono [of "fst d + 1" 0] b assms(2) by linarith
  moreover have "\<not> 10000 \<le> fst d"
    using daynum_year [OF assms(1)] days_before_year_mono [of 10000 "fst d"] b assms(3) by linarith
  ultimately show ?thesis by linarith
qed

lemma CountDate_some:
  assumes "check3 (split_date (atol s)) = 0"
  shows "\<exists>d. CountDate s k = Some (show_w8 (i32 (join_date d))) \<and> valid_date d
    \<and> daynum d = daynum (split_date (atol s)) + k"
proof -
  define st where "st = (if k \<ge> 0 then 1 else - 1 :: int)"
  define d where "d = count_loop (nat \<bar>k\<bar>) st (split_date (atol s))"
  have v: "valid_date (split_date (atol s))" using assms by (simp add: check3_split)
  have "valid_date d \<and> daynum d = daynum (split_date (atol s)) + st * int (nat \<bar>k\<bar>)"
    unfolding d_def by (rule count_loop_daynum [OF v]) (simp add: st_def)
  moreover have "st * int (nat \<bar>k\<bar>) = k" by (simp add: st_def)
  moreover have "CountDate s k = Some (show_w8 (i32 (join_date d)))"
    using assms by (simp add: CountDate_def Let_def d_def st_def join_date_def split: prod.splits)
  ultimately show ?thesis by (intro exI [of _ d]) simp
qed

section \<open>Properties\<close>





end
