(* ===== verification/Trace.thy ===== *)
theory Trace
  imports DateTime
begin

text \<open>
  The trace files: \<open>src/dev/src/pubfun/common/funtrace.c\<close>. \<open>SysLog\<close> appends a line to the log of the day, \<open>SysTrace\<close> a hexadecimal
  dump of a buffer to the message file. The environment is a record (\<open>HOME\<close>, \<open>LOG_MODE\<close>, the clock, which files can be opened), the
  file system a map from names to contents. Names are absolute, so that the calls of \<open>chdir\<close> change nothing here.

  \<open>SysTrace\<close> writes more into its small local arrays than they hold. \<open>slack\<close> is the number of bytes behind such an array that may be
  overwritten without harm, 0 by the standard: the dump is right when there are eight of them, as padding often gives, and with 0
  the function is undefined whenever it writes.
\<close>

section \<open>Definitions\<close>

record tenv =
  tv_home :: "string option"
  tv_mode :: "string option"
  tv_pid :: int
  tv_now :: tm
  tv_opens :: "string \<Rightarrow> bool"
  tv_log :: string
  tv_msg :: string

record lfs =
  lf_files :: "string \<Rightarrow> string option"
  lf_dirs :: "string list"

definition LOG_SIZE_UNIT :: nat where "LOG_SIZE_UNIT = 1000000"

text \<open>A string with its terminator in an array of \<open>n\<close> bytes.\<close>

definition in_array :: "nat \<Rightarrow> string \<Rightarrow> string cres" where
  "in_array n s = (if length s < n then Ret s else Crash BufOverflow)"

definition log_mode :: "int \<Rightarrow> tenv \<Rightarrow> int" where
  "log_mode dflt e = (case tv_mode e of None \<Rightarrow> dflt | Some m \<Rightarrow> atoi m)"

definition write_file :: "string \<Rightarrow> string \<Rightarrow> lfs \<Rightarrow> lfs" where
  "write_file f t fs = fs\<lparr>lf_files := (lf_files fs)(f \<mapsto> (case lf_files fs f of None \<Rightarrow> [] | Some c \<Rightarrow> c) @ t)\<rparr>"

text \<open>The directory of the day below \<open>dir\<close>, and the file \<open>name\<close> in it.\<close>

definition day_file :: "string \<Rightarrow> string \<Rightarrow> tenv \<Rightarrow> lfs \<Rightarrow> (string \<times> lfs) cres" where
  "day_file suffix name e fs =
     (case tv_home e of None \<Rightarrow> Crash NullDeref
      | Some home \<Rightarrow>
          cbind (in_array 129 (home @ suffix)) (\<lambda>d.
          cbind (in_array 129 (d @ ''/'' @ GetDate (tv_now e))) (\<lambda>d.
          cbind (in_array 129 (d @ ''/'' @ name)) (\<lambda>f.
          Ret (f, fs\<lparr>lf_dirs := d # lf_dirs fs\<rparr>)))))"

definition GetTraceFileName :: "tenv \<Rightarrow> lfs \<Rightarrow> (string \<times> lfs) cres" where
  "GetTraceFileName e fs =
     cbind (day_file ''/log'' (tv_log e) e fs) (\<lambda>(f, fs).
       case lf_files fs f of
         None \<Rightarrow> Ret (f, fs)
       | Some c \<Rightarrow>
           if length c \<ge> LOG_SIZE_UNIT * 5 then
             cbind (in_array 15 (GetCurrentTime (tv_now e))) (\<lambda>t.
             cbind (in_array 129 (f @ ''.'' @ take 4 (drop 8 t))) (\<lambda>g.
             Ret (f, fs\<lparr>lf_files := (lf_files fs)(f := None, g \<mapsto> c)\<rparr>)))
           else Ret (f, fs))"

definition GetMsgFileName :: "tenv \<Rightarrow> lfs \<Rightarrow> (string \<times> lfs) cres" where
  "GetMsgFileName e fs = day_file [] (tv_msg e) e fs"

text \<open>\<open>%15.15s\<close>\<close>

definition right15 :: "string \<Rightarrow> string" where
  "right15 s = replicate (15 - length s) SP @ take 15 s"

definition log_line :: "tenv \<Rightarrow> string \<Rightarrow> string \<Rightarrow> int \<Rightarrow> string \<Rightarrow> string" where
  "log_line e now file line msg = ''['' @ zero_d 6 (tv_pid e) @ '']['' @ now @ '']['' @ right15 file @ '']['' @ zero_d 5 line @ ''] '' @ msg @ [NL]"

text \<open>\<open>msg\<close> is the text that \<open>vsprintf\<close> makes; it is made before the level is looked at.\<close>

definition SysLog :: "int \<Rightarrow> string \<Rightarrow> int \<Rightarrow> string \<Rightarrow> tenv \<Rightarrow> lfs \<Rightarrow> lfs cres" where
  "SysLog nLevel file line msg e fs =
     cbind (in_array 10241 msg) (\<lambda>msg.
       if nLevel = 0 \<or> nLevel > log_mode 9 e then Ret fs
       else cbind (GetTraceFileName e fs) (\<lambda>(f, fs).
         if \<not> tv_opens e f then Ret fs
         else cbind (in_array 15 (GetCurrentTime (tv_now e))) (\<lambda>now. Ret (write_file f (log_line e now file line msg) fs))))"

subsection \<open>The dump\<close>

definition hex_digit :: "nat \<Rightarrow> char" where
  "hex_digit n = ''0123456789ABCDEF'' ! n"

definition hex2 :: "char \<Rightarrow> string" where
  "hex2 c = [hex_digit (of_char c div 16), hex_digit (of_char c mod 16)]"

text \<open>In the C locale, with the bytes from 128 on not printable.\<close>

definition isprint :: "char \<Rightarrow> bool" where
  "isprint c \<longleftrightarrow> 32 \<le> (of_char c :: nat) \<and> (of_char c :: nat) < 127"

text \<open>\<open>memcpy(&s[k], t, length t)\<close>\<close>

fun put :: "nat \<Rightarrow> string \<Rightarrow> string \<Rightarrow> string" where
  "put k [] s = s"
| "put k (c # t) s = put (k + 1) t (s[k := c])"

text \<open>\<open>j*3+5+(j>7)\<close> and \<open>j+55+(j>7)\<close>\<close>

definition hex_col :: "nat \<Rightarrow> nat" where
  "hex_col j = j * 3 + 5 + (if j > 7 then 1 else 0)"

definition chr_col :: "nat \<Rightarrow> nat" where
  "chr_col j = j + 55 + (if j > 7 then 1 else 0)"

definition new_row :: "nat \<Rightarrow> nat \<Rightarrow> string cres" where
  "new_row slack i =
     cbind (in_array (5 + slack) (zero_d 4 (int i) @ '':'')) (\<lambda>a.
     cbind (in_array (5 + slack) ('':'' @ zero_d 4 (int i + 15))) (\<lambda>b.
     Ret (put 72 (take 5 b) (put 0 (take 5 a) (replicate 100 SP)))))"

definition put_byte :: "nat \<Rightarrow> char \<Rightarrow> string \<Rightarrow> string" where
  "put_byte j c s = (put (hex_col j) (hex2 c @ '' '') s)[chr_col j := if isprint c then c else CHR ''.'']"

definition row_text :: "string \<Rightarrow> string" where
  "row_text s = c_str (s[77 := NUL]) @ [NL]"

text \<open>The turns for the bytes \<open>cs\<close>, the first of which has the number \<open>i\<close>; \<open>t\<close> is what has been printed.\<close>

fun dump_loop :: "nat \<Rightarrow> string \<Rightarrow> nat \<Rightarrow> nat \<Rightarrow> string \<Rightarrow> string \<Rightarrow> string cres" where
  "dump_loop slack [] i j s t = Ret (if j > 0 then t @ row_text s else t)"
| "dump_loop slack (c # cs) i j s t =
     cbind (if j = 0 then new_row slack i else Ret s) (\<lambda>s.
       let s = put_byte j c s
       in if j + 1 = 16 then dump_loop slack cs (i + 1) 0 s (t @ row_text s)
          else dump_loop slack cs (i + 1) (j + 1) s t)"

definition rule80 :: string where
  "rule80 = replicate 80 (CHR ''-'') @ [NL]"

definition SysTrace :: "nat \<Rightarrow> int \<Rightarrow> string \<Rightarrow> int \<Rightarrow> string \<Rightarrow> int \<Rightarrow> tenv \<Rightarrow> lfs \<Rightarrow> lfs cres" where
  "SysTrace slack nLevel file line sBuf nLen e fs =
     (if nLevel = 0 \<or> nLevel > log_mode 0 e then Ret fs
      else cbind (GetMsgFileName e fs) (\<lambda>(f, fs).
        if \<not> tv_opens e f then Ret fs
        else cbind (in_array (7 + slack) (GetCurrentTime (tv_now e))) (\<lambda>now.
          if nat nLen > length sBuf then Crash OutOfBounds
          else cbind (dump_loop slack (take (nat nLen) sBuf) 0 0 [] []) (\<lambda>t.
            Ret (write_file f (''('' @ zero_d 6 (tv_pid e) @ '')['' @ now @ '']['' @ file @ '']['' @ show_int line @ '']'' @ [NL] @
              rule80 @ t @ rule80) fs)))))"

section \<open>One row of the dump\<close>

lemma put_length [simp]: "length (put k t s) = length s"
  by (induction t arbitrary: k s) simp_all

lemma put_nth: "m < length s \<Longrightarrow> put k t s ! m = (if k \<le> m \<and> m < k + length t then t ! (m - k) else s ! m)"
proof (induction t arbitrary: k s)
  case (Cons c t)
  then show ?case by (cases "m = k") (auto simp: nth_Cons' nth_list_update)
qed auto

lemma put_set: "set (put k t s) \<subseteq> set t \<union> set s"
proof (induction t arbitrary: k s)
  case (Cons c t)
  show ?case using Cons [of "k + 1" "s[k := c]"] set_update_subset_insert [of s k c] by auto
qed simp

lemma hex_digit_cases: "n < 16 \<Longrightarrow> hex_digit n \<in> set ''0123456789ABCDEF''"
  unfolding hex_digit_def by (rule nth_mem) simp

lemma hex_not [simp]: "n < 16 \<Longrightarrow> hex_digit n \<noteq> SP" "n < 16 \<Longrightarrow> hex_digit n \<noteq> NUL"
  using hex_digit_cases [of n] by auto

lemma put_byte_keeps:
  assumes "length s = 100" "NUL \<notin> set s"
  shows "length (put_byte j c s) = 100 \<and> NUL \<notin> set (put_byte j c s)"
proof -
  have b: "of_char c div 16 < (16 :: nat)" "of_char c mod 16 < (16 :: nat)" by (simp_all add: less_mult_imp_div_less)
  have d: "(if isprint c then c else CHR ''.'') \<noteq> NUL" by (auto simp: isprint_def)
  have "NUL \<notin> set (hex2 c @ '' '')" using hex_not(2) [OF b(1), THEN not_sym] hex_not(2) [OF b(2), THEN not_sym] by (simp add: hex2_def)
  then have "NUL \<notin> set (put (hex_col j) (hex2 c @ '' '') s)" using put_set [of "hex_col j" "hex2 c @ '' ''" s] assms(2) by blast
  then show ?thesis using assms(1) d set_update_subset_insert [of _ "chr_col j" "if isprint c then c else CHR ''.''"]
    unfolding put_byte_def by fastforce
qed

lemma hex_col_apart:
  assumes "j < 16" "k < 16"
  shows "hex_col j \<le> hex_col k \<and> hex_col k < hex_col j + 3 \<longleftrightarrow> k = j" "hex_col j \<le> hex_col k + 1 \<and> hex_col k + 1 < hex_col j + 3 \<longleftrightarrow> k = j"
    "chr_col j \<noteq> hex_col k" "chr_col j \<noteq> hex_col k + 1" "hex_col k + 1 < 100"
  using assms unfolding hex_col_def chr_col_def by (auto split: if_splits; presburger)+

lemma put_byte_hex:
  assumes "length s = 100" "j < 16" "k < 16"
  shows "put_byte j c s ! hex_col k = (if k = j then hex_digit (of_char c div 16) else s ! hex_col k)"
    "put_byte j c s ! (hex_col k + 1) = (if k = j then hex_digit (of_char c mod 16) else s ! (hex_col k + 1))"
  using hex_col_apart [OF assms(2,3)] assms(1) by (auto simp: put_byte_def put_nth hex2_def nth_list_update)

fun fill :: "nat \<Rightarrow> string \<Rightarrow> string \<Rightarrow> string" where
  "fill j [] s = s"
| "fill j (c # cs) s = fill (j + 1) cs (put_byte j c s)"

lemma fill_keeps: "length s = 100 \<Longrightarrow> NUL \<notin> set s \<Longrightarrow> length (fill j cs s) = 100 \<and> NUL \<notin> set (fill j cs s)"
proof (induction cs arbitrary: j s)
  case (Cons c cs)
  then show ?case using put_byte_keeps [of s j c] by simp
qed simp

lemma fill_hex:
  "length s = 100 \<Longrightarrow> NUL \<notin> set s \<Longrightarrow> j + length cs \<le> 16 \<Longrightarrow> k < 16 \<Longrightarrow>
    fill j cs s ! hex_col k = (if j \<le> k \<and> k < j + length cs then hex_digit (of_char (cs ! (k - j)) div 16) else s ! hex_col k) \<and>
    fill j cs s ! (hex_col k + 1) = (if j \<le> k \<and> k < j + length cs then hex_digit (of_char (cs ! (k - j)) mod 16) else s ! (hex_col k + 1))"
proof (induction cs arbitrary: j s)
  case (Cons c cs)
  have "j < 16" using Cons.prems by simp
  then show ?case using Cons.IH [of "put_byte j c s" "j + 1"] put_byte_keeps [OF Cons.prems(1,2), of j c] put_byte_hex [OF Cons.prems(1), of j k c] Cons.prems
    by (auto simp: nth_Cons')
qed auto

lemma row_text_take: "length s = 100 \<Longrightarrow> NUL \<notin> set s \<Longrightarrow> row_text s = take 77 s @ [NL]"
proof -
  assume s: "length s = 100" "NUL \<notin> set s"
  have "s[77 := NUL] = take 77 s @ NUL # drop 78 s" using s(1) by (simp add: upd_conv_take_nth_drop)
  moreover have "\<forall>c \<in> set (take 77 s). c \<noteq> NUL" using s(2) in_set_takeD by fastforce
  ultimately show "row_text s = take 77 s @ [NL]" unfolding row_text_def c_str_def by (simp add: takeWhile_append2)
qed

text \<open>Reading a row.\<close>

definition unhex :: "char \<Rightarrow> nat" where
  "unhex c = length (takeWhile (\<lambda>d. d \<noteq> c) ''0123456789ABCDEF'')"

definition read_row :: "string \<Rightarrow> string" where
  "read_row l = map (\<lambda>j. char_of (unhex (l ! hex_col j) * 16 + unhex (l ! (hex_col j + 1)))) (filter (\<lambda>j. l ! hex_col j \<noteq> SP) [0..<16])"

function undump :: "string \<Rightarrow> string" where
  "undump t = (if t = [] then [] else read_row (take 78 t) @ undump (drop 78 t))"
  by pat_completeness auto
termination
  by (relation "measure length") auto

declare undump.simps [simp del]

lemma unhex_digit [simp]: "n < 16 \<Longrightarrow> unhex (hex_digit n) = n"
proof -
  have "\<forall>n \<in> set [0..<16]. unhex (hex_digit n) = n" by (simp add: upt_rec unhex_def hex_digit_def)
  then show "n < 16 \<Longrightarrow> unhex (hex_digit n) = n" by simp
qed

lemma read_filled:
  assumes s: "length s = 100" "NUL \<notin> set s" "\<And>k. k < 16 \<Longrightarrow> s ! hex_col k = SP" and cs: "length cs \<le> 16"
  shows "read_row (take 77 (fill 0 cs s) @ [NL]) = cs"
proof -
  let ?l = "take 77 (fill 0 cs s) @ [NL]"
  have len: "length (fill 0 cs s) = 100" using fill_keeps [OF s(1,2)] by blast
  have c: "hex_col k + 1 < 77" if "k < 16" for k using that by (auto simp: hex_col_def)
  have l: "?l ! hex_col k = fill 0 cs s ! hex_col k" "?l ! (hex_col k + 1) = fill 0 cs s ! (hex_col k + 1)" if "k < 16" for k
    using len c [OF that] by (simp_all add: nth_append)
  have hi: "?l ! hex_col k = (if k < length cs then hex_digit (of_char (cs ! k) div 16) else SP)"
    and lo: "k < length cs \<Longrightarrow> ?l ! (hex_col k + 1) = hex_digit (of_char (cs ! k) mod 16)" if "k < 16" for k
    unfolding l [OF that] using fill_hex [OF s(1,2), of 0 cs k] cs that s(3) [OF that] by simp_all
  have b: "of_char (cs ! k) div 16 < (16 :: nat)" "of_char (cs ! k) mod 16 < (16 :: nat)" for k by (simp_all add: less_mult_imp_div_less)
  have "filter (\<lambda>j. ?l ! hex_col j \<noteq> SP) [0..<16] = filter (\<lambda>j. j < length cs) [0..<16]"
    by (rule filter_cong [OF refl]) (use hi hex_not(1) [OF b(1)] in auto)
  also have "\<dots> = [0..<length cs]"
  proof -
    have "[0..<16] = [0..<length cs] @ [length cs..<16]" using cs upt_add_eq_append [of 0 "length cs" "16 - length cs"] by simp
    then show ?thesis by (simp add: filter_empty_conv)
  qed
  finally have f: "filter (\<lambda>j. ?l ! hex_col j \<noteq> SP) [0..<16] = [0..<length cs]" .
  have "char_of (unhex (?l ! hex_col j) * 16 + unhex (?l ! (hex_col j + 1))) = cs ! j" if "j < length cs" for j
    using that cs hi [of j] lo [of j] b [of j] by (simp add: div_mult_mod_eq)
  then show ?thesis unfolding read_row_def f by (intro nth_equalityI) simp_all
qed

section \<open>The whole dump\<close>

text \<open>A new row, and the text of the dump as rows of sixteen bytes.\<close>

definition base_row :: "nat \<Rightarrow> string" where
  "base_row i = put 72 (take 5 ('':'' @ zero_d 4 (int i + 15))) (put 0 (take 5 (zero_d 4 (int i) @ '':'')) (replicate 100 SP))"

function dump_rows :: "nat \<Rightarrow> string \<Rightarrow> string" where
  "dump_rows i cs = (if cs = [] then [] else row_text (fill 0 (take 16 cs) (base_row i)) @ dump_rows (i + 16) (drop 16 cs))"
  by pat_completeness auto
termination
  by (relation "measure (\<lambda>(i, cs). length cs)") auto

declare dump_rows.simps [simp del]

lemma zero_d_nat: "zero_d w (int n) = show_pad w n"
  by (simp add: zero_d_def)

lemma zero_d_nat15: "zero_d w (int n + 15) = show_pad w (n + 15)"
  by (simp add: zero_d_def nat_add_distrib)

lemma base_row_ok: "length (base_row i) = 100" "NUL \<notin> set (base_row i)" "k < 16 \<Longrightarrow> base_row i ! hex_col k = SP"
proof -
  have d: "NUL \<notin> set (show_pad w n)" for w n using show_pad_digits [of w n] by (auto simp: isdigit_def)
  show "length (base_row i) = 100" by (simp add: base_row_def)
  have "NUL \<notin> set (take 5 ('':'' @ zero_d 4 (int i + 15)))" "NUL \<notin> set (take 5 (zero_d 4 (int i) @ '':''))"
    using d by (auto simp: zero_d_nat zero_d_nat15 dest: in_set_takeD)
  then show "NUL \<notin> set (base_row i)"
    using put_set [of 72 "take 5 ('':'' @ zero_d 4 (int i + 15))" "put 0 (take 5 (zero_d 4 (int i) @ '':'')) (replicate 100 SP)"]
      put_set [of 0 "take 5 (zero_d 4 (int i) @ '':'')" "replicate 100 SP"] unfolding base_row_def by auto
  show "base_row i ! hex_col k = SP" if "k < 16"
  proof -
    have m: "5 \<le> hex_col k" "hex_col k < 72" using that by (auto simp: hex_col_def)
    have p: "put 72 b (put 0 a (replicate 100 SP)) ! m = SP" if "length a \<le> 5" "5 \<le> m" "m < 72" for a b m
      using that by (simp add: put_nth)
    show ?thesis unfolding base_row_def by (rule p) (use m in simp_all)
  qed
qed

lemma new_row_ok:
  assumes "int i + 15 < 10 ^ 10" "7 \<le> slack"
  shows "new_row slack i = Ret (base_row i)"
proof -
  have "length (show_pad 4 n) < 11" if "n < 10 ^ 10" for n :: nat
    using show_nat_length [of n 10] that by (simp add: show_pad_def)
  from this [of i] this [of "i + 15"] assms show ?thesis
    by (simp add: new_row_def in_array_def zero_d_nat zero_d_nat15 base_row_def)
qed

text \<open>A row in progress takes the bytes up to its end.\<close>

lemma dump_row:
  "0 < j \<Longrightarrow> j < 16 \<Longrightarrow> dump_loop slack cs i j s t = (let r = row_text (fill j (take (16 - j) cs) s) in
     if j + length cs < 16 then Ret (t @ r) else dump_loop slack (drop (16 - j) cs) (i + (16 - j)) 0 (fill j (take (16 - j) cs) s) (t @ r))"
proof (induction "16 - j" arbitrary: cs i j s)
  case (Suc k)
  show ?case
  proof (cases cs)
    case Nil
    then show ?thesis using Suc.prems by (simp add: Let_def)
  next
    case (Cons c r)
    have j: "16 - j = Suc (16 - (j + 1))" using Suc.prems by simp
    show ?thesis
    proof (cases "j + 1 = 16")
      case True
      then show ?thesis using Cons Suc.prems by (simp add: Let_def numeral_eq_Suc)
    next
      case False
      then have "dump_loop slack cs i j s t = dump_loop slack r (i + 1) (j + 1) (put_byte j c s) t" using Cons Suc.prems by (simp add: Let_def)
      also have "\<dots> = (let q = row_text (fill (j + 1) (take (16 - (j + 1)) r) (put_byte j c s)) in
          if j + 1 + length r < 16 then Ret (t @ q)
          else dump_loop slack (drop (16 - (j + 1)) r) (i + 1 + (16 - (j + 1))) 0 (fill (j + 1) (take (16 - (j + 1)) r) (put_byte j c s)) (t @ q))"
        by (rule Suc.hyps(1)) (use Suc.hyps(2) Suc.prems False in auto)
      finally have "dump_loop slack cs i j s t = \<dots>" .
      moreover have "take (16 - j) cs = c # take (16 - (j + 1)) r" "drop (16 - j) cs = drop (16 - (j + 1)) r"
        "i + (16 - j) = i + 1 + (16 - (j + 1))" "j + length cs = j + 1 + length r" unfolding j Cons by simp_all
      ultimately show ?thesis by (simp only: fill.simps)
    qed
  qed
qed simp

lemma dump_loop_rows:
  "int i + int (length cs) + 15 < 10 ^ 10 \<Longrightarrow> 7 \<le> slack \<Longrightarrow> dump_loop slack cs i 0 s t = Ret (t @ dump_rows i cs)"
proof (induction cs arbitrary: i s t rule: length_induct)
  case (1 cs)
  show ?case
  proof (cases cs)
    case Nil
    then show ?thesis by (simp add: dump_rows.simps [of i "[]"])
  next
    case (Cons c r)
    let ?s = "put_byte 0 c (base_row i)" and ?u = "fill 0 (take 16 cs) (base_row i)"
    have n: "16 - 1 = (15 :: nat)" "i + 1 + 15 = i + 16" by simp_all
    have f: "fill 1 (take 15 r) ?s = ?u" using Cons by (simp add: numeral_eq_Suc)
    have e: "dump_rows i cs = row_text ?u @ dump_rows (i + 16) (drop 16 cs)" using Cons by (subst dump_rows.simps) simp
    have "dump_loop slack cs i 0 s t = dump_loop slack r (i + 1) 1 ?s t"
      using Cons new_row_ok [of i slack] "1.prems" by (simp add: Let_def)
    also have "\<dots> = (if 1 + length r < 16 then Ret (t @ row_text ?u) else dump_loop slack (drop 15 r) (i + 16) 0 ?u (t @ row_text ?u))"
      using dump_row [of 1 slack r "i + 1" ?s t] unfolding Let_def n f by simp
    also have "\<dots> = Ret (t @ dump_rows i cs)"
    proof (cases "1 + length r < 16")
      case True
      then show ?thesis using e Cons by (simp add: dump_rows.simps [of _ "[]"])
    next
      case False
      have "dump_loop slack (drop 16 cs) (i + 16) 0 ?u (t @ row_text ?u) = Ret ((t @ row_text ?u) @ dump_rows (i + 16) (drop 16 cs))"
        by (rule "1.IH" [rule_format]) (use "1.prems" Cons False in auto)
      then show ?thesis using e False Cons by simp
    qed
    finally show ?thesis .
  qed
qed

lemma undump_rows: "undump (dump_rows i cs) = cs"
proof (induction cs arbitrary: i rule: length_induct)
  case (1 cs)
  show ?case
  proof (cases "cs = []")
    case True
    then show ?thesis by (simp add: dump_rows.simps undump.simps)
  next
    case False
    let ?u = "fill 0 (take 16 cs) (base_row i)"
    have u: "length ?u = 100" "NUL \<notin> set ?u" using fill_keeps [OF base_row_ok(1,2)] by auto
    have e: "dump_rows i cs = (take 77 ?u @ [NL]) @ dump_rows (i + 16) (drop 16 cs)"
      using False row_text_take [OF u] by (simp add: dump_rows.simps [of i cs])
    have "read_row (take 77 ?u @ [NL]) = take 16 cs" by (rule read_filled [OF base_row_ok]) simp_all
    moreover have "length (take 77 ?u @ [NL]) = 78" using u by simp
    ultimately have "undump (dump_rows i cs) = take 16 cs @ undump (dump_rows (i + 16) (drop 16 cs))"
      unfolding e by (subst undump.simps) simp
    also have "undump (dump_rows (i + 16) (drop 16 cs)) = drop 16 cs" by (rule "1.IH" [rule_format]) (use False in simp)
    finally show ?thesis by simp
  qed
qed

section \<open>Properties\<close>

definition clock_ok :: "tm \<Rightarrow> bool" where
  "clock_ok t \<longleftrightarrow> - 1900 \<le> tm_year t \<and> tm_year t < 8100 \<and> 0 \<le> tm_mon t \<and> tm_mon t < 12 \<and> 1 \<le> tm_mday t \<and> tm_mday t \<le> 31 \<and>
     0 \<le> tm_hour t \<and> tm_hour t < 24 \<and> 0 \<le> tm_min t \<and> tm_min t < 60 \<and> 0 \<le> tm_sec t \<and> tm_sec t \<le> 60"

lemma zero_d_length: "0 \<le> x \<Longrightarrow> x < 10 ^ w \<Longrightarrow> 0 < w \<Longrightarrow> length (zero_d w x) = w"
  using show_pad_length [of "nat x" w] by (simp add: zero_d_def nat_less_iff)

lemma prec_d_length: "0 \<le> x \<Longrightarrow> x < 10 ^ w \<Longrightarrow> 0 < w \<Longrightarrow> length (prec_d w x) = w"
  using show_pad_length [of "nat x" w] by (simp add: prec_d_def nat_less_iff)

lemma clock_length: "clock_ok t \<Longrightarrow> length (GetCurrentTime t) = 14" "clock_ok t \<Longrightarrow> length (GetDate t) = 8"
  using show_nat_length [of "nat (tm_year t + 1900)" 4]
  by (auto simp: GetCurrentTime_def GetDate_def clock_ok_def zero_d_length prec_d_length wide_d_def show_int_def nat_less_iff)

lemma day_file_ok:
  assumes "tv_home e = Some home" "length (home @ suffix @ ''/'' @ GetDate (tv_now e) @ ''/'' @ name) < 129"
  shows "day_file suffix name e fs = Ret (home @ suffix @ ''/'' @ GetDate (tv_now e) @ ''/'' @ name,
    fs\<lparr>lf_dirs := (home @ suffix @ ''/'' @ GetDate (tv_now e)) # lf_dirs fs\<rparr>)"
  using assms by (simp add: day_file_def in_array_def)

definition old_text :: "string \<Rightarrow> lfs \<Rightarrow> string" where
  "old_text f fs = (case lf_files fs f of None \<Rightarrow> [] | Some c \<Rightarrow> c)"

text \<open>\<open>SysLog\<close> appends one line to the log of the day; a file of five million bytes or more is put aside first.\<close>

theorem SysLog_appends:
  assumes h: "tv_home e = Some home" and f: "f = home @ ''/log/'' @ GetDate (tv_now e) @ ''/'' @ tv_log e" "length f < 124" "tv_opens e f"
    and c: "clock_ok (tv_now e)" and l: "nLevel \<noteq> 0" "nLevel \<le> log_mode 9 e" and m: "length msg \<le> 10240"
  shows "\<exists>fs'. SysLog nLevel file line msg e fs = Ret fs' \<and>
    lf_files fs' f = Some ((if length (old_text f fs) < 5000000 then old_text f fs else []) @ log_line e (GetCurrentTime (tv_now e)) file line msg) \<and>
    (length (old_text f fs) \<ge> 5000000 \<longrightarrow> lf_files fs' (f @ ''.'' @ take 4 (drop 8 (GetCurrentTime (tv_now e)))) = Some (old_text f fs))"
proof -
  let ?d = "home @ ''/log/'' @ GetDate (tv_now e)"
  have d: "day_file ''/log'' (tv_log e) e fs = Ret (f, fs\<lparr>lf_dirs := ?d # lf_dirs fs\<rparr>)"
    using day_file_ok [OF h, of "''/log''" "tv_log e" fs] f(1,2) by simp
  show ?thesis
    using clock_length [OF c] l m f(2,3)
    by (cases "lf_files fs f"; cases "length (old_text f fs) < 5000000")
      (auto simp: SysLog_def GetTraceFileName_def d in_array_def write_file_def old_text_def LOG_SIZE_UNIT_def)
qed

lemma SysTrace_fits:
  assumes h: "tv_home e = Some home" and f: "f = home @ ''/'' @ GetDate (tv_now e) @ ''/'' @ tv_msg e" "length f < 129" "tv_opens e f"
    and c: "clock_ok (tv_now e)" and l: "nLevel \<noteq> 0" "nLevel \<le> log_mode 0 e" and n: "nLen \<le> int (length sBuf)" "nLen < 2 ^ 31" and s: "8 \<le> slack"
  shows "SysTrace slack nLevel file line sBuf nLen e fs =
    Ret (write_file f (''('' @ zero_d 6 (tv_pid e) @ '')['' @ GetCurrentTime (tv_now e) @ '']['' @ file @ '']['' @ show_int line @ '']'' @ [NL] @
      rule80 @ dump_rows 0 (take (nat nLen) sBuf) @ rule80) (fs\<lparr>lf_dirs := (home @ ''/'' @ GetDate (tv_now e)) # lf_dirs fs\<rparr>))"
proof -
  have d: "day_file [] (tv_msg e) e fs = Ret (f, fs\<lparr>lf_dirs := (home @ ''/'' @ GetDate (tv_now e)) # lf_dirs fs\<rparr>)"
    using day_file_ok [OF h, of "[]" "tv_msg e" fs] f(1,2) by simp
  have "dump_loop slack (take (nat nLen) sBuf) 0 0 [] [] = Ret ([] @ dump_rows 0 (take (nat nLen) sBuf))"
    by (rule dump_loop_rows) (use n s in auto)
  then show ?thesis using clock_length [OF c] l f(2,3) n s by (simp add: SysTrace_def GetMsgFileName_def d in_array_def nat_le_iff)
qed


definition demo_env :: tenv where
  "demo_env = \<lparr>tv_home = Some ''/h'', tv_mode = Some ''4'', tv_pid = 7, tv_now = \<lparr>tm_year = 112, tm_mon = 2, tm_mday = 17, tm_hour = 9, tm_min = 30, tm_sec = 0\<rparr>,
     tv_opens = (\<lambda>_. True), tv_log = ''a.log'', tv_msg = ''a.msg''\<rparr>"


text \<open>Without that room, by the rules of the language, the function is undefined whenever it writes: the time alone takes fifteen bytes
  of an array of seven.\<close>

theorem SysTrace_overruns:
  assumes "tv_home e = Some home" "length (home @ ''/'' @ GetDate (tv_now e) @ ''/'' @ tv_msg e) < 129"
    "tv_opens e (home @ ''/'' @ GetDate (tv_now e) @ ''/'' @ tv_msg e)" "clock_ok (tv_now e)" "nLevel \<noteq> 0" "nLevel \<le> log_mode 0 e"
  shows "SysTrace 0 nLevel file line sBuf nLen e fs = Crash BufOverflow"
  using day_file_ok [OF assms(1), of "[]" "tv_msg e" fs] clock_length [OF assms(4)] assms(2,3,5,6)
  by (simp add: SysTrace_def GetMsgFileName_def in_array_def)

end
