(* ===== verification/CfgFile.thy ===== *)
theory CfgFile
  imports CString
begin

text \<open>
  The configuration file reader, \<open>src/dev/src/pubfun/common/funfile.c\<close>.

  An open file is what is left to read, the whole text (for \<open>fseek\<close> to the start) and the
  end-of-file flag of the stream. \<open>fgets\<close> reads up to 512 characters or a line end, whichever
  comes first, and raises the flag only when it runs into the end of the data. The two search loops
  (\<open>cf_locate\<close>, \<open>cf_nextparm\<close>) share one loop, \<open>cf_seek\<close>, which ends because every
  \<open>fgets\<close> either consumes text or raises the flag. \<open>strcpy\<close> into the caller's buffer is a
  \<open>Crash BufOverflow\<close> when the text does not fit.

  \<open>cf_params\<close> is the abstract view: the values that successive calls of \<open>cf_nextparm\<close>
  deliver. The locale \<open>param_source\<close> states the contract that the callers in \<open>tuxmgr.c\<close> and
  \<open>Governor.c\<close> rely on.
\<close>

section \<open>The stream\<close>

record cfile =
  cf_data :: string
  cf_all :: string
  cf_eof :: bool

definition cf_open :: "string \<Rightarrow> cfile" where
  "cf_open txt = \<lparr>cf_data = txt, cf_all = txt, cf_eof = False\<rparr>"

fun take_line :: "nat \<Rightarrow> string \<Rightarrow> string" where
  "take_line 0 s = []"
| "take_line (Suc n) [] = []"
| "take_line (Suc n) (c # cs) = c # (if c = NL then [] else take_line n cs)"

text \<open>\<open>fgets(bp, size, fp)\<close> into a zeroed buffer.\<close>

definition fgets :: "nat \<Rightarrow> cfile \<Rightarrow> string \<times> cfile" where
  "fgets sz f =
     (let got = take_line (sz - 1) (cf_data f)
      in (c_str got,
          f\<lparr>cf_data := drop (length got) (cf_data f),
            cf_eof := cf_eof f \<or> (length got < sz - 1 \<and> (got = [] \<or> last got \<noteq> NL))\<rparr>))"

section \<open>funfile.c\<close>

definition cf_nextline :: "cfile \<Rightarrow> string \<times> cfile" where
  "cf_nextline f = (let (bp, f') = fgets 513 f in (AllTrim bp, f'))"

definition cf_rewind :: "cfile \<Rightarrow> cfile" where
  "cf_rewind f = f\<lparr>cf_data := cf_all f, cf_eof := False\<rparr>"

definition line_matches :: "string \<Rightarrow> string \<Rightarrow> bool" where
  "line_matches pname line \<longleftrightarrow>
     (cchar line (length pname) = NUL \<or> cchar line (length pname) = SP)
     \<and> take (length pname) line = pname"

text \<open>The loop \<open>while (!feof(fpcfg))\<close> of \<open>cf_locate\<close> and \<open>cf_nextparm\<close>.\<close>

lemma fgets_progress:
  "\<not> cf_eof f \<Longrightarrow>
     2 * length (cf_data (snd (cf_nextline f))) + (if cf_eof (snd (cf_nextline f)) then 0 else 1)
       < 2 * length (cf_data f) + 1"
  by (cases "cf_data f") (auto simp: cf_nextline_def fgets_def Let_def numeral_eq_Suc)

function cf_seek :: "string \<Rightarrow> cfile \<Rightarrow> string \<times> cfile" where
  "cf_seek pname f =
     (if cf_eof f then ([], f)
      else let (line, f') = cf_nextline f
           in if cchar line 0 = CHR ''#'' then cf_seek pname f'
              else if line_matches pname line then (line, f')
              else cf_seek pname f')"
  by pat_completeness auto
termination
proof (relation "measure (\<lambda>(pname, f). 2 * length (cf_data f) + (if cf_eof f then 0 else 1))")
  fix pname :: string and f x line f'
  assume "\<not> cf_eof f" "x = cf_nextline f" "(line, f') = x"
  then have "f' = snd (cf_nextline f)" by (metis snd_conv)
  then show "((pname, f'), pname, f)
      \<in> measure (\<lambda>(pname, f). 2 * length (cf_data f) + (if cf_eof f then 0 else 1))"
    using fgets_progress [OF \<open>\<not> cf_eof f\<close>] \<open>\<not> cf_eof f\<close> by simp
  then show "((pname, f'), pname, f)
      \<in> measure (\<lambda>(pname, f). 2 * length (cf_data f) + (if cf_eof f then 0 else 1))" .
qed simp

declare cf_seek.simps [simp del]

text \<open>\<open>cap\<close> is the size of the caller's \<open>value\<close> buffer; \<open>None\<close> is the return value -1.\<close>

definition cf_locate :: "nat \<Rightarrow> string \<Rightarrow> cfile \<Rightarrow> (string option \<times> cfile) cres" where
  "cf_locate cap pname f =
     (let (line, f') = cf_seek pname (cf_rewind f)
      in if cf_eof f' then Ret (None, f')
         else let value = drop (length pname) line
              in if length value \<ge> cap then Crash BufOverflow
                 else Ret (Some (AllTrim value), f'))"

definition cf_locatenum :: "string \<Rightarrow> cfile \<Rightarrow> (int option \<times> cfile) cres" where
  "cf_locatenum pname f =
     cbind (cf_locate 25 pname f) (\<lambda>(v, f').
       case v of
         None \<Rightarrow> Ret (None, f')
       | Some buf \<Rightarrow> if IsDigitBuf buf (length buf) = 0 then Ret (None, f')
                    else Ret (Some (atoi buf), f'))"

definition cf_nextparm :: "string \<Rightarrow> cfile \<Rightarrow> string option \<times> cfile" where
  "cf_nextparm pname f =
     (let (line, f') = cf_seek pname f
      in if cf_eof f' then (None, f')
         else (let line' = take (length pname) line @ LeftTrim (drop (length pname) line);
                   line'' = RightTrim line'
               in (Some (drop (length pname) line''), f')))"

section \<open>Reading a well-formed text\<close>

text \<open>A line of a text file: no line end and no terminator inside, and short enough for one \<open>fgets\<close>.\<close>

definition plain_line :: "string \<Rightarrow> bool" where
  "plain_line l \<longleftrightarrow> NL \<notin> set l \<and> NUL \<notin> set l \<and> length l < 512"

definition text_of :: "string list \<Rightarrow> string" where
  "text_of ls = concat (map (\<lambda>l. l @ [NL]) ls)"

lemma text_of_simps [simp]:
  "text_of [] = []" "text_of (l # ls) = l @ NL # text_of ls"
  by (simp_all add: text_of_def)

lemma take_line_line:
  "NL \<notin> set l \<Longrightarrow> length l < n \<Longrightarrow> take_line n (l @ NL # r) = l @ [NL]"
proof (induction l arbitrary: n)
  case Nil
  then show ?case by (cases n) auto
next
  case (Cons c cs)
  then show ?case by (cases n) auto
qed

lemma take_line_short: "NL \<notin> set l \<Longrightarrow> length l \<le> n \<Longrightarrow> take_line n l = l"
proof (induction l arbitrary: n)
  case Nil
  then show ?case by (cases n) auto
next
  case (Cons c cs)
  then show ?case by (cases n) auto
qed

lemma c_str_id: "NUL \<notin> set l \<Longrightarrow> c_str l = l"
  unfolding c_str_def by (rule takeWhile_eq_all_conv [THEN iffD2]) auto

lemma nextline_line:
  assumes "plain_line l" "cf_data f = l @ NL # r"
  shows "cf_nextline f = (strip (l @ [NL]), f\<lparr>cf_data := r\<rparr>)"
proof -
  have t: "take_line 512 (l @ NL # r) = l @ [NL]"
    using assms(1) by (simp add: plain_line_def take_line_line)
  have "c_str (l @ [NL]) = l @ [NL]"
    using assms(1) by (intro c_str_id) (simp add: plain_line_def)
  then show ?thesis
    by (simp add: cf_nextline_def fgets_def Let_def assms(2) t cstr)
qed

lemma nextline_tail:
  assumes "plain_line l" "cf_data f = l"
  shows "cf_nextline f = (strip l, f\<lparr>cf_data := [], cf_eof := True\<rparr>)"
proof -
  have t: "take_line 512 l = l"
    using assms(1) by (simp add: plain_line_def take_line_short)
  have "l = [] \<or> last l \<noteq> NL"
    using assms(1) by (metis last_in_set plain_line_def)
  then show ?thesis
    using assms by (auto simp: cf_nextline_def fgets_def Let_def t cstr c_str_id plain_line_def)
qed

text \<open>The line the loop stops at still carries its line end.\<close>

lemma strip_left_NL: "strip_left (l @ [NL]) = strip_left l @ [NL]"
  by (induction l) (auto simp: strip_left_def)

lemma strip_NL: "strip (l @ [NL]) = strip_left l @ [NL]"
proof -
  have "strip (l @ [NL]) = rev (strip_left (NL # rev (strip_left l)))"
    by (simp add: strip_def strip_left_NL)
  then show ?thesis by (simp add: strip_left_def)
qed

definition hit :: "string \<Rightarrow> string \<Rightarrow> bool" where
  "hit pname l \<longleftrightarrow> cchar (strip (l @ [NL])) 0 \<noteq> CHR ''#'' \<and> line_matches pname (strip (l @ [NL]))"

lemma seek_eof [simp]: "cf_eof f \<Longrightarrow> cf_seek pname f = ([], f)"
  by (simp add: cf_seek.simps)

lemma seek_line:
  assumes "plain_line l" "cf_data f = l @ NL # r" "\<not> cf_eof f"
  shows "cf_seek pname f = (if hit pname l then (strip (l @ [NL]), f\<lparr>cf_data := r\<rparr>)
                            else cf_seek pname (f\<lparr>cf_data := r\<rparr>))"
  using assms by (simp add: cf_seek.simps [of pname f] nextline_line hit_def)

lemma seek_tail:
  assumes "plain_line l" "cf_data f = l" "\<not> cf_eof f"
  shows "cf_eof (snd (cf_seek pname f))"
  using assms by (simp add: cf_seek.simps [of pname f] nextline_tail)

lemma seek_text:
  assumes "\<forall>l \<in> set ls. plain_line l" "plain_line te" "cf_data f = text_of ls @ te" "\<not> cf_eof f"
  shows "cf_eof (snd (cf_seek pname f))
    \<or> (\<exists>l \<in> set ls. hit pname l \<and> fst (cf_seek pname f) = strip_left l @ [NL])"
  using assms
proof (induction ls arbitrary: f)
  case Nil
  then show ?case by (simp add: seek_tail)
next
  case (Cons l ls)
  have s: "cf_seek pname f = (if hit pname l then (strip (l @ [NL]), f\<lparr>cf_data := text_of ls @ te\<rparr>)
      else cf_seek pname (f\<lparr>cf_data := text_of ls @ te\<rparr>))"
    using Cons.prems by (intro seek_line) auto
  show ?case
  proof (cases "hit pname l")
    case True
    then show ?thesis using s by (simp add: strip_NL)
  next
    case False
    have "cf_eof (snd (cf_seek pname (f\<lparr>cf_data := text_of ls @ te\<rparr>)))
      \<or> (\<exists>l \<in> set ls. hit pname l \<and>
           fst (cf_seek pname (f\<lparr>cf_data := text_of ls @ te\<rparr>)) = strip_left l @ [NL])"
      using Cons.prems by (intro Cons.IH) auto
    then show ?thesis using s False by auto
  qed
qed

lemma nextline_all: "cf_all (snd (cf_nextline f)) = cf_all f"
  by (simp add: cf_nextline_def fgets_def Let_def)

lemma seek_all: "cf_all (snd (cf_seek pname f)) = cf_all f"
proof (induction pname f rule: cf_seek.induct)
  case (1 pname f)
  obtain line f' where n: "cf_nextline f = (line, f')" by fastforce
  have "cf_all f' = cf_all f" using nextline_all [of f] n by simp
  with 1 n show ?case
    by (simp add: cf_seek.simps [of pname f])
qed

subsection \<open>Numbers are never read\<close>

lemma strip_last: "strip_left s = s' @ [NL] \<Longrightarrow> NL \<in> set (strip s)"
  by (simp add: strip_def strip_left_def)

lemma not_digit_NL: "\<not> isdigit NL"
  by (simp add: isdigit_def)

lemma hit_long: "hit pname l \<Longrightarrow> NL \<notin> set pname \<Longrightarrow> length pname \<le> length (strip_left l)"
proof (rule ccontr)
  assume h: "hit pname l" "NL \<notin> set pname" "\<not> length pname \<le> length (strip_left l)"
  then have "take (length pname) (strip_left l @ [NL]) = strip_left l @ [NL]" by simp
  then show False
    using h by (auto simp: hit_def line_matches_def strip_NL)
qed

lemma locatenum_line:
  assumes "hit pname l" "NL \<notin> set pname"
  shows "IsDigitBuf (AllTrim (drop (length pname) (strip_left l @ [NL])))
           (length (AllTrim (drop (length pname) (strip_left l @ [NL])))) = 0"
proof -
  let ?v = "drop (length pname) (strip_left l @ [NL])"
  have "length pname \<le> length (strip_left l)"
    using assms by (rule hit_long)
  then have "?v = drop (length pname) (strip_left l) @ [NL]" by simp
  then have "strip_left ?v = strip_left (drop (length pname) (strip_left l)) @ [NL]"
    by (simp add: strip_left_NL)
  then have "NL \<in> set (AllTrim ?v)"
    by (simp add: cstr strip_last)
  then have "IsDigitBuf (AllTrim ?v) (length (AllTrim ?v)) \<noteq> 1"
    using not_digit_NL IsDigitBuf_iff by blast
  then show ?thesis using IsDigitBuf_values by blast
qed

lemma locatenum_text:
  assumes "\<forall>l \<in> set ls. plain_line l" "plain_line te" "NL \<notin> set pname" "cf_all f = text_of ls @ te"
  shows "cf_locatenum pname f = Crash BufOverflow
    \<or> (\<exists>f'. cf_locatenum pname f = Ret (None, f') \<and> cf_all f' = cf_all f)"
proof -
  obtain line f' where s: "cf_seek pname (cf_rewind f) = (line, f')" by fastforce
  have "cf_eof f' \<or> (\<exists>l \<in> set ls. hit pname l \<and> line = strip_left l @ [NL])"
    using seek_text [of ls te "cf_rewind f" pname] assms s by (simp add: cf_rewind_def)
  moreover have "cf_all f' = cf_all f"
    using seek_all [of pname "cf_rewind f"] s by (simp add: cf_rewind_def)
  ultimately show ?thesis
    using locatenum_line assms(3) s by (auto simp: cf_locatenum_def cf_locate_def)
qed

subsection \<open>Values, in order\<close>

definition ws_strip :: "string \<Rightarrow> string" where
  "ws_strip s = rstrip_ws (dropWhile is_ws s)"

definition param_value :: "string \<Rightarrow> string \<Rightarrow> string" where
  "param_value pname l = ws_strip (drop (length pname) (strip_left l))"

definition cf_params :: "string \<Rightarrow> string list \<Rightarrow> string list" where
  "cf_params pname ls = map (param_value pname) (filter (hit pname) ls)"

text \<open>A parameter name: not empty, and its last character is not white space.\<close>

definition good_name :: "string \<Rightarrow> bool" where
  "good_name pname \<longleftrightarrow> pname \<noteq> [] \<and> \<not> is_ws (last pname) \<and> NL \<notin> set pname"

lemma rstrip_keep: "pname \<noteq> [] \<Longrightarrow> \<not> is_ws (last pname) \<Longrightarrow> rstrip_ws (pname @ v) = pname @ rstrip_ws v"
proof -
  assume p: "pname \<noteq> []" "\<not> is_ws (last pname)"
  then obtain q c where q: "pname = q @ [c]" "\<not> is_ws c"
    by (metis append_butlast_last_id)
  show ?thesis
    unfolding rstrip_ws_def q(1)
    by (cases "\<exists>x \<in> set v. \<not> is_ws x") (use q(2) in \<open>auto simp: dropWhile_append\<close>)
qed

lemma ws_NL: "is_ws NL"
  by (simp add: is_ws_def)

lemma ws_strip_NL: "rstrip_ws (dropWhile is_ws (s @ [NL])) = ws_strip s"
proof (cases "\<exists>x \<in> set s. \<not> is_ws x")
  case True
  then have "dropWhile is_ws (s @ [NL]) = dropWhile is_ws s @ [NL]"
    by (auto simp: dropWhile_append)
  then show ?thesis using ws_NL by (simp add: ws_strip_def rstrip_ws_def)
next
  case False
  then have "dropWhile is_ws (s @ [NL]) = []" "dropWhile is_ws s = []"
    using ws_NL by (auto simp: dropWhile_eq_Nil_conv)
  then show ?thesis by (simp add: ws_strip_def rstrip_ws_def del: dropWhile_eq_Nil_conv)
qed

lemma nextparm_line:
  assumes "hit pname l" "good_name pname"
  shows "drop (length pname) (RightTrim (take (length pname) (strip_left l @ [NL])
           @ LeftTrim (drop (length pname) (strip_left l @ [NL])))) = param_value pname l"
proof -
  have le: "length pname \<le> length (strip_left l)"
    using hit_long assms by (simp add: good_name_def)
  have t: "take (length pname) (strip_left l @ [NL]) = pname"
    using assms(1) by (simp add: hit_def line_matches_def strip_NL)
  have "drop (length pname) (strip_left l @ [NL]) = drop (length pname) (strip_left l) @ [NL]"
    using le by simp
  then show ?thesis
    using assms(2) unfolding t
    by (simp add: cstr rstrip_keep good_name_def param_value_def ws_strip_NL)
qed

text \<open>What one call delivers on a text, and where it leaves the stream.\<close>

lemma nextparm_text:
  assumes "\<forall>l \<in> set ls. plain_line l" "plain_line te" "good_name pname"
    "cf_data f = text_of ls @ te" "\<not> cf_eof f"
  shows "(case cf_params pname ls of
      [] \<Rightarrow> fst (cf_nextparm pname f) = None
    | v # vs \<Rightarrow> \<exists>ls' f'. cf_nextparm pname f = (Some v, f') \<and> cf_data f' = text_of ls' @ te
        \<and> \<not> cf_eof f' \<and> cf_params pname ls' = vs \<and> set ls' \<subseteq> set ls)"
  using assms
proof (induction ls arbitrary: f)
  case Nil
  then have "cf_eof (snd (cf_seek pname f))" by (intro seek_tail [of te]) auto
  then show ?case
    by (simp add: cf_params_def cf_nextparm_def case_prod_unfold)
next
  case (Cons l ls)
  have s: "cf_seek pname f = (if hit pname l then (strip (l @ [NL]), f\<lparr>cf_data := text_of ls @ te\<rparr>)
      else cf_seek pname (f\<lparr>cf_data := text_of ls @ te\<rparr>))"
    using Cons.prems by (intro seek_line) auto
  show ?case
  proof (cases "hit pname l")
    case True
    then have "cf_nextparm pname f = (Some (param_value pname l), f\<lparr>cf_data := text_of ls @ te\<rparr>)"
      using s Cons.prems(5) nextparm_line [OF True Cons.prems(3)]
      by (simp add: cf_nextparm_def strip_NL)
    with True Cons.prems show ?thesis
      by (simp add: cf_params_def) (rule exI [of _ ls], auto)
  next
    case False
    then have "cf_nextparm pname f = cf_nextparm pname (f\<lparr>cf_data := text_of ls @ te\<rparr>)"
      using s by (simp add: cf_nextparm_def)
    moreover have "cf_params pname (l # ls) = cf_params pname ls"
      using False by (simp add: cf_params_def)
    ultimately show ?thesis
      using Cons.IH [of "f\<lparr>cf_data := text_of ls @ te\<rparr>"] Cons.prems
      by (auto split: list.splits)
  qed
qed

section \<open>The contract of the parameter stream\<close>

text \<open>
  \<open>rep f vs\<close>: the stream \<open>f\<close> is going to deliver the values \<open>vs\<close>. A loop of the source that
  asks for the next value until one is accepted is a search in \<open>vs\<close>.
\<close>

locale param_source =
  fixes getparm :: "'f \<Rightarrow> string option \<times> 'f"
    and rep :: "'f \<Rightarrow> string list \<Rightarrow> bool"
  assumes getparm_end: "rep f [] \<Longrightarrow> fst (getparm f) = None"
    and getparm_value: "rep f (v # vs) \<Longrightarrow> \<exists>f'. getparm f = (Some v, f') \<and> rep f' vs"
begin

lemma search_loop:
  assumes "\<And>f. loop f = (case getparm f of (None, f') \<Rightarrow> dflt
      | (Some v, f') \<Rightarrow> if P v then g v else loop f')"
    and "rep f vs"
  shows "loop f = (case find P vs of None \<Rightarrow> dflt | Some v \<Rightarrow> g v)"
  using assms(2)
proof (induction vs arbitrary: f)
  case Nil
  then have "fst (getparm f) = None" by (rule getparm_end)
  then show ?case by (subst assms(1)) (cases "getparm f", simp)
next
  case (Cons v vs)
  from getparm_value [OF Cons.prems] obtain f' where "getparm f = (Some v, f')" "rep f' vs"
    by blast
  then show ?case by (subst assms(1)) (simp add: Cons.IH)
qed

lemma fold_loop:
  assumes "\<And>f s. loop f s = (case getparm f of (None, f') \<Rightarrow> Ret s
      | (Some v, f') \<Rightarrow> cbind (step v s) (loop f'))"
    and "rep f vs"
  shows "loop f s = fold (\<lambda>v m. cbind m (step v)) vs (Ret s)"
  using assms(2)
proof (induction vs arbitrary: f s)
  case Nil
  then have "fst (getparm f) = None" by (rule getparm_end)
  then show ?case by (subst assms(1)) (cases "getparm f", simp)
next
  case (Cons v vs)
  from getparm_value [OF Cons.prems] obtain f' where f': "getparm f = (Some v, f')" "rep f' vs"
    by blast
  have c: "fold (\<lambda>v m. cbind m (step v)) vs (Crash e) = Crash e" for e
    by (induction vs) auto
  show ?case
    using f' by (subst assms(1)) (cases "step v s", simp_all add: Cons.IH c)
qed

end

definition cfg_rep :: "string \<Rightarrow> cfile \<Rightarrow> string list \<Rightarrow> bool" where
  "cfg_rep pname f vs \<longleftrightarrow> good_name pname \<and> \<not> cf_eof f \<and>
     (\<exists>ls te. (\<forall>l \<in> set ls. plain_line l) \<and> plain_line te \<and> cf_data f = text_of ls @ te
        \<and> vs = cf_params pname ls)"

interpretation cfg: param_source "cf_nextparm pname" "cfg_rep pname" for pname
proof
  fix f assume "cfg_rep pname f []"
  then obtain ls te where "\<forall>l \<in> set ls. plain_line l" "plain_line te" "good_name pname"
    "cf_data f = text_of ls @ te" "\<not> cf_eof f" "cf_params pname ls = []"
    unfolding cfg_rep_def by metis
  then show "fst (cf_nextparm pname f) = None"
    using nextparm_text [of ls te pname f] by simp
next
  fix f v vs assume "cfg_rep pname f (v # vs)"
  then obtain ls te where l: "\<forall>l \<in> set ls. plain_line l" "plain_line te" "good_name pname"
    "cf_data f = text_of ls @ te" "\<not> cf_eof f" "cf_params pname ls = v # vs"
    unfolding cfg_rep_def by metis
  then obtain ls' f' where "cf_nextparm pname f = (Some v, f')" "cf_data f' = text_of ls' @ te"
    "\<not> cf_eof f'" "cf_params pname ls' = vs" "set ls' \<subseteq> set ls"
    using nextparm_text [of ls te pname f] by auto
  then show "\<exists>f'. cf_nextparm pname f = (Some v, f') \<and> cfg_rep pname f' vs"
    using l unfolding cfg_rep_def by (metis subsetD)
qed

lemma cfg_rep_open:
  "\<forall>l \<in> set ls. plain_line l \<Longrightarrow> plain_line te \<Longrightarrow> good_name pname \<Longrightarrow>
     cfg_rep pname (cf_open (text_of ls @ te)) (cf_params pname ls)"
  unfolding cfg_rep_def cf_open_def by auto

subsection \<open>Progress, for the loops of the callers\<close>

definition cf_size :: "cfile \<Rightarrow> nat" where
  "cf_size f = 2 * length (cf_data f) + (if cf_eof f then 0 else 1)"

lemma seek_size: "\<not> cf_eof f \<Longrightarrow> cf_size (snd (cf_seek pname f)) < cf_size f"
proof (induction pname f rule: cf_seek.induct)
  case (1 pname f)
  obtain line f' where n: "cf_nextline f = (line, f')" by fastforce
  have d: "cf_size f' < cf_size f"
    using fgets_progress [OF "1.prems"] n "1.prems" by (simp add: cf_size_def)
  show ?case
  proof (cases "cchar line 0 \<noteq> CHR ''#'' \<and> line_matches pname line")
    case True
    then show ?thesis using "1.prems" n d by (simp add: cf_seek.simps [of pname f])
  next
    case False
    then have e: "cf_seek pname f = cf_seek pname f'"
      using "1.prems" n by (auto simp: cf_seek.simps [of pname f])
    show ?thesis
    proof (cases "cf_eof f'")
      case True
      then show ?thesis using e d by simp
    next
      case live: False
      have "cf_size (snd (cf_seek pname f')) < cf_size f'"
        using "1.IH" [OF "1.prems" n [symmetric] refl] False live by auto
      then show ?thesis using e d by simp
    qed
  qed
qed

lemma nextparm_size: "cf_nextparm pname f = (Some v, f') \<Longrightarrow> cf_size f' < cf_size f"
proof -
  assume a: "cf_nextparm pname f = (Some v, f')"
  then have "\<not> cf_eof f"
    by (auto simp: cf_nextparm_def)
  then show ?thesis
    using seek_size [of f pname] a by (auto simp: cf_nextparm_def Let_def split: prod.splits if_splits)
qed

text \<open>All the values a caller gets that asks until the end.\<close>

function cf_drain :: "string \<Rightarrow> cfile \<Rightarrow> string list" where
  "cf_drain pname f = (case cf_nextparm pname f of (None, f') \<Rightarrow> [] | (Some v, f') \<Rightarrow> v # cf_drain pname f')"
  by pat_completeness auto
termination
  by (relation "measure (\<lambda>(pname, f). cf_size f)") (auto intro: nextparm_size [OF sym])

declare cf_drain.simps [simp del]

lemma drain_rep: "cfg_rep pname f vs \<Longrightarrow> cf_drain pname f = vs"
proof (induction vs arbitrary: f)
  case Nil
  then show ?case
    using cfg.getparm_end [OF Nil] by (subst cf_drain.simps) (cases "cf_nextparm pname f", simp)
next
  case (Cons v vs)
  from cfg.getparm_value [OF Cons.prems] obtain f'
    where "cf_nextparm pname f = (Some v, f')" "cfg_rep pname f' vs" by blast
  then show ?case by (subst cf_drain.simps) (simp add: Cons.IH)
qed

section \<open>Properties\<close>

text \<open>Claim C34. On every text file made of lines of fewer than 512 characters (the last one may lack
  its line end), asking \<open>cf_nextparm\<close> for a parameter until the end delivers exactly the values of
  the complete lines that carry this parameter, in file order, each without surrounding white
  space. Comment lines, other parameters and an unterminated last line contribute nothing.\<close>

theorem cf_nextparm_in_order:
  assumes "\<forall>l \<in> set ls. plain_line l" "plain_line te" "good_name pname"
  shows "cf_drain pname (cf_open (text_of ls @ te)) = cf_params pname ls"
  using cfg_rep_open [OF assms] by (rule drain_rep)

theorem cf_nextparm_in_order_witness:
  "cf_drain ''SVR'' (cf_open (text_of [''SVR  a 1 '', ''#SVR b'', '' SVR c''] @ ''SVR d''))
     = cf_params ''SVR'' [''SVR  a 1 '', ''#SVR b'', '' SVR c'']
   \<and> cf_params ''SVR'' [''SVR  a 1 '', ''#SVR b'', '' SVR c''] = [''a 1'', ''c'']"
proof
  show "cf_drain ''SVR'' (cf_open (text_of [''SVR  a 1 '', ''#SVR b'', '' SVR c''] @ ''SVR d''))
     = cf_params ''SVR'' [''SVR  a 1 '', ''#SVR b'', '' SVR c'']"
    by (rule cf_nextparm_in_order) (simp_all add: plain_line_def good_name_def is_ws_def)
  show "cf_params ''SVR'' [''SVR  a 1 '', ''#SVR b'', '' SVR c''] = [''a 1'', ''c'']"
    by code_simp
qed

text \<open>\<open>cf_locatenum\<close> never reads a number from a text file: the line end stays in the value
  (\<open>AllTrim\<close> removes blanks only), so \<open>IsDigitBuf\<close> rejects every value. The call reports
  failure, or overruns its 25-byte buffer when the value is long.\<close>

theorem cf_locatenum_never_succeeds:
  assumes "\<forall>l \<in> set ls. plain_line l" "plain_line te" "NL \<notin> set pname" "cf_all f = text_of ls @ te"
  shows "cf_locatenum pname f \<noteq> Ret (Some v, f')"
  using locatenum_text [OF assms] by auto

theorem cf_locatenum_never_succeeds_witness:
  "cf_locatenum ''MAXSVR'' (cf_open (text_of [''MAXSVR 120''])) \<noteq> Ret (Some 120, cf_open (text_of []))"
  by (rule cf_locatenum_never_succeeds [where ls = "[''MAXSVR 120'']" and te = "[]"])
    (simp_all add: plain_line_def cf_open_def)

end
