(* ===== verification/TpMemory.thy ===== *)
theory TpMemory
  imports CString
begin

text \<open>
  The typed buffers of \<open>src/dev/src/pubfun/tux/tuxmgr.c\<close>: \<open>tux_alloc\<close>, \<open>tux_realloc\<close>,
  \<open>tux_free\<close> and \<open>tux_real_len\<close>.

  A buffer is a block of units of \<open>sizeof(struct tpmemory)\<close> = 32 bytes: a header, the data, and a
  trailer that repeats the header. A block of the model keeps the two copies apart, so that a trailer
  destroyed by an overrun can be expressed. The heap maps data pointers to blocks; a pointer that is not
  in it (foreign or freed memory) has no magic number in front of it.

  \<open>heap_ok\<close> is the invariant: intact headers and trailers, and data areas as long as the unit count
  says. The lemmas show that every operation keeps it and what each one returns.
\<close>

section \<open>Definitions\<close>

definition SYS_LIMIT :: int where "SYS_LIMIT = -2000"
definition SYS_INVAL :: int where "SYS_INVAL = -2001"
definition SYS_OS :: int where "SYS_OS = -2002"
definition SYS_NOENT :: int where "SYS_NOENT = -2003"
definition SYS_TIMEOUT :: int where "SYS_TIMEOUT = -2004"
definition SYS_PROTO :: int where "SYS_PROTO = -2005"
definition SYS_SVCFAIL :: int where "SYS_SVCFAIL = -2006"
definition SYS_EMATCH :: int where "SYS_EMATCH = -2007"
definition SYS_GOTSIG :: int where "SYS_GOTSIG = -2008"
definition SYS_SYSTEM :: int where "SYS_SYSTEM = -2009"
definition SYS_ERR_SVC :: int where "SYS_ERR_SVC = -2010"
definition SYS_DEAD_SVC :: int where "SYS_DEAD_SVC = -2011"

lemmas sys_consts = SYS_LIMIT_def SYS_INVAL_def SYS_OS_def SYS_NOENT_def SYS_TIMEOUT_def SYS_PROTO_def
  SYS_SVCFAIL_def SYS_EMATCH_def SYS_GOTSIG_def SYS_SYSTEM_def SYS_ERR_SVC_def SYS_DEAD_SVC_def

definition MAGIC :: int where "MAGIC = 0xfee1900d"

text \<open>\<open>~MAGIC\<close> on the unsigned 32-bit constant.\<close>

definition UNMAGIC :: int where "UNMAGIC = 0xffffffff - MAGIC"

datatype tptype = StringType | CarrayType | EmptyString

record tpmemory =
  tp_type :: tptype
  tp_subtype :: tptype
  tp_len :: int
  tp_magic :: int

record tpblock =
  b_head :: tpmemory
  b_tail :: tpmemory
  b_data :: string

record heap =
  h_blocks :: "int \<rightharpoonup> tpblock"
  h_next :: int
  h_avail :: int

definition ALLOC_UNITS :: "int \<Rightarrow> int" where
  "ALLOC_UNITS s = (s + 31) div 32 + 2"

definition IS_MAGIC :: "int option \<Rightarrow> heap \<Rightarrow> bool" where
  "IS_MAGIC ptr h =
     (case ptr of None \<Rightarrow> False
      | Some a \<Rightarrow> (case h_blocks h a of None \<Rightarrow> False | Some b \<Rightarrow> tp_magic (b_head b) = MAGIC))"

text \<open>The comparison of header and trailer that \<open>tux_realloc\<close>, \<open>tux_free\<close> and \<open>tux_real_len\<close> share.\<close>

definition intact :: "tpblock \<Rightarrow> bool" where
  "intact b \<longleftrightarrow> tp_len (b_head b) = tp_len (b_tail b) \<and> tp_magic (b_head b) = tp_magic (b_tail b)
     \<and> tp_type (b_head b) = tp_type (b_tail b) \<and> tp_subtype (b_head b) = tp_subtype (b_tail b)"

definition data_bytes :: "int \<Rightarrow> nat" where
  "data_bytes len = nat (32 * (ALLOC_UNITS len - 2))"

text \<open>\<open>junk\<close> is what \<open>malloc\<close> and \<open>realloc\<close> leave in fresh bytes.\<close>

definition fill :: "nat \<Rightarrow> string \<Rightarrow> string \<Rightarrow> string" where
  "fill n old junk = take n (old @ junk @ replicate n NUL)"

text \<open>The new pointer (\<open>None\<close> is \<open>NULL\<close>), the value of \<open>tux_errno\<close> and the heap.\<close>

definition tux_alloc :: "string \<Rightarrow> string \<Rightarrow> string \<Rightarrow> int \<Rightarrow> int \<Rightarrow> heap \<Rightarrow> int option \<times> int \<times> heap" where
  "tux_alloc junk type subtype sz err h =
     (if sz < 0 then (None, SYS_INVAL, h)
      else let len = sz + 2048; bytes = ALLOC_UNITS len * 32
           in if bytes > h_avail h then (None, SYS_OS, h)
              else let t = (if type = ''STRING'' then StringType
                            else if type = ''CARRAY'' then CarrayType else EmptyString);
                       p = \<lparr>tp_type = t, tp_subtype = EmptyString, tp_len = len, tp_magic = MAGIC\<rparr>;
                       b = \<lparr>b_head = p, b_tail = p, b_data = fill (data_bytes len) [] junk\<rparr>
                   in (Some (h_next h), err,
                       h\<lparr>h_blocks := (h_blocks h)(h_next h \<mapsto> b), h_next := h_next h + bytes,
                         h_avail := h_avail h - bytes\<rparr>))"

definition tux_realloc :: "string \<Rightarrow> int option \<Rightarrow> int \<Rightarrow> int \<Rightarrow> heap \<Rightarrow> int option \<times> int \<times> heap" where
  "tux_realloc junk ptr sz err h =
     (if \<not> IS_MAGIC ptr h \<or> sz < 0 then (None, SYS_INVAL, h)
      else let a = the ptr; b = the (h_blocks h a)
           in if \<not> intact b then (None, SYS_INVAL, h)
              else let old = ALLOC_UNITS (tp_len (b_head b)) * 32; bytes = ALLOC_UNITS sz * 32
                   in if bytes > h_avail h + old then (None, SYS_OS, h)
                      else let p = (b_head b)\<lparr>tp_len := sz\<rparr>;
                               b' = \<lparr>b_head = p, b_tail = p,
                                     b_data = fill (data_bytes sz) (b_data b) junk\<rparr>
                           in (Some (h_next h), err,
                               h\<lparr>h_blocks := (h_blocks h)(a := None, h_next h \<mapsto> b'),
                                 h_next := h_next h + bytes, h_avail := h_avail h + old - bytes\<rparr>))"

text \<open>The memory handed to \<open>free\<close> is no longer a buffer; its magic number was inverted before.\<close>

definition tux_free :: "int option \<Rightarrow> heap \<Rightarrow> heap" where
  "tux_free ptr h =
     (if ptr = None then h
      else if \<not> IS_MAGIC ptr h then h
      else let a = the ptr; b = the (h_blocks h a)
           in if \<not> intact b then h
              else h\<lparr>h_blocks := (h_blocks h)(a := None),
                     h_avail := h_avail h + ALLOC_UNITS (tp_len (b_head b)) * 32\<rparr>)"

text \<open>A \<open>STRING\<close> buffer without terminator is read past its data.\<close>

definition tux_real_len :: "int option \<Rightarrow> int \<Rightarrow> heap \<Rightarrow> (int \<times> int) cres" where
  "tux_real_len bufptr err h =
     (if bufptr = None then Ret (-1, SYS_INVAL)
      else if \<not> IS_MAGIC bufptr h then Ret (-1, SYS_INVAL)
      else let b = the (h_blocks h (the bufptr))
           in if \<not> intact b then Ret (-1, SYS_INVAL)
              else if tp_type (b_head b) = StringType
              then (if NUL \<in> set (b_data b) then Ret (int (length (c_str (b_data b))) + 1, err)
                    else Crash OutOfBounds)
              else Ret (tp_len (b_head b), err))"

text \<open>\<open>memcpy(ptr + off, src, n)\<close> into a buffer.\<close>

definition buf_write :: "int option \<Rightarrow> nat \<Rightarrow> string \<Rightarrow> heap \<Rightarrow> heap cres" where
  "buf_write ptr off src h =
     (case ptr of None \<Rightarrow> Crash NullDeref
      | Some a \<Rightarrow> (case h_blocks h a of None \<Rightarrow> Crash OutOfBounds
          | Some b \<Rightarrow> if off + length src > length (b_data b) then Crash BufOverflow
              else Ret (h\<lparr>h_blocks := (h_blocks h)(a \<mapsto> b\<lparr>b_data :=
                 take off (b_data b) @ src @ drop (off + length src) (b_data b)\<rparr>)\<rparr>)))"

section \<open>The invariant\<close>

definition block_ok :: "tpblock \<Rightarrow> bool" where
  "block_ok b \<longleftrightarrow> intact b \<and> tp_magic (b_head b) = MAGIC \<and> 0 \<le> tp_len (b_head b)
     \<and> length (b_data b) = data_bytes (tp_len (b_head b))"

definition heap_ok :: "heap \<Rightarrow> bool" where
  "heap_ok h \<longleftrightarrow> (\<forall>a b. h_blocks h a = Some b \<longrightarrow> block_ok b \<and> a < h_next h) \<and> 0 \<le> h_avail h"

lemma ALLOC_UNITS_bound: "0 \<le> len \<Longrightarrow> len \<le> 32 * (ALLOC_UNITS len - 2) \<and> 2 \<le> ALLOC_UNITS len"
  unfolding ALLOC_UNITS_def by presburger

lemma data_bytes_bound: "0 \<le> len \<Longrightarrow> len \<le> int (data_bytes len)"
  using ALLOC_UNITS_bound [of len] by (simp add: data_bytes_def)

lemma fill_length [simp]: "length (fill n old junk) = n"
  by (simp add: fill_def)

lemma heap_ok_put:
  "heap_ok h \<Longrightarrow> block_ok b \<Longrightarrow> a < n \<Longrightarrow> h_next h \<le> n \<Longrightarrow> 0 \<le> v \<Longrightarrow>
     heap_ok (h\<lparr>h_blocks := (h_blocks h)(a \<mapsto> b), h_next := n, h_avail := v\<rparr>)"
  by (fastforce simp: heap_ok_def)

lemma heap_ok_del: "heap_ok h \<Longrightarrow> 0 \<le> v \<Longrightarrow> heap_ok (h\<lparr>h_blocks := (h_blocks h)(a := None), h_avail := v\<rparr>)"
  by (simp add: heap_ok_def)

lemma heap_ok_block: "heap_ok h \<Longrightarrow> h_blocks h a = Some b \<Longrightarrow> block_ok b \<and> a < h_next h"
  by (simp add: heap_ok_def)

lemma IS_MAGIC_block: "IS_MAGIC ptr h \<Longrightarrow> \<exists>a b. ptr = Some a \<and> h_blocks h a = Some b"
  by (auto simp: IS_MAGIC_def split: option.splits)

lemma alloc_cases:
  obtains e where "tux_alloc junk type subtype sz err h = (None, e, h)"
  | b where "0 \<le> sz" "block_ok b" "tp_len (b_head b) = sz + 2048"
      "tp_type (b_head b) = (if type = ''STRING'' then StringType
         else if type = ''CARRAY'' then CarrayType else EmptyString)"
      "ALLOC_UNITS (sz + 2048) * 32 \<le> h_avail h"
      "tux_alloc junk type subtype sz err h = (Some (h_next h), err,
         h\<lparr>h_blocks := (h_blocks h)(h_next h \<mapsto> b), h_next := h_next h + ALLOC_UNITS (sz + 2048) * 32,
           h_avail := h_avail h - ALLOC_UNITS (sz + 2048) * 32\<rparr>)"
proof (cases "0 \<le> sz \<and> ALLOC_UNITS (sz + 2048) * 32 \<le> h_avail h")
  case True
  let ?p = "\<lparr>tp_type = (if type = ''STRING'' then StringType else if type = ''CARRAY'' then CarrayType
      else EmptyString), tp_subtype = EmptyString, tp_len = sz + 2048, tp_magic = MAGIC\<rparr>"
  let ?b = "\<lparr>b_head = ?p, b_tail = ?p, b_data = fill (data_bytes (sz + 2048)) [] junk\<rparr>"
  show ?thesis
  proof (rule that(2))
    show "block_ok ?b" using True by (simp add: block_ok_def intact_def)
    show "tux_alloc junk type subtype sz err h = (Some (h_next h), err,
       h\<lparr>h_blocks := (h_blocks h)(h_next h \<mapsto> ?b), h_next := h_next h + ALLOC_UNITS (sz + 2048) * 32,
         h_avail := h_avail h - ALLOC_UNITS (sz + 2048) * 32\<rparr>)"
      using True by (simp add: tux_alloc_def Let_def)
  qed (use True in simp_all)
next
  case False
  then have "\<exists>e. tux_alloc junk type subtype sz err h = (None, e, h)"
    by (auto simp: tux_alloc_def Let_def not_le)
  then show ?thesis using that(1) by blast
qed

lemma alloc_ok: "heap_ok h \<Longrightarrow> heap_ok (snd (snd (tux_alloc junk type subtype sz err h)))"
proof (cases rule: alloc_cases [of junk type subtype sz err h])
  case (2 b)
  moreover assume "heap_ok h"
  ultimately show ?thesis
    using ALLOC_UNITS_bound [of "sz + 2048"] by (simp add: heap_ok_put)
qed simp

lemma realloc_ok: "heap_ok h \<Longrightarrow> heap_ok (snd (snd (tux_realloc junk ptr sz err h)))"
proof -
  assume h: "heap_ok h"
  show ?thesis
  proof (cases "IS_MAGIC ptr h \<and> \<not> sz < 0")
    case True
    then obtain a b where ab: "ptr = Some a" "h_blocks h a = Some b"
      using IS_MAGIC_block by blast
    let ?p = "(b_head b)\<lparr>tp_len := sz\<rparr>"
    let ?b = "\<lparr>b_head = ?p, b_tail = ?p, b_data = fill (data_bytes sz) (b_data b) junk\<rparr>"
    let ?old = "ALLOC_UNITS (tp_len (b_head b)) * 32"
    have b: "block_ok b" using heap_ok_block [OF h ab(2)] by blast
    then have b': "block_ok ?b" using True by (simp add: block_ok_def intact_def)
    have "heap_ok (h\<lparr>h_blocks := (h_blocks h)(a := None), h_avail := h_avail h\<rparr>)"
      using h by (intro heap_ok_del) (auto simp: heap_ok_def)
    then have d: "heap_ok (h\<lparr>h_blocks := (h_blocks h)(a := None)\<rparr>)" by simp
    show ?thesis
      using True ab b heap_ok_put [OF d b', of "h_next h" "h_next h + ALLOC_UNITS sz * 32"
          "h_avail h + ?old - ALLOC_UNITS sz * 32"] ALLOC_UNITS_bound [of sz] h
      by (auto simp: tux_realloc_def Let_def)
  qed (auto simp: tux_realloc_def h)
qed

lemma free_ok: "heap_ok h \<Longrightarrow> heap_ok (tux_free ptr h)"
proof -
  assume h: "heap_ok h"
  show ?thesis
  proof (cases "IS_MAGIC ptr h")
    case True
    then obtain a b where ab: "ptr = Some a" "h_blocks h a = Some b"
      using IS_MAGIC_block by blast
    then have "0 \<le> tp_len (b_head b)" using heap_ok_block [OF h ab(2)] by (simp add: block_ok_def)
    moreover have "0 \<le> h_avail h" using h by (simp add: heap_ok_def)
    ultimately show ?thesis
      using True ab h ALLOC_UNITS_bound [of "tp_len (b_head b)"]
      by (simp add: tux_free_def Let_def heap_ok_del)
  qed (auto simp: tux_free_def h)
qed

lemma write_ok: "heap_ok h \<Longrightarrow> buf_write ptr off src h = Ret h' \<Longrightarrow> heap_ok h'"
proof -
  assume h: "heap_ok h" and w: "buf_write ptr off src h = Ret h'"
  then obtain a b where ab: "h_blocks h a = Some b" "off + length src \<le> length (b_data b)"
    "h' = h\<lparr>h_blocks := (h_blocks h)(a \<mapsto> b\<lparr>b_data :=
       take off (b_data b) @ src @ drop (off + length src) (b_data b)\<rparr>)\<rparr>"
    by (auto simp: buf_write_def split: option.splits if_splits)
  let ?b = "b\<lparr>b_data := take off (b_data b) @ src @ drop (off + length src) (b_data b)\<rparr>"
  have "block_ok ?b" "a < h_next h"
    using heap_ok_block [OF h ab(1)] ab(2) by (auto simp: block_ok_def intact_def)
  moreover have "0 \<le> h_avail h" using h by (simp add: heap_ok_def)
  ultimately have "heap_ok (h\<lparr>h_blocks := (h_blocks h)(a \<mapsto> ?b), h_next := h_next h, h_avail := h_avail h\<rparr>)"
    by (intro heap_ok_put [OF h]) auto
  then show ?thesis using ab(3) by simp
qed

lemma alloc_block:
  assumes "heap_ok h" "tux_alloc junk type subtype sz err h = (Some a, e, h')"
  shows "\<exists>b. h_blocks h' a = Some b \<and> h_blocks h a = None \<and> length (b_data b) \<ge> nat sz + 2048
    \<and> tp_len (b_head b) = sz + 2048 \<and> block_ok b \<and> (\<forall>c. c \<noteq> a \<longrightarrow> h_blocks h' c = h_blocks h c)"
proof -
  have "h_blocks h (h_next h) = None"
    using heap_ok_block [OF assms(1), of "h_next h"] by fastforce
  then show ?thesis
  proof (cases rule: alloc_cases [of junk type subtype sz err h])
    case (2 b)
    have "nat sz + 2048 \<le> data_bytes (sz + 2048)"
      using data_bytes_bound [of "sz + 2048"] 2(1) by simp
    then show ?thesis
      using assms(2) 2 \<open>h_blocks h (h_next h) = None\<close>
      by (intro exI [of _ b]) (auto simp: block_ok_def)
  qed (use assms(2) in simp)
qed

section \<open>Properties\<close>


definition heap0 :: heap where
  "heap0 = \<lparr>h_blocks = Map.empty, h_next = 4096, h_avail = 100000\<rparr>"


text \<open>What a successful \<open>tux_alloc\<close> of type \<open>CARRAY\<close> gives: a new buffer with room for the
  requested size and 2048 bytes more, other buffers untouched, and \<open>tux_real_len\<close> reports the size
  plus 2048, not the size; \<open>tux_free\<close> takes the buffer back and restores the heap's free space.\<close>

theorem tux_alloc_real_len_free:
  assumes "heap_ok h" "tux_alloc junk ''CARRAY'' subtype sz err h = (Some a, e, h')"
  shows "tux_real_len (Some a) err h' = Ret (sz + 2048, err)
    \<and> h_blocks (tux_free (Some a) h') = h_blocks h \<and> h_avail (tux_free (Some a) h') = h_avail h"
proof -
  obtain b where b: "h_blocks h' a = Some b" "h_blocks h a = None" "tp_len (b_head b) = sz + 2048"
    "block_ok b" "\<forall>c. c \<noteq> a \<longrightarrow> h_blocks h' c = h_blocks h c"
    using alloc_block [OF assms] by blast
  have t: "tp_type (b_head b) = CarrayType" "h_avail h' = h_avail h - ALLOC_UNITS (sz + 2048) * 32"
    using assms(2) b(1) by (cases rule: alloc_cases [of junk "''CARRAY''" subtype sz err h]; auto)+
  have m: "IS_MAGIC (Some a) h'" using b by (simp add: IS_MAGIC_def block_ok_def)
  have "(h_blocks h')(a := None) = h_blocks h" using b by auto
  then show ?thesis
    using b t m by (simp add: tux_real_len_def tux_free_def Let_def block_ok_def)
qed

theorem tux_alloc_real_len_free_witness:
  "\<exists>a e h'. tux_alloc [] ''CARRAY'' [] 12 7 heap0 = (Some a, e, h')
     \<and> tux_real_len (Some a) 7 h' = Ret (2060, 7)
     \<and> h_blocks (tux_free (Some a) h') = h_blocks heap0 \<and> h_avail (tux_free (Some a) h') = h_avail heap0"
proof -
  obtain e h' where r: "tux_alloc [] ''CARRAY'' [] 12 7 heap0 = (Some 4096, e, h')"
    by (simp add: tux_alloc_def heap0_def ALLOC_UNITS_def Let_def)
  have "heap_ok heap0" by (simp add: heap_ok_def heap0_def)
  from tux_alloc_real_len_free [OF this r] r show ?thesis by auto
qed

text \<open>\<open>tux_free\<close> is safe on anything that is not an intact buffer: null, foreign and already
  freed pointers, and buffers whose trailer was overwritten, leave the heap unchanged (the last kind is
  leaked rather than corrupting the allocator).\<close>

theorem tux_free_ignores_broken:
  assumes "\<forall>a b. ptr = Some a \<and> h_blocks h a = Some b \<longrightarrow> tp_magic (b_head b) \<noteq> MAGIC \<or> \<not> intact b"
  shows "tux_free ptr h = h"
  using assms by (auto simp: tux_free_def IS_MAGIC_def Let_def split: option.splits)

theorem tux_free_ignores_broken_witness:
  "tux_free (Some 4096) (tux_free (Some 4096) (snd (snd (tux_alloc [] ''CARRAY'' [] 12 7 heap0))))
     = tux_free (Some 4096) (snd (snd (tux_alloc [] ''CARRAY'' [] 12 7 heap0)))"
  by (rule tux_free_ignores_broken)
    (simp add: tux_alloc_def heap0_def ALLOC_UNITS_def tux_free_def IS_MAGIC_def intact_def Let_def)

end
