(* ===== verification/SdTables.thy ===== *)
theory SdTables
  imports CfgFile TpMemory
begin

text \<open>
  The control block and the three tables in shared memory (\<open>src/dev/include/sunda.h\<close>) and the table
  functions of \<open>src/dev/src/pubfun/tux/tuxmgr.c\<close>: servers (programs), processes, and advertised
  services. Each table is a list; a C string field is the string before its terminator.

  \<open>tabs_ok\<close> is the shape invariant: table lengths are the ones in the control block. The searches are
  the loop \<open>scan\<close> of the prelude. The process table, the server table and the service table are
  interpretations of \<open>slot_table\<close>; the service table loses a slot with every advertise/unadvertise cycle,
  which its \<open>slot_table\<close> facts count.
\<close>

section \<open>The shared memory\<close>

record mb_ctrl_t =
  mb_nsvrnum :: int
  mb_npidnum :: int
  mb_main_pid :: int
  mb_semid :: int
  mb_memid :: int
  mb_req_que :: int
  mb_rsp_que :: int
  mb_req_que_id :: int
  mb_rsp_que_id :: int
  mb_max_msg_len :: int

record server_tab_t =
  st_svrid :: int
  st_name :: string
  st_svc_name :: string
  st_parm :: string
  st_pid_tot :: int
  st_state :: int
  st_rsp_q :: int
  st_type :: int
  st_msg_type :: int
  st_timeout :: int

record server_pid_t =
  sp_pid :: int
  sp_svrid :: int
  sp_svrpos :: int
  sp_seq :: int
  sp_restart_count_grace :: int
  sp_tot_restart_count :: int
  sp_req_done :: int
  sp_lastDie :: int
  sp_lastStart :: int

text \<open>\<open>sd_fun\<close> is the address of the handler, 0 the null pointer.\<close>

record service_tab_t =
  sc_flags :: int
  sc_name :: string
  sc_svrid :: int
  sc_sd_fun :: nat

record sdmem =
  mbctrl :: mb_ctrl_t
  tSvrTab :: "server_tab_t list"
  tSvrPid :: "server_pid_t list"
  tSvcTab :: "service_tab_t list"

definition TUX_NAME_LEN :: nat where "TUX_NAME_LEN = 32"
definition SERVER_MAX_PARAM :: nat where "SERVER_MAX_PARAM = 128"
definition MAX_TIMEOUT_SEC :: int where "MAX_TIMEOUT_SEC = 20"
definition SVR_MSG_TYPE_ROOT :: int where "SVR_MSG_TYPE_ROOT = 300000"
definition SVR_PERM :: int where "SVR_PERM = 1"
definition SVR_TEMP :: int where "SVR_TEMP = 2"
definition SVR_REPLY_NEED :: int where "SVR_REPLY_NEED = 1"
definition SVR_REPLY_NONEED :: int where "SVR_REPLY_NONEED = 2"
definition SVC_INUSE :: int where "SVC_INUSE = 1"
definition TUX_AVAIL :: int where "TUX_AVAIL = 1"
definition TUX_IDLE :: int where "TUX_IDLE = 2"
definition TUX_UNAVAIL :: int where "TUX_UNAVAIL = 3"
definition TUX_DEAD :: int where "TUX_DEAD = 4"

lemmas tab_consts = TUX_NAME_LEN_def SERVER_MAX_PARAM_def MAX_TIMEOUT_SEC_def SVR_MSG_TYPE_ROOT_def
  SVR_PERM_def SVR_TEMP_def SVR_REPLY_NEED_def SVR_REPLY_NONEED_def SVC_INUSE_def TUX_AVAIL_def
  TUX_IDLE_def TUX_UNAVAIL_def TUX_DEAD_def

text \<open>Entries after \<open>memset(..., 0, ...)\<close>, and the macros \<open>sbSvrTabClear\<close> and \<open>sdSvrPidClear\<close>.\<close>

definition svr_zero :: server_tab_t where
  "svr_zero = \<lparr>st_svrid = 0, st_name = [], st_svc_name = [], st_parm = [], st_pid_tot = 0, st_state = 0,
     st_rsp_q = 0, st_type = 0, st_msg_type = 0, st_timeout = 0\<rparr>"

definition pid_zero :: server_pid_t where
  "pid_zero = \<lparr>sp_pid = 0, sp_svrid = 0, sp_svrpos = 0, sp_seq = 0, sp_restart_count_grace = 0,
     sp_tot_restart_count = 0, sp_req_done = 0, sp_lastDie = 0, sp_lastStart = 0\<rparr>"

definition svc_zero :: service_tab_t where
  "svc_zero = \<lparr>sc_flags = 0, sc_name = [], sc_svrid = 0, sc_sd_fun = 0\<rparr>"

definition sbSvrTabClear :: "nat \<Rightarrow> sdmem \<Rightarrow> sdmem" where
  "sbSvrTabClear i m = m\<lparr>tSvrTab := (tSvrTab m)[i := svr_zero\<lparr>st_svrid := -1\<rparr>]\<rparr>"

definition sdSvrPidClear :: "nat \<Rightarrow> sdmem \<Rightarrow> sdmem" where
  "sdSvrPidClear i m = m\<lparr>tSvrPid := (tSvrPid m)[i := pid_zero\<lparr>sp_pid := -1\<rparr>]\<rparr>"

definition sdNumberOfSvr :: "sdmem \<Rightarrow> nat" where
  "sdNumberOfSvr m = nat (mb_nsvrnum (mbctrl m))"

definition sdNumberOfPid :: "sdmem \<Rightarrow> nat" where
  "sdNumberOfPid m = nat (mb_npidnum (mbctrl m))"

definition upd_svr :: "nat \<Rightarrow> (server_tab_t \<Rightarrow> server_tab_t) \<Rightarrow> sdmem \<Rightarrow> sdmem" where
  "upd_svr i f m = m\<lparr>tSvrTab := (tSvrTab m)[i := f (tSvrTab m ! i)]\<rparr>"

definition upd_pid :: "nat \<Rightarrow> (server_pid_t \<Rightarrow> server_pid_t) \<Rightarrow> sdmem \<Rightarrow> sdmem" where
  "upd_pid i f m = m\<lparr>tSvrPid := (tSvrPid m)[i := f (tSvrPid m ! i)]\<rparr>"

definition upd_svc :: "nat \<Rightarrow> (service_tab_t \<Rightarrow> service_tab_t) \<Rightarrow> sdmem \<Rightarrow> sdmem" where
  "upd_svc i f m = m\<lparr>tSvcTab := (tSvcTab m)[i := f (tSvcTab m ! i)]\<rparr>"

definition tabs_ok :: "sdmem \<Rightarrow> bool" where
  "tabs_ok m \<longleftrightarrow> length (tSvrTab m) = sdNumberOfSvr m \<and> length (tSvrPid m) = sdNumberOfPid m
     \<and> length (tSvcTab m) = sdNumberOfSvr m"

section \<open>Searches\<close>

definition tux_locatemb :: "string \<Rightarrow> sdmem \<Rightarrow> int" where
  "tux_locatemb svr_name m =
     scan (\<lambda>i. strncmp_eq svr_name (st_svc_name (tSvrTab m ! i)) TUX_NAME_LEN) 0 (sdNumberOfSvr m)"

definition find_server_id :: "int \<Rightarrow> sdmem \<Rightarrow> int" where
  "find_server_id svrid m = scan (\<lambda>i. st_svrid (tSvrTab m ! i) = svrid) 1 (sdNumberOfSvr m)"

definition find_svrno_by_service :: "string \<Rightarrow> sdmem \<Rightarrow> int" where
  "find_svrno_by_service svr_name m =
     scan (\<lambda>i. strncmp_eq (st_svc_name (tSvrTab m ! i)) svr_name TUX_NAME_LEN) 0 (sdNumberOfSvr m)"

definition server_find_pid :: "int \<Rightarrow> sdmem \<Rightarrow> int" where
  "server_find_pid pid m = scan (\<lambda>i. sp_pid (tSvrPid m ! i) = pid) 1 (sdNumberOfPid m)"

definition server_get_pidentry :: "sdmem \<Rightarrow> int" where
  "server_get_pidentry m = scan (\<lambda>i. sp_pid (tSvrPid m ! i) = -1) 1 (sdNumberOfPid m)"

definition server_get_identry :: "sdmem \<Rightarrow> int" where
  "server_get_identry m = scan (\<lambda>i. st_svrid (tSvrTab m ! i) = -1) 1 (sdNumberOfSvr m)"

definition service_get_pidentry :: "sdmem \<Rightarrow> int" where
  "service_get_pidentry m = scan (\<lambda>i. sc_flags (tSvcTab m ! i) = -1) 1 (sdNumberOfSvr m)"

section \<open>Timeouts from the configuration\<close>

text \<open>The loop of \<open>tux_get_timeout\<close> over the \<open>sd.svc\<close> lines.\<close>

function timeout_loop :: "string \<Rightarrow> cfile \<Rightarrow> int" where
  "timeout_loop svr_name f =
     (case cf_nextparm ''sd.svc'' f of
        (None, f') \<Rightarrow> MAX_TIMEOUT_SEC
      | (Some buf, f') \<Rightarrow>
          (case strtok '' '' buf of
             None \<Rightarrow> timeout_loop svr_name f'
           | Some (name, rest) \<Rightarrow>
               if \<not> strncmp_eq (take TUX_NAME_LEN name) svr_name TUX_NAME_LEN then timeout_loop svr_name f'
               else (case strtok '' '' rest of None \<Rightarrow> MAX_TIMEOUT_SEC | Some (p, r) \<Rightarrow> atoi p)))"
  by pat_completeness auto
termination
  by (relation "measure (\<lambda>(n, f). cf_size f)") (auto intro: nextparm_size [OF sym])

declare timeout_loop.simps [simp del]

definition tux_get_timeout :: "string option \<Rightarrow> string \<Rightarrow> int" where
  "tux_get_timeout cfg svr_name =
     (case cfg of None \<Rightarrow> MAX_TIMEOUT_SEC | Some txt \<Rightarrow> timeout_loop svr_name (cf_open txt))"

section \<open>Services\<close>

text \<open>The loop of \<open>tux_find_service\<close>: the result and the final value of \<open>*pos\<close>.\<close>

function find_service_loop :: "string \<Rightarrow> sdmem \<Rightarrow> nat \<Rightarrow> int \<Rightarrow> int \<times> int" where
  "find_service_loop svr_name m i pos =
     (if i < sdNumberOfSvr m then
        (if sc_flags (tSvcTab m ! i) = -1 \<and> pos < 0 then find_service_loop svr_name m (Suc i) (int i)
         else if strncmp_eq (sc_name (tSvcTab m ! i)) svr_name TUX_NAME_LEN then (int i, pos)
         else find_service_loop svr_name m (Suc i) pos)
      else (-1, pos))"
  by pat_completeness auto
termination
  by (relation "measure (\<lambda>(n, m, i, pos). sdNumberOfSvr m - i)") auto

declare find_service_loop.simps [simp del]

definition tux_find_service :: "string option \<Rightarrow> int \<Rightarrow> sdmem \<Rightarrow> int \<times> int" where
  "tux_find_service svr_name pos m =
     (case svr_name of None \<Rightarrow> (-1, pos) | Some n \<Rightarrow> find_service_loop n m 0 pos)"

text \<open>Results are the return value, \<open>tux_errno\<close> and the memory. The statement
  \<open>tSvcTab[pos].flags == SVC_INUSE;\<close> of the source compares and assigns nothing.\<close>

definition tux_new_service :: "string \<Rightarrow> nat \<Rightarrow> int \<Rightarrow> sdmem \<Rightarrow> (int \<times> int \<times> sdmem) cres" where
  "tux_new_service svr_name sd_fun err m =
     (let (rc, pos) = tux_find_service (Some svr_name) (-1) m
      in if rc \<ge> 0 then
           (if sc_sd_fun (tSvcTab m ! nat rc) \<noteq> sd_fun then Ret (-1, SYS_EMATCH, m) else Ret (rc, err, m))
         else if pos < 0 then Crash OutOfBounds
         else Ret (pos, err, m\<lparr>tSvcTab := (tSvcTab m)[nat pos := svc_zero\<lparr>
                sc_name := take TUX_NAME_LEN svr_name, sc_sd_fun := sd_fun\<rparr>]\<rparr>))"

definition tux_del_service :: "string \<Rightarrow> int \<Rightarrow> sdmem \<Rightarrow> int \<times> int \<times> sdmem" where
  "tux_del_service svr_name err m =
     (let (rc, pos) = tux_find_service (Some svr_name) (-1) m
      in if rc < 0 then (-1, SYS_NOENT, m)
         else (0, err, m\<lparr>tSvcTab := (tSvcTab m)[nat rc := svc_zero]\<rparr>))"

definition tux_strerror :: "int \<Rightarrow> string" where
  "tux_strerror err =
     (if err = SYS_LIMIT then ''system resource limit over''
      else if err = SYS_INVAL then ''input parameter invalid''
      else if err = SYS_OS then ''operator system error''
      else if err = SYS_NOENT then ''service not found''
      else if err = SYS_TIMEOUT then ''transaction timeout''
      else if err = SYS_PROTO then ''protocol error''
      else if err = SYS_SVCFAIL then ''service failure''
      else if err = SYS_EMATCH then ''service match error''
      else if err = SYS_GOTSIG then ''receive signal exit''
      else if err = SYS_SYSTEM then ''system error''
      else if err = SYS_ERR_SVC then ''serviece not found''
      else if err = SYS_DEAD_SVC then ''serviece dead''
      else ''unknown error'')"

text \<open>The memory is \<open>None\<close> when the process is not attached; a null name or handler is \<open>None\<close>.\<close>

definition tux_advertise :: "string option \<Rightarrow> nat option \<Rightarrow> int \<Rightarrow> sdmem option \<Rightarrow>
    (int \<times> int \<times> sdmem option) cres" where
  "tux_advertise svr_name sd_fun err att =
     (case (svr_name, sd_fun) of
        (Some n, Some f) \<Rightarrow>
          (case att of
             None \<Rightarrow> Ret (-1, SYS_SYSTEM, att)
           | Some m \<Rightarrow>
               let svrno = find_svrno_by_service n m
               in if svrno < 0 then Ret (-1, SYS_SYSTEM, att)
                  else cbind (tux_new_service n f err m) (\<lambda>(pos, e, m').
                         if pos < 0 then Ret (pos, e, Some m')
                         else Ret (0, e, Some (upd_svc (nat pos) (\<lambda>s. s\<lparr>sc_svrid := svrno\<rparr>) m'))))
      | _ \<Rightarrow> Ret (-1, SYS_INVAL, att))"

definition tux_unadvertise :: "string option \<Rightarrow> int \<Rightarrow> sdmem option \<Rightarrow> int \<times> int \<times> sdmem option" where
  "tux_unadvertise svr_name err att =
     (case svr_name of
        None \<Rightarrow> (-1, SYS_INVAL, att)
      | Some n \<Rightarrow>
          (case att of
             None \<Rightarrow> (-1, SYS_SYSTEM, att)
           | Some m \<Rightarrow> (let (rc, e, m') = tux_del_service n err m
                         in if rc \<noteq> 0 then (rc, e, Some m') else (0, e, Some m'))))"

section \<open>Shape of the tables\<close>

lemma num_upd [simp]:
  "sdNumberOfSvr (upd_svr i f m) = sdNumberOfSvr m" "sdNumberOfPid (upd_svr i f m) = sdNumberOfPid m"
  "sdNumberOfSvr (upd_pid i g m) = sdNumberOfSvr m" "sdNumberOfPid (upd_pid i g m) = sdNumberOfPid m"
  "sdNumberOfSvr (upd_svc i h m) = sdNumberOfSvr m" "sdNumberOfPid (upd_svc i h m) = sdNumberOfPid m"
  "sdNumberOfSvr (sbSvrTabClear i m) = sdNumberOfSvr m" "sdNumberOfPid (sbSvrTabClear i m) = sdNumberOfPid m"
  "sdNumberOfSvr (sdSvrPidClear i m) = sdNumberOfSvr m" "sdNumberOfPid (sdSvrPidClear i m) = sdNumberOfPid m"
  by (simp_all add: upd_svr_def upd_pid_def upd_svc_def sdNumberOfSvr_def sdNumberOfPid_def
      sbSvrTabClear_def sdSvrPidClear_def)

lemma mbctrl_upd [simp]:
  "mbctrl (upd_svr i f m) = mbctrl m" "mbctrl (upd_pid i g m) = mbctrl m" "mbctrl (upd_svc i h m) = mbctrl m"
  "mbctrl (sbSvrTabClear i m) = mbctrl m" "mbctrl (sdSvrPidClear i m) = mbctrl m"
  by (simp_all add: upd_svr_def upd_pid_def upd_svc_def sbSvrTabClear_def sdSvrPidClear_def)

lemma tabs_ok_upd [tabs]:
  "tabs_ok (upd_svr i f m) = tabs_ok m" "tabs_ok (upd_pid i g m) = tabs_ok m"
  "tabs_ok (upd_svc i h m) = tabs_ok m" "tabs_ok (sbSvrTabClear i m) = tabs_ok m"
  "tabs_ok (sdSvrPidClear i m) = tabs_ok m"
  by (simp_all add: tabs_ok_def) (simp_all add: upd_svr_def upd_pid_def upd_svc_def sbSvrTabClear_def
      sdSvrPidClear_def)

interpretation pidtab: slot_table server_get_pidentry "\<lambda>m i. sp_pid (tSvrPid m ! i) = -1" 1 sdNumberOfPid
    "\<lambda>m i x. upd_pid i (\<lambda>_. x) m" "\<lambda>x. sp_pid x \<noteq> -1" tabs_ok
  by unfold_locales
    (simp_all add: server_get_pidentry_def tabs, auto simp: upd_pid_def tabs_ok_def nth_list_update)

interpretation svrtab: slot_table server_get_identry "\<lambda>m i. st_svrid (tSvrTab m ! i) = -1" 1 sdNumberOfSvr
    "\<lambda>m i x. upd_svr i (\<lambda>_. x) m" "\<lambda>x. st_svrid x \<noteq> -1" tabs_ok
  by unfold_locales
    (simp_all add: server_get_identry_def tabs, auto simp: upd_svr_def tabs_ok_def nth_list_update)

text \<open>The first free slot that \<open>tux_find_service\<close> hands to \<open>tux_new_service\<close>.\<close>

definition first_free_svc :: "sdmem \<Rightarrow> int" where
  "first_free_svc m = scan (\<lambda>i. sc_flags (tSvcTab m ! i) = -1) 0 (sdNumberOfSvr m)"

interpretation svctab: slot_table first_free_svc "\<lambda>m i. sc_flags (tSvcTab m ! i) = -1" 0 sdNumberOfSvr
    "\<lambda>m i x. upd_svc i (\<lambda>_. x) m" "\<lambda>x. sc_flags x \<noteq> -1" tabs_ok
  by unfold_locales
    (simp_all add: first_free_svc_def tabs, auto simp: upd_svc_def tabs_ok_def nth_list_update)

section \<open>What tux_find_service finds\<close>

definition svc_match :: "string \<Rightarrow> sdmem \<Rightarrow> nat \<Rightarrow> bool" where
  "svc_match n m i \<longleftrightarrow> strncmp_eq (sc_name (tSvcTab m ! i)) n TUX_NAME_LEN"

lemma find_service_pos:
  "pos \<ge> 0 \<Longrightarrow> find_service_loop n m i pos = (scan (svc_match n m) i (sdNumberOfSvr m), pos)"
proof (induction n m i pos rule: find_service_loop.induct)
  case (1 n m i pos)
  then show ?case
    by (subst find_service_loop.simps, subst scan.simps) (auto simp: svc_match_def [symmetric])
qed

lemma find_service_fresh:
  assumes "pos < 0" "find_service_loop n m i pos = (rc, pos')" "rc < 0"
  shows "rc = -1 \<and> (let fr = scan (\<lambda>j. sc_flags (tSvcTab m ! j) = -1) i (sdNumberOfSvr m) in
    pos' = (if fr < 0 then pos else fr) \<and>
    (\<forall>j. i \<le> j \<and> j < sdNumberOfSvr m \<and> int j \<noteq> fr \<longrightarrow> \<not> svc_match n m j))"
  using assms
proof (induction n m i pos rule: find_service_loop.induct)
  case (1 n m i pos)
  note lp = find_service_loop.simps [of n m i pos] and sc = scan.simps [of _ i "sdNumberOfSvr m"]
  show ?case
  proof (cases "i < sdNumberOfSvr m")
    case i: True
    show ?thesis
    proof (cases "sc_flags (tSvcTab m ! i) = -1")
      case True
      then have l: "find_service_loop n m (Suc i) (int i) = (rc, pos')" using "1.prems" i lp by simp
      then have "rc = scan (svc_match n m) (Suc i) (sdNumberOfSvr m)" "pos' = int i"
        by (simp_all add: find_service_pos)
      moreover from this have "rc = -1" using "1.prems"(3) by (simp add: scan_neg_iff)
      ultimately show ?thesis
        using True i by (auto simp: sc scan_none [symmetric]) (metis Suc_le_eq le_neq_implies_less scan_none)
    next
      case False
      then have nm: "\<not> svc_match n m i" using "1.prems" i lp by (auto simp: svc_match_def split: if_splits)
      then have l: "find_service_loop n m (Suc i) pos = (rc, pos')"
        using "1.prems" i lp False by (simp add: svc_match_def)
      have s: "scan (\<lambda>j. sc_flags (tSvcTab m ! j) = -1) i (sdNumberOfSvr m)
          = scan (\<lambda>j. sc_flags (tSvcTab m ! j) = -1) (Suc i) (sdNumberOfSvr m)"
        using i False by (simp add: sc)
      have "rc = -1 \<and> (let fr = scan (\<lambda>j. sc_flags (tSvcTab m ! j) = -1) (Suc i) (sdNumberOfSvr m) in
          pos' = (if fr < 0 then pos else fr) \<and>
          (\<forall>j. Suc i \<le> j \<and> j < sdNumberOfSvr m \<and> int j \<noteq> fr \<longrightarrow> \<not> svc_match n m j))"
        using "1.IH"(2) [OF i _ _ "1.prems"(1) l "1.prems"(3)] False nm by (auto simp: svc_match_def)
      then show ?thesis
        unfolding s using nm by (auto simp: Let_def) (metis Suc_le_eq le_neq_implies_less)
    qed
  next
    case False
    then show ?thesis using "1.prems" lp by (auto simp: sc Let_def)
  qed
qed

lemma find_service_hit:
  "find_service_loop n m i pos = (rc, pos') \<Longrightarrow> rc \<ge> 0 \<Longrightarrow>
     svc_match n m (nat rc) \<and> nat rc < sdNumberOfSvr m \<and> i \<le> nat rc"
proof (induction n m i pos rule: find_service_loop.induct)
  case (1 n m i pos)
  show ?case
    using 1 find_service_loop.simps [of n m i pos] by (auto simp: svc_match_def split: if_splits)
qed

section \<open>The service table as a map\<close>

definition svc_key :: "sdmem \<Rightarrow> nat \<Rightarrow> string" where
  "svc_key m i = take TUX_NAME_LEN (sc_name (tSvcTab m ! i))"

text \<open>Free slots carry no name, and a name occurs once.\<close>

definition svc_ok :: "sdmem \<Rightarrow> bool" where
  "svc_ok m \<longleftrightarrow> tabs_ok m \<and>
     (\<forall>i < sdNumberOfSvr m. sc_flags (tSvcTab m ! i) = -1 \<longrightarrow> svc_key m i = []) \<and>
     (\<forall>i < sdNumberOfSvr m. \<forall>j < sdNumberOfSvr m. svc_key m i \<noteq> [] \<and> svc_key m i = svc_key m j \<longrightarrow> i = j)"

definition svc_abs :: "sdmem \<Rightarrow> string \<Rightarrow> nat option" where
  "svc_abs m k =
     (if k = [] then None
      else let i = scan (\<lambda>i. svc_key m i = k) 0 (sdNumberOfSvr m)
           in if i < 0 then None else Some (sc_sd_fun (tSvcTab m ! nat i)))"

lemma svc_match_key: "svc_match n m i \<longleftrightarrow> svc_key m i = take TUX_NAME_LEN n"
  by (simp add: svc_match_def svc_key_def strncmp_eq_def)

lemma svc_abs_Some:
  assumes "svc_ok m" "i < sdNumberOfSvr m" "svc_key m i = k" "k \<noteq> []"
  shows "svc_abs m k = Some (sc_sd_fun (tSvcTab m ! i))"
proof -
  have "scan (\<lambda>i. svc_key m i = k) 0 (sdNumberOfSvr m) = int i"
    using assms unfolding scan_some svc_ok_def by (metis le0 less_irrefl order.strict_trans)
  then show ?thesis using assms(4) by (simp add: svc_abs_def)
qed

lemma svc_abs_None: "k = [] \<or> (\<forall>i < sdNumberOfSvr m. svc_key m i \<noteq> k) \<Longrightarrow> svc_abs m k = None"
  by (auto simp: svc_abs_def Let_def scan_neg_iff scan_none)

lemma svc_key_upd:
  "tabs_ok m \<Longrightarrow> i < sdNumberOfSvr m \<Longrightarrow> svc_key (upd_svc i h m) j =
     (if j = i then take TUX_NAME_LEN (sc_name (h (tSvcTab m ! i))) else svc_key m j)"
  by (simp add: svc_key_def upd_svc_def tabs_ok_def nth_list_update)

lemma svc_nth_upd:
  "tabs_ok m \<Longrightarrow> i < sdNumberOfSvr m \<Longrightarrow> tSvcTab (upd_svc i h m) ! j =
     (if j = i then h (tSvcTab m ! i) else tSvcTab m ! j)"
  by (simp add: upd_svc_def tabs_ok_def nth_list_update)

lemmas svc_upd = svc_key_upd svc_nth_upd

lemma svc_abs_upd:
  assumes "svc_ok m" "svc_ok (upd_svc i (\<lambda>_. s) m)" "i < sdNumberOfSvr m"
  shows "svc_abs (upd_svc i (\<lambda>_. s) m) k =
    (if k \<noteq> [] \<and> k = take TUX_NAME_LEN (sc_name s) then Some (sc_sd_fun s)
     else if k = svc_key m i then None else svc_abs m k)"
proof -
  have t: "tabs_ok m" using assms(1) by (simp add: svc_ok_def)
  let ?m = "upd_svc i (\<lambda>_. s) m"
  consider "k = []" | "k \<noteq> []" "k = take TUX_NAME_LEN (sc_name s)"
    | "k \<noteq> []" "k \<noteq> take TUX_NAME_LEN (sc_name s)" "k = svc_key m i"
    | j where "k \<noteq> []" "k \<noteq> take TUX_NAME_LEN (sc_name s)" "k \<noteq> svc_key m i"
        "j < sdNumberOfSvr m" "svc_key m j = k"
    | "k \<noteq> []" "k \<noteq> take TUX_NAME_LEN (sc_name s)" "\<forall>j < sdNumberOfSvr m. svc_key m j \<noteq> k"
    by blast
  then show ?thesis
  proof cases
    case 1
    then show ?thesis by (simp add: svc_abs_def)
  next
    case 2
    then show ?thesis using svc_abs_Some [OF assms(2), of i k] t assms(3) by (simp add: svc_upd)
  next
    case 3
    have "\<forall>j < sdNumberOfSvr ?m. svc_key ?m j \<noteq> k"
      using 3 assms(1,3) t by (auto simp: svc_upd svc_ok_def)
    then show ?thesis using 3 by (simp add: svc_abs_None)
  next
    case (4 j)
    then have "j \<noteq> i" by blast
    then show ?thesis
      using 4 svc_abs_Some [OF assms(2), of j k] svc_abs_Some [OF assms(1), of j k] t assms(3)
      by (simp add: svc_upd)
  next
    case 5
    have "\<forall>j < sdNumberOfSvr ?m. svc_key ?m j \<noteq> k"
      using 5 assms(3) t by (auto simp: svc_upd)
    then show ?thesis using 5 by (simp add: svc_abs_None)
  qed
qed

text \<open>Storing a new name into a nameless slot, and erasing a slot.\<close>

lemma svc_put:
  assumes "svc_ok m" "i < sdNumberOfSvr m" "svc_key m i = []" "sc_flags s \<noteq> -1"
    and "take TUX_NAME_LEN (sc_name s) = k" "k \<noteq> []" "\<forall>j < sdNumberOfSvr m. svc_key m j \<noteq> k"
  shows "svc_ok (upd_svc i (\<lambda>_. s) m) \<and> svc_abs (upd_svc i (\<lambda>_. s) m) = (svc_abs m)(k \<mapsto> sc_sd_fun s)"
proof -
  have t: "tabs_ok m" using assms(1) by (simp add: svc_ok_def)
  have ok: "svc_ok (upd_svc i (\<lambda>_. s) m)"
    using assms t unfolding svc_ok_def by (auto simp: tabs svc_upd)
  have "svc_abs (upd_svc i (\<lambda>_. s) m) = (svc_abs m)(k \<mapsto> sc_sd_fun s)"
    using svc_abs_upd [OF assms(1) ok assms(2)] assms(3,5,6) by (auto simp: svc_abs_def)
  with ok show ?thesis by blast
qed

lemma svc_erase:
  assumes "svc_ok m" "i < sdNumberOfSvr m" "svc_key m i = k" "k \<noteq> []"
  shows "svc_ok (upd_svc i (\<lambda>_. svc_zero) m) \<and> svc_abs (upd_svc i (\<lambda>_. svc_zero) m) = (svc_abs m)(k := None)"
proof -
  have t: "tabs_ok m" using assms by (auto simp: svc_ok_def)
  have ok: "svc_ok (upd_svc i (\<lambda>_. svc_zero) m)"
    using assms t unfolding svc_ok_def by (auto simp: tabs svc_upd svc_zero_def)
  have "svc_abs (upd_svc i (\<lambda>_. svc_zero) m) = (svc_abs m)(k := None)"
    using svc_abs_upd [OF assms(1) ok assms(2)] assms(3) by (auto simp: svc_zero_def)
  with ok show ?thesis by blast
qed

lemma svc_keep:
  assumes "svc_ok m" "i < sdNumberOfSvr m"
  shows "svc_ok (upd_svc i (\<lambda>s. s\<lparr>sc_svrid := v\<rparr>) m)
    \<and> svc_abs (upd_svc i (\<lambda>s. s\<lparr>sc_svrid := v\<rparr>) m) = svc_abs m"
proof -
  have t: "tabs_ok m" using assms by (auto simp: svc_ok_def)
  have k: "svc_key (upd_svc i (\<lambda>s. s\<lparr>sc_svrid := v\<rparr>) m) j = svc_key m j" for j
    using t assms(2) by (simp add: svc_upd svc_key_def)
  have ok: "svc_ok (upd_svc i (\<lambda>s. s\<lparr>sc_svrid := v\<rparr>) m)"
    using assms t unfolding svc_ok_def by (auto simp: tabs k svc_nth_upd split: if_splits)
  have "sc_sd_fun (tSvcTab (upd_svc i (\<lambda>s. s\<lparr>sc_svrid := v\<rparr>) m) ! j) = sc_sd_fun (tSvcTab m ! j)" for j
    using t assms(2) by (simp add: svc_nth_upd)
  then have "svc_abs (upd_svc i (\<lambda>s. s\<lparr>sc_svrid := v\<rparr>) m) = svc_abs m"
    by (simp add: svc_abs_def k fun_eq_iff Let_def)
  with ok show ?thesis by blast
qed

lemma new_service_cases:
  assumes "svc_ok m" "n \<noteq> []" "tux_new_service n f err m = Ret (pos, e, m')" "pos \<ge> 0"
  obtains (old) i where "pos = int i" "i < sdNumberOfSvr m" "svc_key m i = take TUX_NAME_LEN n"
      "sc_sd_fun (tSvcTab m ! i) = f" "m' = m"
  | (new) i where "pos = int i" "i < sdNumberOfSvr m" "first_free_svc m = int i"
      "\<forall>j < sdNumberOfSvr m. svc_key m j \<noteq> take TUX_NAME_LEN n"
      "m' = upd_svc i (\<lambda>_. svc_zero\<lparr>sc_name := take TUX_NAME_LEN n, sc_sd_fun := f\<rparr>) m"
proof -
  obtain rc p where l: "find_service_loop n m 0 (-1) = (rc, p)" by fastforce
  have r: "(if rc \<ge> 0 then
       (if sc_sd_fun (tSvcTab m ! nat rc) \<noteq> f then Ret (-1, SYS_EMATCH, m) else Ret (rc, err, m))
     else if p < 0 then Crash OutOfBounds
     else Ret (p, err, upd_svc (nat p) (\<lambda>_. svc_zero\<lparr>sc_name := take TUX_NAME_LEN n, sc_sd_fun := f\<rparr>) m))
     = Ret (pos, e, m')"
    using assms(3) l by (auto simp: tux_new_service_def tux_find_service_def upd_svc_def split: if_splits)
  show ?thesis
  proof (cases "rc \<ge> 0")
    case True
    then show ?thesis
      using old [of "nat rc"] r find_service_hit [OF l True] assms(4)
      by (auto simp: svc_match_key split: if_splits)
  next
    case False
    then have p: "p \<ge> 0" "pos = p"
      "m' = upd_svc (nat p) (\<lambda>_. svc_zero\<lparr>sc_name := take TUX_NAME_LEN n, sc_sd_fun := f\<rparr>) m"
      using r assms(4) by (auto split: if_splits)
    have fr: "first_free_svc m = p" "\<forall>j < sdNumberOfSvr m. int j \<noteq> p \<longrightarrow> \<not> svc_match n m j"
      using find_service_fresh [OF _ l] False p(1) by (auto simp: first_free_svc_def Let_def split: if_splits)
    have b: "nat p < sdNumberOfSvr m \<and> sc_flags (tSvcTab m ! nat p) = -1"
      using svctab.find_bounds [of m] fr(1) p(1) by simp
    then have "svc_key m (nat p) = []" using assms(1) by (simp add: svc_ok_def)
    then have "\<forall>j < sdNumberOfSvr m. svc_key m j \<noteq> take TUX_NAME_LEN n"
      using fr(2) assms(2) p(1) by (auto simp: svc_match_key TUX_NAME_LEN_def)
    then show ?thesis using new [of "nat p"] p fr(1) b by auto
  qed
qed

lemma advertise_abs:
  assumes "svc_ok m" "n \<noteq> []" "tux_advertise (Some n) (Some f) err (Some m) = Ret (0, e, Some m')"
  shows "svc_ok m' \<and> svc_abs m' = (svc_abs m)(take TUX_NAME_LEN n \<mapsto> f)"
proof -
  obtain pos e1 m1 where p: "tux_new_service n f err m = Ret (pos, e1, m1)" "pos \<ge> 0"
    "m' = upd_svc (nat pos) (\<lambda>s. s\<lparr>sc_svrid := find_svrno_by_service n m\<rparr>) m1"
    using assms(3) by (auto simp: tux_advertise_def Let_def cbind_Ret_iff split: if_splits)
  have k: "take TUX_NAME_LEN n \<noteq> []" using assms(2) by (simp add: TUX_NAME_LEN_def)
  have "svc_ok m1 \<and> nat pos < sdNumberOfSvr m1 \<and> svc_abs m1 = (svc_abs m)(take TUX_NAME_LEN n \<mapsto> f)"
    using assms(1,2) p(1,2)
  proof (cases rule: new_service_cases)
    case (old i)
    then show ?thesis using svc_abs_Some [OF assms(1) old(2,3) k] assms(1) by (auto simp: map_upd_triv)
  next
    case (new i)
    let ?s = "svc_zero\<lparr>sc_name := take TUX_NAME_LEN n, sc_sd_fun := f\<rparr>"
    have "svc_key m i = []"
      using svctab.find_bounds [of m] new(3) assms(1) by (simp add: svc_ok_def)
    then show ?thesis
      using svc_put [OF assms(1) new(2) _ _ _ k new(4), of ?s] new by (simp add: svc_zero_def)
  qed
  then show ?thesis using p(3) svc_keep [of m1 "nat pos" "find_svrno_by_service n m"] by simp
qed

lemma find_service_key:
  assumes "svc_ok m" "n \<noteq> []"
  shows "case svc_abs m (take TUX_NAME_LEN n) of
      None \<Rightarrow> fst (tux_find_service (Some n) pos m) = -1
    | Some f \<Rightarrow> \<exists>i < sdNumberOfSvr m. fst (tux_find_service (Some n) pos m) = int i
        \<and> sc_sd_fun (tSvcTab m ! i) = f \<and> svc_key m i = take TUX_NAME_LEN n"
proof -
  have k: "take TUX_NAME_LEN n \<noteq> []" using assms(2) by (simp add: TUX_NAME_LEN_def)
  obtain rc p where l: "find_service_loop n m 0 pos = (rc, p)" by fastforce
  show ?thesis
  proof (cases "rc \<ge> 0")
    case True
    then have "nat rc < sdNumberOfSvr m" "svc_key m (nat rc) = take TUX_NAME_LEN n"
      using find_service_hit [OF l True] by (auto simp: svc_match_key)
    then show ?thesis
      using svc_abs_Some [OF assms(1) _ _ k, of "nat rc"] l True
      by (auto simp: tux_find_service_def intro!: exI [of _ "nat rc"])
  next
    case False
    have "rc = -1 \<and> (\<forall>j < sdNumberOfSvr m. svc_key m j \<noteq> take TUX_NAME_LEN n)"
    proof (cases "pos < 0")
      case True
      have "int j = scan (\<lambda>j. sc_flags (tSvcTab m ! j) = -1) 0 (sdNumberOfSvr m) \<Longrightarrow> svc_key m j = []" for j
        using assms(1) scan_some [of "\<lambda>j. sc_flags (tSvcTab m ! j) = -1" 0 "sdNumberOfSvr m" j]
        by (auto simp: svc_ok_def)
      then show ?thesis
        using find_service_fresh [OF True l] False k by (auto simp: Let_def svc_match_key)
    next
      case pos: False
      then have "rc = scan (svc_match n m) 0 (sdNumberOfSvr m)"
        using l by (simp add: find_service_pos)
      moreover from this have "rc = -1" using False scan_neg_iff by (metis not_le)
      ultimately show ?thesis
        using scan_none [of "svc_match n m" 0 "sdNumberOfSvr m"] by (simp add: svc_match_key)
    qed
    then show ?thesis using svc_abs_None l by (simp add: tux_find_service_def)
  qed
qed

lemma unadvertise_abs:
  assumes "svc_ok m" "n \<noteq> []"
  shows "case svc_abs m (take TUX_NAME_LEN n) of
      None \<Rightarrow> tux_unadvertise (Some n) err (Some m) = (-1, SYS_NOENT, Some m)
    | Some f \<Rightarrow> \<exists>i m'. tux_unadvertise (Some n) err (Some m) = (0, err, Some m') \<and> svc_ok m'
        \<and> svc_abs m' = (svc_abs m)(take TUX_NAME_LEN n := None)
        \<and> i < sdNumberOfSvr m \<and> svc_key m i = take TUX_NAME_LEN n \<and> m' = upd_svc i (\<lambda>_. svc_zero) m"
proof -
  have k: "take TUX_NAME_LEN n \<noteq> []" using assms(2) by (simp add: TUX_NAME_LEN_def)
  have f: "tux_unadvertise (Some n) err (Some m) =
      (let rc = fst (tux_find_service (Some n) (-1) m) in if rc < 0 then (-1, SYS_NOENT, Some m)
       else (0, err, Some (upd_svc (nat rc) (\<lambda>_. svc_zero) m)))"
    by (simp add: tux_unadvertise_def tux_del_service_def upd_svc_def Let_def split: prod.splits)
  show ?thesis
    using find_service_key [OF assms, of "-1"] svc_erase [OF assms(1) _ _ k]
    by (auto simp: f Let_def split: option.splits)
qed

section \<open>The registry contract\<close>

text \<open>What a dispatcher relies on: successful additions and removals act as updates of a map from
  keys to handlers, and the lookup reads that map.\<close>

locale registry =
  fixes inv :: "'m \<Rightarrow> bool"
    and absf :: "'m \<Rightarrow> string \<Rightarrow> nat option"
    and key :: "string \<Rightarrow> string"
    and add :: "string \<Rightarrow> nat \<Rightarrow> 'm \<Rightarrow> 'm option"
    and del :: "string \<Rightarrow> 'm \<Rightarrow> 'm option"
    and look :: "string \<Rightarrow> 'm \<Rightarrow> nat option"
  assumes add_abs: "inv m \<Longrightarrow> n \<noteq> [] \<Longrightarrow> add n f m = Some m' \<Longrightarrow> inv m' \<and> absf m' = (absf m)(key n \<mapsto> f)"
    and del_abs: "inv m \<Longrightarrow> n \<noteq> [] \<Longrightarrow> del n m = Some m' \<Longrightarrow> inv m' \<and> absf m' = (absf m)(key n := None)"
    and look_abs: "inv m \<Longrightarrow> n \<noteq> [] \<Longrightarrow> look n m = absf m (key n)"
begin

lemma look_add: "inv m \<Longrightarrow> n \<noteq> [] \<Longrightarrow> n' \<noteq> [] \<Longrightarrow> add n f m = Some m' \<Longrightarrow>
    look n' m' = (if key n' = key n then Some f else look n' m)"
  using add_abs [of m n f m'] by (simp add: look_abs)

lemma look_del: "inv m \<Longrightarrow> n \<noteq> [] \<Longrightarrow> n' \<noteq> [] \<Longrightarrow> del n m = Some m' \<Longrightarrow>
    look n' m' = (if key n' = key n then None else look n' m)"
  using del_abs [of m n m'] by (simp add: look_abs)

end

definition svc_add :: "string \<Rightarrow> nat \<Rightarrow> sdmem \<Rightarrow> sdmem option" where
  "svc_add n f m = (case tux_advertise (Some n) (Some f) 0 (Some m) of
      Ret (rc, e, Some m') \<Rightarrow> if rc = 0 then Some m' else None | _ \<Rightarrow> None)"

definition svc_del :: "string \<Rightarrow> sdmem \<Rightarrow> sdmem option" where
  "svc_del n m = (case tux_unadvertise (Some n) 0 (Some m) of
      (rc, e, Some m') \<Rightarrow> if rc = 0 then Some m' else None | _ \<Rightarrow> None)"

text \<open>The handler that \<open>tux_service\<close> would call for a request with this name.\<close>

definition svc_handler :: "string \<Rightarrow> sdmem \<Rightarrow> nat option" where
  "svc_handler n m =
     (let i = fst (tux_find_service (Some n) 1 m) in if i < 0 then None else Some (sc_sd_fun (tSvcTab m ! nat i)))"

interpretation reg: registry svc_ok svc_abs "take TUX_NAME_LEN" svc_add svc_del svc_handler
proof
  fix m m' :: sdmem and n :: string and f :: nat
  assume a: "svc_ok m" "n \<noteq> []"
  show "svc_handler n m = svc_abs m (take TUX_NAME_LEN n)"
    using find_service_key [OF a, of 1] by (auto simp: svc_handler_def Let_def split: option.splits)
  { assume "svc_add n f m = Some m'"
    then obtain e where "tux_advertise (Some n) (Some f) 0 (Some m) = Ret (0, e, Some m')"
      by (auto simp: svc_add_def split: cres.splits option.splits if_splits)
    from advertise_abs [OF a this]
    show "svc_ok m' \<and> svc_abs m' = (svc_abs m)(take TUX_NAME_LEN n \<mapsto> f)" . }
  { assume "svc_del n m = Some m'"
    then show "svc_ok m' \<and> svc_abs m' = (svc_abs m)(take TUX_NAME_LEN n := None)"
      using unadvertise_abs [OF a, of 0]
      by (auto simp: svc_del_def split: prod.splits option.splits if_splits) }
qed

section \<open>Slots are used up\<close>

definition free_svc :: "sdmem \<Rightarrow> nat" where
  "free_svc m = length (filter (\<lambda>i. sc_flags (tSvcTab m ! i) = -1) [0..<sdNumberOfSvr m])"

lemma free_svc_slots: "free_svc m = card (svctab.free_slots m)"
  unfolding free_svc_def svctab.free_slots_def
  by (subst distinct_card [symmetric]) (auto intro!: arg_cong [of _ _ card])

lemma free_svc_same:
  "tabs_ok m \<Longrightarrow> i < sdNumberOfSvr m \<Longrightarrow> sc_flags (tSvcTab m ! i) \<noteq> -1 \<Longrightarrow> sc_flags (h (tSvcTab m ! i)) \<noteq> -1 \<Longrightarrow>
     free_svc (upd_svc i h m) = free_svc m"
  unfolding free_svc_def by (intro arg_cong [of _ _ length] filter_cong) (auto simp: svc_nth_upd)

definition svc_cycle :: "string \<Rightarrow> nat \<Rightarrow> sdmem \<Rightarrow> sdmem cres" where
  "svc_cycle n f m =
     cbind (tux_advertise (Some n) (Some f) 0 (Some m)) (\<lambda>(rc, e, att).
       case tux_unadvertise (Some n) e att of (rc', e', Some m') \<Rightarrow> Ret m' | (rc', e', None) \<Rightarrow> Crash NullDeref)"

fun svc_cycles :: "nat \<Rightarrow> string \<Rightarrow> nat \<Rightarrow> sdmem \<Rightarrow> sdmem cres" where
  "svc_cycles 0 n f m = Ret m"
| "svc_cycles (Suc k) n f m = cbind (svc_cycle n f m) (svc_cycles k n f)"

lemma new_service_fresh:
  assumes "svc_ok m" "n \<noteq> []" "svc_abs m (take TUX_NAME_LEN n) = None"
  shows "tux_new_service n f err m =
    (if first_free_svc m < 0 then Crash OutOfBounds
     else Ret (first_free_svc m, err, upd_svc (nat (first_free_svc m))
       (\<lambda>_. svc_zero\<lparr>sc_name := take TUX_NAME_LEN n, sc_sd_fun := f\<rparr>) m))"
proof -
  obtain rc p where l: "find_service_loop n m 0 (-1) = (rc, p)" by fastforce
  have "rc = -1"
    using find_service_key [OF assms(1,2), of "-1"] assms(3) l by (simp add: tux_find_service_def)
  then have "p = (if first_free_svc m < 0 then -1 else first_free_svc m)"
    using find_service_fresh [OF _ l] by (simp add: first_free_svc_def Let_def)
  with l \<open>rc = -1\<close> show ?thesis
    by (simp add: tux_new_service_def tux_find_service_def upd_svc_def)
qed

lemma advertise_fresh:
  assumes "svc_ok m" "n \<noteq> []" "svc_abs m (take TUX_NAME_LEN n) = None" "find_svrno_by_service n m \<ge> 0"
  shows "if free_svc m = 0 then tux_advertise (Some n) (Some f) err (Some m) = Crash OutOfBounds
    else \<exists>m'. tux_advertise (Some n) (Some f) err (Some m) = Ret (0, err, Some m')
      \<and> Suc (free_svc m') = free_svc m \<and> tSvrTab m' = tSvrTab m \<and> mbctrl m' = mbctrl m"
proof (cases "first_free_svc m < 0")
  case True
  then have "free_svc m = 0" using svctab.find_full [of m] by (simp add: free_svc_slots)
  then show ?thesis
    using True assms new_service_fresh [OF assms(1-3)] by (simp add: tux_advertise_def Let_def)
next
  case False
  define i where "i = nat (first_free_svc m)"
  let ?s = "svc_zero\<lparr>sc_name := take TUX_NAME_LEN n, sc_sd_fun := f\<rparr>"
  let ?m1 = "upd_svc i (\<lambda>_. ?s) m"
  let ?m2 = "upd_svc i (\<lambda>s. s\<lparr>sc_svrid := find_svrno_by_service n m\<rparr>) ?m1"
  have t: "tabs_ok m" using assms(1) by (simp add: svc_ok_def)
  have i: "i < sdNumberOfSvr m" using svctab.find_bounds [of m] False by (simp add: i_def)
  have c: "Suc (free_svc ?m1) = free_svc m"
    using svctab.put_card [OF t, of ?s] False by (simp add: free_svc_slots i_def svc_zero_def)
  have "free_svc ?m2 = free_svc ?m1"
    using t i by (intro free_svc_same) (simp_all add: tabs svc_nth_upd svc_zero_def)
  then show ?thesis
    using c False assms(4) new_service_fresh [OF assms(1-3)]
    by (auto simp: tux_advertise_def Let_def i_def upd_svc_def)
qed

lemma cycle_step:
  assumes "svc_ok m" "n \<noteq> []" "svc_abs m (take TUX_NAME_LEN n) = None" "find_svrno_by_service n m \<ge> 0"
    "free_svc m > 0"
  shows "\<exists>m'. svc_cycle n f m = Ret m' \<and> svc_ok m' \<and> svc_abs m' (take TUX_NAME_LEN n) = None
    \<and> find_svrno_by_service n m' \<ge> 0 \<and> Suc (free_svc m') = free_svc m"
proof -
  obtain m1 where m1: "tux_advertise (Some n) (Some f) 0 (Some m) = Ret (0, 0, Some m1)"
    "Suc (free_svc m1) = free_svc m" "tSvrTab m1 = tSvrTab m" "mbctrl m1 = mbctrl m"
    using advertise_fresh [OF assms(1-4), of f 0] assms(5) by auto
  have a: "svc_ok m1" "svc_abs m1 (take TUX_NAME_LEN n) = Some f"
    using advertise_abs [OF assms(1,2) m1(1)] by auto
  obtain i m2 where m2: "tux_unadvertise (Some n) 0 (Some m1) = (0, 0, Some m2)" "svc_ok m2"
    "svc_abs m2 = (svc_abs m1)(take TUX_NAME_LEN n := None)" "i < sdNumberOfSvr m1"
    "svc_key m1 i = take TUX_NAME_LEN n" "m2 = upd_svc i (\<lambda>_. svc_zero) m1"
    using unadvertise_abs [OF a(1) assms(2), of 0] a(2) by auto
  have "sc_flags (tSvcTab m1 ! i) \<noteq> -1"
    using a(1) m2(4,5) assms(2) by (auto simp: svc_ok_def TUX_NAME_LEN_def)
  then have "free_svc m2 = free_svc m1"
    using a(1) m2(4) unfolding m2(6) by (intro free_svc_same) (auto simp: svc_ok_def svc_zero_def)
  moreover have "find_svrno_by_service n m2 = find_svrno_by_service n m"
    using m1(3,4) m2(6) by (simp add: find_svrno_by_service_def upd_svc_def sdNumberOfSvr_def)
  ultimately show ?thesis
    using m1 m2 assms(4) by (simp add: svc_cycle_def)
qed

lemma cycles_all:
  "svc_ok m \<Longrightarrow> n \<noteq> [] \<Longrightarrow> svc_abs m (take TUX_NAME_LEN n) = None \<Longrightarrow> find_svrno_by_service n m \<ge> 0 \<Longrightarrow>
     free_svc m = k \<Longrightarrow> \<exists>m'. svc_cycles k n f m = Ret m' \<and>
       tux_advertise (Some n) (Some f) 0 (Some m') = Crash OutOfBounds"
proof (induction k arbitrary: m)
  case 0
  then show ?case using advertise_fresh [of m n f 0] by simp
next
  case (Suc k)
  obtain m1 where "svc_cycle n f m = Ret m1" "svc_ok m1" "svc_abs m1 (take TUX_NAME_LEN n) = None"
    "find_svrno_by_service n m1 \<ge> 0" "Suc (free_svc m1) = free_svc m"
    using cycle_step [OF Suc.prems(1-4), of f] Suc.prems(5) by auto
  then show ?case using Suc.IH [of m1] Suc.prems(2,5) by simp
qed

section \<open>Properties\<close>

text \<open>Claim C15. The service table is a map from names (their first 32 characters) to handlers: after a
  successful \<open>tux_advertise\<close>, the lookup of \<open>tux_service\<close> finds the new handler under that name and
  the same handler as before under every other name.\<close>

theorem advertise_lookup:
  assumes "svc_ok m" "n \<noteq> []" "n' \<noteq> []" "svc_add n f m = Some m'"
  shows "svc_ok m' \<and>
    svc_handler n' m' = (if take TUX_NAME_LEN n' = take TUX_NAME_LEN n then Some f else svc_handler n' m)"
  using reg.look_add [OF assms] reg.add_abs [OF assms(1,2,4)] by blast

definition sdmem2 :: sdmem where
  "sdmem2 = \<lparr>mbctrl = \<lparr>mb_nsvrnum = 2, mb_npidnum = 3, mb_main_pid = 10, mb_semid = 1, mb_memid = 2,
       mb_req_que = 601107, mb_rsp_que = 601117, mb_req_que_id = 5, mb_rsp_que_id = 6, mb_max_msg_len = 4096\<rparr>,
     tSvrTab = [svr_zero\<lparr>st_name := ''Governor'', st_svc_name := ''Governor'', st_msg_type := 300000,
                  st_state := 2, st_timeout := -1\<rparr>,
                svr_zero\<lparr>st_svrid := 7, st_name := ''testsvr'', st_svc_name := ''TEST'', st_pid_tot := 1,
                  st_state := 2, st_type := 1, st_msg_type := 300007, st_timeout := 20\<rparr>],
     tSvrPid = [pid_zero\<lparr>sp_pid := 10\<rparr>, pid_zero\<lparr>sp_pid := 11, sp_svrid := 7, sp_svrpos := 1\<rparr>,
                pid_zero\<lparr>sp_pid := -1\<rparr>],
     tSvcTab = [svc_zero\<lparr>sc_flags := -1\<rparr>, svc_zero\<lparr>sc_flags := -1\<rparr>]\<rparr>"

lemma sdmem2_ok: "svc_ok sdmem2"
  by (auto simp: svc_ok_def tabs_ok_def sdmem2_def sdNumberOfSvr_def sdNumberOfPid_def svc_key_def svc_zero_def
      less_Suc_eq numeral_2_eq_2)

lemma sdmem2_add: "\<exists>m'. svc_add ''TEST'' 9 sdmem2 = Some m'"
proof -
  have "svc_abs sdmem2 (take TUX_NAME_LEN ''TEST'') = None" "free_svc sdmem2 = 2"
    "find_svrno_by_service ''TEST'' sdmem2 \<ge> 0" by code_simp+
  then show ?thesis
    using advertise_fresh [OF sdmem2_ok, of "''TEST''" 9 0] by (auto simp: svc_add_def)
qed

theorem advertise_lookup_witness:
  "\<exists>m'. svc_add ''TEST'' 9 sdmem2 = Some m' \<and> svc_handler ''TEST'' m' = Some 9"
proof -
  obtain m' where m': "svc_add ''TEST'' 9 sdmem2 = Some m'" using sdmem2_add by blast
  then show ?thesis
    using advertise_lookup [OF sdmem2_ok _ _ m', of "''TEST''"] by auto
qed

text \<open>After a successful \<open>tux_unadvertise\<close> the name has no handler and every other name keeps
  its own; the call fails with \<open>SYS_NOENT\<close> and changes nothing exactly when the name has no handler.\<close>

theorem unadvertise_lookup:
  assumes "svc_ok m" "n \<noteq> []" "n' \<noteq> []"
  shows "case tux_unadvertise (Some n) err (Some m) of
      (rc, e, Some m') \<Rightarrow>
        (rc = 0 \<longrightarrow> svc_ok m' \<and> svc_handler n m \<noteq> None \<and>
           svc_handler n' m' = (if take TUX_NAME_LEN n' = take TUX_NAME_LEN n then None else svc_handler n' m))
        \<and> (rc \<noteq> 0 \<longrightarrow> rc = -1 \<and> e = SYS_NOENT \<and> m' = m \<and> svc_handler n m = None)
    | (rc, e, None) \<Rightarrow> False"
  using unadvertise_abs [OF assms(1,2), of err] reg.look_abs [OF assms(1)] reg.look_abs assms(2,3)
  by (auto split: option.splits)

theorem unadvertise_lookup_witness:
  "tux_unadvertise (Some ''NOSUCH'') 0 (Some sdmem2) = (-1, SYS_NOENT, Some sdmem2)
   \<and> svc_handler ''NOSUCH'' sdmem2 = None"
proof -
  have "fst (tux_unadvertise (Some ''NOSUCH'') 0 (Some sdmem2)) = -1" by code_simp
  then show ?thesis
    using unadvertise_lookup [OF sdmem2_ok, of "''NOSUCH''" "''TEST''" 0]
    by (auto split: prod.splits option.splits)
qed

text \<open>The service table leaks: \<open>tux_unadvertise\<close> never returns a slot (it leaves the flag at 0,
  and only -1 means free), so a table with \<open>k\<close> free slots survives exactly \<open>k\<close>
  advertise/unadvertise cycles of a service; the next \<open>tux_advertise\<close> writes before the start of the table.\<close>

theorem advertise_cycles_exhaust:
  assumes "svc_ok m" "n \<noteq> []" "svc_handler n m = None" "find_svrno_by_service n m \<ge> 0"
  shows "\<exists>m'. svc_cycles (free_svc m) n f m = Ret m'
    \<and> tux_advertise (Some n) (Some f) 0 (Some m') = Crash OutOfBounds"
  using cycles_all [OF assms(1,2) _ assms(4) refl] assms(3) reg.look_abs [OF assms(1,2)] by simp

theorem advertise_cycles_exhaust_witness:
  "\<exists>m'. svc_cycles (free_svc sdmem2) ''TEST'' 9 sdmem2 = Ret m'
    \<and> tux_advertise (Some ''TEST'') (Some 9) 0 (Some m') = Crash OutOfBounds"
proof (rule advertise_cycles_exhaust [OF sdmem2_ok])
  show "svc_handler ''TEST'' sdmem2 = None" "find_svrno_by_service ''TEST'' sdmem2 \<ge> 0" by code_simp+
qed simp

text \<open>What a \<open>sd.svc\<close> line says: the service name, then the timeout.\<close>

definition svc_line_for :: "string \<Rightarrow> string \<Rightarrow> bool" where
  "svc_line_for n v \<longleftrightarrow>
     (case strtok '' '' v of None \<Rightarrow> False | Some (p, r) \<Rightarrow> strncmp_eq (take TUX_NAME_LEN p) n TUX_NAME_LEN)"

definition svc_line_timeout :: "string \<Rightarrow> int" where
  "svc_line_timeout v =
     (case strtok '' '' v of None \<Rightarrow> MAX_TIMEOUT_SEC
      | Some (p, r) \<Rightarrow> (case strtok '' '' r of None \<Rightarrow> MAX_TIMEOUT_SEC | Some (q, r') \<Rightarrow> atoi q))"

lemma timeout_loop_step:
  "timeout_loop n f = (case cf_nextparm ''sd.svc'' f of (None, f') \<Rightarrow> MAX_TIMEOUT_SEC
     | (Some v, f') \<Rightarrow> if svc_line_for n v then svc_line_timeout v else timeout_loop n f')"
  by (subst timeout_loop.simps)
    (auto simp: svc_line_for_def svc_line_timeout_def split: prod.splits option.splits)

text \<open>On every text configuration, \<open>tux_get_timeout\<close> returns the number on the first
  \<open>sd.svc\<close> line for the service, and 20 seconds when there is no such line or it has no number.\<close>

theorem tux_get_timeout_first_line:
  assumes "\<forall>l \<in> set ls. plain_line l" "plain_line te"
  shows "tux_get_timeout (Some (text_of ls @ te)) n =
    (case find (svc_line_for n) (cf_params ''sd.svc'' ls) of
       None \<Rightarrow> 20 | Some v \<Rightarrow> svc_line_timeout v)"
proof -
  have "good_name ''sd.svc''" by (simp add: good_name_def is_ws_def)
  then show ?thesis
    using cfg.search_loop [OF timeout_loop_step cfg_rep_open [OF assms]]
    by (simp add: tux_get_timeout_def MAX_TIMEOUT_SEC_def split: option.splits)
qed

theorem tux_get_timeout_first_line_witness:
  "tux_get_timeout (Some (text_of [''sd.svc A 3'', ''sd.svc TEST 45'', ''sd.svc TEST 9''] @ [])) ''TEST'' = 45"
proof -
  have "find (svc_line_for ''TEST'') (cf_params ''sd.svc'' [''sd.svc A 3'', ''sd.svc TEST 45'', ''sd.svc TEST 9''])
      = Some ''TEST 45''" "svc_line_timeout ''TEST 45'' = 45" by code_simp+
  then show ?thesis
    by (subst tux_get_timeout_first_line) (simp_all add: plain_line_def)
qed

end
