(* ===== verification/SysV.thy ===== *)
theory SysV
  imports CString
begin

text \<open>
  System V shared memory and semaphores, and their wrappers in
  \<open>src/dev/src/pubfun/common/funmem.c\<close> and \<open>funsem.c\<close>.

  \<open>kern\<close> is the part of the operating system the program uses: the IPC objects by key and
  identifier, the limit on their number, and the environment variable \<open>IPCREGION\<close>. The system
  calls (\<open>shmget\<close>, \<open>shmat\<close>, \<open>semget\<close>, \<open>semctl\<close>, \<open>semop\<close> with \<open>SEM_UNDO\<close>) are
  modelled as Linux documents them. A pointer to shared memory is a \<open>shmptr\<close>, so that the error
  value of \<open>shmat\<close>, which is not the null pointer, stays visible. A call that puts the process to
  sleep is \<open>Blocked\<close>.

  The lemmas: \<open>makekey\<close> maps all long names to one key; the semaphore protocol is a step relation
  over the modelled calls, for which the lock is exclusive as long as no process connects, and not
  beyond that.
\<close>

section \<open>The kernel objects\<close>

datatype 'a wait = Done 'a | Blocked

record semset =
  sm_key :: int
  sm_id :: int
  sm_vals :: "int list"
  sm_adj :: "int \<Rightarrow> nat \<Rightarrow> int"

record qmsg =
  m_type :: int
  m_source :: int
  m_buf :: string

record msq =
  q_key :: int
  q_id :: int
  q_msgs :: "qmsg list"
  q_qbytes :: nat

record kern =
  k_region :: "string option"
  k_next :: int
  k_limit :: nat
  k_shm :: "(int \<times> int \<times> int) list"
  k_attached :: "int list"
  k_can_attach :: bool
  k_sem :: "semset list"
  k_msq :: "msq list"

datatype shmptr = PNull | PFail | PSeg int

definition IPC_PRIVATE :: int where "IPC_PRIVATE = 0"

section \<open>Keys\<close>

definition hex_digit :: "nat \<Rightarrow> char" where
  "hex_digit d = (if d < 10 then char_of (48 + d) else char_of (87 + d))"

text \<open>\<open>sprintf("%02x", name[i])\<close>: a \<open>char\<close> is signed, so a byte above 127 prints eight digits.\<close>

definition show_02x :: "char \<Rightarrow> string" where
  "show_02x c = (let n = of_char c :: nat; two = [hex_digit (n div 16), hex_digit (n mod 16)]
                 in if n < 128 then two else ''ffffff'' @ two)"

definition hex_val :: "char \<Rightarrow> int" where
  "hex_val c = (let n = int (of_char c) in if n < 58 then n - 48 else n - 87)"

text \<open>\<open>strtol(buf, &stop, 16)\<close> on hexadecimal digits, saturating at \<open>LONG_MAX\<close>.\<close>

definition strtol16 :: "string \<Rightarrow> int" where
  "strtol16 s = min (2 ^ 63 - 1) (foldl (\<lambda>a c. 16 * a + hex_val c) 0 s)"

definition IPC_KEY_BASE :: int where "IPC_KEY_BASE = 0x1010101"

definition base_key :: "string option \<Rightarrow> int" where
  "base_key region =
     (let b = (case region of None \<Rightarrow> 0 | Some s \<Rightarrow> atoi s) in if b < 0 \<or> b > 255 then 0 else b)"

definition makekey :: "string option \<Rightarrow> string \<Rightarrow> int cres" where
  "makekey region name =
     (let buf = concat (map show_02x name)
      in if length buf > 128 then Crash BufOverflow
         else Ret (i32 (i32 (strtol16 buf) + i32 (IPC_KEY_BASE * base_key region))))"

section \<open>funmem.c\<close>

definition shmget :: "int \<Rightarrow> int \<Rightarrow> bool \<Rightarrow> 'a kern_scheme \<Rightarrow> int \<times> 'a kern_scheme" where
  "shmget key sz creat k =
     (case (if key = IPC_PRIVATE then None else find (\<lambda>(ky, ix, s). ky = key) (k_shm k)) of
        Some (ky, ix, s) \<Rightarrow> (if sz > s then (-1, k) else (ix, k))
      | None \<Rightarrow>
          if \<not> creat \<and> key \<noteq> IPC_PRIVATE then (-1, k)
          else if sz < 1 \<or> length (k_shm k) \<ge> k_limit k then (-1, k)
          else (k_next k, k\<lparr>k_shm := k_shm k @ [(key, k_next k, sz)], k_next := k_next k + 1\<rparr>))"

definition shm_shmget_internal :: "int \<Rightarrow> int \<Rightarrow> bool \<Rightarrow> 'a kern_scheme \<Rightarrow> int \<times> 'a kern_scheme" where
  "shm_shmget_internal key sz creat k =
     (let (shmid, k') = shmget key sz creat k in if shmid = -1 then (-1, k') else (shmid, k'))"

definition shmat :: "int \<Rightarrow> 'a kern_scheme \<Rightarrow> shmptr \<times> 'a kern_scheme" where
  "shmat shmid k =
     (if k_can_attach k \<and> (\<exists>(ky, ix, s) \<in> set (k_shm k). ix = shmid)
      then (PSeg shmid, k\<lparr>k_attached := shmid # k_attached k\<rparr>) else (PFail, k))"

definition shm_attach_internal :: "int \<Rightarrow> 'a kern_scheme \<Rightarrow> shmptr \<times> 'a kern_scheme" where
  "shm_attach_internal shmid k =
     (let (shm, k') = shmat shmid k in if shm = PNull then (PNull, k') else (shm, k'))"

definition shm_delete_internal :: "int \<Rightarrow> 'a kern_scheme \<Rightarrow> int \<times> 'a kern_scheme" where
  "shm_delete_internal shmid k =
     (if \<exists>(ky, ix, s) \<in> set (k_shm k). ix = shmid
      then (0, k\<lparr>k_shm := filter (\<lambda>(ky, ix, s). ix \<noteq> shmid) (k_shm k)\<rparr>) else (-1, k))"

text \<open>A name is given as an option: \<open>None\<close> is the null pointer.\<close>

definition shm_getid :: "string option \<Rightarrow> int \<Rightarrow> int \<Rightarrow> 'a kern_scheme \<Rightarrow> (int \<times> 'a kern_scheme) cres" where
  "shm_getid shmname shmsize createflg k =
     cbind (case shmname of Some n \<Rightarrow> makekey (k_region k) n | None \<Rightarrow> Ret IPC_PRIVATE) (\<lambda>shmkey.
       Ret (shm_shmget_internal shmkey shmsize (createflg = 1) k))"

definition shm_create :: "string option \<Rightarrow> int \<Rightarrow> 'a kern_scheme \<Rightarrow> (shmptr \<times> 'a kern_scheme) cres" where
  "shm_create shmname shmsize k =
     cbind (shm_getid shmname shmsize 1 k) (\<lambda>(shmid, k').
       Ret (if shmid < 0 then (PNull, k') else shm_attach_internal shmid k'))"

definition shm_connect :: "string option \<Rightarrow> 'a kern_scheme \<Rightarrow> (shmptr \<times> 'a kern_scheme) cres" where
  "shm_connect shmname k =
     cbind (shm_getid shmname 0 0 k) (\<lambda>(shmid, k').
       Ret (if shmid < 0 then (PNull, k') else shm_attach_internal shmid k'))"

fun shmdt :: "shmptr \<Rightarrow> 'a kern_scheme \<Rightarrow> int \<times> 'a kern_scheme" where
  "shmdt (PSeg shmid) k =
     (if shmid \<in> set (k_attached k) then (0, k\<lparr>k_attached := remove1 shmid (k_attached k)\<rparr>) else (-1, k))"
| "shmdt p k = (-1, k)"

definition shm_delete :: "string option \<Rightarrow> shmptr \<Rightarrow> 'a kern_scheme \<Rightarrow> (int \<times> 'a kern_scheme) cres" where
  "shm_delete shmname mem k =
     (let (rc, k1) = (if mem \<noteq> PNull then shmdt mem k else (0, k))
      in if rc = -1 then Ret (-1, k1)
         else cbind (shm_getid shmname 0 0 k1) (\<lambda>(memid, k2).
                Ret (if memid < 0 then (-1, k2) else shm_delete_internal memid k2)))"

section \<open>funsem.c\<close>

definition semget :: "int \<Rightarrow> int \<Rightarrow> bool \<Rightarrow> 'a kern_scheme \<Rightarrow> int \<times> 'a kern_scheme" where
  "semget key n creat k =
     (case (if key = IPC_PRIVATE then None else find (\<lambda>s. sm_key s = key) (k_sem k)) of
        Some s \<Rightarrow> (if n > int (length (sm_vals s)) then (-1, k) else (sm_id s, k))
      | None \<Rightarrow>
          if \<not> creat \<and> key \<noteq> IPC_PRIVATE then (-1, k)
          else if n < 1 \<or> length (k_sem k) \<ge> k_limit k then (-1, k)
          else (k_next k, k\<lparr>k_sem := k_sem k @ [\<lparr>sm_key = key, sm_id = k_next k,
                   sm_vals = replicate (nat n) 0, sm_adj = (\<lambda>p i. 0)\<rparr>], k_next := k_next k + 1\<rparr>))"

definition sem_semget_internal :: "int \<Rightarrow> int \<Rightarrow> bool \<Rightarrow> 'a kern_scheme \<Rightarrow> int \<times> 'a kern_scheme" where
  "sem_semget_internal key n creat k =
     (let (sem_id, k') = semget key n creat k in if sem_id = -1 then (-1, k') else (sem_id, k'))"

text \<open>\<open>semctl(sem_id, i, SETVAL, v)\<close> also clears the undo values of the semaphore.\<close>

definition semctl_setval :: "int \<Rightarrow> nat \<Rightarrow> int \<Rightarrow> 'a kern_scheme \<Rightarrow> int \<times> 'a kern_scheme" where
  "semctl_setval sem_id i v k =
     (case find (\<lambda>s. sm_id s = sem_id) (k_sem k) of
        None \<Rightarrow> (-1, k)
      | Some s \<Rightarrow> if i \<ge> length (sm_vals s) then (-1, k)
          else (0, k\<lparr>k_sem := map (\<lambda>t. if sm_id t = sem_id
                 then t\<lparr>sm_vals := (sm_vals t)[i := v], sm_adj := (\<lambda>p. (sm_adj t p)(i := 0))\<rparr>
                 else t) (k_sem k)\<rparr>))"

fun sem_setvals :: "int \<Rightarrow> nat \<Rightarrow> nat \<Rightarrow> 'a kern_scheme \<Rightarrow> int \<times> 'a kern_scheme" where
  "sem_setvals sem_id i 0 k = (sem_id, k)"
| "sem_setvals sem_id i (Suc n) k =
     (let (rc, k') = semctl_setval sem_id i 1 k
      in if rc = -1 then (-1, k') else sem_setvals sem_id (Suc i) n k')"

definition sem_attach_internal :: "int \<Rightarrow> int \<Rightarrow> 'a kern_scheme \<Rightarrow> int \<times> 'a kern_scheme" where
  "sem_attach_internal sem_id sem_size k = sem_setvals sem_id 0 (nat sem_size) k"

definition sem_delete_internal :: "int \<Rightarrow> 'a kern_scheme \<Rightarrow> int \<times> 'a kern_scheme" where
  "sem_delete_internal sem_id k =
     (if \<exists>s \<in> set (k_sem k). sm_id s = sem_id
      then (0, k\<lparr>k_sem := filter (\<lambda>s. sm_id s \<noteq> sem_id) (k_sem k)\<rparr>) else (-1, k))"

definition sem_getid :: "string option \<Rightarrow> int \<Rightarrow> int \<Rightarrow> 'a kern_scheme \<Rightarrow> (int \<times> 'a kern_scheme) cres" where
  "sem_getid semname semsize createflg k =
     cbind (case semname of Some n \<Rightarrow> makekey (k_region k) n | None \<Rightarrow> Ret IPC_PRIVATE) (\<lambda>semkey.
       Ret (sem_semget_internal semkey semsize (createflg = 1) k))"

text \<open>\<open>semop\<close> with one operation and \<open>SEM_UNDO\<close>, by process \<open>pid\<close>.\<close>

definition semop :: "int \<Rightarrow> nat \<Rightarrow> int \<Rightarrow> int \<Rightarrow> 'a kern_scheme \<Rightarrow> (int \<times> 'a kern_scheme) wait" where
  "semop pid i sem_id op k =
     (case find (\<lambda>s. sm_id s = sem_id) (k_sem k) of
        None \<Rightarrow> Done (-1, k)
      | Some s \<Rightarrow> if i \<ge> length (sm_vals s) then Done (-1, k)
          else if sm_vals s ! i + op < 0 then Blocked
          else Done (0, k\<lparr>k_sem := map (\<lambda>t. if sm_id t = sem_id
                 then t\<lparr>sm_vals := (sm_vals t)[i := sm_vals t ! i + op],
                        sm_adj := (sm_adj t)(pid := (sm_adj t pid)(i := sm_adj t pid i - op))\<rparr>
                 else t) (k_sem k)\<rparr>))"

definition sem_call :: "int \<Rightarrow> nat \<Rightarrow> int \<Rightarrow> int \<Rightarrow> 'a kern_scheme \<Rightarrow> (int \<times> 'a kern_scheme) wait" where
  "sem_call pid sem_num sem_id op k =
     (case semop pid sem_num sem_id op k of
        Blocked \<Rightarrow> Blocked
      | Done (rc, k') \<Rightarrow> if rc < 0 then Done (-1, k') else Done (0, k'))"

definition sem_create :: "string option \<Rightarrow> int \<Rightarrow> 'a kern_scheme \<Rightarrow> (int \<times> 'a kern_scheme) cres" where
  "sem_create semname semsize k =
     cbind (sem_getid semname semsize 1 k) (\<lambda>(semid, k').
       Ret (if semid < 0 then (-1, k') else sem_attach_internal semid semsize k'))"

definition sem_delete :: "string option \<Rightarrow> int \<Rightarrow> 'a kern_scheme \<Rightarrow> (int \<times> 'a kern_scheme) cres" where
  "sem_delete semname semsize k =
     cbind (sem_getid semname semsize 0 k) (\<lambda>(semid, k').
       Ret (if semid < 0 then (-1, k') else sem_delete_internal semid k'))"

definition sem_connect :: "string option \<Rightarrow> int \<Rightarrow> 'a kern_scheme \<Rightarrow> (int \<times> 'a kern_scheme) cres" where
  "sem_connect semname semsize k =
     cbind (sem_getid semname semsize 0 k) (\<lambda>(semid, k').
       Ret (if semid < 0 then (-1, k') else sem_attach_internal semid semsize k'))"

definition sem_lock :: "int \<Rightarrow> nat \<Rightarrow> int \<Rightarrow> 'a kern_scheme \<Rightarrow> (int \<times> 'a kern_scheme) wait" where
  "sem_lock pid sem_num sem_id k =
     (case sem_call pid sem_num sem_id (-1) k of
        Blocked \<Rightarrow> Blocked | Done (rc, k') \<Rightarrow> if rc = -1 then Done (-1, k') else Done (0, k'))"

definition sem_unlock :: "int \<Rightarrow> nat \<Rightarrow> int \<Rightarrow> 'a kern_scheme \<Rightarrow> (int \<times> 'a kern_scheme) wait" where
  "sem_unlock pid sem_num sem_id k =
     (case sem_call pid sem_num sem_id 1 k of
        Blocked \<Rightarrow> Blocked | Done (rc, k') \<Rightarrow> if rc = -1 then Done (-1, k') else Done (0, k'))"

text \<open>The end of a process: the kernel applies its undo values.\<close>

definition sem_exit :: "int \<Rightarrow> 'a kern_scheme \<Rightarrow> 'a kern_scheme" where
  "sem_exit pid k = k\<lparr>k_sem := map (\<lambda>t. t\<lparr>
      sm_vals := map (\<lambda>i. max 0 (sm_vals t ! i + sm_adj t pid i)) [0..<length (sm_vals t)],
      sm_adj := (sm_adj t)(pid := (\<lambda>i. 0))\<rparr>) (k_sem k)\<rparr>"

section \<open>The lock protocol\<close>

text \<open>
  The steps of the processes that share the semaphore: a process takes the lock (when \<open>semop\<close> does
  not put it to sleep), releases it, ends (the kernel undoes its operations), or, when
  \<open>conn\<close> allows it, attaches with \<open>sem_connect\<close>. The second component of the state is the set of
  the processes between \<open>sem_lock\<close> and \<open>sem_unlock\<close>.
\<close>

inductive sem_step :: "bool \<Rightarrow> string \<Rightarrow> int \<Rightarrow> kern \<times> int set \<Rightarrow> kern \<times> int set \<Rightarrow> bool"
  for conn :: bool and nm :: string and sid :: int where
  lock: "sem_lock p 0 sid k = Done (0, k') \<Longrightarrow> p \<notin> H \<Longrightarrow> sem_step conn nm sid (k, H) (k', insert p H)"
| unlock: "sem_unlock p 0 sid k = Done (0, k') \<Longrightarrow> p \<in> H \<Longrightarrow> sem_step conn nm sid (k, H) (k', H - {p})"
| exit: "sem_step conn nm sid (k, H) (sem_exit p k, H - {p})"
| connect: "conn \<Longrightarrow> sem_connect (Some nm) 1 k = Ret (sid, k') \<Longrightarrow> sem_step conn nm sid (k, H) (k', H)"

inductive_cases sem_step_cases: "sem_step conn nm sid (k, H) (k', H')"

definition sem_at :: "int \<Rightarrow> 'a kern_scheme \<Rightarrow> semset option" where
  "sem_at sid k = find (\<lambda>s. sm_id s = sid) (k_sem k)"

definition mutex_inv :: "int \<Rightarrow> 'a kern_scheme \<Rightarrow> int set \<Rightarrow> bool" where
  "mutex_inv sid k H \<longleftrightarrow>
     (\<exists>s. sem_at sid k = Some s \<and> sm_vals s \<noteq> [] \<and>
        ((H = {} \<and> sm_vals s ! 0 = 1) \<or> (\<exists>p. H = {p} \<and> sm_vals s ! 0 = 0)) \<and>
        (\<forall>p. sm_adj s p 0 = (if p \<in> H then 1 else 0)))"

lemma find_map_upd:
  "(\<And>t. P (g t) = P t) \<Longrightarrow> find P (map g l) = map_option g (find P l)"
  by (induction l) auto

lemma sem_at_upd:
  assumes "\<And>t. sm_id (g t) = sm_id t"
  shows "sem_at sid (k\<lparr>k_sem := map g (k_sem k)\<rparr>) = map_option g (sem_at sid k)"
  unfolding sem_at_def by (simp add: find_map_upd assms)

lemma sem_at_id: "sem_at sid k = Some s \<Longrightarrow> sm_id s = sid"
  by (auto simp: sem_at_def find_Some_iff)

lemma semop_at:
  "semop pid i sid op k =
     (case sem_at sid k of
        None \<Rightarrow> Done (-1, k)
      | Some s \<Rightarrow> if i \<ge> length (sm_vals s) then Done (-1, k)
          else if sm_vals s ! i + op < 0 then Blocked
          else Done (0, k\<lparr>k_sem := map (\<lambda>t. if sm_id t = sid
                 then t\<lparr>sm_vals := (sm_vals t)[i := sm_vals t ! i + op],
                        sm_adj := (sm_adj t)(pid := (sm_adj t pid)(i := sm_adj t pid i - op))\<rparr>
                 else t) (k_sem k)\<rparr>))"
  by (simp add: semop_def sem_at_def)

lemma semop_step:
  assumes "semop pid 0 sid op k = Done (0, k')"
  shows "\<exists>s. sem_at sid k = Some s \<and> sm_vals s \<noteq> [] \<and> sm_vals s ! 0 + op \<ge> 0 \<and>
    sem_at sid k' = Some (s\<lparr>sm_vals := (sm_vals s)[0 := sm_vals s ! 0 + op],
      sm_adj := (sm_adj s)(pid := (sm_adj s pid)(0 := sm_adj s pid 0 - op))\<rparr>)"
  using assms sem_at_id [of sid k]
  by (auto simp: semop_at sem_at_upd split: option.splits if_splits)

lemma sem_lock_semop: "sem_lock pid i sid k = Done (0, k') \<longleftrightarrow> semop pid i sid (-1) k = Done (0, k')"
  by (auto simp: sem_lock_def sem_call_def semop_at split: option.splits if_splits wait.splits)

lemma sem_unlock_semop: "sem_unlock pid i sid k = Done (0, k') \<longleftrightarrow> semop pid i sid 1 k = Done (0, k')"
  by (auto simp: sem_unlock_def sem_call_def semop_at split: option.splits if_splits wait.splits)

lemma lock_inv:
  "mutex_inv sid k H \<Longrightarrow> sem_lock p 0 sid k = Done (0, k') \<Longrightarrow> mutex_inv sid k' (insert p H) \<and> H = {}"
  using semop_step [of p sid "-1" k k'] by (auto simp: sem_lock_semop mutex_inv_def)

lemma unlock_inv:
  "mutex_inv sid k H \<Longrightarrow> sem_unlock p 0 sid k = Done (0, k') \<Longrightarrow> p \<in> H \<Longrightarrow> mutex_inv sid k' (H - {p})"
  using semop_step [of p sid 1 k k'] by (auto simp: sem_unlock_semop mutex_inv_def)

lemma exit_inv: "mutex_inv sid k H \<Longrightarrow> mutex_inv sid (sem_exit p k) (H - {p})"
proof -
  assume "mutex_inv sid k H"
  then obtain s where s: "sem_at sid k = Some s" "sm_vals s \<noteq> []"
    "(H = {} \<and> sm_vals s ! 0 = 1) \<or> (\<exists>p. H = {p} \<and> sm_vals s ! 0 = 0)"
    "\<forall>p. sm_adj s p 0 = (if p \<in> H then 1 else 0)"
    unfolding mutex_inv_def by blast
  let ?g = "\<lambda>t. t\<lparr>sm_vals := map (\<lambda>i. max 0 (sm_vals t ! i + sm_adj t p i)) [0..<length (sm_vals t)],
    sm_adj := (sm_adj t)(p := (\<lambda>i. 0))\<rparr>"
  have "sem_at sid (sem_exit p k) = Some (?g s)"
    unfolding sem_exit_def by (subst sem_at_upd) (simp_all add: s(1))
  then show ?thesis
    using s by (auto simp: mutex_inv_def)
qed

lemma step_mutex: "sem_step False nm sid st st' \<Longrightarrow> mutex_inv sid (fst st) (snd st) \<Longrightarrow>
    mutex_inv sid (fst st') (snd st')"
  by (induction rule: sem_step.induct) (auto dest: lock_inv unlock_inv exit_inv)

lemma steps_mutex: "(sem_step False nm sid)\<^sup>*\<^sup>* st st' \<Longrightarrow> mutex_inv sid (fst st) (snd st) \<Longrightarrow>
    mutex_inv sid (fst st') (snd st')"
  by (induction rule: rtranclp_induct) (auto dest: step_mutex)

text \<open>\<open>sem_create\<close> and \<open>sem_connect\<close> both leave the semaphore free, whoever holds it.\<close>

lemma attach_frees:
  assumes "sem_attach_internal sid 1 k = (sid', k')" "sid' \<ge> 0"
  shows "sid' = sid \<and> mutex_inv sid k' {}"
proof -
  have r: "(case semctl_setval sid 0 1 k of (rc, k1) \<Rightarrow> if rc = -1 then (-1, k1) else (sid, k1)) = (sid', k')"
    using assms(1) by (auto simp: sem_attach_internal_def split: prod.splits if_splits)
  then obtain s where s: "sem_at sid k = Some s" "sm_vals s \<noteq> []"
    using assms(2) by (auto simp: semctl_setval_def sem_at_def split: option.splits if_splits prod.splits)
  let ?g = "\<lambda>t. if sm_id t = sid
    then t\<lparr>sm_vals := (sm_vals t)[0 := 1], sm_adj := (\<lambda>p. (sm_adj t p)(0 := 0))\<rparr> else t"
  have k': "k' = k\<lparr>k_sem := map ?g (k_sem k)\<rparr>" "sid' = sid"
    using r s by (auto simp: semctl_setval_def sem_at_def split: option.splits if_splits)
  have "sem_at sid k' = Some (?g s)"
    unfolding k' by (subst sem_at_upd) (simp_all add: s(1))
  then show ?thesis
    using s sem_at_id [OF s(1)] k'(2) by (simp add: mutex_inv_def)
qed

lemma create_frees:
  "sem_create (Some nm) 1 k = Ret (sid, k') \<Longrightarrow> sid \<ge> 0 \<Longrightarrow> mutex_inv sid k' {}"
  unfolding sem_create_def cbind_Ret_iff
  by (auto split: if_splits dest!: attach_frees)

lemma connect_frees:
  "sem_connect (Some nm) 1 k = Ret (sid, k') \<Longrightarrow> sid \<ge> 0 \<Longrightarrow> mutex_inv sid k' {}"
  unfolding sem_connect_def cbind_Ret_iff
  by (auto split: if_splits dest!: attach_frees)

lemma free_lockable: "mutex_inv sid k {} \<Longrightarrow> \<exists>k'. sem_lock q 0 sid k = Done (0, k')"
  by (auto simp: sem_lock_semop semop_at mutex_inv_def)

section \<open>Long names share one key\<close>

definition printable :: "char \<Rightarrow> bool" where
  "printable c \<longleftrightarrow> 32 \<le> (of_char c :: nat) \<and> (of_char c :: nat) < 127"

lemma hex_val_digit: "d < 16 \<Longrightarrow> hex_val (hex_digit d) = int d"
  by (auto simp: hex_val_def hex_digit_def Let_def)

lemma show_02x_printable: "printable c \<Longrightarrow> \<exists>a b. show_02x c = [a, b] \<and> 1 \<le> hex_val a \<and> 0 \<le> hex_val b"
proof -
  assume p: "printable c"
  let ?n = "of_char c :: nat"
  have "?n div 16 < 16" "1 \<le> ?n div 16" using p by (auto simp: printable_def)
  then show ?thesis
    using p by (auto simp: show_02x_def Let_def printable_def hex_val_digit)
qed

lemma foldl_hex_bound:
  "\<forall>c \<in> set s. printable c \<Longrightarrow> 0 \<le> a \<Longrightarrow>
     a * 256 ^ length s \<le> foldl (\<lambda>a c. 16 * a + hex_val c) a (concat (map show_02x s))"
proof (induction s arbitrary: a)
  case (Cons c s)
  obtain x y where xy: "show_02x c = [x, y]" "1 \<le> hex_val x" "0 \<le> hex_val y"
    using show_02x_printable Cons.prems(1) by (meson list.set_intros(1))
  let ?a = "16 * (16 * a + hex_val x) + hex_val y"
  have "a * 256 ^ length (c # s) \<le> ?a * 256 ^ length s"
    using xy Cons.prems(2) by (simp add: mult_right_mono)
  also have "\<dots> \<le> foldl (\<lambda>a c. 16 * a + hex_val c) ?a (concat (map show_02x s))"
    using Cons.IH [of ?a] Cons.prems xy by simp
  finally show ?case using xy(1) by simp
qed simp

lemma length_printable: "\<forall>c \<in> set s. printable c \<Longrightarrow> length (concat (map show_02x s)) = 2 * length s"
proof (induction s)
  case (Cons c s)
  then show ?case using show_02x_printable [of c] by auto
qed simp

lemma strtol16_long:
  assumes "\<forall>c \<in> set s. printable c" "9 \<le> length s"
  shows "strtol16 (concat (map show_02x s)) = 2 ^ 63 - 1"
proof -
  obtain c t where s: "s = c # t" using assms(2) by (cases s) auto
  obtain x y where xy: "show_02x c = [x, y]" "1 \<le> hex_val x" "0 \<le> hex_val y"
    using show_02x_printable assms(1) s by (meson list.set_intros(1))
  let ?a = "16 * hex_val x + hex_val y"
  have "(16::int) * 256 ^ 8 \<le> ?a * 256 ^ length t"
    using assms(2) s xy power_increasing [of 8 "length t" "256::int"]
    by (intro mult_mono) auto
  also have "\<dots> \<le> foldl (\<lambda>a c. 16 * a + hex_val c) ?a (concat (map show_02x t))"
    using assms(1) s xy by (intro foldl_hex_bound) auto
  finally have "2 ^ 63 - 1 \<le> foldl (\<lambda>a c. 16 * a + hex_val c) 0 (concat (map show_02x s))"
    using s xy(1) by simp
  then show ?thesis unfolding strtol16_def by (rule min_absorb1)
qed

lemma makekey_long:
  "\<forall>c \<in> set s. printable c \<Longrightarrow> 9 \<le> length s \<Longrightarrow> length s \<le> 64 \<Longrightarrow>
     makekey region s = Ret (i32 (-1 + i32 (IPC_KEY_BASE * base_key region)))"
proof -
  assume a: "\<forall>c \<in> set s. printable c" "9 \<le> length s" "length s \<le> 64"
  have "i32 (2 ^ 63 - 1) = -1" by (simp add: i32_def)
  then show ?thesis
    using a by (simp add: makekey_def Let_def length_printable strtol16_long [OF a(1,2)])
qed

section \<open>Properties\<close>

text \<open>Claim C2. The lock of the system is exclusive: starting from the semaphore that \<open>sem_create\<close>
  delivers, at most one process at a time is between \<open>sem_lock\<close> and \<open>sem_unlock\<close>, in every
  interleaving of locks, unlocks and process ends (also ends inside the critical section), as long as
  no process attaches to the semaphore.\<close>

theorem sem_lock_exclusive:
  assumes "sem_create (Some nm) 1 k0 = Ret (sid, k)" "sid \<ge> 0"
    and "(sem_step False nm sid)\<^sup>*\<^sup>* (k, {}) (k', H)"
  shows "H = {} \<or> (\<exists>p. H = {p})"
  using steps_mutex [OF assms(3)] create_frees [OF assms(1,2)] by (auto simp: mutex_inv_def)

definition kern0 :: kern where
  "kern0 = \<lparr>k_region = None, k_next = 1, k_limit = 32, k_shm = [], k_attached = [], k_can_attach = True,
     k_sem = [], k_msq = []\<rparr>"

lemma create_kern0: "\<exists>k. sem_create (Some ''SD_SEM_NAME'') 1 kern0 = Ret (1, k)"
  by (simp add: sem_create_def sem_getid_def makekey_long printable_def kern0_def i32_def
      IPC_KEY_BASE_def base_key_def sem_semget_internal_def semget_def IPC_PRIVATE_def
      sem_attach_internal_def semctl_setval_def)

theorem sem_lock_exclusive_witness:
  "\<exists>k k'. sem_create (Some ''SD_SEM_NAME'') 1 kern0 = Ret (1, k)
     \<and> (sem_step False ''SD_SEM_NAME'' 1)\<^sup>*\<^sup>* (k, {}) (k', {7}) \<and> ({7} = {} \<or> (\<exists>p. {7} = {p::int}))"
proof -
  obtain k where k: "sem_create (Some ''SD_SEM_NAME'') 1 kern0 = Ret (1, k)"
    using create_kern0 by blast
  then obtain k' where "sem_lock 7 0 1 k = Done (0, k')"
    using free_lockable [of 1 k 7] create_frees [OF k] by auto
  then have s: "(sem_step False ''SD_SEM_NAME'' 1)\<^sup>*\<^sup>* (k, {}) (k', {7})"
    by (intro r_into_rtranclp sem_step.lock) auto
  from sem_lock_exclusive [OF k _ s] k s show ?thesis by auto
qed

text \<open>Attaching takes the lock away: whenever \<open>sem_connect\<close> succeeds, the semaphore is
  free afterwards, even if a process was inside its critical section, and the next \<open>sem_lock\<close> of any
  process succeeds at once. Every server and every administration command attaches this way when it
  starts.\<close>

theorem sem_connect_breaks_lock:
  assumes "mutex_inv sid k {p}" "sem_connect (Some nm) 1 k = Ret (sid, k1)" "sid \<ge> 0"
  shows "\<exists>k2. sem_lock q 0 sid k1 = Done (0, k2)"
  using connect_frees [OF assms(2,3)] by (rule free_lockable)

definition kern_held :: kern where
  "kern_held = kern0\<lparr>k_next := 2, k_sem := [\<lparr>sm_key = -1, sm_id = 1, sm_vals = [0],
     sm_adj = (\<lambda>p i. if p = 7 then 1 else 0)\<rparr>]\<rparr>"

lemma connect_held: "\<exists>k1. sem_connect (Some ''SD_SEM_NAME'') 1 kern_held = Ret (1, k1)"
  by (simp add: sem_connect_def sem_getid_def makekey_long printable_def kern0_def kern_held_def i32_def
      IPC_KEY_BASE_def base_key_def sem_semget_internal_def semget_def IPC_PRIVATE_def
      sem_attach_internal_def semctl_setval_def)

theorem sem_connect_breaks_lock_witness:
  "\<exists>k k1 k2. mutex_inv 1 (k::kern) {7} \<and> sem_connect (Some ''SD_SEM_NAME'') 1 k = Ret (1, k1)
     \<and> sem_lock 8 0 1 k1 = Done (0, k2)"
proof -
  have h: "mutex_inv 1 kern_held {7}"
    by (simp add: mutex_inv_def sem_at_def kern_held_def)
  obtain k1 where k1: "sem_connect (Some ''SD_SEM_NAME'') 1 kern_held = Ret (1, k1)"
    using connect_held by blast
  show ?thesis
    using sem_connect_breaks_lock [OF h k1, of 8] h k1 by auto
qed

text \<open>All names of nine to 64 printable characters get the same key: \<open>strtol\<close>
  saturates on their hexadecimal form, so shared memory, semaphore and communication names of the
  system differ by object type only.\<close>

theorem makekey_names_collide:
  assumes "\<forall>c \<in> set n1. printable c" "\<forall>c \<in> set n2. printable c"
    and "9 \<le> length n1" "length n1 \<le> 64" "9 \<le> length n2" "length n2 \<le> 64"
  shows "makekey region n1 = makekey region n2 \<and> makekey region n1 \<noteq> Crash BufOverflow"
  using makekey_long [OF assms(1,3,4)] makekey_long [OF assms(2,5,6)] by simp

theorem makekey_names_collide_witness:
  "makekey (Some ''3'') ''SD_SEM_NAME'' = makekey (Some ''3'') ''COMM_SEM_NAME''
   \<and> makekey (Some ''3'') ''SD_SEM_NAME'' \<noteq> Crash BufOverflow"
  by (rule makekey_names_collide) (simp_all add: printable_def)

end
