(* ===== verification/MsgQueue.thy ===== *)
theory MsgQueue
  imports SysV
begin

text \<open>
  System V message queues and \<open>src/dev/src/pubfun/common/funmsq.c\<close>.

  A queue is the list of its messages; the kernel copies \<open>8 + nMsgLen\<close> bytes per message (the field
  \<open>nMsgSource\<close> and \<open>sBuf\<close>), which is what its limits count. \<open>msgsnd\<close> and \<open>msgrcv\<close> may put the
  process to sleep; the list of \<open>wake\<close>s says what happens meanwhile: other processes have changed the
  system, or a signal arrives. With an empty list a sleeping call stays \<open>Blocked\<close>.

  The locale \<open>mailbox\<close> is the contract the callers rely on, one first-in-first-out box per message
  type; it is interpreted on \<open>MsqSnd\<close> and \<open>MsqRcv\<close>.
\<close>

section \<open>The system calls\<close>

definition EINTR :: int where "EINTR = 4"
definition E2BIG :: int where "E2BIG = 7"
definition EAGAIN :: int where "EAGAIN = 11"
definition EINVAL :: int where "EINVAL = 22"
definition ENOMSG :: int where "ENOMSG = 42"
definition EIDRM :: int where "EIDRM = 43"

definition MSGMAX :: nat where "MSGMAX = 8192"
definition MSGMNB :: nat where "MSGMNB = 16384"

datatype 'k wake = Others 'k | Signal

definition msg_size :: "qmsg \<Rightarrow> nat" where
  "msg_size m = 8 + length (m_buf m)"

definition cbytes :: "msq \<Rightarrow> nat" where
  "cbytes q = sum_list (map msg_size (q_msgs q))"

definition msq_at :: "int \<Rightarrow> 'a kern_scheme \<Rightarrow> msq option" where
  "msq_at qid k = find (\<lambda>q. q_id q = qid) (k_msq k)"

definition msq_set :: "int \<Rightarrow> qmsg list \<Rightarrow> 'a kern_scheme \<Rightarrow> 'a kern_scheme" where
  "msq_set qid ms k =
     k\<lparr>k_msq := map (\<lambda>q. if q_id q = qid then q\<lparr>q_msgs := ms\<rparr> else q) (k_msq k)\<rparr>"

definition msgget :: "int \<Rightarrow> bool \<Rightarrow> 'a kern_scheme \<Rightarrow> int \<times> 'a kern_scheme" where
  "msgget key creat k =
     (case (if key = IPC_PRIVATE then None else find (\<lambda>q. q_key q = key) (k_msq k)) of
        Some q \<Rightarrow> (q_id q, k)
      | None \<Rightarrow>
          if \<not> creat \<and> key \<noteq> IPC_PRIVATE then (-1, k)
          else if length (k_msq k) \<ge> k_limit k then (-1, k)
          else (k_next k, k\<lparr>k_msq := k_msq k @ [\<lparr>q_key = key, q_id = k_next k, q_msgs = [],
                   q_qbytes = MSGMNB\<rparr>], k_next := k_next k + 1\<rparr>))"

text \<open>One attempt to send: an error, success, or no room (\<open>None\<close>).\<close>

definition msgsnd_try :: "int \<Rightarrow> qmsg \<Rightarrow> 'a kern_scheme \<Rightarrow> (int + 'a kern_scheme) option" where
  "msgsnd_try qid m k =
     (case msq_at qid k of
        None \<Rightarrow> Some (Inl EINVAL)
      | Some q \<Rightarrow>
          if m_type m < 1 \<or> msg_size m > MSGMAX then Some (Inl EINVAL)
          else if cbytes q + msg_size m \<le> q_qbytes q \<and> Suc (length (q_msgs q)) \<le> q_qbytes q
          then Some (Inr (msq_set qid (q_msgs q @ [m]) k))
          else None)"

text \<open>A queue that is gone after sleeping is reported with \<open>EIDRM\<close>.\<close>

fun msgsnd :: "int \<Rightarrow> qmsg \<Rightarrow> bool \<Rightarrow> 'a kern_scheme \<Rightarrow> 'a kern_scheme wake list \<Rightarrow>
    ((int + unit) \<times> 'a kern_scheme \<times> 'a kern_scheme wake list) wait" where
  "msgsnd qid m nowait k ws =
     (case msgsnd_try qid m k of
        Some (Inl e) \<Rightarrow> Done (Inl e, k, ws)
      | Some (Inr k') \<Rightarrow> Done (Inr (), k', ws)
      | None \<Rightarrow> if nowait then Done (Inl EAGAIN, k, ws)
                else case ws of [] \<Rightarrow> Blocked
                  | Signal # ws' \<Rightarrow> Done (Inl EINTR, k, ws')
                  | Others k' # ws' \<Rightarrow> if msq_at qid k' = None then Done (Inl EIDRM, k', ws')
                                        else msgsnd qid m nowait k' ws')"

declare msgsnd.simps [simp del]

text \<open>\<open>msgrcv\<close> selects the first message (type 0), the first one of the type, or the first one of
  the lowest type up to \<open>- t\<close>.\<close>

definition wanted :: "int \<Rightarrow> qmsg list \<Rightarrow> qmsg \<Rightarrow> bool" where
  "wanted t ms m \<longleftrightarrow>
     (if t = 0 then True
      else if t > 0 then m_type m = t
      else m_type m \<le> - t \<and> (\<forall>m' \<in> set ms. m_type m' \<le> - t \<longrightarrow> m_type m \<le> m_type m'))"

fun take_first :: "('m \<Rightarrow> bool) \<Rightarrow> 'm list \<Rightarrow> ('m \<times> 'm list) option" where
  "take_first P [] = None"
| "take_first P (m # ms) =
     (if P m then Some (m, ms)
      else case take_first P ms of None \<Rightarrow> None | Some (x, r) \<Rightarrow> Some (x, m # r))"

definition msgrcv_try :: "int \<Rightarrow> nat \<Rightarrow> int \<Rightarrow> 'a kern_scheme \<Rightarrow> (int + qmsg \<times> 'a kern_scheme) option" where
  "msgrcv_try qid sz t k =
     (case msq_at qid k of
        None \<Rightarrow> Some (Inl EINVAL)
      | Some q \<Rightarrow>
          (case take_first (wanted t (q_msgs q)) (q_msgs q) of
             None \<Rightarrow> None
           | Some (m, r) \<Rightarrow> if sz < msg_size m then Some (Inl E2BIG)
                            else Some (Inr (m, msq_set qid r k))))"

fun msgrcv :: "int \<Rightarrow> nat \<Rightarrow> int \<Rightarrow> bool \<Rightarrow> 'a kern_scheme \<Rightarrow> 'a kern_scheme wake list \<Rightarrow>
    ((int + qmsg) \<times> 'a kern_scheme \<times> 'a kern_scheme wake list) wait" where
  "msgrcv qid sz t nowait k ws =
     (case msgrcv_try qid sz t k of
        Some (Inl e) \<Rightarrow> Done (Inl e, k, ws)
      | Some (Inr (m, k')) \<Rightarrow> Done (Inr m, k', ws)
      | None \<Rightarrow> if nowait then Done (Inl ENOMSG, k, ws)
                else case ws of [] \<Rightarrow> Blocked
                  | Signal # ws' \<Rightarrow> Done (Inl EINTR, k, ws')
                  | Others k' # ws' \<Rightarrow> if msq_at qid k' = None then Done (Inl EIDRM, k', ws')
                                        else msgrcv qid sz t nowait k' ws')"

declare msgrcv.simps [simp del]

section \<open>funmsq.c\<close>

definition MSQ_CHK_YES :: int where "MSQ_CHK_YES = 1"
definition MSQ_CHK_NO :: int where "MSQ_CHK_NO = 0"
definition BUS_MAX_MSG_LEN :: nat where "BUS_MAX_MSG_LEN = 4060"
definition MSQ_MAX_NUM :: int where "MSQ_MAX_NUM = 1024"
definition MSQ_MODE_BLOCK :: int where "MSQ_MODE_BLOCK = 1"
definition MSQ_MODE_NONBLOCK :: int where "MSQ_MODE_NONBLOCK = 2"

lemmas msq_consts = EINTR_def E2BIG_def EAGAIN_def EINVAL_def ENOMSG_def EIDRM_def MSGMAX_def MSGMNB_def
  MSQ_CHK_YES_def MSQ_CHK_NO_def BUS_MAX_MSG_LEN_def MSQ_MAX_NUM_def MSQ_MODE_BLOCK_def
  MSQ_MODE_NONBLOCK_def

record IPCChkMsq =
  nChkFlag :: int
  nMsqMaxNum :: int
  nWaitFlag :: int

definition MsqCreate :: "int \<Rightarrow> 'a kern_scheme \<Rightarrow> int \<times> 'a kern_scheme" where
  "MsqCreate key k = msgget key True k"

definition MsqGet :: "int \<Rightarrow> 'a kern_scheme \<Rightarrow> int \<times> 'a kern_scheme" where
  "MsqGet key k = msgget key False k"

text \<open>
  \<open>MsqRcv\<close> returns the length \<open>code - sizeof(long)\<close>, which is -9 when \<open>msgrcv\<close> fails, with the
  message that was stored into \<open>ipcMsgIn\<close> and \<open>errno\<close> (0 when it was not set).
\<close>

definition MsqRcv :: "int \<Rightarrow> nat \<Rightarrow> int \<Rightarrow> int \<Rightarrow> 'a kern_scheme \<Rightarrow> 'a kern_scheme wake list \<Rightarrow>
    (int \<times> qmsg option \<times> int \<times> 'a kern_scheme \<times> 'a kern_scheme wake list) wait" where
  "MsqRcv nMsqId nMsgLen nMsgType iRcvMod k ws =
     (case msgrcv nMsqId nMsgLen nMsgType (iRcvMod = MSQ_MODE_NONBLOCK) k ws of
        Blocked \<Rightarrow> Blocked
      | Done (Inl e, k', ws') \<Rightarrow> Done (-1 - 8, None, e, k', ws')
      | Done (Inr m, k', ws') \<Rightarrow> Done (int (msg_size m) - 8, Some m, 0, k', ws'))"

text \<open>The message copied out of \<open>*ipcMsgIn\<close>: \<open>nMsgLen\<close> bytes of the zero-initialised \<open>sBuf\<close>.\<close>

definition sent_msg :: "qmsg \<Rightarrow> nat \<Rightarrow> qmsg" where
  "sent_msg m n = m\<lparr>m_buf := take n (m_buf m @ replicate n NUL)\<rparr>"

definition MsqSnd :: "int \<Rightarrow> qmsg \<Rightarrow> nat \<Rightarrow> IPCChkMsq \<Rightarrow> 'a kern_scheme \<Rightarrow> 'a kern_scheme wake list \<Rightarrow>
    (int \<times> IPCChkMsq \<times> 'a kern_scheme \<times> 'a kern_scheme wake list) wait" where
  "MsqSnd nMsqId ipcMsgIn nMsgLen chk k ws =
     (let chk' = (if nChkFlag chk = MSQ_CHK_YES \<and> msq_at nMsqId k \<noteq> None \<and> nMsqMaxNum chk = 0
                  then chk\<lparr>nMsqMaxNum := MSQ_MAX_NUM\<rparr> else chk)
      in if nChkFlag chk = MSQ_CHK_YES \<and> msq_at nMsqId k = None then Done (EINVAL, chk', k, ws)
         else if nChkFlag chk = MSQ_CHK_YES \<and> nMsqMaxNum chk' \<ge> 0
              \<and> int (length (q_msgs (the (msq_at nMsqId k)))) > nMsqMaxNum chk'
         then Done (-1, chk', k, ws)
         else if nMsgLen \<ge> BUS_MAX_MSG_LEN then Done (-2, chk', k, ws)
         else case msgsnd nMsqId (sent_msg ipcMsgIn nMsgLen) (nWaitFlag chk = MSQ_MODE_NONBLOCK) k ws of
                Blocked \<Rightarrow> Blocked
              | Done (Inl e, k', ws') \<Rightarrow> Done (e, chk', k', ws')
              | Done (Inr u, k', ws') \<Rightarrow> Done (0, chk', k', ws'))"

definition MsqCount :: "int \<Rightarrow> 'a kern_scheme \<Rightarrow> int" where
  "MsqCount msqid k = (case msq_at msqid k of None \<Rightarrow> -1 | Some q \<Rightarrow> int (length (q_msgs q)))"

fun clear_loop :: "int \<Rightarrow> nat \<Rightarrow> 'a kern_scheme \<Rightarrow> int \<times> 'a kern_scheme" where
  "clear_loop msqid 0 k = (0, k)"
| "clear_loop msqid (Suc flag) k =
     (case MsqRcv msqid BUS_MAX_MSG_LEN 0 MSQ_MODE_NONBLOCK k [] of
        Blocked \<Rightarrow> (-1, k)
      | Done (n, m, e, k', ws) \<Rightarrow> if n < 0 then (-1, k') else clear_loop msqid flag k')"

definition MsqClear :: "int \<Rightarrow> 'a kern_scheme \<Rightarrow> int \<times> 'a kern_scheme" where
  "MsqClear msqid k =
     (let flag = MsqCount msqid k in if flag < 0 then (-1, k) else clear_loop msqid (nat flag) k)"

definition MsqClose :: "int \<Rightarrow> 'a kern_scheme \<Rightarrow> int \<times> 'a kern_scheme" where
  "MsqClose msqid k =
     (if msq_at msqid k = None then (-1, k)
      else (0, k\<lparr>k_msq := filter (\<lambda>q. q_id q \<noteq> msqid) (k_msq k)\<rparr>))"

section \<open>Access to one queue\<close>

lemma msq_at_id: "msq_at qid k = Some q \<Longrightarrow> q_id q = qid"
  by (auto simp: msq_at_def find_Some_iff)

lemma msq_at_set_any:
  "msq_at qid' (msq_set qid ms k) = map_option (\<lambda>q. if q_id q = qid then q\<lparr>q_msgs := ms\<rparr> else q) (msq_at qid' k)"
  unfolding msq_at_def msq_set_def by (simp add: find_map_upd)

lemma msq_at_set: "msq_at qid (msq_set qid ms k) = map_option (\<lambda>q. q\<lparr>q_msgs := ms\<rparr>) (msq_at qid k)"
  using msq_at_id [of qid k] by (cases "msq_at qid k") (auto simp: msq_at_set_any)

lemma msq_at_set_other: "qid' \<noteq> qid \<Longrightarrow> msq_at qid' (msq_set qid ms k) = msq_at qid' k"
  using msq_at_id [of qid' k] by (cases "msq_at qid' k") (auto simp: msq_at_set_any)

lemma msq_set_set [simp]: "msq_set qid a (msq_set qid b k) = msq_set qid a k"
proof -
  have "map (\<lambda>q. if q_id q = qid then q\<lparr>q_msgs := a\<rparr> else q)
      (map (\<lambda>q. if q_id q = qid then q\<lparr>q_msgs := b\<rparr> else q) l)
    = map (\<lambda>q. if q_id q = qid then q\<lparr>q_msgs := a\<rparr> else q) l" for l
    by (induction l) auto
  then show ?thesis by (simp add: msq_set_def)
qed

lemma take_first_None: "take_first P ms = None \<longleftrightarrow> (\<forall>m \<in> set ms. \<not> P m)"
  by (induction ms) (auto split: option.splits)

lemma take_first_Some:
  "take_first P ms = Some (m, r) \<Longrightarrow> \<exists>a b. ms = a @ m # b \<and> r = a @ b \<and> P m \<and> (\<forall>x \<in> set a. \<not> P x)"
proof (induction ms arbitrary: r)
  case (Cons x ms)
  show ?case
  proof (cases "P x")
    case True
    then show ?thesis using Cons.prems by (intro exI [of _ "[]"] exI [of _ ms]) auto
  next
    case False
    then obtain r' where r': "take_first P ms = Some (m, r')" "r = x # r'"
      using Cons.prems by (auto split: option.splits)
    from Cons.IH [OF r'(1)] obtain a b
      where "ms = a @ m # b" "r' = a @ b" "P m" "\<forall>x \<in> set a. \<not> P x" by blast
    with False r'(2) show ?thesis by (intro exI [of _ "x # a"] exI [of _ b]) simp
  qed
qed simp

lemma take_first_filter:
  assumes "take_first (\<lambda>m. f m = t) ms = Some (m, r)"
  shows "f m = t \<and> filter (\<lambda>m. f m = t) ms = m # filter (\<lambda>m. f m = t) r
    \<and> (\<forall>u. u \<noteq> t \<longrightarrow> filter (\<lambda>m. f m = u) r = filter (\<lambda>m. f m = u) ms)"
  using take_first_Some [OF assms] by (auto simp: filter_empty_conv)

lemma take_first_hd: "filter P ms = m # rest \<Longrightarrow> \<exists>r. take_first P ms = Some (m, r)"
  by (induction ms) (auto split: if_splits)

lemma wanted_pos: "t > 0 \<Longrightarrow> wanted t ms = (\<lambda>m. m_type m = t)"
  by (auto simp: wanted_def)

lemma sent_msg_id [simp]: "sent_msg m (length (m_buf m)) = m"
  by (simp add: sent_msg_def)

lemma msg_size_sent [simp]: "msg_size (sent_msg m n) = 8 + n"
  by (simp add: msg_size_def sent_msg_def)

lemma msgsnd_err: "msgsnd qid m nw k ws = Done (Inl e, k', ws') \<Longrightarrow> e \<noteq> 0"
proof (induction qid m nw k ws rule: msgsnd.induct)
  case (1 qid m nw k ws)
  then show ?case
    by (subst (asm) msgsnd.simps [of qid m nw k ws])
      (auto simp: msq_consts msgsnd_try_def split: option.splits if_splits list.splits wake.splits)
qed

text \<open>What an accepted send without waiting does.\<close>

lemma MsqSnd_accepted:
  assumes "MsqSnd qid m n chk k [] = Done (0, chk', k', ws')"
  shows "\<exists>q. msq_at qid k = Some q \<and> k' = msq_set qid (q_msgs q @ [sent_msg m n]) k
    \<and> n < BUS_MAX_MSG_LEN \<and> ws' = [] \<and> m_type m \<ge> 1
    \<and> (nChkFlag chk = MSQ_CHK_YES \<and> nMsqMaxNum chk = 0 \<longrightarrow> length (q_msgs q) \<le> 1024)"
proof -
  have "EINVAL \<noteq> 0" by (simp add: msq_consts)
  then have "n < BUS_MAX_MSG_LEN"
    and s: "msgsnd qid (sent_msg m n) (nWaitFlag chk = MSQ_MODE_NONBLOCK) k [] = Done (Inr (), k', ws')"
    and c: "nChkFlag chk = MSQ_CHK_YES \<longrightarrow> msq_at qid k \<noteq> None"
      "nChkFlag chk = MSQ_CHK_YES \<and> nMsqMaxNum chk = 0 \<longrightarrow>
         int (length (q_msgs (the (msq_at qid k)))) \<le> MSQ_MAX_NUM"
    using assms
    by (auto simp: MsqSnd_def Let_def MSQ_MAX_NUM_def dest: msgsnd_err
        split: if_splits wait.splits sum.splits)
  then show ?thesis
    by (auto simp: msgsnd.simps [of _ _ _ _ "[]"] msgsnd_try_def MSQ_MAX_NUM_def sent_msg_def
        split: option.splits if_splits)
qed

lemma MsqRcv_now:
  "msgrcv_try qid sz t k = Some r \<Longrightarrow>
     MsqRcv qid sz t md k ws = (case r of Inl e \<Rightarrow> Done (-9, None, e, k, ws)
       | Inr (m, k') \<Rightarrow> Done (int (length (m_buf m)), Some m, 0, k', ws))"
  by (simp add: MsqRcv_def msgrcv.simps [of _ _ _ _ _ ws] msg_size_def split: sum.splits)

lemma MsqRcv_got:
  assumes "MsqRcv qid sz t MSQ_MODE_NONBLOCK k ws = Done (n, Some m, e, k', ws')"
  shows "\<exists>q r. msq_at qid k = Some q \<and> take_first (wanted t (q_msgs q)) (q_msgs q) = Some (m, r)
    \<and> k' = msq_set qid r k \<and> n = int (length (m_buf m)) \<and> msg_size m \<le> sz \<and> ws' = ws"
  using assms
  by (auto simp: MsqRcv_def msgrcv.simps [of _ _ _ _ _ ws] msgrcv_try_def msg_size_def
      split: option.splits if_splits prod.splits wait.splits sum.splits)

section \<open>The mailbox contract\<close>

datatype 'm mop = MSend 'm | MRecv int

text \<open>A sequence of operations: the accepted messages, the delivered messages, and the final state.\<close>

fun mrun :: "('m \<Rightarrow> 'q \<Rightarrow> 'q option) \<Rightarrow> (int \<Rightarrow> 'q \<Rightarrow> ('m \<times> 'q) option) \<Rightarrow> 'm mop list \<Rightarrow> 'q
    \<Rightarrow> 'm list \<times> 'm list \<times> 'q" where
  "mrun sf rf [] q = ([], [], q)"
| "mrun sf rf (MSend m # ops) q =
     (case sf m q of None \<Rightarrow> mrun sf rf ops q
      | Some q' \<Rightarrow> (case mrun sf rf ops q' of (a, d, r) \<Rightarrow> (m # a, d, r)))"
| "mrun sf rf (MRecv t # ops) q =
     (case rf t q of None \<Rightarrow> mrun sf rf ops q
      | Some (m, q') \<Rightarrow> (case mrun sf rf ops q' of (a, d, r) \<Rightarrow> (a, m # d, r)))"

locale mailbox =
  fixes box :: "'q \<Rightarrow> int \<Rightarrow> 'm list"
    and send :: "'m \<Rightarrow> 'q \<Rightarrow> 'q option"
    and recv :: "int \<Rightarrow> 'q \<Rightarrow> ('m \<times> 'q) option"
    and mty :: "'m \<Rightarrow> int"
  assumes send_box: "send m q = Some q' \<Longrightarrow> box q' t = (if t = mty m then box q t @ [m] else box q t)"
    and recv_box: "u > 0 \<Longrightarrow> recv u q = Some (m, q') \<Longrightarrow> mty m = u \<and> box q u = m # box q' u"
    and recv_other: "u > 0 \<Longrightarrow> recv u q = Some (m, q') \<Longrightarrow> t \<noteq> u \<Longrightarrow> box q' t = box q t"
begin

lemma recv_all:
  "u > 0 \<Longrightarrow> recv u q = Some (m, q') \<Longrightarrow> box q t = (if t = mty m then m # box q' t else box q' t)"
  using recv_box recv_other by metis

lemma fifo:
  assumes "\<forall>t. MRecv t \<in> set ops \<longrightarrow> t > 0" "mrun send recv ops q = (a, d, q')"
  shows "filter (\<lambda>m. mty m = t) d @ box q' t = box q t @ filter (\<lambda>m. mty m = t) a"
  using assms
proof (induction ops arbitrary: q a d q')
  case (Cons op ops)
  have pos: "\<forall>t. MRecv t \<in> set ops \<longrightarrow> t > 0" using Cons.prems(1) by simp
  show ?case
  proof (cases op)
    case (MSend m)
    show ?thesis
    proof (cases "send m q")
      case None
      then show ?thesis using Cons.IH [OF pos] Cons.prems(2) MSend by simp
    next
      case (Some q1)
      obtain a' d' r where r: "mrun send recv ops q1 = (a', d', r)" by (metis prod_cases3)
      then show ?thesis
        using Cons.IH [OF pos r] Cons.prems(2) MSend Some send_box [OF Some, of t] by auto
    qed
  next
    case (MRecv u)
    have u: "u > 0" using Cons.prems(1) MRecv by simp
    show ?thesis
    proof (cases "recv u q")
      case None
      then show ?thesis using Cons.IH [OF pos] Cons.prems(2) MRecv by simp
    next
      case (Some mq)
      obtain m q1 where mq: "mq = (m, q1)" by (cases mq)
      obtain a' d' r where r: "mrun send recv ops q1 = (a', d', r)" by (metis prod_cases3)
      then show ?thesis
        using Cons.IH [OF pos r] Cons.prems(2) MRecv Some mq recv_all [OF u, of q m q1 t] by auto
    qed
  qed
qed simp

end

definition mbox :: "int \<Rightarrow> 'a kern_scheme \<Rightarrow> int \<Rightarrow> qmsg list" where
  "mbox qid k t = (case msq_at qid k of None \<Rightarrow> [] | Some q \<Rightarrow> filter (\<lambda>m. m_type m = t) (q_msgs q))"

definition mbox_send :: "int \<Rightarrow> IPCChkMsq \<Rightarrow> qmsg \<Rightarrow> 'a kern_scheme \<Rightarrow> 'a kern_scheme option" where
  "mbox_send qid chk m k =
     (case MsqSnd qid m (length (m_buf m)) chk k [] of
        Done (rc, chk', k', ws) \<Rightarrow> if rc = 0 then Some k' else None
      | Blocked \<Rightarrow> None)"

definition mbox_recv :: "int \<Rightarrow> int \<Rightarrow> 'a kern_scheme \<Rightarrow> (qmsg \<times> 'a kern_scheme) option" where
  "mbox_recv qid t k =
     (case MsqRcv qid BUS_MAX_MSG_LEN t MSQ_MODE_NONBLOCK k [] of
        Done (n, Some m, e, k', ws) \<Rightarrow> Some (m, k')
      | r \<Rightarrow> None)"

lemma mbox_recv_Some:
  "mbox_recv qid t k = Some (m, k') \<Longrightarrow>
     \<exists>n e ws. MsqRcv qid BUS_MAX_MSG_LEN t MSQ_MODE_NONBLOCK k [] = Done (n, Some m, e, k', ws)"
  by (auto simp: mbox_recv_def split: wait.splits option.splits)

lemma mbox_recv_laws:
  assumes "u > 0" "mbox_recv qid u k = Some (m, k')"
  shows "m_type m = u \<and> mbox qid k u = m # mbox qid k' u \<and> (\<forall>t. t \<noteq> u \<longrightarrow> mbox qid k' t = mbox qid k t)"
proof -
  obtain n e ws where "MsqRcv qid BUS_MAX_MSG_LEN u MSQ_MODE_NONBLOCK k [] = Done (n, Some m, e, k', ws)"
    using mbox_recv_Some [OF assms(2)] by blast
  from MsqRcv_got [OF this] obtain q r where q: "msq_at qid k = Some q"
    "take_first (\<lambda>m. m_type m = u) (q_msgs q) = Some (m, r)" "k' = msq_set qid r k"
    unfolding wanted_pos [OF assms(1)] by blast
  then show ?thesis
    using take_first_filter [OF q(2)] by (simp add: mbox_def msq_at_set)
qed

interpretation mb: mailbox "mbox qid" "mbox_send qid chk" "mbox_recv qid" m_type
  for qid :: int and chk :: IPCChkMsq
proof
  fix m :: qmsg and q q' :: "'a kern_scheme" and t :: int
  assume "mbox_send qid chk m q = Some q'"
  then obtain chk' ws where "MsqSnd qid m (length (m_buf m)) chk q [] = Done (0, chk', q', ws)"
    by (auto simp: mbox_send_def split: wait.splits if_splits)
  from MsqSnd_accepted [OF this] obtain qq
    where "msq_at qid q = Some qq" "q' = msq_set qid (q_msgs qq @ [m]) q" by auto
  then show "mbox qid q' t = (if t = m_type m then mbox qid q t @ [m] else mbox qid q t)"
    by (simp add: mbox_def msq_at_set)
next
  fix u t m and q q' :: "'a kern_scheme"
  assume "u > 0" "mbox_recv qid u q = Some (m, q')"
  from mbox_recv_laws [OF this]
  show "m_type m = u \<and> mbox qid q u = m # mbox qid q' u"
    and "t \<noteq> u \<Longrightarrow> mbox qid q' t = mbox qid q t" by auto
qed

section \<open>Clearing\<close>

lemma msgrcv_try_head:
  "msq_at qid k = Some q \<Longrightarrow> q_msgs q = m # ms \<Longrightarrow> msgrcv_try qid sz 0 k =
     Some (if sz < msg_size m then Inl E2BIG else Inr (m, msq_set qid ms k))"
  by (simp add: msgrcv_try_def wanted_def)

lemma clear_all:
  "msq_at qid k = Some q \<Longrightarrow> q_msgs q = ms \<Longrightarrow> \<forall>m \<in> set ms. length (m_buf m) \<le> 4052 \<Longrightarrow>
     clear_loop qid (length ms) k = (0, if ms = [] then k else msq_set qid [] k)"
proof (induction ms arbitrary: k q)
  case (Cons m ms)
  have "msgrcv_try qid BUS_MAX_MSG_LEN 0 k = Some (Inr (m, msq_set qid ms k))"
    using Cons.prems by (simp add: msgrcv_try_head msg_size_def BUS_MAX_MSG_LEN_def)
  moreover have "clear_loop qid (length ms) (msq_set qid ms k)
      = (0, if ms = [] then msq_set qid ms k else msq_set qid [] (msq_set qid ms k))"
    using Cons.prems by (intro Cons.IH [of _ "q\<lparr>q_msgs := ms\<rparr>"]) (simp_all add: msq_at_set)
  ultimately show ?case by (simp add: MsqRcv_now)
qed simp

section \<open>Properties\<close>

text \<open>Claim C3. Per message type the queue is first in, first out and loses nothing: for every
  sequence of \<open>MsqSnd\<close> and non-blocking \<open>MsqRcv\<close> calls with positive types, the messages of a type
  that were delivered, followed by those still waiting, are the ones that waited at the start followed
  by the accepted ones, in order.\<close>

theorem MsqSnd_MsqRcv_fifo:
  assumes "\<forall>t. MRecv t \<in> set ops \<longrightarrow> t > 0"
    and "mrun (mbox_send qid chk) (mbox_recv qid) ops k = (accepted, delivered, k')"
  shows "filter (\<lambda>m. m_type m = t) delivered @ mbox qid k' t
       = mbox qid k t @ filter (\<lambda>m. m_type m = t) accepted"
  using assms by (rule mb.fifo)

definition kernq :: "qmsg list \<Rightarrow> kern" where
  "kernq ms = kern0\<lparr>k_next := 6, k_msq := [\<lparr>q_key = 601107, q_id = 5, q_msgs = ms, q_qbytes = 16384\<rparr>]\<rparr>"

definition chk_yes :: IPCChkMsq where
  "chk_yes = \<lparr>nChkFlag = 1, nMsqMaxNum = 0, nWaitFlag = 0\<rparr>"

definition tmsg :: "int \<Rightarrow> string \<Rightarrow> qmsg" where
  "tmsg t b = \<lparr>m_type = t, m_source = 0, m_buf = b\<rparr>"

lemma kernq_at: "msq_at 5 (kernq ms) = Some \<lparr>q_key = 601107, q_id = 5, q_msgs = ms, q_qbytes = 16384\<rparr>"
  by (simp add: msq_at_def kernq_def)

lemma kernq_set: "msq_set 5 ms' (kernq ms) = kernq ms'"
  by (simp add: msq_set_def kernq_def)

lemmas kernq_run = kernq_at kernq_set mbox_send_def mbox_recv_def MsqSnd_def MsqRcv_def msgsnd.simps
  msgrcv.simps msgsnd_try_def msgrcv_try_def chk_yes_def tmsg_def msq_consts msg_size_def cbytes_def
  wanted_def sent_msg_def

theorem MsqSnd_MsqRcv_fifo_witness:
  "\<exists>a d k'. mrun (mbox_send 5 chk_yes) (mbox_recv 5)
       [MSend (tmsg 3 ''a''), MSend (tmsg 4 ''b''), MSend (tmsg 3 ''c''), MRecv 4, MRecv 3] (kernq [])
     = (a, d, k') \<and> map m_buf d = [''b'', ''a''] \<and>
     filter (\<lambda>m. m_type m = 3) d @ mbox 5 k' 3 = mbox 5 (kernq []) 3 @ filter (\<lambda>m. m_type m = 3) a"
proof -
  let ?ops = "[MSend (tmsg 3 ''a''), MSend (tmsg 4 ''b''), MSend (tmsg 3 ''c''), MRecv 4, MRecv 3]"
  obtain a d k' where r: "mrun (mbox_send 5 chk_yes) (mbox_recv 5) ?ops (kernq []) = (a, d, k')"
    by (metis prod_cases3)
  then have "map m_buf d = [''b'', ''a'']"
    by (auto simp: kernq_run)
  with r MsqSnd_MsqRcv_fifo [OF _ r, of 3] show ?thesis by auto
qed

text \<open>An accepted \<open>MsqSnd\<close> with the queue check on appends exactly the message, keeps every
  other queue, and leaves at most 1025 messages in the queue: one more than \<open>MSQ_MAX_NUM\<close>, because the
  guard compares with a strict inequality before sending.\<close>

theorem MsqSnd_appends_bounded:
  assumes "nChkFlag chk = MSQ_CHK_YES" "nMsqMaxNum chk = 0"
    and "MsqSnd qid m n chk k [] = Done (0, chk', k', ws')"
  shows "\<exists>q q'. msq_at qid k = Some q \<and> msq_at qid k' = Some q' \<and> q_msgs q' = q_msgs q @ [sent_msg m n]
    \<and> length (q_msgs q') \<le> 1025 \<and> (\<forall>i. i \<noteq> qid \<longrightarrow> msq_at i k' = msq_at i k)"
  using MsqSnd_accepted [OF assms(3)] assms(1,2) by (auto simp: msq_at_set msq_at_set_other)

theorem MsqSnd_appends_bounded_witness:
  "\<exists>q q'. msq_at 5 (kernq []) = Some q \<and> msq_at 5 (kernq [tmsg 3 ''a'']) = Some q'
     \<and> q_msgs q' = q_msgs q @ [sent_msg (tmsg 3 ''a'') 1] \<and> length (q_msgs q') \<le> 1025
     \<and> (\<forall>i. i \<noteq> 5 \<longrightarrow> msq_at i (kernq [tmsg 3 ''a'']) = msq_at i (kernq []))"
proof (rule MsqSnd_appends_bounded [where m = "tmsg 3 ''a''" and n = 1])
  show "MsqSnd 5 (tmsg 3 ''a'') 1 chk_yes (kernq []) []
      = Done (0, chk_yes\<lparr>nMsqMaxNum := 1024\<rparr>, kernq [tmsg 3 ''a''], [])"
    by (simp add: kernq_run)
qed (simp_all add: chk_yes_def MSQ_CHK_YES_def)



text \<open>\<open>MsqClear\<close> empties a queue whose messages all fit the receive buffer, keeps every other
  queue and returns 0; it returns -1 and changes nothing when the queue does not exist.\<close>

theorem MsqClear_empties:
  assumes "\<forall>q. msq_at qid k = Some q \<longrightarrow> (\<forall>m \<in> set (q_msgs q). length (m_buf m) \<le> 4052)"
  shows "case msq_at qid k of
      None \<Rightarrow> MsqClear qid k = (-1, k)
    | Some q \<Rightarrow> fst (MsqClear qid k) = 0 \<and> MsqCount qid (snd (MsqClear qid k)) = 0
        \<and> (\<forall>i. i \<noteq> qid \<longrightarrow> msq_at i (snd (MsqClear qid k)) = msq_at i k)"
proof (cases "msq_at qid k")
  case (Some q)
  then have "MsqClear qid k = (0, if q_msgs q = [] then k else msq_set qid [] k)"
    using clear_all [OF Some refl] assms by (simp add: MsqClear_def MsqCount_def)
  with Some show ?thesis by (simp add: MsqCount_def msq_at_set msq_at_set_other)
qed (simp add: MsqClear_def MsqCount_def)

theorem MsqClear_empties_witness:
  "fst (MsqClear 5 (kernq [tmsg 3 ''a'', tmsg 4 ''b''])) = 0
   \<and> MsqCount 5 (snd (MsqClear 5 (kernq [tmsg 3 ''a'', tmsg 4 ''b'']))) = 0"
  using MsqClear_empties [of 5 "kernq [tmsg 3 ''a'', tmsg 4 ''b'']"]
  by (simp add: kernq_at tmsg_def)

end
