(* ===== verification/SdSystem.thy ===== *)
theory SdSystem
  imports SdTables MsgQueue
begin

text \<open>
  Starting, joining and removing the system (\<open>src/dev/src/pubfun/tux/tuxmgr.c\<close>): \<open>sys_start\<close>,
  \<open>createqueue\<close>, \<open>que_connect\<close>, \<open>tux_createsem\<close>, \<open>ipc_connect\<close>, \<open>ipc_remove\<close>, \<open>tux_lock\<close>,
  \<open>tux_unlock\<close> and \<open>tux_deletesvc\<close>.

  \<open>sys\<close> extends the kernel state by the contents of the shared memory segments, the configuration
  file, the clock and the signals that were sent; \<open>proc\<close> is what a process keeps for itself, among it
  the pointer \<open>mbctrl\<close>. Dereferencing the pointer when it is null, the error value of \<open>shmat\<close>, or a
  segment that was detached, is a \<open>Crash\<close>.
\<close>

section \<open>State\<close>

record sys = kern +
  sd_mem :: "int \<Rightarrow> sdmem"
  sd_cfg :: "string option"
  sd_now :: int
  sd_signals :: "(int \<times> int) list"

record proc =
  p_pid :: int
  p_ctl :: shmptr
  p_errno :: int

definition SIGTERM :: int where "SIGTERM = 15"
definition DEF_REQ_QUE :: int where "DEF_REQ_QUE = 601107"
definition DEF_RSP_QUE :: int where "DEF_RSP_QUE = 601117"
definition SD_MEM_NAME :: string where "SD_MEM_NAME = ''SD_MEN_NAME''"
definition SD_SEM_NAME :: string where "SD_SEM_NAME = ''SD_SEM_NAME''"
definition SD_SERVER_MGR_NAME :: string where "SD_SERVER_MGR_NAME = ''Governor''"
definition SD_MANAGER_SVC_NAME :: string where "SD_MANAGER_SVC_NAME = ''Governor''"

definition sdIsAttach :: "'p proc_scheme \<Rightarrow> bool" where
  "sdIsAttach p \<longleftrightarrow> p_ctl p \<noteq> PNull"

definition ctl :: "'p proc_scheme \<Rightarrow> 's sys_scheme \<Rightarrow> sdmem cres" where
  "ctl p s = (case p_ctl p of PNull \<Rightarrow> Crash NullDeref | PFail \<Rightarrow> Crash OutOfBounds
     | PSeg i \<Rightarrow> if i \<in> set (k_attached s) then Ret (sd_mem s i) else Crash OutOfBounds)"

definition set_ctl :: "'p proc_scheme \<Rightarrow> sdmem \<Rightarrow> 's sys_scheme \<Rightarrow> 's sys_scheme" where
  "set_ctl p m s = (case p_ctl p of PSeg i \<Rightarrow> s\<lparr>sd_mem := (sd_mem s)(i := m)\<rparr> | _ \<Rightarrow> s)"

definition upd_mb :: "(mb_ctrl_t \<Rightarrow> mb_ctrl_t) \<Rightarrow> sdmem \<Rightarrow> sdmem" where
  "upd_mb f m = m\<lparr>mbctrl := f (mbctrl m)\<rparr>"

definition kill :: "int \<Rightarrow> int \<Rightarrow> 's sys_scheme \<Rightarrow> 's sys_scheme" where
  "kill pid sig s = s\<lparr>sd_signals := sd_signals s @ [(pid, sig)]\<rparr>"

section \<open>tuxmgr.c\<close>

definition tux_lock :: "'p proc_scheme \<Rightarrow> 's sys_scheme \<Rightarrow> (int \<times> 's sys_scheme) wait cres" where
  "tux_lock p s = cbind (ctl p s) (\<lambda>m. Ret (sem_lock (p_pid p) 0 (mb_semid (mbctrl m)) s))"

definition tux_unlock :: "'p proc_scheme \<Rightarrow> 's sys_scheme \<Rightarrow> (int \<times> 's sys_scheme) wait cres" where
  "tux_unlock p s = cbind (ctl p s) (\<lambda>m. Ret (sem_unlock (p_pid p) 0 (mb_semid (mbctrl m)) s))"

definition que_remove :: "'p proc_scheme \<Rightarrow> 's sys_scheme \<Rightarrow> (int \<times> 's sys_scheme) cres" where
  "que_remove p s = cbind (ctl p s) (\<lambda>m.
     let s1 = snd (MsqClose (mb_req_que_id (mbctrl m)) s); s2 = snd (MsqClose (mb_rsp_que_id (mbctrl m)) s1)
     in Ret (0, s2))"

definition stop_system :: "'p proc_scheme \<Rightarrow> 's sys_scheme \<Rightarrow> (int \<times> 's sys_scheme) cres" where
  "stop_system p s =
     (if sdIsAttach p then
        cbind (ctl p s) (\<lambda>m. let pid = mb_main_pid (mbctrl m)
          in if pid \<le> 0 then Ret (0, s) else Ret (0, kill pid SIGTERM s))
      else Ret (0, s))"

definition ipc_remove :: "'p proc_scheme \<Rightarrow> 's sys_scheme \<Rightarrow> (int \<times> 's sys_scheme) cres" where
  "ipc_remove p s =
     cbind (stop_system p s) (\<lambda>(r0, s0).
     cbind (que_remove p s0) (\<lambda>(r1, s1).
     cbind (sem_delete (Some SD_SEM_NAME) 1 s1) (\<lambda>(r2, s2).
     cbind (shm_delete (Some SD_MEM_NAME) (p_ctl p) s2) (\<lambda>(r3, s3). Ret (0, s3)))))"

definition createqueue :: "int \<Rightarrow> int \<Rightarrow> 'p proc_scheme \<Rightarrow> 's sys_scheme \<Rightarrow>
    (int \<times> 'p proc_scheme \<times> 's sys_scheme) cres" where
  "createqueue req_que rsp_que p s =
     cbind (ctl p s) (\<lambda>m.
       let m1 = upd_mb (\<lambda>c. c\<lparr>mb_req_que := req_que, mb_rsp_que := rsp_que\<rparr>) m;
           (q1, s1) = MsqCreate req_que s;
           m2 = upd_mb (\<lambda>c. c\<lparr>mb_req_que_id := q1\<rparr>) m1
       in if q1 < 0 then Ret (-1, p\<lparr>p_errno := SYS_OS\<rparr>, set_ctl p m2 s1)
          else let (q2, s2) = MsqCreate rsp_que s1;
                   m3 = upd_mb (\<lambda>c. c\<lparr>mb_rsp_que_id := q2\<rparr>) m2
               in if q2 < 0 then Ret (-1, p\<lparr>p_errno := SYS_OS\<rparr>, set_ctl p m3 s2)
                  else Ret (0, p, set_ctl p m3 s2))"

text \<open>\<open>que_connect\<close> has no \<open>return\<close> at its end: \<open>junk\<close> is the value the caller reads then.\<close>

definition que_connect :: "int \<Rightarrow> 'p proc_scheme \<Rightarrow> 's sys_scheme \<Rightarrow>
    (int \<times> 'p proc_scheme \<times> 's sys_scheme) cres" where
  "que_connect junk p s =
     cbind (ctl p s) (\<lambda>m.
       let (q1, s1) = MsqGet (mb_req_que (mbctrl m)) s;
           m1 = upd_mb (\<lambda>c. c\<lparr>mb_req_que_id := q1\<rparr>) m
       in if q1 < 0 then Ret (-1, p\<lparr>p_errno := SYS_OS\<rparr>, set_ctl p m1 s1)
          else let (q2, s2) = MsqGet (mb_rsp_que (mbctrl m)) s1;
                   m2 = upd_mb (\<lambda>c. c\<lparr>mb_rsp_que_id := q2\<rparr>) m1
               in if mb_rsp_que (mbctrl m2) < 0 then Ret (-1, p\<lparr>p_errno := SYS_OS\<rparr>, set_ctl p m2 s2)
                  else Ret (junk, p, set_ctl p m2 s2))"

definition tux_createsem :: "'p proc_scheme \<Rightarrow> 's sys_scheme \<Rightarrow> (int \<times> 'p proc_scheme \<times> 's sys_scheme) cres" where
  "tux_createsem p s =
     cbind (ctl p s) (\<lambda>m.
     cbind (sem_create (Some SD_SEM_NAME) 1 s) (\<lambda>(semid, s1).
       let s2 = set_ctl p (upd_mb (\<lambda>c. c\<lparr>mb_semid := semid\<rparr>) m) s1
       in if semid < 0 then Ret (-1, p\<lparr>p_errno := SYS_OS\<rparr>, s2) else Ret (0, p, s2)))"

text \<open>\<open>count_memory_size\<close> with the structure sizes of a 64-bit machine.\<close>

definition count_memory_size :: "int \<Rightarrow> int \<Rightarrow> int" where
  "count_memory_size nsvrnum npidnum = 40 + 232 * nsvrnum + 48 * npidnum + 56 * nsvrnum"

definition cfg_num :: "string \<Rightarrow> int \<Rightarrow> cfile \<Rightarrow> (int \<times> cfile) cres" where
  "cfg_num pname dflt f = cbind (cf_locatenum pname f) (\<lambda>(v, f').
     case v of None \<Rightarrow> Ret (dflt, f') | Some n \<Rightarrow> Ret (if n \<le> 0 then dflt else n, f'))"

definition mb_zero :: mb_ctrl_t where
  "mb_zero = \<lparr>mb_nsvrnum = 0, mb_npidnum = 0, mb_main_pid = 0, mb_semid = 0, mb_memid = 0, mb_req_que = 0,
     mb_rsp_que = 0, mb_req_que_id = 0, mb_rsp_que_id = 0, mb_max_msg_len = 0\<rparr>"

text \<open>The cleared memory with the sizes and the two initialisation loops of \<open>sys_start\<close>.\<close>

definition init_mem :: "int \<Rightarrow> int \<Rightarrow> int \<Rightarrow> int \<Rightarrow> int \<Rightarrow> sdmem" where
  "init_mem nsvrnum npidnum nmsglen memid pid =
     \<lparr>mbctrl = mb_zero\<lparr>mb_nsvrnum := nsvrnum, mb_npidnum := npidnum, mb_memid := memid,
        mb_max_msg_len := nmsglen, mb_main_pid := pid\<rparr>,
      tSvrTab = replicate (nat nsvrnum) (svr_zero\<lparr>st_svrid := -1\<rparr>),
      tSvrPid = replicate (nat npidnum) (pid_zero\<lparr>sp_pid := -1\<rparr>),
      tSvcTab = replicate (nat nsvrnum) (svc_zero\<lparr>sc_flags := -1\<rparr>)\<rparr>"

text \<open>Entry 0 of the server and process tables: the task manager itself.\<close>

definition register_manager :: "int \<Rightarrow> int \<Rightarrow> sdmem \<Rightarrow> sdmem" where
  "register_manager pid now m =
     upd_pid 0 (\<lambda>e. e\<lparr>sp_pid := pid, sp_svrid := 0, sp_seq := 0, sp_svrpos := 0, sp_lastStart := now,
       sp_req_done := 0\<rparr>)
     (upd_svr 0 (\<lambda>e. e\<lparr>st_name := SD_SERVER_MGR_NAME, st_svc_name := SD_MANAGER_SVC_NAME, st_pid_tot := 1,
       st_svrid := 0, st_state := TUX_IDLE, st_msg_type := SVR_MSG_TYPE_ROOT + 0, st_timeout := -1\<rparr>) m)"

text \<open>\<open>sys_start\<close> behind the five settings: shared memory, queues, semaphore, entry 0.\<close>

definition sys_create :: "int \<Rightarrow> int \<Rightarrow> int \<Rightarrow> int \<Rightarrow> int \<Rightarrow> 'p proc_scheme \<Rightarrow> 's sys_scheme \<Rightarrow>
    (int \<times> 'p proc_scheme \<times> 's sys_scheme) cres" where
  "sys_create nsvrnum npidnum nmsglen nreq_que nrsp_que p s =
     cbind (shm_create (Some SD_MEM_NAME) (count_memory_size nsvrnum npidnum) s) (\<lambda>(mem, s2).
       let p1 = p\<lparr>p_ctl := mem\<rparr>
       in if mem = PNull then Ret (-1, p1\<lparr>p_errno := SYS_OS\<rparr>, s2)
          else
            cbind (ctl p1 s2) (\<lambda>old.
            cbind (shm_getid (Some SD_MEM_NAME) 0 0 s2) (\<lambda>(memid, s3).
            cbind (createqueue nreq_que nrsp_que p1
                (set_ctl p1 (init_mem nsvrnum npidnum nmsglen memid (p_pid p)) s3)) (\<lambda>(rc, p2, s5).
              if rc \<noteq> 0 then
                cbind (shm_delete (Some SD_MEM_NAME) (p_ctl p2) s5) (\<lambda>(r, s6). Ret (rc, p2, s6))
              else
                cbind (sem_create (Some SD_SEM_NAME) 1 s5) (\<lambda>(semid, s6).
                cbind (ctl p2 s6) (\<lambda>m.
                  let s7 = set_ctl p2 (upd_mb (\<lambda>c. c\<lparr>mb_semid := semid\<rparr>) m) s6
                  in if semid < 0 then
                       cbind (shm_delete (Some SD_MEM_NAME) (p_ctl p2) s7) (\<lambda>(r, s8).
                       cbind (que_remove p2 s8) (\<lambda>(r', s9). Ret (-1, p2\<lparr>p_errno := SYS_OS\<rparr>, s9)))
                     else Ret (0, p2, set_ctl p2 (register_manager (p_pid p) (sd_now s)
                            (upd_mb (\<lambda>c. c\<lparr>mb_semid := semid\<rparr>) m)) s7)))))))"

definition sys_start :: "'p proc_scheme \<Rightarrow> 's sys_scheme \<Rightarrow> (int \<times> 'p proc_scheme \<times> 's sys_scheme) cres" where
  "sys_start p s =
     (case sd_cfg s of
        None \<Rightarrow> Ret (-1, p\<lparr>p_errno := SYS_SYSTEM\<rparr>, s)
      | Some txt \<Rightarrow>
          cbind (cfg_num ''sd.svrnum'' 80 (cf_open txt)) (\<lambda>(nsvrnum, f1).
          cbind (cfg_num ''sd.pidnum'' 800 f1) (\<lambda>(npidnum, f2).
          cbind (cfg_num ''sd.maxmsglen'' 4096 f2) (\<lambda>(nmsglen, f3).
          cbind (cfg_num ''sd.req_que'' DEF_REQ_QUE f3) (\<lambda>(nreq_que, f4).
          cbind (cfg_num ''sd.rsp_que'' DEF_RSP_QUE f4) (\<lambda>(nrsp_que, f5).
          cbind (shm_connect (Some SD_MEM_NAME) s) (\<lambda>(mem0, s1).
            if mem0 \<noteq> PNull then Ret (-1, p\<lparr>p_ctl := mem0, p_errno := SYS_SYSTEM\<rparr>, s1)
            else sys_create nsvrnum npidnum nmsglen nreq_que nrsp_que (p\<lparr>p_ctl := PNull\<rparr>) s1)))))))"

definition ipc_connect :: "int \<Rightarrow> 'p proc_scheme \<Rightarrow> 's sys_scheme \<Rightarrow>
    (int \<times> 'p proc_scheme \<times> 's sys_scheme) cres" where
  "ipc_connect junk p s =
     cbind (shm_connect (Some SD_MEM_NAME) s) (\<lambda>(mem, s1).
       let p1 = p\<lparr>p_ctl := mem\<rparr>
       in if mem = PNull then Ret (-1, p1\<lparr>p_errno := SYS_OS\<rparr>, s1)
          else cbind (ctl p1 s1) (\<lambda>m.
            if mb_req_que (mbctrl m) = 0 \<and> mb_rsp_que (mbctrl m) = 0
            then Ret (-1, p1\<lparr>p_errno := SYS_OS\<rparr>, s1)
            else cbind (sem_connect (Some SD_SEM_NAME) 1 s1) (\<lambda>(semid, s2).
              let s3 = set_ctl p1 (upd_mb (\<lambda>c. c\<lparr>mb_semid := semid\<rparr>) m) s2
              in if semid < 0 then Ret (-1, p1\<lparr>p_errno := SYS_OS\<rparr>, s3)
                 else cbind (que_connect junk p1 s3) (\<lambda>(rc, p2, s4).
                   if rc < 0 then Ret (-1, p2\<lparr>p_errno := SYS_OS\<rparr>, s4) else Ret (0, p2, s4)))))"

text \<open>The loop of \<open>tux_deletesvc\<close>: it compares the identifiers with the table position it is given.\<close>

definition mark_unavail :: "int \<Rightarrow> sdmem \<Rightarrow> sdmem" where
  "mark_unavail taskid m = m\<lparr>tSvrTab := map (\<lambda>i.
     let e = tSvrTab m ! i
     in if 1 \<le> i \<and> i < sdNumberOfSvr m \<and> st_svrid e = taskid then e\<lparr>st_state := TUX_UNAVAIL\<rparr> else e)
       [0..<length (tSvrTab m)]\<rparr>"

text \<open>
  \<open>Blocked\<close> while another process holds the lock. The trace line in front of the attachment check reads
  \<open>tSvrTab[taskid]\<close>, so that a process that is not attached never gets to the check.
\<close>

definition tux_deletesvc :: "int \<Rightarrow> 'p proc_scheme \<Rightarrow> 's sys_scheme \<Rightarrow>
    (int \<times> 'p proc_scheme \<times> 's sys_scheme) wait cres" where
  "tux_deletesvc taskid p s =
     cbind (ctl p s) (\<lambda>m0.
      if taskid < 0 \<or> taskid \<ge> int (length (tSvrTab m0)) then Crash OutOfBounds
      else if \<not> sdIsAttach p then Ret (Done (-1, p\<lparr>p_errno := SYS_SYSTEM\<rparr>, s))
      else cbind (tux_lock p s) (\<lambda>r. case r of
          Blocked \<Rightarrow> Ret Blocked
        | Done (rc, s1) \<Rightarrow>
            if rc \<noteq> 0 then Ret (Done (-1, p\<lparr>p_errno := SYS_OS\<rparr>, s1))
            else cbind (ctl p s1) (\<lambda>m.
              cbind (tux_unlock p (set_ctl p (mark_unavail taskid m) s1)) (\<lambda>u. case u of
                  Blocked \<Rightarrow> Ret Blocked
                | Done (rc2, s3) \<Rightarrow> Ret (Done (0, p, s3))))))"

section \<open>Frames\<close>

lemma ctl_frame:
  "k_attached s' = k_attached s \<Longrightarrow> sd_mem s' = sd_mem s \<Longrightarrow> p_ctl p' = p_ctl p \<Longrightarrow> ctl p' s' = ctl p s"
  by (simp add: ctl_def split: shmptr.split)

lemma ctl_set: "ctl p s = Ret m0 \<Longrightarrow> p_ctl p' = p_ctl p \<Longrightarrow> ctl p' (set_ctl p m s) = Ret m"
  by (auto simp: ctl_def set_ctl_def split: shmptr.splits if_splits)

lemma set_ctl_kern [simp]:
  "k_attached (set_ctl p m s) = k_attached s" "k_shm (set_ctl p m s) = k_shm s" "k_sem (set_ctl p m s) = k_sem s"
  "k_msq (set_ctl p m s) = k_msq s" "k_region (set_ctl p m s) = k_region s" "k_limit (set_ctl p m s) = k_limit s"
  "k_next (set_ctl p m s) = k_next s" "sd_now (set_ctl p m s) = sd_now s" "sd_signals (set_ctl p m s) = sd_signals s"
  "sd_cfg (set_ctl p m s) = sd_cfg s" "k_can_attach (set_ctl p m s) = k_can_attach s"
  by (simp_all add: set_ctl_def split: shmptr.splits)

lemma MsqCreate_frame:
  "MsqCreate key (s :: 's sys_scheme) = (q, s') \<Longrightarrow> k_attached s' = k_attached s \<and> sd_mem s' = sd_mem s"
  by (auto simp: MsqCreate_def msgget_def split: option.splits if_splits)

lemma semctl_frame:
  "semctl_setval sid i v (s :: 's sys_scheme) = (r, s') \<Longrightarrow> k_attached s' = k_attached s \<and> sd_mem s' = sd_mem s"
  by (auto simp: semctl_setval_def split: option.splits if_splits)

lemma setvals_frame:
  "sem_setvals sid i n (s :: 's sys_scheme) = (r, s') \<Longrightarrow> k_attached s' = k_attached s \<and> sd_mem s' = sd_mem s"
proof (induction sid i n s rule: sem_setvals.induct)
  case (2 sid i n k)
  obtain rc k1 where k1: "semctl_setval sid i 1 k = (rc, k1)" by fastforce
  from semctl_frame [OF k1] 2 k1 show ?case by (auto split: if_splits)
qed simp

lemma sem_getid_frame:
  "sem_getid nm n c (s :: 's sys_scheme) = Ret (r, s') \<Longrightarrow> k_attached s' = k_attached s \<and> sd_mem s' = sd_mem s"
  by (auto simp: sem_getid_def cbind_Ret_iff sem_semget_internal_def semget_def split: option.splits if_splits)

lemma sem_create_frame:
  "sem_create nm n (s :: 's sys_scheme) = Ret (r, s') \<Longrightarrow> k_attached s' = k_attached s \<and> sd_mem s' = sd_mem s"
  by (auto simp: sem_create_def cbind_Ret_iff sem_attach_internal_def
      dest!: sem_getid_frame setvals_frame split: if_splits)

lemma createqueue_ok:
  assumes "createqueue rq rs p s = Ret (0, p', s')"
  shows "p' = p \<and> (\<exists>m q1 q2. ctl p s = Ret m \<and> ctl p s' = Ret (m\<lparr>mbctrl := (mbctrl m)\<lparr>mb_req_que := rq,
    mb_rsp_que := rs, mb_req_que_id := q1, mb_rsp_que_id := q2\<rparr>\<rparr>))"
proof -
  obtain m where m: "ctl p s = Ret m" using assms by (auto simp: createqueue_def cbind_Ret_iff)
  obtain q1 s1 where q1: "MsqCreate rq s = (q1, s1)" by fastforce
  obtain q2 s2 where q2: "MsqCreate rs s1 = (q2, s2)" by fastforce
  have "ctl p s2 = Ret m"
    using m MsqCreate_frame [OF q1] MsqCreate_frame [OF q2] ctl_frame [of s2 s p p] by simp
  from ctl_set [OF this refl] show ?thesis
    using assms m q1 q2 by (auto simp: createqueue_def upd_mb_def Let_def split: if_splits)
qed

section \<open>Numeric settings are never read\<close>

lemma locatenum_all: "cf_all f = cf_all g \<Longrightarrow> cf_locatenum pn f = cf_locatenum pn g"
  by (cases f; cases g) (simp add: cf_locatenum_def cf_locate_def cf_rewind_def)

lemma cfg_num_text:
  assumes "\<forall>l \<in> set ls. plain_line l" "plain_line te" "NL \<notin> set pn" "cf_all f = text_of ls @ te"
    "cfg_num pn d f = Ret (v, f')"
  shows "v = d \<and> cf_all f' = text_of ls @ te"
  using locatenum_text [OF assms(1-4)] assms(4,5) by (auto simp: cfg_num_def)

definition started :: "int \<Rightarrow> sdmem \<Rightarrow> bool" where
  "started pid m \<longleftrightarrow> mb_nsvrnum (mbctrl m) = 80 \<and> mb_npidnum (mbctrl m) = 800
     \<and> mb_max_msg_len (mbctrl m) = 4096 \<and> mb_req_que (mbctrl m) = DEF_REQ_QUE
     \<and> mb_rsp_que (mbctrl m) = DEF_RSP_QUE \<and> mb_main_pid (mbctrl m) = pid \<and> svc_ok m
     \<and> find_svrno_by_service SD_MANAGER_SVC_NAME m = 0 \<and> sp_pid (tSvrPid m ! 0) = pid
     \<and> (\<forall>i. 1 \<le> i \<and> i < 80 \<longrightarrow> st_svrid (tSvrTab m ! i) = -1)
     \<and> (\<forall>i. 1 \<le> i \<and> i < 800 \<longrightarrow> sp_pid (tSvrPid m ! i) = -1)"

lemma started_init:
  "started pid (register_manager pid now (upd_mb (\<lambda>c. c\<lparr>mb_semid := sid\<rparr>)
     ((init_mem 80 800 4096 mid pid)\<lparr>mbctrl := (mbctrl (init_mem 80 800 4096 mid pid))\<lparr>
        mb_req_que := DEF_REQ_QUE, mb_rsp_que := DEF_RSP_QUE, mb_req_que_id := q1, mb_rsp_que_id := q2\<rparr>\<rparr>)))"
  (is "started pid ?m")
proof -
  have tab: "tSvrTab ?m = (replicate 80 (svr_zero\<lparr>st_svrid := -1\<rparr>))[0 := (svr_zero\<lparr>st_svrid := -1\<rparr>)\<lparr>
      st_name := SD_SERVER_MGR_NAME, st_svc_name := SD_MANAGER_SVC_NAME, st_pid_tot := 1,
      st_svrid := 0, st_state := TUX_IDLE, st_msg_type := SVR_MSG_TYPE_ROOT + 0, st_timeout := -1\<rparr>]"
    and pids: "tSvrPid ?m = (replicate 800 (pid_zero\<lparr>sp_pid := -1\<rparr>))[0 := (pid_zero\<lparr>sp_pid := -1\<rparr>)\<lparr>
      sp_pid := pid, sp_svrid := 0, sp_seq := 0, sp_svrpos := 0, sp_lastStart := now, sp_req_done := 0\<rparr>]"
    and svc: "tSvcTab ?m = replicate 80 (svc_zero\<lparr>sc_flags := -1\<rparr>)"
    and n: "sdNumberOfSvr ?m = 80" "sdNumberOfPid ?m = 800"
    by (simp_all add: register_manager_def upd_pid_def upd_svr_def upd_mb_def init_mem_def sdNumberOfSvr_def
        sdNumberOfPid_def mb_zero_def)
  have "svc_ok ?m"
    unfolding svc_ok_def tabs_ok_def svc_key_def n tab pids svc by (simp add: svc_zero_def)
  moreover have "find_svrno_by_service SD_MANAGER_SVC_NAME ?m = 0"
    unfolding find_svrno_by_service_def n tab by (subst scan.simps) (simp add: strncmp_eq_def)
  moreover have "\<forall>i. 1 \<le> i \<and> i < 80 \<longrightarrow> st_svrid (tSvrTab ?m ! i) = -1"
    unfolding tab by (simp add: nth_list_update)
  moreover have "sp_pid (tSvrPid ?m ! 0) = pid \<and> (\<forall>i. 1 \<le> i \<and> i < 800 \<longrightarrow> sp_pid (tSvrPid ?m ! i) = -1)"
    unfolding pids by (simp add: nth_list_update)
  ultimately show ?thesis
    by (simp add: started_def) (simp add: register_manager_def upd_mb_def init_mem_def mb_zero_def)
qed

lemma shm_getid_frame:
  "shm_getid nm n c (s :: 's sys_scheme) = Ret (r, s') \<Longrightarrow> k_attached s' = k_attached s \<and> sd_mem s' = sd_mem s"
  by (auto simp: shm_getid_def cbind_Ret_iff shm_shmget_internal_def shmget_def
      split: option.splits if_splits prod.splits)

lemma sys_create_mem:
  assumes "sys_create nsvr npid nmsg nreq nrsp p s = Ret (0, p', s')"
  shows "\<exists>mid q1 q2 sid. ctl p' s' = Ret (register_manager (p_pid p) (sd_now s) (upd_mb (\<lambda>c. c\<lparr>mb_semid := sid\<rparr>)
     ((init_mem nsvr npid nmsg mid (p_pid p))\<lparr>mbctrl := (mbctrl (init_mem nsvr npid nmsg mid (p_pid p)))\<lparr>
        mb_req_que := nreq, mb_rsp_que := nrsp, mb_req_que_id := q1, mb_rsp_que_id := q2\<rparr>\<rparr>)))"
proof -
  obtain mem s2 old mid s3 p2 s5 sid s6 m where
    x: "ctl (p\<lparr>p_ctl := mem\<rparr>) s2 = Ret old" "shm_getid (Some SD_MEM_NAME) 0 0 s2 = Ret (mid, s3)"
    "createqueue nreq nrsp (p\<lparr>p_ctl := mem\<rparr>)
       (set_ctl (p\<lparr>p_ctl := mem\<rparr>) (init_mem nsvr npid nmsg mid (p_pid p)) s3) = Ret (0, p2, s5)"
    "sem_create (Some SD_SEM_NAME) 1 s5 = Ret (sid, s6)" "ctl p2 s6 = Ret m"
    "p' = p2" "s' = set_ctl p2 (register_manager (p_pid p) (sd_now s) (upd_mb (\<lambda>c. c\<lparr>mb_semid := sid\<rparr>) m))
       (set_ctl p2 (upd_mb (\<lambda>c. c\<lparr>mb_semid := sid\<rparr>) m) s6)"
    using assms by (fastforce simp: sys_create_def Let_def cbind_Ret_iff split: if_splits)
  have "ctl (p\<lparr>p_ctl := mem\<rparr>) s3 = Ret old"
    using x(1) shm_getid_frame [OF x(2)] ctl_frame by metis
  from ctl_set [OF this refl] createqueue_ok [OF x(3)] obtain q1 q2 where
    q: "ctl p2 s5 = Ret ((init_mem nsvr npid nmsg mid (p_pid p))\<lparr>mbctrl :=
      (mbctrl (init_mem nsvr npid nmsg mid (p_pid p)))\<lparr>mb_req_que := nreq, mb_rsp_que := nrsp,
        mb_req_que_id := q1, mb_rsp_que_id := q2\<rparr>\<rparr>)" by auto
  have "ctl p2 s6 = ctl p2 s5" using sem_create_frame [OF x(4)] by (intro ctl_frame) auto
  then have m: "m = (init_mem nsvr npid nmsg mid (p_pid p))\<lparr>mbctrl :=
      (mbctrl (init_mem nsvr npid nmsg mid (p_pid p)))\<lparr>mb_req_que := nreq, mb_rsp_que := nrsp,
        mb_req_que_id := q1, mb_rsp_que_id := q2\<rparr>\<rparr>" using x(5) q by simp
  have "ctl p' s' = Ret (register_manager (p_pid p) (sd_now s) (upd_mb (\<lambda>c. c\<lparr>mb_semid := sid\<rparr>) m))"
    unfolding x(6,7) by (rule ctl_set [OF ctl_set [OF x(5) refl] refl])
  then show ?thesis unfolding m by blast
qed

lemma sys_start_mem:
  assumes "sd_cfg s = Some (text_of ls @ te)" "\<forall>l \<in> set ls. plain_line l" "plain_line te"
    "sys_start p s = Ret (0, p', s')"
  shows "\<exists>m. ctl p' s' = Ret m \<and> started (p_pid p) m"
proof -
  obtain nsvr f1 npid f2 nmsg f3 nreq f4 nrsp f5 s1 where
    c: "cfg_num ''sd.svrnum'' 80 (cf_open (text_of ls @ te)) = Ret (nsvr, f1)"
    "cfg_num ''sd.pidnum'' 800 f1 = Ret (npid, f2)"
    "cfg_num ''sd.maxmsglen'' 4096 f2 = Ret (nmsg, f3)" "cfg_num ''sd.req_que'' DEF_REQ_QUE f3 = Ret (nreq, f4)"
    "cfg_num ''sd.rsp_que'' DEF_RSP_QUE f4 = Ret (nrsp, f5)"
    and s1: "sys_create nsvr npid nmsg nreq nrsp (p\<lparr>p_ctl := PNull\<rparr>) s1 = Ret (0, p', s')"
    using assms(1,4) by (fastforce simp: sys_start_def cbind_Ret_iff split: if_splits)
  note n = cfg_num_text [OF assms(2,3)]
  have a0: "cf_all (cf_open (text_of ls @ te)) = text_of ls @ te" by (simp add: cf_open_def)
  from n [OF _ a0 c(1)] have a1: "nsvr = 80" "cf_all f1 = text_of ls @ te" by auto
  from n [OF _ a1(2) c(2)] have a2: "npid = 800" "cf_all f2 = text_of ls @ te" by auto
  from n [OF _ a2(2) c(3)] have a3: "nmsg = 4096" "cf_all f3 = text_of ls @ te" by auto
  from n [OF _ a3(2) c(4)] have a4: "nreq = DEF_REQ_QUE" "cf_all f4 = text_of ls @ te" by auto
  from n [OF _ a4(2) c(5)] have a5: "nrsp = DEF_RSP_QUE" by auto
  show ?thesis
    using sys_create_mem [OF s1] started_init unfolding a1 a2 a3 a4 a5 by fastforce
qed

section \<open>Starting on a machine without the system\<close>

definition sd_key :: "string option \<Rightarrow> int" where
  "sd_key region = i32 (-1 + i32 (IPC_KEY_BASE * base_key region))"

lemma makekey_sd [simp]:
  "makekey region SD_MEM_NAME = Ret (sd_key region)" "makekey region SD_SEM_NAME = Ret (sd_key region)"
  by (simp_all add: makekey_long SD_MEM_NAME_def SD_SEM_NAME_def printable_def sd_key_def)

lemma i32_cong: "\<exists>q. i32 x = x + 2 ^ 32 * q"
proof -
  have "(x + 2 ^ 31) mod 2 ^ 32 = x + 2 ^ 31 - 2 ^ 32 * ((x + 2 ^ 31) div 2 ^ 32)"
    by (rule minus_mult_div_eq_mod [symmetric])
  then show ?thesis by (intro exI [of _ "- ((x + 2 ^ 31) div 2 ^ 32)"]) (simp add: i32_def)
qed

lemma sd_key_nonzero: "sd_key region \<noteq> IPC_PRIVATE"
proof
  define b where "b = base_key region"
  have b: "0 \<le> b" "b \<le> 255" by (auto simp: b_def base_key_def Let_def)
  assume "sd_key region = IPC_PRIVATE"
  moreover obtain q where "i32 (IPC_KEY_BASE * b) = IPC_KEY_BASE * b + 2 ^ 32 * q" using i32_cong by blast
  moreover obtain q' where "i32 (-1 + i32 (IPC_KEY_BASE * b)) = -1 + i32 (IPC_KEY_BASE * b) + 2 ^ 32 * q'"
    using i32_cong by blast
  ultimately have "16843009 * b - 1 + 4294967296 * (q + q') = 0"
    by (simp add: sd_key_def b_def IPC_KEY_BASE_def IPC_PRIVATE_def algebra_simps)
  then obtain r where e: "16843009 * b = 1 + 4294967296 * r" by (intro that [of "- (q + q')"]) simp
  have "r \<le> -1 \<or> r = 0 \<or> 1 \<le> r" "b \<le> 0 \<or> 1 \<le> b" by arith+
  then show False using e b by (elim disjE) linarith+
qed

text \<open>Identifiers in use are smaller than the next one, the keys of the system are unused, and there is
  room for one more segment, two queues and one semaphore.\<close>

definition vacant :: "'a kern_scheme \<Rightarrow> bool" where
  "vacant k \<longleftrightarrow> 0 \<le> k_next k \<and> k_can_attach k
     \<and> (\<forall>(ky, ix, n) \<in> set (k_shm k). ky \<noteq> sd_key (k_region k) \<and> ix < k_next k)
     \<and> (\<forall>x \<in> set (k_sem k). sm_key x \<noteq> sd_key (k_region k) \<and> sm_id x < k_next k)
     \<and> (\<forall>x \<in> set (k_msq k). q_key x \<noteq> DEF_REQ_QUE \<and> q_key x \<noteq> DEF_RSP_QUE \<and> q_id x < k_next k)
     \<and> length (k_shm k) < k_limit k \<and> length (k_sem k) < k_limit k \<and> length (k_msq k) + 1 < k_limit k"

lemma find_put_last: "(\<forall>x \<in> set xs. \<not> P x) \<Longrightarrow> find P (xs @ [y]) = (if P y then Some y else None)"
  by (induction xs) auto

lemma find_none: "(\<forall>x \<in> set xs. \<not> P x) \<Longrightarrow> find P xs = None"
  by (simp add: find_None_iff)

lemma shm_create_fresh:
  assumes "\<forall>(ky, ix, n) \<in> set (k_shm s). ky \<noteq> sd_key (k_region s)" "length (k_shm s) < k_limit s"
    "k_can_attach s" "0 \<le> k_next s" "sz \<ge> 1"
  shows "shm_create (Some SD_MEM_NAME) sz s = Ret (PSeg (k_next s),
    s\<lparr>k_shm := k_shm s @ [(sd_key (k_region s), k_next s, sz)], k_next := k_next s + 1,
      k_attached := k_next s # k_attached s\<rparr>)"
proof -
  have "find (\<lambda>(ky, ix, n). ky = sd_key (k_region s)) (k_shm s) = None"
    using assms(1) by (intro find_none) auto
  then show ?thesis
    using assms(2-5) sd_key_nonzero
    by (simp add: shm_create_def shm_getid_def shm_shmget_internal_def shmget_def shm_attach_internal_def shmat_def)
qed

lemma shm_getid_known:
  assumes "find (\<lambda>(ky, ix, n). ky = sd_key (k_region s)) (k_shm s) = Some (ky, ix, n)" "0 \<le> n" "0 \<le> ix"
  shows "shm_getid (Some SD_MEM_NAME) 0 0 s = Ret (ix, s)"
  using assms sd_key_nonzero by (simp add: shm_getid_def shm_shmget_internal_def shmget_def)

lemma shm_connect_none:
  assumes "\<forall>(ky, ix, n) \<in> set (k_shm s). ky \<noteq> sd_key (k_region s)"
  shows "shm_connect (Some SD_MEM_NAME) s = Ret (PNull, s)"
proof -
  have "find (\<lambda>(ky, ix, n). ky = sd_key (k_region s)) (k_shm s) = None"
    using assms by (intro find_none) auto
  then show ?thesis
    using sd_key_nonzero by (simp add: shm_connect_def shm_getid_def shm_shmget_internal_def shmget_def)
qed

lemma MsqCreate_fresh:
  assumes "\<forall>x \<in> set (k_msq s). q_key x \<noteq> key" "key \<noteq> IPC_PRIVATE" "length (k_msq s) < k_limit s"
  shows "MsqCreate key s = (k_next s, s\<lparr>k_msq := k_msq s @ [\<lparr>q_key = key, q_id = k_next s, q_msgs = [],
     q_qbytes = MSGMNB\<rparr>], k_next := k_next s + 1\<rparr>)"
  using assms by (simp add: MsqCreate_def msgget_def find_none)

lemma sem_create_fresh:
  assumes "\<forall>x \<in> set (k_sem s). sm_key x \<noteq> sd_key (k_region s) \<and> sm_id x < k_next s" "0 \<le> k_next s"
    "length (k_sem s) < k_limit s"
  shows "sem_create (Some SD_SEM_NAME) 1 s = Ret (k_next s, s\<lparr>k_sem := k_sem s @ [\<lparr>sm_key = sd_key (k_region s),
     sm_id = k_next s, sm_vals = [1], sm_adj = (\<lambda>p i. 0)\<rparr>], k_next := k_next s + 1\<rparr>)"
proof -
  have a: "find (\<lambda>x. sm_key x = sd_key (k_region s)) (k_sem s) = None"
    using assms(1) by (intro find_none) auto
  have b: "map (\<lambda>t. if sm_id t = k_next s then f t else t) (k_sem s) = k_sem s" for f
    using assms(1) by (intro map_idI) auto
  have "\<forall>x \<in> set (k_sem s). sm_id x \<noteq> k_next s" using assms(1) by auto
  then show ?thesis
    using assms(2,3) a b sd_key_nonzero
    by (simp add: sem_create_def sem_getid_def sem_semget_internal_def semget_def sem_attach_internal_def
        semctl_setval_def find_put_last fun_upd_idem)
qed

definition run_state :: "int \<Rightarrow> 's sys_scheme \<Rightarrow> sdmem \<Rightarrow> 's sys_scheme" where
  "run_state sz s m = (let K = sd_key (k_region s); n = k_next s in
     s\<lparr>k_shm := k_shm s @ [(K, n, sz)], k_attached := n # k_attached s,
       k_msq := k_msq s @ [\<lparr>q_key = DEF_REQ_QUE, q_id = n + 1, q_msgs = [], q_qbytes = MSGMNB\<rparr>,
         \<lparr>q_key = DEF_RSP_QUE, q_id = n + 2, q_msgs = [], q_qbytes = MSGMNB\<rparr>],
       k_sem := k_sem s @ [\<lparr>sm_key = K, sm_id = n + 3, sm_vals = [1], sm_adj = (\<lambda>p i. 0)\<rparr>],
       k_next := n + 4, sd_mem := (sd_mem s)(n := m)\<rparr>)"

lemma sys_create_vacant:
  assumes v: "vacant s" and sz: "count_memory_size nsvr npid \<ge> 1"
  shows "\<exists>m. sys_create nsvr npid nmsg DEF_REQ_QUE DEF_RSP_QUE p s =
      Ret (0, p\<lparr>p_ctl := PSeg (k_next s)\<rparr>, run_state (count_memory_size nsvr npid) s m)
    \<and> mb_req_que_id (mbctrl m) = k_next s + 1 \<and> mb_rsp_que_id (mbctrl m) = k_next s + 2
    \<and> mb_main_pid (mbctrl m) = p_pid p"
proof -
  let ?n = "k_next s" and ?K = "sd_key (k_region s)" and ?p = "p\<lparr>p_ctl := PSeg (k_next s)\<rparr>"
  let ?z = "count_memory_size nsvr npid"
  define s2 where "s2 = s\<lparr>k_shm := k_shm s @ [(?K, ?n, ?z)], k_next := ?n + 1,
    k_attached := ?n # k_attached s\<rparr>"
  have c: "shm_create (Some SD_MEM_NAME) ?z s = Ret (PSeg ?n, s2)"
    unfolding s2_def using v sz by (intro shm_create_fresh) (auto simp: vacant_def)
  have "find (\<lambda>(ky, ix, n). ky = sd_key (k_region s2)) (k_shm s2) = Some (?K, ?n, ?z)"
    unfolding s2_def using v by (simp, subst find_put_last) (auto simp: vacant_def)
  then have g: "shm_getid (Some SD_MEM_NAME) 0 0 s2 = Ret (?n, s2)"
    using v sz by (intro shm_getid_known) (auto simp: vacant_def)
  have ct: "ctl ?p s2 = Ret (sd_mem s ?n)" by (simp add: ctl_def s2_def)
  define m0 where "m0 = init_mem nsvr npid nmsg ?n (p_pid p)"
  define s3 where "s3 = s2\<lparr>k_msq := k_msq s @ [\<lparr>q_key = DEF_REQ_QUE, q_id = ?n + 1, q_msgs = [], q_qbytes = MSGMNB\<rparr>],
    k_next := ?n + 2, sd_mem := (sd_mem s)(?n := m0)\<rparr>"
  define s4 where "s4 = s3\<lparr>k_msq := k_msq s3 @ [\<lparr>q_key = DEF_RSP_QUE, q_id = ?n + 2, q_msgs = [], q_qbytes = MSGMNB\<rparr>],
    k_next := ?n + 3\<rparr>"
  have q1: "MsqCreate DEF_REQ_QUE (s2\<lparr>sd_mem := (sd_mem s)(?n := m0)\<rparr>) = (?n + 1, s3)"
    using v by (subst MsqCreate_fresh)
      (auto simp: vacant_def s2_def s3_def DEF_REQ_QUE_def IPC_PRIVATE_def)
  have q2: "MsqCreate DEF_RSP_QUE s3 = (?n + 2, s4)"
    using v by (subst MsqCreate_fresh)
      (auto simp: vacant_def s2_def s3_def s4_def DEF_REQ_QUE_def DEF_RSP_QUE_def IPC_PRIVATE_def)
  define m1 where "m1 = m0\<lparr>mbctrl := (mbctrl m0)\<lparr>mb_req_que := DEF_REQ_QUE, mb_rsp_que := DEF_RSP_QUE,
    mb_req_que_id := ?n + 1, mb_rsp_que_id := ?n + 2\<rparr>\<rparr>"
  have sc: "set_ctl ?p m0 s2 = s2\<lparr>sd_mem := (sd_mem s)(?n := m0)\<rparr>" "sd_mem s4 = (sd_mem s)(?n := m0)"
    by (simp_all add: set_ctl_def s2_def s3_def s4_def)
  have "ctl ?p (s2\<lparr>sd_mem := (sd_mem s)(?n := m0)\<rparr>) = Ret m0"
    using ctl_set [OF ct refl, of m0] sc by simp
  then have cq: "createqueue DEF_REQ_QUE DEF_RSP_QUE ?p (set_ctl ?p m0 s2)
      = Ret (0, ?p, s4\<lparr>sd_mem := (sd_mem s)(?n := m1)\<rparr>)"
    using v q1 q2 sc by (simp add: createqueue_def Let_def upd_mb_def m1_def vacant_def)
      (simp add: set_ctl_def)
  have sm: "sem_create (Some SD_SEM_NAME) 1 (s4\<lparr>sd_mem := (sd_mem s)(?n := m1)\<rparr>) = Ret (?n + 3,
      s4\<lparr>sd_mem := (sd_mem s)(?n := m1), k_sem := k_sem s @ [\<lparr>sm_key = ?K, sm_id = ?n + 3, sm_vals = [1],
        sm_adj = (\<lambda>p i. 0)\<rparr>], k_next := ?n + 4\<rparr>)"
    using v by (subst sem_create_fresh) (auto simp: vacant_def s2_def s3_def s4_def)
  define m2 where "m2 = register_manager (p_pid p) (sd_now s) (upd_mb (\<lambda>c. c\<lparr>mb_semid := ?n + 3\<rparr>) m1)"
  have "sys_create nsvr npid nmsg DEF_REQ_QUE DEF_RSP_QUE p s = Ret (0, ?p, run_state ?z s m2)"
    using v c g ct cq sm
    by (simp add: sys_create_def Let_def m0_def [symmetric] vacant_def)
      (simp add: ctl_def s2_def s3_def s4_def run_state_def Let_def set_ctl_def m2_def)
  moreover have "mbctrl m2 = (mbctrl m1)\<lparr>mb_semid := ?n + 3\<rparr>"
    by (simp add: m2_def register_manager_def upd_mb_def)
  ultimately show ?thesis
    by (intro exI [of _ m2]) (simp add: m1_def m0_def init_mem_def)
qed

text \<open>No numeric setting is longer than the buffer of \<open>cf_locatenum\<close>.\<close>

definition cfg_fits :: "string \<Rightarrow> bool" where
  "cfg_fits txt \<longleftrightarrow> (\<forall>pn \<in> set [''sd.svrnum'', ''sd.pidnum'', ''sd.maxmsglen'', ''sd.req_que'', ''sd.rsp_que''].
     returns (cf_locatenum pn (cf_open txt)))"

lemma cfg_num_default:
  assumes "\<forall>l \<in> set ls. plain_line l" "plain_line te" "NL \<notin> set pn" "cf_all f = text_of ls @ te"
    "returns (cf_locatenum pn (cf_open (text_of ls @ te)))"
  shows "\<exists>f'. cfg_num pn d f = Ret (d, f') \<and> cf_all f' = text_of ls @ te"
proof -
  have "cf_locatenum pn f = cf_locatenum pn (cf_open (text_of ls @ te))"
    using assms(4) by (intro locatenum_all) (simp add: cf_open_def)
  then show ?thesis
    using locatenum_text [OF assms(1-4)] assms(4,5) by (auto simp: cfg_num_def)
qed

lemma sys_start_vacant:
  assumes "vacant s" "sd_cfg s = Some (text_of ls @ te)" "\<forall>l \<in> set ls. plain_line l" "plain_line te"
    "cfg_fits (text_of ls @ te)"
  shows "sys_start p s = sys_create 80 800 4096 DEF_REQ_QUE DEF_RSP_QUE (p\<lparr>p_ctl := PNull\<rparr>) s"
proof -
  note n = cfg_num_default [OF assms(3,4)]
  have a0: "cf_all (cf_open (text_of ls @ te)) = text_of ls @ te" by (simp add: cf_open_def)
  obtain f1 where f1: "cfg_num ''sd.svrnum'' 80 (cf_open (text_of ls @ te)) = Ret (80, f1)" "cf_all f1 = text_of ls @ te"
    using n [OF _ a0, of "''sd.svrnum''" 80] assms(5) by (auto simp: cfg_fits_def)
  obtain f2 where f2: "cfg_num ''sd.pidnum'' 800 f1 = Ret (800, f2)" "cf_all f2 = text_of ls @ te"
    using n [OF _ f1(2), of "''sd.pidnum''" 800] assms(5) by (auto simp: cfg_fits_def)
  obtain f3 where f3: "cfg_num ''sd.maxmsglen'' 4096 f2 = Ret (4096, f3)" "cf_all f3 = text_of ls @ te"
    using n [OF _ f2(2), of "''sd.maxmsglen''" 4096] assms(5) by (auto simp: cfg_fits_def)
  obtain f4 where f4: "cfg_num ''sd.req_que'' DEF_REQ_QUE f3 = Ret (DEF_REQ_QUE, f4)" "cf_all f4 = text_of ls @ te"
    using n [OF _ f3(2), of "''sd.req_que''" DEF_REQ_QUE] assms(5) by (auto simp: cfg_fits_def)
  obtain f5 where f5: "cfg_num ''sd.rsp_que'' DEF_RSP_QUE f4 = Ret (DEF_RSP_QUE, f5)"
    using n [OF _ f4(2), of "''sd.rsp_que''" DEF_RSP_QUE] assms(5) by (auto simp: cfg_fits_def)
  have "shm_connect (Some SD_MEM_NAME) s = Ret (PNull, s)"
    using assms(1) by (intro shm_connect_none) (auto simp: vacant_def)
  then show ?thesis
    using f1(1) f2(1) f3(1) f4(1) f5 assms(2) by (simp add: sys_start_def)
qed

lemma filter_snoc_out: "(\<forall>x \<in> set xs. P x) \<Longrightarrow> \<not> P y \<Longrightarrow> filter P (xs @ [y]) = xs"
  by simp

lemma msq_at_mem: "q \<in> set (k_msq k) \<Longrightarrow> q_id q = i \<Longrightarrow> msq_at i k \<noteq> None"
  by (auto simp: msq_at_def find_None_iff)

lemma ipc_remove_run:
  assumes v: "vacant s" and m: "mb_req_que_id (mbctrl m) = k_next s + 1"
    "mb_rsp_que_id (mbctrl m) = k_next s + 2" and pid: "mb_main_pid (mbctrl m) > 0"
    and p: "p_ctl p = PSeg (k_next s)" and z: "z \<ge> 1"
  shows "\<exists>s'. ipc_remove p (run_state z s m) = Ret (0, s') \<and> k_shm s' = k_shm s \<and> k_sem s' = k_sem s
    \<and> k_msq s' = k_msq s \<and> k_attached s' = k_attached s
    \<and> sd_signals s' = sd_signals s @ [(mb_main_pid (mbctrl m), SIGTERM)]"
proof -
  let ?n = "k_next s" and ?K = "sd_key (k_region s)"
  let ?q2 = "\<lparr>q_key = DEF_RSP_QUE, q_id = ?n + 2, q_msgs = [], q_qbytes = MSGMNB\<rparr>"
  define s0 where "s0 = kill (mb_main_pid (mbctrl m)) SIGTERM (run_state z s m)"
  have ct: "ctl p (run_state z s m) = Ret m" "ctl p s0 = Ret m"
    by (simp_all add: ctl_def p run_state_def Let_def s0_def kill_def)
  have st: "stop_system p (run_state z s m) = Ret (0, s0)"
    using pid p by (simp add: stop_system_def ct sdIsAttach_def s0_def Let_def)
  have i: "\<forall>x \<in> set (k_msq s). q_id x \<noteq> ?n + 1 \<and> q_id x \<noteq> ?n + 2" using v by (auto simp: vacant_def)
  define s1 where "s1 = s0\<lparr>k_msq := k_msq s @ [?q2]\<rparr>"
  let ?q1 = "\<lparr>q_key = DEF_REQ_QUE, q_id = ?n + 1, q_msgs = [], q_qbytes = MSGMNB\<rparr>"
  have k0: "k_msq s0 = k_msq s @ [?q1, ?q2]" by (simp add: s0_def kill_def run_state_def Let_def)
  have f: "filter (\<lambda>q. q_id q \<noteq> ?n + 1) (k_msq s) = k_msq s" "filter (\<lambda>q. q_id q \<noteq> ?n + 2) (k_msq s) = k_msq s"
    using i by (simp_all add: filter_id_conv)
  have "msq_at (?n + 1) s0 \<noteq> None"
    by (rule msq_at_mem [of ?q1]) (simp_all add: k0)
  then have c1: "MsqClose (?n + 1) s0 = (0, s1)"
    by (simp add: MsqClose_def k0 f s1_def)
  have "msq_at (?n + 2) s1 \<noteq> None"
    by (rule msq_at_mem [of ?q2]) (simp_all add: s1_def)
  then have c2: "MsqClose (?n + 2) s1 = (0, s1\<lparr>k_msq := k_msq s\<rparr>)"
    by (simp add: MsqClose_def f s1_def)
  have qr: "que_remove p s0 = Ret (0, s1\<lparr>k_msq := k_msq s\<rparr>)"
    using ct(2) c1 c2 m by (simp add: que_remove_def)
  define s2 where "s2 = s1\<lparr>k_msq := k_msq s\<rparr>"
  define s3 where "s3 = s2\<lparr>k_sem := k_sem s\<rparr>"
  let ?sem = "\<lparr>sm_key = ?K, sm_id = ?n + 3, sm_vals = [1], sm_adj = (\<lambda>p i. 0)\<rparr>"
  have k2: "k_sem s2 = k_sem s @ [?sem]" "k_region s2 = k_region s" "k_shm s2 = k_shm s @ [(?K, ?n, z)]"
    "k_attached s2 = ?n # k_attached s"
    by (simp_all add: s2_def s1_def s0_def kill_def run_state_def Let_def)
  have "find (\<lambda>x. sm_key x = ?K) (k_sem s @ [?sem]) = Some ?sem"
    using v by (subst find_put_last) (auto simp: vacant_def)
  then have sg: "sem_getid (Some SD_SEM_NAME) 1 0 s2 = Ret (?n + 3, s2)"
    using sd_key_nonzero v by (simp add: sem_getid_def sem_semget_internal_def semget_def k2 vacant_def)
  have "filter (\<lambda>x. sm_id x \<noteq> ?n + 3) (k_sem s @ [?sem]) = k_sem s"
    using v by (intro filter_snoc_out) (auto simp: vacant_def)
  then have sd: "sem_delete (Some SD_SEM_NAME) 1 s2 = Ret (0, s3)"
    using sg v by (simp add: sem_delete_def sem_delete_internal_def k2 vacant_def s3_def)
  define s4 where "s4 = s3\<lparr>k_attached := k_attached s\<rparr>"
  have k4: "k_shm s4 = k_shm s @ [(?K, ?n, z)]" "k_region s4 = k_region s"
    using k2 by (simp_all add: s4_def s3_def)
  have "find (\<lambda>(ky, ix, n). ky = ?K) (k_shm s @ [(?K, ?n, z)]) = Some (?K, ?n, z)"
    using v by (subst find_put_last) (auto simp: vacant_def)
  then have g: "shm_getid (Some SD_MEM_NAME) 0 0 s4 = Ret (?n, s4)"
    using v z k4 by (intro shm_getid_known) (auto simp: vacant_def)
  have "filter (\<lambda>(ky, ix, sz). ix \<noteq> ?n) (k_shm s @ [(?K, ?n, z)]) = k_shm s"
    using v by (intro filter_snoc_out) (auto simp: vacant_def)
  then have "shm_delete (Some SD_MEM_NAME) (p_ctl p) s3 = Ret (0, s4\<lparr>k_shm := k_shm s\<rparr>)"
    using g v p k2 k4 by (simp add: shm_delete_def shm_delete_internal_def s3_def s4_def vacant_def)
  then have "ipc_remove p (run_state z s m) = Ret (0, s4\<lparr>k_shm := k_shm s\<rparr>)"
    using st qr sd by (simp add: ipc_remove_def s2_def)
  then show ?thesis
    by (simp add: s4_def s3_def s2_def s1_def s0_def kill_def run_state_def Let_def)
qed

section \<open>Properties\<close>

text \<open>Whatever the configuration file says, a successful \<open>sys_start\<close> builds the system with its
  built-in sizes: 80 servers, 800 processes, messages of 4096 bytes and the default queues; the tables are
  well formed, entry 0 is the task manager, and all other entries are free.\<close>

theorem sys_start_uses_defaults:
  assumes "sd_cfg s = Some (text_of ls @ te)" "\<forall>l \<in> set ls. plain_line l" "plain_line te"
    and "sys_start p s = Ret (0, p', s')"
  shows "\<exists>m. ctl p' s' = Ret m \<and> started (p_pid p) m"
  using assms by (rule sys_start_mem)

definition sys0 :: "string option \<Rightarrow> sys" where
  "sys0 cfg = kern.extend kern0 (sys.fields (\<lambda>i. sdmem2) cfg 1000 [])"

lemma sys0_vacant: "vacant (sys0 cfg)"
  by (simp add: vacant_def sys0_def kern0_def kern.defs sys.defs)

definition proc0 :: proc where
  "proc0 = \<lparr>p_pid = 77, p_ctl = PNull, p_errno = 0\<rparr>"

theorem sys_start_uses_defaults_witness:
  "\<exists>p' s' m. sys_start proc0 (sys0 (Some (text_of [''sd.svrnum 5''] @ []))) = Ret (0, p', s')
     \<and> ctl p' s' = Ret m \<and> started 77 m"
proof -
  let ?s = "sys0 (Some (text_of [''sd.svrnum 5''] @ []))"
  have c: "sd_cfg ?s = Some (text_of [''sd.svrnum 5''] @ [])" by (simp add: sys0_def kern.defs sys.defs)
  have l: "\<forall>l \<in> set [''sd.svrnum 5'']. plain_line l" "plain_line []" by (simp_all add: plain_line_def)
  have "cfg_fits (text_of [''sd.svrnum 5''] @ [])" by code_simp
  then obtain p' s' where r: "sys_start proc0 ?s = Ret (0, p', s')"
    using sys_start_vacant [OF sys0_vacant c l, of proc0]
      sys_create_vacant [OF sys0_vacant, where nsvr = 80 and npid = 800 and nmsg = 4096
        and p = "proc0\<lparr>p_ctl := PNull\<rparr>"]
    by (fastforce simp: count_memory_size_def)
  from sys_start_uses_defaults [OF c l r] r show ?thesis by (auto simp: proc0_def)
qed

text \<open>On a machine where the system's keys are unused and the limits leave room, starting
  succeeds, and \<open>ipc_remove\<close> afterwards removes exactly what \<open>sys_start\<close> created: the segments,
  semaphores and queues are those from before, and the task manager got one SIGTERM.\<close>

theorem start_then_remove:
  assumes "vacant s" "sd_cfg s = Some (text_of ls @ te)" "\<forall>l \<in> set ls. plain_line l" "plain_line te"
    and "cfg_fits (text_of ls @ te)" "p_pid p > 0"
  shows "\<exists>p1 s1 s2. sys_start p s = Ret (0, p1, s1) \<and> ipc_remove p1 s1 = Ret (0, s2)
    \<and> k_shm s2 = k_shm s \<and> k_sem s2 = k_sem s \<and> k_msq s2 = k_msq s \<and> k_attached s2 = k_attached s
    \<and> sd_signals s2 = sd_signals s @ [(p_pid p, SIGTERM)]"
proof -
  have z: "count_memory_size 80 800 \<ge> 1" by (simp add: count_memory_size_def)
  obtain m where m: "sys_start p s = Ret (0, p\<lparr>p_ctl := PSeg (k_next s)\<rparr>, run_state (count_memory_size 80 800) s m)"
    "mb_req_que_id (mbctrl m) = k_next s + 1" "mb_rsp_que_id (mbctrl m) = k_next s + 2"
    "mb_main_pid (mbctrl m) = p_pid p"
    using sys_create_vacant [OF assms(1) z, of 4096 "p\<lparr>p_ctl := PNull\<rparr>"] sys_start_vacant [OF assms(1-5), of p] by auto
  show ?thesis
    using ipc_remove_run [OF assms(1) m(2,3), of "p\<lparr>p_ctl := PSeg (k_next s)\<rparr>" "count_memory_size 80 800"]
      m assms(6) z by auto
qed

theorem start_then_remove_witness:
  "\<exists>p1 s1 s2. sys_start proc0 (sys0 (Some (text_of [] @ []))) = Ret (0, p1, s1) \<and> ipc_remove p1 s1 = Ret (0, s2)
     \<and> k_shm s2 = [] \<and> sd_signals s2 = [(77, SIGTERM)]"
proof -
  have "sd_cfg (sys0 (Some (text_of [] @ []))) = Some (text_of [] @ [])" "k_shm (sys0 c) = []"
    "sd_signals (sys0 c) = []" "p_pid proc0 = 77" for c
    by (simp_all add: sys0_def kern0_def proc0_def kern.defs sys.defs)
  moreover have "cfg_fits (text_of [] @ [])" by code_simp
  ultimately show ?thesis
    using start_then_remove [OF sys0_vacant, of "Some (text_of [] @ [])" "[]" "[]" proc0]
    by (auto simp: plain_line_def)
qed

end
