(* ===== verification/MsgHead.thy ===== *)
theory MsgHead
  imports CString
begin

text \<open>
  The structures that travel as bytes: \<open>IPCMsgHead\<close> (\<open>src/dev/include/funmsq.h\<close>, 96 bytes) in front of
  every request and reply in the message queues, \<open>sunda_req_head_t\<close> (\<open>sunda.h\<close>, 40 bytes) in front of
  every message on a socket, and \<open>tskcmd_t\<close> (\<open>task.h\<close>, 12 bytes), the command to the task manager. They
  are copied with \<open>memcpy\<close>; the codecs below are the memory layout on a 64-bit little-endian machine,
  padding included.

  The locale \<open>codec\<close> is what the senders and receivers rely on.
\<close>

section \<open>Integers in memory\<close>

fun le_bytes :: "nat \<Rightarrow> int \<Rightarrow> string" where
  "le_bytes 0 x = []"
| "le_bytes (Suc n) x = char_of (nat (x mod 256)) # le_bytes n (x div 256)"

fun le_uint :: "string \<Rightarrow> int" where
  "le_uint [] = 0"
| "le_uint (c # cs) = int (of_char c) + 256 * le_uint cs"

definition le_sint :: "string \<Rightarrow> int" where
  "le_sint m = (let v = le_uint m in if 2 * v \<ge> 256 ^ length m then v - 256 ^ length m else v)"

definition field :: "nat \<Rightarrow> nat \<Rightarrow> string \<Rightarrow> string" where
  "field off n m = take n (drop off m)"

definition pad :: "nat \<Rightarrow> string" where
  "pad n = replicate n NUL"

lemma le_bytes_length [simp]: "length (le_bytes n x) = n"
  by (induction n arbitrary: x) auto

lemma pad_length [simp]: "length (pad n) = n"
  by (simp add: pad_def)

lemma le_uint_bytes: "le_uint (le_bytes n x) = x mod 256 ^ n"
proof (induction n arbitrary: x)
  case (Suc n)
  have "int (of_char (char_of (nat (x mod 256)) :: char)) = x mod 256"
    by (simp add: of_char_of nat_mod_distrib)
  moreover have "x mod 256 + 256 * (x div 256 mod 256 ^ n) = x mod (256 * 256 ^ n)"
    by (simp add: zmod_zmult2_eq)
  ultimately show ?case using Suc by simp
qed simp

lemma le_uint_id: "0 \<le> x \<Longrightarrow> x < 256 ^ n \<Longrightarrow> le_uint (le_bytes n x) = x"
  by (simp add: le_uint_bytes)

lemma le_sint_id:
  assumes "- (256 ^ n) \<le> 2 * x" "2 * x < 256 ^ n"
  shows "le_sint (le_bytes n x) = x"
proof (cases "0 \<le> x")
  case True
  then have "x mod 256 ^ n = x" using assms by simp
  then show ?thesis using assms by (simp add: le_sint_def le_uint_bytes)
next
  case False
  have "(x + 256 ^ n) mod 256 ^ n = x + 256 ^ n"
    using assms False by (intro mod_pos_pos_trivial) auto
  then have "x mod 256 ^ n = x + 256 ^ n" by simp
  then show ?thesis using assms by (simp add: le_sint_def le_uint_bytes)
qed

definition is_u32 :: "int \<Rightarrow> bool" where "is_u32 x \<longleftrightarrow> 0 \<le> x \<and> x < 2 ^ 32"
definition is_i64 :: "int \<Rightarrow> bool" where "is_i64 x \<longleftrightarrow> - (2 ^ 63) \<le> x \<and> x < 2 ^ 63"

lemma le_rt:
  "is_u32 x \<Longrightarrow> le_uint (le_bytes 4 x) = x"
  "in_i32 x \<Longrightarrow> le_sint (le_bytes 4 x) = x"
  "is_i64 x \<Longrightarrow> le_sint (le_bytes 8 x) = x"
  by (simp_all add: is_u32_def in_i32_def is_i64_def le_uint_id le_sint_id)

lemma field_here: "length a = off \<Longrightarrow> length b = n \<Longrightarrow> field off n (a @ b @ c) = b"
  by (simp add: field_def)

section \<open>The codec contract\<close>

locale codec =
  fixes enc :: "'a \<Rightarrow> string"
    and dec :: "string \<Rightarrow> 'a"
    and ok :: "'a \<Rightarrow> bool"
    and width :: nat
  assumes enc_width: "ok x \<Longrightarrow> length (enc x) = width"
    and dec_enc: "ok x \<Longrightarrow> dec (enc x @ r) = x"
begin

lemma frame: "ok x \<Longrightarrow> dec (enc x @ p) = x \<and> drop width (enc x @ p) = p \<and> length (enc x @ p) = width + length p"
  by (simp add: dec_enc enc_width)

lemma enc_inj: "ok x \<Longrightarrow> ok y \<Longrightarrow> enc x @ p = enc y @ q \<Longrightarrow> x = y \<and> p = q"
  by (metis frame)

lemma dec_exact: "ok x \<Longrightarrow> dec (enc x) = x"
  using dec_enc [of x "[]"] by simp

end

section \<open>The structures\<close>

record IPCMsgHead =
  ih_name :: string
  ih_ssn :: int
  ih_conn_ssn :: int
  ih_req_msg_type :: int
  ih_fd :: int
  ih_utime :: int
  ih_reply_flag :: int
  ih_note_msg_type :: int
  ih_len :: int

definition HEAD_LEN :: nat where "HEAD_LEN = 96"

definition head_zero :: IPCMsgHead where
  "head_zero = \<lparr>ih_name = pad 33, ih_ssn = 0, ih_conn_ssn = 0, ih_req_msg_type = 0, ih_fd = 0,
     ih_utime = 0, ih_reply_flag = 0, ih_note_msg_type = 0, ih_len = 0\<rparr>"

definition enc_head :: "IPCMsgHead \<Rightarrow> string" where
  "enc_head h = ih_name h @ pad 3 @ le_bytes 4 (ih_ssn h) @ le_bytes 4 (ih_conn_ssn h) @ pad 4
     @ le_bytes 8 (ih_req_msg_type h) @ le_bytes 4 (ih_fd h) @ pad 4 @ le_bytes 8 (ih_utime h)
     @ le_bytes 4 (ih_reply_flag h) @ pad 4 @ le_bytes 8 (ih_note_msg_type h) @ le_bytes 8 (ih_len h)"

definition dec_head :: "string \<Rightarrow> IPCMsgHead" where
  "dec_head m = \<lparr>ih_name = field 0 33 m, ih_ssn = le_uint (field 36 4 m),
     ih_conn_ssn = le_uint (field 40 4 m), ih_req_msg_type = le_sint (field 48 8 m),
     ih_fd = le_sint (field 56 4 m), ih_utime = le_sint (field 64 8 m),
     ih_reply_flag = le_sint (field 72 4 m), ih_note_msg_type = le_sint (field 80 8 m),
     ih_len = le_sint (field 88 8 m)\<rparr>"

definition head_ok :: "IPCMsgHead \<Rightarrow> bool" where
  "head_ok h \<longleftrightarrow> length (ih_name h) = 33 \<and> is_u32 (ih_ssn h) \<and> is_u32 (ih_conn_ssn h)
     \<and> is_i64 (ih_req_msg_type h) \<and> in_i32 (ih_fd h) \<and> is_i64 (ih_utime h) \<and> in_i32 (ih_reply_flag h)
     \<and> is_i64 (ih_note_msg_type h) \<and> is_i64 (ih_len h)"

record sunda_req_head_t =
  rh_name :: string
  rh_ssn :: int
  rh_err_no :: int

definition REQ_HEAD_LEN :: nat where "REQ_HEAD_LEN = 40"

definition enc_req_head :: "sunda_req_head_t \<Rightarrow> string" where
  "enc_req_head h = rh_name h @ le_bytes 4 (rh_ssn h) @ le_bytes 4 (rh_err_no h)"

definition dec_req_head :: "string \<Rightarrow> sunda_req_head_t" where
  "dec_req_head m = \<lparr>rh_name = field 0 32 m, rh_ssn = le_uint (field 32 4 m),
     rh_err_no = le_sint (field 36 4 m)\<rparr>"

definition req_head_ok :: "sunda_req_head_t \<Rightarrow> bool" where
  "req_head_ok h \<longleftrightarrow> length (rh_name h) = 32 \<and> is_u32 (rh_ssn h) \<and> in_i32 (rh_err_no h)"

record tskcmd_t =
  tc_cmd :: int
  tc_id :: int
  tc_err :: int

definition TSKCMD_LEN :: nat where "TSKCMD_LEN = 12"

definition enc_tskcmd :: "tskcmd_t \<Rightarrow> string" where
  "enc_tskcmd c = le_bytes 4 (tc_cmd c) @ le_bytes 4 (tc_id c) @ le_bytes 4 (tc_err c)"

definition dec_tskcmd :: "string \<Rightarrow> tskcmd_t" where
  "dec_tskcmd m = \<lparr>tc_cmd = le_sint (field 0 4 m), tc_id = le_sint (field 4 4 m),
     tc_err = le_sint (field 8 4 m)\<rparr>"

definition tskcmd_ok :: "tskcmd_t \<Rightarrow> bool" where
  "tskcmd_ok c \<longleftrightarrow> in_i32 (tc_cmd c) \<and> in_i32 (tc_id c) \<and> in_i32 (tc_err c)"

lemma enc_head_length [simp]: "length (ih_name h) = 33 \<Longrightarrow> length (enc_head h) = 96"
  by (simp add: enc_head_def)

interpretation ipc: codec enc_head dec_head head_ok HEAD_LEN
proof
  fix h :: IPCMsgHead and r :: string
  assume ok: "head_ok h"
  then show "length (enc_head h) = HEAD_LEN" by (simp add: head_ok_def HEAD_LEN_def)
  let ?m = "enc_head h @ r"
  have l: "length (ih_name h) = 33" using ok by (simp add: head_ok_def)
  have "field 0 33 ?m = ih_name h" "field 36 4 ?m = le_bytes 4 (ih_ssn h)"
    "field 40 4 ?m = le_bytes 4 (ih_conn_ssn h)" "field 48 8 ?m = le_bytes 8 (ih_req_msg_type h)"
    "field 56 4 ?m = le_bytes 4 (ih_fd h)" "field 64 8 ?m = le_bytes 8 (ih_utime h)"
    "field 72 4 ?m = le_bytes 4 (ih_reply_flag h)" "field 80 8 ?m = le_bytes 8 (ih_note_msg_type h)"
    "field 88 8 ?m = le_bytes 8 (ih_len h)"
    by (simp_all add: field_def enc_head_def l)
  then show "dec_head ?m = h"
    using ok by (simp add: dec_head_def head_ok_def le_rt)
qed

interpretation req: codec enc_req_head dec_req_head req_head_ok REQ_HEAD_LEN
proof
  fix h :: sunda_req_head_t and r :: string
  assume ok: "req_head_ok h"
  then show "length (enc_req_head h) = REQ_HEAD_LEN"
    by (simp add: req_head_ok_def REQ_HEAD_LEN_def enc_req_head_def)
  have "field 0 32 (enc_req_head h @ r) = rh_name h" "field 32 4 (enc_req_head h @ r) = le_bytes 4 (rh_ssn h)"
    "field 36 4 (enc_req_head h @ r) = le_bytes 4 (rh_err_no h)"
    using ok by (simp_all add: field_def enc_req_head_def req_head_ok_def)
  then show "dec_req_head (enc_req_head h @ r) = h"
    using ok by (simp add: dec_req_head_def req_head_ok_def le_rt)
qed

interpretation tsk: codec enc_tskcmd dec_tskcmd tskcmd_ok TSKCMD_LEN
proof
  fix c :: tskcmd_t and r :: string
  assume ok: "tskcmd_ok c"
  show "length (enc_tskcmd c) = TSKCMD_LEN" by (simp add: TSKCMD_LEN_def enc_tskcmd_def)
  have "field 0 4 (enc_tskcmd c @ r) = le_bytes 4 (tc_cmd c)" "field 4 4 (enc_tskcmd c @ r) = le_bytes 4 (tc_id c)"
    "field 8 4 (enc_tskcmd c @ r) = le_bytes 4 (tc_err c)"
    by (simp_all add: field_def enc_tskcmd_def)
  then show "dec_tskcmd (enc_tskcmd c @ r) = c"
    using ok by (simp add: dec_tskcmd_def tskcmd_ok_def le_rt)
qed

section \<open>Properties\<close>

text \<open>A request frame (header, then payload) is read back as it was written: decoding the
  96 header bytes gives the header, what follows is the payload, and two frames with equal bytes have
  equal headers and payloads.\<close>

theorem request_frame_roundtrip:
  assumes "head_ok h"
  shows "dec_head (enc_head h @ p) = h \<and> drop HEAD_LEN (enc_head h @ p) = p
    \<and> (\<forall>h' p'. head_ok h' \<and> enc_head h @ p = enc_head h' @ p' \<longrightarrow> h = h' \<and> p = p')"
  using ipc.frame [OF assms] ipc.enc_inj [OF assms] by blast

theorem request_frame_roundtrip_witness:
  "dec_head (enc_head (head_zero\<lparr>ih_fd := -1, ih_len := 3\<rparr>) @ ''abc'') = head_zero\<lparr>ih_fd := -1, ih_len := 3\<rparr>"
  using request_frame_roundtrip [of "head_zero\<lparr>ih_fd := -1, ih_len := 3\<rparr>" "''abc''"]
  by (simp add: head_ok_def head_zero_def is_u32_def is_i64_def in_i32_def)

end
