(* ===== verification/TuxCall.thy ===== *)
theory TuxCall
  imports SdSystem MsgHead
begin

text \<open>
  Calls, replies and the dispatcher (\<open>src/dev/src/pubfun/tux/tuxmgr.c\<close>): \<open>tux_return\<close>,
  \<open>tux_acall\<close>, \<open>tux_getreply\<close>, \<open>tux_call\<close>, \<open>tux_forward\<close>, \<open>tux_service\<close> and
  \<open>clean_task_msg\<close>.

  \<open>tst\<close> is the state a call sees: the process (\<open>tproc\<close>: request header \<open>gipcMsgHead\<close>, the
  \<open>_mb_longjmp\<close> flag, the buffers), the system, and what happens while it sleeps. \<open>out\<close> lists the ways a call
  ends: it returns, jumps back to \<open>tux_service\<close> (\<open>longjmp\<close>), ends the process, sleeps for ever, or runs
  into a fault. The alarm of \<open>tux_settimer\<close> is the \<open>Signal\<close> that wakes the receiver.

  Buffers are passed as \<open>cbuf\<close>: null, a buffer of \<open>tux_alloc\<close>, or other memory with its contents.
\<close>

section \<open>State and outcomes\<close>

record tproc = proc +
  p_head :: IPCMsgHead
  p_jmp :: bool
  p_expired :: bool
  p_heap :: heap
  p_kerrno :: int

record tst =
  tp :: tproc
  ts :: sys
  tw :: "sys wake list"

datatype 'a out = Returned 'a tst | Jumped int tst | Exited int tst | Sleeping | Faulted fault

fun obind :: "'a out \<Rightarrow> ('a \<Rightarrow> tst \<Rightarrow> 'b out) \<Rightarrow> 'b out" where
  "obind (Returned x st) f = f x st"
| "obind (Jumped rc st) f = Jumped rc st"
| "obind (Exited rc st) f = Exited rc st"
| "obind Sleeping f = Sleeping"
| "obind (Faulted e) f = Faulted e"

fun of_cres :: "'a cres \<Rightarrow> tst \<Rightarrow> 'a out" where
  "of_cres (Ret x) st = Returned x st"
| "of_cres (Crash e) st = Faulted e"

definition fail :: "int \<Rightarrow> int \<Rightarrow> tst \<Rightarrow> int out" where
  "fail rc err st = Returned rc (st\<lparr>tp := (tp st)\<lparr>p_errno := err\<rparr>\<rparr>)"

definition mem :: "tst \<Rightarrow> sdmem out" where
  "mem st = of_cres (ctl (tp st) (ts st)) st"

datatype cbuf = NullBuf | HeapBuf int | RawBuf string

fun buf_bytes :: "cbuf \<Rightarrow> nat \<Rightarrow> heap \<Rightarrow> string cres" where
  "buf_bytes NullBuf n h = Crash NullDeref"
| "buf_bytes (HeapBuf a) n h =
     (case h_blocks h a of None \<Rightarrow> Crash OutOfBounds
      | Some b \<Rightarrow> if n \<le> length (b_data b) then Ret (take n (b_data b)) else Crash OutOfBounds)"
| "buf_bytes (RawBuf m) n h = (if n \<le> length m then Ret (take n m) else Crash OutOfBounds)"

text \<open>\<open>tux_real_len\<close> and \<open>tux_free\<close>; memory that is not of \<open>tux_alloc\<close> has no magic number.\<close>

fun real_len :: "cbuf \<Rightarrow> int \<Rightarrow> heap \<Rightarrow> (int \<times> int) cres" where
  "real_len NullBuf err h = tux_real_len None err h"
| "real_len (HeapBuf a) err h = tux_real_len (Some a) err h"
| "real_len (RawBuf m) err h = Ret (-1, SYS_INVAL)"

fun free_buf :: "cbuf \<Rightarrow> heap \<Rightarrow> heap" where
  "free_buf NullBuf h = tux_free None h"
| "free_buf (HeapBuf a) h = tux_free (Some a) h"
| "free_buf (RawBuf m) h = h"

text \<open>A length argument 0 asks for \<open>tux_real_len\<close>.\<close>

definition arg_len :: "cbuf \<Rightarrow> int \<Rightarrow> tst \<Rightarrow> int out" where
  "arg_len buf n st =
     (if n = 0 then obind (of_cres (real_len buf (p_errno (tp st)) (p_heap (tp st))) st)
        (\<lambda>(l, e) st. Returned l (st\<lparr>tp := (tp st)\<lparr>p_errno := e\<rparr>\<rparr>))
      else Returned n st)"

section \<open>Queue calls of a process\<close>

definition chk0 :: IPCChkMsq where
  "chk0 = \<lparr>nChkFlag = MSQ_CHK_YES, nMsqMaxNum = 0, nWaitFlag = 0\<rparr>"

definition put_msg :: "int \<Rightarrow> qmsg \<Rightarrow> nat \<Rightarrow> tst \<Rightarrow> int out" where
  "put_msg qid m n st =
     (case MsqSnd qid m n chk0 (ts st) (tw st) of
        Blocked \<Rightarrow> Sleeping
      | Done (rc, chk, s, ws) \<Rightarrow> Returned rc (st\<lparr>ts := s, tw := ws\<rparr>))"

text \<open>\<open>errno\<close> keeps its old value when \<open>msgrcv\<close> succeeds.\<close>

definition get_msg :: "int \<Rightarrow> int \<Rightarrow> int \<Rightarrow> tst \<Rightarrow> (int \<times> qmsg option) out" where
  "get_msg qid t md st =
     (case MsqRcv qid BUS_MAX_MSG_LEN t md (ts st) (tw st) of
        Blocked \<Rightarrow> Sleeping
      | Done (n, m, e, s, ws) \<Rightarrow> Returned (n, m) (st\<lparr>ts := s, tw := ws,
          tp := (tp st)\<lparr>p_kerrno := (if m = None then e else p_kerrno (tp st))\<rparr>\<rparr>))"

text \<open>The contents of \<open>sBuf\<close> behind a received message, zeroes at the end.\<close>

definition sbuf_of :: "qmsg option \<Rightarrow> string" where
  "sbuf_of m = (case m of None \<Rightarrow> pad BUS_MAX_MSG_LEN
     | Some x \<Rightarrow> take BUS_MAX_MSG_LEN (m_buf x @ pad BUS_MAX_MSG_LEN))"

section \<open>Replies\<close>

definition TUX_FAIL :: int where "TUX_FAIL = 1"
definition TUX_SUCCESS :: int where "TUX_SUCCESS = 2"

definition tux_return_reply :: "int \<Rightarrow> int \<Rightarrow> cbuf \<Rightarrow> int \<Rightarrow> int \<Rightarrow> tst \<Rightarrow> int out" where
  "tux_return_reply rval rcode rsp rsplen0 flags st =
     (if flags = -1 then Returned 0 st
      else if rsp = NullBuf then Returned 0 st
      else obind (arg_len rsp rsplen0 st) (\<lambda>rsplen st.
           obind (mem st) (\<lambda>m st.
             if rsplen < 0 \<or> rsplen > mb_max_msg_len (mbctrl m) then fail (-1) SYS_INVAL st
             else let h = (p_head (tp st))\<lparr>ih_len := i32 rsplen\<rparr>;
                      n = nat rsplen;
                      st1 = st\<lparr>tp := (tp st)\<lparr>p_head := h\<rparr>\<rparr>
                  in obind (of_cres (buf_bytes rsp n (p_heap (tp st))) st1) (\<lambda>bytes st1.
                       if HEAD_LEN + n > BUS_MAX_MSG_LEN then Faulted BufOverflow
                       else obind (put_msg (mb_rsp_que_id (mbctrl m))
                              \<lparr>m_type = ih_req_msg_type h, m_source = 0, m_buf = enc_head h @ bytes\<rparr>
                              (HEAD_LEN + n) st1)
                              (\<lambda>rc st2. if rc \<noteq> 0 then Returned (-1) st2 else Returned 0 st2)))))"

definition tux_return :: "int \<Rightarrow> int \<Rightarrow> cbuf \<Rightarrow> int \<Rightarrow> int \<Rightarrow> tst \<Rightarrow> unit out" where
  "tux_return rval rcode rsp rsplen flags st =
     (if \<not> p_jmp (tp st) then Exited 1 (st\<lparr>tp := (tp st)\<lparr>p_heap := free_buf rsp (p_heap (tp st))\<rparr>\<rparr>)
      else let rval = (if rval \<noteq> TUX_FAIL \<and> rval \<noteq> TUX_SUCCESS then TUX_FAIL else rval)
           in if \<not> sdIsAttach (tp st) then Jumped SYS_SYSTEM (st\<lparr>tp := (tp st)\<lparr>p_errno := SYS_SYSTEM\<rparr>\<rparr>)
              else obind (tux_return_reply rval rcode rsp rsplen flags st) (\<lambda>rc st.
                     if rc \<noteq> 0 then Jumped rc st else Jumped 1 st))"

section \<open>Requests\<close>

definition req_msg :: "int \<Rightarrow> string \<Rightarrow> qmsg" where
  "req_msg t bytes = \<lparr>m_type = t, m_source = 0, m_buf = bytes\<rparr>"

text \<open>\<open>memcpy(ipcMsgIn.sBuf, buf, len)\<close> and \<open>MsqSnd\<close> to the request queue.\<close>

definition send_req :: "sdmem \<Rightarrow> nat \<Rightarrow> cbuf \<Rightarrow> nat \<Rightarrow> tst \<Rightarrow> int out" where
  "send_req m svrno buf n st =
     obind (of_cres (buf_bytes buf n (p_heap (tp st))) st) (\<lambda>bytes st.
       if n > BUS_MAX_MSG_LEN then Faulted BufOverflow
       else put_msg (mb_req_que_id (mbctrl m)) (req_msg (st_msg_type (tSvrTab m ! svrno)) bytes) n st)"

definition svc_down :: "sdmem \<Rightarrow> nat \<Rightarrow> bool" where
  "svc_down m i \<longleftrightarrow> st_state (tSvrTab m ! i) = TUX_UNAVAIL \<or> st_state (tSvrTab m ! i) = TUX_DEAD"

text \<open>The control block is read for the length check before the attachment check.\<close>

definition tux_acall :: "string option \<Rightarrow> cbuf \<Rightarrow> int \<Rightarrow> int \<Rightarrow> tst \<Rightarrow> int out" where
  "tux_acall svr_name req_buf req_buflen flags st =
     (case svr_name of
        None \<Rightarrow> fail (-1) SYS_INVAL st
      | Some name \<Rightarrow>
          if req_buf = NullBuf then fail (-1) SYS_INVAL st
          else obind (arg_len req_buf req_buflen st) (\<lambda>len st.
               obind (mem st) (\<lambda>m st.
                 if len < 0 \<or> len > mb_max_msg_len (mbctrl m) then fail (-1) SYS_INVAL st
                 else if \<not> sdIsAttach (tp st) then fail (-1) SYS_SYSTEM st
                 else let svrno = tux_locatemb name m
                      in if svrno < 0 then fail (-1) SYS_ERR_SVC st
                         else if svc_down m (nat svrno) then fail (-1) SYS_DEAD_SVC st
                         else obind (send_req m (nat svrno) req_buf (nat len) st) (\<lambda>rc st.
                                if rc \<noteq> 0 then fail (-1) SYS_OS st else Returned 0 st))))"

text \<open>The bytes copied to \<open>rsp_buf\<close>, a buffer of \<open>cap\<close> bytes, come with the return value.\<close>

definition tux_getreply :: "nat \<Rightarrow> int \<Rightarrow> int \<Rightarrow> tst \<Rightarrow> (int \<times> string option) out" where
  "tux_getreply cap cd flags st =
     (if \<not> sdIsAttach (tp st) then obind (fail (-1) SYS_SYSTEM st) (\<lambda>rc st. Returned (rc, None) st)
      else obind (mem st) (\<lambda>m st.
           obind (get_msg (mb_rsp_que_id (mbctrl m)) cd
                    (if flags = 0 then MSQ_MODE_BLOCK else MSQ_MODE_NONBLOCK) st) (\<lambda>(n, x) st.
             if n \<le> 0 then Returned (-1, None) (st\<lparr>tp := (tp st)\<lparr>p_errno := p_kerrno (tp st)\<rparr>\<rparr>)
             else if nat n > cap then Faulted BufOverflow
             else Returned (0, Some (take (nat n) (sbuf_of x))) st)))"

text \<open>\<open>late\<close>: the alarm goes off between the reception and \<open>tux_unsettimer\<close>.\<close>

definition tux_call :: "nat \<Rightarrow> bool \<Rightarrow> string option \<Rightarrow> cbuf \<Rightarrow> int \<Rightarrow> int \<Rightarrow> tst \<Rightarrow> (int \<times> string option) out" where
  "tux_call cap late svr_name req_buf req_buflen flags st =
     (let err = (\<lambda>e st. obind (fail (-1) e st) (\<lambda>rc st. Returned (rc, None) st))
      in case svr_name of
        None \<Rightarrow> err SYS_INVAL st
      | Some name \<Rightarrow>
          if req_buf = NullBuf then err SYS_INVAL st
          else obind (arg_len req_buf req_buflen st) (\<lambda>len st.
               obind (mem st) (\<lambda>m st.
                 if len < 0 \<or> len > mb_max_msg_len (mbctrl m) then err SYS_INVAL st
                 else if \<not> sdIsAttach (tp st) then err SYS_SYSTEM st
                 else let svrno = tux_locatemb name m
                      in if svrno < 0 then err SYS_NOENT st
                         else if svc_down m (nat svrno) then err SYS_DEAD_SVC st
                         else obind (send_req m (nat svrno) req_buf (nat len) st) (\<lambda>rc st.
                           if rc \<noteq> 0 then Returned (-1, None) st
                           else let st1 = st\<lparr>tp := (tp st)\<lparr>p_expired := False\<rparr>\<rparr>
                             in obind (mem st1) (\<lambda>m1 st1.
                                obind (get_msg (mb_rsp_que_id (mbctrl m1)) (ih_req_msg_type (p_head (tp st1)))
                                         MSQ_MODE_BLOCK st1) (\<lambda>(n, x) st2.
                                  if n \<le> 0 then Returned (-1, None) st2
                                  else let st3 = st2\<lparr>tp := (tp st2)\<lparr>p_expired := late\<rparr>\<rparr>
                                    in if p_expired (tp st3) then err SYS_TIMEOUT st3
                                       else if nat n > cap then Faulted BufOverflow
                                       else Returned (0, Some (take (nat n) (sbuf_of x))) st3))))))"

definition tux_forward :: "string option \<Rightarrow> cbuf \<Rightarrow> int \<Rightarrow> int \<Rightarrow> tst \<Rightarrow> int out" where
  "tux_forward svr_name data len0 flags st =
     (let jump = (\<lambda>e st. Jumped (-1) (st\<lparr>tp := (tp st)\<lparr>p_errno := e\<rparr>\<rparr>))
      in if \<not> p_jmp (tp st) then Exited 1 (st\<lparr>tp := (tp st)\<lparr>p_heap := free_buf data (p_heap (tp st))\<rparr>\<rparr>)
         else case svr_name of
           None \<Rightarrow> jump SYS_INVAL st
         | Some name \<Rightarrow>
             if data = NullBuf then jump SYS_INVAL st
             else obind (arg_len data len0 st) (\<lambda>len st.
                  obind (mem st) (\<lambda>m st.
                    if len < 0 \<or> len > mb_max_msg_len (mbctrl m) then jump SYS_INVAL st
                    else if \<not> sdIsAttach (tp st) then jump SYS_SYSTEM st
                    else let svrno = tux_locatemb name m
                         in if svrno < 0 then jump SYS_NOENT st
                            else obind (send_req m (nat svrno) data (nat len) st) (\<lambda>rc st.
                                   if rc \<noteq> 0 then Returned (-1) st else Jumped 1 st))))"

section \<open>The dispatcher\<close>

text \<open>Progress of a receive: it consumes a wake-up, or removes a message, or fails for good.\<close>

lemma msgrcv_wakes: "msgrcv qid sz t nw k ws = Done (r, k', ws') \<Longrightarrow> length ws' \<le> length ws"
proof (induction qid sz t nw k ws rule: msgrcv.induct)
  case (1 qid sz t nw k ws)
  show ?case
    using "1.prems"
    by (subst (asm) msgrcv.simps)
      (auto split: option.splits sum.splits if_splits list.splits wake.splits prod.splits
        dest!: "1.IH")
qed

lemma take_first_length: "take_first P ms = Some (m, r) \<Longrightarrow> length r < length ms"
  using take_first_Some [of P ms m r] by auto

lemma msgrcv_progress:
  assumes "msgrcv qid sz t nw k ws = Done (r, k', ws')"
  shows "length ws' < length ws \<or> ws' = ws \<and>
    (case r of Inl e \<Rightarrow> e \<noteq> EINTR
     | Inr m \<Rightarrow> \<exists>q rr. msq_at qid k = Some q \<and> k' = msq_set qid rr k \<and> length rr < length (q_msgs q))"
proof (cases "msgrcv_try qid sz t k")
  case None
  then show ?thesis
    using assms by (subst (asm) msgrcv.simps)
      (auto simp: msq_consts split: if_splits list.splits wake.splits dest!: msgrcv_wakes)
next
  case (Some x)
  then show ?thesis
    using assms by (subst (asm) msgrcv.simps)
      (auto simp: msgrcv_try_def msq_consts split: option.splits sum.splits if_splits
        dest!: take_first_length)
qed

definition req_count :: "tst \<Rightarrow> nat" where
  "req_count st = (case ctl (tp st) (ts st) of Ret m \<Rightarrow> nat (MsqCount (mb_req_que_id (mbctrl m)) (ts st)) | Crash e \<Rightarrow> 0)"

lemma get_msg_progress:
  assumes "ctl (tp st) (ts st) = Ret m" "get_msg (mb_req_que_id (mbctrl m)) t md st = Returned (n, x) st'"
    and "n \<le> 0" "p_kerrno (tp st') = EINTR \<or> x \<noteq> None"
  shows "(st', st) \<in> measures [\<lambda>st. length (tw st), req_count]"
proof -
  let ?q = "mb_req_que_id (mbctrl m)"
  from assms(2) obtain r s' ws' where r: "msgrcv ?q BUS_MAX_MSG_LEN t (md = MSQ_MODE_NONBLOCK) (ts st) (tw st)
      = Done (r, s', ws')" "ts st' = s'" "tw st' = ws'"
    "x = (case r of Inl e \<Rightarrow> None | Inr y \<Rightarrow> Some y)" "p_ctl (tp st') = p_ctl (tp st)"
    "p_kerrno (tp st') = (case r of Inl e \<Rightarrow> e | Inr y \<Rightarrow> p_kerrno (tp st))"
    by (auto simp: get_msg_def MsqRcv_def split: wait.splits sum.splits)
  consider "length ws' < length (tw st)"
    | q rr y where "ws' = tw st" "r = Inr y" "msq_at ?q (ts st) = Some q" "s' = msq_set ?q rr (ts st)"
        "length rr < length (q_msgs q)"
    using msgrcv_progress [OF r(1)] assms(4) r(4,6) by (auto split: sum.splits)
  then show ?thesis
  proof cases
    case 1
    then show ?thesis using r(3) by simp
  next
    case 2
    have "ctl (tp st') (ts st') = Ret m"
      using assms(1) r(2,5) 2(4) by (auto simp: ctl_def msq_set_def split: shmptr.splits if_splits)
    then have "req_count st' = length rr" "req_count st = length (q_msgs q)"
      using assms(1) 2 r(2) by (simp_all add: req_count_def MsqCount_def msq_at_set)
    then show ?thesis using 2 r(3) by simp
  qed
qed

text \<open>The receive loop of \<open>tux_service\<close>: again after an interruption.\<close>

function service_rcv :: "int \<Rightarrow> tst \<Rightarrow> (int \<times> qmsg option) out" where
  "service_rcv t st =
     (case ctl (tp st) (ts st) of
        Crash e \<Rightarrow> Faulted e
      | Ret m \<Rightarrow>
          (case get_msg (mb_req_que_id (mbctrl m)) t MSQ_MODE_BLOCK st of
             Returned (n, x) st' \<Rightarrow>
               if n \<le> 0 then (if p_kerrno (tp st') = EINTR then service_rcv t st' else Returned (-1, None) st')
               else Returned (n, x) st'
           | r \<Rightarrow> Sleeping))"
  by pat_completeness auto
termination
  by (relation "inv_image (measures [\<lambda>st. length (tw st), req_count]) snd")
    (auto simp del: in_measures intro: get_msg_progress)

declare service_rcv.simps [simp del]

record sd_info_t =
  si_name :: string
  si_data :: "int option"
  si_len :: int

text \<open>The advertised handlers of a process, by address; an address without handler is a wild jump.\<close>

type_synonym handlers = "nat \<Rightarrow> (sd_info_t \<Rightarrow> tst \<Rightarrow> unit out) option"

definition call_handler :: "handlers \<Rightarrow> nat \<Rightarrow> sd_info_t \<Rightarrow> tst \<Rightarrow> unit out" where
  "call_handler hs f info st =
     (case hs f of
        None \<Rightarrow> Faulted NullDeref
      | Some h \<Rightarrow> (case h info st of Jumped rc st' \<Rightarrow> Returned () st' | r \<Rightarrow> r))"

definition upd_mem :: "(sdmem \<Rightarrow> sdmem) \<Rightarrow> sdmem \<Rightarrow> tst \<Rightarrow> tst" where
  "upd_mem f m st = st\<lparr>ts := set_ctl (tp st) (f m) (ts st)\<rparr>"

text \<open>\<open>tux_service\<close> behind the receive loop. \<open>memcpy\<close> reads at most the 3964 bytes that \<open>sBuf\<close> has
  behind the header.\<close>

definition dispatch :: "handlers \<Rightarrow> string \<Rightarrow> int \<Rightarrow> qmsg option \<Rightarrow> tst \<Rightarrow> int out" where
  "dispatch hs junk svc_pos x st =
     (let sbuf = sbuf_of x; h = dec_head sbuf; st1 = st\<lparr>tp := (tp st)\<lparr>p_head := h\<rparr>\<rparr>
      in obind (mem st1) (\<lambda>m st1.
           let idx = fst (tux_find_service (Some (c_str (ih_name h))) 1 m)
           in if idx < 0 then Returned 0 st1
              else let (data, e, hp) = tux_alloc junk ''CARRAY'' [] (ih_len h) (p_errno (tp st1)) (p_heap (tp st1));
                       st2 = st1\<lparr>tp := (tp st1)\<lparr>p_errno := e, p_heap := hp\<rparr>\<rparr>
                   in if ih_len h < 0 then Faulted NullDeref
                      else if nat (ih_len h) > BUS_MAX_MSG_LEN - HEAD_LEN then Faulted OutOfBounds
                      else obind (of_cres (buf_write data 0 (take (nat (ih_len h)) (drop HEAD_LEN sbuf) @ [NUL]) hp) st2)
                        (\<lambda>hp2 st2.
                        if svc_pos < 0 \<or> svc_pos \<ge> int (length (tSvrPid m)) then Faulted OutOfBounds
                        else let st3 = upd_mem (upd_pid (nat svc_pos) (\<lambda>e. e\<lparr>sp_req_done := (sp_req_done e + 1) mod 2 ^ 32\<rparr>)) m
                                    (st2\<lparr>tp := (tp st2)\<lparr>p_heap := hp2, p_jmp := True\<rparr>\<rparr>);
                                 info = \<lparr>si_name = take TUX_NAME_LEN (c_str (ih_name h)), si_data = data, si_len = ih_len h\<rparr>
                             in obind (call_handler hs (sc_sd_fun (tSvcTab m ! nat idx)) info st3) (\<lambda>u st4.
                                  Returned 0 (st4\<lparr>tp := (tp st4)\<lparr>p_heap := tux_free data (p_heap (tp st4)),
                                    p_jmp := False\<rparr>\<rparr>)))))"

definition tux_service :: "handlers \<Rightarrow> string \<Rightarrow> int \<Rightarrow> int \<Rightarrow> tst \<Rightarrow> int out" where
  "tux_service hs junk svrid svc_pos st =
     (if \<not> sdIsAttach (tp st) then fail (-1) SYS_SYSTEM st
      else obind (service_rcv (svrid + SVR_MSG_TYPE_ROOT) st) (\<lambda>(n, x) st.
             if n \<le> 0 then Returned (-1) st else dispatch hs junk svc_pos x st))"

lemma get_now_progress:
  assumes "ctl (tp st) (ts st) = Ret m" "x \<noteq> None"
    and "get_msg (mb_req_que_id (mbctrl m)) t MSQ_MODE_NONBLOCK (st\<lparr>tw := []\<rparr>) = Returned (n, x) st'"
  shows "req_count (st'\<lparr>tw := w\<rparr>) < req_count st"
proof -
  obtain r s' ws' where r: "msgrcv (mb_req_que_id (mbctrl m)) BUS_MAX_MSG_LEN t True (ts st) [] = Done (r, s', ws')"
    "ts st' = s'" "p_ctl (tp st') = p_ctl (tp st)" "x = (case r of Inl e \<Rightarrow> None | Inr y \<Rightarrow> Some y)"
    using assms(3) by (auto simp: get_msg_def MsqRcv_def split: wait.splits sum.splits)
  obtain y where y: "r = Inr y" using assms(2) r(4) by (cases r) auto
  then obtain q rr where q: "msq_at (mb_req_que_id (mbctrl m)) (ts st) = Some q"
    "s' = msq_set (mb_req_que_id (mbctrl m)) rr (ts st)" "length rr < length (q_msgs q)"
    using msgrcv_progress [OF r(1)] by auto
  have "ctl (tp st') (ts st') = Ret m"
    using assms(1) r(2,3) q(2) by (auto simp: ctl_def msq_set_def split: shmptr.splits if_splits)
  then show ?thesis
    using assms(1) q r(2) by (simp add: req_count_def MsqCount_def msq_at_set)
qed

text \<open>The loop of \<open>clean_task_msg\<close>.\<close>

function clean_task_msg :: "int \<Rightarrow> tst \<Rightarrow> int out" where
  "clean_task_msg msg_type st =
     (case ctl (tp st) (ts st) of
        Crash e \<Rightarrow> Faulted e
      | Ret m \<Rightarrow>
          (case get_msg (mb_req_que_id (mbctrl m)) msg_type MSQ_MODE_NONBLOCK (st\<lparr>tw := []\<rparr>) of
             Returned (n, x) st' \<Rightarrow>
               if n < 0 \<or> x = None then Returned 0 (st'\<lparr>tw := tw st\<rparr>) else clean_task_msg msg_type (st'\<lparr>tw := tw st\<rparr>)
           | r \<Rightarrow> Sleeping))"
  by pat_completeness auto
termination
  by (relation "measure (req_count \<circ> snd)") (auto intro: get_now_progress)

declare clean_task_msg.simps [simp del]

section \<open>Single steps\<close>

lemma mem_Ret: "ctl (tp st) (ts st) = Ret m \<Longrightarrow> mem st = Returned m st"
  by (simp add: mem_def)

lemma msq_at_set_ctl [simp]: "msq_at i (set_ctl p m s) = msq_at i s"
  by (simp add: msq_at_def)

lemma ctl_msq_set [simp]: "ctl p (msq_set i ms s) = ctl p s"
  by (simp add: ctl_def msq_set_def split: shmptr.split)

lemma ctl_tp_update [simp]:
  "ctl (q\<lparr>p_head := h\<rparr>) s = ctl q s" "ctl (q\<lparr>p_heap := hp\<rparr>) s = ctl q s" "ctl (q\<lparr>p_jmp := j\<rparr>) s = ctl q s"
  "ctl (q\<lparr>p_expired := x\<rparr>) s = ctl q s" "ctl (q\<lparr>p_errno := e\<rparr>) s = ctl q s" "ctl (q\<lparr>p_kerrno := e\<rparr>) s = ctl q s"
  by (simp_all add: ctl_def split: shmptr.split)

definition has_room :: "int \<Rightarrow> nat \<Rightarrow> 'a kern_scheme \<Rightarrow> bool" where
  "has_room qid n k \<longleftrightarrow> (case msq_at qid k of None \<Rightarrow> False
     | Some q \<Rightarrow> length (q_msgs q) \<le> 1024 \<and> cbytes q + (8 + n) \<le> q_qbytes q \<and> Suc (length (q_msgs q)) \<le> q_qbytes q)"

lemma put_msg_room:
  assumes "has_room qid n (ts st)" "length (m_buf x) = n" "n < BUS_MAX_MSG_LEN" "m_type x \<ge> 1"
  shows "\<exists>q. msq_at qid (ts st) = Some q \<and>
    put_msg qid x n st = Returned 0 (st\<lparr>ts := msq_set qid (q_msgs q @ [x]) (ts st)\<rparr>)"
proof -
  obtain q where q: "msq_at qid (ts st) = Some q" "length (q_msgs q) \<le> 1024" "cbytes q + (8 + n) \<le> q_qbytes q"
    "Suc (length (q_msgs q)) \<le> q_qbytes q"
    using assms(1) by (auto simp: has_room_def split: option.splits)
  have "sent_msg x n = x" using assms(2) sent_msg_id by blast
  moreover have "msgsnd_try qid x (ts st) = Some (Inr (msq_set qid (q_msgs q @ [x]) (ts st)))"
    using q assms(2-4) by (simp add: msgsnd_try_def msg_size_def MSGMAX_def BUS_MAX_MSG_LEN_def)
  ultimately have "MsqSnd qid x n chk0 (ts st) (tw st) = Done (0, chk0\<lparr>nMsqMaxNum := MSQ_MAX_NUM\<rparr>,
      msq_set qid (q_msgs q @ [x]) (ts st), tw st)"
    using q assms(3) by (simp add: MsqSnd_def chk0_def msgsnd.simps [of _ _ _ _ "tw st"] MSQ_MAX_NUM_def)
  then show ?thesis using q(1) by (simp add: put_msg_def)
qed

lemma mbox_try:
  assumes "mbox qid k t = x # r" "t > 0" "length (m_buf x) \<le> 4052"
  shows "\<exists>rr. msgrcv_try qid BUS_MAX_MSG_LEN t k = Some (Inr (x, msq_set qid rr k))"
proof -
  obtain q where q: "msq_at qid k = Some q" "filter (\<lambda>m. m_type m = t) (q_msgs q) = x # r"
    using assms(1) by (auto simp: mbox_def split: option.splits)
  from take_first_hd [OF q(2)] obtain rr where "take_first (\<lambda>m. m_type m = t) (q_msgs q) = Some (x, rr)" by blast
  then show ?thesis
    using q(1) assms(2,3) by (intro exI [of _ rr]) (simp add: msgrcv_try_def wanted_pos msg_size_def BUS_MAX_MSG_LEN_def)
qed

lemma mbox_try_none:
  "msq_at qid k = Some q \<Longrightarrow> mbox qid k t = [] \<Longrightarrow> t > 0 \<Longrightarrow> msgrcv_try qid sz t k = None"
  using take_first_None [of "\<lambda>m. m_type m = t" "q_msgs q"]
  by (simp add: msgrcv_try_def wanted_pos mbox_def filter_empty_conv)

lemma get_msg_here:
  assumes "mbox qid (ts st) t = x # r" "t > 0" "length (m_buf x) \<le> 4052"
  shows "\<exists>rr. get_msg qid t md st = Returned (int (length (m_buf x)), Some x) (st\<lparr>ts := msq_set qid rr (ts st)\<rparr>)"
proof -
  obtain rr where "msgrcv_try qid BUS_MAX_MSG_LEN t (ts st) = Some (Inr (x, msq_set qid rr (ts st)))"
    using mbox_try [OF assms] by blast
  from MsqRcv_now [OF this, of md "tw st"] show ?thesis
    by (intro exI [of _ rr]) (simp add: get_msg_def)
qed

lemma get_msg_after_wait:
  assumes "msq_at qid (ts st) = Some q" "mbox qid (ts st) t = []" "t > 0" "tw st = Others s' # ws"
    and "mbox qid s' t = x # r" "length (m_buf x) \<le> 4052"
  shows "\<exists>rr. get_msg qid t MSQ_MODE_BLOCK st =
    Returned (int (length (m_buf x)), Some x) (st\<lparr>ts := msq_set qid rr s', tw := ws\<rparr>)"
proof -
  obtain rr where rr: "msgrcv_try qid BUS_MAX_MSG_LEN t s' = Some (Inr (x, msq_set qid rr s'))"
    using mbox_try [OF assms(5,3,6)] by blast
  have "msq_at qid s' \<noteq> None" using assms(5) by (auto simp: mbox_def split: option.splits)
  moreover have "msgrcv_try qid BUS_MAX_MSG_LEN t (ts st) = None"
    using mbox_try_none assms(1-3) by blast
  ultimately have "msgrcv qid BUS_MAX_MSG_LEN t False (ts st) (tw st) = Done (Inr x, msq_set qid rr s', ws)"
    using rr assms(4) by (subst msgrcv.simps) (simp, subst msgrcv.simps, simp)
  then show ?thesis
    by (intro exI [of _ rr]) (simp add: get_msg_def MsqRcv_def MSQ_MODE_BLOCK_def MSQ_MODE_NONBLOCK_def msg_size_def)
qed

lemma sbuf_frame:
  "length (m_buf x) \<le> 4052 \<Longrightarrow> \<exists>p. sbuf_of (Some x) = m_buf x @ p"
  by (simp add: sbuf_of_def BUS_MAX_MSG_LEN_def)

text \<open>What \<open>dispatch\<close> does with a well-formed request for an advertised service.\<close>

lemma dispatch_frame:
  assumes "m_buf x = enc_head h @ pl" "head_ok h" "ih_len h = int (length pl)" "length (m_buf x) \<le> 4052"
    and "ctl (tp st) (ts st) = Ret m" "tux_find_service (Some (c_str (ih_name h))) 1 m = (int i, p)"
    and "0 \<le> pos" "pos < int (length (tSvrPid m))" "ALLOC_UNITS (ih_len h + 2048) * 32 \<le> h_avail (p_heap (tp st))"
    and "hs (sc_sd_fun (tSvcTab m ! i)) = Some hf"
  shows "\<exists>a hp. dispatch hs junk pos (Some x) st =
    obind (case hf \<lparr>si_name = take TUX_NAME_LEN (c_str (ih_name h)), si_data = Some a, si_len = ih_len h\<rparr>
        (upd_mem (upd_pid (nat pos) (\<lambda>e. e\<lparr>sp_req_done := (sp_req_done e + 1) mod 2 ^ 32\<rparr>)) m
          (st\<lparr>tp := (tp st)\<lparr>p_head := h, p_heap := hp, p_jmp := True\<rparr>\<rparr>))
      of Jumped rc st' \<Rightarrow> Returned () st' | r \<Rightarrow> r)
      (\<lambda>u st4. Returned 0 (st4\<lparr>tp := (tp st4)\<lparr>p_heap := tux_free (Some a) (p_heap (tp st4)), p_jmp := False\<rparr>\<rparr>))
    \<and> buf_bytes (HeapBuf a) (length pl) hp = Ret pl"
proof -
  obtain pd where sb: "sbuf_of (Some x) = enc_head h @ pl @ pd"
    using sbuf_frame [OF assms(4)] assms(1) by auto
  have d: "dec_head (sbuf_of (Some x)) = h" "take (length pl) (drop HEAD_LEN (sbuf_of (Some x))) = pl"
    using ipc.frame [OF assms(2), of "pl @ pd"] by (simp_all add: sb)
  have l: "length pl \<le> BUS_MAX_MSG_LEN - HEAD_LEN"
    using assms(1,2,4) ipc.enc_width [OF assms(2)] by (simp add: BUS_MAX_MSG_LEN_def HEAD_LEN_def)
  let ?hp0 = "p_heap (tp st)"
  obtain b where al: "tux_alloc junk ''CARRAY'' [] (ih_len h) (p_errno (tp st)) ?hp0 =
      (Some (h_next ?hp0), p_errno (tp st), ?hp0\<lparr>h_blocks := (h_blocks ?hp0)(h_next ?hp0 \<mapsto> b),
         h_next := h_next ?hp0 + ALLOC_UNITS (ih_len h + 2048) * 32,
         h_avail := h_avail ?hp0 - ALLOC_UNITS (ih_len h + 2048) * 32\<rparr>)"
    "block_ok b" "tp_len (b_head b) = ih_len h + 2048"
  proof (cases rule: alloc_cases [of junk "''CARRAY''" "[]" "ih_len h" "p_errno (tp st)" ?hp0])
    case (1 e)
    then show ?thesis using assms(3,9) by (simp add: tux_alloc_def Let_def)
  next
    case (2 b)
    then show ?thesis using that by blast
  qed
  let ?hp1 = "?hp0\<lparr>h_blocks := (h_blocks ?hp0)(h_next ?hp0 \<mapsto> b),
     h_next := h_next ?hp0 + ALLOC_UNITS (ih_len h + 2048) * 32,
     h_avail := h_avail ?hp0 - ALLOC_UNITS (ih_len h + 2048) * 32\<rparr>"
  have bl: "Suc (length pl) \<le> length (b_data b)"
    using al(2,3) data_bytes_bound [of "ih_len h + 2048"] assms(3) by (simp add: block_ok_def)
  let ?b2 = "b\<lparr>b_data := (pl @ [NUL]) @ drop (Suc (length pl)) (b_data b)\<rparr>"
  define hp where "hp = ?hp1\<lparr>h_blocks := (h_blocks ?hp1)(h_next ?hp0 \<mapsto> ?b2)\<rparr>"
  have w: "buf_write (Some (h_next ?hp0)) 0 (pl @ [NUL]) ?hp1 = Ret hp"
    using bl by (simp add: buf_write_def hp_def)
  have "buf_bytes (HeapBuf (h_next ?hp0)) (length pl) hp = Ret pl"
    using bl by (simp add: hp_def)
  moreover have "dispatch hs junk pos (Some x) st =
    obind (case hf \<lparr>si_name = take TUX_NAME_LEN (c_str (ih_name h)), si_data = Some (h_next ?hp0), si_len = ih_len h\<rparr>
        (upd_mem (upd_pid (nat pos) (\<lambda>e. e\<lparr>sp_req_done := (sp_req_done e + 1) mod 2 ^ 32\<rparr>)) m
          (st\<lparr>tp := (tp st)\<lparr>p_head := h, p_heap := hp, p_jmp := True\<rparr>\<rparr>))
      of Jumped rc st' \<Rightarrow> Returned () st' | r \<Rightarrow> r)
      (\<lambda>u st4. Returned 0 (st4\<lparr>tp := (tp st4)\<lparr>p_heap := tux_free (Some (h_next ?hp0)) (p_heap (tp st4)),
         p_jmp := False\<rparr>\<rparr>))"
    using assms(3,5-8,10) d l al(1) w
    by (simp add: dispatch_def Let_def mem_def call_handler_def)
  ultimately show ?thesis by blast
qed

section \<open>A call and its reply\<close>

text \<open>A handler that answers with the bytes \<open>r\<close>.\<close>

definition answer :: "string \<Rightarrow> sd_info_t \<Rightarrow> tst \<Rightarrow> unit out" where
  "answer r info st = tux_return TUX_SUCCESS 0 (RawBuf r) (int (length r)) 0 st"

lemma answer_sends:
  assumes "p_jmp (tp st)" "ctl (tp st) (ts st) = Ret m" "r \<noteq> []" "HEAD_LEN + length r < BUS_MAX_MSG_LEN"
    and "int (length r) \<le> mb_max_msg_len (mbctrl m)" "has_room (mb_rsp_que_id (mbctrl m)) (HEAD_LEN + length r) (ts st)"
    and "head_ok (p_head (tp st))" "ih_req_msg_type (p_head (tp st)) \<ge> 1"
  shows "\<exists>q. msq_at (mb_rsp_que_id (mbctrl m)) (ts st) = Some q \<and> answer r info st = Jumped 1
    (st\<lparr>tp := (tp st)\<lparr>p_head := (p_head (tp st))\<lparr>ih_len := int (length r)\<rparr>\<rparr>,
        ts := msq_set (mb_rsp_que_id (mbctrl m)) (q_msgs q @ [\<lparr>m_type = ih_req_msg_type (p_head (tp st)),
          m_source = 0, m_buf = enc_head ((p_head (tp st))\<lparr>ih_len := int (length r)\<rparr>) @ r\<rparr>]) (ts st)\<rparr>)"
proof -
  let ?h = "(p_head (tp st))\<lparr>ih_len := int (length r)\<rparr>"
  let ?st1 = "st\<lparr>tp := (tp st)\<lparr>p_head := ?h\<rparr>\<rparr>"
  let ?x = "\<lparr>m_type = ih_req_msg_type (p_head (tp st)), m_source = 0, m_buf = enc_head ?h @ r\<rparr>"
  have i: "i32 (int (length r)) = int (length r)"
    using assms(4) by (intro i32_id) (simp add: in_i32_def BUS_MAX_MSG_LEN_def)
  have att: "sdIsAttach (tp st)"
    using assms(2) by (auto simp: sdIsAttach_def ctl_def split: shmptr.splits)
  have "length (enc_head ?h @ r) = HEAD_LEN + length r"
    using assms(7) by (simp add: head_ok_def HEAD_LEN_def)
  then obtain q where q: "msq_at (mb_rsp_que_id (mbctrl m)) (ts st) = Some q"
    "put_msg (mb_rsp_que_id (mbctrl m)) ?x (HEAD_LEN + length r) ?st1
      = Returned 0 (?st1\<lparr>ts := msq_set (mb_rsp_que_id (mbctrl m)) (q_msgs q @ [?x]) (ts st)\<rparr>)"
    using put_msg_room [of "mb_rsp_que_id (mbctrl m)" "HEAD_LEN + length r" ?st1 ?x] assms(4,6,8) by auto
  have "answer r info st = Jumped 1 (?st1\<lparr>ts := msq_set (mb_rsp_que_id (mbctrl m)) (q_msgs q @ [?x]) (ts st)\<rparr>)"
    using assms(1-5) i q att
    by (simp add: answer_def tux_return_def tux_return_reply_def arg_len_def mem_def Let_def)
  with q(1) show ?thesis by auto
qed

text \<open>
  The hypotheses of a call: the process is attached, the service is known and up, the request is a
  well-formed frame that the receivers can take, both queues have room, and no other message of the two
  types is waiting.
\<close>

definition call_ready :: "sdmem \<Rightarrow> nat \<Rightarrow> int \<Rightarrow> string \<Rightarrow> IPCMsgHead \<Rightarrow> string \<Rightarrow> string \<Rightarrow> sys \<Rightarrow> bool" where
  "call_ready m i svrid name h pl r s \<longleftrightarrow>
     tux_locatemb name m = int i \<and> \<not> svc_down m i \<and> st_msg_type (tSvrTab m ! i) = svrid + SVR_MSG_TYPE_ROOT
     \<and> svrid + SVR_MSG_TYPE_ROOT \<ge> 1
     \<and> head_ok h \<and> ih_len h = int (length pl) \<and> ih_req_msg_type h \<ge> 1
     \<and> HEAD_LEN + length pl \<le> 4052 \<and> int (HEAD_LEN + length pl) \<le> mb_max_msg_len (mbctrl m)
     \<and> r \<noteq> [] \<and> HEAD_LEN + length r \<le> 4052 \<and> int (length r) \<le> mb_max_msg_len (mbctrl m)
     \<and> mb_req_que_id (mbctrl m) \<noteq> mb_rsp_que_id (mbctrl m)
     \<and> has_room (mb_req_que_id (mbctrl m)) (HEAD_LEN + length pl) s
     \<and> has_room (mb_rsp_que_id (mbctrl m)) (HEAD_LEN + length r) s
     \<and> mbox (mb_req_que_id (mbctrl m)) s (svrid + SVR_MSG_TYPE_ROOT) = []
     \<and> mbox (mb_rsp_que_id (mbctrl m)) s (ih_req_msg_type h) = []"

lemma send_req_frame:
  assumes "call_ready m i svrid name h pl r (ts st)" "ctl (tp st) (ts st) = Ret m"
  shows "\<exists>q. msq_at (mb_req_que_id (mbctrl m)) (ts st) = Some q \<and>
    send_req m i (RawBuf (enc_head h @ pl)) (length (enc_head h @ pl)) st = Returned 0
      (st\<lparr>ts := msq_set (mb_req_que_id (mbctrl m)) (q_msgs q @ [req_msg (svrid + SVR_MSG_TYPE_ROOT) (enc_head h @ pl)]) (ts st)\<rparr>)"
proof -
  have l: "length (enc_head h @ pl) = HEAD_LEN + length pl"
    using assms(1) by (auto simp: call_ready_def ipc.enc_width)
  have "HEAD_LEN + length pl < BUS_MAX_MSG_LEN" using assms(1) by (simp add: call_ready_def BUS_MAX_MSG_LEN_def)
  then show ?thesis
    using put_msg_room [of "mb_req_que_id (mbctrl m)" "HEAD_LEN + length pl" st
        "req_msg (svrid + SVR_MSG_TYPE_ROOT) (enc_head h @ pl)"] assms(1) l
    by (auto simp: send_req_def req_msg_def call_ready_def)
qed

text \<open>The server's side: one turn of \<open>tux_service\<close> over the request.\<close>

lemma service_answers:
  assumes "call_ready m i svrid name h pl r s" "ctl (tp v) s = Ret m" "msq_at (mb_req_que_id (mbctrl m)) s = Some q"
    and v: "ts v = msq_set (mb_req_que_id (mbctrl m)) (q_msgs q @ [req_msg (svrid + SVR_MSG_TYPE_ROOT) (enc_head h @ pl)]) s"
    and f: "svc_handler (c_str (ih_name h)) m = Some f" "hs f = Some (answer r)"
    and p: "0 \<le> pos" "pos < int (length (tSvrPid m))" "ALLOC_UNITS (ih_len h + 2048) * 32 \<le> h_avail (p_heap (tp v))"
  shows "\<exists>v' q'. tux_service hs junk svrid pos v = Returned 0 v' \<and> msq_at (mb_rsp_que_id (mbctrl m)) s = Some q'
    \<and> mbox (mb_rsp_que_id (mbctrl m)) (ts v') (ih_req_msg_type h) = [\<lparr>m_type = ih_req_msg_type h, m_source = 0,
        m_buf = enc_head (h\<lparr>ih_len := int (length r)\<rparr>) @ r\<rparr>]"
proof -
  let ?rq = "mb_req_que_id (mbctrl m)" and ?rs = "mb_rsp_que_id (mbctrl m)" and ?t = "svrid + SVR_MSG_TYPE_ROOT"
  let ?x = "req_msg ?t (enc_head h @ pl)" and ?h = "h\<lparr>ih_len := int (length r)\<rparr>"
  have c: "head_ok h" "ih_len h = int (length pl)" "?rq \<noteq> ?rs" "?t > 0" "HEAD_LEN + length pl \<le> 4052"
    using assms(1) by (simp_all add: call_ready_def)
  have lx: "length (m_buf ?x) \<le> 4052" using c ipc.enc_width [OF c(1)] by (simp add: req_msg_def)
  have "mbox ?rq (ts v) ?t = [?x]"
    using assms(1,3) by (simp add: v mbox_def msq_at_set call_ready_def req_msg_def)
  then obtain rr where g: "get_msg ?rq ?t MSQ_MODE_BLOCK v =
      Returned (int (length (m_buf ?x)), Some ?x) (v\<lparr>ts := msq_set ?rq rr (ts v)\<rparr>)"
    using get_msg_here [of ?rq v ?t ?x "[]" MSQ_MODE_BLOCK] lx c(4) by blast
  define v1 where "v1 = v\<lparr>ts := msq_set ?rq rr (ts v)\<rparr>"
  have cv: "ctl (tp v) (ts v) = Ret m" "ctl (tp v1) (ts v1) = Ret m" using assms(2) by (simp_all add: v v1_def)
  have "length (m_buf ?x) > 0" using ipc.enc_width [OF c(1)] by (simp add: req_msg_def HEAD_LEN_def)
  then have sr: "service_rcv ?t v = Returned (int (length (m_buf ?x)), Some ?x) v1"
    using g cv(1) by (subst service_rcv.simps) (simp add: v1_def)
  obtain j where j: "tux_find_service (Some (c_str (ih_name h))) 1 m = (int j, snd (tux_find_service (Some (c_str (ih_name h))) 1 m))"
    "sc_sd_fun (tSvcTab m ! j) = f"
    using f(1) by (auto simp: svc_handler_def Let_def split: if_splits)
      (metis int_nat_eq linorder_not_le prod.collapse)
  let ?m2 = "upd_pid (nat pos) (\<lambda>e. e\<lparr>sp_req_done := (sp_req_done e + 1) mod 2 ^ 32\<rparr>) m"
  have pb: "m_buf ?x = enc_head h @ pl" by (simp add: req_msg_def)
  have pv: "ALLOC_UNITS (ih_len h + 2048) * 32 \<le> h_avail (p_heap (tp v1))" using p(3) by (simp add: v1_def)
  have fh: "hs (sc_sd_fun (tSvcTab m ! j)) = Some (answer r)" using j(2) f(2) by simp
  obtain a hp where d: "dispatch hs junk pos (Some ?x) v1 =
    obind (case answer r \<lparr>si_name = take TUX_NAME_LEN (c_str (ih_name h)), si_data = Some a, si_len = ih_len h\<rparr>
        (upd_mem (upd_pid (nat pos) (\<lambda>e. e\<lparr>sp_req_done := (sp_req_done e + 1) mod 2 ^ 32\<rparr>)) m
          (v1\<lparr>tp := (tp v1)\<lparr>p_head := h, p_heap := hp, p_jmp := True\<rparr>\<rparr>))
      of Jumped rc st' \<Rightarrow> Returned () st' | r \<Rightarrow> r)
      (\<lambda>u st4. Returned 0 (st4\<lparr>tp := (tp st4)\<lparr>p_heap := tux_free (Some a) (p_heap (tp st4)), p_jmp := False\<rparr>\<rparr>))"
    using dispatch_frame [where hs = hs and hf = "answer r" and junk = junk, OF pb c(1,2) lx cv(2) j(1) p(1,2) pv fh]
    by blast
  define v2 where "v2 = upd_mem (upd_pid (nat pos) (\<lambda>e. e\<lparr>sp_req_done := (sp_req_done e + 1) mod 2 ^ 32\<rparr>)) m
          (v1\<lparr>tp := (tp v1)\<lparr>p_head := h, p_heap := hp, p_jmp := True\<rparr>\<rparr>)"
  have c2: "ctl (tp v2) (ts v2) = Ret ?m2"
    using ctl_set [OF cv(2), of "(tp v1)\<lparr>p_head := h, p_heap := hp, p_jmp := True\<rparr>" ?m2]
    by (simp add: v2_def upd_mem_def set_ctl_def split: shmptr.splits)
  have at: "msq_at ?rs (ts v2) = msq_at ?rs s"
    using c(3) by (simp add: v2_def upd_mem_def v1_def v msq_at_set_other)
  then have hr: "has_room ?rs n (ts v2) = has_room ?rs n s" for n by (simp add: has_room_def)
  obtain q' where q': "msq_at ?rs s = Some q'" "answer r
      \<lparr>si_name = take TUX_NAME_LEN (c_str (ih_name h)), si_data = Some a, si_len = ih_len h\<rparr> v2 = Jumped 1
      (v2\<lparr>tp := (tp v2)\<lparr>p_head := ?h\<rparr>, ts := msq_set ?rs (q_msgs q' @ [\<lparr>m_type = ih_req_msg_type h,
        m_source = 0, m_buf = enc_head ?h @ r\<rparr>]) (ts v2)\<rparr>)"
    using answer_sends [OF _ c2, of r] assms(1) hr at
    by (fastforce simp: call_ready_def BUS_MAX_MSG_LEN_def v2_def upd_mem_def)
  have "mbox ?rs (msq_set ?rs (q_msgs q' @ [y]) (ts v2)) (ih_req_msg_type h)
      = mbox ?rs s (ih_req_msg_type h) @ filter (\<lambda>m. m_type m = ih_req_msg_type h) [y]" for y
    using q'(1) at by (simp add: mbox_def msq_at_set)
  moreover have "sdIsAttach (tp v)"
    using assms(2) by (auto simp: sdIsAttach_def ctl_def split: shmptr.splits)
  moreover have "\<exists>v'. dispatch hs junk pos (Some ?x) v1 = Returned 0 v' \<and> ts v' = msq_set ?rs (q_msgs q' @
      [\<lparr>m_type = ih_req_msg_type h, m_source = 0, m_buf = enc_head ?h @ r\<rparr>]) (ts v2)"
    using d q'(2) unfolding v2_def [symmetric] by simp
  moreover have "mbox ?rs s (ih_req_msg_type h) = []" using assms(1) by (simp add: call_ready_def)
  ultimately show ?thesis
    using sr q'(1) \<open>length (m_buf ?x) > 0\<close> by (auto simp: tux_service_def)
qed

lemma nat_add_int: "nat (int a + int b) = a + b"
  by linarith

lemma tux_call_sent:
  assumes "call_ready m i svrid name h pl r (ts c)" "ctl (tp c) (ts c) = Ret m"
  shows "\<exists>q. msq_at (mb_req_que_id (mbctrl m)) (ts c) = Some q \<and>
    tux_call cap late (Some name) (RawBuf (enc_head h @ pl)) (int (length (enc_head h @ pl))) fl c =
      (let c1 = c\<lparr>ts := msq_set (mb_req_que_id (mbctrl m)) (q_msgs q @ [req_msg (svrid + SVR_MSG_TYPE_ROOT)
             (enc_head h @ pl)]) (ts c), tp := (tp c)\<lparr>p_expired := False\<rparr>\<rparr>
       in obind (get_msg (mb_rsp_que_id (mbctrl m)) (ih_req_msg_type (p_head (tp c))) MSQ_MODE_BLOCK c1)
         (\<lambda>(n, x) st2.
            if n \<le> 0 then Returned (-1, None) st2
            else let st3 = st2\<lparr>tp := (tp st2)\<lparr>p_expired := late\<rparr>\<rparr>
              in if p_expired (tp st3) then obind (fail (-1) SYS_TIMEOUT st3) (\<lambda>rc st. Returned (rc, None) st)
                 else if nat n > cap then Faulted BufOverflow
                 else Returned (0, Some (take (nat n) (sbuf_of x))) st3))"
proof -
  obtain q where q: "msq_at (mb_req_que_id (mbctrl m)) (ts c) = Some q"
    "send_req m i (RawBuf (enc_head h @ pl)) (length (enc_head h @ pl)) c = Returned 0
      (c\<lparr>ts := msq_set (mb_req_que_id (mbctrl m)) (q_msgs q @ [req_msg (svrid + SVR_MSG_TYPE_ROOT) (enc_head h @ pl)]) (ts c)\<rparr>)"
    using send_req_frame [OF assms] by blast
  have l: "length (enc_head h) = HEAD_LEN" "HEAD_LEN > 0"
    using assms(1) by (auto simp: call_ready_def ipc.enc_width HEAD_LEN_def)
  have att: "sdIsAttach (tp c)"
    using assms(2) by (auto simp: sdIsAttach_def ctl_def split: shmptr.splits)
  show ?thesis
    using q assms l att by (intro exI [of _ q])
      (simp add: tux_call_def arg_len_def mem_def call_ready_def Let_def nat_add_int)
qed

lemma acall_sends:
  assumes "call_ready m i svrid name h pl r (ts c)" "ctl (tp c) (ts c) = Ret m"
    "tux_acall (Some name) (RawBuf (enc_head h @ pl)) (int (length (enc_head h @ pl))) fl c = Returned 0 a"
  shows "\<exists>q. msq_at (mb_req_que_id (mbctrl m)) (ts c) = Some q \<and> ts a = msq_set (mb_req_que_id (mbctrl m))
    (q_msgs q @ [req_msg (svrid + SVR_MSG_TYPE_ROOT) (enc_head h @ pl)]) (ts c)"
proof -
  have l: "length (enc_head h) = HEAD_LEN" "HEAD_LEN > 0"
    using assms(1) by (auto simp: call_ready_def ipc.enc_width HEAD_LEN_def)
  have att: "sdIsAttach (tp c)"
    using assms(2) by (auto simp: sdIsAttach_def ctl_def split: shmptr.splits)
  show ?thesis
    using send_req_frame [OF assms(1,2)] assms l att
    by (auto simp: tux_acall_def arg_len_def mem_def call_ready_def nat_add_int)
qed

section \<open>Cleaning\<close>

lemma ts_inj: "st\<lparr>ts := a, tw := w\<rparr> = st\<lparr>tw := w', ts := b\<rparr> \<Longrightarrow> a = b"
  by (cases st) simp

lemma clean_loop:
  assumes "ctl (tp st) (ts st) = Ret m" "t > 0" "msq_at (mb_req_que_id (mbctrl m)) (ts st) = Some q"
    "\<forall>x \<in> set (mbox (mb_req_que_id (mbctrl m)) (ts st) t). length (m_buf x) \<le> 4052"
  shows "\<exists>st'. clean_task_msg t st = Returned 0 st' \<and> mbox (mb_req_que_id (mbctrl m)) (ts st') t = []
    \<and> (\<forall>u. u \<noteq> t \<longrightarrow> mbox (mb_req_que_id (mbctrl m)) (ts st') u = mbox (mb_req_que_id (mbctrl m)) (ts st) u)"
  using assms
proof (induction "length (mbox (mb_req_que_id (mbctrl m)) (ts st) t)" arbitrary: st q)
  case 0
  let ?q = "mb_req_que_id (mbctrl m)"
  have "msgrcv_try ?q BUS_MAX_MSG_LEN t (ts st) = None"
    using 0 by (intro mbox_try_none [of _ _ q]) simp_all
  then have "get_msg ?q t MSQ_MODE_NONBLOCK (st\<lparr>tw := []\<rparr>) = Returned (-9, None) (st\<lparr>tw := [],
      tp := (tp st)\<lparr>p_kerrno := ENOMSG\<rparr>\<rparr>)"
    by (simp add: get_msg_def MsqRcv_def msgrcv.simps [of _ _ _ _ _ "[]"])
  then show ?case
    using 0 by (subst clean_task_msg.simps) simp
next
  case (Suc n)
  let ?q = "mb_req_que_id (mbctrl m)"
  obtain x r where x: "mbox ?q (ts st) t = x # r" "length r = n" using Suc.hyps(2) by (metis length_Suc_conv)
  have lx: "length (m_buf x) \<le> 4052" using Suc.prems(4) x(1) by simp
  obtain rr where g: "get_msg ?q t MSQ_MODE_NONBLOCK (st\<lparr>tw := []\<rparr>) =
      Returned (int (length (m_buf x)), Some x) (st\<lparr>tw := [], ts := msq_set ?q rr (ts st)\<rparr>)"
    using get_msg_here [of ?q "st\<lparr>tw := []\<rparr>" t x r MSQ_MODE_NONBLOCK] x(1) lx Suc.prems(2) by auto
  define st1 where "st1 = st\<lparr>ts := msq_set ?q rr (ts st)\<rparr>"
  have s: "clean_task_msg t st = clean_task_msg t st1"
    using Suc.prems(1) g by (subst clean_task_msg.simps) (simp add: st1_def)
  have "MsqRcv ?q BUS_MAX_MSG_LEN t MSQ_MODE_NONBLOCK (ts st) []
      = Done (int (length (m_buf x)), Some x, 0, msq_set ?q rr (ts st), [])"
    using g mbox_try [OF x(1) Suc.prems(2) lx] MsqRcv_now [of ?q BUS_MAX_MSG_LEN t "ts st"]
    by (auto simp: get_msg_def dest: ts_inj)
  then have "mbox_recv ?q t (ts st) = Some (x, ts st1)" by (simp add: mbox_recv_def st1_def)
  from mbox_recv_laws [OF Suc.prems(2) this] x(1)
  have b: "mbox ?q (ts st1) t = r" "\<forall>u. u \<noteq> t \<longrightarrow> mbox ?q (ts st1) u = mbox ?q (ts st) u" by auto
  have c1: "ctl (tp st1) (ts st1) = Ret m" "msq_at ?q (ts st1) = Some (q\<lparr>q_msgs := rr\<rparr>)"
    using Suc.prems(1,3) by (simp_all add: st1_def msq_at_set)
  have "\<exists>st'. clean_task_msg t st1 = Returned 0 st' \<and> mbox ?q (ts st') t = []
    \<and> (\<forall>u. u \<noteq> t \<longrightarrow> mbox ?q (ts st') u = mbox ?q (ts st1) u)"
    using Suc.hyps(1) [of st1, OF _ c1(1) Suc.prems(2) c1(2)] b(1) x Suc.prems(4) by simp
  then show ?case using s b(2) by auto
qed

lemma call_answered:
  assumes "call_ready m i svrid name h pl r (ts c)" "ctl (tp c) (ts c) = Ret m" "p_head (tp c) = h"
    and "tux_acall (Some name) (RawBuf (enc_head h @ pl)) (int (length (enc_head h @ pl))) fl c = Returned 0 a"
    and "ts v = ts a" "p_ctl (tp v) = p_ctl (tp c)" "svc_handler (c_str (ih_name h)) m = Some f" "hs f = Some (answer r)"
    and "0 \<le> pos" "pos < int (length (tSvrPid m))" "ALLOC_UNITS (ih_len h + 2048) * 32 \<le> h_avail (p_heap (tp v))"
    and "HEAD_LEN + length r \<le> cap"
  shows "\<exists>v' c'. tux_service hs junk svrid pos v = Returned 0 v' \<and>
    tux_call cap False (Some name) (RawBuf (enc_head h @ pl)) (int (length (enc_head h @ pl))) fl
      (c\<lparr>tw := Others (ts v') # ws\<rparr>) = Returned (0, Some (enc_head (h\<lparr>ih_len := int (length r)\<rparr>) @ r)) c'"
proof -
  let ?rq = "mb_req_que_id (mbctrl m)" and ?rs = "mb_rsp_que_id (mbctrl m)"
  let ?x = "\<lparr>m_type = ih_req_msg_type h, m_source = 0, m_buf = enc_head (h\<lparr>ih_len := int (length r)\<rparr>) @ r\<rparr>"
  obtain q where q: "msq_at ?rq (ts c) = Some q" "ts a = msq_set ?rq (q_msgs q @ [req_msg (svrid + SVR_MSG_TYPE_ROOT)
      (enc_head h @ pl)]) (ts c)"
    using acall_sends [OF assms(1,2,4)] by blast
  have cv: "ctl (tp v) (ts c) = Ret m" using assms(2,6) by (simp add: ctl_def)
  obtain v' q' where v': "tux_service hs junk svrid pos v = Returned 0 v'" "msq_at ?rs (ts c) = Some q'"
    "mbox ?rs (ts v') (ih_req_msg_type h) = [?x]"
    using service_answers [where hs = hs and f = f and junk = junk, OF assms(1) cv q(1) _ assms(7-11)] assms(5) q(2) by auto
  define c0 where "c0 = c\<lparr>tw := Others (ts v') # ws\<rparr>"
  have r0: "call_ready m i svrid name h pl r (ts c0)" "ctl (tp c0) (ts c0) = Ret m"
    using assms(1,2) by (simp_all add: c0_def)
  define c1 where "c1 = c0\<lparr>ts := msq_set ?rq (q_msgs q @ [req_msg (svrid + SVR_MSG_TYPE_ROOT) (enc_head h @ pl)]) (ts c0),
     tp := (tp c0)\<lparr>p_expired := False\<rparr>\<rparr>"
  have lx: "length (m_buf ?x) = HEAD_LEN + length r"
    using assms(1) by (simp add: call_ready_def head_ok_def HEAD_LEN_def)
  have w: "msq_at ?rs (ts c1) = Some q'" "mbox ?rs (ts c1) (ih_req_msg_type h) = []" "ih_req_msg_type h > 0"
    "tw c1 = Others (ts v') # ws" "length (m_buf ?x) \<le> 4052"
    using assms(1) v'(2) lx by (auto simp: c1_def c0_def call_ready_def msq_at_set_other mbox_def)
  obtain rr where g: "get_msg ?rs (ih_req_msg_type h) MSQ_MODE_BLOCK c1 =
      Returned (int (length (m_buf ?x)), Some ?x) (c1\<lparr>ts := msq_set ?rs rr (ts v'), tw := ws\<rparr>)"
    using get_msg_after_wait [OF w(1-4) v'(3) w(5)] by blast
  obtain pd where "sbuf_of (Some ?x) = m_buf ?x @ pd" using sbuf_frame [OF w(5)] by blast
  then have "take (length (m_buf ?x)) (sbuf_of (Some ?x)) = m_buf ?x" by simp
  moreover have "HEAD_LEN > 0" by (simp add: HEAD_LEN_def)
  moreover have "ts c0 = ts c" "p_head (tp c0) = h" using assms(3) by (simp_all add: c0_def)
  ultimately have "\<exists>c'. tux_call cap False (Some name) (RawBuf (enc_head h @ pl)) (int (length (enc_head h @ pl))) fl c0
      = Returned (0, Some (m_buf ?x)) c'"
    using tux_call_sent [OF r0, of cap False fl] q(1) g assms(12) lx
    by (auto simp: c1_def Let_def nat_add_int)
  then show ?thesis using v'(1) by (auto simp: c0_def)
qed

section \<open>Properties\<close>

text \<open>Claim C1. A synchronous call and its answer: for an attached client, a service that is up and a
  well-formed request frame, one turn of \<open>tux_service\<close> in the server (with the advertised handler that
  answers \<open>r\<close> through \<open>tux_return\<close>) succeeds, and \<open>tux_call\<close>, asleep until then, returns 0 with exactly
  the request's header, its length set to that of the answer, followed by the answer.\<close>

theorem tux_call_roundtrip:
  assumes "call_ready m i svrid name h pl r (ts c)" "ctl (tp c) (ts c) = Ret m" "p_head (tp c) = h"
    and "tux_acall (Some name) (RawBuf (enc_head h @ pl)) (int (length (enc_head h @ pl))) fl c = Returned 0 a"
    and "ts v = ts a" "p_ctl (tp v) = p_ctl (tp c)" "svc_handler (c_str (ih_name h)) m = Some f" "hs f = Some (answer r)"
    and "0 \<le> pos" "pos < int (length (tSvrPid m))" "ALLOC_UNITS (ih_len h + 2048) * 32 \<le> h_avail (p_heap (tp v))"
    and "HEAD_LEN + length r \<le> cap"
  shows "\<exists>v' c'. tux_service hs junk svrid pos v = Returned 0 v' \<and>
    tux_call cap False (Some name) (RawBuf (enc_head h @ pl)) (int (length (enc_head h @ pl))) fl
      (c\<lparr>tw := Others (ts v') # ws\<rparr>) = Returned (0, Some (enc_head (h\<lparr>ih_len := int (length r)\<rparr>) @ r)) c'"
  by (rule call_answered [where hs = hs and f = f, OF assms])

text \<open>A running system with the service TEST of server 7, advertised at address 9.\<close>

definition mem_test :: sdmem where
  "mem_test = sdmem2\<lparr>tSvcTab := [svc_zero\<lparr>sc_name := ''TEST'', sc_sd_fun := 9\<rparr>, svc_zero\<lparr>sc_flags := -1\<rparr>]\<rparr>"

definition head_test :: IPCMsgHead where
  "head_test = head_zero\<lparr>ih_name := ''TEST'' @ pad 29, ih_req_msg_type := 1000, ih_len := 2\<rparr>"

definition st_test :: tst where
  "st_test = \<lparr>tp = \<lparr>p_pid = 30, p_ctl = PSeg 2, p_errno = 0, p_head = head_test, p_jmp = False, p_expired = False,
       p_heap = \<lparr>h_blocks = Map.empty, h_next = 1000, h_avail = 100000\<rparr>, p_kerrno = 0\<rparr>,
     ts = \<lparr>k_region = None, k_next = 7, k_limit = 100, k_shm = [(0, 2, 100000)], k_attached = [2],
       k_can_attach = True, k_sem = [], k_msq = [\<lparr>q_key = 601107, q_id = 5, q_msgs = [], q_qbytes = 16384\<rparr>,
         \<lparr>q_key = 601117, q_id = 6, q_msgs = [], q_qbytes = 16384\<rparr>], sd_mem = (\<lambda>i. mem_test), sd_cfg = None,
       sd_now = 0, sd_signals = []\<rparr>, tw = []\<rparr>"

lemma test_ready: "call_ready mem_test 1 7 ''TEST'' head_test ''hi'' ''done'' (ts st_test)"
  by code_simp

lemma test_mem: "ctl (tp st_test) (ts st_test) = Ret mem_test" "p_head (tp st_test) = head_test"
  by (simp_all add: st_test_def ctl_def)

theorem tux_call_roundtrip_witness:
  "\<exists>a v' c'. tux_acall (Some ''TEST'') (RawBuf (enc_head head_test @ ''hi'')) 98 0 st_test = Returned 0 a
    \<and> tux_service [9 \<mapsto> answer ''done''] [] 7 1 a = Returned 0 v'
    \<and> tux_call 4096 False (Some ''TEST'') (RawBuf (enc_head head_test @ ''hi'')) 98 0
        (st_test\<lparr>tw := [Others (ts v')]\<rparr>) = Returned (0, Some (enc_head (head_test\<lparr>ih_len := 4\<rparr>) @ ''done'')) c'"
proof -
  let ?f = "enc_head head_test @ ''hi''"
  have l: "int (length ?f) = 98" by code_simp
  obtain q where q: "msq_at 5 (ts st_test) = Some q" "send_req mem_test 1 (RawBuf ?f) (length ?f) st_test
      = Returned 0 (st_test\<lparr>ts := msq_set 5 (q_msgs q @ [req_msg 300007 ?f]) (ts st_test)\<rparr>)"
    using send_req_frame [OF test_ready test_mem(1)] by (auto simp: mem_test_def sdmem2_def SVR_MSG_TYPE_ROOT_def)
  have "tux_locatemb ''TEST'' mem_test = 1" "\<not> svc_down mem_test 1" "mb_max_msg_len (mbctrl mem_test) = 4096"
    by code_simp+
  moreover have "sdIsAttach (tp st_test)" by code_simp
  moreover have "length ?f = 98" by code_simp
  ultimately obtain a where a: "tux_acall (Some ''TEST'') (RawBuf ?f) (int (length ?f)) 0 st_test = Returned 0 a"
    "tp a = tp st_test"
    using q(2) by (simp add: tux_acall_def arg_len_def mem_Ret [OF test_mem(1)])
  have h: "svc_handler (c_str (ih_name head_test)) mem_test = Some 9" "(1::int) < int (length (tSvrPid mem_test))"
    "ALLOC_UNITS (ih_len head_test + 2048) * 32 \<le> h_avail (p_heap (tp st_test))"
    "HEAD_LEN + length ''done'' \<le> 4096"
    by code_simp+
  show ?thesis
    using tux_call_roundtrip [where hs = "[9 \<mapsto> answer ''done'']" and f = 9 and pos = 1 and cap = 4096
        and ws = "[]" and v = a and junk = "[]", OF test_ready test_mem a(1) refl _ h(1) _ _ h(2)] a h l
    by auto
qed

text \<open>A call that times out: when the alarm interrupts the wait, \<open>tux_call\<close> returns -1 but leaves
  \<open>tux_errno\<close> at its old value (\<open>SYS_TIMEOUT\<close> is only set when a reply was received), and the
  request stays in the request queue, so that its late reply is left for the next caller with the same
  message type.\<close>

theorem tux_call_timeout:
  assumes "call_ready m i svrid name h pl r (ts c)" "ctl (tp c) (ts c) = Ret m" "p_head (tp c) = h"
    and "tw c = Signal # ws"
  shows "\<exists>c'. tux_call cap late (Some name) (RawBuf (enc_head h @ pl)) (int (length (enc_head h @ pl))) fl c
      = Returned (-1, None) c' \<and> p_errno (tp c') = p_errno (tp c) \<and> p_kerrno (tp c') = EINTR
      \<and> mbox (mb_req_que_id (mbctrl m)) (ts c') (svrid + SVR_MSG_TYPE_ROOT)
          = [req_msg (svrid + SVR_MSG_TYPE_ROOT) (enc_head h @ pl)]"
proof -
  let ?rq = "mb_req_que_id (mbctrl m)" and ?rs = "mb_rsp_que_id (mbctrl m)"
  let ?x = "req_msg (svrid + SVR_MSG_TYPE_ROOT) (enc_head h @ pl)"
  obtain q where q: "msq_at ?rq (ts c) = Some q" "tux_call cap late (Some name) (RawBuf (enc_head h @ pl))
      (int (length (enc_head h @ pl))) fl c =
      (let c1 = c\<lparr>ts := msq_set ?rq (q_msgs q @ [?x]) (ts c), tp := (tp c)\<lparr>p_expired := False\<rparr>\<rparr>
       in obind (get_msg ?rs (ih_req_msg_type (p_head (tp c))) MSQ_MODE_BLOCK c1)
         (\<lambda>(n, x) st2.
            if n \<le> 0 then Returned (-1, None) st2
            else let st3 = st2\<lparr>tp := (tp st2)\<lparr>p_expired := late\<rparr>\<rparr>
              in if p_expired (tp st3) then obind (fail (-1) SYS_TIMEOUT st3) (\<lambda>rc st. Returned (rc, None) st)
                 else if nat n > cap then Faulted BufOverflow
                 else Returned (0, Some (take (nat n) (sbuf_of x))) st3))"
    using tux_call_sent [OF assms(1,2), of cap late fl] by blast
  let ?s1 = "msq_set ?rq (q_msgs q @ [?x]) (ts c)"
  obtain q' where q': "msq_at ?rs (ts c) = Some q'"
    using assms(1) by (auto simp: call_ready_def has_room_def split: option.splits)
  have r: "?rq \<noteq> ?rs" "mbox ?rs (ts c) (ih_req_msg_type h) = []" "ih_req_msg_type h > 0"
    "mbox ?rq (ts c) (svrid + SVR_MSG_TYPE_ROOT) = []"
    using assms(1) by (simp_all add: call_ready_def)
  have "msgrcv_try ?rs BUS_MAX_MSG_LEN (ih_req_msg_type h) ?s1 = None"
    using r q' by (intro mbox_try_none [of _ _ q']) (simp_all add: mbox_def msq_at_set_other)
  then have "msgrcv ?rs BUS_MAX_MSG_LEN (ih_req_msg_type h) False ?s1 (Signal # ws) = Done (Inl EINTR, ?s1, ws)"
    by (subst msgrcv.simps) simp
  moreover have "mbox ?rq ?s1 (svrid + SVR_MSG_TYPE_ROOT) = [?x]"
    using r(4) q(1) by (simp add: mbox_def msq_at_set req_msg_def)
  ultimately show ?thesis
    using q(2) assms(3,4)
    by (simp add: get_msg_def MsqRcv_def MSQ_MODE_BLOCK_def MSQ_MODE_NONBLOCK_def Let_def)
qed

theorem tux_call_timeout_witness:
  "\<exists>c'. tux_call 4096 False (Some ''TEST'') (RawBuf (enc_head head_test @ ''hi''))
      (int (length (enc_head head_test @ ''hi''))) 0 (st_test\<lparr>tw := [Signal]\<rparr>) = Returned (-1, None) c'
    \<and> p_errno (tp c') = 0 \<and> mbox 5 (ts c') 300007 = [req_msg 300007 (enc_head head_test @ ''hi'')]"
  using tux_call_timeout [of mem_test 1 7 "''TEST''" head_test "''hi''" "''done''" "st_test\<lparr>tw := [Signal]\<rparr>" "[]"
      4096 False 0] test_ready test_mem
  by (fastforce simp: SVR_MSG_TYPE_ROOT_def mem_test_def sdmem2_def st_test_def)

text \<open>The length check of the calls lets requests through that do not fit: \<open>sBuf\<close> has 4060 bytes,
  the limit \<open>max_msg_len\<close> is 4096 by default, and every request between the two overruns
  \<open>sBuf\<close> on the stack in \<open>tux_call\<close> and \<open>tux_acall\<close>.\<close>

theorem long_request_overflows:
  assumes "ctl (tp c) (ts c) = Ret m" "tux_locatemb name m = int i" "\<not> svc_down m i"
    and "BUS_MAX_MSG_LEN < length d" "int (length d) \<le> mb_max_msg_len (mbctrl m)"
  shows "tux_call cap late (Some name) (RawBuf d) (int (length d)) fl c = Faulted BufOverflow
    \<and> tux_acall (Some name) (RawBuf d) (int (length d)) fl c = Faulted BufOverflow"
proof -
  have "sdIsAttach (tp c)" using assms(1) by (auto simp: sdIsAttach_def ctl_def split: shmptr.splits)
  then show ?thesis
    using assms by (auto simp: tux_call_def tux_acall_def arg_len_def mem_def send_req_def)
qed

theorem long_request_overflows_witness:
  "tux_call 4096 False (Some ''TEST'') (RawBuf (replicate 4061 NUL)) (int (length (replicate 4061 NUL))) 0 st_test
     = Faulted BufOverflow"
proof -
  have "tux_locatemb ''TEST'' mem_test = int 1" "\<not> svc_down mem_test 1" "mb_max_msg_len (mbctrl mem_test) = 4096"
    by code_simp+
  then show ?thesis
    using long_request_overflows [OF test_mem(1), of "''TEST''" 1 "replicate 4061 NUL" 4096 False 0]
    by (simp add: BUS_MAX_MSG_LEN_def)
qed

lemma negative_length_faults:
  assumes "ctl (tp v) (ts v) = Ret m" "mbox (mb_req_que_id (mbctrl m)) (ts v) (svrid + SVR_MSG_TYPE_ROOT) = x # rest"
    and "svrid + SVR_MSG_TYPE_ROOT > 0" "m_buf x = enc_head h @ pl" "head_ok h" "length (m_buf x) \<le> 4052"
    and "ih_len h < 0" "svc_handler (c_str (ih_name h)) m = Some f"
  shows "tux_service hs junk svrid pos v = Faulted NullDeref"
proof -
  let ?rq = "mb_req_que_id (mbctrl m)"
  obtain rr where g: "get_msg ?rq (svrid + SVR_MSG_TYPE_ROOT) MSQ_MODE_BLOCK v =
      Returned (int (length (m_buf x)), Some x) (v\<lparr>ts := msq_set ?rq rr (ts v)\<rparr>)"
    using get_msg_here [OF assms(2,3,6)] by blast
  have p: "length (m_buf x) > 0" using assms(4,5) ipc.enc_width [OF assms(5)] by (simp add: HEAD_LEN_def)
  have a: "sdIsAttach (tp v)" using assms(1) by (auto simp: sdIsAttach_def ctl_def split: shmptr.splits)
  obtain pd where "sbuf_of (Some x) = enc_head h @ pl @ pd" using sbuf_frame [OF assms(6)] assms(4) by auto
  then have "dec_head (sbuf_of (Some x)) = h" using ipc.frame [OF assms(5)] by simp
  moreover have "\<not> fst (tux_find_service (Some (c_str (ih_name h))) 1 m) < 0"
    using assms(8) by (simp add: svc_handler_def Let_def split: if_splits)
  ultimately have "dispatch hs junk pos (Some x) (v\<lparr>ts := msq_set ?rq rr (ts v)\<rparr>) = Faulted NullDeref"
    using assms(1,7) by (simp add: dispatch_def Let_def mem_def split: prod.splits)
  then show ?thesis
    using g p a assms(1) by (simp add: tux_service_def service_rcv.simps [of _ v])
qed

definition bad_test :: tst where
  "bad_test = st_test\<lparr>ts := msq_set 5 [req_msg 300007 (enc_head (head_test\<lparr>ih_len := -4\<rparr>))] (ts st_test)\<rparr>"

text \<open>Claim C37. A request whose header carries a negative length for an advertised service brings the server
  down: \<open>tux_alloc\<close> refuses the length and \<open>memcpy\<close> writes to the null pointer. The length
  comes from the peer (\<open>commserver\<close> subtracts its header size without a check).\<close>

theorem negative_length_crashes_server:
  assumes "ctl (tp v) (ts v) = Ret m" "mbox (mb_req_que_id (mbctrl m)) (ts v) (svrid + SVR_MSG_TYPE_ROOT) = x # rest"
    and "svrid + SVR_MSG_TYPE_ROOT > 0" "m_buf x = enc_head h @ pl" "head_ok h" "length (m_buf x) \<le> 4052"
    and "ih_len h < 0" "svc_handler (c_str (ih_name h)) m = Some f"
  shows "tux_service hs junk svrid pos v = Faulted NullDeref"
  by (rule negative_length_faults [OF assms])

theorem negative_length_crashes_server_witness:
  "tux_service [9 \<mapsto> answer ''done''] [] 7 1 bad_test = Faulted NullDeref"
proof (rule negative_length_crashes_server [where f = 9 and pl = "[]"])
  show "ctl (tp bad_test) (ts bad_test) = Ret mem_test" using test_mem(1) by (simp add: bad_test_def)
  show "mbox (mb_req_que_id (mbctrl mem_test)) (ts bad_test) (7 + SVR_MSG_TYPE_ROOT)
      = [req_msg 300007 (enc_head (head_test\<lparr>ih_len := -4\<rparr>))]" by code_simp
  show "svc_handler (c_str (ih_name (head_test\<lparr>ih_len := -4\<rparr>))) mem_test = Some 9" by code_simp
  show "head_ok (head_test\<lparr>ih_len := -4\<rparr>)" by code_simp
  show "length (m_buf (req_msg 300007 (enc_head (head_test\<lparr>ih_len := -4\<rparr>)))) \<le> 4052" by code_simp
qed (simp_all add: SVR_MSG_TYPE_ROOT_def req_msg_def)

text \<open>Claim C35. \<open>clean_task_msg\<close> ends, removes every waiting request of its type (when each can be received)
  and keeps the requests of every other server in their order.\<close>

theorem clean_task_msg_selective:
  assumes "ctl (tp st) (ts st) = Ret m" "t > 0" "msq_at (mb_req_que_id (mbctrl m)) (ts st) = Some q"
    "\<forall>x \<in> set (mbox (mb_req_que_id (mbctrl m)) (ts st) t). length (m_buf x) \<le> 4052"
  shows "\<exists>st'. clean_task_msg t st = Returned 0 st' \<and> mbox (mb_req_que_id (mbctrl m)) (ts st') t = []
    \<and> (\<forall>u. u \<noteq> t \<longrightarrow> mbox (mb_req_que_id (mbctrl m)) (ts st') u = mbox (mb_req_que_id (mbctrl m)) (ts st) u)"
  using clean_loop [OF assms] .

theorem clean_task_msg_selective_witness:
  "\<exists>st'. clean_task_msg 300007 bad_test = Returned 0 st' \<and> mbox 5 (ts st') 300007 = []"
proof -
  have "ctl (tp bad_test) (ts bad_test) = Ret mem_test" using test_mem(1) by (simp add: bad_test_def)
  moreover have "msq_at 5 (ts bad_test) \<noteq> None" by code_simp
  moreover have "\<forall>x \<in> set (mbox 5 (ts bad_test) 300007). length (m_buf x) \<le> 4052" by code_simp
  ultimately show ?thesis
    using clean_task_msg_selective [of bad_test mem_test 300007] by (auto simp: mem_test_def sdmem2_def)
qed

end
