(* ===== verification/TuxCmd.thy ===== *)
theory TuxCmd
  imports TuxCall
begin

text \<open>
  Starting servers and talking to the task manager: \<open>src/dev/src/pubfun/tux/tuxcmd.c\<close>
  (\<open>make_argv\<close>, \<open>server_load\<close>, \<open>packReqHead\<close>, \<open>svr_cmd_deal\<close>), the main program of every server
  \<open>src/dev/src/pubfun/tux/tuxmain.c\<close>, the example server \<open>src/dev/src/onlsvr/testsvr/testsvr.c\<close> and the
  administration tools \<open>src/dev/src/Main/tm*.c\<close>.

  \<open>fork\<close> is an argument of \<open>server_load\<close>: its return value decides on which side the code runs. The
  functions \<open>tux_svrinit\<close> and \<open>tux_svrdone\<close> that a server supplies are arguments of the main program.
  Its endless loop takes a number of turns; \<open>None\<close> means that it is still running after them.
\<close>

section \<open>tuxcmd.c\<close>

text \<open>The loop of \<open>strtok\<close> calls over one buffer.\<close>

lemma strtok_shorter: "strtok d s = Some (t, r) \<Longrightarrow> length r < length s"
proof -
  assume "strtok d s = Some (t, r)"
  then have "r = drop 1 (dropWhile (\<lambda>c. c \<notin> set d) (dropWhile (\<lambda>c. c \<in> set d) s))"
    "dropWhile (\<lambda>c. c \<in> set d) s \<noteq> []"
    by (auto simp: strtok_def Let_def split: if_splits)
  moreover have "length (dropWhile (\<lambda>c. c \<notin> set d) (dropWhile (\<lambda>c. c \<in> set d) s))
      \<le> length (dropWhile (\<lambda>c. c \<in> set d) s)" "length (dropWhile (\<lambda>c. c \<in> set d) s) \<le> length s"
    by (simp_all add: length_dropWhile_le)
  ultimately show ?thesis
    by (cases "dropWhile (\<lambda>c. c \<in> set d) s") auto
qed

function strtok_all :: "string \<Rightarrow> string \<Rightarrow> string list" where
  "strtok_all d s = (case strtok d s of None \<Rightarrow> [] | Some (t, r) \<Rightarrow> t # strtok_all d r)"
  by pat_completeness auto
termination
  by (relation "measure (length \<circ> snd)") (auto dest: strtok_shorter)

declare strtok_all.simps [simp del]

text \<open>The vector has room for 30 pointers, the closing null pointer included.\<close>

definition make_argv :: "string \<Rightarrow> int \<Rightarrow> string list option cres" where
  "make_argv buf usefirst =
     (if usefirst \<le> 0 then Ret None
      else let argv = strtok_all '' '' (RightTrim buf)
           in if length argv \<ge> 30 then Crash BufOverflow
              else if nat (usefirst - 1) > length argv then Crash OutOfBounds
              else Ret (Some (drop (nat (usefirst - 1)) argv)))"

datatype load = Parent int | Child "string list"

text \<open>\<open>pid\<close> is the result of \<open>fork\<close>, \<open>self\<close> what \<open>getpid\<close> returns in the child; the child ends in
  \<open>execvp\<close> with the given argument vector.\<close>

definition server_load :: "int \<Rightarrow> int \<Rightarrow> string \<Rightarrow> string \<Rightarrow> load cres" where
  "server_load pid self tskname arg =
     (if pid = -1 then Ret (Parent (-1))
      else if pid > 0 then Ret (Parent pid)
      else let buf = tskname @ '' '' @ show_int self @ '' '' @ arg
           in if length buf > 128 then Crash BufOverflow
              else cbind (make_argv buf 1) (\<lambda>arg_v. Ret (Child (case arg_v of None \<Rightarrow> [] | Some a \<Rightarrow> a))))"

definition MNG_MSG_TYPE_ROOT :: int where "MNG_MSG_TYPE_ROOT = 400000"
definition REPLY_FLAG_SYN :: int where "REPLY_FLAG_SYN = 1"
definition REPLY_FLAG_ASYN :: int where "REPLY_FLAG_ASYN = 2"
definition TSK_CMD_START :: int where "TSK_CMD_START = 1"
definition TSK_CMD_EXIT :: int where "TSK_CMD_EXIT = 2"
definition TSK_CMD_FRESH :: int where "TSK_CMD_FRESH = 3"

text \<open>\<open>strcpy\<close> into an array of \<open>n\<close> bytes that was cleared before.\<close>

definition cstr_in :: "nat \<Rightarrow> string \<Rightarrow> string" where
  "cstr_in n s = s @ pad (n - length s)"

definition packReqHead :: "int \<Rightarrow> int \<Rightarrow> IPCMsgHead \<Rightarrow> IPCMsgHead" where
  "packReqHead now lMsgType h =
     h\<lparr>ih_name := SD_MANAGER_SVC_NAME @ NUL # drop (Suc (length SD_MANAGER_SVC_NAME)) (ih_name h),
       ih_ssn := now mod 2 ^ 32, ih_req_msg_type := lMsgType, ih_fd := 0, ih_utime := now,
       ih_reply_flag := REPLY_FLAG_SYN, ih_len := int TSKCMD_LEN\<rparr>"

definition svr_cmd_deal :: "bool \<Rightarrow> int \<Rightarrow> int \<Rightarrow> tst \<Rightarrow> int out" where
  "svr_cmd_deal late svr cmd st =
     (let h = packReqHead (sd_now (ts st)) (cmd + MNG_MSG_TYPE_ROOT) head_zero;
          st1 = st\<lparr>tp := (tp st)\<lparr>p_head := h\<rparr>\<rparr>;
          tTaskCmd = \<lparr>tc_cmd = cmd, tc_id = svr, tc_err = 0\<rparr>;
          sReqBuf = cstr_in 1025 (enc_head h @ enc_tskcmd tTaskCmd)
      in obind (tux_call 1025 late (Some SD_MANAGER_SVC_NAME) (RawBuf sReqBuf) (int (TSKCMD_LEN + HEAD_LEN)) 0 st1)
           (\<lambda>(rc, rsp) st2.
              if rc \<noteq> 0 then Returned rc st2
              else let sRspBuf = cstr_in 1025 (case rsp of None \<Rightarrow> [] | Some r \<Rightarrow> r)
                   in Returned (tc_err (dec_tskcmd (drop HEAD_LEN sRspBuf))) st2))"

section \<open>The main program of a server\<close>

definition lift_ps :: "(tproc \<Rightarrow> sys \<Rightarrow> (int \<times> tproc \<times> sys) cres) \<Rightarrow> tst \<Rightarrow> int out" where
  "lift_ps f st = obind (of_cres (f (tp st) (ts st)) st) (\<lambda>(rc, p, s) st. Returned rc (st\<lparr>tp := p, ts := s\<rparr>))"

text \<open>The command line: the process id, the position in the process table, the server id.\<close>

definition server_args :: "int \<Rightarrow> string list \<Rightarrow> (int \<times> int) option" where
  "server_args self argv =
     (if length argv < 4 then None
      else if atol (argv ! 1) \<noteq> self then None
      else Some (atoi (argv ! 2), atoi (argv ! 3)))"

fun serve_loop :: "nat \<Rightarrow> handlers \<Rightarrow> string \<Rightarrow> int \<Rightarrow> int \<Rightarrow> tst \<Rightarrow> int out option" where
  "serve_loop 0 hs junk svrid svc_pos st = None"
| "serve_loop (Suc n) hs junk svrid svc_pos st =
     (case tux_service hs junk svrid svc_pos st of
        Returned rc st' \<Rightarrow>
          if rc \<noteq> 0 \<and> p_errno (tp st') \<noteq> SYS_NOENT then Some (Returned (-1) st')
          else serve_loop n hs junk svrid svc_pos st'
      | r \<Rightarrow> Some r)"

definition server_main :: "nat \<Rightarrow> handlers \<Rightarrow> (string list \<Rightarrow> tst \<Rightarrow> int out) \<Rightarrow> (tst \<Rightarrow> unit out) \<Rightarrow> int \<Rightarrow> string \<Rightarrow>
    string list \<Rightarrow> tst \<Rightarrow> int out option" where
  "server_main n hs tux_svrinit tux_svrdone qjunk junk argv st =
     (case server_args (p_pid (tp st)) argv of
        None \<Rightarrow> Some (Returned (-1) st)
      | Some (svc_pos, svrid) \<Rightarrow>
          (case lift_ps (ipc_connect qjunk) st of
             Returned rc st1 \<Rightarrow>
               if rc \<noteq> 0 then Some (Returned rc st1)
               else (case mem st1 of
                   Returned m st1 \<Rightarrow>
                     if svc_pos < 0 \<or> svc_pos \<ge> int (length (tSvrPid m)) then Some (Faulted OutOfBounds)
                     else (case tux_svrinit argv st1 of
                         Returned rc st2 \<Rightarrow>
                           if rc \<noteq> 0 then Some (obind (tux_svrdone st2) (\<lambda>u st3. Returned rc st3))
                           else (case serve_loop n hs junk svrid svc_pos st2 of
                               None \<Rightarrow> None
                             | Some r \<Rightarrow> Some (obind r (\<lambda>rc st3. obind (tux_svrdone st3) (\<lambda>u st4. Returned (-1) st4))))
                       | r \<Rightarrow> Some r)
                 | r \<Rightarrow> Some (obind r (\<lambda>m st. Returned 0 st)))
           | r \<Rightarrow> Some r))"

definition exit_handler :: "(tst \<Rightarrow> unit out) \<Rightarrow> tst \<Rightarrow> unit out" where
  "exit_handler tux_svrdone st = obind (tux_svrdone st) (\<lambda>u st. Exited 0 st)"

section \<open>The example server\<close>

definition advertise_here :: "string option \<Rightarrow> nat option \<Rightarrow> tst \<Rightarrow> int out" where
  "advertise_here name f st =
     (case p_ctl (tp st) of
        PNull \<Rightarrow> obind (of_cres (tux_advertise name f (p_errno (tp st)) None) st)
          (\<lambda>(rc, e, m) st. Returned rc (st\<lparr>tp := (tp st)\<lparr>p_errno := e\<rparr>\<rparr>))
      | _ \<Rightarrow> obind (mem st) (\<lambda>m st.
          obind (of_cres (tux_advertise name f (p_errno (tp st)) (Some m)) st) (\<lambda>(rc, e, m') st.
            Returned rc (st\<lparr>tp := (tp st)\<lparr>p_errno := e\<rparr>, ts := (case m' of None \<Rightarrow> ts st
              | Some x \<Rightarrow> set_ctl (tp st) x (ts st))\<rparr>))))"

definition tpsvrinit :: "nat \<Rightarrow> string list \<Rightarrow> tst \<Rightarrow> int out" where
  "tpsvrinit addr argv st =
     obind (advertise_here (Some ''testsvr'') (Some addr) st) (\<lambda>rc st. Returned (if rc \<noteq> 0 then -1 else 0) st)"

definition tpsvrdone :: "tst \<Rightarrow> unit out" where
  "tpsvrdone st = Returned () st"

definition testsvr :: "sd_info_t \<Rightarrow> tst \<Rightarrow> unit out" where
  "testsvr info st =
     obind (of_cres (buf_write (si_data info) 0 ''test222222 111111112'' (p_heap (tp st))) st) (\<lambda>hp st.
       tux_return TUX_SUCCESS 0 (case si_data info of None \<Rightarrow> NullBuf | Some a \<Rightarrow> HeapBuf a) 20 0
         (st\<lparr>tp := (tp st)\<lparr>p_heap := hp\<rparr>\<rparr>))"

section \<open>Administration tools\<close>

definition tmdown_main :: "int \<Rightarrow> tst \<Rightarrow> int out" where
  "tmdown_main qjunk st =
     obind (lift_ps (ipc_connect qjunk) st) (\<lambda>rc st.
       if rc \<noteq> 0 then Returned (-1) st
       else obind (of_cres (ipc_remove (tp st) (ts st)) st) (\<lambda>(rc, s) st.
         Returned (if rc \<noteq> 0 then -2 else 0) (st\<lparr>ts := s\<rparr>)))"

text \<open>The three command tools differ in the command; \<open>optarg\<close> is the argument of \<open>-i\<close>, if it is there.\<close>

definition tm_main :: "int \<Rightarrow> int \<Rightarrow> bool \<Rightarrow> string option \<Rightarrow> tst \<Rightarrow> int out" where
  "tm_main cmd qjunk late optarg st =
     (case optarg of
        None \<Rightarrow> Returned (-1) st
      | Some a \<Rightarrow>
          obind (lift_ps (ipc_connect qjunk) st) (\<lambda>rc st.
            if rc \<noteq> 0 then Returned (-1) st
            else obind (svr_cmd_deal late (atoi a) cmd st) (\<lambda>rc st.
              Returned (if rc \<noteq> 0 then -1 else 0) st)))"

definition tmstart_main :: "int \<Rightarrow> bool \<Rightarrow> string option \<Rightarrow> tst \<Rightarrow> int out" where
  "tmstart_main = tm_main TSK_CMD_START"

definition tmexit_main :: "int \<Rightarrow> bool \<Rightarrow> string option \<Rightarrow> tst \<Rightarrow> int out" where
  "tmexit_main = tm_main TSK_CMD_EXIT"

definition tmfresh_main :: "int \<Rightarrow> bool \<Rightarrow> string option \<Rightarrow> tst \<Rightarrow> int out" where
  "tmfresh_main = tm_main TSK_CMD_FRESH"

definition tmclear_main :: "int \<Rightarrow> tst \<Rightarrow> int out" where
  "tmclear_main qjunk st =
     obind (lift_ps (ipc_connect qjunk) st) (\<lambda>rc st.
       if rc \<noteq> 0 then Returned (-1) st
       else obind (mem st) (\<lambda>m st.
         let (r1, s1) = MsqClear (mb_req_que_id (mbctrl m)) (ts st);
             (r2, s2) = MsqClear (mb_rsp_que_id (mbctrl m)) s1
         in Returned 0 (st\<lparr>ts := s2\<rparr>)))"

section \<open>Argument vectors\<close>

text \<open>A word: no blanks, so that \<open>strtok\<close> and \<open>RightTrim\<close> keep it.\<close>

definition word :: "string \<Rightarrow> bool" where
  "word w \<longleftrightarrow> w \<noteq> [] \<and> (\<forall>c \<in> set w. \<not> is_ws c)"

lemma word_no_SP: "word w \<Longrightarrow> SP \<notin> set w"
  by (auto simp: word_def is_ws_def)

lemma digit_not_ws: "isdigit c \<Longrightarrow> \<not> is_ws c"
  by (auto simp: isdigit_def is_ws_def)

lemma word_show_int: "word (show_int x)"
  using show_nat_digits show_nat_nonempty digit_not_ws
  by (auto simp: word_def show_int_def is_ws_def)

lemma strtok_blank: "strtok '' '' (SP # s) = strtok '' '' s"
  by (simp add: strtok_def)

lemma strtok_all_blank [simp]: "strtok_all '' '' (SP # s) = strtok_all '' '' s"
  by (simp add: strtok_all.simps [of _ "SP # s"] strtok_all.simps [of _ s] strtok_blank)

lemma strtok_word:
  assumes "word w" "r = [] \<or> hd r = SP"
  shows "strtok '' '' (w @ r) = Some (w, drop 1 r)"
proof -
  have n: "SP \<notin> set w" "w \<noteq> []" using assms(1) word_no_SP by (auto simp: word_def)
  have "dropWhile (\<lambda>c. c \<in> set '' '') (w @ r) = w @ r" using n by (cases w) auto
  moreover have "takeWhile (\<lambda>c. c \<notin> set '' '') (w @ r) = w" "dropWhile (\<lambda>c. c \<notin> set '' '') (w @ r) = r"
    using n assms(2) by (cases r; force simp: takeWhile_append dropWhile_append)+
  ultimately show ?thesis using n by (simp add: strtok_def Let_def)
qed

lemma strtok_all_word: "word w \<Longrightarrow> strtok_all '' '' (w @ SP # r) = w # strtok_all '' '' r"
  by (simp add: strtok_all.simps [of _ "w @ SP # r"] strtok_word)

lemma strtok_all_last: "word w \<Longrightarrow> strtok_all '' '' w = [w]"
  using strtok_word [of w "[]"] by (simp add: strtok_all.simps [of _ w] strtok_all.simps [of _ "[]"] strtok_def)

lemma rstrip_word: "word w \<Longrightarrow> \<exists>r'. rstrip_ws (p @ w @ r) = p @ w @ r' \<and> (r' = [] \<or> hd r' = hd r)"
proof (cases "\<forall>c \<in> set r. is_ws c")
  case True
  assume "word w"
  then obtain a c where "w = a @ [c]" "\<not> is_ws c" by (metis append_butlast_last_id last_in_set word_def)
  with True show ?thesis by (intro exI [of _ "[]"]) (simp add: rstrip_ws_def dropWhile_append)
next
  case False
  then have "rstrip_ws (p @ w @ r) = p @ w @ rstrip_ws r"
    by (auto simp: rstrip_ws_def dropWhile_append)
  moreover have "rstrip_ws r = [] \<or> hd (rstrip_ws r) = hd r"
    using False
    by (metis (no_types, lifting) hd_append2 rev_append rev_rev_ident rstrip_ws_def takeWhile_dropWhile_id)
  ultimately show ?thesis by blast
qed

lemma atol_show_int: "in_i32 x \<Longrightarrow> atol (show_int x) = x \<and> atoi (show_int x) = x"
proof -
  assume i: "in_i32 x"
  have d: "digits_val 0 (show_nat n) = int n" for n
    using digits_val_show [of 0 n "[]"] by simp
  obtain c cs where c: "show_nat (nat x) = c # cs" "isdigit c"
    by (metis show_nat_digits show_nat_nonempty list.set_intros(1) neq_Nil_conv)
  have "atol (show_int x) = x"
    using i d not_space_digit [OF c(2)] c(1) d [of "nat x"]
    by (auto simp: atol_def show_int_def in_i32_def isspace_def Let_def)
  then show ?thesis using i by (simp add: atoi_def i32_id)
qed

lemma tw_tp: "st\<lparr>tw := w, tp := p\<rparr> = st\<lparr>tp := p, tw := w\<rparr>"
  by (cases st) simp

lemma tux_call_prefix:
  assumes "d \<noteq> []"
  shows "tux_call cap late nm (RawBuf (d @ z)) (int (length d)) fl st = tux_call cap late nm (RawBuf d) (int (length d)) fl st"
proof -
  have "send_req m i (RawBuf (d @ z)) (length d) st = send_req m i (RawBuf d) (length d) st" for m i st
    by (simp add: send_req_def)
  then show ?thesis
    using assms by (cases nm; cases "ctl (tp st) (ts st)") (auto simp: tux_call_def arg_len_def mem_def Let_def)
qed

section \<open>Properties\<close>

text \<open>Claim C30. What the task manager puts on the command line of a server is what the server reads: for
  the parameter string of \<open>server_start_pid\<close> (position, server id, configured parameters) the child
  of \<open>server_load\<close> either overruns one of its buffers (128 characters, 30 arguments) or executes an
  argument vector from which \<open>main\<close> gets its own process id, the position and the server id.\<close>

theorem server_command_line:
  assumes "word name" "in_i32 self" "in_i32 pos" "in_i32 svrid"
  shows "case server_load 0 self name (show_int pos @ ''  '' @ show_int svrid @ ''  '' @ parm) of
      Crash e \<Rightarrow> e = BufOverflow
    | Ret (Parent pid) \<Rightarrow> False
    | Ret (Child argv) \<Rightarrow> hd argv = name \<and> server_args self argv = Some (pos, svrid)"
proof -
  let ?p = "name @ '' '' @ show_int self @ '' '' @ show_int pos @ ''  ''"
  let ?b = "?p @ show_int svrid @ ''  '' @ parm"
  obtain r' where r: "RightTrim ?b = ?p @ show_int svrid @ r'" "r' = [] \<or> hd r' = SP"
    using rstrip_word [OF word_show_int, of ?p svrid "''  '' @ parm"] by (auto simp: cstr)
  have "\<exists>more. strtok_all '' '' (show_int svrid @ r') = show_int svrid # more"
    using r(2) word_show_int [of svrid] by (cases r') (auto simp: strtok_all_word strtok_all_last)
  then obtain more where "strtok_all '' '' (?p @ show_int svrid @ r') =
      [name, show_int self, show_int pos, show_int svrid] @ more"
    using assms(1) word_show_int by (auto simp: strtok_all_word)
  then have "strtok_all '' '' (RightTrim ?b) = [name, show_int self, show_int pos, show_int svrid] @ more"
    by (simp only: r(1))
  then show ?thesis
    using assms(2-4) by (simp add: server_load_def make_argv_def Let_def server_args_def atol_show_int)
qed

theorem server_command_line_witness:
  "server_load 0 4711 ''testsvr'' (show_int 3 @ ''  '' @ show_int 7 @ ''  '' @ ''-x 1'')
     = Ret (Child [''testsvr'', ''4711'', ''3'', ''7'', ''-x'', ''1''])
   \<and> server_args 4711 [''testsvr'', ''4711'', ''3'', ''7'', ''-x'', ''1''] = Some (3, 7)"
proof -
  have n: "show_int 4711 = ''4711''" "show_int 3 = ''3''" "show_int 7 = ''7''"
    by (simp_all add: show_int_def show_nat.simps char_of_def bit_0)
  have e: "server_load 0 4711 ''testsvr'' (show_int 3 @ ''  '' @ show_int 7 @ ''  '' @ ''-x 1'')
     = Ret (Child [''testsvr'', ''4711'', ''3'', ''7'', ''-x'', ''1''])"
    unfolding server_load_def n by code_simp
  moreover have "word ''testsvr''" by code_simp
  ultimately show ?thesis
    using server_command_line [of "''testsvr''" 4711 3 7 "''-x 1''"] by (simp add: in_i32_def)
qed

lemma service_no_queue:
  assumes "ctl (tp st) (ts st) = Ret m" "msq_at (mb_req_que_id (mbctrl m)) (ts st) = None"
  shows "tux_service hs junk svrid pos st = Returned (-1) (st\<lparr>tp := (tp st)\<lparr>p_kerrno := EINVAL\<rparr>\<rparr>)"
proof -
  have a: "sdIsAttach (tp st)" using assms(1) by (auto simp: sdIsAttach_def ctl_def split: shmptr.splits)
  have "get_msg (mb_req_que_id (mbctrl m)) t MSQ_MODE_BLOCK st
      = Returned (-9, None) (st\<lparr>tp := (tp st)\<lparr>p_kerrno := EINVAL\<rparr>\<rparr>)" for t
    using assms(2) by (simp add: get_msg_def MsqRcv_def msgrcv.simps [of _ _ _ _ _ "tw st"] msgrcv_try_def)
  then show ?thesis
    using assms(1) a by (simp add: tux_service_def service_rcv.simps [of _ st] msq_consts)
qed

text \<open>Claim C31. The loop of a server after its request queue was removed: every turn fails without
  setting \<open>tux_errno\<close>, so the loop ends at once, unless the last error was \<open>SYS_NOENT\<close> (an
  unknown name given to \<open>tux_call\<close> or \<open>tux_unadvertise\<close> by a handler): then it spins for ever.\<close>

theorem serve_loop_without_queue:
  assumes "ctl (tp st) (ts st) = Ret m" "msq_at (mb_req_que_id (mbctrl m)) (ts st) = None"
  shows "if p_errno (tp st) = SYS_NOENT then \<forall>n. serve_loop n hs junk svrid pos st = None
    else serve_loop (Suc n) hs junk svrid pos st = Some (Returned (-1) (st\<lparr>tp := (tp st)\<lparr>p_kerrno := EINVAL\<rparr>\<rparr>))"
proof -
  have "p_errno (tp st) = SYS_NOENT \<Longrightarrow> ctl (tp st) (ts st) = Ret m \<Longrightarrow>
      msq_at (mb_req_que_id (mbctrl m)) (ts st) = None \<Longrightarrow> serve_loop n hs junk svrid pos st = None" for n st
    by (induction n arbitrary: st) (simp_all add: service_no_queue)
  then show ?thesis using assms by (auto simp: service_no_queue [OF assms])
qed

theorem serve_loop_without_queue_witness:
  "\<forall>n. serve_loop n [9 \<mapsto> testsvr] [] 7 1
     (st_test\<lparr>ts := (ts st_test)\<lparr>k_msq := []\<rparr>, tp := (tp st_test)\<lparr>p_errno := SYS_NOENT\<rparr>\<rparr>) = None"
  using serve_loop_without_queue
    [of "st_test\<lparr>ts := (ts st_test)\<lparr>k_msq := []\<rparr>, tp := (tp st_test)\<lparr>p_errno := SYS_NOENT\<rparr>\<rparr>" mem_test]
  by (simp add: st_test_def ctl_def msq_at_def)

definition cmd_head :: "int \<Rightarrow> int \<Rightarrow> IPCMsgHead" where
  "cmd_head now cmd = packReqHead now (cmd + MNG_MSG_TYPE_ROOT) head_zero"

definition cmd_body :: "int \<Rightarrow> int \<Rightarrow> string" where
  "cmd_body svr cmd = enc_tskcmd \<lparr>tc_cmd = cmd, tc_id = svr, tc_err = 0\<rparr>"

text \<open>An administration command: \<open>svr_cmd_deal\<close> sends the command to the task manager's service
  and, when that answers with a command block, returns the error code of the block.\<close>

theorem svr_cmd_deal_returns_err:
  assumes "h = cmd_head (sd_now (ts c)) cmd" "c1 = c\<lparr>tp := (tp c)\<lparr>p_head := h\<rparr>\<rparr>"
    and "call_ready m i 0 SD_MANAGER_SVC_NAME h (cmd_body svr cmd) (enc_tskcmd res) (ts c)"
    and "ctl (tp c) (ts c) = Ret m" "tskcmd_ok res"
    and "tux_acall (Some SD_MANAGER_SVC_NAME) (RawBuf (enc_head h @ cmd_body svr cmd)) 108 0 c1 = Returned 0 a"
    and "ts v = ts a" "p_ctl (tp v) = p_ctl (tp c)" "svc_handler SD_MANAGER_SVC_NAME m = Some f"
    and "hs f = Some (answer (enc_tskcmd res))"
    and "tSvrPid m \<noteq> []" "2144 \<le> h_avail (p_heap (tp v))"
  shows "\<exists>v' c'. tux_service hs junk 0 0 v = Returned 0 v'
    \<and> svr_cmd_deal False svr cmd (c\<lparr>tw := Others (ts v') # ws\<rparr>) = Returned (tc_err res) c'"
proof -
  let ?b = "cmd_body svr cmd" and ?r = "enc_tskcmd res"
  let ?d = "enc_head h @ ?b" and ?a = "enc_head (h\<lparr>ih_len := int (length ?r)\<rparr>) @ ?r"
  have ok: "head_ok h" "length ?d = 108" "length ?r = 12"
    using assms(3) by (simp_all add: call_ready_def ipc.enc_width HEAD_LEN_def cmd_body_def enc_tskcmd_def)
  have l: "int (length ?d) = 108" and ne: "?d \<noteq> []" using ok(2) by force+
  have nm: "c_str (ih_name h) = SD_MANAGER_SVC_NAME" "ih_len h = 12"
    by (simp_all add: assms(1) cmd_head_def packReqHead_def c_str_def SD_MANAGER_SVC_NAME_def TSKCMD_LEN_def)
  have c1: "call_ready m i 0 SD_MANAGER_SVC_NAME h ?b ?r (ts c1)" "ctl (tp c1) (ts c1) = Ret m" "p_head (tp c1) = h"
    "tux_acall (Some SD_MANAGER_SVC_NAME) (RawBuf ?d) (int (length ?d)) 0 c1 = Returned 0 a" "p_ctl (tp v) = p_ctl (tp c1)"
    "svc_handler (c_str (ih_name h)) m = Some f" "(0::int) < int (length (tSvrPid m))"
    "ALLOC_UNITS (ih_len h + 2048) * 32 \<le> h_avail (p_heap (tp v))" "HEAD_LEN + length ?r \<le> 1025"
    using assms nm ok(2,3) by (simp_all add: ALLOC_UNITS_def HEAD_LEN_def)
  obtain v' c' where v': "tux_service hs junk 0 0 v = Returned 0 v'"
    "tux_call 1025 False (Some SD_MANAGER_SVC_NAME) (RawBuf ?d) 108 0 (c1\<lparr>tw := Others (ts v') # ws\<rparr>) = Returned (0, Some ?a) c'"
    using call_answered [where hs = hs and f = f and junk = junk and pos = 0 and cap = 1025 and ws = ws,
        OF c1(1-4) assms(7) c1(5,6) assms(10) order_refl c1(7-9)]
    unfolding l by blast
  have "tux_call 1025 False (Some SD_MANAGER_SVC_NAME) (RawBuf (cstr_in 1025 ?d)) 108 0 (c1\<lparr>tw := Others (ts v') # ws\<rparr>)
      = Returned (0, Some ?a) c'"
    using v'(2) ne tux_call_prefix [of ?d 1025 False "Some SD_MANAGER_SVC_NAME" "pad (1025 - length ?d)" 0]
    unfolding l cstr_in_def using ok(2) by auto
  moreover have "dec_tskcmd (drop HEAD_LEN (cstr_in 1025 ?a)) = res"
    using ok(1) tsk.dec_enc [OF assms(5)] by (simp add: cstr_in_def head_ok_def HEAD_LEN_def)
  ultimately have "svr_cmd_deal False svr cmd (c\<lparr>tw := Others (ts v') # ws\<rparr>) = Returned (tc_err res) c'"
    by (simp add: svr_cmd_deal_def Let_def tw_tp assms(1,2) cmd_head_def cmd_body_def TSKCMD_LEN_def HEAD_LEN_def)
  with v'(1) show ?thesis by blast
qed

text \<open>The system of \<open>st_test\<close> with the task manager advertised at address 5.\<close>

definition mem_gov :: sdmem where
  "mem_gov = mem_test\<lparr>tSvcTab := [svc_zero\<lparr>sc_name := ''Governor'', sc_sd_fun := 5\<rparr>, svc_zero\<lparr>sc_flags := -1\<rparr>]\<rparr>"

definition st_gov :: tst where
  "st_gov = \<lparr>tp = \<lparr>p_pid = 30, p_ctl = PSeg 2, p_errno = 0, p_head = cmd_head 0 2, p_jmp = False, p_expired = False,
       p_heap = \<lparr>h_blocks = Map.empty, h_next = 1000, h_avail = 100000\<rparr>, p_kerrno = 0\<rparr>,
     ts = \<lparr>k_region = None, k_next = 7, k_limit = 100, k_shm = [(0, 2, 100000)], k_attached = [2],
       k_can_attach = True, k_sem = [], k_msq = [\<lparr>q_key = 601107, q_id = 5, q_msgs = [], q_qbytes = 16384\<rparr>,
         \<lparr>q_key = 601117, q_id = 6, q_msgs = [], q_qbytes = 16384\<rparr>], sd_mem = (\<lambda>i. mem_gov), sd_cfg = None,
       sd_now = 0, sd_signals = []\<rparr>, tw = []\<rparr>"

definition res_noent :: tskcmd_t where
  "res_noent = \<lparr>tc_cmd = 2, tc_id = 9, tc_err = SYS_NOENT\<rparr>"

lemma call_ready_lengths:
  "length pl = length pl' \<Longrightarrow> length r = length r' \<Longrightarrow> call_ready m i d n h pl r s \<Longrightarrow> call_ready m i d n h pl' r' s"
  by (auto simp: call_ready_def)

lemma gov_ready:
  "call_ready mem_gov 0 0 SD_MANAGER_SVC_NAME (cmd_head 0 2) (cmd_body 9 2) (enc_tskcmd res_noent) (ts st_gov)"
proof -
  have "tux_locatemb SD_MANAGER_SVC_NAME mem_gov = int 0" "\<not> svc_down mem_gov 0" "head_ok (cmd_head 0 2)" by code_simp+
  moreover have "ih_len (cmd_head 0 2) = 12" "ih_req_msg_type (cmd_head 0 2) = 400002"
    by (simp_all add: cmd_head_def packReqHead_def TSKCMD_LEN_def MNG_MSG_TYPE_ROOT_def)
  ultimately have "call_ready mem_gov 0 0 SD_MANAGER_SVC_NAME (cmd_head 0 2) (pad 12) (pad 12) (ts st_gov)"
    by (simp add: call_ready_def has_room_def mbox_def msq_at_def cbytes_def st_gov_def mem_gov_def mem_test_def sdmem2_def
        HEAD_LEN_def SVR_MSG_TYPE_ROOT_def pad_def)
  moreover have "length (pad 12) = length (cmd_body 9 2)" "length (pad 12) = length (enc_tskcmd res_noent)"
    by (simp_all add: cmd_body_def enc_tskcmd_def)
  ultimately show ?thesis using call_ready_lengths by blast
qed

lemma gov_ctl: "ctl (tp st_gov) (ts st_gov) = Ret mem_gov"
  by (simp add: st_gov_def ctl_def)

theorem svr_cmd_deal_returns_err_witness:
  "\<exists>a v' c'. tux_acall (Some SD_MANAGER_SVC_NAME) (RawBuf (enc_head (cmd_head 0 2) @ cmd_body 9 2)) 108 0 st_gov
      = Returned 0 a
    \<and> tux_service [5 \<mapsto> answer (enc_tskcmd res_noent)] [] 0 0 a = Returned 0 v'
    \<and> svr_cmd_deal False 9 2 (st_gov\<lparr>tw := [Others (ts v')]\<rparr>) = Returned SYS_NOENT c'"
proof -
  let ?f = "enc_head (cmd_head 0 2) @ cmd_body 9 2"
  have l: "length ?f = 108"
    by (simp add: cmd_head_def packReqHead_def head_zero_def SD_MANAGER_SVC_NAME_def cmd_body_def enc_tskcmd_def)
  obtain q :: msq where q: "send_req mem_gov 0 (RawBuf ?f) 108 st_gov
      = Returned 0 (st_gov\<lparr>ts := msq_set (mb_req_que_id (mbctrl mem_gov)) (q_msgs q @ [req_msg 300000 ?f]) (ts st_gov)\<rparr>)"
    using send_req_frame [OF gov_ready gov_ctl] unfolding l SVR_MSG_TYPE_ROOT_def add_0 by blast
  have "tux_locatemb SD_MANAGER_SVC_NAME mem_gov = 0" "\<not> svc_down mem_gov 0" "mb_max_msg_len (mbctrl mem_gov) = 4096"
    by code_simp+
  moreover have "sdIsAttach (tp st_gov)" by (simp add: st_gov_def sdIsAttach_def)
  ultimately obtain a where a: "tux_acall (Some SD_MANAGER_SVC_NAME) (RawBuf ?f) 108 0 st_gov = Returned 0 a" "tp a = tp st_gov"
    using q by (simp add: tux_acall_def arg_len_def mem_Ret [OF gov_ctl])
  have h: "cmd_head 0 2 = cmd_head (sd_now (ts st_gov)) 2"
    "st_gov = st_gov\<lparr>tp := (tp st_gov)\<lparr>p_head := cmd_head 0 2\<rparr>\<rparr>"
    by (simp_all add: st_gov_def)
  have g: "svc_handler SD_MANAGER_SVC_NAME mem_gov = Some 5" "tskcmd_ok res_noent" "tSvrPid mem_gov \<noteq> []" by code_simp+
  have av: "2144 \<le> h_avail (p_heap (tp st_gov))" by (simp add: st_gov_def)
  show ?thesis
    using svr_cmd_deal_returns_err [where hs = "[5 \<mapsto> answer (enc_tskcmd res_noent)]" and f = 5 and v = a
        and junk = "[]" and ws = "[]", OF h gov_ready gov_ctl g(2) a(1) refl _ g(1) _ g(3)] a av
    by (auto simp: res_noent_def)
qed

end
