(* ===== verification/TuxLook.thy ===== *)
theory TuxLook
  imports TuxCmd
begin

text \<open>
  The tables as text: \<open>list_server\<close>, \<open>list_service\<close> and \<open>list_queue\<close> of \<open>src/dev/src/pubfun/tux/tuxmgr.c\<close> and the tool
  \<open>src/dev/src/Main/tmlook.c\<close>. What is printed is the result; the tables are only read.
\<close>

section \<open>Definitions\<close>

text \<open>\<open>%-ws\<close>\<close>

definition left_text :: "nat \<Rightarrow> string \<Rightarrow> string" where
  "left_text w s = s @ replicate (w - length s) SP"

fun each_row :: "(nat \<Rightarrow> string cres) \<Rightarrow> nat list \<Rightarrow> string cres" where
  "each_row f [] = Ret []"
| "each_row f (i # is) = cbind (f i) (\<lambda>a. cbind (each_row f is) (\<lambda>b. Ret (a @ b)))"

definition at_row :: "'a list \<Rightarrow> int \<Rightarrow> 'a cres" where
  "at_row tab i = (if 0 \<le> i \<and> i < int (length tab) then Ret (tab ! nat i) else Crash OutOfBounds)"

definition svr_row :: "server_tab_t \<Rightarrow> string" where
  "svr_row e = left_text 4 (show_int (st_svrid e)) @ ''   '' @ left_text 16 (st_name e) @ '' '' @ left_text 16 (st_svc_name e) @ '' '' @
     left_text 8 (show_int (st_pid_tot e)) @ ''   '' @
     left_text 16 (if st_state e = TUX_IDLE then ''idle'' else if st_state e = TUX_DEAD then ''dead'' else ''avail'') @ [NL]"

definition list_server :: "sdmem \<Rightarrow> string cres" where
  "list_server m =
     cbind (each_row (\<lambda>i. cbind (at_row (tSvrTab m) (int i)) (\<lambda>e. Ret (if st_svrid e \<noteq> -1 then svr_row e else []))) [0..<sdNumberOfSvr m]) (\<lambda>t.
       Ret (''SvrId  ProgName        ServiceName     Pid_Tot     Status  '' @ [NL] @ replicate 77 (CHR ''-'') @ [NL] @ t))"

definition pid_row :: "server_pid_t \<Rightarrow> server_tab_t \<Rightarrow> string" where
  "pid_row p e = left_text 4 (show_int (sp_svrid p)) @ ''   '' @ left_text 16 (st_svc_name e) @ ''  '' @ left_text 6 (show_int (sp_pid p)) @ ''    '' @
     left_text 8 (show_nat (nat (sp_req_done p mod 2 ^ 32))) @ ''  '' @ left_text 8 (show_int (sp_tot_restart_count p)) @ [NL]"

definition list_service :: "sdmem \<Rightarrow> string cres" where
  "list_service m =
     cbind (each_row (\<lambda>i. cbind (at_row (tSvrPid m) (int i)) (\<lambda>p.
         if sp_pid p \<noteq> -1 then cbind (at_row (tSvrTab m) (sp_svrpos p)) (\<lambda>e. Ret (pid_row p e)) else Ret [])) [0..<sdNumberOfPid m]) (\<lambda>t.
       Ret (''SvrId  ServiceName        PID     RqDone  Die_Count '' @ [NL] @ replicate 71 (CHR ''-'') @ [NL] @ t))"

definition queue_row :: "int \<Rightarrow> int \<Rightarrow> string" where
  "queue_row q n = left_text 8 (show_nat (nat (q mod 2 ^ 32))) @ ''              '' @ left_text 8 (show_int n) @ '' '' @ [NL]"

definition list_queue :: "sdmem \<Rightarrow> 'a kern_scheme \<Rightarrow> string" where
  "list_queue m k =
     ''que_id            msg_num  '' @ [NL] @ replicate 71 (CHR ''-'') @ [NL] @
     queue_row (mb_req_que_id (mbctrl m)) (MsqCount (mb_req_que_id (mbctrl m)) k) @
     queue_row (mb_rsp_que_id (mbctrl m)) (MsqCount (mb_rsp_que_id (mbctrl m)) k)"

text \<open>\<open>flag\<close> is \<open>argv[1]\<close> if it has two characters, and empty otherwise.\<close>

definition list_info :: "string \<Rightarrow> sdmem \<Rightarrow> 'a kern_scheme \<Rightarrow> string cres" where
  "list_info flag m k =
     (if flag = ''-r'' then list_server m else if flag = ''-s'' then list_service m
      else if flag = ''-q'' then Ret (list_queue m k) else Ret [])"

text \<open>What \<open>tmlook\<close> prints and its exit code; \<open>prog\<close> is what \<open>basename\<close> makes of \<open>argv[0]\<close>, \<open>args\<close> are the other arguments.\<close>

definition tmlook_main :: "string \<Rightarrow> string list \<Rightarrow> int \<Rightarrow> tst \<Rightarrow> (string \<times> int) out" where
  "tmlook_main prog args qjunk st =
     (if length prog + 4 > 40 then Faulted BufOverflow
      else let flag = (case args of a # _ \<Rightarrow> if length a = 2 then a else [] | [] \<Rightarrow> [])
        in obind (lift_ps (ipc_connect qjunk) st) (\<lambda>rc st.
             if rc \<noteq> 0 then Returned (''mb_connect error: '' @ show_int rc @ [NL], 1) st
             else obind (mem st) (\<lambda>m st. obind (of_cres (list_info flag m (ts st)) st) (\<lambda>t st. Returned (t, 0) st))))"

section \<open>Properties\<close>

lemma each_row_concat: "(\<And>i. i \<in> set is \<Longrightarrow> f i = Ret (g i)) \<Longrightarrow> each_row f is = Ret (concat (map g is))"
  by (induction "is") auto

text \<open>The list of servers has a row for each used entry of the table, in its order.\<close>

lemma list_server_rows:
  assumes "sdNumberOfSvr m \<le> length (tSvrTab m)"
  shows "list_server m = Ret (''SvrId  ProgName        ServiceName     Pid_Tot     Status  '' @ [NL] @ replicate 77 (CHR ''-'') @ [NL] @
    concat (map svr_row (filter (\<lambda>e. st_svrid e \<noteq> -1) (take (sdNumberOfSvr m) (tSvrTab m)))))"
proof -
  let ?g = "\<lambda>e. if st_svrid e \<noteq> -1 then svr_row e else []"
  have "each_row (\<lambda>i. cbind (at_row (tSvrTab m) (int i)) (\<lambda>e. Ret (?g e))) [0..<sdNumberOfSvr m] =
      Ret (concat (map (\<lambda>i. ?g (tSvrTab m ! i)) [0..<sdNumberOfSvr m]))"
    by (rule each_row_concat) (use assms in \<open>auto simp: at_row_def\<close>)
  moreover have "map (\<lambda>i. ?g (tSvrTab m ! i)) [0..<sdNumberOfSvr m] = map ?g (take (sdNumberOfSvr m) (tSvrTab m))"
    using assms by (intro nth_equalityI) simp_all
  moreover have "concat (map ?g es) = concat (map svr_row (filter (\<lambda>e. st_svrid e \<noteq> -1) es))" for es by (induction es) auto
  ultimately show ?thesis by (simp add: list_server_def)
qed

end
