(* ===== verification/Governor.thy ===== *)
theory Governor
  imports TuxCmd
begin

text \<open>
  The task manager, \<open>src/dev/src/Main/Governor.c\<close>: reading the \<open>tsk.task\<close> lines of the configuration into the
  server table (\<open>str_split\<close>, \<open>register_server\<close>, \<open>server_load_cfg\<close>, \<open>reload_server_param\<close>), starting and
  killing server processes (\<open>server_start_pid\<close>, \<open>server_run\<close>, \<open>server_kill\<close>, \<open>load_server\<close>,
  \<open>unload_server\<close>), the signal handler for ended children (\<open>server_deatch\<close>), the commands of the
  administration tools (the service \<open>Governor\<close> with \<open>run_task_id\<close> and \<open>run_one_task\<close>) and
  \<open>main\<close>.

  What the operating system decides is the argument \<open>genv\<close>: the home directory, which files exist, and the
  process id that the parent's side of \<open>fork\<close> returns (not positive: failure).
  \<open>register_server\<close> walks through its line with pointers and \<open>strtok\<close>; the line is a buffer of 513 bytes
  and a pointer is an index into it. The server table is accessed by index as the source does, also where it takes the
  index of the wrong table; an index outside the table is \<open>Crash OutOfBounds\<close>.
\<close>

section \<open>Parsing a task line\<close>

record genv =
  e_home :: string
  e_exists :: "string \<Rightarrow> bool"
  e_fork :: "string \<Rightarrow> string \<Rightarrow> sdmem \<Rightarrow> int"

text \<open>The loop of \<open>str_split\<close>: the offset and the text of the \<open>n\<close>-th token.\<close>

definition tok_skip :: "string \<Rightarrow> string \<Rightarrow> nat" where
  "tok_skip d s = length (takeWhile (\<lambda>c. c \<in> set d) s)"

function split_loop :: "string \<Rightarrow> string \<Rightarrow> nat \<Rightarrow> int \<Rightarrow> int \<Rightarrow> (nat \<times> string) option" where
  "split_loop d s off pos n =
     (case strtok d s of
        None \<Rightarrow> None
      | Some (p, rest) \<Rightarrow>
          if pos = n then Some (off + tok_skip d s, p)
          else split_loop d rest (off + (length s - length rest)) (pos + 1) n)"
  by pat_completeness auto
termination
  by (relation "measure (\<lambda>(d, s, off, pos, n). length s)") (auto dest: strtok_shorter)

declare split_loop.simps [simp del]

definition str_split :: "string \<Rightarrow> string \<Rightarrow> nat \<Rightarrow> int \<Rightarrow> (nat \<times> string) option cres" where
  "str_split src splitstr buf_size n =
     (if length src > 2048 then Crash BufOverflow
      else Ret (case split_loop splitstr src 0 1 n of None \<Rightarrow> None | Some (off, p) \<Rightarrow> Some (off, take buf_size p)))"

text \<open>\<open>strtok\<close> in place: the index of the token, the index to go on from, and the buffer with the
  terminator written behind the token.\<close>

definition mem_strtok :: "string \<Rightarrow> nat \<Rightarrow> string \<Rightarrow> (nat \<times> nat \<times> string) option" where
  "mem_strtok d i b =
     (let s = c_str (drop i b)
      in case strtok d s of
           None \<Rightarrow> None
         | Some (t, r) \<Rightarrow> let a = i + tok_skip d s; e = a + length t
                         in Some (a, if cchar b e = NUL then e else Suc e, b[e := NUL]))"

definition svr_ix :: "sdmem \<Rightarrow> int \<Rightarrow> bool" where
  "svr_ix m i \<longleftrightarrow> 0 \<le> i \<and> i < int (length (tSvrTab m))"

definition pid_ix :: "sdmem \<Rightarrow> int \<Rightarrow> bool" where
  "pid_ix m i \<longleftrightarrow> 0 \<le> i \<and> i < int (length (tSvrPid m))"

text \<open>The settings with a value behind \<open>=\<close>.\<close>

definition set_key :: "string \<Rightarrow> string \<Rightarrow> server_tab_t \<Rightarrow> server_tab_t" where
  "set_key k v e =
     (if k = ''SRVID'' then e\<lparr>st_svrid := atoi v, st_msg_type := i32 (SVR_MSG_TYPE_ROOT + atoi v)\<rparr>
      else if k = ''SRVNUM'' then e\<lparr>st_pid_tot := atoi v\<rparr>
      else if k = ''RQADDR'' then e\<lparr>st_svc_name := AllTrim (take TUX_NAME_LEN v)\<rparr>
      else e\<lparr>st_rsp_q := (if cchar v 0 = CHR ''Y'' \<or> cchar v 0 = CHR ''y'' then SVR_REPLY_NEED else SVR_REPLY_NONEED)\<rparr>)"

definition value_keys :: "string list" where
  "value_keys = [''SRVID'', ''SRVNUM'', ''RQADDR'', ''REPLYQ'']"

text \<open>\<open>strchr(p, '"')\<close>.\<close>

definition strchr_at :: "char \<Rightarrow> nat \<Rightarrow> string \<Rightarrow> nat option" where
  "strchr_at c i b = (let s = c_str (drop i b) in if c \<in> set s then Some (i + length (takeWhile (\<lambda>x. x \<noteq> c) s)) else None)"

text \<open>The loop of \<open>register_server\<close>: \<open>p\<close> is the index of the pointer, which has to have a terminator in front of it.\<close>

lemma strchr_at_ge: "strchr_at c i b = Some j \<Longrightarrow> i \<le> j"
  by (auto simp: strchr_at_def Let_def split: if_splits)

lemma drop_set_less: "c \<in> set (drop p b) \<Longrightarrow> p < length b"
  by (cases "p < length b") auto

function reg_loop :: "nat \<Rightarrow> string \<Rightarrow> nat \<Rightarrow> sdmem \<Rightarrow> (int \<times> sdmem) cres" where
  "reg_loop i b p m =
     (if NUL \<notin> set (drop p b) then Crash OutOfBounds
      else cbind (str_split (c_str (drop p b)) ''= '' 128 1) (\<lambda>t. case t of
          None \<Rightarrow> Ret (0, m)
        | Some (off, key) \<Rightarrow>
            (let p1 = p + off + length key + 1
             in if key \<in> set value_keys then
                  (if NUL \<notin> set (drop p1 b) then Crash OutOfBounds
                   else cbind (str_split (c_str (drop p1 b)) ''= '' 128 1) (\<lambda>t2. case t2 of
                       None \<Rightarrow> Ret (0, m)
                     | Some (off2, v) \<Rightarrow> reg_loop i b (p1 + off2 + length v + 1) (upd_svr i (set_key key v) m)))
                else if key = ''SRVPARM'' then
                  (if NUL \<notin> set (drop p1 b) then Crash OutOfBounds
                   else case strchr_at (CHR 0x22) p1 b of
                       None \<Rightarrow> Ret (-1, m)
                     | Some q0 \<Rightarrow>
                         (case strchr_at (CHR 0x22) (Suc q0) b of
                            None \<Rightarrow> Ret (-2, m)
                          | Some q1 \<Rightarrow>
                              let s = take (q1 - q0 - 1) (drop (Suc q0) b)
                              in if length s > SERVER_MAX_PARAM + 1 then Crash BufOverflow
                                 else reg_loop i b (Suc q1)
                                        (upd_svr i (\<lambda>e. e\<lparr>st_parm := s @ drop (length s) (st_parm e)\<rparr>) m)))
                else reg_loop i b p1 m)))"
  by pat_completeness auto
termination
  by (relation "measure (\<lambda>(i, b, p, m). length b - p)")
    (auto dest!: strchr_at_ge simp: drop_set_less intro!: diff_less_mono2)

declare reg_loop.simps [simp del]

text \<open>\<open>buf\<close> is the line without \<open>tsk.task\<close>, in an array of 513 cleared bytes.\<close>

definition register_server :: "genv \<Rightarrow> int \<Rightarrow> string \<Rightarrow> sdmem \<Rightarrow> (int \<times> sdmem) cres" where
  "register_server gv svrnum buf m =
     (case mem_strtok '' '' 0 (cstr_in 513 buf) of
        None \<Rightarrow> Crash NullDeref
      | Some (a, nx, b1) \<Rightarrow>
          let sSvrName = AllTrim (take TUX_NAME_LEN (c_str (drop a b1)));
              sFullName = e_home gv @ ''/bin/'' @ sSvrName
          in if length sFullName > 128 then Crash BufOverflow
             else if \<not> e_exists gv sFullName then Ret (1, m)
             else if \<not> svr_ix m svrnum then Crash OutOfBounds
             else let m1 = upd_svr (nat svrnum) (\<lambda>e. e\<lparr>st_name := sSvrName, st_svc_name := [], st_parm := [],
                        st_pid_tot := 5, st_state := SVR_PERM, st_rsp_q := SVR_REPLY_NEED,
                        st_timeout := MAX_TIMEOUT_SEC\<rparr>) m
                  in (case mem_strtok '' '' nx b1 of
                        None \<Rightarrow> Crash NullDeref
                      | Some (p, nx2, b2) \<Rightarrow> reg_loop (nat svrnum) b2 p m1))"

section \<open>Processes\<close>

definition svr :: "sdmem \<Rightarrow> int \<Rightarrow> server_tab_t" where
  "svr m i = tSvrTab m ! nat i"

definition start_param :: "int \<Rightarrow> server_tab_t \<Rightarrow> string" where
  "start_param pid_index e = show_int pid_index @ ''  '' @ show_int (st_svrid e) @ ''  '' @ st_parm e"

definition server_start_pid :: "genv \<Rightarrow> int \<Rightarrow> int \<Rightarrow> int \<Rightarrow> sdmem \<Rightarrow> (int \<times> sdmem) cres" where
  "server_start_pid gv now taskid pid_index m =
     (if \<not> svr_ix m taskid \<or> \<not> pid_ix m pid_index then Crash OutOfBounds
      else let param = start_param pid_index (svr m taskid);
               name = st_name (svr m taskid);
               f = e_fork gv name param m
           in if length param > 128 then Crash BufOverflow
              else cbind (server_load (if f > 0 then f else -1) 0 name param) (\<lambda>r. case r of
                  Child argv \<Rightarrow> Ret (-1, m)
                | Parent pid \<Rightarrow>
                    if pid < 0 then Ret (-1, m)
                    else Ret (0, upd_pid (nat pid_index) (\<lambda>e. e\<lparr>sp_pid := pid, sp_lastStart := now\<rparr>) m)))"

text \<open>The loop of \<open>server_run\<close>; \<open>n\<close> processes are still to be started.\<close>

fun run_loop :: "genv \<Rightarrow> int \<Rightarrow> int \<Rightarrow> int \<Rightarrow> nat \<Rightarrow> sdmem \<Rightarrow> (int \<times> sdmem) cres" where
  "run_loop gv now srvnum i 0 m = Ret (0, m)"
| "run_loop gv now srvnum i (Suc n) m =
     (let pid_index = server_get_pidentry m
      in if pid_index < 0 then Ret (SYS_LIMIT, m)
         else let m1 = upd_pid (nat pid_index) (\<lambda>e. e\<lparr>sp_svrid := st_svrid (svr m srvnum), sp_seq := i,
                    sp_svrpos := srvnum\<rparr>) m
              in cbind (server_start_pid gv now srvnum pid_index m1) (\<lambda>(rc, m2).
                   if rc \<noteq> 0 then Ret (rc, sdSvrPidClear (nat pid_index) m2)
                   else run_loop gv now srvnum (i + 1) n (upd_svr (nat srvnum) (\<lambda>e. e\<lparr>st_state := TUX_IDLE\<rparr>) m2)))"

definition server_run :: "genv \<Rightarrow> int \<Rightarrow> int \<Rightarrow> sdmem \<Rightarrow> (int \<times> sdmem) cres" where
  "server_run gv now srvnum m =
     (if \<not> svr_ix m srvnum then Crash OutOfBounds
      else let m1 = upd_svr (nat srvnum) (\<lambda>e. e\<lparr>st_type := SVR_PERM\<rparr>) m
           in run_loop gv now srvnum 0 (nat (st_pid_tot (svr m1 srvnum))) m1)"

text \<open>One turn of the loop of \<open>server_kill\<close>, with the signals sent so far.\<close>

definition kill_step :: "int \<Rightarrow> bool \<Rightarrow> nat \<Rightarrow> (int \<times> int) list \<times> sdmem \<Rightarrow> (int \<times> int) list \<times> sdmem" where
  "kill_step svrid clear i = (\<lambda>(sigs, m).
     let e = tSvrPid m ! i
     in if sp_svrid e = svrid \<and> sp_svrid e \<noteq> -1 \<and> sp_svrid e \<noteq> TUX_DEAD
        then (sigs @ [(sp_pid e, SIGTERM)], if clear then sdSvrPidClear i m else m)
        else (sigs, m))"

definition server_kill :: "int \<Rightarrow> bool \<Rightarrow> sdmem \<Rightarrow> (int \<times> int) list \<times> sdmem" where
  "server_kill taskid clear m = fold (kill_step (st_svrid (svr m taskid)) clear) [0..<sdNumberOfPid m] ([], m)"

definition unload_step :: "nat \<Rightarrow> (int \<times> int) list \<times> sdmem \<Rightarrow> (int \<times> int) list \<times> sdmem" where
  "unload_step i = (\<lambda>(sigs, m).
     if st_svrid (tSvrTab m ! i) \<noteq> -1
     then (let (s, m') = server_kill (int i) True m in (sigs @ s, sbSvrTabClear i m'))
     else (sigs, m))"

definition unload_server :: "sdmem \<Rightarrow> (int \<times> int) list \<times> sdmem" where
  "unload_server m = fold unload_step [1..<sdNumberOfSvr m] ([], m)"

definition load_step :: "genv \<Rightarrow> int \<Rightarrow> nat \<Rightarrow> sdmem cres \<Rightarrow> sdmem cres" where
  "load_step gv now i r = cbind r (\<lambda>m.
     if st_svrid (tSvrTab m ! i) \<noteq> -1 then cbind (server_run gv now (int i) m) (\<lambda>(rc, m'). Ret m') else Ret m)"

definition load_server :: "genv \<Rightarrow> int \<Rightarrow> sdmem \<Rightarrow> sdmem cres" where
  "load_server gv now m = fold (load_step gv now) [1..<sdNumberOfSvr m] (Ret m)"

section \<open>Configuration\<close>

function reload_loop :: "genv \<Rightarrow> int \<Rightarrow> cfile \<Rightarrow> nat \<Rightarrow> sdmem \<Rightarrow> (int \<times> sdmem) cres" where
  "reload_loop gv taskid f i m =
     (if i < sdNumberOfSvr m then
        (case cf_nextparm ''tsk.task'' f of
           (None, f') \<Rightarrow> Ret (0, m)
         | (Some buf, f') \<Rightarrow>
             if st_svrid (tSvrTab m ! i) \<noteq> st_svrid (svr m taskid) then reload_loop gv taskid f' (Suc i) m
             else cbind (register_server gv taskid buf m) (\<lambda>(rc, m'). Ret (if rc < 0 then -1 else 0, m')))
      else Ret (0, m))"
  by pat_completeness auto
termination
  by (relation "measure (\<lambda>(gv, t, f, i, m). cf_size f)") (auto intro: nextparm_size [OF sym])

declare reload_loop.simps [simp del]

definition reload_server_param :: "genv \<Rightarrow> string option \<Rightarrow> int \<Rightarrow> sdmem \<Rightarrow> (int \<times> sdmem) cres" where
  "reload_server_param gv cfg taskid m =
     (case cfg of None \<Rightarrow> Ret (-1, m) | Some txt \<Rightarrow> reload_loop gv taskid (cf_open txt) 1 m)"

text \<open>The first loop of \<open>server_load_cfg\<close>: a line whose program does not exist does not use up its position.\<close>

function load_cfg_loop :: "genv \<Rightarrow> cfile \<Rightarrow> nat \<Rightarrow> sdmem \<Rightarrow> (int \<times> sdmem) cres" where
  "load_cfg_loop gv f i m =
     (if i < sdNumberOfSvr m then
        (case cf_nextparm ''tsk.task'' f of
           (None, f') \<Rightarrow> Ret (0, m)
         | (Some buf, f') \<Rightarrow>
             cbind (register_server gv (int i) buf m) (\<lambda>(rc, m').
               if rc < 0 then Ret (-1, m')
               else load_cfg_loop gv f' (if rc > 0 then i else Suc i) m'))
      else Ret (0, m))"
  by pat_completeness auto
termination
  by (relation "measure (\<lambda>(gv, f, i, m). cf_size f)") (auto intro: nextparm_size [OF sym])

declare load_cfg_loop.simps [simp del]

definition set_timeout :: "string option \<Rightarrow> int \<Rightarrow> sdmem \<Rightarrow> sdmem" where
  "set_timeout cfg i m = upd_svr (nat i) (\<lambda>e. e\<lparr>st_timeout := tux_get_timeout cfg (take TUX_NAME_LEN (st_svc_name e))\<rparr>) m"

definition server_load_cfg :: "genv \<Rightarrow> string option \<Rightarrow> sdmem \<Rightarrow> (int \<times> sdmem) cres" where
  "server_load_cfg gv cfg m =
     (case cfg of
        None \<Rightarrow> Ret (-1, m)
      | Some txt \<Rightarrow>
          cbind (load_cfg_loop gv (cf_open txt) 1 m) (\<lambda>(rc, m1).
            if rc < 0 then Ret (rc, m1)
            else Ret (0, fold (\<lambda>i m. if st_svrid (tSvrTab m ! i) = -1 then m else set_timeout cfg (int i) m)
                   [1..<sdNumberOfSvr m1] m1)))"

section \<open>Commands\<close>

text \<open>The loop of \<open>run_task_id\<close>; \<open>Some rc\<close> is an early return. The name to look for is the one in the
  server table, which \<open>sTuxName\<close> points to.\<close>

function run_task_loop :: "genv \<Rightarrow> int \<Rightarrow> int \<Rightarrow> cfile \<Rightarrow> sdmem \<Rightarrow> (int option \<times> sdmem) cres" where
  "run_task_loop gv now taskid f m =
     (case cf_nextparm ''tsk.task'' f of
        (None, f') \<Rightarrow> Ret (None, m)
      | (Some temp, f') \<Rightarrow>
          (case strtok '' '' temp of
             None \<Rightarrow> Crash NullDeref
           | Some (p, r) \<Rightarrow>
               if \<not> strncmp_eq (st_name (svr m taskid)) (AllTrim (take TUX_NAME_LEN p)) TUX_NAME_LEN
               then run_task_loop gv now taskid f' m
               else cbind (register_server gv taskid temp m) (\<lambda>(rc, m1).
                 if rc \<noteq> 0 then Ret (Some SYS_SYSTEM, sbSvrTabClear (nat taskid) m1)
                 else cbind (server_run gv now taskid m1) (\<lambda>(rc, m2).
                   if rc \<noteq> 0 then Ret (Some SYS_OS, sbSvrTabClear (nat taskid) m2)
                   else run_task_loop gv now taskid f' m2))))"
  by pat_completeness auto
termination
  by (relation "measure (\<lambda>(gv, now, t, f, m). cf_size f)") (auto intro: nextparm_size [OF sym])

declare run_task_loop.simps [simp del]

definition run_task_id :: "genv \<Rightarrow> string option \<Rightarrow> int \<Rightarrow> int \<Rightarrow> sdmem \<Rightarrow> (int \<times> sdmem) cres" where
  "run_task_id gv cfg now taskid m =
     (case cfg of
        None \<Rightarrow> Ret (SYS_SYSTEM, sbSvrTabClear (nat taskid) m)
      | Some txt \<Rightarrow>
          cbind (run_task_loop gv now taskid (cf_open txt) m) (\<lambda>(r, m1).
            case r of
              Some rc \<Rightarrow> Ret (rc, m1)
            | None \<Rightarrow> Ret (0, upd_svr (nat taskid) (\<lambda>e. e\<lparr>st_timeout := tux_get_timeout cfg (st_name e),
                        st_state := TUX_IDLE\<rparr>) m1)))"

function run_one_loop :: "genv \<Rightarrow> int \<Rightarrow> int \<Rightarrow> int \<Rightarrow> cfile \<Rightarrow> sdmem \<Rightarrow> (int \<times> sdmem) cres" where
  "run_one_loop gv now taskid tux_id f m =
     (case cf_nextparm ''tsk.task'' f of
        (None, f') \<Rightarrow> Ret (SYS_NOENT, sbSvrTabClear (nat taskid) m)
      | (Some buf, f') \<Rightarrow>
          cbind (register_server gv taskid buf m) (\<lambda>(rc, m1).
            if rc \<noteq> 0 then Ret (SYS_SYSTEM, sbSvrTabClear (nat taskid) m1)
            else if st_svrid (svr m1 taskid) = tux_id
            then cbind (server_run gv now taskid m1) (\<lambda>(rc, m2).
                   if rc \<noteq> 0 then Ret (SYS_OS, sbSvrTabClear (nat taskid) m2) else Ret (0, m2))
            else run_one_loop gv now taskid tux_id f' m1))"
  by pat_completeness auto
termination
  by (relation "measure (\<lambda>(gv, now, t, x, f, m). cf_size f)") (auto intro: nextparm_size [OF sym])

declare run_one_loop.simps [simp del]

definition run_one_task :: "genv \<Rightarrow> string option \<Rightarrow> int \<Rightarrow> int \<Rightarrow> int \<Rightarrow> sdmem \<Rightarrow> (int \<times> sdmem) cres" where
  "run_one_task gv cfg now taskid tux_id m =
     (case cfg of
        None \<Rightarrow> Ret (SYS_SYSTEM, sbSvrTabClear (nat taskid) m)
      | Some txt \<Rightarrow> run_one_loop gv now taskid tux_id (cf_open txt) m)"

text \<open>One more process for a known server; the state is written to the server with the number of the process slot.\<close>

definition gov_start :: "genv \<Rightarrow> string option \<Rightarrow> int \<Rightarrow> int \<Rightarrow> sdmem \<Rightarrow> (int \<times> sdmem) cres" where
  "gov_start gv cfg now taskid m =
     (let m1 = upd_svr (nat taskid) (\<lambda>e. e\<lparr>st_type := SVR_PERM\<rparr>) m;
          pid_index = server_get_pidentry m1
      in if pid_index < 0 then Ret (SYS_LIMIT, m1)
         else let m2 = upd_pid (nat pid_index) (\<lambda>e. e\<lparr>sp_svrid := st_svrid (svr m1 taskid), sp_svrpos := taskid\<rparr>) m1
              in if \<not> svr_ix m2 pid_index then Crash OutOfBounds
                 else let m3 = upd_svr (nat pid_index) (\<lambda>e. e\<lparr>st_state := TUX_IDLE\<rparr>) m2
                      in cbind (server_start_pid gv now taskid pid_index (set_timeout cfg taskid m3)) (\<lambda>(rc, m4).
                           if rc \<noteq> 0 then Ret (SYS_OS, sdSvrPidClear (nat pid_index) m4)
                           else Ret (0, upd_svr (nat taskid) (\<lambda>e. e\<lparr>st_pid_tot := st_pid_tot e + 1\<rparr>) m4)))"

definition gov_new :: "genv \<Rightarrow> string option \<Rightarrow> int \<Rightarrow> int \<Rightarrow> sdmem \<Rightarrow> (int \<times> sdmem) cres" where
  "gov_new gv cfg now tux_id m =
     (let taskid = server_get_identry m
      in if taskid < 0 then Ret (SYS_LIMIT, m) else run_one_task gv cfg now taskid tux_id m)"

definition gov_dead :: "int \<Rightarrow> sdmem \<Rightarrow> (int \<times> int) list \<times> sdmem" where
  "gov_dead taskid m =
     server_kill taskid True (upd_svr (nat taskid) (\<lambda>e. e\<lparr>st_type := SVR_TEMP, st_state := TUX_DEAD\<rparr>) m)"

definition store :: "sdmem \<Rightarrow> tst \<Rightarrow> tst" where
  "store m st = st\<lparr>ts := set_ctl (tp st) m (ts st)\<rparr>"

definition send_signals :: "(int \<times> int) list \<Rightarrow> tst \<Rightarrow> tst" where
  "send_signals sigs st = st\<lparr>ts := (ts st)\<lparr>sd_signals := sd_signals (ts st) @ sigs\<rparr>\<rparr>"

definition stored :: "(int \<times> sdmem) cres \<Rightarrow> tst \<Rightarrow> int out" where
  "stored r st = obind (of_cres r st) (\<lambda>(rc, m) st. Returned rc (store m st))"

definition gov_cmd :: "genv \<Rightarrow> int \<Rightarrow> int \<Rightarrow> tst \<Rightarrow> int out" where
  "gov_cmd gv cmd tid st =
     obind (mem st) (\<lambda>m st.
       let taskid = find_server_id tid m; cfg = sd_cfg (ts st); now = sd_now (ts st)
       in if cmd = TSK_CMD_START then
            stored (if taskid \<ge> 0 then gov_start gv cfg now taskid m else gov_new gv cfg now tid m) st
          else if cmd = TSK_CMD_EXIT then
            (if taskid \<ge> 0 then
               (let (sigs, m1) = gov_dead taskid m
                in obind (clean_task_msg (st_msg_type (svr m taskid)) (store m1 (send_signals sigs st)))
                     (\<lambda>rc st. Returned 0 st))
             else Returned SYS_NOENT st)
          else if cmd = TSK_CMD_FRESH then
            (if taskid \<ge> 0 then
               (let (sigs, m1) = gov_dead taskid m
                in stored (run_task_id gv cfg now taskid m1) (send_signals sigs st))
             else stored (gov_new gv cfg now tid m) st)
          else Returned 0 st)"

definition Governor :: "genv \<Rightarrow> sd_info_t \<Rightarrow> tst \<Rightarrow> unit out" where
  "Governor gv svcinfo st =
     (case si_data svcinfo of
        None \<Rightarrow> Faulted NullDeref
      | Some a \<Rightarrow>
          obind (of_cres (buf_bytes (HeapBuf a) TSKCMD_LEN (p_heap (tp st))) st) (\<lambda>bytes st.
          obind (gov_cmd gv (tc_cmd (dec_tskcmd bytes)) (tc_id (dec_tskcmd bytes)) st) (\<lambda>err st.
          obind (of_cres (buf_write (Some a) 8 (le_bytes 4 err) (p_heap (tp st))) st) (\<lambda>hp st.
            tux_return TUX_SUCCESS 0 (HeapBuf a) (si_len svcinfo) 0 (st\<lparr>tp := (tp st)\<lparr>p_heap := hp\<rparr>\<rparr>)))))"

section \<open>Ended children\<close>

text \<open>The restart in \<open>server_deatch\<close>.\<close>

definition restart :: "genv \<Rightarrow> string option \<Rightarrow> int \<Rightarrow> int \<Rightarrow> int \<Rightarrow> sdmem \<Rightarrow> sdmem cres" where
  "restart gv cfg now taskid pid_index m =
     cbind (reload_server_param gv cfg taskid
         (upd_pid (nat pid_index) (\<lambda>e. e\<lparr>sp_tot_restart_count := sp_tot_restart_count e + 1\<rparr>) m)) (\<lambda>(rc, m1).
     cbind (server_start_pid gv now taskid pid_index (set_timeout cfg taskid m1)) (\<lambda>(rc, m2).
       if rc \<noteq> 0 then Ret m2
       else if \<not> svr_ix m2 pid_index then Crash OutOfBounds
       else Ret (upd_pid (nat pid_index) (\<lambda>e. e\<lparr>sp_lastStart := now\<rparr>)
              (upd_svr (nat pid_index) (\<lambda>e. e\<lparr>st_state := TUX_AVAIL\<rparr>) m2))))"

definition deatch_tables :: "genv \<Rightarrow> string option \<Rightarrow> int \<Rightarrow> int \<Rightarrow> sdmem \<Rightarrow> sdmem cres" where
  "deatch_tables gv cfg now pid_index m =
     (let taskid = sp_svrpos (tSvrPid m ! nat pid_index)
      in if \<not> svr_ix m taskid \<or> \<not> pid_ix m taskid then Crash OutOfBounds
         else let m1 = upd_svr (nat taskid) (\<lambda>e. e\<lparr>st_pid_tot := st_pid_tot e - 1\<rparr>) m;
                  m2 = upd_pid (nat taskid) (\<lambda>e. e\<lparr>sp_lastDie := now, sp_tot_restart_count := sp_tot_restart_count e + 1\<rparr>) m1;
                  m3 = (if sp_tot_restart_count (tSvrPid m2 ! nat pid_index) > 50
                        then upd_svr (nat taskid) (\<lambda>e. e\<lparr>st_type := SVR_TEMP\<rparr>) m2 else m2)
              in if st_type (svr m3 taskid) \<noteq> SVR_TEMP then restart gv cfg now taskid pid_index m3 else Ret m3)"

definition deatch_one :: "genv \<Rightarrow> int \<Rightarrow> tst \<Rightarrow> unit out" where
  "deatch_one gv pr st =
     obind (mem st) (\<lambda>m st.
       let pid_index = server_find_pid pr m; taskid = sp_svrpos (tSvrPid m ! nat pid_index)
       in if pid_index < 0 then Returned () st
          else obind (of_cres (deatch_tables gv (sd_cfg (ts st)) (sd_now (ts st)) pid_index m) st) (\<lambda>m1 st.
            if st_pid_tot (svr m1 taskid) = 0 then
              (case tux_deletesvc taskid (tp st) (ts (store m1 st)) of
                 Crash e \<Rightarrow> Faulted e
               | Ret Blocked \<Rightarrow> Sleeping
               | Ret (Done (rc, p, s)) \<Rightarrow> Returned () (st\<lparr>tp := p, ts := s\<rparr>))
            else Returned () (store m1 st)))"

text \<open>\<open>prs\<close>: the children that \<open>waitpid\<close> reports, one after the other.\<close>

fun server_deatch :: "genv \<Rightarrow> int list \<Rightarrow> tst \<Rightarrow> unit out" where
  "server_deatch gv [] st = Returned () st"
| "server_deatch gv (pr # prs) st = obind (deatch_one gv pr st) (\<lambda>u st. server_deatch gv prs st)"

section \<open>Start and end\<close>

definition unload_here :: "tst \<Rightarrow> unit out" where
  "unload_here st =
     (if \<not> sdIsAttach (tp st) then Returned () st
      else obind (mem st) (\<lambda>m st. let (sigs, m') = unload_server m in Returned () (store m' (send_signals sigs st))))"

definition gov_exit_handler :: "tst \<Rightarrow> unit out" where
  "gov_exit_handler st = obind (unload_here st) (\<lambda>u st. Exited (-1) st)"

text \<open>\<open>main\<close> behind \<open>daemonize\<close>; when \<open>tux_advertise\<close> fails, the trace call reads \<open>tux_errno\<close> as a string.\<close>

definition gov_init :: "genv \<Rightarrow> int \<Rightarrow> nat \<Rightarrow> tst \<Rightarrow> int out" where
  "gov_init gv qjunk addr st =
     obind (lift_ps sys_start st) (\<lambda>rc st.
       if rc \<noteq> 0 then Exited (-1) st
       else obind (lift_ps (ipc_connect qjunk) st) (\<lambda>rc st.
         if rc \<noteq> 0 then Exited (-1) st
         else obind (mem st) (\<lambda>m st.
           obind (stored (server_load_cfg gv (sd_cfg (ts st)) m) st) (\<lambda>rc st.
             if rc \<noteq> 0 then Exited rc st
             else obind (advertise_here (Some SD_SERVER_MGR_NAME) (Some addr) st) (\<lambda>rc st.
               if rc \<noteq> 0 then Faulted OutOfBounds
               else obind (mem st) (\<lambda>m st.
                 obind (of_cres (load_server gv (sd_now (ts st)) m) st) (\<lambda>m' st. Returned 0 (store m' st))))))))"

definition gov_main :: "nat \<Rightarrow> genv \<Rightarrow> handlers \<Rightarrow> int \<Rightarrow> string \<Rightarrow> nat \<Rightarrow> tst \<Rightarrow> int out option" where
  "gov_main n gv hs qjunk junk addr st =
     (case gov_init gv qjunk addr st of
        Returned rc st \<Rightarrow>
          map_option (\<lambda>r. obind r (\<lambda>rc st. obind (unload_here st) (\<lambda>u st. Exited (-1) st)))
            (serve_loop n (hs(addr \<mapsto> Governor gv)) junk 0 0 st)
      | r \<Rightarrow> Some r)"

section \<open>The parser\<close>

text \<open>A value or key: no separator inside, and short enough for \<open>temp\<close>.\<close>

definition atom :: "string \<Rightarrow> bool" where
  "atom x \<longleftrightarrow> x \<noteq> [] \<and> length x \<le> 128 \<and> (\<forall>c \<in> set x. c \<noteq> SP \<and> c \<noteq> CHR ''='' \<and> c \<noteq> NUL)"

text \<open>The settings as they lie in the buffer: each is followed by a blank or a terminator.\<close>

fun kv_mem :: "(string \<times> string) list \<Rightarrow> string \<Rightarrow> bool" where
  "kv_mem [] s \<longleftrightarrow> s \<noteq> [] \<and> hd s = NUL"
| "kv_mem ((k, v) # l) s \<longleftrightarrow>
     (\<exists>c r. s = k @ CHR ''='' # v @ c # r \<and> (c = SP \<or> c = NUL) \<and> kv_mem l r)"

fun kv_line :: "(string \<times> string) list \<Rightarrow> string" where
  "kv_line [] = []"
| "kv_line [(k, v)] = k @ CHR ''='' # v"
| "kv_line ((k, v) # kv # l) = k @ CHR ''='' # v @ SP # kv_line (kv # l)"

definition task_line :: "string \<Rightarrow> (string \<times> string) list \<Rightarrow> string" where
  "task_line name kvs = name @ SP # kv_line kvs"

definition kv_ok :: "(string \<times> string) list \<Rightarrow> bool" where
  "kv_ok kvs \<longleftrightarrow> (\<forall>(k, v) \<in> set kvs. k \<in> set value_keys \<and> atom v)"

definition reset_entry :: "string \<Rightarrow> server_tab_t \<Rightarrow> server_tab_t" where
  "reset_entry name e = e\<lparr>st_name := name, st_svc_name := [], st_parm := [], st_pid_tot := 5, st_state := SVR_PERM,
     st_rsp_q := SVR_REPLY_NEED, st_timeout := MAX_TIMEOUT_SEC\<rparr>"

lemma key_atom: "k \<in> set value_keys \<Longrightarrow> atom k"
  by (auto simp: value_keys_def atom_def)

lemma kv_mem_NUL: "kv_mem l s \<Longrightarrow> NUL \<in> set s"
proof (induction l s rule: kv_mem.induct)
  case (1 s)
  then show ?case by (cases s) auto
qed auto

lemma kv_mem_line: "kv_mem kvs (kv_line kvs @ NUL # NUL # z) \<or> kvs = []"
  by (induction kvs rule: kv_line.induct) auto

lemma c_str_append: "NUL \<notin> set x \<Longrightarrow> c_str (x @ y) = x @ c_str y"
  by (induction x) (auto simp: c_str_def)

lemma c_str_NUL [simp]: "c_str (NUL # y) = []"
  by (simp add: c_str_def)

lemma c_str_Cons: "c \<noteq> NUL \<Longrightarrow> c_str (c # y) = c # c_str y"
  by (simp add: c_str_def)

lemma c_str_length: "length (c_str s) \<le> length s"
  by (simp add: c_str_def length_takeWhile_le)

text \<open>\<open>str_split\<close> finds an atom that starts at the pointer.\<close>

lemma split_here:
  assumes "atom x" "c = SP \<or> c = NUL \<or> c = CHR ''=''" "length (x @ c # r) \<le> 2048"
  shows "str_split (c_str (x @ c # r)) ''= '' 128 1 = Ret (Some (0, x))"
proof -
  let ?P = "\<lambda>c. c \<in> set ''= ''"
  have nx: "NUL \<notin> set x" "x \<noteq> []" "\<forall>a \<in> set x. \<not> ?P a" using assms(1) by (auto simp: atom_def)
  let ?y = "c_str (c # r)"
  have y: "?y = [] \<or> ?P (hd ?y)" using assms(2) by (auto simp: c_str_Cons)
  have s: "c_str (x @ c # r) = x @ ?y" using nx(1) by (rule c_str_append)
  have d: "dropWhile ?P (x @ ?y) = x @ ?y" "takeWhile ?P (x @ ?y) = []"
    using nx(2,3) by (cases x; simp)+
  have t: "takeWhile (\<lambda>c. \<not> ?P c) (x @ ?y) = x"
    using nx(3) y by (cases ?y) (auto simp: takeWhile_append)
  have "length (x @ ?y) \<le> 2048" using assms(3) c_str_length [of "x @ c # r"] s by simp
  moreover have "strtok ''= '' (x @ ?y) = Some (x, drop 1 (dropWhile (\<lambda>c. \<not> ?P c) (x @ ?y)))"
    unfolding strtok_def Let_def d(1) t using nx(2) by simp
  moreover have "tok_skip ''= '' (x @ ?y) = 0" unfolding tok_skip_def d(2) by simp
  ultimately show ?thesis
    using assms(1) unfolding s by (simp add: str_split_def split_loop.simps [of _ "x @ ?y"] atom_def)
qed

lemma split_end: "str_split [] ''= '' 128 1 = Ret None"
  by (simp add: str_split_def split_loop.simps [of _ "[]"] strtok_def)

lemma reg_loop_kvs:
  assumes "kv_mem kvs (drop p b)" "kv_ok kvs" "length b \<le> 513"
  shows "reg_loop i b p m = Ret (0, fold (\<lambda>(k, v). upd_svr i (set_key k v)) kvs m)"
  using assms
proof (induction kvs arbitrary: p m)
  case Nil
  then obtain r where r: "drop p b = NUL # r" by (cases "drop p b") auto
  show ?case by (subst reg_loop.simps) (simp add: r split_end)
next
  case (Cons kv l)
  obtain k v where kv: "kv = (k, v)" by force
  obtain c r where r: "drop p b = k @ CHR ''='' # v @ c # r" "c = SP \<or> c = NUL" "kv_mem l r"
    using Cons.prems(1) kv by auto
  have ok: "k \<in> set value_keys" "atom k" "atom v" "kv_ok l"
    using Cons.prems(2) kv key_atom by (auto simp: kv_ok_def)
  have len: "length (drop p b) \<le> 513" using Cons.prems(3) by simp
  have d1: "drop (p + length k + 1) b = v @ c # r"
    using arg_cong [OF r(1), of "drop (length k + 1)"] by (simp add: add_ac)
  have d2: "drop (p + length k + 1 + length v + 1) b = r"
    using arg_cong [OF d1, of "drop (length v + 1)"] by (simp add: add_ac)
  have s1: "str_split (c_str (drop p b)) ''= '' 128 1 = Ret (Some (0, k))"
    unfolding r(1) by (rule split_here [OF ok(2)]) (use len r(1) in auto)
  have s2: "str_split (c_str (drop (p + length k + 1) b)) ''= '' 128 1 = Ret (Some (0, v))"
    unfolding d1 by (rule split_here [OF ok(3)]) (use len r in auto)
  have n: "NUL \<in> set (drop p b)" "NUL \<in> set (drop (p + length k + 1) b)"
    using kv_mem_NUL [OF r(3)] unfolding r(1) d1 by auto
  have "reg_loop i b p m = reg_loop i b (p + length k + 1 + length v + 1) (upd_svr i (set_key k v) m)"
    using n s1 s2 ok(1) by (subst reg_loop.simps) simp
  also have "\<dots> = Ret (0, fold (\<lambda>(k, v). upd_svr i (set_key k v)) l (upd_svr i (set_key k v) m))"
    by (rule Cons.IH) (use d2 r(3) ok(4) Cons.prems(3) in auto)
  finally show ?case by (simp add: kv)
qed

lemma atom_chars: "atom x \<Longrightarrow> x \<noteq> [] \<and> SP \<notin> set x \<and> NUL \<notin> set x"
  by (auto simp: atom_def)

lemma kv_ok_Cons: "kv_ok ((k, v) # l) \<Longrightarrow> atom k \<and> atom v \<and> kv_ok l"
  using key_atom [of k] by (auto simp: kv_ok_def)

lemma no_blank_prefix:
  "y = [] \<or> hd y = SP \<Longrightarrow> takeWhile (\<lambda>c. c \<notin> set '' '') y = [] \<and> dropWhile (\<lambda>c. c \<notin> set '' '') y = y"
  "x \<noteq> [] \<Longrightarrow> SP \<notin> set x \<Longrightarrow>
     dropWhile (\<lambda>c. c \<in> set '' '') (x @ y) = x @ y \<and> takeWhile (\<lambda>c. c \<in> set '' '') (x @ y) = []"
  by (cases y; simp) (cases x; auto)

lemma strtok_here:
  assumes "x \<noteq> []" "SP \<notin> set x" "y = [] \<or> hd y = SP"
  shows "strtok '' '' (x @ y) = Some (x, drop 1 y) \<and> tok_skip '' '' (x @ y) = 0"
proof -
  let ?P = "\<lambda>c. c \<notin> set '' ''"
  have x: "c \<in> set x \<Longrightarrow> c \<notin> set '' ''" for c using assms(2) by auto
  have t: "takeWhile ?P (x @ y) = x" "dropWhile ?P (x @ y) = y"
    using takeWhile_append2 [of x ?P y, OF x] dropWhile_append2 [of x ?P y, OF x] no_blank_prefix(1) [OF assms(3)] by auto
  show ?thesis
    unfolding strtok_def tok_skip_def Let_def using no_blank_prefix(2) [OF assms(1,2), of y] t assms(1) by simp
qed

text \<open>\<open>strtok\<close> in place on a token that starts at the index.\<close>

lemma mem_strtok_here:
  assumes "drop i b = x @ c # r" "x \<noteq> []" "SP \<notin> set x" "NUL \<notin> set x" "c = SP \<or> c = NUL"
  shows "mem_strtok '' '' i b = Some (i, if c = NUL then i + length x else Suc (i + length x), b[i + length x := NUL])"
proof -
  let ?y = "c_str (c # r)"
  have y: "?y = [] \<or> hd ?y = SP" using assms(5) by (auto simp: c_str_Cons)
  have cs: "c_str (drop i b) = x @ ?y" unfolding assms(1) by (rule c_str_append [OF assms(4)])
  have "cchar b (i + length x) = c"
  proof -
    have "i + length x < length b" using arg_cong [OF assms(1), of length] by simp
    moreover have "b ! (i + length x) = drop i b ! length x" using calculation by simp
    ultimately show ?thesis using assms(1) by (simp add: cchar_def)
  qed
  then show ?thesis
    using strtok_here [OF assms(2,3) y] by (simp add: mem_strtok_def cs Let_def)
qed

lemma fold_upd_svr:
  "fold (\<lambda>(k, v). upd_svr i (set_key k v)) kvs (upd_svr i f m) = upd_svr i (\<lambda>e. fold (\<lambda>(k, v). set_key k v) kvs (f e)) m"
proof (cases "i < length (tSvrTab m)")
  case True
  then show ?thesis by (induction kvs arbitrary: f) (auto simp: upd_svr_def)
next
  case False
  then have "upd_svr i g m = m" for g by (simp add: upd_svr_def list_update_beyond)
  then show ?thesis by (induction kvs) auto
qed

lemma kv_mem_first: "kv_mem l r \<Longrightarrow> kv_mem ((k, v) # l) ((k @ CHR ''='' # v) @ NUL # r)"
  by force

lemma kv_line_split:
  assumes "kvs \<noteq> []" "kv_ok kvs"
  shows "\<exists>x c r. kv_line kvs @ NUL # NUL # z = x @ c # r \<and> x \<noteq> [] \<and> SP \<notin> set x \<and> NUL \<notin> set x \<and> (c = SP \<or> c = NUL)
    \<and> kv_mem kvs (x @ NUL # r)"
proof -
  obtain k v l where kvs: "kvs = (k, v) # l" using assms(1) by (metis list.exhaust surj_pair)
  let ?x = "k @ CHR ''='' # v"
  have x: "?x \<noteq> []" "SP \<notin> set ?x" "NUL \<notin> set ?x"
    using kv_ok_Cons [of k v l] assms(2) kvs atom_chars [of k] atom_chars [of v] by auto
  obtain c r where c: "kv_line kvs @ NUL # NUL # z = ?x @ c # r" "c = SP \<or> c = NUL" "kv_mem l r"
  proof (cases l)
    case Nil
    then show ?thesis using that [of NUL "NUL # z"] kvs by simp
  next
    case (Cons kv l')
    then show ?thesis
      using that [of SP "kv_line l @ NUL # NUL # z"] kvs kv_mem_line [of l z] by (cases kv) simp
  qed
  then show ?thesis
    using x kv_mem_first [OF c(3), of k v] kvs by (intro exI [of _ ?x] exI [of _ c] exI [of _ r]) simp
qed

lemma register_server_line:
  assumes "atom name" "length name \<le> TUX_NAME_LEN" "kvs \<noteq> []" "kv_ok kvs" "length (task_line name kvs) \<le> 511"
    and "length (e_home gv @ ''/bin/'' @ name) \<le> 128" "e_exists gv (e_home gv @ ''/bin/'' @ name)"
    and "svr_ix m i"
  shows "register_server gv i (task_line name kvs) m =
    Ret (0, upd_svr (nat i) (\<lambda>e. fold (\<lambda>(k, v). set_key k v) kvs (reset_entry name e)) m)"
proof -
  have nm: "name \<noteq> []" "SP \<notin> set name" "NUL \<notin> set name" using atom_chars [OF assms(1)] by auto
  define z where "z = pad (513 - length (task_line name kvs) - 2)"
  have pd: "pad (513 - length (task_line name kvs)) = NUL # NUL # z"
  proof -
    have "513 - length (task_line name kvs) = Suc (Suc (513 - length (task_line name kvs) - 2))"
      using assms(5) by simp
    then show ?thesis unfolding z_def pad_def by (metis replicate_Suc)
  qed
  let ?b0 = "cstr_in 513 (task_line name kvs)"
  have b0: "?b0 = name @ SP # kv_line kvs @ NUL # NUL # z" unfolding cstr_in_def pd by (simp add: task_line_def)
  have lb: "length ?b0 = 513" using assms(5) by (simp add: cstr_in_def)
  let ?b1 = "?b0[length name := NUL]"
  have b1: "?b1 = name @ NUL # kv_line kvs @ NUL # NUL # z" by (simp add: b0 list_update_append)
  have t1: "mem_strtok '' '' 0 ?b0 = Some (0, Suc (length name), ?b1)"
    using mem_strtok_here [of 0 ?b0 name SP "kv_line kvs @ NUL # NUL # z"] nm b0 by simp
  obtain x c r where x: "kv_line kvs @ NUL # NUL # z = x @ c # r" "x \<noteq> []" "SP \<notin> set x" "NUL \<notin> set x"
    "c = SP \<or> c = NUL" "kv_mem kvs (x @ NUL # r)"
    using kv_line_split [OF assms(3,4)] by blast
  let ?p = "Suc (length name)" let ?b2 = "?b1[?p + length x := NUL]"
  have d1: "drop ?p ?b1 = x @ c # r" unfolding b1 x(1) by simp
  obtain nx where t2: "mem_strtok '' '' ?p ?b1 = Some (?p, nx, ?b2)"
    using mem_strtok_here [OF d1 x(2-5)] by simp
  have "?b2 = name @ NUL # x @ NUL # r" unfolding b1 x(1) by (simp add: list_update_append)
  then have d2: "drop ?p ?b2 = x @ NUL # r" by simp
  have full: "c_str ?b1 = name" unfolding b1 using nm(3) by (simp add: c_str_append)
  have trim: "AllTrim (take TUX_NAME_LEN name) = name"
  proof -
    have "dropWhile (\<lambda>c. c = SP) l = l" if "SP \<notin> set l" for l using that by (cases l) auto
    then show ?thesis using nm assms(2) by (simp add: cstr strip_def strip_left_def)
  qed
  have "reg_loop (nat i) ?b2 ?p m' = Ret (0, fold (\<lambda>(k, v). upd_svr (nat i) (set_key k v)) kvs m')" for m'
    by (rule reg_loop_kvs) (use d2 x(6) assms(4) lb in auto)
  then show ?thesis
    using assms(6-8) t2 unfolding register_server_def t1
    by (simp add: full trim Let_def fold_upd_svr reset_entry_def)
qed

section \<open>Process slots\<close>

definition free_pids :: "sdmem \<Rightarrow> nat list" where
  "free_pids m = filter (\<lambda>i. sp_pid (tSvrPid m ! i) = -1) [1..<sdNumberOfPid m]"

text \<open>The entry of a process started for server number \<open>i\<close>.\<close>

definition runs_for :: "int \<Rightarrow> int \<Rightarrow> sdmem \<Rightarrow> server_pid_t \<Rightarrow> bool" where
  "runs_for i now m e \<longleftrightarrow> sp_pid e > 0 \<and> sp_svrid e = st_svrid (svr m i) \<and> sp_svrpos e = i \<and> sp_lastStart e = now"

lemma scan_filter:
  "scan P a n = (case filter P [a..<n] of [] \<Rightarrow> -1 | j # r \<Rightarrow> int j)"
proof (induction P a n rule: scan.induct)
  case (1 P a n)
  then show ?case by (subst scan.simps) (auto simp: upt_conv_Cons)
qed

lemma get_pidentry_free: "server_get_pidentry m = (case free_pids m of [] \<Rightarrow> -1 | j # r \<Rightarrow> int j)"
  by (simp add: server_get_pidentry_def free_pids_def scan_filter)

lemma free_pids_bounds: "j \<in> set (free_pids m) \<Longrightarrow> 1 \<le> j \<and> j < sdNumberOfPid m"
  by (auto simp: free_pids_def)

lemma free_pids_distinct: "distinct (free_pids m)"
  by (simp add: free_pids_def)

lemma free_pids_busy:
  assumes "free_pids m = j # r" "tSvrPid m' = (tSvrPid m)[j := e]" "sp_pid e \<noteq> -1" "mbctrl m' = mbctrl m" "tabs_ok m"
  shows "free_pids m' = r"
proof -
  have j: "j < length (tSvrPid m)" using free_pids_bounds [of j m] assms(1,5) by (simp add: tabs_ok_def)
  have "free_pids m' = filter (\<lambda>i. i \<noteq> j) (free_pids m)"
    using assms(2-4) j by (auto simp: free_pids_def sdNumberOfPid_def nth_list_update intro!: filter_cong)
  also have "\<dots> = r" using free_pids_distinct [of m] assms(1) by (auto intro: filter_True)
  finally show ?thesis .
qed

lemma upd_simps [simp]:
  "mbctrl (upd_svr i f m) = mbctrl m" "tSvrPid (upd_svr i f m) = tSvrPid m" "tSvcTab (upd_svr i f m) = tSvcTab m"
  "length (tSvrTab (upd_svr i f m)) = length (tSvrTab m)"
  "mbctrl (upd_pid i g m) = mbctrl m" "tSvrTab (upd_pid i g m) = tSvrTab m" "tSvcTab (upd_pid i g m) = tSvcTab m"
  "length (tSvrPid (upd_pid i g m)) = length (tSvrPid m)"
  "mbctrl (sdSvrPidClear i m) = mbctrl m" "tSvrTab (sdSvrPidClear i m) = tSvrTab m" "tSvcTab (sdSvrPidClear i m) = tSvcTab m"
  "length (tSvrPid (sdSvrPidClear i m)) = length (tSvrPid m)"
  "mbctrl (sbSvrTabClear i m) = mbctrl m" "tSvrPid (sbSvrTabClear i m) = tSvrPid m" "tSvcTab (sbSvrTabClear i m) = tSvcTab m"
  "length (tSvrTab (sbSvrTabClear i m)) = length (tSvrTab m)"
  by (simp_all add: upd_svr_def upd_pid_def sdSvrPidClear_def sbSvrTabClear_def)

lemma start_pid_ok:
  assumes "e_fork gv (st_name (svr m i)) (start_param k (svr m i)) m > 0" "svr_ix m i" "pid_ix m k"
    and "length (start_param k (svr m i)) \<le> 128"
  shows "\<exists>pid > 0. server_start_pid gv now i k m = Ret (0, upd_pid (nat k) (\<lambda>e. e\<lparr>sp_pid := pid, sp_lastStart := now\<rparr>) m)"
  using assms by (auto simp: server_start_pid_def server_load_def Let_def)

text \<open>\<open>server_run\<close> can start its processes: \<open>fork\<close> succeeds and the parameter string fits.\<close>

definition can_start :: "genv \<Rightarrow> server_tab_t \<Rightarrow> nat \<Rightarrow> bool" where
  "can_start gv e npid \<longleftrightarrow> (\<forall>n p m. e_fork gv n p m > 0) \<and> (\<forall>k < npid. length (start_param (int k) e) \<le> 128)"

definition idle :: "int \<Rightarrow> sdmem \<Rightarrow> sdmem" where
  "idle i m = upd_svr (nat i) (\<lambda>e. e\<lparr>st_state := TUX_IDLE\<rparr>) m"

lemma idle_svr:
  assumes "svr_ix m i"
  shows "svr (idle i m) i = (svr m i)\<lparr>st_state := TUX_IDLE\<rparr>" "tSvrTab (idle i (idle i m)) = tSvrTab (idle i m)"
  using assms by (simp_all add: svr_def idle_def upd_svr_def svr_ix_def nat_less_iff)

text \<open>One turn of the loop fills the first free slot.\<close>

lemma run_loop_step:
  assumes "tabs_ok m" "svr_ix m i" "can_start gv (svr m i) (sdNumberOfPid m)" "free_pids m = j # r"
  shows "\<exists>m2 e. run_loop gv now i c (Suc n) m = run_loop gv now i (c + 1) n m2
    \<and> tSvrPid m2 = (tSvrPid m)[j := e] \<and> runs_for i now m e \<and> tSvrTab m2 = tSvrTab (idle i m) \<and> mbctrl m2 = mbctrl m
    \<and> tabs_ok m2 \<and> free_pids m2 = r"
proof -
  have j: "1 \<le> j" "j < length (tSvrPid m)" "j < sdNumberOfPid m"
    using free_pids_bounds [of j m] assms(1,4) by (auto simp: tabs_ok_def)
  define m1 where "m1 = upd_pid j (\<lambda>e. e\<lparr>sp_svrid := st_svrid (svr m i), sp_seq := c, sp_svrpos := i\<rparr>) m"
  have s1: "svr m1 i = svr m i" "svr_ix m1 i" "pid_ix m1 (int j)"
    using assms(2) j by (simp_all add: m1_def svr_def svr_ix_def pid_ix_def)
  obtain pid where pid: "pid > 0" "server_start_pid gv now i (int j) m1 =
      Ret (0, upd_pid j (\<lambda>e. e\<lparr>sp_pid := pid, sp_lastStart := now\<rparr>) m1)"
    using start_pid_ok [of gv m1 i "int j" now] s1 assms(3) j by (auto simp: can_start_def)
  define e where "e = (tSvrPid m ! j)\<lparr>sp_svrid := st_svrid (svr m i), sp_seq := c, sp_svrpos := i, sp_pid := pid,
    sp_lastStart := now\<rparr>"
  define m2 where "m2 = idle i (upd_pid j (\<lambda>e. e\<lparr>sp_pid := pid, sp_lastStart := now\<rparr>) m1)"
  have p2: "tSvrPid m2 = (tSvrPid m)[j := e]" using j by (simp add: m2_def m1_def upd_pid_def e_def idle_def)
  have t2: "tSvrTab m2 = tSvrTab (idle i m)" "mbctrl m2 = mbctrl m" "tSvcTab m2 = tSvcTab m"
    by (simp_all add: m2_def m1_def idle_def) (simp add: upd_svr_def)
  have "free_pids m2 = r"
    using free_pids_busy [OF assms(4) p2 _ t2(2) assms(1)] pid(1) by (simp add: e_def)
  moreover have "tabs_ok m2"
    using assms(1) p2 t2 by (simp add: tabs_ok_def sdNumberOfPid_def sdNumberOfSvr_def idle_def)
  moreover have "runs_for i now m e" using pid(1) by (simp add: runs_for_def e_def)
  moreover have "run_loop gv now i c (Suc n) m = run_loop gv now i (c + 1) n m2"
    using pid(2) by (simp add: get_pidentry_free assms(4) m1_def [symmetric] m2_def idle_def)
  ultimately show ?thesis using p2 t2(1,2) by blast
qed

lemma run_loop_slots:
  assumes "tabs_ok m" "svr_ix m i" "can_start gv (svr m i) (sdNumberOfPid m)"
  shows "\<exists>m'. run_loop gv now i c n m = Ret (if n \<le> length (free_pids m) then 0 else SYS_LIMIT, m')
    \<and> tabs_ok m' \<and> (\<forall>j \<in> set (take n (free_pids m)). runs_for i now m (tSvrPid m' ! j))
    \<and> (\<forall>j. j \<notin> set (take n (free_pids m)) \<longrightarrow> tSvrPid m' ! j = tSvrPid m ! j)
    \<and> tSvrTab m' = (if n = 0 \<or> free_pids m = [] then tSvrTab m else tSvrTab (idle i m))"
  using assms
proof (induction n arbitrary: c m)
  case (Suc n)
  show ?case
  proof (cases "free_pids m")
    case Nil
    then show ?thesis using Suc.prems by (intro exI [of _ m]) (simp add: get_pidentry_free)
  next
    case (Cons j r)
    obtain m2 e where m2: "run_loop gv now i c (Suc n) m = run_loop gv now i (c + 1) n m2"
      "tSvrPid m2 = (tSvrPid m)[j := e]" "runs_for i now m e" "tSvrTab m2 = tSvrTab (idle i m)" "mbctrl m2 = mbctrl m"
      "tabs_ok m2" "free_pids m2 = r"
      using run_loop_step [OF Suc.prems Cons, of now c n] by blast
    have "svr m2 i = svr (idle i m) i" by (simp only: svr_def m2(4))
    then have v2: "svr m2 i = (svr m i)\<lparr>st_state := TUX_IDLE\<rparr>" "svr_ix m2 i"
      using Suc.prems(2) idle_svr(1) [OF Suc.prems(2)] by (simp_all add: svr_ix_def m2(4)) (simp add: idle_def)
    have cs2: "can_start gv (svr m2 i) (sdNumberOfPid m2)"
      using Suc.prems(3) m2(5) by (simp add: can_start_def v2(1) start_param_def sdNumberOfPid_def)
    from Suc.IH [OF m2(6) v2(2) cs2, of "c + 1"] m2(7) obtain m' where m':
      "run_loop gv now i (c + 1) n m2 = Ret (if n \<le> length r then 0 else SYS_LIMIT, m')" "tabs_ok m'"
      "\<forall>j \<in> set (take n r). runs_for i now m2 (tSvrPid m' ! j)"
      "\<forall>j. j \<notin> set (take n r) \<longrightarrow> tSvrPid m' ! j = tSvrPid m2 ! j"
      "tSvrTab m' = (if n = 0 \<or> r = [] then tSvrTab m2 else tSvrTab (idle i m2))"
      by auto
    have "tSvrTab (idle i m2) = tSvrTab (idle i (idle i m))" by (simp add: idle_def upd_svr_def m2(4) [unfolded idle_def])
    then have "tSvrTab (idle i m2) = tSvrTab m2" by (simp only: idle_svr(2) [OF Suc.prems(2)] m2(4))
    then have tab: "tSvrTab m' = tSvrTab (idle i m)" using m'(5) m2(4) by simp
    have j: "j \<notin> set r" "j < length (tSvrPid m)"
      using free_pids_distinct [of m] free_pids_bounds [of j m] Cons Suc.prems(1) by (auto simp: tabs_ok_def)
    have "j \<notin> set (take n r)" using j(1) by (meson in_set_takeD)
    then have "tSvrPid m' ! j = e" using m'(4) j(2) m2(2) by simp
    moreover have "runs_for i now m2 x = runs_for i now m x" for x by (simp add: runs_for_def v2(1))
    moreover have "tSvrPid m' ! k = tSvrPid m ! k" if "k \<notin> set (take (Suc n) (free_pids m))" for k
      using that m'(4) m2(2) Cons by auto
    ultimately show ?thesis
      using m'(1-3) m2(1,3) tab Cons by (intro exI [of _ m']) simp
  qed
qed (auto simp: runs_for_def)

section \<open>Killing\<close>

definition kill_match :: "int \<Rightarrow> server_pid_t \<Rightarrow> bool" where
  "kill_match svrid e \<longleftrightarrow> sp_svrid e = svrid \<and> svrid \<noteq> -1 \<and> svrid \<noteq> TUX_DEAD"

lemma kill_fold:
  assumes "n \<le> length (tSvrPid m)"
  shows "fold (kill_step svrid clear) [0..<n] (sg, m) =
    (sg @ map (\<lambda>e. (sp_pid e, SIGTERM)) (filter (kill_match svrid) (take n (tSvrPid m))),
     m\<lparr>tSvrPid := map (\<lambda>e. if clear \<and> kill_match svrid e then pid_zero\<lparr>sp_pid := -1\<rparr> else e) (take n (tSvrPid m))
        @ drop n (tSvrPid m)\<rparr>)"
  using assms
proof (induction n)
  case (Suc n)
  then have n: "n < length (tSvrPid m)" by simp
  let ?f = "\<lambda>e. if clear \<and> kill_match svrid e then pid_zero\<lparr>sp_pid := -1\<rparr> else e"
  let ?ps = "tSvrPid m" let ?x = "map ?f (take n ?ps)"
  let ?m = "m\<lparr>tSvrPid := ?x @ drop n ?ps\<rparr>" and ?s = "sg @ map (\<lambda>e. (sp_pid e, SIGTERM)) (filter (kill_match svrid) (take n ?ps))"
  have d: "drop n ?ps = ?ps ! n # drop (Suc n) ?ps" using n by (simp add: Cons_nth_drop_Suc)
  have t: "take (Suc n) ?ps = take n ?ps @ [?ps ! n]" using n by (simp add: take_Suc_conv_app_nth)
  have l: "length ?x = n" using n by simp
  have nth: "tSvrPid ?m ! n = ?ps ! n" using nth_append_length [of ?x "?ps ! n" "drop (Suc n) ?ps"] l d by simp
  have upd: "sdSvrPidClear n ?m = m\<lparr>tSvrPid := ?x @ (pid_zero\<lparr>sp_pid := -1\<rparr>) # drop (Suc n) ?ps\<rparr>"
    using list_update_length [of ?x "?ps ! n" "drop (Suc n) ?ps"] l d by (simp add: sdSvrPidClear_def)
  have "fold (kill_step svrid clear) [0..<Suc n] (sg, m) = kill_step svrid clear n (?s, ?m)"
    using Suc by simp
  also have "\<dots> = (if kill_match svrid (?ps ! n) then (?s @ [(sp_pid (?ps ! n), SIGTERM)], if clear then sdSvrPidClear n ?m else ?m)
      else (?s, ?m))"
    using nth by (auto simp: kill_step_def Let_def kill_match_def)
  finally show ?case unfolding upd t using d by auto
qed simp

lemma server_kill_eq:
  assumes "tabs_ok m"
  shows "server_kill i clear m =
    (map (\<lambda>e. (sp_pid e, SIGTERM)) (filter (kill_match (st_svrid (svr m i))) (tSvrPid m)),
     m\<lparr>tSvrPid := map (\<lambda>e. if clear \<and> kill_match (st_svrid (svr m i)) e then pid_zero\<lparr>sp_pid := -1\<rparr> else e) (tSvrPid m)\<rparr>)"
  using kill_fold [of "sdNumberOfPid m" m "st_svrid (svr m i)" clear "[]"] assms
  by (simp add: server_kill_def tabs_ok_def)

section \<open>The shape of the tables\<close>

text \<open>Every operation of the task manager keeps the control block, the service table, the sizes of the tables and
  the entry 0 of the server table, which is its own.\<close>

definition same_shape :: "sdmem \<Rightarrow> sdmem \<Rightarrow> bool" where
  "same_shape m m' \<longleftrightarrow> mbctrl m' = mbctrl m \<and> tSvcTab m' = tSvcTab m \<and> length (tSvrTab m') = length (tSvrTab m)
     \<and> length (tSvrPid m') = length (tSvrPid m) \<and> (tSvrTab m \<noteq> [] \<longrightarrow> tSvrTab m' ! 0 = tSvrTab m ! 0)"

named_theorems shape \<open>operations that keep the shape\<close>

lemma same_shape_refl [shape]: "same_shape m m"
  by (simp add: same_shape_def)

lemma same_shape_trans: "same_shape a b \<Longrightarrow> same_shape b c \<Longrightarrow> same_shape a c"
  by (auto simp: same_shape_def)

lemma same_shape_ok: "same_shape m m' \<Longrightarrow> tabs_ok m' = tabs_ok m"
  by (simp add: same_shape_def tabs_ok_def sdNumberOfSvr_def sdNumberOfPid_def)

lemma shape_svr [shape]: "i > 0 \<Longrightarrow> same_shape m (upd_svr i f m)"
  by (auto simp: same_shape_def upd_svr_def)

lemma shape_pid [shape]: "same_shape m (upd_pid i f m)"
  by (simp add: same_shape_def)

lemma shape_clear [shape]: "same_shape m (sdSvrPidClear i m)" "i > 0 \<Longrightarrow> same_shape m (sbSvrTabClear i m)"
  by (auto simp: same_shape_def sbSvrTabClear_def sdSvrPidClear_def)

text \<open>A turn of the loop of \<open>register_server\<close>, by the kind of the key.\<close>

lemma reg_loop_val:
  assumes "NUL \<in> set (drop p b)" "str_split (c_str (drop p b)) ''= '' 128 1 = Ret (Some (off, key))" "key \<in> set value_keys"
  shows "reg_loop i b p m = (let p1 = p + off + length key + 1
    in if NUL \<notin> set (drop p1 b) then Crash OutOfBounds
       else cbind (str_split (c_str (drop p1 b)) ''= '' 128 1) (\<lambda>t2. case t2 of None \<Rightarrow> Ret (0, m)
         | Some (off2, v) \<Rightarrow> reg_loop i b (p1 + off2 + length v + 1) (upd_svr i (set_key key v) m)))"
  using assms by (subst reg_loop.simps) (simp only: not_True_eq_False if_False if_True cbind.simps option.case prod.case Let_def)

lemma reg_loop_parm:
  assumes "NUL \<in> set (drop p b)" "str_split (c_str (drop p b)) ''= '' 128 1 = Ret (Some (off, ''SRVPARM''))"
  shows "reg_loop i b p m = (let p1 = p + off + length ''SRVPARM'' + 1
    in if NUL \<notin> set (drop p1 b) then Crash OutOfBounds
       else case strchr_at (CHR 0x22) p1 b of None \<Rightarrow> Ret (-1, m)
         | Some q0 \<Rightarrow> (case strchr_at (CHR 0x22) (Suc q0) b of None \<Rightarrow> Ret (-2, m)
             | Some q1 \<Rightarrow> let s = take (q1 - q0 - 1) (drop (Suc q0) b)
                 in if length s > SERVER_MAX_PARAM + 1 then Crash BufOverflow
                    else reg_loop i b (Suc q1) (upd_svr i (\<lambda>e. e\<lparr>st_parm := s @ drop (length s) (st_parm e)\<rparr>) m)))"
proof -
  have "''SRVPARM'' \<notin> set value_keys" by (simp add: value_keys_def)
  with assms show ?thesis
    by (subst reg_loop.simps) (simp only: not_True_eq_False refl if_False if_True cbind.simps option.case prod.case Let_def)
qed

lemma reg_loop_other:
  assumes "NUL \<in> set (drop p b)" "str_split (c_str (drop p b)) ''= '' 128 1 = Ret (Some (off, key))"
    "key \<notin> set value_keys" "key \<noteq> ''SRVPARM''"
  shows "reg_loop i b p m = reg_loop i b (p + off + length key + 1) m"
  using assms by (subst reg_loop.simps) (simp only: not_True_eq_False if_False if_True cbind.simps option.case prod.case Let_def)

lemma reg_loop_end:
  assumes "NUL \<in> set (drop p b)" "str_split (c_str (drop p b)) ''= '' 128 1 = Ret None"
  shows "reg_loop i b p m = Ret (0, m)"
  using assms by (subst reg_loop.simps) (simp only: not_True_eq_False if_False if_True cbind.simps option.case)

text \<open>A turn changes at most the entry.\<close>

lemma reg_loop_turn:
  assumes "reg_loop i b p m = Ret (rc, m')"
  shows "m' = m \<or> (\<exists>p' f. p < p' \<and> p < length b \<and> reg_loop i b p' (upd_svr i f m) = Ret (rc, m'))
    \<or> (\<exists>p'. p < p' \<and> p < length b \<and> reg_loop i b p' m = Ret (rc, m'))"
proof -
  have n: "NUL \<in> set (drop p b)"
    using assms by (subst (asm) reg_loop.simps) (simp only: split: if_splits, simp)
  have p: "p < length b" using n by (rule drop_set_less)
  obtain t where t: "str_split (c_str (drop p b)) ''= '' 128 1 = Ret t"
    by (cases "str_split (c_str (drop p b)) ''= '' 128 1")
      (use assms n in \<open>subst (asm) reg_loop.simps, simp only: cbind.simps not_True_eq_False if_False, simp\<close>)+
  consider "t = None" | off key where "t = Some (off, key)" "key \<in> set value_keys"
    | off where "t = Some (off, ''SRVPARM'')" | off key where "t = Some (off, key)" "key \<notin> set value_keys" "key \<noteq> ''SRVPARM''"
    by (metis option.exhaust surj_pair)
  then show ?thesis
  proof cases
    case 1
    then show ?thesis using reg_loop_end n t assms by simp
  next
    case (2 off key)
    note e = assms [unfolded reg_loop_val [OF n t [unfolded 2(1)] 2(2)] Let_def]
    have "m' = m \<or> (\<exists>off2 v. reg_loop i b (p + off + length key + 1 + off2 + length v + 1) (upd_svr i (set_key key v) m)
        = Ret (rc, m'))"
      using e by (auto simp: cbind_Ret_iff split: if_splits option.splits)
    moreover have "p < p + off + length key + 1 + off2 + length v + 1" for off2 and v :: string by simp
    ultimately show ?thesis using p by blast
  next
    case (3 off)
    note e = assms [unfolded reg_loop_parm [OF n t [unfolded 3]] Let_def]
    have "p < Suc q1" if "strchr_at (CHR 0x22) (p + off + length ''SRVPARM'' + 1) b = Some q0"
      "strchr_at (CHR 0x22) (Suc q0) b = Some q1" for q0 q1
      using strchr_at_ge [OF that(1)] strchr_at_ge [OF that(2)] by simp
    with e p show ?thesis by (auto split: if_splits option.splits)
  next
    case (4 off key)
    note e = assms [unfolded reg_loop_other [OF n t [unfolded 4(1)] 4(2,3)]]
    with p show ?thesis by (intro disjI2 exI [of _ "p + off + length key + 1"]) simp
  qed
qed

lemma shape_reg_loop: "reg_loop i b p m = Ret (rc, m') \<Longrightarrow> i > 0 \<Longrightarrow> same_shape m m'"
proof (induction "length b - p" arbitrary: p m rule: less_induct)
  case less
  from reg_loop_turn [OF less.prems(1)] show ?case
  proof (elim disjE exE conjE)
    fix p' f
    assume "p < p'" "p < length b" "reg_loop i b p' (upd_svr i f m) = Ret (rc, m')"
    then have "same_shape (upd_svr i f m) m'" using less.hyps [of p'] less.prems(2) by simp
    then show ?thesis using same_shape_trans [OF shape_svr [OF less.prems(2)]] by blast
  next
    fix p'
    assume "p < p'" "p < length b" "reg_loop i b p' m = Ret (rc, m')"
    then show ?thesis using less.hyps [of p'] less.prems(2) by simp
  qed (simp add: shape)
qed

lemma shape_register:
  assumes "register_server gv i buf m = Ret (rc, m')" "i > 0"
  shows "same_shape m m'"
proof -
  let ?m1 = "\<lambda>n. upd_svr (nat i) (\<lambda>e. e\<lparr>st_name := n, st_svc_name := [], st_parm := [], st_pid_tot := 5,
    st_state := SVR_PERM, st_rsp_q := SVR_REPLY_NEED, st_timeout := MAX_TIMEOUT_SEC\<rparr>) m"
  have "m' = m \<or> (\<exists>n b p. reg_loop (nat i) b p (?m1 n) = Ret (rc, m'))"
    using assms(1) by (auto simp: register_server_def Let_def split: option.splits prod.splits if_splits)
  then show ?thesis
    using shape_reg_loop [of "nat i"] same_shape_trans [OF shape_svr [of "nat i" m]] assms(2) shape(1) by fastforce
qed

lemma shape_start_pid:
  "server_start_pid gv now i k m = Ret (rc, m') \<Longrightarrow> same_shape m m'"
  by (auto simp: server_start_pid_def server_load_def Let_def shape split: if_splits)

lemma shape_run_loop: "run_loop gv now i c n m = Ret (rc, m') \<Longrightarrow> i > 0 \<Longrightarrow> same_shape m m'"
proof (induction n arbitrary: c m)
  case (Suc n)
  let ?k = "server_get_pidentry m"
  let ?m1 = "upd_pid (nat ?k) (\<lambda>e. e\<lparr>sp_svrid := st_svrid (svr m i), sp_seq := c, sp_svrpos := i\<rparr>) m"
  let ?idle = "upd_svr (nat i) (\<lambda>e. e\<lparr>st_state := TUX_IDLE\<rparr>)"
  consider "m' = m" | r m2 where "server_start_pid gv now i ?k ?m1 = Ret (r, m2)"
      "m' = sdSvrPidClear (nat ?k) m2 \<or> run_loop gv now i (c + 1) n (?idle m2) = Ret (rc, m')"
    using Suc.prems(1) by (auto simp: Let_def cbind_Ret_iff split: if_splits)
  then show ?case
  proof cases
    case (2 r m2)
    have s: "same_shape m m2" using same_shape_trans [OF shape_pid shape_start_pid [OF 2(1)]] by blast
    from 2(2) show ?thesis
    proof
      assume "run_loop gv now i (c + 1) n (?idle m2) = Ret (rc, m')"
      from Suc.IH [OF this Suc.prems(2)] show ?thesis
        using same_shape_trans [OF s] shape_svr [of "nat i" m2] Suc.prems(2) same_shape_trans by fastforce
    qed (use same_shape_trans [OF s] shape in auto)
  qed (simp add: shape)
qed (simp add: shape)

lemma shape_run: "server_run gv now i m = Ret (rc, m') \<Longrightarrow> i > 0 \<Longrightarrow> same_shape m m'"
  using shape_run_loop [of gv now i 0] same_shape_trans [OF shape_svr [of "nat i" m]]
  by (fastforce simp: server_run_def Let_def split: if_splits)

lemma shape_kill:
  assumes "server_kill i c m = (sg, m')" "tabs_ok m"
  shows "same_shape m m'"
  using assms by (auto simp: server_kill_eq same_shape_def)

lemma shape_run_task_loop:
  "run_task_loop gv now i f m = Ret (r, m') \<Longrightarrow> i > 0 \<Longrightarrow> same_shape m m'"
proof (induction "cf_size f" arbitrary: f m rule: less_induct)
  case less
  show ?case
  proof (cases "cf_nextparm ''tsk.task'' f")
    case (Pair v f')
    show ?thesis
    proof (cases v)
      case None
      then show ?thesis using less.prems Pair by (subst (asm) run_task_loop.simps) (simp add: shape)
    next
      case (Some temp)
      have lt: "cf_size f' < cf_size f" using nextparm_size Pair Some by blast
      note IH = less.hyps [OF lt _ less.prems(2)]
      have e: "(case strtok '' '' temp of None \<Rightarrow> Crash NullDeref
         | Some (p, r) \<Rightarrow>
             if \<not> strncmp_eq (st_name (svr m i)) (AllTrim (take TUX_NAME_LEN p)) TUX_NAME_LEN
             then run_task_loop gv now i f' m
             else cbind (register_server gv i temp m) (\<lambda>(rc, m1).
               if rc \<noteq> 0 then Ret (Some SYS_SYSTEM, sbSvrTabClear (nat i) m1)
               else cbind (server_run gv now i m1) (\<lambda>(rc, m2).
                 if rc \<noteq> 0 then Ret (Some SYS_OS, sbSvrTabClear (nat i) m2)
                 else run_task_loop gv now i f' m2))) = Ret (r, m')"
        using less.prems(1) Pair Some by (subst (asm) run_task_loop.simps) simp
      have c: "same_shape a (sbSvrTabClear (nat i) a)" for a using less.prems(2) by (simp add: shape)
      from e show ?thesis
        using IH shape_register [OF _ less.prems(2)] shape_run [OF _ less.prems(2)] c same_shape_trans
        by (auto simp: cbind_Ret_iff split: option.splits if_splits) metis+
    qed
  qed
qed

lemma shape_run_one_loop:
  "run_one_loop gv now i x f m = Ret (r, m') \<Longrightarrow> i > 0 \<Longrightarrow> same_shape m m'"
proof (induction "cf_size f" arbitrary: f m rule: less_induct)
  case less
  have c: "same_shape a (sbSvrTabClear (nat i) a)" for a using less.prems(2) by (simp add: shape)
  show ?case
  proof (cases "cf_nextparm ''tsk.task'' f")
    case (Pair v f')
    show ?thesis
    proof (cases v)
      case None
      then show ?thesis using less.prems Pair c by (subst (asm) run_one_loop.simps) auto
    next
      case (Some buf)
      have lt: "cf_size f' < cf_size f" using nextparm_size Pair Some by blast
      note IH = less.hyps [OF lt _ less.prems(2)]
      have e: "cbind (register_server gv i buf m) (\<lambda>(rc, m1).
            if rc \<noteq> 0 then Ret (SYS_SYSTEM, sbSvrTabClear (nat i) m1)
            else if st_svrid (svr m1 i) = x
            then cbind (server_run gv now i m1) (\<lambda>(rc, m2).
                   if rc \<noteq> 0 then Ret (SYS_OS, sbSvrTabClear (nat i) m2) else Ret (0, m2))
            else run_one_loop gv now i x f' m1) = Ret (r, m')"
        using less.prems(1) Pair Some by (subst (asm) run_one_loop.simps) simp
      from e show ?thesis
        using IH shape_register [OF _ less.prems(2)] shape_run [OF _ less.prems(2)] c same_shape_trans
        by (auto simp: cbind_Ret_iff split: if_splits) metis+
    qed
  qed
qed

lemma pidentry_positive: "server_get_pidentry m \<ge> 0 \<Longrightarrow> server_get_pidentry m > 0"
  unfolding server_get_pidentry_def
  by (cases rule: scan_cases [of "\<lambda>i. sp_pid (tSvrPid m ! i) = -1" 1 "sdNumberOfPid m"], simp_all)

lemma shape_start:
  assumes "gov_start gv cfg now i m = Ret (rc, m')" "i > 0"
  shows "same_shape m m'"
proof -
  let ?m1 = "upd_svr (nat i) (\<lambda>e. e\<lparr>st_type := SVR_PERM\<rparr>) m" let ?k = "server_get_pidentry ?m1"
  let ?m3 = "set_timeout cfg i (upd_svr (nat ?k) (\<lambda>e. e\<lparr>st_state := TUX_IDLE\<rparr>)
     (upd_pid (nat ?k) (\<lambda>e. e\<lparr>sp_svrid := st_svrid (svr ?m1 i), sp_svrpos := i\<rparr>) ?m1))"
  have p: "nat i > 0" using assms(2) by simp
  have k: "?k \<ge> 0 \<Longrightarrow> nat ?k > 0" using pidentry_positive by simp
  have 1: "same_shape m ?m1" using p by (rule shape_svr)
  have 3: "?k \<ge> 0 \<Longrightarrow> same_shape m ?m3"
    unfolding set_timeout_def using k p 1 by (blast intro: shape_svr shape_pid same_shape_trans)
  have "m' = ?m1 \<or> ?k \<ge> 0 \<and> (\<exists>r m4. server_start_pid gv now i ?k ?m3 = Ret (r, m4) \<and>
      (m' = sdSvrPidClear (nat ?k) m4 \<or> m' = upd_svr (nat i) (\<lambda>e. e\<lparr>st_pid_tot := st_pid_tot e + 1\<rparr>) m4))"
    using assms(1) by (auto simp: gov_start_def Let_def cbind_Ret_iff split: if_splits)
  then show ?thesis
    using 1 3 p by (blast intro: shape_svr shape_clear(1) shape_start_pid same_shape_trans)
qed

lemma find_positive: "find_server_id x m \<ge> 0 \<Longrightarrow> find_server_id x m > 0" "server_get_identry m \<ge> 0 \<Longrightarrow> server_get_identry m > 0"
  unfolding find_server_id_def server_get_identry_def
  by (cases rule: scan_cases [of "\<lambda>i. st_svrid (tSvrTab m ! i) = x" 1 "sdNumberOfSvr m"], simp_all)
    (cases rule: scan_cases [of "\<lambda>i. st_svrid (tSvrTab m ! i) = -1" 1 "sdNumberOfSvr m"], simp_all)

lemma shape_new: "gov_new gv cfg now x m = Ret (rc, m') \<Longrightarrow> same_shape m m'"
  using find_positive(2) [of m] shape_run_one_loop [of gv now "server_get_identry m" x]
    shape_clear(2) [of "nat (server_get_identry m)" m]
  by (auto simp: gov_new_def run_one_task_def Let_def shape split: if_splits option.splits)

lemma shape_task: "run_task_id gv cfg now i m = Ret (rc, m') \<Longrightarrow> i > 0 \<Longrightarrow> same_shape m m'"
  using shape_run_task_loop [of gv now i] same_shape_trans [OF _ shape_svr [of "nat i"]]
  by (fastforce simp: run_task_id_def cbind_Ret_iff shape split: option.splits)

lemma shape_dead:
  assumes "gov_dead i m = (sg, m')" "tabs_ok m" "i > 0"
  shows "same_shape m m'"
proof -
  let ?m1 = "upd_svr (nat i) (\<lambda>e. e\<lparr>st_type := SVR_TEMP, st_state := TUX_DEAD\<rparr>) m"
  have 1: "same_shape m ?m1" using assms(3) by (simp add: shape)
  show ?thesis
    using shape_kill [of i True ?m1 sg m'] assms(1,2) 1 same_shape_ok [OF 1] same_shape_trans [OF 1] by (simp add: gov_dead_def)
qed

section \<open>The whole command\<close>

lemma try_ctl:
  "msgrcv_try q sz t (s :: sys) = Some (Inr (x, s')) \<Longrightarrow> ctl p s' = ctl p s \<and> sd_signals s' = sd_signals s"
  by (auto simp: msgrcv_try_def Let_def msq_set_def ctl_def split: option.splits if_splits prod.splits shmptr.splits)

lemma get_now_ctl:
  assumes "get_msg q t MSQ_MODE_NONBLOCK (st\<lparr>tw := []\<rparr>) = Returned (n, x) st'"
  shows "ctl (tp st') (ts st') = ctl (tp st) (ts st) \<and> sd_signals (ts st') = sd_signals (ts st)"
proof -
  obtain r s' ws' where r: "msgrcv q BUS_MAX_MSG_LEN t True (ts st) [] = Done (r, s', ws')" "ts st' = s'"
    "p_ctl (tp st') = p_ctl (tp st)"
    using assms by (auto simp: get_msg_def MsqRcv_def split: wait.splits sum.splits)
  have "ctl (tp st) s' = ctl (tp st) (ts st) \<and> sd_signals s' = sd_signals (ts st)"
    using r(1) by (subst (asm) msgrcv.simps) (auto split: option.splits sum.splits if_splits dest: try_ctl)
  then show ?thesis using r(2,3) by (simp add: ctl_def)
qed

lemma clean_ctl: "clean_task_msg t st = Returned rc st' \<Longrightarrow>
    ctl (tp st') (ts st') = ctl (tp st) (ts st) \<and> sd_signals (ts st') = sd_signals (ts st)"
proof (induction t st rule: clean_task_msg.induct)
  case (1 t st)
  obtain m where m: "ctl (tp st) (ts st) = Ret m"
    using "1.prems" by (subst (asm) clean_task_msg.simps) (auto split: cres.splits)
  obtain n x st1 where g: "get_msg (mb_req_que_id (mbctrl m)) t MSQ_MODE_NONBLOCK (st\<lparr>tw := []\<rparr>) = Returned (n, x) st1"
    using "1.prems" m by (subst (asm) clean_task_msg.simps) (auto split: out.splits)
  have c: "ctl (tp st1) (ts st1) = ctl (tp st) (ts st) \<and> sd_signals (ts st1) = sd_signals (ts st)" by (rule get_now_ctl [OF g])
  show ?case
  proof (cases "n < 0 \<or> x = None")
    case True
    then show ?thesis using "1.prems" m g c by (subst (asm) clean_task_msg.simps) auto
  next
    case False
    then have "clean_task_msg t (st1\<lparr>tw := tw st\<rparr>) = Returned rc st'"
      using "1.prems" m g by (subst (asm) clean_task_msg.simps) auto
    with "1.IH" [OF m g refl False] c show ?thesis by simp
  qed
qed

lemma store_ctl: "ctl (tp st) (ts st) = Ret m0 \<Longrightarrow> ctl (tp (store m st)) (ts (store m st)) = Ret m"
  by (simp add: store_def ctl_set)

lemma signals_ctl [simp]: "ctl (tp (send_signals sg st)) (ts (send_signals sg st)) = ctl (tp st) (ts st)"
  by (simp add: send_signals_def ctl_def split: shmptr.split)

lemma stored_shape:
  assumes "stored r st = Returned rc st'" "ctl (tp st) (ts st) = Ret m0" "\<And>rc m'. r = Ret (rc, m') \<Longrightarrow> same_shape m m'"
  shows "\<exists>m'. ctl (tp st') (ts st') = Ret m' \<and> same_shape m m'"
  using assms by (cases r) (auto simp: stored_def intro: store_ctl)

section \<open>Properties\<close>


definition genv0 :: genv where
  "genv0 = \<lparr>e_home = ''/h'', e_exists = (\<lambda>f. True), e_fork = (\<lambda>n p m. 1000 + int (length p))\<rparr>"


text \<open>Claim C20. Starting a server: when \<open>fork\<close> works and the parameters fit, \<open>server_run\<close> starts one process in
  each of the first \<open>pid_tot\<close> free slots and touches no other slot; it returns 0, or \<open>SYS_LIMIT\<close>
  exactly when there were not enough free slots (those there were are then in use).\<close>

theorem server_run_fills_slots:
  assumes "tabs_ok m" "svr_ix m i" "can_start gv (svr m i) (sdNumberOfPid m)" "n = nat (st_pid_tot (svr m i))"
  shows "\<exists>m'. server_run gv now i m = Ret (if n \<le> length (free_pids m) then 0 else SYS_LIMIT, m')
    \<and> tabs_ok m' \<and> (\<forall>j \<in> set (take n (free_pids m)). runs_for i now m (tSvrPid m' ! j))
    \<and> (\<forall>j. j \<notin> set (take n (free_pids m)) \<longrightarrow> tSvrPid m' ! j = tSvrPid m ! j)"
proof -
  let ?m = "upd_svr (nat i) (\<lambda>e. e\<lparr>st_type := SVR_PERM\<rparr>) m"
  have s: "svr ?m i = (svr m i)\<lparr>st_type := SVR_PERM\<rparr>"
    using assms(2) by (simp add: svr_def upd_svr_def svr_ix_def nat_less_iff)
  have f: "free_pids ?m = free_pids m" "sdNumberOfPid ?m = sdNumberOfPid m" "tabs_ok ?m" "svr_ix ?m i"
    using assms(1,2) by (simp_all add: free_pids_def sdNumberOfPid_def sdNumberOfSvr_def tabs_ok_def svr_ix_def)
  have c: "can_start gv (svr ?m i) (sdNumberOfPid ?m)"
    using assms(3) by (simp add: can_start_def s f(2) start_param_def)
  have r: "runs_for i now ?m x = runs_for i now m x" for x by (simp add: runs_for_def s)
  show ?thesis
    using run_loop_slots [OF f(3,4) c, of now 0 n] assms(2,4)
    by (auto simp: server_run_def Let_def s f(1) r)
qed

theorem server_run_fills_slots_witness:
  "\<exists>m'. server_run genv0 5 1 sdmem2 = Ret (0, m') \<and> runs_for 1 5 sdmem2 (tSvrPid m' ! 2)
     \<and> tSvrPid m' ! 1 = tSvrPid sdmem2 ! 1"
proof -
  have "show_nat k = [char_of (48 + k)]" if "k < 10" for k using that by (subst show_nat.simps) simp
  then have "length (start_param (int k) (svr sdmem2 1)) \<le> 128" if "k < 3" for k
    using that by (simp add: start_param_def svr_def sdmem2_def svr_zero_def show_int_def)
  then have "can_start genv0 (svr sdmem2 1) (sdNumberOfPid sdmem2)"
    by (simp add: can_start_def genv0_def sdNumberOfPid_def sdmem2_def)
  moreover have "tabs_ok sdmem2" "svr_ix sdmem2 1" "free_pids sdmem2 = [2]" "nat (st_pid_tot (svr sdmem2 1)) = 1"
    by code_simp+
  ultimately show ?thesis using server_run_fills_slots [of sdmem2 1 genv0 1 5] by auto
qed

text \<open>Claim C19. \<open>server_kill\<close> sends \<open>SIGTERM\<close> exactly to the processes of the server, in the order of
  the process table, and (with \<open>clear\<close>) frees exactly their slots; the identifier 4, the value of the unrelated
  constant \<open>TUX_DEAD\<close>, is excepted: the processes of a server with that identifier are never killed.\<close>

theorem server_kill_exact:
  assumes "tabs_ok m"
  shows "server_kill i clear m =
    (let own = (\<lambda>e. sp_svrid e = st_svrid (svr m i) \<and> st_svrid (svr m i) \<notin> {-1, 4})
     in (map (\<lambda>e. (sp_pid e, SIGTERM)) (filter own (tSvrPid m)),
         m\<lparr>tSvrPid := map (\<lambda>e. if clear \<and> own e then pid_zero\<lparr>sp_pid := -1\<rparr> else e) (tSvrPid m)\<rparr>))"
  unfolding server_kill_eq [OF assms] kill_match_def [abs_def] TUX_DEAD_def by (simp add: Let_def)

theorem server_kill_exact_witness:
  "fst (server_kill 1 True sdmem2) = [(11, SIGTERM)]"
proof -
  have "tabs_ok sdmem2" by code_simp
  then show ?thesis
    using server_kill_exact [of sdmem2 1 True]
    by (simp add: Let_def svr_def sdmem2_def svr_zero_def pid_zero_def)
qed

text \<open>Claim C17. Every command of the administration tools, also one that fails, keeps the control block, the
  service table, the sizes of the tables and the task manager's own entry: the system stays administrable.\<close>

theorem gov_cmd_keeps_shape:
  assumes "ctl (tp st) (ts st) = Ret m" "tabs_ok m" "gov_cmd gv cmd tid st = Returned rc st'"
  shows "\<exists>m'. ctl (tp st') (ts st') = Ret m' \<and> same_shape m m' \<and> tabs_ok m'"
proof -
  let ?i = "find_server_id tid m" let ?cfg = "sd_cfg (ts st)" and ?now = "sd_now (ts st)"
  obtain sg m1 where d: "gov_dead ?i m = (sg, m1)" by force
  have dead: "?i \<ge> 0 \<Longrightarrow> same_shape m m1" using shape_dead [OF d assms(2)] find_positive(1) by blast
  have run: "?i \<ge> 0 \<Longrightarrow> run_task_id gv ?cfg ?now ?i m1 = Ret (r, m') \<Longrightarrow> same_shape m m'" for r m'
    using shape_task find_positive(1) same_shape_trans [OF dead] by blast
  have start: "?i \<ge> 0 \<Longrightarrow> gov_start gv ?cfg ?now ?i m = Ret (r, m') \<Longrightarrow> same_shape m m'" for r m'
    using shape_start find_positive(1) by blast
  note e = assms(3) [unfolded gov_cmd_def mem_Ret [OF assms(1)] obind.simps Let_def d prod.case]
  have "\<exists>m'. ctl (tp st') (ts st') = Ret m' \<and> same_shape m m'"
  proof (cases "cmd = TSK_CMD_EXIT \<and> ?i \<ge> 0")
    case True
    let ?s = "store m1 (send_signals sg st)"
    have "\<exists>rc1. clean_task_msg (st_msg_type (svr m ?i)) ?s = Returned rc1 st'"
      using e True by (cases "clean_task_msg (st_msg_type (svr m ?i)) ?s") (auto simp: TSK_CMD_EXIT_def TSK_CMD_START_def)
    then have "ctl (tp st') (ts st') = Ret m1"
      using clean_ctl store_ctl [of "send_signals sg st" m m1] assms(1) by fastforce
    with dead True show ?thesis by blast
  next
    case False
    show ?thesis
      using e False assms(1) shape(1) stored_shape [OF _ assms(1) start] stored_shape [OF _ assms(1) shape_new]
        stored_shape [where st = "send_signals sg st" and rc = rc and st' = st', OF _ _ run]
      by (auto split: if_splits)
  qed
  then show ?thesis using same_shape_ok assms(2) by blast
qed

theorem gov_cmd_keeps_shape_witness:
  "gov_cmd genv0 TSK_CMD_EXIT 9 st_gov = Returned SYS_NOENT st_gov \<and> (\<exists>m'. ctl (tp st_gov) (ts st_gov) = Ret m' \<and> same_shape mem_gov m' \<and> tabs_ok m')"
proof -
  have "find_server_id 9 mem_gov = -1" "tabs_ok mem_gov" by code_simp+
  moreover from this(1) have "gov_cmd genv0 TSK_CMD_EXIT 9 st_gov = Returned SYS_NOENT st_gov"
    by (simp add: gov_cmd_def mem_Ret [OF gov_ctl] Let_def TSK_CMD_EXIT_def TSK_CMD_START_def)
  ultimately show ?thesis using gov_cmd_keeps_shape [OF gov_ctl] by blast
qed

lemma find_server_id_some:
  assumes "find_server_id tid m = i" "i \<ge> 0" "tabs_ok m"
  shows "svr_ix m i \<and> st_svrid (svr m i) = tid"
proof -
  obtain k where k: "i = int k" using assms(2) nonneg_int_cases by blast
  show ?thesis
    using assms(1,3) scan_some [of "\<lambda>i. st_svrid (tSvrTab m ! i) = tid" 1 "sdNumberOfSvr m" k]
    by (simp add: k find_server_id_def svr_ix_def svr_def tabs_ok_def)
qed

text \<open>The tables after the exit command.\<close>

definition dead_tables :: "int \<Rightarrow> sdmem \<Rightarrow> sdmem" where
  "dead_tables i m = (upd_svr (nat i) (\<lambda>e. e\<lparr>st_type := SVR_TEMP, st_state := TUX_DEAD\<rparr>) m)
     \<lparr>tSvrPid := map (\<lambda>e. if sp_svrid e = st_svrid (svr m i) then pid_zero\<lparr>sp_pid := -1\<rparr> else e) (tSvrPid m)\<rparr>"

lemma gov_dead_eq:
  assumes "tabs_ok m" "svr_ix m i" "st_svrid (svr m i) \<notin> {-1, 4}"
  shows "gov_dead i m = (map (\<lambda>e. (sp_pid e, SIGTERM)) (filter (\<lambda>e. sp_svrid e = st_svrid (svr m i)) (tSvrPid m)), dead_tables i m)"
proof -
  let ?m0 = "upd_svr (nat i) (\<lambda>e. e\<lparr>st_type := SVR_TEMP, st_state := TUX_DEAD\<rparr>) m"
  have "tabs_ok ?m0" using assms(1) by (simp add: tabs_ok_def sdNumberOfPid_def sdNumberOfSvr_def)
  moreover have "st_svrid (svr ?m0 i) = st_svrid (svr m i)"
    using assms(2) by (simp add: svr_def upd_svr_def svr_ix_def nat_less_iff)
  moreover have "kill_match (st_svrid (svr m i)) = (\<lambda>e. sp_svrid e = st_svrid (svr m i))"
    using assms(3) by (auto simp: kill_match_def TUX_DEAD_def)
  ultimately show ?thesis by (simp add: gov_dead_def server_kill_eq dead_tables_def)
qed

lemma dead_tables_down:
  assumes "svr_ix m i"
  shows "svc_down (dead_tables i m) (nat i)"
  using assms by (simp add: dead_tables_def svc_down_def upd_svr_def svr_ix_def nat_less_iff)

lemma store_queues: "msq_at x (ts (store m (send_signals sg st))) = msq_at x (ts st)"
  by (simp add: store_def send_signals_def) (simp add: msq_at_def)



text \<open>Starting a server again after the exit command does not bring it back: the start command adds a
  process but writes the state \<open>TUX_IDLE\<close> to the server whose number is that of the process slot, so the
  server stays \<open>TUX_DEAD\<close> and every call to it is still refused.\<close>

theorem start_leaves_server_dead:
  assumes "gov_start gv cfg now i m = Ret (0, m')" "svr_ix m i" "st_state (svr m i) = TUX_DEAD" "server_get_pidentry m \<noteq> i"
  shows "svc_down m' (nat i) \<and> st_pid_tot (svr m' i) = st_pid_tot (svr m i) + 1"
proof -
  let ?k = "server_get_pidentry m"
  have k: "server_get_pidentry (upd_svr j f m) = server_get_pidentry m" for j f
    by (simp add: server_get_pidentry_def sdNumberOfPid_def)
  have n: "nat i < length (tSvrTab m)" "0 \<le> i" using assms(2) by (auto simp: svr_ix_def)
  define m1 where "m1 = upd_svr (nat i) (\<lambda>e. e\<lparr>st_type := SVR_PERM\<rparr>) m"
  define m3 where "m3 = upd_svr (nat ?k) (\<lambda>e. e\<lparr>st_state := TUX_IDLE\<rparr>)
    (upd_pid (nat ?k) (\<lambda>e. e\<lparr>sp_svrid := st_svrid (svr m1 i), sp_svrpos := i\<rparr>) m1)"
  have t3: "tSvrTab m3 = (tSvrTab m1)[nat ?k := (tSvrTab m1 ! nat ?k)\<lparr>st_state := TUX_IDLE\<rparr>]"
    "tSvrTab m1 = (tSvrTab m)[nat i := (svr m i)\<lparr>st_type := SVR_PERM\<rparr>]"
    by (simp_all add: m3_def m1_def svr_def upd_svr_def upd_pid_def)
  have k1: "server_get_pidentry m1 = ?k" by (simp add: m1_def k)
  have "SYS_LIMIT \<noteq> 0" "SYS_OS \<noteq> 0" by (simp_all add: SYS_LIMIT_def SYS_OS_def)
  then obtain m4 where m4: "server_start_pid gv now i ?k (set_timeout cfg i m3) = Ret (0, m4)" "?k \<ge> 0"
    "m' = upd_svr (nat i) (\<lambda>e. e\<lparr>st_pid_tot := st_pid_tot e + 1\<rparr>) m4"
    using assms(1) unfolding gov_start_def Let_def m1_def [symmetric] k1 m3_def [symmetric]
    by (auto simp: cbind_Ret_iff split: if_splits)
  have ne: "nat ?k \<noteq> nat i" using m4(2) assms(4) n(2) by simp
  have t4: "tSvrTab m4 = tSvrTab (set_timeout cfg i m3)"
    using m4(1) by (auto simp: server_start_pid_def server_load_def Let_def split: if_splits)
  obtain x where e: "svr m4 i = (svr m i)\<lparr>st_type := SVR_PERM, st_timeout := x\<rparr>"
    using n ne by (simp add: svr_def t4 set_timeout_def upd_svr_def t3)
  then have "st_state (svr m4 i) = TUX_DEAD" "st_pid_tot (svr m4 i) = st_pid_tot (svr m i)"
    using arg_cong [OF e, of st_state] arg_cong [OF e, of st_pid_tot] assms(3) by simp_all
  moreover have "nat i < length (tSvrTab m4)" using n by (simp add: t4 set_timeout_def upd_svr_def t3)
  ultimately show ?thesis by (simp add: m4(3) svc_down_def svr_def upd_svr_def)
qed

definition mem_dead :: sdmem where
  "mem_dead = sdmem2\<lparr>mbctrl := (mbctrl sdmem2)\<lparr>mb_nsvrnum := 4\<rparr>,
     tSvrTab := [svr_zero, svr_zero\<lparr>st_svrid := 7, st_name := ''testsvr'', st_svc_name := ''TEST'', st_state := 4\<rparr>,
       svr_zero\<lparr>st_svrid := -1\<rparr>, svr_zero\<lparr>st_svrid := -1\<rparr>], tSvcTab := replicate 4 svc_zero\<rparr>"

lemma digit_shown: "k < 10 \<Longrightarrow> show_int (int k) = [char_of (48 + k)]"
  by (subst show_int_def) (simp add: show_nat.simps [of k])

theorem start_leaves_server_dead_witness:
  "\<exists>m'. gov_start genv0 None 5 1 mem_dead = Ret (0, m') \<and> svc_down m' 1"
proof -
  let ?m1 = "upd_svr 1 (\<lambda>e. e\<lparr>st_type := SVR_PERM\<rparr>) mem_dead"
  let ?m3 = "set_timeout None 1 (upd_svr 2 (\<lambda>e. e\<lparr>st_state := TUX_IDLE\<rparr>)
    (upd_pid 2 (\<lambda>e. e\<lparr>sp_svrid := st_svrid (svr ?m1 1), sp_svrpos := 1\<rparr>) ?m1))"
  have k: "server_get_pidentry ?m1 = 2" "server_get_pidentry mem_dead = 2" by code_simp+
  have ix: "svr_ix ?m3 1" "pid_ix ?m3 2" "svr_ix mem_dead 1" "st_state (svr mem_dead 1) = TUX_DEAD" by code_simp+
  have "length (start_param 2 (svr ?m3 1)) \<le> 128"
    using digit_shown [of 2] digit_shown [of 7]
    by (simp add: start_param_def svr_def set_timeout_def upd_svr_def upd_pid_def mem_dead_def svr_zero_def)
  then obtain pid where "server_start_pid genv0 5 1 2 ?m3 = Ret (0, upd_pid 2 (\<lambda>e. e\<lparr>sp_pid := pid, sp_lastStart := 5\<rparr>) ?m3)"
    using start_pid_ok [of genv0 ?m3 1 2 5] ix by (auto simp: genv0_def)
  moreover have "svr_ix (upd_pid 2 (\<lambda>e. e\<lparr>sp_svrid := st_svrid (svr ?m1 1), sp_svrpos := 1\<rparr>) ?m1) 2" by code_simp
  ultimately have "\<exists>m'. gov_start genv0 None 5 1 mem_dead = Ret (0, m')" using k(1) by (simp add: gov_start_def Let_def)
  then show ?thesis
    using start_leaves_server_dead [of genv0 None 5 1 mem_dead] ix(3,4) k(2) by fastforce
qed

text \<open>A process that ends again after more than 50 restarts is given up: its server becomes temporary, no
  process is started, and the entry of the dead process stays in the process table for good.\<close>

theorem restart_limit:
  assumes "server_find_pid pr m = k" "k \<ge> 0" "sp_tot_restart_count (tSvrPid m ! nat k) > 50"
    and "i = sp_svrpos (tSvrPid m ! nat k)" "svr_ix m i" "pid_ix m i" "pid_ix m k"
  shows "\<exists>m'. deatch_tables gv cfg now k m = Ret m' \<and> st_type (svr m' i) = SVR_TEMP
    \<and> sp_pid (tSvrPid m' ! nat k) = pr \<and> st_pid_tot (svr m' i) = st_pid_tot (svr m i) - 1"
proof -
  have pr: "sp_pid (tSvrPid m ! nat k) = pr"
    using assms(1,2) scan_some [of "\<lambda>i. sp_pid (tSvrPid m ! i) = pr" 1 "sdNumberOfPid m" "nat k"]
    by (simp add: server_find_pid_def)
  have n: "nat i < length (tSvrTab m)" "nat i < length (tSvrPid m)" "nat k < length (tSvrPid m)"
    using assms(5-7) by (auto simp: svr_ix_def pid_ix_def)
  define m1 where "m1 = upd_svr (nat i) (\<lambda>e. e\<lparr>st_pid_tot := st_pid_tot e - 1\<rparr>) m"
  define m2 where "m2 = upd_pid (nat i) (\<lambda>e. e\<lparr>sp_lastDie := now, sp_tot_restart_count := sp_tot_restart_count e + 1\<rparr>) m1"
  define m3 where "m3 = upd_svr (nat i) (\<lambda>e. e\<lparr>st_type := SVR_TEMP\<rparr>) m2"
  have "tSvrPid m2 ! nat k = (if nat k = nat i then (tSvrPid m ! nat k)\<lparr>sp_lastDie := now,
      sp_tot_restart_count := sp_tot_restart_count (tSvrPid m ! nat k) + 1\<rparr> else tSvrPid m ! nat k)"
    using n by (simp add: m2_def m1_def upd_pid_def)
  then have "sp_tot_restart_count (tSvrPid m2 ! nat k) > 50" "sp_pid (tSvrPid m3 ! nat k) = pr"
    using assms(3) pr by (simp_all add: m3_def split: if_splits)
  moreover have "svr m3 i = (svr m i)\<lparr>st_pid_tot := st_pid_tot (svr m i) - 1, st_type := SVR_TEMP\<rparr>"
    using n by (simp add: m3_def m2_def m1_def svr_def upd_svr_def upd_pid_def)
  moreover have "deatch_tables gv cfg now k m =
      (let m3 = (if sp_tot_restart_count (tSvrPid m2 ! nat k) > 50 then m3 else m2)
       in if st_type (svr m3 i) \<noteq> SVR_TEMP then restart gv cfg now i k m3 else Ret m3)"
    using assms(5,6) unfolding deatch_tables_def Let_def assms(4) [symmetric] m1_def [symmetric] m2_def [symmetric]
      m3_def [symmetric] by simp
  ultimately show ?thesis by simp
qed

definition mem_worn :: sdmem where
  "mem_worn = sdmem2\<lparr>tSvrPid := [pid_zero, pid_zero\<lparr>sp_pid := 11, sp_svrid := 7, sp_svrpos := 1, sp_tot_restart_count := 51\<rparr>]\<rparr>"

theorem restart_limit_witness:
  "\<exists>m'. deatch_tables genv0 None 5 1 mem_worn = Ret m' \<and> sp_pid (tSvrPid m' ! 1) = 11"
proof -
  have "server_find_pid 11 mem_worn = 1" "sp_tot_restart_count (tSvrPid mem_worn ! 1) > 50"
    "sp_svrpos (tSvrPid mem_worn ! 1) = 1" "svr_ix mem_worn 1" "pid_ix mem_worn 1" by code_simp+
  then show ?thesis using restart_limit [of 11 mem_worn 1 1 genv0 None 5] by auto
qed

end
