(* ===== verification/FunSock.thy ===== *)
theory FunSock
  imports CString
begin

text \<open>
  Sockets, \<open>src/dev/src/pubfun/common/funsock.c\<close>.

  What the peer and the kernel do is data: the read side of a socket is the list of what successive \<open>read\<close> calls find
  (\<open>rd\<close>: a piece of data, the end of the stream, an error; the empty list is a non-blocking socket without data),
  the write side a list of how many bytes successive \<open>write\<close> calls take. The results of \<open>socket\<close>, \<open>bind\<close>, \<open>accept\<close>
  and \<open>connect\<close> are functions of the number of the attempt, or lists.

  \<open>flow\<close> is the byte stream behind the pieces. The locale \<open>byte_stream\<close> states what a reader of frames relies on: \<open>n\<close>
  bytes are the first \<open>n\<close> bytes of the flow and leave its rest, however the stream was cut; \<open>ReadSocket\<close> is an
  instance, and what \<open>RcvTxnMsg\<close> does with a frame follows from the two laws.

  The descriptors of the process are a map from the number to its options. Waiting (\<open>sleep\<close>) changes none of this state.
\<close>

section \<open>Reading and writing\<close>

datatype rd = Data string | Eof | Fail

text \<open>\<open>read(fd, buf, n)\<close>: the bytes (none: end or error) and what is left.\<close>

fun sock_read :: "nat \<Rightarrow> rd list \<Rightarrow> string \<times> rd list" where
  "sock_read n [] = ([], [])"
| "sock_read n (Eof # s) = ([], Eof # s)"
| "sock_read n (Fail # s) = ([], s)"
| "sock_read n (Data d # s) = (take n d, if length d \<le> n then s else Data (drop n d) # s)"

text \<open>The loop of \<open>ReadSocket\<close>: \<open>n\<close> bytes are missing; \<open>None\<close> is the return value -1.\<close>

function read_loop :: "nat \<Rightarrow> string \<Rightarrow> rd list \<Rightarrow> string option \<times> rd list" where
  "read_loop n acc s =
     (let (d, s') = sock_read n s
      in if d = [] then (None, s')
         else if length d < n then read_loop (n - length d) (acc @ d) s'
         else (Some (acc @ d), s'))"
  by pat_completeness auto
termination
  by (relation "measure (\<lambda>(n, acc, s). n)") auto

declare read_loop.simps [simp del]

definition ReadSocket :: "int \<Rightarrow> rd list \<Rightarrow> string option \<times> rd list" where
  "ReadSocket nLen s = (if nLen \<le> 0 then (None, s) else read_loop (nat nLen) [] s)"

text \<open>\<open>ws\<close>: the results of successive \<open>write\<close> calls. The result is the return value and the bytes that went out.\<close>

fun write_loop :: "string \<Rightarrow> int list \<Rightarrow> int \<times> string" where
  "write_loop b [] = (-1, [])"
| "write_loop b (k # ws) =
     (if k \<le> 0 then (-1, [])
      else if nat k \<ge> length b then (0, b)
      else let (rc, out) = write_loop (drop (nat k) b) ws in (rc, take (nat k) b @ out))"

definition WriteSocket :: "string \<Rightarrow> int \<Rightarrow> int list \<Rightarrow> int \<times> string" where
  "WriteSocket sBuf nLen ws = (if nLen \<le> 0 then (-1, []) else write_loop (take (nat nLen) sBuf) ws)"

text \<open>\<open>cap\<close> is the size of the caller's buffer; the bytes are those put into it. A length that does not leave the header
  buffer its final NUL, or that is larger than the body buffer, is a \<open>Crash\<close> at the call.\<close>

definition RcvTxnMsg :: "nat \<Rightarrow> int \<Rightarrow> rd list \<Rightarrow> (int \<times> string \<times> rd list) cres" where
  "RcvTxnMsg cap iHeadLen s =
     (if iHeadLen > 128 then Crash BufOverflow
      else case ReadSocket iHeadLen s of
        (None, s1) \<Rightarrow> Ret (-1, [], s1)
      | (Some sMsgLen, s1) \<Rightarrow>
          let iMsgInLen = atoi (c_str sMsgLen)
          in if iMsgInLen \<le> 0 then Ret (1, [], s1)
             else if iMsgInLen > 10241 then Crash BufOverflow
             else (case ReadSocket iMsgInLen s1 of
                 (None, s2) \<Rightarrow> Ret (-1, [], s2)
               | (Some sMsgInBuf, s2) \<Rightarrow>
                   if length sMsgLen + length sMsgInBuf > cap then Crash BufOverflow
                   else Ret (0, sMsgLen @ sMsgInBuf, s2)))"

section \<open>Descriptors\<close>

record sock =
  s_nonblock :: bool
  s_linger :: bool
  s_keepalive :: bool
  s_reuse :: bool
  s_port :: "int option"
  s_listen :: bool

type_synonym fds = "int \<rightharpoonup> sock"

definition fresh_sock :: sock where
  "fresh_sock = \<lparr>s_nonblock = False, s_linger = False, s_keepalive = False, s_reuse = False, s_port = None, s_listen = False\<rparr>"

text \<open>\<open>fcntl\<close> with \<open>F_GETFL\<close> and \<open>F_SETFL\<close>; \<open>err\<close> is the \<open>errno\<close> it sets on a descriptor that is not open.\<close>

definition sock_set_block :: "int \<Rightarrow> int \<Rightarrow> int \<Rightarrow> fds \<Rightarrow> int \<times> fds" where
  "sock_set_block err sockid on n =
     (case n sockid of
        None \<Rightarrow> (err, n)
      | Some k \<Rightarrow> (0, n(sockid \<mapsto> k\<lparr>s_nonblock := (on = 0)\<rparr>)))"

text \<open>\<open>setnonblocking\<close> has no \<open>return\<close>: its caller finds \<open>junk\<close>.\<close>

definition setnonblocking :: "int \<Rightarrow> int \<Rightarrow> fds \<Rightarrow> int \<times> fds" where
  "setnonblocking junk sockid n =
     (junk, case n sockid of None \<Rightarrow> n | Some k \<Rightarrow> n(sockid \<mapsto> k\<lparr>s_nonblock := True\<rparr>))"

definition CloseSocket :: "int \<Rightarrow> fds \<Rightarrow> int \<times> fds" where
  "CloseSocket nSocket n = (if n nSocket = None then (1, n) else (0, n(nSocket := None)))"

text \<open>\<open>oks\<close>: whether each of the three \<open>setsockopt\<close> calls succeeds.\<close>

definition Setsokopt :: "bool \<times> bool \<times> bool \<Rightarrow> int \<Rightarrow> fds \<Rightarrow> int \<times> fds" where
  "Setsokopt oks nSocket n =
     (case (n nSocket, oks) of
        (None, _) \<Rightarrow> (-1, n)
      | (Some k, (a, b, c)) \<Rightarrow>
          if \<not> a then (-1, n)
          else if \<not> b then (-1, n(nSocket \<mapsto> k\<lparr>s_linger := True\<rparr>))
          else if \<not> c then (-1, n(nSocket \<mapsto> k\<lparr>s_linger := True, s_keepalive := True\<rparr>))
          else (0, n(nSocket \<mapsto> k\<lparr>s_linger := True, s_keepalive := True, s_reuse := True\<rparr>)))"

text \<open>The two retry loops of \<open>CreateSocket\<close>: \<open>res i\<close> is the result of attempt \<open>i\<close>, \<open>k\<close> the retries left.\<close>

fun retry :: "nat \<Rightarrow> (nat \<Rightarrow> int) \<Rightarrow> nat \<Rightarrow> int" where
  "retry 0 res i = res i"
| "retry (Suc k) res i = (if res i < 0 then retry k res (Suc i) else res i)"

definition CreateSocket :: "int \<Rightarrow> int \<Rightarrow> int \<Rightarrow> (nat \<Rightarrow> int) \<Rightarrow> (nat \<Rightarrow> int) \<Rightarrow> bool \<times> bool \<times> bool \<Rightarrow> int \<Rightarrow> fds \<Rightarrow>
    int \<times> int \<times> fds" where
  "CreateSocket nPort nRetryNum nBlock sockets binds oks junk n =
     (let fd = retry (nat nRetryNum) sockets 0
      in if fd < 0 then (-1, fd, n)
         else
           let n1 = snd (Setsokopt oks fd (n(fd \<mapsto> fresh_sock)))
           in if retry (nat nRetryNum) binds 0 < 0 then (-2, fd, snd (CloseSocket fd n1))
              else
                let n2 = n1(fd := map_option (\<lambda>k. k\<lparr>s_port := Some (nPort mod 65536)\<rparr>) (n1 fd));
                    (iRet, n3) = (if nBlock = 1 then setnonblocking junk fd n2 else (0, n2))
                in if nBlock = 1 \<and> iRet \<noteq> 0 then (-3, fd, snd (CloseSocket fd n3))
                   else (0, fd, n3(fd := map_option (\<lambda>k. k\<lparr>s_listen := True\<rparr>) (n3 fd))))"

text \<open>\<open>acc\<close>: the results of successive \<open>accept\<close> calls; \<open>None\<close>: the function is still waiting when they are used up.\<close>

fun AcceptSocket :: "int list \<Rightarrow> (int \<times> int) option" where
  "AcceptSocket [] = None"
| "AcceptSocket (a # acc) = (if a \<ge> 0 then Some (0, a) else AcceptSocket acc)"

text \<open>One pass of the loop of \<open>OpenSocket\<close>: no descriptor; a descriptor whose connection is refused, or stands; the
  alarm while \<open>socket\<close> or while \<open>connect\<close> runs, which jumps back to \<open>sigsetjmp\<close> with \<open>Timeout\<close> set.\<close>

datatype attempt = NoSocket | Refused int | Connected int | AlarmEarly | AlarmIn int

text \<open>The alarm branch after \<open>sigsetjmp\<close>: \<open>nSocket\<close> is what the caller's variable holds then.\<close>

definition IOTimeOut :: "int \<Rightarrow> fds \<Rightarrow> int \<times> int \<times> fds" where
  "IOTimeOut nSocket n = (-1, nSocket, snd (CloseSocket nSocket n))"

text \<open>A negative count is not decremented, and stops at the first failure.\<close>

function open_loop :: "int \<Rightarrow> bool \<times> bool \<times> bool \<Rightarrow> (nat \<Rightarrow> attempt) \<Rightarrow> nat \<Rightarrow> int \<Rightarrow> fds \<Rightarrow> int \<times> int \<times> fds" where
  "open_loop nRetrys oks att i nSocket n =
     (if nRetrys = 0 then (-1, nSocket, n)
      else case att i of
        NoSocket \<Rightarrow> if nRetrys > 0 then open_loop (nRetrys - 1) oks att (Suc i) (-1) n else (-2, -1, n)
      | Refused fd \<Rightarrow>
          let n1 = snd (CloseSocket fd (n(fd \<mapsto> fresh_sock)))
          in if nRetrys > 0 then open_loop (nRetrys - 1) oks att (Suc i) fd n1 else (-3, fd, n1)
      | Connected fd \<Rightarrow> (0, fd, snd (Setsokopt oks fd (n(fd \<mapsto> fresh_sock))))
      | AlarmEarly \<Rightarrow> IOTimeOut nSocket n
      | AlarmIn fd \<Rightarrow> IOTimeOut fd (n(fd \<mapsto> fresh_sock)))"
  by pat_completeness auto
termination
  by (relation "measure (\<lambda>(nRetrys, oks, att, i, nSocket, n). nat nRetrys)") auto

declare open_loop.simps [simp del]

definition OpenSocket :: "int \<Rightarrow> bool \<times> bool \<times> bool \<Rightarrow> (nat \<Rightarrow> attempt) \<Rightarrow> int \<Rightarrow> fds \<Rightarrow> int \<times> int \<times> fds" where
  "OpenSocket nRetrys oks att nSocket n = open_loop nRetrys oks att 0 nSocket n"

section \<open>The byte stream behind the pieces\<close>

fun flow :: "rd list \<Rightarrow> string" where
  "flow (Data d # s) = (if d = [] then [] else d @ flow s)"
| "flow _ = []"

lemma sock_read_flow:
  assumes "0 < n"
  shows "fst (sock_read n s) @ flow (snd (sock_read n s)) = flow s \<or> fst (sock_read n s) = [] \<and> flow s = []"
    and "fst (sock_read n s) = [] \<longleftrightarrow> flow s = []"
    and "length (fst (sock_read n s)) \<le> n"
  using assms by (cases "(n, s)" rule: sock_read.cases; simp)+

lemma read_loop_flow:
  "0 < n \<Longrightarrow> n \<le> length (flow s) \<Longrightarrow>
     \<exists>s'. read_loop n acc s = (Some (acc @ take n (flow s)), s') \<and> flow s' = drop n (flow s)"
proof (induction n acc s rule: read_loop.induct)
  case (1 n acc s)
  obtain d s1 where ds: "sock_read n s = (d, s1)" by fastforce
  have d: "d @ flow s1 = flow s" "d \<noteq> []" "length d \<le> n"
    using sock_read_flow [OF 1(2), of s] 1(2,3) by (auto simp: ds)
  show ?case
  proof (cases "length d < n")
    case True
    have "n \<le> length d + length (flow s1)" using 1(3) d(1) by (metis length_append)
    with True have "\<exists>s'. read_loop (n - length d) (acc @ d) s1 = (Some ((acc @ d) @ take (n - length d) (flow s1)), s') \<and>
        flow s' = drop (n - length d) (flow s1)"
      by (intro 1(1) [OF ds [symmetric] refl d(2)]) simp_all
    moreover have "take n (flow s) = d @ take (n - length d) (flow s1)" "drop n (flow s) = drop (n - length d) (flow s1)"
      using True by (simp_all add: d(1) [symmetric])
    ultimately show ?thesis using True d(2) by (simp add: read_loop.simps [of n] ds)
  next
    case False
    then have "length d = n" using d(3) by simp
    then show ?thesis using d(2) by (simp add: read_loop.simps [of n] ds d(1) [symmetric])
  qed
qed

lemma read_loop_short: "0 < n \<Longrightarrow> length (flow s) < n \<Longrightarrow> fst (read_loop n acc s) = None"
proof (induction n acc s rule: read_loop.induct)
  case (1 n acc s)
  obtain d s1 where ds: "sock_read n s = (d, s1)" by fastforce
  show ?case
  proof (cases "d = []")
    case True
    then show ?thesis by (simp add: read_loop.simps [of n] ds)
  next
    case False
    have d: "d @ flow s1 = flow s" using sock_read_flow [OF 1(2), of s] False by (auto simp: ds)
    then have "length d + length (flow s1) < n" using 1(3) by (metis length_append)
    then show ?thesis
      using 1(1) [OF ds [symmetric] refl False] False by (simp add: read_loop.simps [of n] ds)
  qed
qed

locale byte_stream =
  fixes get :: "int \<Rightarrow> rd list \<Rightarrow> string option \<times> rd list"
  assumes get_front: "0 < n \<Longrightarrow> n \<le> length (flow s) \<Longrightarrow>
      \<exists>s'. get (int n) s = (Some (take n (flow s)), s') \<and> flow s' = drop n (flow s)"
    and get_short: "length (flow s) < n \<Longrightarrow> fst (get (int n) s) = None"
begin

lemma get_pieces:
  assumes "flow s = a @ b" and "a \<noteq> []"
  obtains s' where "get (int (length a)) s = (Some a, s')" and "flow s' = b"
  using get_front [of "length a" s] assms by auto

lemma get_frame:
  assumes "flow s = h @ p @ r" and "h \<noteq> []" and "p \<noteq> []"
  obtains s1 s2 where "get (int (length h)) s = (Some h, s1)" and "get (int (length p)) s1 = (Some p, s2)" and "flow s2 = r"
  by (rule get_pieces [OF assms(1,2)], erule get_pieces [OF _ assms(3)])

lemma same_flow:
  assumes "0 < n" and "flow s = flow t"
  shows "fst (get (int n) s) = fst (get (int n) t)"
proof (cases "n \<le> length (flow s)")
  case True
  then show ?thesis using get_front [OF assms(1), of s] get_front [OF assms(1), of t] assms(2) by auto
next
  case False
  then show ?thesis using get_short [of s n] get_short [of t n] assms(2) by simp
qed

end

interpretation sock: byte_stream ReadSocket
proof
  show "\<exists>s'. ReadSocket (int n) s = (Some (take n (flow s)), s') \<and> flow s' = drop n (flow s)"
    if "0 < n" "n \<le> length (flow s)" for n s
    using read_loop_flow [OF that, of "[]"] that by (simp add: ReadSocket_def)
  show "fst (ReadSocket (int n) s) = None" if "length (flow s) < n" for n s
    using read_loop_short [of n s "[]"] that by (simp add: ReadSocket_def)
qed

section \<open>Frames\<close>

lemma digits_val_zeros: "digits_val 0 (replicate k (CHR ''0'') @ r) = digits_val 0 r"
  by (induction k) (simp_all add: isdigit_def digit_val_def)

lemma atoi_show_pad:
  assumes "int n < 2 ^ 31"
  shows "atoi (show_pad w n) = int n"
proof -
  obtain c cs where c: "show_pad w n = c # cs" using show_pad_nonempty by (meson neq_Nil_conv)
  have d: "isdigit c" using show_pad_digits [of w n] c by simp
  have "digits_val 0 (show_pad w n) = int n"
    using digits_val_show [of 0 n "[]"] by (simp add: show_pad_def digits_val_zeros)
  then have "atol (show_pad w n) = int n"
    using c not_space_digit [OF d] assms by (simp add: atol_def Let_def)
  then show ?thesis using assms by (simp add: atoi_def i32_id in_i32_def)
qed

lemma c_str_show_pad: "c_str (show_pad w n) = show_pad w n"
  unfolding c_str_def using show_pad_digits [of w n] by (auto simp: takeWhile_eq_all_conv isdigit_def)

text \<open>The four digits of the length and a body.\<close>

definition frame :: "string \<Rightarrow> string" where
  "frame p = show_pad 4 (length p) @ p"

lemma frame_length: "length p \<le> 9999 \<Longrightarrow> length (frame p) = 4 + length p"
  by (simp add: frame_def show_pad_length)

lemma RcvTxnMsg_reads:
  assumes "flow s = frame p @ r" and "p \<noteq> []" and "length p \<le> 9999"
  obtains s' where "flow s' = r" and
    "RcvTxnMsg cap 4 s = (if 4 + length p > cap then Crash BufOverflow else Ret (0, frame p, s'))"
proof -
  let ?h = "show_pad 4 (length p)"
  have h: "length ?h = 4" using assms(3) by (simp add: show_pad_length)
  have "flow s = ?h @ p @ r" using assms(1) by (simp add: frame_def)
  from sock.get_frame [OF this show_pad_nonempty assms(2)] obtain s1 s2 where
    r: "ReadSocket 4 s = (Some ?h, s1)" "ReadSocket (int (length p)) s1 = (Some p, s2)" "flow s2 = r"
    by (metis h of_nat_numeral)
  have "atoi (c_str ?h) = int (length p)" using assms(3) by (simp add: c_str_show_pad atoi_show_pad)
  then show thesis
    using that [OF r(3)] r(1,2) h assms(2,3) by (simp add: RcvTxnMsg_def frame_def)
qed

text \<open>Claim C29. A frame of four length digits and a body of 1 to 9999 bytes is received whole, and what follows it stays in
  the stream, however the network cut the bytes into pieces. When the frame does not fit the caller's buffer of
  \<open>cap\<close> bytes it is overrun: the function takes no buffer length.\<close>

theorem RcvTxnMsg_frame:
  assumes "flow s = frame p @ r" and "p \<noteq> []" and "length p \<le> 9999"
  shows "\<exists>s'. flow s' = r \<and>
    RcvTxnMsg cap 4 s = (if cap < 4 + length p then Crash BufOverflow else Ret (0, frame p, s'))"
  by (rule RcvTxnMsg_reads [OF assms]) blast

lemma frame_pong: "frame ''pong'' = ''0004pong''"
proof -
  have "replicate 3 (CHR ''0'') = ''000''" by (simp add: numeral_3_eq_3)
  then show ?thesis by (simp add: frame_def show_pad_def show_nat.simps char_of_def bit_0)
qed

theorem RcvTxnMsg_frame_witness:
  "\<exists>s'. flow s' = ''xy'' \<and>
    RcvTxnMsg 8097 4 [Data ''00'', Data ''04p'', Data ''on'', Data ''gxy'', Eof] = Ret (0, ''0004pong'', s')"
  using RcvTxnMsg_frame [of "[Data ''00'', Data ''04p'', Data ''on'', Data ''gxy'', Eof]" "''pong''" "''xy''" 8097]
  by (simp add: frame_pong)

lemma write_loop_out: "fst (write_loop b ws) = 0 \<Longrightarrow> snd (write_loop b ws) = b"
proof (induction b ws rule: write_loop.induct)
  case (2 b k ws)
  then show ?case
    by (cases "write_loop (drop (nat k) b) ws") (auto split: if_splits)
qed simp

lemma write_loop_prefix: "\<exists>t. b = snd (write_loop b ws) @ t"
proof (induction b ws rule: write_loop.induct)
  case (2 b k ws)
  show ?case
  proof (cases "k \<le> 0 \<or> nat k \<ge> length b")
    case False
    with 2 obtain t where "drop (nat k) b = snd (write_loop (drop (nat k) b) ws) @ t" by auto
    then have "b = (take (nat k) b @ snd (write_loop (drop (nat k) b) ws)) @ t" by (metis append.assoc append_take_drop_id)
    with False show ?thesis by (auto simp: case_prod_beta)
  qed auto
qed simp

section \<open>Descriptors are not lost\<close>

lemma retry_tries: "0 \<le> retry k res i \<longleftrightarrow> (\<exists>j \<le> k. 0 \<le> res (i + j))"
proof (induction k res i rule: retry.induct)
  case (2 k res i)
  have "(\<exists>j \<le> Suc k. 0 \<le> res (i + j)) \<longleftrightarrow> 0 \<le> res i \<or> (\<exists>j \<le> k. 0 \<le> res (Suc i + j))"
    by (metis Suc_le_mono add_0_right add_Suc_shift le0 not0_implies_Suc)
  with 2 show ?case by auto
qed auto

lemma retry_at: "\<exists>j. retry k res i = res j"
  by (induction k res i rule: retry.induct) auto

lemma Setsokopt_keeps:
  "snd (Setsokopt oks fd (n(fd \<mapsto> fresh_sock))) = n(fd := snd (Setsokopt oks fd (n(fd \<mapsto> fresh_sock))) fd)"
  "\<exists>k. snd (Setsokopt oks fd (n(fd \<mapsto> fresh_sock))) fd = Some k \<and> \<not> s_listen k \<and> \<not> s_nonblock k"
  by (cases oks; auto simp: Setsokopt_def fresh_sock_def)+

lemma close_new: "n fd = None \<Longrightarrow> snd (CloseSocket fd (n(fd := x))) = n"
  by (auto simp: CloseSocket_def)

text \<open>\<open>CreateSocket\<close> tries \<open>nRetryNum + 1\<close> times to get a descriptor and as often to bind it. It succeeds when both
  do and, for the non-blocking mode, when the value \<open>setnonblocking\<close> does not return happens to be 0: then the
  descriptor is the only new one, listens on the port and has the asked mode. On every failure the descriptors are
  what they were.\<close>

theorem CreateSocket_outcome:
  assumes "\<And>i. n (sockets i) = None"
    and "CreateSocket nPort nRetryNum nBlock sockets binds oks junk n = (rc, fd, n')"
  shows "(rc = 0 \<longleftrightarrow> (\<exists>i \<le> nat nRetryNum. 0 \<le> sockets i) \<and> (\<exists>i \<le> nat nRetryNum. 0 \<le> binds i) \<and> (nBlock = 1 \<longrightarrow> junk = 0)) \<and>
    (rc \<noteq> 0 \<longrightarrow> n' = n) \<and>
    (rc = 0 \<longrightarrow> (\<exists>k. n' = n(fd \<mapsto> k) \<and> n fd = None \<and> s_listen k \<and> s_port k = Some (nPort mod 65536) \<and> s_nonblock k = (nBlock = 1)))"
proof -
  define f where "f = retry (nat nRetryNum) sockets 0"
  have f: "0 \<le> f \<longleftrightarrow> (\<exists>i \<le> nat nRetryNum. 0 \<le> sockets i)" by (simp add: f_def retry_tries)
  have b: "0 \<le> retry (nat nRetryNum) binds 0 \<longleftrightarrow> (\<exists>i \<le> nat nRetryNum. 0 \<le> binds i)" by (simp add: retry_tries)
  have nf: "n f = None" using retry_at [of "nat nRetryNum" sockets 0] assms(1) by (auto simp: f_def)
  obtain k where k: "snd (Setsokopt oks f (n(f \<mapsto> fresh_sock))) = n(f \<mapsto> k)" "\<not> s_nonblock k"
    using Setsokopt_keeps [of oks f n] by metis
  note def = assms(2) [unfolded CreateSocket_def Let_def f_def [symmetric] k(1)]
  consider "f < 0" | "0 \<le> f" "retry (nat nRetryNum) binds 0 < 0" | "0 \<le> f" "0 \<le> retry (nat nRetryNum) binds 0"
    by linarith
  then show ?thesis
  proof cases
    case 1
    then show ?thesis using def by (simp add: f [symmetric])
  next
    case 2
    then show ?thesis using def close_new [of n f, OF nf] by (simp add: f [symmetric] b [symmetric])
  next
    case 3
    show ?thesis
    proof (cases "nBlock = 1 \<and> junk \<noteq> 0")
      case True
      then show ?thesis
        using def 3 close_new [of n f, OF nf] by (simp add: f [symmetric] b [symmetric] setnonblocking_def)
    next
      case False
      then show ?thesis
        using def 3 k(2) nf by (cases "nBlock = 1") (auto simp: f [symmetric] b [symmetric] setnonblocking_def)
    qed
  qed
qed

theorem CreateSocket_outcome_witness:
  "fst (CreateSocket 8080 9999 1 (\<lambda>i. 3) (\<lambda>i. if i < 2 then -1 else 0) (True, True, True) (-1) Map.empty) \<noteq> 0 \<and>
   fst (CreateSocket 8080 9999 0 (\<lambda>i. 3) (\<lambda>i. if i < 2 then -1 else 0) (True, True, True) (-1) Map.empty) = 0"
proof -
  let ?c = "\<lambda>b. CreateSocket 8080 9999 b (\<lambda>i. 3) (\<lambda>i. if i < 2 then -1 else 0) (True, True, True) (-1) Map.empty"
  have ok: "\<exists>i \<le> nat 9999. (0::int) \<le> (if i < 2 then -1 else 0)" by (rule exI [of _ 2]) simp
  have "fst (?c b) = 0 \<longleftrightarrow> b \<noteq> 1" for b
  proof (cases "?c b")
    case (fields rc fd n')
    from CreateSocket_outcome [OF _ this] ok show ?thesis unfolding fields by (auto intro: exI [of _ 0])
  qed
  then show ?thesis by simp
qed

text \<open>What one attempt opened.\<close>

fun att_fd :: "attempt \<Rightarrow> int option" where
  "att_fd (Refused fd) = Some fd"
| "att_fd (Connected fd) = Some fd"
| "att_fd (AlarmIn fd) = Some fd"
| "att_fd _ = None"

lemma open_loop_outcome:
  assumes "\<And>i fd. att_fd (att i) = Some fd \<Longrightarrow> n fd = None" and "n nSocket = None" and "n (-1) = None"
    and "open_loop nRetrys oks att i nSocket n = (rc, fd, n')"
  shows "(rc = 0 \<and> (\<exists>j. att j = Connected fd \<and> (\<exists>k. n' = n(fd \<mapsto> k)))) \<or> (rc < 0 \<and> n' = n)"
  using assms(2,4)
proof (induction "nat nRetrys" arbitrary: nRetrys i nSocket rule: less_induct)
  case less
  show ?case
  proof (cases "nRetrys = 0")
    case True
    then show ?thesis using less.prems by (simp add: open_loop.simps)
  next
    case False
    note step = less.prems(2) [unfolded open_loop.simps [of nRetrys]]
    have smaller: "0 < nRetrys \<Longrightarrow> nat (nRetrys - 1) < nat nRetrys" by simp
    show ?thesis
    proof (cases "att i")
      case NoSocket
      then show ?thesis
        using step False less.hyps [OF smaller assms(3)] by (cases "0 < nRetrys") auto
    next
      case (Refused f)
      then have nf: "n f = None" using assms(1) [of i f] by simp
      show ?thesis
        using step False Refused less.hyps [OF smaller nf] close_new [of n f, OF nf] by (cases "0 < nRetrys") auto
    next
      case (Connected f)
      obtain k where "snd (Setsokopt oks f (n(f \<mapsto> fresh_sock))) = n(f \<mapsto> k)"
        using Setsokopt_keeps [of oks f n] by metis
      then show ?thesis using step False Connected by auto
    next
      case AlarmEarly
      then show ?thesis using step False less.prems(1) by (auto simp: IOTimeOut_def CloseSocket_def)
    next
      case (AlarmIn f)
      then have "n f = None" using assms(1) [of i f] by simp
      then show ?thesis using step False AlarmIn close_new [of n f] by (auto simp: IOTimeOut_def)
    qed
  qed
qed

text \<open>\<open>OpenSocket\<close> keeps no descriptor of a failed attempt: it returns 0 with exactly one new descriptor, whose
  connection stands, or a negative value with the descriptors as they were, also when the alarm cut an attempt short.
  The kernel hands out unused numbers, and the caller's variable does not hold a number in use.\<close>

theorem OpenSocket_no_leak:
  assumes "\<And>i fd. att_fd (att i) = Some fd \<Longrightarrow> n fd = None" and "n nSocket = None" and "n (-1) = None"
    and "OpenSocket nRetrys oks att nSocket n = (rc, fd, n')"
  shows "(rc = 0 \<and> (\<exists>j. att j = Connected fd \<and> (\<exists>k. n' = n(fd \<mapsto> k)))) \<or> (rc < 0 \<and> n' = n)"
  using open_loop_outcome [OF assms(1-3)] assms(4) by (simp add: OpenSocket_def)

theorem OpenSocket_no_leak_witness:
  "OpenSocket 3 (True, True, True) (\<lambda>i. if i = 0 then Refused 4 else AlarmIn 4) (-1) [3 \<mapsto> fresh_sock] = (-1, 4, [3 \<mapsto> fresh_sock])"
proof -
  let ?o = "OpenSocket 3 (True, True, True) (\<lambda>i. if i = 0 then Refused 4 else AlarmIn 4) (-1) [3 \<mapsto> fresh_sock]"
  have o: "fst ?o = -1" "fst (snd ?o) = 4"
    by (simp_all add: OpenSocket_def open_loop.simps IOTimeOut_def CloseSocket_def)
  obtain rc fd n' where e: "?o = (rc, fd, n')" by (cases ?o)
  have "(rc = 0 \<and> (\<exists>j. (if j = (0::nat) then Refused 4 else AlarmIn 4) = Connected fd \<and> (\<exists>k. n' = [3 \<mapsto> fresh_sock, fd \<mapsto> k])))
      \<or> (rc < 0 \<and> n' = [3 \<mapsto> fresh_sock])"
    by (rule OpenSocket_no_leak [OF _ _ _ e]) (auto split: if_splits)
  then show ?thesis using o e by auto
qed

end
