(* ===== verification/CommServer.thy ===== *)
theory CommServer
  imports TuxCmd FunSock
begin

text \<open>
  The communication server, \<open>src/dev/src/comm/commserver/commserver.c\<close>: a main thread that accepts connections and
  sorts the events of \<open>epoll\<close>, \<open>num\<close> reader threads that turn frames of clients into calls (\<open>tux_acall\<close>), and a
  writer thread that sends the replies.

  \<open>comm\<close> holds the variables of the process and its sockets: \<open>client_ctrl\<close>, a row of \<open>MAX_FD_NUM\<close> connections for each
  reader thread (arrays are functions; every index is checked, and one outside an array is a \<open>Crash\<close>), the open
  descriptors, the \<open>epoll\<close> set, what the clients sent and what was written to them. The shared memory and the queues
  are the \<open>tst\<close> of the calls. A turn of a thread is one run of its loop body; the mutexes make the table accesses of
  a turn atomic. \<open>comm_step\<close> interleaves the turns.

  \<open>None\<close> of a \<open>crun\<close> is a function that does not return.
\<close>

section \<open>State\<close>

definition SOCKET_MSG_HEAD_LEN :: nat where "SOCKET_MSG_HEAD_LEN = 4"
definition MAX_FD_NUM :: nat where "MAX_FD_NUM = 1000"
definition MAX_TREAD_NUM :: nat where "MAX_TREAD_NUM = 20"
definition FD_STAT_REG :: int where "FD_STAT_REG = 0"
definition FD_STAT_POLL :: int where "FD_STAT_POLL = 1"
definition FD_STAT_READ :: int where "FD_STAT_READ = 2"
definition FD_STAT_WRITE :: int where "FD_STAT_WRITE = 3"
definition COMM_S_MSG_TYPE_ROOT :: int where "COMM_S_MSG_TYPE_ROOT = 100000"

lemmas comm_consts = SOCKET_MSG_HEAD_LEN_def MAX_FD_NUM_def MAX_TREAD_NUM_def FD_STAT_REG_def FD_STAT_POLL_def
  FD_STAT_READ_def FD_STAT_WRITE_def COMM_S_MSG_TYPE_ROOT_def

record connect_handle_t =
  cn_fd :: int
  cn_ssn :: int
  cn_utime :: int
  cn_status :: int

record client_handle_t =
  cl_num :: int
  connect :: "nat \<Rightarrow> connect_handle_t"

record comm =
  client_ctrl :: "nat \<Rightarrow> client_handle_t"
  cm_num :: int
  cm_idletime :: int
  cm_port :: int
  cm_svrid :: int
  cm_listen :: int
  cm_gssn :: int
  cm_epoll :: "int set"
  cm_fds :: fds
  cm_in :: "int \<Rightarrow> rd list"
  cm_out :: "(int \<times> string) list"
  cm_wlen :: int
  cm_readers :: "nat list"
  cm_writers :: nat

text \<open>\<open>fd % num\<close> as an index into \<open>client_ctrl\<close>: the remainder has the sign of \<open>fd\<close>.\<close>

definition row_of :: "int \<Rightarrow> comm \<Rightarrow> nat cres" where
  "row_of fd c =
     (if cm_num c = 0 then Crash DivByZero
      else let r = (if fd < 0 then - (- fd mod \<bar>cm_num c\<bar>) else fd mod \<bar>cm_num c\<bar>)
           in if r < 0 \<or> r \<ge> int MAX_TREAD_NUM then Crash OutOfBounds else Ret (nat r))"

definition conn :: "nat \<Rightarrow> nat \<Rightarrow> comm \<Rightarrow> connect_handle_t" where
  "conn i j c = connect (client_ctrl c i) j"

definition upd_row :: "nat \<Rightarrow> (client_handle_t \<Rightarrow> client_handle_t) \<Rightarrow> comm \<Rightarrow> comm" where
  "upd_row i f c = c\<lparr>client_ctrl := (client_ctrl c)(i := f (client_ctrl c i))\<rparr>"

definition upd_conn :: "nat \<Rightarrow> nat \<Rightarrow> (connect_handle_t \<Rightarrow> connect_handle_t) \<Rightarrow> comm \<Rightarrow> comm" where
  "upd_conn i j f = upd_row i (\<lambda>r. r\<lparr>connect := (connect r)(j := f (connect r j))\<rparr>)"

section \<open>The connection table\<close>

definition InitConnect :: "connect_handle_t \<Rightarrow> connect_handle_t" where
  "InitConnect h = h\<lparr>cn_fd := -1, cn_status := -1\<rparr>"

definition CommHandClear :: "nat \<Rightarrow> comm \<Rightarrow> comm" where
  "CommHandClear i = upd_row i (\<lambda>r. \<lparr>cl_num = 0, connect = (\<lambda>j. \<lparr>cn_fd = 0, cn_ssn = 0, cn_utime = 0, cn_status = 0\<rparr>)\<rparr>)"

text \<open>The macro moves \<open>MAX_FD_NUM - i - 1\<close> entries (\<open>i\<close>, not \<open>j\<close>) down by one place; the copy runs upwards.\<close>

definition CommClearFd :: "nat \<Rightarrow> nat \<Rightarrow> comm \<Rightarrow> comm cres" where
  "CommClearFd i j c =
     (if j + (MAX_FD_NUM - i - 1) \<ge> MAX_FD_NUM then Crash OutOfBounds
      else Ret (upd_conn i (MAX_FD_NUM - 1) InitConnect (upd_row i (\<lambda>r. r\<lparr>connect :=
             (\<lambda>k. if j \<le> k \<and> k < j + (MAX_FD_NUM - i - 1) then connect r (Suc k) else connect r k)\<rparr>) c)))"

definition get_connect_pos :: "nat \<Rightarrow> int \<Rightarrow> comm \<Rightarrow> int" where
  "get_connect_pos idx fd c =
     scan (\<lambda>i. if fd \<noteq> -1 then cn_fd (conn idx i c) = fd else cn_fd (conn idx i c) = -1) 0 MAX_FD_NUM"

text \<open>A full row without the number makes the function end without a result: \<open>junk\<close>.\<close>

definition get_conn_inf :: "int \<Rightarrow> int \<Rightarrow> int \<Rightarrow> comm \<Rightarrow> int cres" where
  "get_conn_inf junk sock_id ssn c =
     cbind (row_of sock_id c) (\<lambda>idx.
       let i = scan (\<lambda>i. cn_fd (conn idx i c) = -1 \<or> cn_ssn (conn idx i c) = ssn) 0 MAX_FD_NUM
       in Ret (if i < 0 then junk else if cn_fd (conn idx (nat i) c) \<noteq> -1 then i else -1))"

definition close_fd :: "int \<Rightarrow> comm \<Rightarrow> comm" where
  "close_fd fd c = c\<lparr>cm_fds := snd (CloseSocket fd (cm_fds c))\<rparr>"

definition epoll_del :: "int \<Rightarrow> comm \<Rightarrow> comm" where
  "epoll_del fd c = c\<lparr>cm_epoll := cm_epoll c - {fd}\<rparr>"

text \<open>\<open>acc\<close> are the results of \<open>accept\<close>, \<open>ok\<close> that of \<open>fcntl\<close>, \<open>now\<close> the clock.\<close>

definition new_accept :: "int list \<Rightarrow> bool \<Rightarrow> int \<Rightarrow> comm \<Rightarrow> (int \<times> comm) crun" where
  "new_accept acc ok now c =
     (case AcceptSocket acc of
        None \<Rightarrow> None
      | Some (iRet, sockfd) \<Rightarrow>
          let c1 = c\<lparr>cm_fds := (cm_fds c)(sockfd \<mapsto> fresh_sock\<lparr>s_nonblock := ok\<rparr>)\<rparr>
          in if iRet < 0 then Some (Ret (-1, c1))
             else if \<not> ok then Some (Ret (-1, close_fd sockfd c1))
             else rbind (Some (row_of sockfd c1)) (\<lambda>idx.
               let pos = get_connect_pos idx (-1) c1
               in if pos < 0 then Some (Ret (-1, close_fd sockfd c1))
                  else Some (Ret (0, upd_conn idx (nat pos)
                         (\<lambda>h. \<lparr>cn_fd = sockfd, cn_ssn = cm_gssn c1 mod 2 ^ 32, cn_utime = now mod 2 ^ 32, cn_status = FD_STAT_REG\<rparr>)
                         (c1\<lparr>cm_epoll := insert sockfd (cm_epoll c1), cm_gssn := i32 (cm_gssn c1 + 1)\<rparr>)))))"

text \<open>\<open>GetCommClientNum(i)\<close> is indexed with the position of the connection.\<close>

definition del_connect_fd :: "int \<Rightarrow> comm \<Rightarrow> (int \<times> comm) cres" where
  "del_connect_fd fd c =
     cbind (row_of fd c) (\<lambda>idx.
       let c1 = close_fd fd (epoll_del fd c);
           i = scan (\<lambda>i. cn_fd (conn idx i c1) = -1 \<or> cn_fd (conn idx i c1) = fd) 0 MAX_FD_NUM
       in if i < 0 \<or> cn_fd (conn idx (nat i) c1) = -1 then Ret (0, c1)
          else cbind (if cn_status (conn idx (nat i) c1) \<noteq> FD_STAT_POLL then Ret c1
                      else if nat i \<ge> MAX_TREAD_NUM then Crash OutOfBounds
                      else Ret (upd_row (nat i) (\<lambda>r. r\<lparr>cl_num := (if cl_num r = 0 then 0 else cl_num r - 1)\<rparr>) c1)) (\<lambda>c2.
            cbind (CommClearFd idx (nat i) c2) (\<lambda>c3. Ret (0, c3))))"

text \<open>
  The inner loop of \<open>clean_time_out_connect\<close>: \<open>j\<close> is 0 whenever the loop head is reached, since the loop either stops or
  sets \<open>j\<close> back. The times are unsigned.
\<close>

partial_function (option) clean_row :: "nat \<Rightarrow> int \<Rightarrow> comm \<Rightarrow> comm crun" where
  "clean_row i currtime c =
     (let fd = cn_fd (conn i 0 c);
          diff_time = (currtime - cn_utime (conn i 0 c)) mod 2 ^ 32
      in if fd = -1 then Some (Ret c)
         else if diff_time \<ge> cm_idletime c mod 2 ^ 32 then
           (case CommClearFd i 0 (close_fd fd (epoll_del fd c)) of
              Crash e \<Rightarrow> Some (Crash e)
            | Ret c1 \<Rightarrow> clean_row i currtime c1)
         else Some (Ret c))"

fun clean_rows :: "nat list \<Rightarrow> int \<Rightarrow> comm \<Rightarrow> comm crun" where
  "clean_rows [] currtime c = Some (Ret c)"
| "clean_rows (i # is) currtime c = rbind (clean_row i currtime c) (clean_rows is currtime)"

definition clean_time_out_connect :: "int \<Rightarrow> comm \<Rightarrow> comm crun" where
  "clean_time_out_connect now c = clean_rows [0..<nat (cm_num c)] (now mod 2 ^ 32) c"

definition getconnetcount :: "nat \<Rightarrow> comm \<Rightarrow> nat" where
  "getconnetcount idx c = length (takeWhile (\<lambda>i. cn_fd (conn idx i c) \<noteq> -1) [0..<MAX_FD_NUM])"

fun wait_loop :: "nat list \<Rightarrow> int \<Rightarrow> comm \<Rightarrow> int \<Rightarrow> int \<Rightarrow> int \<times> int" where
  "wait_loop [] currtime c number diff_time = (number, diff_time)"
| "wait_loop (i # is) currtime c number diff_time =
     (if cn_fd (conn i 0 c) \<noteq> -1 then
        let due = (cn_utime (conn i 0 c) + cm_idletime c) mod 2 ^ 32;
            tmp_time = (if currtime \<ge> due then i32 (currtime - due) else 0)
        in wait_loop is currtime c (number + 1) (if tmp_time \<ge> diff_time then tmp_time else diff_time)
      else wait_loop is currtime c number diff_time)"

definition get_wait_time :: "int \<Rightarrow> comm \<Rightarrow> int" where
  "get_wait_time now c =
     (let (number, diff_time) = wait_loop [0..<nat (cm_num c)] (now mod 2 ^ 32) c 0 0
      in if number = 0 then -1 else i32 (diff_time * 1000 + 50))"

text \<open>The first connection with data to read; a negative descriptor ends the search.\<close>

definition get_read_fd :: "nat \<Rightarrow> comm \<Rightarrow> int" where
  "get_read_fd idx c =
     (let i = scan (\<lambda>i. cn_fd (conn idx i c) < 0 \<or> cn_status (conn idx i c) = FD_STAT_POLL) 0 MAX_FD_NUM
      in if i < 0 \<or> cn_fd (conn idx (nat i) c) < 0 then -1 else i)"

section \<open>Reader and writer threads\<close>

text \<open>\<open>wr\<close> are the results of the \<open>write\<close> calls of the turn.\<close>

definition send_out :: "int \<Rightarrow> string \<Rightarrow> int list \<Rightarrow> comm \<Rightarrow> int \<times> comm" where
  "send_out fd buf wr c =
     (let (rc, out) = WriteSocket buf (int (length buf)) wr
      in (rc, if out = [] then c else c\<lparr>cm_out := cm_out c @ [(fd, out)]\<rparr>))"

definition response_err_req :: "int \<Rightarrow> sunda_req_head_t \<Rightarrow> int list \<Rightarrow> comm \<Rightarrow> int \<times> comm" where
  "response_err_req socketid req_head wr c =
     (let (iRet, c1) = send_out socketid (show_pad SOCKET_MSG_HEAD_LEN REQ_HEAD_LEN @ enc_req_head req_head) wr c
      in (if iRet < 0 then -1 else 0, c1))"

datatype turn = Again | Stop | Waiting

text \<open>The request a reader builds from a frame: \<open>iBufLen\<close> bytes are copied behind the header, although only
  \<open>iBufLen - 44\<close> are left of the frame; \<open>src\<close> is the receive buffer of 8097 bytes.\<close>

definition read_request :: "int \<Rightarrow> connect_handle_t \<Rightarrow> string \<Rightarrow> (string \<times> sunda_req_head_t \<times> string) cres" where
  "read_request socketid tClient frm =
     (let iBufLen = length frm;
          src = frm @ pad (8097 - iBufLen);
          req_head = dec_req_head (drop SOCKET_MSG_HEAD_LEN src);
          sSvcName = AllTrim (c_str (take TUX_NAME_LEN (rh_name req_head)));
          ipcMsgHead = head_zero\<lparr>ih_name := cstr_in 33 sSvcName, ih_req_msg_type := COMM_S_MSG_TYPE_ROOT, ih_fd := socketid,
            ih_ssn := rh_ssn req_head, ih_conn_ssn := cn_ssn tClient, ih_utime := cn_utime tClient,
            ih_reply_flag := REPLY_FLAG_ASYN, ih_len := int iBufLen - int SOCKET_MSG_HEAD_LEN - int REQ_HEAD_LEN\<rparr>
      in if SOCKET_MSG_HEAD_LEN + REQ_HEAD_LEN + iBufLen > 8097 then Crash OutOfBounds
         else Ret (sSvcName, req_head, enc_head ipcMsgHead @ take iBufLen (drop (SOCKET_MSG_HEAD_LEN + REQ_HEAD_LEN) src)))"

text \<open>A turn of the reader of row \<open>idx\<close>.\<close>

definition read_task :: "int list \<Rightarrow> nat \<Rightarrow> comm \<Rightarrow> tst \<Rightarrow> (turn \<times> comm) out" where
  "read_task wr idx c st =
     (if cl_num (client_ctrl c idx) = 0 then Returned (Waiting, c) st
      else let pos = get_read_fd idx c
      in if pos = -1 then Returned (Again, upd_row idx (\<lambda>r. r\<lparr>cl_num := 0\<rparr>) c) st
      else let c1 = upd_conn idx (nat pos) (\<lambda>h. h\<lparr>cn_status := FD_STAT_READ\<rparr>) c;
               tClient = conn idx (nat pos) c1;
               socketid = cn_fd tClient;
               c2 = upd_row idx (\<lambda>r. r\<lparr>cl_num := i32 (cl_num r - 1)\<rparr>) c1
      in obind (of_cres (RcvTxnMsg 8097 (int SOCKET_MSG_HEAD_LEN) (cm_in c2 socketid)) st) (\<lambda>(iRet, frm, s') st.
         let c3 = c2\<lparr>cm_in := (cm_in c2)(socketid := s')\<rparr>
         in if iRet \<noteq> 0 then obind (of_cres (del_connect_fd socketid c3) st) (\<lambda>(rc, c4) st. Returned (Again, c4) st)
            else obind (of_cres (read_request socketid tClient frm) st) (\<lambda>(sSvcName, req_head, req) st.
                 obind (tux_acall (Some sSvcName) (RawBuf req) (int (length req)) 0 st) (\<lambda>rc st.
                   if rc \<noteq> 0 then Returned (Again, snd (response_err_req socketid (req_head\<lparr>rh_err_no := p_errno (tp st)\<rparr>) wr c3)) st
                   else Returned (Again, c3) st))))"

text \<open>What the writer makes of a reply of \<open>iBufLen\<close> bytes in its buffer \<open>src\<close> of 10241 bytes.\<close>

definition reply_frame :: "string \<Rightarrow> int \<Rightarrow> (IPCMsgHead \<times> string) cres" where
  "reply_frame src iBufLen =
     (let h = dec_head src;
          req_head = \<lparr>rh_name = take TUX_NAME_LEN (ih_name h), rh_ssn = ih_ssn h, rh_err_no = 0\<rparr>;
          iRspLen = i32 (iBufLen - int HEAD_LEN + int REQ_HEAD_LEN)
      in if iRspLen < 0 \<or> iRspLen + int REQ_HEAD_LEN + int SOCKET_MSG_HEAD_LEN > 10241 then Crash BufOverflow
         else if iRspLen + int HEAD_LEN > 10241 then Crash OutOfBounds
         else let buf = take SOCKET_MSG_HEAD_LEN (show_pad SOCKET_MSG_HEAD_LEN (nat iRspLen)) @ enc_req_head req_head
                      @ take (nat iRspLen) (drop HEAD_LEN src)
              in Ret (h, take (nat iRspLen + SOCKET_MSG_HEAD_LEN) buf))"

text \<open>A turn of the writer. After an error other than the two it knows it goes on with an empty buffer and the length of
  the reply before.\<close>

definition write_task :: "int \<Rightarrow> int list \<Rightarrow> comm \<Rightarrow> tst \<Rightarrow> (turn \<times> comm) out" where
  "write_task junk wr c st =
     obind (tux_getreply 10241 COMM_S_MSG_TYPE_ROOT 0 st) (\<lambda>(iRet, rsp) st.
       if iRet \<noteq> 0 \<and> p_errno (tp st) = SYS_SYSTEM then Returned (Stop, c) st
       else if iRet \<noteq> 0 \<and> p_errno (tp st) = ENOMSG then Returned (Again, c) st
       else let c1 = (case rsp of None \<Rightarrow> c | Some b \<Rightarrow> c\<lparr>cm_wlen := int (length b)\<rparr>);
                src = (case rsp of None \<Rightarrow> pad 10241 | Some b \<Rightarrow> b @ pad (10241 - length b))
            in obind (of_cres (reply_frame src (cm_wlen c1)) st) (\<lambda>(h, buf) st.
               obind (of_cres (row_of (ih_fd h) c1) st) (\<lambda>idx st.
               obind (of_cres (get_conn_inf junk (ih_fd h) (ih_conn_ssn h) c1) st) (\<lambda>pos st.
                 if pos < 0 then Returned (Again, c1) st
                 else if nat pos \<ge> MAX_FD_NUM then Faulted OutOfBounds
                 else Returned (Again, snd (send_out (ih_fd h) buf wr
                        (upd_conn idx (nat pos) (\<lambda>e. e\<lparr>cn_status := FD_STAT_WRITE\<rparr>) c1))) st))))"

section \<open>Start and main loop\<close>

text \<open>\<open>getopt(argc - 2, argv + 2, "p:n:t:")\<close>, called until it returns -1: the options (all letters \<open>opts\<close> take an argument) with their arguments. Other words are
  passed over, unknown letters and a missing argument give nothing the caller looks at.\<close>

function getopt_all :: "string \<Rightarrow> string list \<Rightarrow> (char \<times> string) list" where
  "getopt_all opts [] = []"
| "getopt_all opts (a # as) =
     (if a = ''--'' then []
      else if length a < 2 \<or> hd a \<noteq> CHR ''-'' then getopt_all opts as
      else case dropWhile (\<lambda>x. x \<notin> set opts) (tl a) of
          [] \<Rightarrow> getopt_all opts as
        | x # xs \<Rightarrow> if xs \<noteq> [] then (x, xs) # getopt_all opts as
                    else (case as of [] \<Rightarrow> [] | b # bs \<Rightarrow> (x, b) # getopt_all opts bs))"
  by pat_completeness auto
termination
  by (relation "measure (\<lambda>(opts, as). length as)") auto

fun apply_opts :: "(char \<times> string) list \<Rightarrow> comm \<Rightarrow> comm option" where
  "apply_opts [] c = Some c"
| "apply_opts ((ch, optarg) # os) c =
     (if ch = CHR ''p'' then apply_opts os (c\<lparr>cm_port := atoi optarg\<rparr>)
      else if ch = CHR ''n'' then
        (if atoi optarg \<le> 0 then None
         else apply_opts os (c\<lparr>cm_num := (if atoi optarg \<ge> int MAX_TREAD_NUM then int MAX_TREAD_NUM else atoi optarg)\<rparr>))
      else if ch = CHR ''t'' then apply_opts os (c\<lparr>cm_idletime := atoi optarg\<rparr>)
      else apply_opts os c)"

definition init_rows :: "comm \<Rightarrow> comm" where
  "init_rows c = foldl (\<lambda>c i. upd_row i (\<lambda>r. r\<lparr>connect := (\<lambda>j. if j < MAX_FD_NUM then InitConnect (connect r j) else connect r j)\<rparr>)
     (CommHandClear i c)) c [0..<nat (cm_num c)]"

definition comm_init :: "int \<Rightarrow> string list \<Rightarrow> comm \<Rightarrow> tst \<Rightarrow> (int \<times> comm) out" where
  "comm_init qjunk argv c st =
     (if length argv < 4 then Returned (-1, c) st
      else if atol (argv ! 1) \<noteq> p_pid (tp st) then Returned (-1, c) st
      else case apply_opts (getopt_all ''pnt'' (drop 3 argv)) (c\<lparr>cm_svrid := atoi (argv ! 3)\<rparr>) of
          None \<Rightarrow> Returned (-1, c\<lparr>cm_svrid := atoi (argv ! 3)\<rparr>) st
        | Some c1 \<Rightarrow>
            let c2 = c1\<lparr>cm_gssn := 0\<rparr>
            in obind (lift_ps (ipc_connect qjunk) st) (\<lambda>iRet st.
                 if iRet \<noteq> 0 then Returned (-1, c2) st else Returned (0, init_rows c2) st))"

text \<open>\<open>rc i\<close> and \<open>wrc\<close> are the results of \<open>pthread_create\<close> for reader \<open>i\<close> and the writer.\<close>

fun start_readers :: "(nat \<Rightarrow> int) \<Rightarrow> nat list \<Rightarrow> comm \<Rightarrow> bool \<times> comm" where
  "start_readers rc [] c = (True, c)"
| "start_readers rc (i # is) c =
     (if rc i \<noteq> 0 then (False, c) else start_readers rc is (c\<lparr>cm_readers := cm_readers c @ [i]\<rparr>))"

definition init_thread_pool :: "(nat \<Rightarrow> int) \<Rightarrow> int \<Rightarrow> comm \<Rightarrow> int \<times> comm" where
  "init_thread_pool rc wrc c =
     (let (ok, c1) = start_readers rc [0..<nat (cm_num c)] c
      in if \<not> ok then (-1, c1)
         else if wrc \<noteq> 0 then (-1, c1)
         else (0, c1\<lparr>cm_writers := cm_writers c1 + 1\<rparr>))"

text \<open>What the outside world contributes to a start: the results for the sockets, for \<open>epoll_ctl\<close> and the threads.\<close>

record start_env =
  se_sockets :: "nat \<Rightarrow> int"
  se_binds :: "nat \<Rightarrow> int"
  se_opts :: "bool \<times> bool \<times> bool"
  se_junk :: int
  se_qjunk :: int
  se_epoll :: int
  se_threads :: "nat \<Rightarrow> int"
  se_writer :: int

definition comm_start :: "start_env \<Rightarrow> string list \<Rightarrow> comm \<Rightarrow> tst \<Rightarrow> (int \<times> comm) out" where
  "comm_start e argv c st =
     obind (comm_init (se_qjunk e) argv c st) (\<lambda>(iRet, c) st.
       if iRet \<noteq> 0 then Returned (-1, c) st
       else let (iRet, lsock, fds) = CreateSocket (cm_port c) 9999 1 (se_sockets e) (se_binds e) (se_opts e) (se_junk e) (cm_fds c);
                c = c\<lparr>cm_listen := lsock, cm_fds := fds\<rparr>
            in if iRet \<noteq> 0 then Exited 2 st
               else if se_epoll e < 0 then Exited 1 st
               else let (iRet, c) = init_thread_pool (se_threads e) (se_writer e) (c\<lparr>cm_epoll := insert lsock (cm_epoll c)\<rparr>)
                    in if iRet \<noteq> 0 then Returned (-1, c) st else Returned (0, c) st)"

text \<open>An event of \<open>epoll_wait\<close>: its descriptor, whether \<open>EPOLLIN\<close> is set, and what an \<open>accept\<close> will find.\<close>

record event =
  ev_fd :: int
  ev_in :: bool
  ev_acc :: "int list"
  ev_ok :: bool
  ev_now :: int

definition do_event :: "event \<Rightarrow> comm \<Rightarrow> comm crun" where
  "do_event ev c =
     rbind (if cm_num c = 0 then Some (Crash DivByZero) else Some (Ret ())) (\<lambda>_.
       if ev_fd ev = cm_listen c then rbind (new_accept (ev_acc ev) (ev_ok ev) (ev_now ev) c) (\<lambda>(iRet, c). Some (Ret c))
       else rbind (Some (row_of (ev_fd ev) c)) (\<lambda>idx.
         if ev_in ev then
           let pos = get_connect_pos idx (ev_fd ev) c
           in if pos < 0 then Some (cbind (del_connect_fd (ev_fd ev) c) (\<lambda>(rc, c). Ret c))
              else Some (Ret (upd_row idx (\<lambda>r. r\<lparr>cl_num := i32 (cl_num r + 1)\<rparr>)
                     (upd_conn idx (nat pos) (\<lambda>h. h\<lparr>cn_status := FD_STAT_POLL\<rparr>) c)))
         else Some (cbind (del_connect_fd (ev_fd ev) c) (\<lambda>(rc, c). Ret c))))"

fun do_events :: "event list \<Rightarrow> comm \<Rightarrow> comm crun" where
  "do_events [] c = Some (Ret c)"
| "do_events (ev # evs) c = rbind (do_event ev c) (do_events evs)"

text \<open>One run of the main loop: \<open>evs\<close> is what \<open>epoll_wait\<close> returned (at most 200), \<open>now\<close> the clock behind it.\<close>

definition main_turn :: "event list \<Rightarrow> int \<Rightarrow> comm \<Rightarrow> comm crun" where
  "main_turn evs now c = rbind (do_events (take 200 evs) c) (clean_time_out_connect now)"

text \<open>The handler of \<open>SIGTERM\<close>: every row is closed up to its first free place, then the process exits.\<close>

definition main_exit :: "comm \<Rightarrow> comm" where
  "main_exit c =
     (let c1 = epoll_del (cm_listen c) c;
          c2 = foldl (\<lambda>c i. foldl (\<lambda>c j. close_fd (cn_fd (conn i j c)) c) c [0..<getconnetcount i c]) c1 [0..<nat (cm_num c1)]
      in c2\<lparr>cm_fds := (cm_fds c2)(cm_listen c2 := None)\<rparr>)"

end
