(* ===== verification/CommTable.thy ===== *)
theory CommTable
  imports CommServer
begin

text \<open>
  The connection table of the communication server: \<open>row_is\<close> reads a row of \<open>client_ctrl\<close> as a list of connections, and the
  table functions are operations on these lists. \<open>comm_inv\<close> is the invariant of the table: which lists the rows hold.
\<close>

section \<open>The rows as lists\<close>

named_theorems row_simps \<open>what the operations do to the entries\<close>

lemma conn_other [row_simps]:
  "conn i j (c\<lparr>cm_fds := f\<rparr>) = conn i j c" "conn i j (c\<lparr>cm_epoll := e\<rparr>) = conn i j c"
  "conn i j (c\<lparr>cm_gssn := g\<rparr>) = conn i j c" "conn i j (c\<lparr>cm_in := r\<rparr>) = conn i j c"
  "conn i j (c\<lparr>cm_out := w\<rparr>) = conn i j c" "conn i j (c\<lparr>cm_wlen := n\<rparr>) = conn i j c"
  "conn i j (upd_row k (\<lambda>r. r\<lparr>cl_num := h r\<rparr>) c) = conn i j c"
  "conn i j (close_fd fd c) = conn i j c" "conn i j (epoll_del fd c) = conn i j c"
  by (simp_all add: conn_def upd_row_def close_fd_def epoll_del_def)

lemma conn_upd_conn [row_simps]: "conn i j (upd_conn a b f c) = (if i = a \<and> j = b then f (conn a b c) else conn i j c)"
  by (simp add: conn_def upd_conn_def upd_row_def)

lemma num_other [row_simps]:
  "cm_num (upd_row k f c) = cm_num c" "cm_num (upd_conn a b g c) = cm_num c" "cm_num (close_fd fd c) = cm_num c"
  "cm_num (epoll_del fd c) = cm_num c"
  by (simp_all add: upd_conn_def upd_row_def close_fd_def epoll_del_def)

text \<open>Row \<open>i\<close> holds exactly the connections \<open>xs\<close>, in its first places.\<close>

definition row_is :: "nat \<Rightarrow> connect_handle_t list \<Rightarrow> comm \<Rightarrow> bool" where
  "row_is i xs c \<longleftrightarrow> length xs \<le> MAX_FD_NUM \<and> (\<forall>j < length xs. conn i j c = xs ! j \<and> 0 \<le> cn_fd (xs ! j)) \<and>
     (\<forall>j. length xs \<le> j \<and> j < MAX_FD_NUM \<longrightarrow> cn_fd (conn i j c) = -1)"

lemma row_is_cong: "(\<And>j. conn i j c' = conn i j c) \<Longrightarrow> row_is i xs c' = row_is i xs c"
  by (simp add: row_is_def)

lemma row_fd: "row_is i xs c \<Longrightarrow> j < MAX_FD_NUM \<Longrightarrow> cn_fd (conn i j c) = (if j < length xs then cn_fd (xs ! j) else -1)"
  by (simp add: row_is_def)

lemma row_unique: "row_is i xs c \<Longrightarrow> row_is i ys c \<Longrightarrow> xs = ys"
proof -
  assume r: "row_is i xs c" "row_is i ys c"
  have "length xs = length ys"
  proof (rule ccontr)
    assume "length xs \<noteq> length ys"
    then consider "length xs < length ys" | "length ys < length xs" by linarith
    then show False using r by cases (force simp: row_is_def)+
  qed
  then show "xs = ys" using r by (intro nth_equalityI) (auto simp: row_is_def)
qed

lemma getconnetcount_row:
  assumes "row_is i xs c"
  shows "getconnetcount i c = length xs"
proof -
  have "takeWhile (\<lambda>j. cn_fd (conn i j c) \<noteq> -1) [0..<MAX_FD_NUM] = take (length xs) [0..<MAX_FD_NUM]"
    using assms by (intro takeWhile_eq_take_P_nth) (auto simp: row_is_def)
  then show ?thesis using assms by (simp add: getconnetcount_def row_is_def)
qed

lemma get_connect_pos_free:
  assumes "row_is i xs c"
  shows "get_connect_pos i (-1) c = (if length xs < MAX_FD_NUM then int (length xs) else -1)"
proof -
  have "get_connect_pos i (-1) c = scan (\<lambda>j. cn_fd (conn i j c) = -1) 0 MAX_FD_NUM"
    by (simp add: get_connect_pos_def)
  moreover have "cn_fd (conn i j c) \<noteq> -1" if "j < length xs" for j using assms that by (force simp: row_is_def)
  ultimately show ?thesis
    using assms by (auto simp: scan_some scan_none row_is_def)
qed

lemma get_connect_pos_found:
  assumes "row_is i xs c" and "distinct (map cn_fd xs)" and "0 \<le> fd"
  shows "get_connect_pos i fd c = int k \<longleftrightarrow> k < length xs \<and> cn_fd (xs ! k) = fd"
    and "get_connect_pos i fd c < 0 \<longleftrightarrow> fd \<notin> cn_fd ` set xs"
proof -
  have g: "get_connect_pos i fd c = scan (\<lambda>j. cn_fd (conn i j c) = fd) 0 MAX_FD_NUM"
    using assms(3) by (simp add: get_connect_pos_def)
  have e: "cn_fd (conn i j c) = fd \<longleftrightarrow> j < length xs \<and> cn_fd (xs ! j) = fd" if "j < MAX_FD_NUM" for j
    using row_fd [OF assms(1) that] assms(3) by simp
  have n: "length xs \<le> MAX_FD_NUM" using assms(1) by (simp add: row_is_def)
  show "get_connect_pos i fd c = int k \<longleftrightarrow> k < length xs \<and> cn_fd (xs ! k) = fd"
  proof
    assume "get_connect_pos i fd c = int k"
    then show "k < length xs \<and> cn_fd (xs ! k) = fd" using e [of k] unfolding g scan_some by simp
  next
    assume k: "k < length xs \<and> cn_fd (xs ! k) = fd"
    then have "\<not> cn_fd (conn i j c) = fd" if "j < k" for j
      using that e [of j] n assms(2) by (auto simp: distinct_conv_nth)
    then show "get_connect_pos i fd c = int k" using k e [of k] n unfolding g scan_some by simp
  qed
  show "get_connect_pos i fd c < 0 \<longleftrightarrow> fd \<notin> cn_fd ` set xs"
  proof
    assume "get_connect_pos i fd c < 0"
    then have none: "\<not> cn_fd (conn i j c) = fd" if "j < MAX_FD_NUM" for j
      using that unfolding g scan_neg_iff scan_none by simp
    show "fd \<notin> cn_fd ` set xs"
    proof
      assume "fd \<in> cn_fd ` set xs"
      then obtain k where "k < length xs" "cn_fd (xs ! k) = fd" by (auto simp: in_set_conv_nth)
      then show False using none [of k] e [of k] n by simp
    qed
  next
    assume "fd \<notin> cn_fd ` set xs"
    then have "\<not> cn_fd (conn i j c) = fd" if "j < MAX_FD_NUM" for j
      using that e [of j] by (metis imageI nth_mem)
    then show "get_connect_pos i fd c < 0" unfolding g scan_neg_iff scan_none by simp
  qed
qed

text \<open>A row is a table with free slots.\<close>

interpretation conn_slots: slot_table "get_connect_pos i (-1)" "\<lambda>c j. cn_fd (conn i j c) = -1" 0 "\<lambda>c. MAX_FD_NUM"
  "\<lambda>c j x. upd_conn i j (\<lambda>_. x) c" "\<lambda>x. cn_fd x \<noteq> -1" "\<lambda>c. True" for i
  by unfold_locales (auto simp: get_connect_pos_def conn_upd_conn)

text \<open>A removal is right when it copies enough entries: the row is short, or the position is \<open>i\<close>.\<close>

lemma CommClearFd_crash: "CommClearFd i j c = Crash OutOfBounds \<longleftrightarrow> i < j" if "i < MAX_FD_NUM"
  using that by (auto simp: CommClearFd_def MAX_FD_NUM_def)

lemma CommClearFd_row:
  assumes "row_is i xs c" and "j < length xs" and "j \<le> i" and "i < MAX_TREAD_NUM" and "length xs \<le> 979"
  obtains c' where "CommClearFd i j c = Ret c'" and "row_is i (take j xs @ drop (Suc j) xs) c'"
    and "\<And>k m. k \<noteq> i \<Longrightarrow> conn k m c' = conn k m c" and "\<exists>t. c' = c\<lparr>client_ctrl := t\<rparr>"
proof -
  define c' where "c' = upd_conn i (MAX_FD_NUM - 1) InitConnect (upd_row i (\<lambda>r. r\<lparr>connect :=
      (\<lambda>k. if j \<le> k \<and> k < j + (MAX_FD_NUM - i - 1) then connect r (Suc k) else connect r k)\<rparr>) c)"
  have "CommClearFd i j c = Ret c'"
    using assms(3,4) by (simp add: CommClearFd_def c'_def comm_consts)
  moreover have "row_is i (take j xs @ drop (Suc j) xs) c'"
    unfolding row_is_def
  proof (intro conjI allI impI)
    have e: "conn i k c' = (if k = 999 then InitConnect (conn i 999 (upd_row i (\<lambda>r. r\<lparr>connect :=
      (\<lambda>k. if j \<le> k \<and> k < j + (MAX_FD_NUM - i - 1) then connect r (Suc k) else connect r k)\<rparr>) c))
      else if j \<le> k \<and> k < j + (999 - i) then conn i (Suc k) c else conn i k c)" for k
      by (simp add: c'_def conn_upd_conn MAX_FD_NUM_def) (simp add: conn_def upd_row_def MAX_FD_NUM_def)
    show "length (take j xs @ drop (Suc j) xs) \<le> MAX_FD_NUM" using assms(5) by (simp add: MAX_FD_NUM_def)
    fix k
    show "conn i k c' = (take j xs @ drop (Suc j) xs) ! k" "0 \<le> cn_fd ((take j xs @ drop (Suc j) xs) ! k)"
      if "k < length (take j xs @ drop (Suc j) xs)"
      using that assms by (auto simp: e nth_append row_is_def comm_consts min_def)
    show "cn_fd (conn i k c') = -1" if "length (take j xs @ drop (Suc j) xs) \<le> k \<and> k < MAX_FD_NUM"
      using that assms by (auto simp: e row_is_def comm_consts min_def InitConnect_def)
  qed
  moreover have "conn k m c' = conn k m c" if "k \<noteq> i" for k m
    using that by (simp add: c'_def conn_upd_conn) (simp add: conn_def upd_row_def)
  moreover have "\<exists>t. c' = c\<lparr>client_ctrl := t\<rparr>"
    by (simp add: c'_def upd_conn_def upd_row_def exI)
  ultimately show thesis using that by blast
qed

section \<open>The invariant of the table\<close>

text \<open>
  Every row lists its connections without gaps, each once, under a serial number of its own; they are open, watched
  by \<open>epoll\<close>, and belong to the row. Rows stay below 980 places, so that every removal copies enough: with the usual
  1024 descriptors of a process this holds for two threads and more.
\<close>

definition entry_ok :: "nat \<Rightarrow> connect_handle_t \<Rightarrow> comm \<Rightarrow> bool" where
  "entry_ok i x c \<longleftrightarrow> cn_fd x mod cm_num c = int i \<and> cm_fds c (cn_fd x) \<noteq> None \<and> cn_fd x \<in> cm_epoll c \<and> cn_fd x \<noteq> cm_listen c \<and>
     0 \<le> cn_ssn x \<and> cn_ssn x < cm_gssn c"

definition row_ok :: "nat \<Rightarrow> connect_handle_t list \<Rightarrow> comm \<Rightarrow> bool" where
  "row_ok i xs c \<longleftrightarrow> row_is i xs c \<and> length xs \<le> 979 \<and> distinct (map cn_fd xs) \<and> distinct (map cn_ssn xs) \<and>
     (\<forall>x \<in> set xs. entry_ok i x c)"

definition comm_inv :: "(nat \<Rightarrow> connect_handle_t list) \<Rightarrow> comm \<Rightarrow> bool" where
  "comm_inv T c \<longleftrightarrow> 0 < cm_num c \<and> cm_num c \<le> 20 \<and> 0 \<le> cm_gssn c \<and> (\<forall>i < nat (cm_num c). row_ok i (T i) c)"

lemma comm_inv_row: "comm_inv T c \<Longrightarrow> i < nat (cm_num c) \<Longrightarrow> row_ok i (T i) c"
  by (simp add: comm_inv_def)

lemma comm_inv_cong:
  assumes "\<And>i j. conn i j c' = conn i j c" and "cm_num c' = cm_num c" and "cm_gssn c' = cm_gssn c" and "cm_fds c' = cm_fds c"
    and "cm_epoll c' = cm_epoll c" and "cm_listen c' = cm_listen c"
  shows "comm_inv T c' = comm_inv T c"
  using row_is_cong [of _ c' c] assms by (simp add: comm_inv_def row_ok_def entry_ok_def)

lemma row_of_inv: "comm_inv T c \<Longrightarrow> 0 \<le> fd \<Longrightarrow> row_of fd c = Ret (nat (fd mod cm_num c)) \<and> nat (fd mod cm_num c) < nat (cm_num c)"
proof -
  assume a: "comm_inv T c" "0 \<le> fd"
  then have n: "0 < cm_num c" "cm_num c \<le> 20" by (simp_all add: comm_inv_def)
  have "\<not> fd mod cm_num c < 0" "fd mod cm_num c < cm_num c" "\<not> 20 \<le> fd mod cm_num c"
    using n pos_mod_sign [OF n(1), of fd] pos_mod_bound [OF n(1), of fd] by linarith+
  then show ?thesis using a(2) n by (simp add: row_of_def MAX_TREAD_NUM_def Let_def)
qed

text \<open>A status or time does not matter.\<close>

lemma row_ok_touch:
  assumes "row_ok i xs c" and "j < length xs" and "cn_fd x = cn_fd (xs ! j)" and "cn_ssn x = cn_ssn (xs ! j)"
    and "\<And>k. conn i k c' = (if k = j then x else conn i k c)" and "cm_num c' = cm_num c" and "cm_gssn c' = cm_gssn c"
    and "cm_fds c' = cm_fds c" and "cm_epoll c' = cm_epoll c" and "cm_listen c' = cm_listen c"
  shows "row_ok i (xs[j := x]) c'"
proof -
  have m: "map f (xs[j := x]) = map f xs" if "f x = f (xs ! j)" for f :: "connect_handle_t \<Rightarrow> int"
    using that assms(2) by (simp add: map_update list_update_same_conv)
  have "entry_ok i y c'" if "y \<in> set (xs[j := x])" for y
  proof -
    have "entry_ok i (xs ! j) c" using assms(1,2) by (simp add: row_ok_def)
    then have "entry_ok i x c'" using assms(3,4,6-) by (simp add: entry_ok_def)
    moreover have "entry_ok i z c'" if "z \<in> set xs" for z using that assms(1,6-) by (simp add: row_ok_def entry_ok_def)
    ultimately show ?thesis using that set_update_subset_insert [of xs j x] by auto
  qed
  moreover have "row_is i (xs[j := x]) c'"
    using assms(1,2,3) by (auto simp: row_is_def row_ok_def assms(5) nth_list_update)
  ultimately show ?thesis using assms(1,3,4) m by (simp add: row_ok_def)
qed

lemma inv_touch:
  assumes "comm_inv T c" and "i < nat (cm_num c)" and "j < length (T i)" and "\<And>h. cn_fd (f h) = cn_fd h \<and> cn_ssn (f h) = cn_ssn h"
  shows "comm_inv (T(i := (T i)[j := f (T i ! j)])) (upd_conn i j f c)"
proof -
  let ?c = "upd_conn i j f c"
  have k: "cm_num ?c = cm_num c" "cm_gssn ?c = cm_gssn c" "cm_fds ?c = cm_fds c" "cm_epoll ?c = cm_epoll c" "cm_listen ?c = cm_listen c"
    by (simp_all add: upd_conn_def upd_row_def)
  have r: "row_ok i (T i) c" using assms(1,2) by (rule comm_inv_row)
  have c: "conn i j c = T i ! j" using r assms(3) by (simp add: row_ok_def row_is_def)
  have "row_ok i ((T i)[j := f (T i ! j)]) ?c"
    by (rule row_ok_touch [OF r assms(3)]) (simp_all add: assms(4) conn_upd_conn c k)
  moreover have "row_ok m (T m) ?c" if "m < nat (cm_num c)" "m \<noteq> i" for m
    using comm_inv_row [OF assms(1) that(1)] row_is_cong [of m ?c c] that(2) by (simp add: row_ok_def entry_ok_def k conn_upd_conn)
  ultimately show ?thesis using assms(1) by (simp add: comm_inv_def k)
qed

lemma set_removed: "set (take j xs @ drop (Suc j) xs) \<subseteq> set xs"
  using set_take_subset [of j xs] set_drop_subset [of "Suc j" xs] by auto

lemma distinct_removed:
  assumes "distinct (map f xs)" and "j < length xs"
  shows "distinct (map f (take j xs @ drop (Suc j) xs))" and "x \<in> set (take j xs @ drop (Suc j) xs) \<Longrightarrow> f x \<noteq> f (xs ! j)"
proof -
  have "map f xs = map f (take j xs) @ f (xs ! j) # map f (drop (Suc j) xs)"
    using id_take_nth_drop [OF assms(2)] by (metis list.simps(9) map_append)
  then have d: "distinct (map f (take j xs) @ f (xs ! j) # map f (drop (Suc j) xs))" using assms(1) by simp
  then show "distinct (map f (take j xs @ drop (Suc j) xs))" by auto
  show "f x \<noteq> f (xs ! j)" if "x \<in> set (take j xs @ drop (Suc j) xs)"
  proof -
    have "f x \<in> set (map f (take j xs)) \<or> f x \<in> set (map f (drop (Suc j) xs))"
      using that by (metis UnE imageI list.set_map set_append)
    moreover have "f (xs ! j) \<notin> set (map f (take j xs))" "f (xs ! j) \<notin> set (map f (drop (Suc j) xs))"
      using d unfolding distinct_append by (simp_all del: set_map)
    ultimately show ?thesis by metis
  qed
qed

text \<open>Closing the descriptor of a connection and removing its entry.\<close>

lemma inv_remove:
  assumes "comm_inv T c" and "i < nat (cm_num c)" and "j < length (T i)" and "j \<le> i" and "fd = cn_fd (T i ! j)"
    and "\<And>k m. conn k m c1 = conn k m c" and "cm_num c1 = cm_num c" and "cm_gssn c1 = cm_gssn c"
    and "cm_listen c1 = cm_listen c" and "cm_fds c1 = (cm_fds c)(fd := None)" and "cm_epoll c1 = cm_epoll c - {fd}"
  obtains c' where "CommClearFd i j c1 = Ret c'" and "comm_inv (T(i := take j (T i) @ drop (Suc j) (T i))) c'"
    and "\<exists>t. c' = c1\<lparr>client_ctrl := t\<rparr>"
proof -
  let ?ys = "take j (T i) @ drop (Suc j) (T i)"
  have r: "row_ok i (T i) c" using assms(1,2) by (rule comm_inv_row)
  have "cm_num c \<le> 20" using assms(1) by (simp add: comm_inv_def)
  then have i: "i < MAX_TREAD_NUM" using assms(2) by (simp add: MAX_TREAD_NUM_def)
  have r1: "row_is i (T i) c1" using r row_is_cong [OF assms(6)] by (simp add: row_ok_def)
  have "length (T i) \<le> 979" using r by (simp add: row_ok_def)
  from CommClearFd_row [OF r1 assms(3,4) i this] obtain c' where
    c': "CommClearFd i j c1 = Ret c'" "row_is i ?ys c'" "\<And>k m. k \<noteq> i \<Longrightarrow> conn k m c' = conn k m c1" "\<exists>t. c' = c1\<lparr>client_ctrl := t\<rparr>"
    by blast
  have k: "cm_num c' = cm_num c" "cm_gssn c' = cm_gssn c" "cm_listen c' = cm_listen c" "cm_fds c' = (cm_fds c)(fd := None)"
    "cm_epoll c' = cm_epoll c - {fd}"
    using c'(4) assms(7-) by (elim exE; simp)+
  have e: "entry_ok m x c'" if "entry_ok m x c" "cn_fd x \<noteq> fd" for m x
    using that by (simp add: entry_ok_def k)
  note old = r [unfolded row_ok_def]
  have d: "distinct (map cn_fd ?ys)" "distinct (map cn_ssn ?ys)" "\<And>x. x \<in> set ?ys \<Longrightarrow> cn_fd x \<noteq> fd"
    using distinct_removed [of cn_fd "T i" j] distinct_removed [of cn_ssn "T i" j] old assms(3,5) by blast+
  have in_i: "cn_fd (T i ! j) mod cm_num c = int i"
    using old assms(3) nth_mem by (metis entry_ok_def)
  have "length ?ys \<le> 979" using old assms(3) by (simp add: min_def) linarith
  moreover have "entry_ok i x c'" if "x \<in> set ?ys" for x
    using old e [OF _ d(3) [OF that]] subsetD [OF set_removed that] by simp
  ultimately have "row_ok i ?ys c'"
    unfolding row_ok_def using c'(2) d(1,2) by blast
  moreover have "row_ok m (T m) c'" if m: "m < nat (cm_num c)" "m \<noteq> i" for m
  proof -
    note rm = comm_inv_row [OF assms(1) m(1), unfolded row_ok_def]
    have "cn_fd x \<noteq> fd" if "x \<in> set (T m)" for x
      using rm that in_i assms(5) m(2) by (metis entry_ok_def of_nat_eq_iff)
    then have "\<forall>x \<in> set (T m). entry_ok m x c'" using rm e by blast
    moreover have "row_is m (T m) c'" using rm row_is_cong [of m c' c] c'(3) [OF m(2)] assms(6) by metis
    ultimately show ?thesis using rm unfolding row_ok_def by blast
  qed
  ultimately have "comm_inv (T(i := ?ys)) c'" using assms(1) unfolding comm_inv_def k by (metis fun_upd_apply)
  then show thesis using that c'(1,4) by blast
qed

end
