(* ===== verification/CommSteps.thy ===== *)
theory CommSteps
  imports CommTable
begin

text \<open>
  The turns of the threads of the communication server keep the invariant of its table; what a removal, a clean-up, a
  request and a reply do.
\<close>

section \<open>Every operation keeps the invariant\<close>

lemma scan_stop_row:
  fixes fd :: int
  assumes "row_is i xs c" and "length xs < MAX_FD_NUM"
  defines "p \<equiv> scan (\<lambda>m. cn_fd (conn i m c) = -1 \<or> cn_fd (conn i m c) = fd) 0 MAX_FD_NUM"
  obtains "p = int (length xs)" and "fd \<notin> cn_fd ` set xs" and "cn_fd (conn i (length xs) c) = -1"
    | k where "p = int k" and "k < length xs" and "cn_fd (xs ! k) = fd" and "cn_fd (conn i k c) \<noteq> -1"
proof (cases rule: scan_cases [of "\<lambda>m. cn_fd (conn i m c) = -1 \<or> cn_fd (conn i m c) = fd" 0 MAX_FD_NUM])
  case none
  then show ?thesis using row_fd [OF assms(1,2)] assms(2) by auto
next
  case (some k)
  have busy: "cn_fd (conn i m c) = cn_fd (xs ! m)" "cn_fd (conn i m c) \<noteq> -1" if "m < length xs" for m
    using assms(1) that by (force simp: row_is_def)+
  have e: "cn_fd (conn i (length xs) c) = -1" using row_fd [OF assms(1,2)] by simp
  show ?thesis
  proof (cases "k < length xs")
    case True
    then show ?thesis using that(2) [of k] some(1,4) busy [OF True] by (simp add: p_def)
  next
    case False
    then have k: "k = length xs" using some(5) e by (metis le0 linorder_neqE_nat)
    have "fd \<notin> cn_fd ` set xs"
    proof
      assume "fd \<in> cn_fd ` set xs"
      then obtain m where "m < length xs" "cn_fd (xs ! m) = fd" by (auto simp: in_set_conv_nth)
      then show False using some(5) k busy(1) [of m] by simp
    qed
    then show ?thesis using that(1) some(1) k e by (simp add: p_def)
  qed
qed

lemma close_fields:
  "cm_num (close_fd fd (epoll_del fd c)) = cm_num c" "cm_gssn (close_fd fd (epoll_del fd c)) = cm_gssn c"
  "cm_listen (close_fd fd (epoll_del fd c)) = cm_listen c" "cm_fds (close_fd fd (epoll_del fd c)) = (cm_fds c)(fd := None)"
  "cm_epoll (close_fd fd (epoll_del fd c)) = cm_epoll c - {fd}" "conn a b (close_fd fd (epoll_del fd c)) = conn a b c"
  by (auto simp: row_simps) (auto simp: close_fd_def epoll_del_def CloseSocket_def)

lemma num_fields:
  "cm_num (upd_row p (\<lambda>r. r\<lparr>cl_num := h r\<rparr>) c) = cm_num c" "cm_gssn (upd_row p (\<lambda>r. r\<lparr>cl_num := h r\<rparr>) c) = cm_gssn c"
  "cm_listen (upd_row p (\<lambda>r. r\<lparr>cl_num := h r\<rparr>) c) = cm_listen c" "cm_fds (upd_row p (\<lambda>r. r\<lparr>cl_num := h r\<rparr>) c) = cm_fds c"
  "cm_epoll (upd_row p (\<lambda>r. r\<lparr>cl_num := h r\<rparr>) c) = cm_epoll c"
  by (simp_all add: upd_row_def)

lemma inv_num: "comm_inv T (upd_row p (\<lambda>r. r\<lparr>cl_num := h r\<rparr>) c) = comm_inv T c"
  by (rule comm_inv_cong) (simp_all add: row_simps num_fields)

text \<open>A descriptor that is in no row.\<close>

lemma inv_close_unlisted:
  assumes "comm_inv T c" and "fd \<notin> cn_fd ` set (T (nat (fd mod cm_num c)))"
  shows "comm_inv T (close_fd fd (epoll_del fd c))"
proof -
  let ?c = "close_fd fd (epoll_del fd c)"
  have "row_ok m (T m) ?c" if m: "m < nat (cm_num c)" for m
  proof -
    note r = comm_inv_row [OF assms(1) m, unfolded row_ok_def]
    have "entry_ok m x ?c" if x: "x \<in> set (T m)" for x
    proof -
      have e: "entry_ok m x c" using r x by blast
      then have "cn_fd x \<noteq> fd" using assms(2) x by (metis entry_ok_def imageI nat_int)
      then show ?thesis using e by (simp add: entry_ok_def close_fields)
    qed
    then show ?thesis
      using r row_is_cong [of m ?c c] close_fields(6) unfolding row_ok_def by blast
  qed
  then show ?thesis using assms(1) by (simp add: comm_inv_def close_fields)
qed

lemma inv_del_connect_fd:
  assumes "comm_inv T c" and "0 \<le> fd" and "del_connect_fd fd c = Ret (rc, c')"
  shows "\<exists>T'. comm_inv T' c'"
proof -
  let ?i = "nat (fd mod cm_num c)"
  define c1 where "c1 = close_fd fd (epoll_del fd c)"
  have i: "row_of fd c = Ret ?i" "?i < nat (cm_num c)" using row_of_inv [OF assms(1,2)] by blast+
  note r = comm_inv_row [OF assms(1) i(2), unfolded row_ok_def]
  have r1: "row_is ?i (T ?i) c1" using r row_is_cong [of ?i c1 c] by (simp add: c1_def close_fields)
  have l1: "length (T ?i) < MAX_FD_NUM" using r by (simp add: MAX_FD_NUM_def)
  note del = assms(3) [unfolded del_connect_fd_def i(1) cbind.simps Let_def c1_def [symmetric]]
  show ?thesis
  proof (cases rule: scan_stop_row [OF r1 l1, of fd])
    case 1
    then show ?thesis using del inv_close_unlisted [OF assms(1) 1(2)] by (auto simp: c1_def)
  next
    case (2 k)
    then obtain c2 where c2: "c2 = c1 \<or> c2 = upd_row k (\<lambda>r. r\<lparr>cl_num := (if cl_num r = 0 then 0 else cl_num r - 1)\<rparr>) c1"
      "CommClearFd ?i k c2 = Ret c'"
      using del by (auto simp: cbind_Ret_iff split: if_splits)
    have k2: "cm_num c2 = cm_num c" "cm_gssn c2 = cm_gssn c" "cm_listen c2 = cm_listen c" "cm_fds c2 = (cm_fds c)(fd := None)"
      "cm_epoll c2 = cm_epoll c - {fd}" "\<And>a b. conn a b c2 = conn a b c"
      using c2(1) by (auto simp: row_simps num_fields c1_def close_fields)
      have "cm_num c \<le> 20" using assms(1) by (simp add: comm_inv_def)
    then have "?i < MAX_FD_NUM" using i(2) unfolding MAX_FD_NUM_def by linarith
    then have "k \<le> ?i" using CommClearFd_crash [of ?i k c2] c2(2) by auto
    from inv_remove [OF assms(1) i(2) 2(2) this 2(3) [symmetric] k2(6) k2(1-5)] c2(2) show ?thesis
      by (metis cres.inject(1))
  qed
qed

lemma AcceptSocket_in: "AcceptSocket acc = Some (rc, a) \<Longrightarrow> rc = 0 \<and> 0 \<le> a \<and> a \<in> set acc"
  by (induction acc) (auto split: if_splits)

text \<open>What the kernel promises of an \<open>accept\<close>, and the bounds of the counters.\<close>

definition room_for :: "int list \<Rightarrow> comm \<Rightarrow> bool" where
  "room_for acc c \<longleftrightarrow> (\<forall>a \<in> set acc. 0 \<le> a \<longrightarrow> cm_fds c a = None \<and> a \<noteq> cm_listen c) \<and>
     (\<forall>i < nat (cm_num c). getconnetcount i c < 979) \<and> cm_gssn c < 2 ^ 31 - 1"

lemma row_append:
  assumes "row_is i xs c" and "length xs < MAX_FD_NUM" and "0 \<le> cn_fd x"
    and "\<And>k. conn i k c' = (if k = length xs then x else conn i k c)"
  shows "row_is i (xs @ [x]) c'"
  using assms(1-3) by (auto simp: row_is_def assms(4) nth_append less_Suc_eq)

lemma inv_accept:
  assumes "comm_inv T c" and "room_for acc c" and "new_accept acc ok now c = Some (Ret (rc, c'))"
  obtains a where "AcceptSocket acc = Some (0, a)" and "rc = 0" and "ok"
      and "comm_inv (T(nat (a mod cm_num c) := T (nat (a mod cm_num c)) @
        [\<lparr>cn_fd = a, cn_ssn = cm_gssn c, cn_utime = now mod 2 ^ 32, cn_status = FD_STAT_REG\<rparr>])) c'"
    | a where "AcceptSocket acc = Some (0, a)" and "rc = -1" and "\<not> ok" and "c' = c"
proof (cases "AcceptSocket acc")
  case None
  then show ?thesis using assms(3) by (simp add: new_accept_def)
next
  case (Some ra)
  then obtain a where a: "AcceptSocket acc = Some (0, a)" "0 \<le> a" "a \<in> set acc"
    using AcceptSocket_in [of acc "fst ra" "snd ra"] by (cases ra) auto
  then have fr: "cm_fds c a = None" "a \<noteq> cm_listen c" using assms(2) by (auto simp: room_for_def)
  define c1 where "c1 = c\<lparr>cm_fds := (cm_fds c)(a \<mapsto> fresh_sock\<lparr>s_nonblock := ok\<rparr>)\<rparr>"
  show ?thesis
  proof (cases ok)
    case False
    have "(cm_fds c)(a := None) = cm_fds c" using fr(1) by (simp add: fun_upd_idem)
    then have "close_fd a c1 = c" by (simp add: close_fd_def c1_def CloseSocket_def)
    then show ?thesis using that(2) [OF a(1)] False assms(3) a(1) by (simp add: new_accept_def Let_def c1_def)
  next
    case True
    let ?i = "nat (a mod cm_num c)"
    let ?x = "\<lparr>cn_fd = a, cn_ssn = cm_gssn c, cn_utime = now mod 2 ^ 32, cn_status = FD_STAT_REG\<rparr>"
    have g: "0 \<le> cm_gssn c" "cm_gssn c < 2 ^ 31 - 1" using assms(1,2) by (simp_all add: comm_inv_def room_for_def)
    have g2: "cm_gssn c mod 2 ^ 32 = cm_gssn c" "i32 (cm_gssn c + 1) = cm_gssn c + 1"
      using g by (simp_all add: i32_id in_i32_def)
    have n: "0 < cm_num c" using assms(1) by (simp add: comm_inv_def)
    have i: "row_of a c = Ret ?i" "?i < nat (cm_num c)" using row_of_inv [OF assms(1) a(2)] by blast+
    have "row_of a c1 = row_of a c" by (simp add: row_of_def c1_def)
    then have i1: "row_of a c1 = Ret ?i" using i(1) by simp
    note r = comm_inv_row [OF assms(1) i(2), unfolded row_ok_def]
    have r1: "row_is ?i (T ?i) c1" using r row_is_cong [of ?i c1 c] by (simp add: c1_def row_simps)
    have l: "length (T ?i) < 979" using assms(2) i(2) getconnetcount_row [of ?i "T ?i" c] r unfolding room_for_def by metis
    have pos: "get_connect_pos ?i (-1) c1 = int (length (T ?i))"
      using get_connect_pos_free [OF r1] l by (simp add: MAX_FD_NUM_def)
    define c2 where "c2 = c1\<lparr>cm_epoll := insert a (cm_epoll c1), cm_gssn := i32 (cm_gssn c1 + 1)\<rparr>"
    have c': "rc = 0" "c' = upd_conn ?i (length (T ?i)) (\<lambda>h. ?x) c2"
      using assms(3) a(1) True i1 pos g2 by (auto simp: new_accept_def Let_def c1_def [symmetric] c2_def) (simp_all add: c1_def)
    have k: "cm_num c' = cm_num c" "cm_gssn c' = cm_gssn c + 1" "cm_listen c' = cm_listen c"
      "cm_fds c' = (cm_fds c)(a \<mapsto> fresh_sock\<lparr>s_nonblock := ok\<rparr>)" "cm_epoll c' = insert a (cm_epoll c)"
      by (simp_all add: c' c2_def c1_def upd_conn_def upd_row_def g2)
    have cn: "conn p q c' = (if p = ?i \<and> q = length (T ?i) then ?x else conn p q c)" for p q
      by (simp add: c'(2) c2_def c1_def row_simps)
    have old: "entry_ok m x c'" if "entry_ok m x c" for m x using that by (auto simp: entry_ok_def k)
    have new: "entry_ok ?i ?x c'" using n g fr(2) by (simp add: entry_ok_def k)
    have nfd: "a \<notin> cn_fd ` set (T ?i)" using r fr(1) by (auto simp: entry_ok_def)
    have nssn: "cm_gssn c \<notin> cn_ssn ` set (T ?i)" using r by (auto simp: entry_ok_def)
    have "row_is ?i (T ?i @ [?x]) c'"
      using row_append [of ?i "T ?i" c ?x c'] r l a(2) cn by (simp add: MAX_FD_NUM_def)
    then have "row_ok ?i (T ?i @ [?x]) c'"
      using r l old new nfd nssn by (simp add: row_ok_def)
    moreover have "row_ok m (T m) c'" if "m < nat (cm_num c)" "m \<noteq> ?i" for m
      using comm_inv_row [OF assms(1) that(1)] old row_is_cong [of m c' c] that(2) cn unfolding row_ok_def by auto
    ultimately have "comm_inv (T(?i := T ?i @ [?x])) c'"
      using assms(1) g by (simp add: comm_inv_def k)
    then show ?thesis using that(1) [OF a(1) c'(1) True] by blast
  qed
qed

section \<open>Cleaning up\<close>

definition expired :: "int \<Rightarrow> comm \<Rightarrow> connect_handle_t \<Rightarrow> bool" where
  "expired now c x \<longleftrightarrow> cm_idletime c mod 2 ^ 32 \<le> (now mod 2 ^ 32 - cn_utime x) mod 2 ^ 32"

definition without :: "int set \<Rightarrow> fds \<Rightarrow> fds" where
  "without A n = (\<lambda>fd. if fd \<in> A then None else n fd)"

lemma clean_row_list:
  "comm_inv T c \<Longrightarrow> i < nat (cm_num c) \<Longrightarrow> \<exists>c'. clean_row i (now mod 2 ^ 32) c = Some (Ret c') \<and>
     comm_inv (T(i := dropWhile (expired now c) (T i))) c' \<and> cm_num c' = cm_num c \<and> cm_idletime c' = cm_idletime c \<and>
     cm_fds c' = without (cn_fd ` set (takeWhile (expired now c) (T i))) (cm_fds c)"
proof (induction "T i" arbitrary: T c)
  case Nil
  have "row_is i [] c" using comm_inv_row [OF Nil(2,3)] Nil(1) by (simp add: row_ok_def)
  then have "cn_fd (conn i 0 c) = -1" by (simp add: row_is_def MAX_FD_NUM_def)
  then have "clean_row i (now mod 2 ^ 32) c = Some (Ret c)" by (simp add: clean_row.simps)
  then show ?case using Nil(1) [symmetric] Nil(2) by (simp add: without_def fun_upd_idem)
next
  case (Cons x xs)
  have r: "row_is i (x # xs) c" using comm_inv_row [OF Cons(3,4)] Cons(2) by (simp add: row_ok_def)
  then have h: "conn i 0 c = x" "cn_fd x \<noteq> -1" by (force simp: row_is_def)+
  show ?case
  proof (cases "expired now c x")
    case False
    then have "clean_row i (now mod 2 ^ 32) c = Some (Ret c)" by (simp add: clean_row.simps h expired_def)
    then show ?thesis using Cons(2) [symmetric] Cons(3) False by (simp add: without_def fun_upd_idem)
  next
    case True
    define c1 where "c1 = close_fd (cn_fd x) (epoll_del (cn_fd x) c)"
    have f: "\<And>k m. conn k m c1 = conn k m c" "cm_num c1 = cm_num c" "cm_gssn c1 = cm_gssn c" "cm_listen c1 = cm_listen c"
      "cm_fds c1 = (cm_fds c)(cn_fd x := None)" "cm_epoll c1 = cm_epoll c - {cn_fd x}" "cm_idletime c1 = cm_idletime c"
      by (simp_all add: c1_def close_fields) (simp add: close_fd_def epoll_del_def)
    have z: "0 < length (T i)" "cn_fd x = cn_fd (T i ! 0)" using Cons(2) [symmetric] by simp_all
    from inv_remove [OF Cons(3,4) z(1) le0 z(2) f(1-6)] obtain c2 where
      c2: "CommClearFd i 0 c1 = Ret c2" "comm_inv (T(i := xs)) c2" "\<exists>t. c2 = c1\<lparr>client_ctrl := t\<rparr>"
      using Cons(2) [symmetric] by auto
    have g: "cm_num c2 = cm_num c" "cm_idletime c2 = cm_idletime c" "cm_fds c2 = (cm_fds c)(cn_fd x := None)"
      using c2(3) f by auto
    have e: "expired now c2 = expired now c" by (simp add: expired_def g fun_eq_iff)
    have i2: "i < nat (cm_num c2)" using Cons(4) g by simp
    have s: "clean_row i (now mod 2 ^ 32) c = clean_row i (now mod 2 ^ 32) c2"
      using True h c2(1) by (subst clean_row.simps) (simp add: expired_def c1_def)
    have "(T(i := xs)) i = xs" by simp
    from Cons(1) [OF this [symmetric] c2(2) i2] obtain c' where
      c': "clean_row i (now mod 2 ^ 32) c2 = Some (Ret c')" "comm_inv (T(i := dropWhile (expired now c) xs)) c'"
      "cm_num c' = cm_num c" "cm_idletime c' = cm_idletime c"
      "cm_fds c' = without (cn_fd ` set (takeWhile (expired now c) xs)) (cm_fds c2)"
      by (auto simp: e g)
    moreover have "cm_fds c' = without (cn_fd ` set (takeWhile (expired now c) (T i))) (cm_fds c)"
      using c'(5) Cons(2) [symmetric] True by (auto simp: without_def g(3) fun_eq_iff)
    ultimately show ?thesis using s Cons(2) [symmetric] True by auto
  qed
qed

lemma clean_rows_list:
  "comm_inv T c \<Longrightarrow> set is \<subseteq> {..<nat (cm_num c)} \<Longrightarrow> distinct is \<Longrightarrow> \<exists>c'. clean_rows is (now mod 2 ^ 32) c = Some (Ret c') \<and>
     comm_inv (\<lambda>i. if i \<in> set is then dropWhile (expired now c) (T i) else T i) c' \<and> cm_num c' = cm_num c \<and>
     cm_fds c' = without (\<Union>i \<in> set is. cn_fd ` set (takeWhile (expired now c) (T i))) (cm_fds c)"
proof (induction "is" arbitrary: T c)
  case Nil
  then show ?case by (simp add: without_def)
next
  case (Cons i "is")
  from clean_row_list [OF Cons.prems(1), of i now] obtain c1 where
    c1: "clean_row i (now mod 2 ^ 32) c = Some (Ret c1)" "comm_inv (T(i := dropWhile (expired now c) (T i))) c1"
      "cm_num c1 = cm_num c" "cm_idletime c1 = cm_idletime c"
      "cm_fds c1 = without (cn_fd ` set (takeWhile (expired now c) (T i))) (cm_fds c)"
    using Cons.prems(2) by auto
  have e: "expired now c1 = expired now c" by (simp add: expired_def c1(4) fun_eq_iff)
  have s: "set is \<subseteq> {..<nat (cm_num c1)}" "distinct is" "i \<notin> set is" using Cons.prems c1(3) by auto
  let ?T = "T(i := dropWhile (expired now c) (T i))"
  obtain c2 where
    c2: "clean_rows is (now mod 2 ^ 32) c1 = Some (Ret c2)"
      "comm_inv (\<lambda>m. if m \<in> set is then dropWhile (expired now c) (?T m) else ?T m) c2" "cm_num c2 = cm_num c1"
      "cm_fds c2 = without (\<Union>m \<in> set is. cn_fd ` set (takeWhile (expired now c) (?T m))) (cm_fds c1)"
    using Cons.IH [OF c1(2) s(1,2), unfolded e] by blast
  have "(\<lambda>m. if m \<in> set is then dropWhile (expired now c) (?T m) else ?T m) =
      (\<lambda>m. if m \<in> set (i # is) then dropWhile (expired now c) (T m) else T m)"
    using s(3) by (auto simp: fun_eq_iff)
  moreover have "(\<Union>m \<in> set is. cn_fd ` set (takeWhile (expired now c) (?T m))) =
      (\<Union>m \<in> set is. cn_fd ` set (takeWhile (expired now c) (T m)))"
    using s(3) by (intro SUP_cong) auto
  then have "cm_fds c2 = without (\<Union>m \<in> set (i # is). cn_fd ` set (takeWhile (expired now c) (T m))) (cm_fds c)"
    using c2(4) c1(5) by (auto simp: without_def fun_eq_iff)
  ultimately show ?case using c1(1,3) c2(1-3) by simp
qed

lemma inv_rows_below:
  assumes "\<And>i. i < nat (cm_num c) \<Longrightarrow> T' i = T i"
  shows "comm_inv T' c = comm_inv T c"
  using assms by (simp add: comm_inv_def)

lemma clean_list:
  assumes "comm_inv T c"
  obtains c' where "clean_time_out_connect now c = Some (Ret c')" and "comm_inv (\<lambda>i. dropWhile (expired now c) (T i)) c'"
    and "cm_num c' = cm_num c"
    and "cm_fds c' = without (\<Union>i \<in> {..<nat (cm_num c)}. cn_fd ` set (takeWhile (expired now c) (T i))) (cm_fds c)"
proof -
  have u: "set [0..<nat (cm_num c)] = {..<nat (cm_num c)}" by auto
  from clean_rows_list [OF assms, of "[0..<nat (cm_num c)]" now] obtain c' where
    c': "clean_rows [0..<nat (cm_num c)] (now mod 2 ^ 32) c = Some (Ret c')" "cm_num c' = cm_num c"
      "comm_inv (\<lambda>i. if i \<in> {..<nat (cm_num c)} then dropWhile (expired now c) (T i) else T i) c'"
      "cm_fds c' = without (\<Union>i \<in> {..<nat (cm_num c)}. cn_fd ` set (takeWhile (expired now c) (T i))) (cm_fds c)"
    unfolding u by auto
  have "comm_inv (\<lambda>i. dropWhile (expired now c) (T i)) c'"
    using c'(3) by (subst inv_rows_below [where T = "\<lambda>i. if i \<in> {..<nat (cm_num c)} then dropWhile (expired now c) (T i) else T i"])
      (simp_all add: c'(2))
  then show thesis using that c' by (simp add: clean_time_out_connect_def)
qed

text \<open>A row that is full up to place \<open>999 - i\<close> with expired connections: the removal leaves the last of them where it is, and
  the loop never ends.\<close>

definition stuck_row :: "nat \<Rightarrow> int \<Rightarrow> comm \<Rightarrow> bool" where
  "stuck_row i now c \<longleftrightarrow> 1 \<le> i \<and> i < MAX_TREAD_NUM \<and> (\<forall>k \<le> 999 - i. cn_fd (conn i k c) \<noteq> -1 \<and>
     cm_idletime c mod 2 ^ 32 \<le> (now - cn_utime (conn i k c)) mod 2 ^ 32)"

lemma stuck_row_stays:
  assumes "stuck_row i now c" and "CommClearFd i 0 (close_fd fd (epoll_del fd c)) = Ret c'"
  shows "stuck_row i now c'"
proof -
  let ?c = "close_fd fd (epoll_del fd c)"
  have i: "1 \<le> i" "i < 20" using assms(1) by (simp_all add: stuck_row_def MAX_TREAD_NUM_def)
  have "conn i k c' = (if k < 999 - i then conn i (Suc k) c else conn i k c)" if "k \<le> 999 - i" for k
    using assms(2) that i by (auto simp: CommClearFd_def MAX_FD_NUM_def conn_upd_conn split: if_splits)
      (simp_all add: conn_def upd_row_def close_fd_def epoll_del_def)
  moreover have "cm_idletime c' = cm_idletime c"
    using assms(2) by (auto simp: CommClearFd_def upd_conn_def upd_row_def close_fd_def epoll_del_def split: if_splits)
  ultimately show ?thesis using assms(1) by (auto simp: stuck_row_def)
qed

lemma clean_row_ends:
  assumes "clean_row i now c = Some r"
  shows "\<not> stuck_row i now c"
  using _ assms
proof (rule clean_row.raw_induct)
  fix rec i now c and r :: "comm cres"
  assume 1: "\<And>i now c r. rec i now c = Some r \<Longrightarrow> \<not> stuck_row i now c"
    "(let fd = cn_fd (conn i 0 c); diff_time = (now - cn_utime (conn i 0 c)) mod 2 ^ 32
      in if fd = -1 then Some (Ret c)
         else if diff_time \<ge> cm_idletime c mod 2 ^ 32 then
           (case CommClearFd i 0 (close_fd fd (epoll_del fd c)) of Crash e \<Rightarrow> Some (Crash e) | Ret c1 \<Rightarrow> rec i now c1)
         else Some (Ret c)) = Some r"
  show "\<not> stuck_row i now c"
  proof
    assume st: "stuck_row i now c"
    then have "cn_fd (conn i 0 c) \<noteq> -1" "cm_idletime c mod 2 ^ 32 \<le> (now - cn_utime (conn i 0 c)) mod 2 ^ 32" "i < MAX_FD_NUM"
      by (auto simp: stuck_row_def comm_consts)
    note now = this
    have "\<not> 0 + (MAX_FD_NUM - i - 1) \<ge> MAX_FD_NUM" using now(3) by simp
    then obtain c' where c': "CommClearFd i 0 (close_fd (cn_fd (conn i 0 c)) (epoll_del (cn_fd (conn i 0 c)) c)) = Ret c'"
      unfolding CommClearFd_def by (metis (no_types))
    then have "rec i now c' = Some r" using 1(2) now by (simp add: Let_def)
    then show False using 1(1) stuck_row_stays [OF st c'] by blast
  qed
qed

lemma clean_full_row_loops: "stuck_row i now c \<Longrightarrow> clean_row i now c = None"
  using clean_row_ends by (cases "clean_row i now c") blast+

section \<open>Events and turns\<close>

lemma obind_Ret: "obind m f = Returned y s' \<longleftrightarrow> (\<exists>x s1. m = Returned x s1 \<and> f x s1 = Returned y s')"
  by (cases m) auto

lemma of_cres_Ret: "of_cres m s = Returned x s' \<longleftrightarrow> m = Ret x \<and> s' = s"
  by (cases m) auto

lemma inv_do_event:
  assumes "comm_inv T c" and "0 \<le> ev_fd ev" and "room_for (ev_acc ev) c" and "do_event ev c = Some (Ret c')"
  shows "\<exists>T'. comm_inv T' c'"
proof -
  have n: "cm_num c \<noteq> 0" using assms(1) by (simp add: comm_inv_def)
  let ?i = "nat (ev_fd ev mod cm_num c)"
  have i: "row_of (ev_fd ev) c = Ret ?i" "?i < nat (cm_num c)" using row_of_inv [OF assms(1,2)] by blast+
  show ?thesis
  proof (cases "ev_fd ev = cm_listen c")
    case True
    then obtain rc where "new_accept (ev_acc ev) (ev_ok ev) (ev_now ev) c = Some (Ret (rc, c'))"
      using assms(4) n by (auto simp: do_event_def rbind_Ret)
    then show ?thesis
      by (cases rule: inv_accept [OF assms(1,3)]) (use assms(1) in blast)+
  next
    case False
    show ?thesis
    proof (cases "ev_in ev \<and> 0 \<le> get_connect_pos ?i (ev_fd ev) c")
      case True
      then have p: "get_connect_pos ?i (ev_fd ev) c = int (nat (get_connect_pos ?i (ev_fd ev) c))" by simp
      note r = comm_inv_row [OF assms(1) i(2), unfolded row_ok_def]
      let ?p = "nat (get_connect_pos ?i (ev_fd ev) c)"
      have "?p < length (T ?i)" using get_connect_pos_found(1) [of ?i "T ?i" c "ev_fd ev" ?p] p r assms(2) by simp
      from inv_touch [OF assms(1) i(2) this, of "\<lambda>h. h\<lparr>cn_status := FD_STAT_POLL\<rparr>"]
      have "\<exists>T'. comm_inv T' (upd_row ?i (\<lambda>r. r\<lparr>cl_num := i32 (cl_num r + 1)\<rparr>) (upd_conn ?i ?p (\<lambda>h. h\<lparr>cn_status := FD_STAT_POLL\<rparr>) c))"
        by (auto simp: inv_num)
      then show ?thesis using assms(4) n False True i(1) by (simp add: do_event_def Let_def)
    next
      case out: False
      then obtain rc where "del_connect_fd (ev_fd ev) c = Ret (rc, c')"
        using assms(4) n False i(1) by (auto simp: do_event_def Let_def cbind_Ret_iff split: if_splits)
      then show ?thesis by (rule inv_del_connect_fd [OF assms(1,2)])
    qed
  qed
qed

lemma get_read_fd_row:
  assumes "row_is i xs c" and "length xs < MAX_FD_NUM" and "get_read_fd i c \<noteq> -1"
  obtains k where "get_read_fd i c = int k" and "k < length xs" and "cn_status (xs ! k) = FD_STAT_POLL"
    and "\<forall>j < k. cn_status (xs ! j) \<noteq> FD_STAT_POLL"
proof (cases rule: scan_cases [of "\<lambda>j. cn_fd (conn i j c) < 0 \<or> cn_status (conn i j c) = FD_STAT_POLL" 0 MAX_FD_NUM])
  case none
  then show ?thesis using assms(3) by (simp add: get_read_fd_def)
next
  case (some k)
  then have g: "get_read_fd i c = int k" "0 \<le> cn_fd (conn i k c)"
    using assms(3) by (auto simp: get_read_fd_def split: if_splits)
  then have k: "k < length xs" using row_fd [OF assms(1) some(3)] by (simp split: if_splits)
  have e: "conn i j c = xs ! j" if "j < length xs" for j using assms(1) that by (simp add: row_is_def)
  have "cn_status (xs ! k) = FD_STAT_POLL" using some(4) g(2) e [OF k] by simp
  moreover have "cn_status (xs ! j) \<noteq> FD_STAT_POLL" if "j < k" for j using some(5) that e [of j] k by force
  ultimately show ?thesis using that g(1) k by blast
qed

lemma inv_out: "comm_inv T (snd (send_out fd buf wr c)) = comm_inv T c"
  by (rule comm_inv_cong) (simp_all add: send_out_def row_simps split: prod.split)

lemma inv_err: "comm_inv T (snd (response_err_req fd h wr c)) = comm_inv T c"
  using inv_out [of T fd _ wr c] by (simp add: response_err_req_def Let_def split: prod.split) (metis snd_conv)

lemma inv_in: "comm_inv T (c\<lparr>cm_in := f\<rparr>) = comm_inv T c"
  by (rule comm_inv_cong) (simp_all add: row_simps)

lemma inv_wlen: "comm_inv T (c\<lparr>cm_wlen := n\<rparr>) = comm_inv T c"
  by (rule comm_inv_cong) (simp_all add: row_simps)

lemma inv_read_task:
  assumes "comm_inv T c" and "idx < nat (cm_num c)" and "read_task wr idx c st = Returned (t, c') st'"
  shows "\<exists>T'. comm_inv T' c'"
proof -
  note r = comm_inv_row [OF assms(1,2), unfolded row_ok_def]
  have l: "length (T idx) < MAX_FD_NUM" using r by (simp add: MAX_FD_NUM_def)
  consider "cl_num (client_ctrl c idx) = 0" | "cl_num (client_ctrl c idx) \<noteq> 0" "get_read_fd idx c = -1"
    | "cl_num (client_ctrl c idx) \<noteq> 0" "get_read_fd idx c \<noteq> -1" by blast
  then show ?thesis
  proof cases
    case 1
    then show ?thesis using assms by (auto simp: read_task_def)
  next
    case 2
    then have "c' = upd_row idx (\<lambda>r. r\<lparr>cl_num := 0\<rparr>) c" using assms(3) by (simp add: read_task_def)
    then show ?thesis using assms(1) by (auto simp: inv_num)
  next
    case 3
    from get_read_fd_row [OF conjunct1 [OF r] l 3(2)] obtain k where
      k: "get_read_fd idx c = int k" "k < length (T idx)" by blast
    define c2 where "c2 = upd_row idx (\<lambda>r. r\<lparr>cl_num := i32 (cl_num r - 1)\<rparr>) (upd_conn idx k (\<lambda>h. h\<lparr>cn_status := FD_STAT_READ\<rparr>) c)"
    define T2 where "T2 = T(idx := (T idx)[k := (T idx ! k)\<lparr>cn_status := FD_STAT_READ\<rparr>])"
    have c2: "comm_inv T2 (c2\<lparr>cm_in := f\<rparr>)" for f
      using inv_touch [OF assms(1,2) k(2), of "\<lambda>h. h\<lparr>cn_status := FD_STAT_READ\<rparr>"]
      by (simp add: c2_def T2_def inv_num inv_in)
    have fd: "0 \<le> cn_fd (conn idx k (upd_conn idx k (\<lambda>h. h\<lparr>cn_status := FD_STAT_READ\<rparr>) c))"
      using r k(2) by (simp add: conn_upd_conn row_is_def)
    show ?thesis
      using assms(3) 3 k(1) inv_del_connect_fd [OF c2 fd] c2
      by (fastforce simp: read_task_def Let_def c2_def [symmetric] obind_Ret of_cres_Ret inv_err split: if_splits)
  qed
qed

lemma row_of_below: "comm_inv T c \<Longrightarrow> row_of fd c = Ret i \<Longrightarrow> i < nat (cm_num c)"
proof -
  assume a: "comm_inv T c" "row_of fd c = Ret i"
  then have n: "0 < cm_num c" by (simp add: comm_inv_def)
  define r where "r = (if fd < 0 then - (- fd mod \<bar>cm_num c\<bar>) else fd mod \<bar>cm_num c\<bar>)"
  have "i = nat r" using a(2) n by (auto simp: row_of_def r_def Let_def split: if_splits)
  moreover have "r < cm_num c"
  proof (cases "fd < 0")
    case True
    have "0 \<le> - fd mod cm_num c" using n by simp
    then have "- (- fd mod cm_num c) < cm_num c" using n by linarith
    then show ?thesis using n True by (simp add: r_def)
  next
    case False
    then show ?thesis using n by (simp add: r_def)
  qed
  ultimately show ?thesis using n by simp
qed

text \<open>In a row that is not full the lookup by serial number is exact.\<close>

lemma get_conn_inf_row:
  assumes "comm_inv T c" and "row_of fd c = Ret i"
  obtains "get_conn_inf junk fd ssn c = Ret (-1)" and "ssn \<notin> cn_ssn ` set (T i)"
    | k where "get_conn_inf junk fd ssn c = Ret (int k)" and "k < length (T i)" and "cn_ssn (T i ! k) = ssn"
proof -
  note r = comm_inv_row [OF assms(1) row_of_below [OF assms], unfolded row_ok_def]
  have l: "length (T i) < MAX_FD_NUM" using r by (simp add: MAX_FD_NUM_def)
  have e: "conn i j c = T i ! j" "cn_fd (conn i j c) \<noteq> -1" if "j < length (T i)" for j
    using r that by (force simp: row_is_def)+
  have free: "cn_fd (conn i (length (T i)) c) = -1" using r l by (simp add: row_is_def)
  show thesis
  proof (cases rule: scan_cases [of "\<lambda>j. cn_fd (conn i j c) = -1 \<or> cn_ssn (conn i j c) = ssn" 0 MAX_FD_NUM])
    case none
    then show ?thesis using free l by auto
  next
    case (some k)
    have g: "get_conn_inf junk fd ssn c = Ret (if cn_fd (conn i k c) \<noteq> -1 then int k else -1)"
      using some(1) by (simp add: get_conn_inf_def assms(2))
    show ?thesis
    proof (cases "k < length (T i)")
      case True
      then show ?thesis using that(2) g some(4) e by simp
    next
      case False
      then have k: "k = length (T i)" using some(5) free by (metis le0 linorder_neqE_nat)
      have "ssn \<notin> cn_ssn ` set (T i)"
      proof
        assume "ssn \<in> cn_ssn ` set (T i)"
        then obtain j where "j < length (T i)" "cn_ssn (T i ! j) = ssn" by (auto simp: in_set_conv_nth)
        then show False using some(5) k e(1) [of j] by (metis le0)
      qed
      then show ?thesis using that(1) g free k by simp
    qed
  qed
qed

lemma inv_write_task:
  assumes "comm_inv T c" and "write_task junk wr c st = Returned (t, c') st'"
  shows "\<exists>T'. comm_inv T' c'"
proof -
  obtain iRet rsp s1 where g: "tux_getreply 10241 COMM_S_MSG_TYPE_ROOT 0 st = Returned (iRet, rsp) s1"
    using assms(2) by (auto simp: write_task_def obind_Ret)
  define c1 where "c1 = (case rsp of None \<Rightarrow> c | Some b \<Rightarrow> c\<lparr>cm_wlen := int (length b)\<rparr>)"
  have c1: "comm_inv T c1" using assms(1) by (simp add: c1_def inv_wlen split: option.split)
  note w = assms(2) [unfolded write_task_def g obind.simps case_prod_conv Let_def, folded c1_def]
  consider "c' = c" | h :: IPCMsgHead and buf s2 idx pos where "row_of (ih_fd h) c1 = Ret idx"
      "get_conn_inf junk (ih_fd h) (ih_conn_ssn h) c1 = Ret pos"
      "(if pos < 0 then Returned (Again, c1) s2 else if nat pos \<ge> MAX_FD_NUM then Faulted OutOfBounds
        else Returned (Again, snd (send_out (ih_fd h) buf wr (upd_conn idx (nat pos) (\<lambda>e. e\<lparr>cn_status := FD_STAT_WRITE\<rparr>) c1))) s2)
       = Returned (t, c') st'"
  proof (cases "iRet \<noteq> 0 \<and> (p_errno (tp s1) = SYS_SYSTEM \<or> p_errno (tp s1) = ENOMSG)")
    case True
    then have "c' = c" using w by (simp split: if_splits)
    then show ?thesis by (rule that(1))
  next
    case False
    then have "\<not> (iRet \<noteq> 0 \<and> p_errno (tp s1) = SYS_SYSTEM)" "\<not> (iRet \<noteq> 0 \<and> p_errno (tp s1) = ENOMSG)" by auto
    note w2 = w [unfolded if_not_P [OF this(1)] if_not_P [OF this(2)], unfolded obind_Ret [of "of_cres (reply_frame _ _) _"]]
    then obtain x :: "IPCMsgHead \<times> string" and s2 where "obind (of_cres (row_of (ih_fd (fst x)) c1) s2) (\<lambda>idx st.
               obind (of_cres (get_conn_inf junk (ih_fd (fst x)) (ih_conn_ssn (fst x)) c1) st) (\<lambda>pos st.
                 if pos < 0 then Returned (Again, c1) st
                 else if nat pos \<ge> MAX_FD_NUM then Faulted OutOfBounds
                 else Returned (Again, snd (send_out (ih_fd (fst x)) (snd x) wr
                        (upd_conn idx (nat pos) (\<lambda>e. e\<lparr>cn_status := FD_STAT_WRITE\<rparr>) c1))) st)) = Returned (t, c') st'"
      unfolding case_prod_beta by blast
    then obtain idx pos where "row_of (ih_fd (fst x)) c1 = Ret idx" "get_conn_inf junk (ih_fd (fst x)) (ih_conn_ssn (fst x)) c1 = Ret pos"
      "(if pos < 0 then Returned (Again, c1) s2 else if nat pos \<ge> MAX_FD_NUM then Faulted OutOfBounds
        else Returned (Again, snd (send_out (ih_fd (fst x)) (snd x) wr (upd_conn idx (nat pos) (\<lambda>e. e\<lparr>cn_status := FD_STAT_WRITE\<rparr>) c1))) s2)
       = Returned (t, c') st'"
      unfolding obind_Ret of_cres_Ret by blast
    then show ?thesis by (rule that(2))
  qed
  then show ?thesis
  proof cases
    case 1
    then show ?thesis using assms(1) by blast
  next
    case (2 h buf s2 idx pos)
    have i: "idx < nat (cm_num c1)" using row_of_below [OF c1 2(1)] .
    show ?thesis
    proof (cases rule: get_conn_inf_row [OF c1 2(1), of junk "ih_conn_ssn h"])
      case 1
      then show ?thesis using 2 c1 by auto
    next
      case (2 k)
      then have "pos = int k" using \<open>get_conn_inf junk (ih_fd h) (ih_conn_ssn h) c1 = Ret pos\<close> by simp
      then have "c' = snd (send_out (ih_fd h) buf wr (upd_conn idx k (\<lambda>e. e\<lparr>cn_status := FD_STAT_WRITE\<rparr>) c1))"
        using \<open>(if pos < 0 then _ else _) = _\<close> by (auto split: if_splits)
      then show ?thesis
        using inv_touch [OF c1 i 2(2), of "\<lambda>e. e\<lparr>cn_status := FD_STAT_WRITE\<rparr>"] by (auto simp: inv_out)
    qed
  qed
qed

section \<open>The running server\<close>

text \<open>The turns of its threads in any order, clients that send, and anything the other processes do to the queues.\<close>

inductive comm_step :: "comm \<times> tst \<Rightarrow> comm \<times> tst \<Rightarrow> bool" where
  event: "0 \<le> ev_fd ev \<Longrightarrow> room_for (ev_acc ev) c \<Longrightarrow> do_event ev c = Some (Ret c') \<Longrightarrow> comm_step (c, st) (c', st)"
| clean: "clean_time_out_connect now c = Some (Ret c') \<Longrightarrow> comm_step (c, st) (c', st)"
| reader: "idx < nat (cm_num c) \<Longrightarrow> read_task wr idx c st = Returned (t, c') st' \<Longrightarrow> comm_step (c, st) (c', st')"
| writer: "write_task junk wr c st = Returned (t, c') st' \<Longrightarrow> comm_step (c, st) (c', st')"
| client: "comm_step (c, st) (c\<lparr>cm_in := f\<rparr>, st)"
| others: "comm_step (c, st) (c, st')"

lemma comm_step_inv:
  assumes "comm_step (c, st) (c', st')" and "comm_inv T c"
  shows "\<exists>T'. comm_inv T' c'"
  using assms(1)
proof (cases rule: comm_step.cases)
  case event
  then show ?thesis using inv_do_event [OF assms(2)] by simp
next
  case clean
  then show ?thesis using clean_list [OF assms(2)] by simp (metis cres.inject(1) option.inject)
next
  case reader
  then show ?thesis using inv_read_task [OF assms(2)] by simp
next
  case writer
  then show ?thesis using inv_write_task [OF assms(2)] by simp
next
  case client
  then show ?thesis using assms(2) by (auto simp: inv_in)
next
  case others
  then show ?thesis using assms(2) by auto
qed

lemma init_rows_inv:
  assumes "0 < cm_num c" and "cm_num c \<le> 20" and "0 \<le> cm_gssn c"
  shows "comm_inv (\<lambda>i. []) (init_rows c)"
proof -
  let ?f = "\<lambda>c i. upd_row i (\<lambda>r. r\<lparr>connect := (\<lambda>j. if j < MAX_FD_NUM then InitConnect (connect r j) else connect r j)\<rparr>) (CommHandClear i c)"
  have f: "cm_num (foldl ?f c is) = cm_num c" "cm_gssn (foldl ?f c is) = cm_gssn c" for "is" c
    by (induction "is" arbitrary: c) (simp_all add: upd_row_def CommHandClear_def)
  have r: "\<forall>j < MAX_FD_NUM. cn_fd (conn i j (foldl ?f c is)) = -1" if "i \<in> set is \<or> (\<forall>j < MAX_FD_NUM. cn_fd (conn i j c) = -1)" for i "is" c
    using that
  proof (induction "is" arbitrary: c)
    case (Cons k ks)
    have "\<forall>j < MAX_FD_NUM. cn_fd (conn i j (?f c k)) = -1" if "i = k \<or> (\<forall>j < MAX_FD_NUM. cn_fd (conn i j c) = -1)"
      using that by (auto simp: conn_def upd_row_def CommHandClear_def InitConnect_def)
    then show ?case using Cons.IH [of "?f c k"] Cons.prems by auto
  qed simp
  show ?thesis
    using assms f r by (simp add: comm_inv_def row_ok_def row_is_def init_rows_def)
qed


end
