(* ===== verification/CommReqs.thy ===== *)
theory CommReqs
  imports CommSteps
begin

text \<open>
  Requests and replies of the communication server: which message a frame of a client becomes, which frame a reply becomes and
  to whom it goes, what removing a connection and waiting do.
\<close>

section \<open>A server with three connections\<close>

text \<open>Two threads; descriptors 4 and 6 are in row 0, 5 is in row 1, 3 is the listening one; clients may be idle for 60 s.\<close>

definition rows_ex :: "nat \<Rightarrow> connect_handle_t list" where
  "rows_ex i = (if i = 0 then [\<lparr>cn_fd = 4, cn_ssn = 0, cn_utime = 1000, cn_status = FD_STAT_POLL\<rparr>,
       \<lparr>cn_fd = 6, cn_ssn = 2, cn_utime = 1005, cn_status = FD_STAT_REG\<rparr>]
     else [\<lparr>cn_fd = 5, cn_ssn = 1, cn_utime = 1002, cn_status = FD_STAT_REG\<rparr>])"

definition comm_ex :: comm where
  "comm_ex = \<lparr>client_ctrl = (\<lambda>i. \<lparr>cl_num = 1, connect = (\<lambda>j. if j < length (rows_ex i) then rows_ex i ! j
         else \<lparr>cn_fd = -1, cn_ssn = 0, cn_utime = 0, cn_status = -1\<rparr>)\<rparr>),
     cm_num = 2, cm_idletime = 60, cm_port = 8080, cm_svrid = 7, cm_listen = 3, cm_gssn = 3, cm_epoll = {3, 4, 5, 6},
     cm_fds = [3 \<mapsto> fresh_sock, 4 \<mapsto> fresh_sock, 5 \<mapsto> fresh_sock, 6 \<mapsto> fresh_sock], cm_in = (\<lambda>fd. []), cm_out = [],
     cm_wlen = 0, cm_readers = [0, 1], cm_writers = 1\<rparr>"

lemma comm_ex_inv: "comm_inv rows_ex comm_ex"
proof -
  have c: "conn i j comm_ex = (if j < length (rows_ex i) then rows_ex i ! j
      else \<lparr>cn_fd = -1, cn_ssn = 0, cn_utime = 0, cn_status = -1\<rparr>)" for i j
    by (simp add: conn_def comm_ex_def)
  have p: "0 \<le> cn_fd (rows_ex i ! j)" if "j < length (rows_ex i)" for i j
    using that by (auto simp: rows_ex_def less_Suc_eq split: if_splits)
  have "row_is i (rows_ex i) comm_ex" for i
    using p by (auto simp: row_is_def c) (simp add: rows_ex_def MAX_FD_NUM_def)
  moreover have "i < 2 \<Longrightarrow> x \<in> set (rows_ex i) \<Longrightarrow> entry_ok i x comm_ex" for i x
    by (auto simp: entry_ok_def rows_ex_def comm_ex_def less_2_cases_iff split: if_splits)
  moreover have "length (rows_ex i) \<le> 979 \<and> distinct (map cn_fd (rows_ex i)) \<and> distinct (map cn_ssn (rows_ex i))" for i
    by (simp add: rows_ex_def)
  ultimately show ?thesis by (simp add: comm_inv_def row_ok_def comm_ex_def [THEN arg_cong, of cm_num] comm_ex_def [THEN arg_cong, of cm_gssn])
qed

lemma comm_ex_fields [simp]: "cm_num comm_ex = 2" "cm_idletime comm_ex = 60" "cl_num (client_ctrl comm_ex i) = 1" "cm_out comm_ex = []"
  by (simp_all add: comm_ex_def)


section \<open>Removing a connection\<close>

lemma distinct_index: "distinct (map f xs) \<Longrightarrow> j < length xs \<Longrightarrow> k < length xs \<Longrightarrow> f (xs ! j) = f (xs ! k) \<Longrightarrow> j = k"
  by (metis distinct_conv_nth length_map nth_map)

text \<open>Claim C28. Removing a listed connection: when its place in row \<open>i\<close> is at most \<open>i\<close>, its descriptor is closed and exactly its
  entry leaves the row; at every later place the macro \<open>CommClearFd\<close>, which counts with the row instead of the place,
  copies from beyond the row.\<close>

theorem del_connect_fd_place:
  assumes "comm_inv T c" and "i < nat (cm_num c)" and "k < length (T i)" and "fd = cn_fd (T i ! k)"
  shows "if k \<le> i then \<exists>c'. del_connect_fd fd c = Ret (0, c') \<and> comm_inv (T(i := take k (T i) @ drop (Suc k) (T i))) c' \<and>
      cm_fds c' = (cm_fds c)(fd := None) else del_connect_fd fd c = Crash OutOfBounds"
proof -
  note r = comm_inv_row [OF assms(1,2), unfolded row_ok_def]
  have e: "entry_ok i (T i ! k) c" using r assms(3) by simp
  have n: "0 < cm_num c" "cm_num c \<le> 20" using assms(1) by (simp_all add: comm_inv_def)
  have fd: "0 \<le> fd" "fd mod cm_num c = int i" using r assms(3,4) e by (auto simp: row_is_def entry_ok_def)
  have ro: "row_of fd c = Ret i" using row_of_inv [OF assms(1) fd(1)] fd(2) by simp
  define c1 where "c1 = close_fd fd (epoll_del fd c)"
  have r1: "row_is i (T i) c1" using r row_is_cong [of i c1 c] by (simp add: c1_def close_fields)
  have l1: "length (T i) < MAX_FD_NUM" using r by (simp add: MAX_FD_NUM_def)
  define c2 where "c2 = (if cn_status (conn i k c1) = FD_STAT_POLL
     then upd_row k (\<lambda>r. r\<lparr>cl_num := (if cl_num r = 0 then 0 else cl_num r - 1)\<rparr>) c1 else c1)"
  have k2: "cm_num c2 = cm_num c" "cm_gssn c2 = cm_gssn c" "cm_listen c2 = cm_listen c" "cm_fds c2 = (cm_fds c)(fd := None)"
    "cm_epoll c2 = cm_epoll c - {fd}" "\<And>a b. conn a b c2 = conn a b c"
    by (auto simp: c2_def row_simps num_fields c1_def close_fields)
  have i: "i < MAX_FD_NUM" "i < MAX_TREAD_NUM" using assms(2) n by (simp_all add: comm_consts)
  have d: "del_connect_fd fd c = (if cn_status (conn i k c1) = FD_STAT_POLL \<and> k \<ge> MAX_TREAD_NUM then Crash OutOfBounds
      else cbind (CommClearFd i k c2) (\<lambda>c3. Ret (0, c3)))"
  proof (cases rule: scan_stop_row [OF r1 l1, of fd])
    case 1
    then show ?thesis using assms(3,4) by auto
  next
    case (2 j)
    then have "j = k" using r assms(3,4) by (intro distinct_index [of cn_fd "T i"]) auto
    then show ?thesis using 2 by (simp add: del_connect_fd_def ro c1_def [symmetric] Let_def c2_def)
  qed
  show ?thesis
  proof (cases "k \<le> i")
    case True
    then have "\<not> k \<ge> MAX_TREAD_NUM" using i(2) by simp
    moreover from inv_remove [OF assms(1-3) True assms(4) k2(6) k2(1-5)] obtain c' where
      "CommClearFd i k c2 = Ret c'" "comm_inv (T(i := take k (T i) @ drop (Suc k) (T i))) c'" "cm_fds c' = (cm_fds c)(fd := None)"
      using k2(4) by force
    ultimately show ?thesis using True d by auto
  next
    case False
    then have "CommClearFd i k c2 = Crash OutOfBounds" using CommClearFd_crash [OF i(1)] by simp
    then show ?thesis using False d by simp
  qed
qed

theorem del_connect_fd_place_witness:
  "del_connect_fd 6 comm_ex = Crash OutOfBounds \<and> (\<exists>c'. del_connect_fd 4 comm_ex = Ret (0, c') \<and>
     cm_fds c' = (cm_fds comm_ex)(4 := None))"
proof -
  have r: "1 < length (rows_ex 0)" "0 < length (rows_ex 0)" "6 = cn_fd (rows_ex 0 ! 1)" "4 = cn_fd (rows_ex 0 ! 0)" "0 < nat (cm_num comm_ex)"
    by (simp_all add: rows_ex_def)
  show ?thesis
    using del_connect_fd_place [OF comm_ex_inv r(5,1,3)] del_connect_fd_place [OF comm_ex_inv r(5,2,4)] by (simp del: One_nat_def) blast
qed

text \<open>Claim C21. The clean-up after every round of events always ends without a fault, and in every row closes and removes
  exactly the leading connections that are older than the idle time, in order of age as they were accepted.\<close>

theorem clean_time_out_exact:
  assumes "comm_inv T c"
  shows "\<exists>c'. clean_time_out_connect now c = Some (Ret c') \<and> comm_inv (\<lambda>i. dropWhile (expired now c) (T i)) c' \<and>
    cm_fds c' = without (\<Union>i \<in> {..<nat (cm_num c)}. cn_fd ` set (takeWhile (expired now c) (T i))) (cm_fds c)"
  using clean_list [OF assms, of now] by metis

theorem clean_time_out_exact_witness:
  "\<exists>c'. clean_time_out_connect 1062 comm_ex = Some (Ret c') \<and> cm_fds c' 4 = None \<and> cm_fds c' 6 \<noteq> None"
proof -
  have "{..<nat (2::int)} = {0, 1}" by auto
  then show ?thesis
    using clean_time_out_exact [OF comm_ex_inv, of 1062]
    by (auto simp: rows_ex_def expired_def without_def comm_ex_def)
qed

section \<open>Waiting\<close>

lemma wait_loop_value:
  assumes "comm_inv T c" and "set is \<subseteq> {..<nat (cm_num c)}"
    and "\<forall>i \<in> set is. \<forall>x \<in> set (take 1 (T i)). currtime < (cn_utime x + cm_idletime c) mod 2 ^ 32"
  shows "wait_loop is currtime c n 0 = (n + int (length (filter (\<lambda>i. T i \<noteq> []) is)), 0)"
  using assms(2,3)
proof (induction "is" arbitrary: n)
  case (Cons i "is")
  note r = comm_inv_row [OF assms(1), of i, unfolded row_ok_def]
  have h: "cn_fd (conn i 0 c) \<noteq> -1 \<longleftrightarrow> T i \<noteq> []" "T i \<noteq> [] \<Longrightarrow> conn i 0 c = hd (T i)"
    using r Cons.prems(1) by (force simp: row_is_def hd_conv_nth MAX_FD_NUM_def)+
  show ?case
  proof (cases "T i = []")
    case True
    then show ?thesis using Cons h by simp
  next
    case False
    then have "currtime < (cn_utime (conn i 0 c) + cm_idletime c) mod 2 ^ 32"
      using Cons.prems(2) h(2) by (cases "T i") auto
    then show ?thesis using Cons.IH [of "n + 1"] Cons.prems False h(1) by simp
  qed
qed simp

text \<open>While no oldest connection of a row is overdue, the main loop does not wait until one is: it waits for
  ever when there is no connection, and for 50 ms otherwise, whatever the idle time.\<close>

theorem get_wait_time_polls:
  assumes "comm_inv T c"
    and "\<And>i x. i < nat (cm_num c) \<Longrightarrow> x \<in> set (take 1 (T i)) \<Longrightarrow> now mod 2 ^ 32 < (cn_utime x + cm_idletime c) mod 2 ^ 32"
  shows "get_wait_time now c = (if \<exists>i < nat (cm_num c). T i \<noteq> [] then 50 else -1)"
proof -
  have w: "wait_loop [0..<nat (cm_num c)] (now mod 2 ^ 32) c 0 0
      = (int (length (filter (\<lambda>i. T i \<noteq> []) [0..<nat (cm_num c)])), 0)"
  proof -
    have u: "set [0..<nat (cm_num c)] \<subseteq> {..<nat (cm_num c)}" by auto
    have "\<forall>i \<in> set [0..<nat (cm_num c)]. \<forall>x \<in> set (take 1 (T i)). now mod 2 ^ 32 < (cn_utime x + cm_idletime c) mod 2 ^ 32"
      using assms(2) by (metis atLeastLessThan_iff set_upt)
    from wait_loop_value [OF assms(1) u this, of 0] show ?thesis by simp
  qed
  have "filter (\<lambda>i. T i \<noteq> []) [0..<nat (cm_num c)] = [] \<longleftrightarrow> \<not> (\<exists>i < nat (cm_num c). T i \<noteq> [])"
    by (auto simp: filter_empty_conv)
  then show ?thesis unfolding get_wait_time_def w by (simp add: i32_def)
qed

theorem get_wait_time_polls_witness: "get_wait_time 1010 comm_ex = 50"
proof -
  have "get_wait_time 1010 comm_ex = (if \<exists>i < nat (cm_num comm_ex). rows_ex i \<noteq> [] then 50 else -1)"
    by (rule get_wait_time_polls [OF comm_ex_inv]) (auto simp: rows_ex_def split: if_splits)
  then show ?thesis by (auto simp: rows_ex_def)
qed

section \<open>Frames to requests\<close>

definition comm_head :: "string \<Rightarrow> int \<Rightarrow> connect_handle_t \<Rightarrow> int \<Rightarrow> int \<Rightarrow> IPCMsgHead" where
  "comm_head svc fd e ssn n = head_zero\<lparr>ih_name := cstr_in 33 svc, ih_req_msg_type := COMM_S_MSG_TYPE_ROOT, ih_fd := fd,
     ih_ssn := ssn, ih_conn_ssn := cn_ssn e, ih_utime := cn_utime e, ih_reply_flag := REPLY_FLAG_ASYN, ih_len := n\<rparr>"

lemma strip_length: "length (strip s) \<le> length s"
  by (simp add: strip_def strip_left_def) (metis length_dropWhile_le length_rev order_trans)

lemma c_str_le: "length (c_str s) \<le> length s"
  by (simp add: c_str_def length_takeWhile_le)

lemma read_request_frame:
  assumes "req_head_ok rh" and "p = enc_req_head rh @ body" and "length p \<le> 8049"
  shows "read_request fd e (frame p) = Ret (strip (c_str (rh_name rh)), rh,
    enc_head (comm_head (strip (c_str (rh_name rh))) fd e (rh_ssn rh) (int (length body))) @ body @ pad 44)"
proof -
  have l: "length p = 40 + length body" using assms(1,2) by (simp add: enc_req_head_def req_head_ok_def)
  have fl: "length (frame p) = 4 + length p" using assms(3) by (simp add: frame_length)
  have d4: "drop 4 (frame p @ z) = p @ z" for z using assms(3) show_pad_length [of "length p" 4] by (simp add: frame_def)
  have rq: "dec_req_head (p @ z) = rh" for z using req.frame [OF assms(1), of "body @ z"] by (simp add: assms(2))
  have nm: "take TUX_NAME_LEN (rh_name rh) = rh_name rh" using assms(1) by (simp add: req_head_ok_def TUX_NAME_LEN_def)
  have "drop (4 + 40) (frame p @ pad n) = drop 40 (p @ pad n)" for n using d4 [of "pad n"] by (metis drop_drop add.commute)
  moreover have "drop 40 (p @ pad n) = body @ pad n" for n
    using assms(1,2) by (simp add: enc_req_head_def req_head_ok_def)
  ultimately have b0: "drop (4 + 40) (frame p @ pad (8097 - (4 + length p))) = body @ pad (8097 - (4 + length p))" by metis
  have "4 + length p - length body = 44" "44 \<le> 8097 - (4 + length p)" using assms(3) l by linarith+
  then have b: "take (4 + length p) (drop (4 + 40) (frame p @ pad (8097 - (4 + length p)))) = body @ pad 44"
    unfolding b0 using l by (simp add: pad_def)
  have i: "int (4 + length p) - int 4 - int 40 = int (length body)" "\<not> 4 + 40 + (4 + length p) > 8097"
    using l assms(3) by linarith+
  show ?thesis
    unfolding read_request_def Let_def fl SOCKET_MSG_HEAD_LEN_def REQ_HEAD_LEN_def d4 rq nm AllTrim_eq comm_head_def i(1) b
    using i(2) by simp
qed

text \<open>The service a client asks for is known and up; the message fits the queue and the limits.\<close>

definition service_ready :: "sdmem \<Rightarrow> string \<Rightarrow> int \<Rightarrow> nat \<Rightarrow> sys \<Rightarrow> bool" where
  "service_ready m svc t n s \<longleftrightarrow> 0 \<le> tux_locatemb svc m \<and> \<not> svc_down m (nat (tux_locatemb svc m)) \<and>
     st_msg_type (tSvrTab m ! nat (tux_locatemb svc m)) = t \<and> 1 \<le> t \<and> n < BUS_MAX_MSG_LEN \<and>
     int n \<le> mb_max_msg_len (mbctrl m) \<and> has_room (mb_req_que_id (mbctrl m)) n s"

lemma acall_ready:
  assumes "ctl (tp st) (ts st) = Ret m" and "service_ready m svc t (length req) (ts st)" and "req \<noteq> []"
  obtains q where "msq_at (mb_req_que_id (mbctrl m)) (ts st) = Some q"
    and "tux_acall (Some svc) (RawBuf req) (int (length req)) 0 st =
      Returned 0 (st\<lparr>ts := msq_set (mb_req_que_id (mbctrl m)) (q_msgs q @ [req_msg t req]) (ts st)\<rparr>)"
proof -
  have a: "0 \<le> tux_locatemb svc m" "\<not> svc_down m (nat (tux_locatemb svc m))"
    "st_msg_type (tSvrTab m ! nat (tux_locatemb svc m)) = t" "1 \<le> t" "length req < BUS_MAX_MSG_LEN"
    "int (length req) \<le> mb_max_msg_len (mbctrl m)" "has_room (mb_req_que_id (mbctrl m)) (length req) (ts st)"
    using assms(2) unfolding service_ready_def by blast+
  from put_msg_room [of "mb_req_que_id (mbctrl m)" "length req" st "req_msg t req"] obtain q where
    q: "msq_at (mb_req_que_id (mbctrl m)) (ts st) = Some q"
      "put_msg (mb_req_que_id (mbctrl m)) (req_msg t req) (length req) st
        = Returned 0 (st\<lparr>ts := msq_set (mb_req_que_id (mbctrl m)) (q_msgs q @ [req_msg t req]) (ts st)\<rparr>)"
    using a(4,5,7) by (auto simp: req_msg_def)
  have att: "sdIsAttach (tp st)" using assms(1) by (auto simp: sdIsAttach_def ctl_def split: shmptr.splits)
  have "tux_acall (Some svc) (RawBuf req) (int (length req)) 0 st =
      Returned 0 (st\<lparr>ts := msq_set (mb_req_que_id (mbctrl m)) (q_msgs q @ [req_msg t req]) (ts st)\<rparr>)"
    using a(1-3,5,6) assms(1,3) att q(2)
    by (simp add: tux_acall_def arg_len_def mem_def send_req_def)
  then show thesis using that q(1) by blast
qed

lemma cstr_in_length: "length s \<le> n \<Longrightarrow> length (cstr_in n s) = n"
  by (simp add: cstr_in_def)

text \<open>What the table says about the connection a reader takes.\<close>

definition first_poll :: "connect_handle_t list \<Rightarrow> nat \<Rightarrow> bool" where
  "first_poll xs k \<longleftrightarrow> k < length xs \<and> cn_status (xs ! k) = FD_STAT_POLL \<and> (\<forall>j < k. cn_status (xs ! j) \<noteq> FD_STAT_POLL)"

lemma get_read_fd_first:
  assumes "row_is i xs c" and "first_poll xs k"
  shows "get_read_fd i c = int k"
proof -
  have k: "k < length xs" "k < MAX_FD_NUM" using assms by (auto simp: row_is_def first_poll_def)
  have e: "conn i j c = xs ! j" "0 \<le> cn_fd (xs ! j)" if "j < length xs" for j using assms(1) that by (simp_all add: row_is_def)
  have "scan (\<lambda>j. cn_fd (conn i j c) < 0 \<or> cn_status (conn i j c) = FD_STAT_POLL) 0 MAX_FD_NUM = int k"
  proof -
    have "\<not> (cn_fd (conn i j c) < 0 \<or> cn_status (conn i j c) = FD_STAT_POLL)" if "j < k" for j
      using that e [of j] k(1) assms(2) by (simp add: first_poll_def not_less)
    then show ?thesis using k e [OF k(1)] assms(2) by (simp add: scan_some first_poll_def)
  qed
  then show ?thesis using e [OF k(1)] by (simp add: get_read_fd_def)
qed

text \<open>The turn of a reader up to the request.\<close>

lemma read_task_request:
  assumes "comm_inv T c" and "i < nat (cm_num c)" and "cl_num (client_ctrl c i) \<noteq> 0" and "first_poll (T i) k"
    and "fd = cn_fd (T i ! k)" and "flow (cm_in c fd) = frame p @ r" and "p = enc_req_head rh @ body" and "req_head_ok rh"
    and "length p \<le> 8049"
  defines "svc \<equiv> strip (c_str (rh_name rh))"
  defines "req \<equiv> enc_head (comm_head svc fd (T i ! k) (rh_ssn rh) (int (length body))) @ body @ pad 44"
  obtains c3 where "read_task wr i c st = obind (tux_acall (Some svc) (RawBuf req) (int (length req)) 0 st) (\<lambda>rc st.
        if rc \<noteq> 0 then Returned (Again, snd (response_err_req fd (rh\<lparr>rh_err_no := p_errno (tp st)\<rparr>) wr c3)) st
        else Returned (Again, c3) st)"
    and "cm_out c3 = cm_out c" and "flow (cm_in c3 fd) = r"
    and "comm_inv (T(i := (T i)[k := (T i ! k)\<lparr>cn_status := FD_STAT_READ\<rparr>])) c3"
proof -
  note r = comm_inv_row [OF assms(1,2), unfolded row_ok_def]
  have k: "k < length (T i)" using assms(4) by (simp add: first_poll_def)
  have g: "get_read_fd i c = int k" using get_read_fd_first [of i "T i" c k] r assms(4) by blast
  have e: "conn i k c = T i ! k" using r k by (simp add: row_is_def)
  define c1 where "c1 = upd_conn i k (\<lambda>h. h\<lparr>cn_status := FD_STAT_READ\<rparr>) c"
  define c2 where "c2 = upd_row i (\<lambda>r. r\<lparr>cl_num := i32 (cl_num r - 1)\<rparr>) c1"
  let ?x = "(T i ! k)\<lparr>cn_status := FD_STAT_READ\<rparr>"
  have cx: "conn i k c1 = ?x" "cn_fd ?x = fd" by (simp_all add: c1_def conn_upd_conn e assms(5))
  have in2: "cm_in c2 = cm_in c" "cm_out c2 = cm_out c" by (simp_all add: c2_def c1_def upd_conn_def upd_row_def)
  have p: "p \<noteq> []" "length p \<le> 9999" using assms(7-9) by (auto simp: enc_req_head_def req_head_ok_def)
  obtain s' where s': "flow s' = r" "RcvTxnMsg 8097 4 (cm_in c fd) = Ret (0, frame p, s')"
    using RcvTxnMsg_reads [OF assms(6) p, of 8097] assms(9) by auto
  define c3 where "c3 = c2\<lparr>cm_in := (cm_in c2)(fd := s')\<rparr>"
  have rr: "read_request fd ?x (frame p) = Ret (svc, rh, req)"
    using read_request_frame [OF assms(8,7,9), of fd ?x] by (simp add: svc_def req_def comm_head_def)
  have "read_task wr i c st = obind (tux_acall (Some svc) (RawBuf req) (int (length req)) 0 st) (\<lambda>rc st.
        if rc \<noteq> 0 then Returned (Again, snd (response_err_req fd (rh\<lparr>rh_err_no := p_errno (tp st)\<rparr>) wr c3)) st
        else Returned (Again, c3) st)"
    using assms(3) unfolding read_task_def g Let_def nat_int c1_def [symmetric] cx c2_def [symmetric] in2(1)
      c3_def by (simp add: s'(2) SOCKET_MSG_HEAD_LEN_def rr in2(1))
  moreover have "comm_inv (T(i := (T i)[k := ?x])) c3"
    using inv_touch [OF assms(1,2) k, of "\<lambda>h. h\<lparr>cn_status := FD_STAT_READ\<rparr>"]
    by (simp add: c3_def c2_def c1_def inv_num inv_in)
  ultimately show thesis using that s'(1) by (simp add: c3_def in2)
qed

text \<open>Claim C6. A frame of a client, however the network cut it, becomes exactly one request: the reader takes the first connection
  with data, and appends to the request queue a message of the service named in the frame, whose header carries the
  descriptor, the connection's serial number and the client's own number; the body of the frame follows, and 44 bytes
  of the receive buffer too many. Nothing is written to the client.\<close>

theorem read_task_frame:
  assumes "comm_inv T c" and "i < nat (cm_num c)" and "cl_num (client_ctrl c i) \<noteq> 0" and "first_poll (T i) k"
    and "flow (cm_in c (cn_fd (T i ! k))) = frame (enc_req_head rh @ body) @ r" and "req_head_ok rh" and "length body \<le> 3900"
    and "ctl (tp st) (ts st) = Ret m" and "service_ready m (strip (c_str (rh_name rh))) t (140 + length body) (ts st)"
  shows "\<exists>q c'. msq_at (mb_req_que_id (mbctrl m)) (ts st) = Some q \<and>
    read_task wr i c st = Returned (Again, c') (st\<lparr>ts := msq_set (mb_req_que_id (mbctrl m)) (q_msgs q @ [req_msg t
      (enc_head (comm_head (strip (c_str (rh_name rh))) (cn_fd (T i ! k)) (T i ! k) (rh_ssn rh) (int (length body))) @ body @ pad 44)])
      (ts st)\<rparr>) \<and>
    cm_out c' = cm_out c \<and> flow (cm_in c' (cn_fd (T i ! k))) = r"
proof -
  let ?svc = "strip (c_str (rh_name rh))"
  let ?req = "enc_head (comm_head ?svc (cn_fd (T i ! k)) (T i ! k) (rh_ssn rh) (int (length body))) @ body @ pad 44"
  have "length ?svc \<le> 33"
    using strip_length [of "c_str (rh_name rh)"] c_str_le [of "rh_name rh"] assms(6) by (simp add: req_head_ok_def)
  then have "length ?req = 140 + length body" by (simp add: comm_head_def cstr_in_length)
  then have sr: "service_ready m ?svc t (length ?req) (ts st)" using assms(9) by simp
  have l: "length (enc_req_head rh @ body) \<le> 8049" using assms(6,7) by (simp add: enc_req_head_def req_head_ok_def)
  have ne: "?req \<noteq> []" by (simp add: pad_def)
  obtain q where q: "msq_at (mb_req_que_id (mbctrl m)) (ts st) = Some q"
    "tux_acall (Some ?svc) (RawBuf ?req) (int (length ?req)) 0 st =
      Returned 0 (st\<lparr>ts := msq_set (mb_req_que_id (mbctrl m)) (q_msgs q @ [req_msg t ?req]) (ts st)\<rparr>)"
    by (rule acall_ready [OF assms(8) sr ne])
  obtain c3 where c3: "read_task wr i c st = obind (tux_acall (Some ?svc) (RawBuf ?req) (int (length ?req)) 0 st) (\<lambda>rc st.
        if rc \<noteq> 0 then Returned (Again, snd (response_err_req (cn_fd (T i ! k)) (rh\<lparr>rh_err_no := p_errno (tp st)\<rparr>) wr c3)) st
        else Returned (Again, c3) st)"
    "cm_out c3 = cm_out c" "flow (cm_in c3 (cn_fd (T i ! k))) = r"
    by (rule read_task_request [OF assms(1-4) refl assms(5) refl assms(6) l])
  show ?thesis
    using q(1) c3(2,3) unfolding c3(1) q(2) by auto
qed

section \<open>Replies to frames\<close>

lemma reply_frame_frame:
  assumes "head_ok h" and "length body \<le> 9000" and "length (enc_head h @ body) + n = 10241"
  shows "reply_frame ((enc_head h @ body) @ pad n) (int (length (enc_head h @ body))) = Ret (h,
    frame (enc_req_head \<lparr>rh_name = take TUX_NAME_LEN (ih_name h), rh_ssn = ih_ssn h, rh_err_no = 0\<rparr> @ body))"
proof -
  define e where "e = enc_req_head \<lparr>rh_name = take TUX_NAME_LEN (ih_name h), rh_ssn = ih_ssn h, rh_err_no = 0\<rparr>"
  have le: "length e = 40" using assms(1) by (simp add: e_def enc_req_head_def head_ok_def TUX_NAME_LEN_def)
  have lh: "length (enc_head h) = 96" using assms(1) by (simp add: head_ok_def)
  have d: "dec_head ((enc_head h @ body) @ pad n) = h" "drop HEAD_LEN ((enc_head h @ body) @ pad n) = body @ pad n"
    using ipc.frame [OF assms(1), of "body @ pad n"] by simp_all
  have i: "i32 (int (length (enc_head h @ body)) - int HEAD_LEN + int REQ_HEAD_LEN) = int (40 + length body)"
    using assms(2) lh by (simp add: i32_id in_i32_def HEAD_LEN_def REQ_HEAD_LEN_def)
  have n: "40 \<le> n" using assms(2,3) lh by simp
  have sp: "length (show_pad 4 (40 + length body)) = 4" using assms(2) by (simp add: show_pad_length)
  have t: "take (40 + length body) (body @ pad n) = body @ pad 40" using n by (simp add: pad_def)
  have f: "take (40 + length body + 4) (show_pad 4 (40 + length body) @ e @ body @ pad 40) = frame (e @ body)"
    using sp le by (simp add: frame_def)
  have c: "\<not> (int (40 + length body) < 0 \<or> int (40 + length body) + int 40 + int 4 > 10241)"
    "\<not> int (40 + length body) + int 96 > 10241"
    using assms(2) by simp_all
  have t4: "take 4 (show_pad 4 (40 + length body)) = show_pad 4 (40 + length body)" using sp by simp
  have "reply_frame ((enc_head h @ body) @ pad n) (int (length (enc_head h @ body))) =
      Ret (h, take (40 + length body + 4) (take 4 (show_pad 4 (40 + length body)) @ e @ take (40 + length body) (body @ pad n)))"
    unfolding reply_frame_def d i Let_def e_def [symmetric] nat_int
    unfolding SOCKET_MSG_HEAD_LEN_def REQ_HEAD_LEN_def HEAD_LEN_def if_not_P [OF c(1)] if_not_P [OF c(2)] by (rule refl)
  then show ?thesis by (simp only: t4 t f e_def [symmetric])
qed

text \<open>What the writer sends for a reply.\<close>

definition client_frame :: "IPCMsgHead \<Rightarrow> string \<Rightarrow> string" where
  "client_frame h body = frame (enc_req_head \<lparr>rh_name = take TUX_NAME_LEN (ih_name h), rh_ssn = ih_ssn h, rh_err_no = 0\<rparr> @ body)"

lemma send_frame:
  assumes "fst (WriteSocket (client_frame h body) (int (length (client_frame h body))) wr) = 0"
  shows "cm_out (snd (send_out fd (client_frame h body) wr d)) = cm_out d @ [(fd, client_frame h body)]"
proof -
  have ne: "0 < length (client_frame h body)" using show_pad_nonempty by (simp add: client_frame_def frame_def)
  have "snd (WriteSocket (client_frame h body) (int (length (client_frame h body))) wr) = client_frame h body"
    using assms ne write_loop_out [of "client_frame h body" wr] by (simp add: WriteSocket_def)
  then show ?thesis using ne by (simp add: send_out_def case_prod_beta)
qed


section \<open>One request and its reply\<close>

definition rh_ex :: sunda_req_head_t where
  "rh_ex = \<lparr>rh_name = ''TEST'' @ pad 28, rh_ssn = 9, rh_err_no = 0\<rparr>"

definition comm_req :: comm where
  "comm_req = comm_ex\<lparr>cm_in := (\<lambda>fd. [Data (frame (enc_req_head rh_ex @ ''hi''))])\<rparr>"

lemma rh_ex_name: "strip (c_str (rh_name rh_ex)) = ''TEST''"
  by code_simp

theorem read_task_frame_witness:
  "\<exists>c' st'. read_task [] 0 comm_req st_test = Returned (Again, c') st' \<and> mbox 5 (ts st') 300007 =
     [req_msg 300007 (enc_head (comm_head ''TEST'' 4 (rows_ex 0 ! 0) 9 2) @ ''hi'' @ pad 44)]"
proof -
  let ?p = "enc_req_head rh_ex @ ''hi''"
  have "frame ?p \<noteq> []" using show_pad_nonempty by (simp add: frame_def)
  then have f: "flow (cm_in comm_req (cn_fd (rows_ex 0 ! 0))) = frame ?p @ []" by (simp add: comm_req_def)
  have i: "comm_inv rows_ex comm_req" using comm_ex_inv by (simp add: comm_req_def inv_in)
  have sr: "service_ready mem_test (strip (c_str (rh_name rh_ex))) 300007 (140 + length ''hi'') (ts st_test)"
    unfolding rh_ex_name by code_simp
  have "req_head_ok rh_ex" by code_simp
  moreover have "0 < nat (cm_num comm_req)" "cl_num (client_ctrl comm_req 0) \<noteq> 0" by (simp_all add: comm_req_def)
  moreover have "first_poll (rows_ex 0) 0" by (simp add: first_poll_def rows_ex_def)
  ultimately obtain q c' where q: "msq_at (mb_req_que_id (mbctrl mem_test)) (ts st_test) = Some q"
    "read_task [] 0 comm_req st_test = Returned (Again, c') (st_test\<lparr>ts := msq_set (mb_req_que_id (mbctrl mem_test))
      (q_msgs q @ [req_msg 300007 (enc_head (comm_head (strip (c_str (rh_name rh_ex))) (cn_fd (rows_ex 0 ! 0)) (rows_ex 0 ! 0)
       (rh_ssn rh_ex) (int (length ''hi''))) @ ''hi'' @ pad 44)]) (ts st_test)\<rparr>)"
    using read_task_frame [OF i _ _ _ f _ _ test_mem(1) sr, of "[]"] by auto
  have m: "mb_req_que_id (mbctrl mem_test) = 5" by code_simp
  have "q_msgs q = []" using q(1) unfolding m by (auto simp: st_test_def msq_at_def)
  then show ?thesis
    using q unfolding m rh_ex_name by (simp add: mbox_def msq_at_set req_msg_def rows_ex_def rh_ex_def)
qed

definition head_ex :: "int \<Rightarrow> IPCMsgHead" where
  "head_ex n = comm_head ''TEST'' 4 ((rows_ex 0 ! 0)\<lparr>cn_ssn := n\<rparr>) 9 4"

definition st_reply :: "int \<Rightarrow> tst" where
  "st_reply n = st_test\<lparr>ts := msq_set 6 [\<lparr>m_type = 100000, m_source = 0, m_buf = enc_head (head_ex n) @ ''done''\<rparr>] (ts st_test)\<rparr>"

lemma head_ex_ok: "n = 0 \<or> n = 77 \<Longrightarrow> head_ok (head_ex n)"
  by (elim disjE) (simp_all, code_simp+)

lemma st_reply_box: "mbox (mb_rsp_que_id (mbctrl mem_test)) (ts (st_reply n)) COMM_S_MSG_TYPE_ROOT =
    [\<lparr>m_type = 100000, m_source = 0, m_buf = enc_head (head_ex n) @ ''done''\<rparr>]"
proof -
  have m: "mb_rsp_que_id (mbctrl mem_test) = 6" by code_simp
  have "msq_at 6 (ts st_test) \<noteq> None" by (simp add: st_test_def msq_at_def)
  then show ?thesis unfolding m by (auto simp: st_reply_def mbox_def msq_at_set COMM_S_MSG_TYPE_ROOT_def)
qed


end
