(* ===== verification/CommShort.thy ===== *)
theory CommShort
  imports CommReqs
begin

text \<open>
  The communication server for short connections, \<open>src/dev/src/comm/C001/C001.c\<close>: a parent process accepts connections and
  forks a child for each; the child reads one frame, calls the service with \<open>tux_call\<close>, writes the answer and ends. Names
  that \<open>commserver.c\<close> uses as well have the suffix \<open>_s\<close>.

  \<open>short\<close> holds the variables of the parent: the table \<open>gpidSonPid\<close> of children (process id and descriptor), its descriptors,
  and the signals it sent. The lemmas show that a request gets exactly the service's answer, and that the table never
  holds a child.
\<close>

section \<open>The parent process\<close>

definition MAX_CHILD_NUM :: nat where "MAX_CHILD_NUM = 5000"

record short =
  gpidSonPid :: "(int \<times> int) list"
  giLocPort :: int
  nChdNum :: int
  gSvrId :: int
  giLstnScktId :: int
  ss_fds :: fds
  ss_sigs :: "(int \<times> int) list"

text \<open>The variables are static: zero before \<open>main\<close>.\<close>

definition short0 :: short where
  "short0 = \<lparr>gpidSonPid = replicate MAX_CHILD_NUM (0, 0), giLocPort = 0, nChdNum = 0, gSvrId = 0, giLstnScktId = 0,
     ss_fds = Map.empty, ss_sigs = []\<rparr>"

text \<open>The handler of \<open>SIGCLD\<close>: \<open>nPid\<close> is what the first \<open>waitpid\<close> returns. The loop is left after one child, whether or not
  the table has it.\<close>

definition child_exit_s :: "int \<Rightarrow> short \<Rightarrow> short" where
  "child_exit_s nPid s =
     (if nPid \<le> 0 then s
      else let i = scan (\<lambda>i. fst (gpidSonPid s ! i) = nPid) 0 MAX_CHILD_NUM
           in if i < 0 then s else s\<lparr>gpidSonPid := (gpidSonPid s)[nat i := (-1, -1)]\<rparr>)"

text \<open>The handler of \<open>SIGTERM\<close>, before \<open>exit(1)\<close>.\<close>

definition main_exit_s :: "short \<Rightarrow> short" where
  "main_exit_s s =
     (let sons = filter (\<lambda>e. fst e > 0) (gpidSonPid s);
          fds = foldl (\<lambda>n e. snd (CloseSocket (snd e) n)) (ss_fds s) sons
      in s\<lparr>ss_sigs := ss_sigs s @ map (\<lambda>e. (fst e, SIGTERM)) sons, ss_fds := snd (CloseSocket (giLstnScktId s) fds)\<rparr>)"

text \<open>Every free entry gets the child: the loop goes on behind the first.\<close>

definition reg_child :: "int \<Rightarrow> int \<Rightarrow> short \<Rightarrow> short" where
  "reg_child nPid socket_id s =
     s\<lparr>gpidSonPid := map (\<lambda>e. if fst e = -1 then (nPid, socket_id) else e) (gpidSonPid s)\<rparr>"

fun apply_opts_s :: "(char \<times> string) list \<Rightarrow> short \<Rightarrow> short" where
  "apply_opts_s [] s = s"
| "apply_opts_s ((ch, optarg) # os) s =
     apply_opts_s os (if ch = CHR ''p'' then s\<lparr>giLocPort := atoi optarg\<rparr> else s)"

definition comm_init_s :: "int \<Rightarrow> string list \<Rightarrow> short \<Rightarrow> tst \<Rightarrow> (int \<times> short) out" where
  "comm_init_s qjunk argv s st =
     (if length argv < 4 then Returned (-1, s) st
      else if atol (argv ! 1) \<noteq> p_pid (tp st) then Returned (-1, s) st
      else let s = apply_opts_s (getopt_all ''p'' (drop 4 argv)) (s\<lparr>gSvrId := atoi (argv ! 3)\<rparr>)
           in obind (lift_ps (ipc_connect qjunk) st) (\<lambda>iRet st.
                if iRet \<noteq> 0 then Returned (-1, s) st else Returned (0, s\<lparr>nChdNum := 0\<rparr>) st))"

text \<open>\<open>main\<close> up to its loop.\<close>

definition main_start_s :: "start_env \<Rightarrow> string list \<Rightarrow> short \<Rightarrow> tst \<Rightarrow> short out" where
  "main_start_s e argv s st =
     obind (comm_init_s (se_qjunk e) argv s st) (\<lambda>(iRet, s) st.
       if iRet \<noteq> 0 then Exited 1 st
       else let (iRet, lsock, fds) = CreateSocket (giLocPort s) 9999 0 (se_sockets e) (se_binds e) (se_opts e) (se_junk e) (ss_fds s);
                s = s\<lparr>giLstnScktId := lsock, ss_fds := fds\<rparr>
            in if iRet \<noteq> 0 then Exited (-1) st else Returned s st)"

text \<open>One turn of the loop of \<open>main\<close>: \<open>acc\<close> are the results of \<open>accept\<close>, \<open>nPid\<close> that of \<open>fork\<close>. A child goes on with
  \<open>child_proc\<close> on its connection; \<open>None\<close> is a turn that still waits for a connection.\<close>

datatype role = Parent short | Child int

definition main_turn_s :: "int list \<Rightarrow> int \<Rightarrow> short \<Rightarrow> role option" where
  "main_turn_s acc nPid s =
     (case AcceptSocket acc of
        None \<Rightarrow> None
      | Some (iRet, fd) \<Rightarrow>
          let open_fds = (ss_fds s)(fd \<mapsto> fresh_sock); closed = snd (CloseSocket fd open_fds)
          in if iRet \<noteq> 0 then Some (Parent (s\<lparr>ss_fds := closed\<rparr>))
             else if nPid < 0 then Some (Parent (s\<lparr>ss_fds := closed\<rparr>))
             else if nPid = 0 then Some (Child fd)
             else Some (Parent ((reg_child nPid fd (s\<lparr>nChdNum := i32 (nChdNum s + 1)\<rparr>))\<lparr>ss_fds := closed\<rparr>)))"

section \<open>The child process\<close>

definition pack_err_rsp :: "sunda_req_head_t \<Rightarrow> string" where
  "pack_err_rsp req_head = show_pad SOCKET_MSG_HEAD_LEN REQ_HEAD_LEN @ enc_req_head (req_head\<lparr>rh_err_no := 99\<rparr>)"

text \<open>
  \<open>frm\<close> is the frame in the zeroed receive buffer of 8097 bytes. The result is the return value and what was written to the
  answer buffer of 8097 bytes; a frame shorter than its header gives \<open>memcpy\<close> a negative length.
\<close>

definition call_svr :: "bool \<Rightarrow> string \<Rightarrow> tst \<Rightarrow> (int \<times> string) out" where
  "call_svr late frm st =
     (let iBufLen = length frm;
          src = frm @ pad (8097 - iBufLen);
          req_head = dec_req_head (drop SOCKET_MSG_HEAD_LEN src);
          sSvcName = AllTrim (c_str (take TUX_NAME_LEN (rh_name req_head)));
          len = int iBufLen - int SOCKET_MSG_HEAD_LEN - int REQ_HEAD_LEN;
          h = head_zero\<lparr>ih_name := cstr_in 33 sSvcName, ih_req_msg_type := p_pid (tp st), ih_fd := 0,
            ih_ssn := rh_ssn req_head, ih_utime := sd_now (ts st), ih_reply_flag := REPLY_FLAG_ASYN, ih_len := len\<rparr>;
          st = st\<lparr>tp := (tp st)\<lparr>p_head := h\<rparr>\<rparr>
      in if len < 0 then Faulted BufOverflow
         else let req = enc_head h @ take (nat len) (drop (SOCKET_MSG_HEAD_LEN + REQ_HEAD_LEN) src)
              in obind (tux_call 10241 late (Some sSvcName) (RawBuf req) (int (length req)) 0 st) (\<lambda>(iRet, rsp) st.
                   if iRet \<noteq> 0 then Returned (-1, pack_err_rsp req_head) st
                   else let b = (case rsp of None \<Rightarrow> [] | Some b \<Rightarrow> b);
                            iLen = int (length b) - int HEAD_LEN + int REQ_HEAD_LEN
                        in if length b < HEAD_LEN \<or> iLen + int SOCKET_MSG_HEAD_LEN > 8097 then Faulted BufOverflow
                           else Returned (0, take SOCKET_MSG_HEAD_LEN (show_pad SOCKET_MSG_HEAD_LEN (nat iLen))
                                  @ enc_req_head (req_head\<lparr>rh_err_no := 0\<rparr>) @ drop HEAD_LEN b) st))"

text \<open>\<open>inp\<close> is what the connection delivers, \<open>wr\<close> the results of \<open>write\<close>; the bytes that went out come with the result.\<close>

definition child_proc :: "bool \<Rightarrow> rd list \<Rightarrow> int list \<Rightarrow> tst \<Rightarrow> (int \<times> string) out" where
  "child_proc late inp wr st =
     obind (of_cres (RcvTxnMsg 8097 (int SOCKET_MSG_HEAD_LEN) inp) st) (\<lambda>(iRet, frm, inp') st.
       if iRet \<noteq> 0 then Returned (-1, []) st
       else obind (call_svr late frm st) (\<lambda>(iRet, rsp) st.
            if iRet \<noteq> 0 then Returned (-1, []) st
            else let (iRet, out) = WriteSocket rsp (int (length rsp)) wr
                 in Returned (if iRet < 0 then -1 else 0, out) st))"

section \<open>The frame of a request\<close>

definition short_head :: "int \<Rightarrow> int \<Rightarrow> string \<Rightarrow> int \<Rightarrow> int \<Rightarrow> IPCMsgHead" where
  "short_head pid now svc ssn n = head_zero\<lparr>ih_name := cstr_in 33 svc, ih_req_msg_type := pid, ih_fd := 0,
     ih_ssn := ssn, ih_utime := now, ih_reply_flag := REPLY_FLAG_ASYN, ih_len := n\<rparr>"

text \<open>The state of a process that filled \<open>gipcMsgHead\<close>.\<close>

abbreviation with_head :: "IPCMsgHead \<Rightarrow> tst \<Rightarrow> tst" where
  "with_head h st \<equiv> st\<lparr>tp := (tp st)\<lparr>p_head := h\<rparr>\<rparr>"

text \<open>What the parts of a received frame are, for any receiver with a buffer of 8097 bytes.\<close>

lemma frame_parts:
  assumes "req_head_ok rh" and "p = enc_req_head rh @ body" and "length p \<le> 8049"
  shows "length (frame p) = 4 + length p" "dec_req_head (drop 4 (frame p @ z)) = rh"
    "take TUX_NAME_LEN (rh_name rh) = rh_name rh" "length p = 40 + length body"
    "drop 44 (frame p @ z) = body @ z"
proof -
  show "length (frame p) = 4 + length p" using assms(3) by (simp add: frame_length)
  have d4: "drop 4 (frame p @ z) = p @ z" using assms(3) show_pad_length [of "length p" 4] by (simp add: frame_def)
  show "dec_req_head (drop 4 (frame p @ z)) = rh" unfolding d4 using req.frame [OF assms(1), of "body @ z"] by (simp add: assms(2))
  show "take TUX_NAME_LEN (rh_name rh) = rh_name rh" using assms(1) by (simp add: req_head_ok_def TUX_NAME_LEN_def)
  show "length p = 40 + length body" using assms(1,2) by (simp add: enc_req_head_def req_head_ok_def)
  have "drop 44 x = drop 40 (drop 4 x)" for x :: string by simp
  then have "drop 44 (frame p @ z) = drop 40 (drop 4 (frame p @ z))" .
  also have "\<dots> = body @ z" unfolding d4 using assms(1,2) by (simp add: enc_req_head_def req_head_ok_def)
  finally show "drop 44 (frame p @ z) = body @ z" .
qed

lemma call_svr_frame:
  assumes "req_head_ok rh" and "length body \<le> 8000" and "svc = strip (c_str (rh_name rh))"
    and "h = short_head (p_pid (tp st)) (sd_now (ts st)) svc (rh_ssn rh) (int (length body))"
  shows "call_svr late (frame (enc_req_head rh @ body)) st =
    obind (tux_call 10241 late (Some svc) (RawBuf (enc_head h @ body)) (int (length (enc_head h @ body))) 0 (with_head h st))
      (\<lambda>(iRet, rsp) st.
         if iRet \<noteq> 0 then Returned (-1, pack_err_rsp rh) st
         else let b = (case rsp of None \<Rightarrow> [] | Some b \<Rightarrow> b);
                  iLen = int (length b) - int HEAD_LEN + int REQ_HEAD_LEN
              in if length b < HEAD_LEN \<or> iLen + int SOCKET_MSG_HEAD_LEN > 8097 then Faulted BufOverflow
                 else Returned (0, take SOCKET_MSG_HEAD_LEN (show_pad SOCKET_MSG_HEAD_LEN (nat iLen))
                        @ enc_req_head (rh\<lparr>rh_err_no := 0\<rparr>) @ drop HEAD_LEN b) st)"
proof -
  let ?p = "enc_req_head rh @ body"
  have lp: "length ?p = 40 + length body" using assms(1) by (simp add: enc_req_head_def req_head_ok_def)
  then have le: "length ?p \<le> 8049" using assms(2) by linarith
  note f = frame_parts [OF assms(1) refl le]
  have n: "int (length (frame ?p)) - 4 - 40 = int (length body)" using f(1,4) by linarith
  show ?thesis
    unfolding call_svr_def Let_def SOCKET_MSG_HEAD_LEN_def REQ_HEAD_LEN_def of_nat_numeral n add_numeral_left numeral_plus_numeral
      semiring_norm f(2,3,5) AllTrim_eq assms(3,4) short_head_def
    by simp
qed

lemma WriteSocket_all:
  assumes "fst (WriteSocket b (int (length b)) wr) = 0"
  shows "WriteSocket b (int (length b)) wr = (0, b)"
proof -
  have "0 < length b" using assms by (auto simp: WriteSocket_def)
  then have "snd (WriteSocket b (int (length b)) wr) = b"
    using assms write_loop_out [of b wr] by (simp add: WriteSocket_def)
  then show ?thesis using assms by (metis prod.collapse)
qed

lemma WriteSocket_once:
  assumes "b \<noteq> []" and "length b \<le> nat k"
  shows "fst (WriteSocket b (int (length b)) (k # ws)) = 0"
proof -
  have "0 < length b" using assms(1) by simp
  then show ?thesis using assms(2) by (auto simp: WriteSocket_def)
qed

text \<open>A request of a client on the connection of a child.\<close>

definition asked :: "rd list \<Rightarrow> sunda_req_head_t \<Rightarrow> string \<Rightarrow> bool" where
  "asked inp rh body \<longleftrightarrow> (\<exists>r. flow inp = frame (enc_req_head rh @ body) @ r) \<and> req_head_ok rh \<and> length body \<le> 8000"

lemma child_asks:
  assumes "asked inp rh body"
  shows "child_proc late inp wr st =
    obind (call_svr late (frame (enc_req_head rh @ body)) st) (\<lambda>(iRet, rsp) st.
      if iRet \<noteq> 0 then Returned (-1, []) st
      else let (iRet, out) = WriteSocket rsp (int (length rsp)) wr
           in Returned (if iRet < 0 then -1 else 0, out) st)"
proof -
  let ?p = "enc_req_head rh @ body"
  obtain r where r: "flow inp = frame ?p @ r" "req_head_ok rh" "length body \<le> 8000" using assms by (auto simp: asked_def)
  have lp: "length ?p = 40 + length body" using r(2) by (simp add: enc_req_head_def req_head_ok_def)
  then have p: "?p \<noteq> []" "length ?p \<le> 9999" "\<not> 8097 < 4 + length ?p" using r(3) by fastforce+
  obtain s' where "RcvTxnMsg 8097 4 inp = Ret (0, frame ?p, s')"
    using RcvTxnMsg_reads [OF r(1) p(1,2), of 8097] p(3) by auto
  then show ?thesis by (simp add: child_proc_def SOCKET_MSG_HEAD_LEN_def)
qed

definition short_answer :: "sunda_req_head_t \<Rightarrow> string \<Rightarrow> string" where
  "short_answer rh r = frame (enc_req_head (rh\<lparr>rh_err_no := 0\<rparr>) @ r)"

lemma call_svr_answer:
  assumes "req_head_ok rh" and "length body \<le> 8000" and "svc = strip (c_str (rh_name rh))"
    and "h = short_head (p_pid (tp st)) (sd_now (ts st)) svc (rh_ssn rh) (int (length body))"
    and "tux_call 10241 late (Some svc) (RawBuf (enc_head h @ body)) (int (length (enc_head h @ body))) 0 (with_head h st)
      = Returned (0, Some (enc_head h' @ r)) c'"
    and "length (enc_head h') = HEAD_LEN" and "length r \<le> 4000"
  shows "call_svr late (frame (enc_req_head rh @ body)) st = Returned (0, short_answer rh r) c'"
proof -
  have l: "length (enc_head h' @ r) = 96 + length r" using assms(6) by (simp add: HEAD_LEN_def)
  have e: "length (enc_req_head (rh\<lparr>rh_err_no := 0\<rparr>)) = 40" using assms(1) by (simp add: enc_req_head_def req_head_ok_def)
  have le: "length (enc_req_head (rh\<lparr>rh_err_no := 0\<rparr>) @ r) = 40 + length r" using e by simp
  have n: "nat (int (length (enc_head h' @ r)) - int HEAD_LEN + int REQ_HEAD_LEN) = 40 + length r"
    unfolding l HEAD_LEN_def REQ_HEAD_LEN_def by simp
  have d: "drop HEAD_LEN (enc_head h' @ r) = r" using assms(6) by simp
  have b: "\<not> (96 + length r < 96 \<or> int (96 + length r) - 96 + 40 + 4 > 8097)" using assms(7) by linarith
  have t: "take 4 (show_pad 4 (40 + length r)) = show_pad 4 (40 + length r)" using assms(7) by (simp add: show_pad_length)
  show ?thesis
    unfolding call_svr_frame [OF assms(1-4)] assms(5) obind.simps prod.case option.case Let_def n d
    using b by (simp add: l t le HEAD_LEN_def REQ_HEAD_LEN_def SOCKET_MSG_HEAD_LEN_def short_answer_def frame_def del: length_append)
qed

section \<open>Children are never registered\<close>

text \<open>The parent after its start, with any connections, forks and deaths of children.\<close>

inductive short_reach :: "short \<Rightarrow> bool" where
  start: "main_start_s e argv short0 st = Returned s st' \<Longrightarrow> short_reach s"
| connection: "\<lbrakk>short_reach s; main_turn_s acc nPid s = Some (Parent s')\<rbrakk> \<Longrightarrow> short_reach s'"
| death: "short_reach s \<Longrightarrow> short_reach (child_exit_s nPid s)"

definition no_sons :: "short \<Rightarrow> bool" where
  "no_sons s \<longleftrightarrow> gpidSonPid s = replicate MAX_CHILD_NUM (0, 0) \<and> ss_sigs s = []"

lemma opts_sons: "gpidSonPid (apply_opts_s os s) = gpidSonPid s \<and> ss_sigs (apply_opts_s os s) = ss_sigs s"
  by (induction os s rule: apply_opts_s.induct) auto

lemma start_no_sons: "main_start_s e argv short0 st = Returned s st' \<Longrightarrow> no_sons s"
  by (auto simp: main_start_s_def comm_init_s_def Let_def no_sons_def opts_sons short0_def obind_Ret
      split: if_splits prod.splits)

lemma turn_no_sons: "no_sons s \<Longrightarrow> main_turn_s acc nPid s = Some (Parent s') \<Longrightarrow> no_sons s'"
  by (auto simp: main_turn_s_def Let_def no_sons_def reg_child_def split: option.splits if_splits)

lemma death_no_sons: "no_sons s \<Longrightarrow> no_sons (child_exit_s nPid s)"
proof -
  assume s: "no_sons s"
  have "scan (\<lambda>i. fst (gpidSonPid s ! i) = nPid) 0 MAX_CHILD_NUM < 0" if "nPid > 0"
    unfolding scan_neg_iff scan_none using s that by (auto simp: no_sons_def)
  then show ?thesis using s by (auto simp: child_exit_s_def no_sons_def)
qed

lemma reach_no_sons: "short_reach s \<Longrightarrow> no_sons s"
  by (induction rule: short_reach.induct) (auto intro: start_no_sons turn_no_sons death_no_sons)

section \<open>Connecting to a running system\<close>

lemma msgget_known:
  "find (\<lambda>q. q_key q = key) (k_msq k) = Some q \<Longrightarrow> key \<noteq> IPC_PRIVATE \<Longrightarrow> msgget key c k = (q_id q, k)"
  by (simp add: msgget_def)

lemma que_connect_known:
  assumes "ctl p s = Ret m"
    and "find (\<lambda>q. q_key q = mb_req_que (mbctrl m)) (k_msq s) = Some a" "mb_req_que (mbctrl m) \<noteq> IPC_PRIVATE" "0 \<le> q_id a"
    and "find (\<lambda>q. q_key q = mb_rsp_que (mbctrl m)) (k_msq s) = Some b" "0 < mb_rsp_que (mbctrl m)"
  shows "\<exists>s'. que_connect junk p s = Ret (junk, p, s')"
  using assms msgget_known [OF assms(2,3), of False] msgget_known [OF assms(5), of False]
  by (simp add: que_connect_def MsqGet_def Let_def upd_mb_def IPC_PRIVATE_def)

lemma ipc_connect_known:
  assumes "shm_connect (Some SD_MEM_NAME) s = Ret (PSeg i, s1)" and "i \<in> set (k_attached s1)" "sd_mem s1 i = m"
    and "sem_connect (Some SD_SEM_NAME) 1 s1 = Ret (sid, s2)" "0 \<le> sid" "k_attached s2 = k_attached s1" "k_msq s2 = k_msq s1"
    and "find (\<lambda>q. q_key q = mb_req_que (mbctrl m)) (k_msq s1) = Some a" "mb_req_que (mbctrl m) \<noteq> 0" "0 \<le> q_id a"
    and "find (\<lambda>q. q_key q = mb_rsp_que (mbctrl m)) (k_msq s1) = Some b" "0 < mb_rsp_que (mbctrl m)"
  shows "\<exists>p' s'. ipc_connect 0 p s = Ret (0, p', s')"
proof -
  let ?p = "p\<lparr>p_ctl := PSeg i\<rparr>" and ?m = "upd_mb (\<lambda>c. c\<lparr>mb_semid := sid\<rparr>) m"
  have "ctl ?p s1 = Ret m" using assms(2,3) by (simp add: ctl_def)
  moreover have "ctl ?p (set_ctl ?p ?m s2) = Ret ?m" using assms(2,6) by (simp add: ctl_def set_ctl_def)
  then obtain s' where "que_connect 0 ?p (set_ctl ?p ?m s2) = Ret (0, ?p, s')"
    using que_connect_known [of ?p "set_ctl ?p ?m s2" ?m a b 0] assms(7-)
    by (auto simp: upd_mb_def set_ctl_def IPC_PRIVATE_def)
  ultimately show ?thesis using assms(1,4,5,9) by (simp add: ipc_connect_def)
qed

text \<open>A machine on which the server can connect to the running system.\<close>

definition st_conn :: tst where
  "st_conn = st_test\<lparr>ts := (ts st_test)\<lparr>k_shm := [(sd_key None, 2, 100000)],
     k_sem := [\<lparr>sm_key = sd_key None, sm_id = 4, sm_vals = [1], sm_adj = (\<lambda>p i. 0)\<rparr>]\<rparr>\<rparr>"

lemma conn_connects: "\<exists>st'. lift_ps (ipc_connect 0) st_conn = Returned 0 st'"
proof -
  have k: "sd_key None \<noteq> IPC_PRIVATE" by (rule sd_key_nonzero)
  have r: "k_region (ts st_conn) = None" "k_shm (ts st_conn) = [(sd_key None, 2, 100000)]" "k_can_attach (ts st_conn)"
    "k_sem (ts st_conn) = [\<lparr>sm_key = sd_key None, sm_id = 4, sm_vals = [1], sm_adj = (\<lambda>p i. 0)\<rparr>]" "sd_mem (ts st_conn) 2 = mem_test"
    "k_msq (ts st_conn) = [\<lparr>q_key = 601107, q_id = 5, q_msgs = [], q_qbytes = 16384\<rparr>, \<lparr>q_key = 601117, q_id = 6, q_msgs = [], q_qbytes = 16384\<rparr>]"
    by (simp_all add: st_conn_def st_test_def)
  let ?s1 = "(ts st_conn)\<lparr>k_attached := 2 # k_attached (ts st_conn)\<rparr>"
  have m: "shm_connect (Some SD_MEM_NAME) (ts st_conn) = Ret (PSeg 2, ?s1)"
    by (simp add: shm_connect_def shm_getid_def shm_shmget_internal_def shmget_def shm_attach_internal_def shmat_def r k)
  have i: "mb_req_que (mbctrl mem_test) = 601107" "mb_rsp_que (mbctrl mem_test) = 601117" by (simp_all add: mem_test_def sdmem2_def)
  define s2 where "s2 = snd (semctl_setval 4 0 1 ?s1)"
  have s2: "semctl_setval 4 0 1 ?s1 = (0, s2)" "k_attached s2 = k_attached ?s1" "k_msq s2 = k_msq ?s1"
    by (simp_all add: s2_def semctl_setval_def r)
  have one: "nat 1 = Suc 0" by simp
  have c: "sem_connect (Some SD_SEM_NAME) 1 ?s1 = Ret (4, s2)"
    by (simp add: sem_connect_def sem_getid_def sem_semget_internal_def semget_def sem_attach_internal_def r k one s2(1))
  have f: "find (\<lambda>q. q_key q = 601107) (k_msq ?s1) = Some \<lparr>q_key = 601107, q_id = 5, q_msgs = [], q_qbytes = 16384\<rparr>"
    "find (\<lambda>q. q_key q = 601117) (k_msq ?s1) = Some \<lparr>q_key = 601117, q_id = 6, q_msgs = [], q_qbytes = 16384\<rparr>"
    by (simp_all add: r)
  have "\<exists>p' s'. ipc_connect 0 (tp st_conn) (ts st_conn) = Ret (0, p', s')"
    by (rule ipc_connect_known [OF m _ _ c _ s2(2,3) f(1) [folded i] _ _ f(2) [folded i]]) (simp_all add: r i)
  then show ?thesis by (auto simp: lift_ps_def)
qed

section \<open>A request and its answer\<close>

lemma call_answered_short:
  assumes "asked inp rh body" and "svc = strip (c_str (rh_name rh))"
    and "h = short_head (p_pid (tp st)) (sd_now (ts st)) svc (rh_ssn rh) (int (length body))"
    and "call_ready m i svrid svc h body r (ts st)" and "ctl (tp st) (ts st) = Ret m"
    and "tux_acall (Some svc) (RawBuf (enc_head h @ body)) (int (length (enc_head h @ body))) 0 (with_head h st) = Returned 0 a"
    and "ts v = ts a" "p_ctl (tp v) = p_ctl (tp st)" "svc_handler (c_str (ih_name h)) m = Some f" "hs f = Some (answer r)"
    and "0 \<le> pos" "pos < int (length (tSvrPid m))" "ALLOC_UNITS (ih_len h + 2048) * 32 \<le> h_avail (p_heap (tp v))"
    and "fst (WriteSocket (short_answer rh r) (int (length (short_answer rh r))) wr) = 0"
  shows "\<exists>v' c'. tux_service hs junk svrid pos v = Returned 0 v' \<and>
    child_proc False inp wr (st\<lparr>tw := Others (ts v') # ws\<rparr>) = Returned (0, short_answer rh r) c'"
proof -
  have r: "req_head_ok rh" "length body \<le> 8000" using assms(1) by (auto simp: asked_def)
  have l: "length r \<le> 4000" "HEAD_LEN + length r \<le> 10241" "head_ok h" "int (length r) \<le> 4000"
    using assms(4) by (auto simp: call_ready_def HEAD_LEN_def)
  have ok: "head_ok (h\<lparr>ih_len := int (length r)\<rparr>)" using l(3,4) by (auto simp: head_ok_def is_i64_def)
  obtain v' c' where v': "tux_service hs junk svrid pos v = Returned 0 v'"
    "tux_call 10241 False (Some svc) (RawBuf (enc_head h @ body)) (int (length (enc_head h @ body))) 0
      ((with_head h st)\<lparr>tw := Others (ts v') # ws\<rparr>) = Returned (0, Some (enc_head (h\<lparr>ih_len := int (length r)\<rparr>) @ r)) c'"
    using call_answered [where hs = hs and f = f and junk = junk and ws = ws and c = "with_head h st", of m i svrid svc h body r
        0 a v pos 10241] assms(4-13) l(2) by auto
  let ?st = "st\<lparr>tw := Others (ts v') # ws\<rparr>"
  have e: "(with_head h st)\<lparr>tw := Others (ts v') # ws\<rparr> = with_head h ?st" "tp ?st = tp st" "ts ?st = ts st" by simp_all
  have "call_svr False (frame (enc_req_head rh @ body)) ?st = Returned (0, short_answer rh r) c'"
    by (rule call_svr_answer [OF r assms(2) _ _ ipc.enc_width [OF ok] l(1), where h = h]) (simp only: e assms(3), simp only: v'(2) e(1) [symmetric])
  then show ?thesis using v'(1) WriteSocket_all [OF assms(14)] by (simp add: child_asks [OF assms(1)])
qed

section \<open>Properties\<close>

text \<open>A client of the server for short connections and a service that is up: when the frame on the connection asks for
  the service, one turn of the service's process answers the request that the child sent, and the child, asleep in
  \<open>tux_call\<close> until then, writes exactly one frame to the client: the request's header with error number 0, followed
  by the answer.\<close>

theorem short_call_answered:
  assumes "asked inp rh body" and "svc = strip (c_str (rh_name rh))"
    and "h = short_head (p_pid (tp st)) (sd_now (ts st)) svc (rh_ssn rh) (int (length body))"
    and "call_ready m i svrid svc h body r (ts st)" and "ctl (tp st) (ts st) = Ret m"
    and "tux_acall (Some svc) (RawBuf (enc_head h @ body)) (int (length (enc_head h @ body))) 0 (with_head h st) = Returned 0 a"
    and "ts v = ts a" "p_ctl (tp v) = p_ctl (tp st)" "svc_handler (c_str (ih_name h)) m = Some f" "hs f = Some (answer r)"
    and "0 \<le> pos" "pos < int (length (tSvrPid m))" "ALLOC_UNITS (ih_len h + 2048) * 32 \<le> h_avail (p_heap (tp v))"
    and "fst (WriteSocket (short_answer rh r) (int (length (short_answer rh r))) wr) = 0"
  shows "\<exists>v' c'. tux_service hs junk svrid pos v = Returned 0 v' \<and>
    child_proc False inp wr (st\<lparr>tw := Others (ts v') # ws\<rparr>) = Returned (0, short_answer rh r) c'"
  by (rule call_answered_short [where hs = hs and f = f, OF assms])

definition head_short :: IPCMsgHead where
  "head_short = short_head 30 0 ''TEST'' 9 2"

lemma head_short: "head_short = head_test\<lparr>ih_req_msg_type := 30, ih_ssn := 9, ih_reply_flag := REPLY_FLAG_ASYN\<rparr>"
  by (simp add: head_short_def short_head_def head_test_def cstr_in_def head_zero_def pad_def)

lemma short_ready: "call_ready mem_test 1 7 ''TEST'' head_short ''hi'' ''done'' (ts st_test)"
proof -
  have "head_ok head_short" by code_simp
  moreover have "mbox (mb_rsp_que_id (mbctrl mem_test)) (ts st_test) 30 = []"
    by (simp add: st_test_def mbox_def msq_at_def)
  ultimately show ?thesis using test_ready unfolding call_ready_def head_short by (simp add: head_test_def)
qed

lemma asked_one:
  assumes "req_head_ok rh" and "length body \<le> 8000"
  shows "asked [Data (frame (enc_req_head rh @ body))] rh body"
proof -
  have "frame (enc_req_head rh @ body) \<noteq> []" using show_pad_nonempty by (simp add: frame_def)
  then have "flow [Data (frame (enc_req_head rh @ body))] = frame (enc_req_head rh @ body) @ []" by simp
  then show ?thesis using assms unfolding asked_def by blast
qed

theorem short_call_answered_witness:
  "\<exists>a v' c'. tux_acall (Some ''TEST'') (RawBuf (enc_head head_short @ ''hi'')) 98 0 (with_head head_short st_test) = Returned 0 a
    \<and> tux_service [9 \<mapsto> answer ''done''] [] 7 1 a = Returned 0 v'
    \<and> child_proc False [Data (frame (enc_req_head rh_ex @ ''hi''))] [100] (st_test\<lparr>tw := [Others (ts v')]\<rparr>)
      = Returned (0, short_answer rh_ex ''done'') c'"
proof -
  let ?st = "with_head head_short st_test"
  let ?f = "enc_head head_short @ ''hi''"
  have l: "int (length ?f) = 98" by code_simp
  note cr = short_ready
  have cr2: "call_ready mem_test 1 7 ''TEST'' head_short ''hi'' ''done'' (ts ?st)" using short_ready by simp
  have ids: "mb_req_que_id (mbctrl mem_test) = 5" "(7::int) + SVR_MSG_TYPE_ROOT = 300007" by code_simp+
  have ctl: "ctl (tp ?st) (ts ?st) = Ret mem_test" using test_mem by simp
  obtain q where q: "msq_at 5 (ts ?st) = Some q" "send_req mem_test 1 (RawBuf ?f) (length ?f) ?st
      = Returned 0 (?st\<lparr>ts := msq_set 5 (q_msgs q @ [req_msg 300007 ?f]) (ts ?st)\<rparr>)"
    using send_req_frame [OF cr2 ctl] unfolding ids by auto
  have "tux_locatemb ''TEST'' mem_test = 1" "\<not> svc_down mem_test 1" "mb_max_msg_len (mbctrl mem_test) = 4096" "length ?f = 98"
    by code_simp+
  moreover have "sdIsAttach (tp ?st)" by (simp add: st_test_def sdIsAttach_def)
  ultimately obtain a where a: "tux_acall (Some ''TEST'') (RawBuf ?f) (int (length ?f)) 0 ?st = Returned 0 a" "tp a = tp ?st"
    using q(2) by (simp add: tux_acall_def arg_len_def mem_Ret [OF ctl])
  have h: "svc_handler (c_str (ih_name head_short)) mem_test = Some 9" "(1::int) < int (length (tSvrPid mem_test))"
    "ALLOC_UNITS (ih_len head_short + 2048) * 32 \<le> 100000"
    by code_simp+
  have st: "h_avail (p_heap (tp st_test)) = 100000" "p_pid (tp st_test) = 30" "sd_now (ts st_test) = 0"
    by (simp_all add: st_test_def)
  have "length (enc_req_head (rh_ex\<lparr>rh_err_no := 0\<rparr>) @ ''done'') = 44" by code_simp
  then have "length (short_answer rh_ex ''done'') = 48" by (simp add: short_answer_def frame_length)
  then have w: "fst (WriteSocket (short_answer rh_ex ''done'') (int (length (short_answer rh_ex ''done''))) [100]) = 0"
    by (intro WriteSocket_once) auto
  have rok: "req_head_ok rh_ex" by code_simp
  have k: "asked [Data (frame (enc_req_head rh_ex @ ''hi''))] rh_ex ''hi''" by (rule asked_one [OF rok]) simp
  have hd: "head_short = short_head (p_pid (tp st_test)) (sd_now (ts st_test)) ''TEST'' (rh_ssn rh_ex) (int (length ''hi''))"
    unfolding st(2,3) by (simp add: head_short_def rh_ex_def)
  have pc: "p_ctl (tp a) = p_ctl (tp st_test)" "h_avail (p_heap (tp a)) = h_avail (p_heap (tp st_test))" using a(2) by simp_all
  have "\<exists>v' c'. tux_service [9 \<mapsto> answer ''done''] [] 7 1 a = Returned 0 v' \<and>
    child_proc False [Data (frame (enc_req_head rh_ex @ ''hi''))] [100] (st_test\<lparr>tw := Others (ts v') # []\<rparr>)
      = Returned (0, short_answer rh_ex ''done'') c'"
    by (rule short_call_answered [OF k rh_ex_name [symmetric] hd cr test_mem(1) a(1) refl pc(1) h(1) _ _ h(2) _ w])
      (use h(3) pc(2) st(1) in simp_all)
  then show ?thesis using a(1) l by auto
qed

text \<open>A request that fails is not answered: whatever the reason (here: the service is unknown), the error answer that
  \<open>call_svr\<close> packed is dropped and nothing is written to the client.\<close>

theorem short_failure_silent:
  assumes "asked inp rh body" and "ctl (tp st) (ts st) = Ret m" and "tux_locatemb (strip (c_str (rh_name rh))) m < 0"
  shows "\<exists>st'. child_proc late inp wr st = Returned (-1, []) st'"
proof -
  let ?svc = "strip (c_str (rh_name rh))"
  let ?h = "short_head (p_pid (tp st)) (sd_now (ts st)) ?svc (rh_ssn rh) (int (length body))"
  have r: "req_head_ok rh" "length body \<le> 8000" using assms(1) by (auto simp: asked_def)
  have "length (enc_head ?h @ body) \<noteq> 0" by (simp add: enc_head_def pad_def)
  then have "\<exists>st'. tux_call 10241 late (Some ?svc) (RawBuf (enc_head ?h @ body)) (int (length (enc_head ?h @ body))) 0
      (with_head ?h st) = Returned (-1, None) st'"
    using assms(2,3) by (simp add: tux_call_def arg_len_def mem_Ret fail_def Let_def)
  then show ?thesis
    using call_svr_frame [OF r refl refl, of late st] by (auto simp: child_asks [OF assms(1)])
qed

theorem short_failure_silent_witness:
  "\<exists>st'. child_proc False [Data (frame (enc_req_head (rh_ex\<lparr>rh_name := ''NONE'' @ pad 28\<rparr>) @ ''hi''))] [100] st_test = Returned (-1, []) st'"
proof -
  let ?rh = "rh_ex\<lparr>rh_name := ''NONE'' @ pad 28\<rparr>"
  have "req_head_ok ?rh" by code_simp
  then have "asked [Data (frame (enc_req_head ?rh @ ''hi''))] ?rh ''hi''" by (rule asked_one) simp
  moreover have "tux_locatemb (strip (c_str (rh_name ?rh))) mem_test < 0" by code_simp
  ultimately show ?thesis using short_failure_silent [OF _ test_mem(1)] by blast
qed

text \<open>The parent never knows its children: after any sequence of connections and deaths every entry of its table is
  still zero, which \<open>reg_child\<close> does not take for free, so that the handler of \<open>SIGTERM\<close> signals nobody and the
  children outlive the server.\<close>

theorem short_children_unknown:
  "short_reach s \<Longrightarrow> gpidSonPid s = replicate MAX_CHILD_NUM (0, 0) \<and> ss_sigs (main_exit_s s) = []"
  using reach_no_sons [of s] by (simp add: no_sons_def main_exit_s_def)

definition env_short :: start_env where
  "env_short = \<lparr>se_sockets = (\<lambda>i. 3), se_binds = (\<lambda>i. 0), se_opts = (True, True, True), se_junk = 0, se_qjunk = 0, se_epoll = 0,
     se_threads = (\<lambda>i. 0), se_writer = 0\<rparr>"

lemma retry_const: "retry k (\<lambda>i. c) n = c"
  by (induction k arbitrary: n) auto

theorem short_children_unknown_witness:
  "\<exists>s. short_reach s \<and> nChdNum s = 1 \<and> giLocPort s = 8000 \<and> gpidSonPid s = replicate MAX_CHILD_NUM (0, 0) \<and> ss_sigs (main_exit_s s) = []"
proof -
  let ?argv = "[''C001'', ''30'', ''1'', ''7'', ''-p'', ''8000'']"
  have n: "atol ''30'' = 30" "atoi ''8000'' = 8000" by code_simp+
  have o: "getopt_all ''p'' (drop 4 ?argv) = [(CHR ''p'', ''8000'')]" by (simp add: getopt_all.simps)
  have pid: "p_pid (tp st_conn) = 30" by (simp add: st_conn_def st_test_def)
  obtain st' where "lift_ps (ipc_connect 0) st_conn = Returned 0 st'" using conn_connects by blast
  then have "comm_init_s 0 ?argv short0 st_conn = Returned (0, short0\<lparr>gSvrId := atoi ''7'', giLocPort := 8000\<rparr>) st'"
    unfolding comm_init_s_def o by (simp add: n pid short0_def)
  then have "\<exists>s. main_start_s env_short ?argv short0 st_conn = Returned s st' \<and> giLocPort s = 8000 \<and> nChdNum s = 0"
    by (simp add: main_start_s_def env_short_def CreateSocket_def Let_def short0_def retry_const split: prod.split)
  then obtain s where s: "main_start_s env_short ?argv short0 st_conn = Returned s st'" "giLocPort s = 8000" "nChdNum s = 0" by blast
  then have "\<exists>s'. main_turn_s [5] 77 s = Some (Parent s') \<and> giLocPort s' = 8000 \<and> nChdNum s' = 1"
    by (simp add: main_turn_s_def reg_child_def i32_def)
  then obtain s' where s': "main_turn_s [5] 77 s = Some (Parent s')" "giLocPort s' = 8000" "nChdNum s' = 1" by blast
  have "short_reach s'" by (rule short_reach.connection [OF short_reach.start [OF s(1)] s'(1)])
  then show ?thesis using short_children_unknown [of s'] s'(2,3) by blast
qed

end
