(* ===== verification/CommClient.thy ===== *)
theory CommClient
  imports CommShort
begin

text \<open>
  The test clients \<open>src/dev/src/client/client.c\<close> (one request) and \<open>simu.c\<close> (twenty). What the network and the clock do
  comes as arguments; the result is the exit code, what was sent and the text that is shown. The theorem at the end
  joins the client, the communication server for short connections and a server.
\<close>

section \<open>Definitions\<close>

definition client_req :: "int \<Rightarrow> sunda_req_head_t" where
  "client_req ssn = \<lparr>rh_name = ''testsvr'' @ pad 25, rh_ssn = ssn mod 2 ^ 32, rh_err_no = 0\<rparr>"

text \<open>\<open>sprintf(sReqBuf, "%04d", iLen)\<close> and the copy behind it.\<close>

definition request_text :: "int \<Rightarrow> string" where
  "request_text ssn = (let sBuf = enc_req_head (client_req ssn) @ ''test111111''; iLen = REQ_HEAD_LEN + 10
     in show_pad 4 iLen @ take iLen sBuf)"

text \<open>The head of the answer in the buffer of 257 bytes, and the text behind it in another one.\<close>

definition client_answer :: "string \<Rightarrow> (sunda_req_head_t \<times> string) cres" where
  "client_answer frm =
     (let sBuf = frm @ pad (257 - length frm)
      in if length frm < REQ_HEAD_LEN + 4 then Crash BufOverflow
         else Ret (dec_req_head (drop 4 sBuf), take (length frm - REQ_HEAD_LEN - 4) (drop (4 + REQ_HEAD_LEN) sBuf)))"

record net =
  nt_att :: "nat \<Rightarrow> attempt"
  nt_oks :: "bool \<times> bool \<times> bool"
  nt_wr :: "int list"
  nt_in :: "rd list"
  nt_now :: int

text \<open>\<open>client.c\<close>: exit code, bytes sent, text shown.\<close>

definition client_main :: "net \<Rightarrow> (int \<times> string \<times> string option) cres" where
  "client_main n =
     (let (iRet, sock_id, fds) = OpenSocket 99 (nt_oks n) (nt_att n) 0 Map.empty
      in if iRet \<noteq> 0 then Ret (2, [], None)
         else let req = request_text (nt_now n); (iRet, out) = WriteSocket req (int (length req)) (nt_wr n)
              in if iRet \<noteq> 0 then Ret (2, out, None)
                 else cbind (RcvTxnMsg 257 4 (nt_in n)) (\<lambda>(iRet, frm, inp).
                      if iRet \<noteq> 0 then Ret (2, out, None)
                      else cbind (client_answer frm) (\<lambda>(req_head, sRspBuf). Ret (0, out, Some (c_str sRspBuf)))))"

text \<open>\<open>simu.c\<close>: \<open>ssn\<close> counts the connections, \<open>ret_tot\<close> the requests, \<open>icount\<close> the answers; a failed read ends it.\<close>

fun simu_loop :: "net list \<Rightarrow> int \<Rightarrow> int \<Rightarrow> int \<Rightarrow> (int \<times> int \<times> int) cres" where
  "simu_loop [] ssn ret_tot icount = Ret (0, ret_tot, icount)"
| "simu_loop (n # ns) ssn ret_tot icount =
     (let (iRet, sock_id, fds) = OpenSocket 99 (nt_oks n) (nt_att n) 0 Map.empty
      in if iRet \<noteq> 0 then simu_loop ns ssn ret_tot icount
         else let req = request_text (nt_now n + ssn); (iRet, out) = WriteSocket req (int (length req)) (nt_wr n)
              in if iRet \<noteq> 0 then simu_loop ns (ssn + 1) (ret_tot + 1) icount
                 else cbind (RcvTxnMsg 257 4 (nt_in n)) (\<lambda>(iRet, frm, inp).
                      if iRet \<noteq> 0 then Ret (2, ret_tot + 1, icount)
                      else cbind (client_answer frm) (\<lambda>_. simu_loop ns (ssn + 1) (ret_tot + 1) (icount + 1))))"

definition simu_main :: "net list \<Rightarrow> (int \<times> int \<times> int) cres" where
  "simu_main ns = simu_loop (take 20 ns) 0 0 0"

section \<open>One request\<close>

lemma request_frame: "request_text t = frame (enc_req_head (client_req t) @ ''test111111'')"
proof -
  have "length (enc_req_head (client_req t)) = REQ_HEAD_LEN" by (simp add: enc_req_head_def client_req_def REQ_HEAD_LEN_def pad_def)
  then show ?thesis by (simp add: request_text_def frame_def REQ_HEAD_LEN_def)
qed

lemma client_req_ok: "req_head_ok (client_req t)"
  by (simp add: req_head_ok_def client_req_def pad_def is_u32_def in_i32_def)

lemma client_asks: "flow inp = request_text t \<Longrightarrow> asked inp (client_req t) ''test111111''"
  by (auto simp: asked_def request_frame client_req_ok intro!: exI [of _ "[]"])

text \<open>The client reads an answer whole, however it was cut, when it fits the buffer of 257 bytes.\<close>

lemma client_shows:
  assumes "req_head_ok rh" and "flow (nt_in n) = short_answer rh r @ z"
    and "nt_att n 0 = Connected fd" and "fst (WriteSocket (request_text (nt_now n)) (int (length (request_text (nt_now n)))) (nt_wr n)) = 0"
  shows "client_main n = (if 213 < length r \<and> length r \<le> 9000 then Crash BufOverflow
    else if length r \<le> 213 then Ret (0, request_text (nt_now n), Some (c_str r)) else client_main n)"
proof -
  let ?h = "rh\<lparr>rh_err_no := 0\<rparr>"
  let ?p = "enc_req_head ?h @ r"
  have ok: "req_head_ok ?h" using assms(1) by (simp add: req_head_ok_def in_i32_def)
  then have e: "length (enc_req_head ?h) = 40" by (simp add: enc_req_head_def req_head_ok_def)
  have o: "\<exists>a b. OpenSocket 99 (nt_oks n) (nt_att n) 0 Map.empty = (0, a, b)"
    using assms(3) by (simp add: OpenSocket_def open_loop.simps)
  have w: "WriteSocket (request_text (nt_now n)) (int (length (request_text (nt_now n)))) (nt_wr n) = (0, request_text (nt_now n))"
    by (rule WriteSocket_all [OF assms(4)])
  have "client_main n = (if 213 < length r then Crash BufOverflow else Ret (0, request_text (nt_now n), Some (c_str r)))"
    if l: "length r \<le> 9000"
  proof -
    have p: "flow (nt_in n) = frame ?p @ z" "?p \<noteq> []" "length ?p \<le> 9999" using assms(2) e l by (auto simp: short_answer_def)
    obtain s' where s': "RcvTxnMsg 257 4 (nt_in n) = (if 4 + length ?p > 257 then Crash BufOverflow else Ret (0, frame ?p, s'))"
      using RcvTxnMsg_reads [OF p, of 257] by blast
    have big: "(4 + length ?p > 257) = (213 < length r)" using e by auto
    have m: "client_main n = cbind (RcvTxnMsg 257 4 (nt_in n)) (\<lambda>(iRet, frm, inp).
          if iRet \<noteq> 0 then Ret (2, request_text (nt_now n), None)
          else cbind (client_answer frm) (\<lambda>(req_head, sRspBuf). Ret (0, request_text (nt_now n), Some (c_str sRspBuf))))"
      using o by (auto simp: client_main_def Let_def w)
    have "client_answer (frame ?p) = Ret (?h, r)" if "\<not> 213 < length r"
    proof -
      have le: "length ?p \<le> 8049" using that e by simp
      note f = frame_parts [OF ok refl le]
      have n: "length (frame ?p) = 44 + length r" using f(1,4) by simp
      show ?thesis
        unfolding client_answer_def Let_def REQ_HEAD_LEN_def f(2) n
        using f(5) by simp
    qed
    then show ?thesis unfolding m s' big by simp
  qed
  then show ?thesis by auto
qed

section \<open>Properties\<close>

text \<open>Claim C7. From the client through the communication server for short connections to a service and back: the bytes that
  \<open>client.c\<close> sends make the child send the request to the service named \<open>testsvr\<close>, one turn of the service's process
  answers it, and when the client receives the bytes that the child wrote, in any pieces, it shows the answer and
  ends with 0.\<close>

theorem client_served:
  assumes "flow inp = request_text (nt_now n)" and "svc = strip (c_str (rh_name (client_req (nt_now n))))"
    and "h = short_head (p_pid (tp st)) (sd_now (ts st)) svc (rh_ssn (client_req (nt_now n))) (int (length ''test111111''))"
    and "call_ready m i svrid svc h ''test111111'' r (ts st)" and "ctl (tp st) (ts st) = Ret m"
    and "tux_acall (Some svc) (RawBuf (enc_head h @ ''test111111'')) (int (length (enc_head h @ ''test111111''))) 0 (with_head h st) = Returned 0 a"
    and "ts v = ts a" "p_ctl (tp v) = p_ctl (tp st)" "svc_handler (c_str (ih_name h)) m = Some f" "hs f = Some (answer r)"
    and "0 \<le> pos" "pos < int (length (tSvrPid m))" "ALLOC_UNITS (ih_len h + 2048) * 32 \<le> h_avail (p_heap (tp v))"
    and "fst (WriteSocket (short_answer (client_req (nt_now n)) r) (int (length (short_answer (client_req (nt_now n)) r))) wr) = 0"
    and "nt_att n 0 = Connected fd" and "fst (WriteSocket (request_text (nt_now n)) (int (length (request_text (nt_now n)))) (nt_wr n)) = 0"
    and "length r \<le> 213"
  shows "\<exists>v' c' out. tux_service hs junk svrid pos v = Returned 0 v' \<and>
    child_proc False inp wr (st\<lparr>tw := Others (ts v') # ws\<rparr>) = Returned (0, out) c' \<and>
    (flow (nt_in n) = out \<longrightarrow> client_main n = Ret (0, request_text (nt_now n), Some (c_str r)))"
proof -
  obtain v' c' where "tux_service hs junk svrid pos v = Returned 0 v'"
    "child_proc False inp wr (st\<lparr>tw := Others (ts v') # ws\<rparr>) = Returned (0, short_answer (client_req (nt_now n)) r) c'"
    using call_answered_short [where hs = hs and f = f and junk = junk and ws = ws,
        OF client_asks [OF assms(1)] assms(2-14)] by blast
  moreover have "client_main n = Ret (0, request_text (nt_now n), Some (c_str r))"
    if "flow (nt_in n) = short_answer (client_req (nt_now n)) r"
    using client_shows [OF client_req_ok, of n "nt_now n" r "[]", OF _ assms(15,16)] that assms(17) by simp
  ultimately show ?thesis by blast
qed

text \<open>A system that offers \<open>testsvr\<close>.\<close>

definition mem_cl :: sdmem where
  "mem_cl = mem_test\<lparr>tSvrTab := (tSvrTab mem_test)[1 := (tSvrTab mem_test ! 1)\<lparr>st_svc_name := ''testsvr''\<rparr>],
     tSvcTab := [svc_zero\<lparr>sc_name := ''testsvr'', sc_sd_fun := 9\<rparr>, svc_zero\<lparr>sc_flags := -1\<rparr>]\<rparr>"

definition st_cl :: tst where
  "st_cl = st_test\<lparr>ts := (ts st_test)\<lparr>sd_mem := (\<lambda>i. mem_cl)\<rparr>\<rparr>"

definition head_cl :: IPCMsgHead where
  "head_cl = short_head 30 0 ''testsvr'' 5 10"

definition net_cl :: net where
  "net_cl = \<lparr>nt_att = (\<lambda>i. Connected 4), nt_oks = (True, True, True), nt_wr = [100],
     nt_in = [Data (short_answer (client_req 5) ''done'')], nt_now = 5\<rparr>"

lemma cl_facts:
  "p_pid (tp st_cl) = 30" "sd_now (ts st_cl) = 0" "ctl (tp st_cl) (ts st_cl) = Ret mem_cl" "h_avail (p_heap (tp st_cl)) = 100000"
  "msq_at 5 (ts st_cl) = Some \<lparr>q_key = 601107, q_id = 5, q_msgs = [], q_qbytes = 16384\<rparr>"
  "msq_at 6 (ts st_cl) = Some \<lparr>q_key = 601117, q_id = 6, q_msgs = [], q_qbytes = 16384\<rparr>" "sdIsAttach (tp st_cl)"
  by (simp_all add: st_cl_def st_test_def ctl_def msq_at_def sdIsAttach_def)

lemma cl_mem:
  "tux_locatemb ''testsvr'' mem_cl = 1" "\<not> svc_down mem_cl 1" "mb_req_que_id (mbctrl mem_cl) = 5" "mb_rsp_que_id (mbctrl mem_cl) = 6"
  "mb_max_msg_len (mbctrl mem_cl) = 4096" "st_msg_type (tSvrTab mem_cl ! 1) = 7 + SVR_MSG_TYPE_ROOT" "head_ok head_cl"
  "svc_handler (c_str (ih_name head_cl)) mem_cl = Some 9" "(1::int) < int (length (tSvrPid mem_cl))"
  "ALLOC_UNITS (ih_len head_cl + 2048) * 32 \<le> 100000" "strip (c_str (rh_name (client_req 5))) = ''testsvr''"
  by code_simp+

lemma cl_ready: "call_ready mem_cl 1 7 ''testsvr'' head_cl ''test111111'' ''done'' (ts st_cl)"
  unfolding call_ready_def cl_mem
  using cl_mem(2,7) by (simp add: has_room_def mbox_def cl_facts cbytes_def SVR_MSG_TYPE_ROOT_def HEAD_LEN_def head_cl_def short_head_def)

lemma cl_lengths:
  "length (request_text 5) = 54" "length (short_answer (client_req 5) ''done'') = 48"
proof -
  have e: "length (enc_req_head (client_req 5 \<lparr>rh_err_no := 0\<rparr>)) = 40" "length (enc_req_head (client_req 5)) = 40"
    using client_req_ok [of 5] by (simp_all add: enc_req_head_def req_head_ok_def)
  show "length (request_text 5) = 54" "length (short_answer (client_req 5) ''done'') = 48"
    by (simp_all add: request_frame short_answer_def frame_length e)
qed

theorem client_served_witness:
  "\<exists>a v' c' out. tux_service [9 \<mapsto> answer ''done''] [] 7 1 a = Returned 0 v' \<and>
    child_proc False [Data (request_text 5)] [100] (st_cl\<lparr>tw := [Others (ts v')]\<rparr>) = Returned (0, out) c' \<and>
    (flow (nt_in net_cl) = out \<longrightarrow> client_main net_cl = Ret (0, request_text 5, Some ''done''))"
proof -
  let ?st = "with_head head_cl st_cl" and ?f = "enc_head head_cl @ ''test111111''"
  have ctl: "ctl (tp ?st) (ts ?st) = Ret mem_cl" "call_ready mem_cl 1 7 ''testsvr'' head_cl ''test111111'' ''done'' (ts ?st)"
    using cl_facts(3) cl_ready by simp_all
  have lf: "length ?f = 106" using ipc.enc_width [OF cl_mem(7)] by (simp add: HEAD_LEN_def)
  obtain q :: msq where q: "send_req mem_cl 1 (RawBuf ?f) (length ?f) ?st
      = Returned 0 (?st\<lparr>ts := msq_set 5 (q_msgs q @ [req_msg (7 + SVR_MSG_TYPE_ROOT) ?f]) (ts ?st)\<rparr>)"
    using send_req_frame [OF ctl(2,1)] unfolding cl_mem by blast
  obtain a where a: "tux_acall (Some ''testsvr'') (RawBuf ?f) (int (length ?f)) 0 ?st = Returned 0 a" "tp a = tp ?st"
    using q cl_facts(7) lf cl_mem(1,2,5) by (simp add: tux_acall_def arg_len_def mem_Ret [OF ctl(1)] Let_def sdIsAttach_def del: length_append)
  have hd: "head_cl = short_head (p_pid (tp st_cl)) (sd_now (ts st_cl)) ''testsvr'' (rh_ssn (client_req (nt_now net_cl))) (int (length ''test111111''))"
    by (simp add: cl_facts head_cl_def net_cl_def client_req_def)
  have n: "nt_now net_cl = 5" "nt_wr net_cl = [100]" "nt_att net_cl 0 = Connected 4" by (simp_all add: net_cl_def)
  have ne: "request_text 5 \<noteq> []" "short_answer (client_req 5) ''done'' \<noteq> []" using cl_lengths by fastforce+
  have w: "fst (WriteSocket (short_answer (client_req 5) ''done'') (int (length (short_answer (client_req 5) ''done''))) [100]) = 0"
    "fst (WriteSocket (request_text 5) (int (length (request_text 5))) [100]) = 0"
    by (rule WriteSocket_once; use ne cl_lengths in simp)+
  have fl: "flow [Data (request_text 5)] = request_text (nt_now net_cl)" using ne by (simp add: n)
  have "\<exists>v' c' out. tux_service [9 \<mapsto> answer ''done''] [] 7 1 a = Returned 0 v' \<and>
    child_proc False [Data (request_text 5)] [100] (st_cl\<lparr>tw := Others (ts v') # []\<rparr>) = Returned (0, out) c' \<and>
    (flow (nt_in net_cl) = out \<longrightarrow> client_main net_cl = Ret (0, request_text (nt_now net_cl), Some (c_str ''done'')))"
    by (rule client_served [OF fl _ hd cl_ready cl_facts(3) a(1) refl _ cl_mem(8) _ _ cl_mem(9) _ _ n(3)])
      (use a(2) cl_mem(10,11) cl_facts(4) w n in simp_all)
  then show ?thesis by (auto simp: n c_str_def)
qed

end
