(* ===== verification/CommLong.thy ===== *)
theory CommLong
  imports CommShort
begin

text \<open>
  The communication server for one long connection, \<open>src/dev/src/comm/C002/C002.c\<close>: it accepts a connection of one
  configured address, opens a second one to this address, and forks two children: the first writes replies to the opened
  connection (\<open>ChdDoClt\<close>), the second reads requests from the accepted one (\<open>ChdDoSvr\<close>). Names that \<open>commserver.c\<close> uses
  as well have the suffix \<open>_l\<close>.

  \<open>long\<close> holds the variables of a process; the loops of the children are modelled by single turns. The lemmas
  show what becomes of a request (its header has a negative length) and of its reply (nobody reads its type).
\<close>

section \<open>The parent process\<close>

definition COMM_L_MSG_TYPE_ROOT :: int where "COMM_L_MSG_TYPE_ROOT = 200000"

record long =
  l_sons :: "(int \<times> int) list"
  l_loc_port :: int
  l_clt_ip :: string
  l_rmt_port :: int
  l_lstn :: int
  l_conn :: int
  l_clnt :: int
  l_svr_id :: int
  l_time_out :: int
  l_fds :: fds
  l_sigs :: "(int \<times> int) list"

definition long0 :: long where
  "long0 = \<lparr>l_sons = replicate 2 (0, 0), l_loc_port = 0, l_clt_ip = [], l_rmt_port = 0, l_lstn = 0, l_conn = 0, l_clnt = 0,
     l_svr_id = 0, l_time_out = 0, l_fds = Map.empty, l_sigs = []\<rparr>"

definition close_l :: "int \<Rightarrow> long \<Rightarrow> long" where
  "close_l fd s = s\<lparr>l_fds := snd (CloseSocket fd (l_fds s))\<rparr>"

text \<open>The handler of \<open>SIGTERM\<close>, before \<open>exit(1)\<close>.\<close>

definition main_exit_l :: "long \<Rightarrow> long" where
  "main_exit_l s =
     close_l (l_lstn s) (s\<lparr>l_sigs := l_sigs s @ map (\<lambda>e. (fst e, SIGTERM)) (filter (\<lambda>e. fst e > 0) (l_sons s))\<rparr>)"

text \<open>A process after a \<open>fork\<close>: the parent that goes on, child number \<open>n\<close>, or a parent that left with \<open>exit(1)\<close>.\<close>

datatype lrole = Goes long | Son nat long | Left long

definition fork_son :: "nat \<Rightarrow> int \<Rightarrow> long \<Rightarrow> lrole" where
  "fork_son i pid s =
     (if pid = -1 then Left (main_exit_l s)
      else if pid = 0 then Son (Suc i) (close_l (l_lstn s) s)
      else Goes (s\<lparr>l_sons := (l_sons s)[i := (pid, int i + 1)]\<rparr>))"

text \<open>The handler of \<open>SIGCLD\<close>: the results of \<open>waitpid\<close>, each with that of the \<open>fork\<close> that follows when the table has the
  process.\<close>

fun child_exit_l :: "(int \<times> int) list \<Rightarrow> long \<Rightarrow> lrole" where
  "child_exit_l [] s = Goes s"
| "child_exit_l ((nPid, pid) # ws) s =
     (if nPid \<le> 0 then Goes s
      else let i = scan (\<lambda>i. fst (l_sons s ! i) = nPid) 0 2
           in if i < 0 then child_exit_l ws s
              else (case fork_son (nat i) pid s of Goes s \<Rightarrow> child_exit_l ws s | r \<Rightarrow> r))"

text \<open>\<open>strncpy(gsCltIP, optarg, 12)\<close> into an array of zeroes.\<close>

fun apply_opts_l :: "(char \<times> string) list \<Rightarrow> long \<Rightarrow> long" where
  "apply_opts_l [] s = s"
| "apply_opts_l ((ch, optarg) # os) s =
     apply_opts_l os
       (if ch = CHR ''p'' then s\<lparr>l_loc_port := atoi optarg\<rparr>
        else if ch = CHR ''i'' then s\<lparr>l_clt_ip := take 12 optarg\<rparr>
        else if ch = CHR ''o'' then s\<lparr>l_rmt_port := atoi optarg\<rparr>
        else s)"

definition comm_init_l :: "int \<Rightarrow> string list \<Rightarrow> long \<Rightarrow> tst \<Rightarrow> (int \<times> long) out" where
  "comm_init_l qjunk argv s st =
     (if length argv < 4 then Returned (-1, s) st
      else if atol (argv ! 1) \<noteq> p_pid (tp st) then Returned (-1, s) st
      else let s = apply_opts_l (getopt_all ''pio'' (drop 4 argv)) (s\<lparr>l_svr_id := atoi (argv ! 3)\<rparr>);
               s = s\<lparr>l_sons := map (\<lambda>e. (-1, snd e)) (l_sons s)\<rparr>
           in obind (lift_ps (ipc_connect qjunk) st) (\<lambda>iRet st.
                if iRet \<noteq> 0 then Returned (-1, s) st else Returned (0, s) st))"

text \<open>One turn of the accept loop: \<open>acc\<close> are the results of \<open>accept\<close>, \<open>addr\<close> is the dotted address of the peer. The boolean
  says whether the loop is left.\<close>

definition accept_turn :: "int list \<Rightarrow> string \<Rightarrow> long \<Rightarrow> (bool \<times> long) option" where
  "accept_turn acc addr s =
     (case AcceptSocket acc of
        None \<Rightarrow> None
      | Some (iRet, fd) \<Rightarrow>
          let s = s\<lparr>l_conn := fd, l_fds := (l_fds s)(fd \<mapsto> fresh_sock)\<rparr>
          in if iRet \<noteq> 0 then Some (False, close_l fd s)
             else if strcmp (l_clt_ip s) addr \<noteq> 0 then Some (False, close_l fd s)
             else Some (True, s))"

fun accept_loop :: "(int list \<times> string) list \<Rightarrow> long \<Rightarrow> long option" where
  "accept_loop [] s = None"
| "accept_loop ((acc, addr) # ps) s =
     (case accept_turn acc addr s of
        None \<Rightarrow> None
      | Some (True, s) \<Rightarrow> Some s
      | Some (False, s) \<Rightarrow> accept_loop ps s)"

text \<open>At most eleven calls of \<open>OpenSocket\<close>, \<open>left\<close> of which remain; the last failure closes the other two connections.\<close>

fun connect_loop :: "nat \<Rightarrow> bool \<times> bool \<times> bool \<Rightarrow> (nat \<Rightarrow> nat \<Rightarrow> attempt) \<Rightarrow> long \<Rightarrow> bool \<times> long" where
  "connect_loop 0 oks att s = (False, close_l (l_lstn s) (close_l (l_conn s) s))"
| "connect_loop (Suc left) oks att s =
     (let (iRet, fd, fds) = OpenSocket 9999 oks (att left) (l_clnt s) (l_fds s); s = s\<lparr>l_clnt := fd, l_fds := fds\<rparr>
      in if iRet = 0 then (True, s) else connect_loop left oks att s)"

fun fork_sons :: "nat list \<Rightarrow> (nat \<Rightarrow> int) \<Rightarrow> long \<Rightarrow> lrole" where
  "fork_sons [] pids s = Goes s"
| "fork_sons (i # is) pids s = (case fork_son i (pids i) s of Goes s \<Rightarrow> fork_sons is pids s | r \<Rightarrow> r)"

text \<open>\<open>main\<close> up to its final loop, which only pauses: \<open>peers\<close> are the connections that arrive, \<open>att\<close> the outcomes of connecting,
  \<open>pids\<close> the results of \<open>fork\<close>. \<open>Sleeping\<close>: it still waits for a connection from the address.\<close>

definition main_l :: "start_env \<Rightarrow> (int list \<times> string) list \<Rightarrow> (nat \<Rightarrow> nat \<Rightarrow> attempt) \<Rightarrow> (nat \<Rightarrow> int) \<Rightarrow> string list \<Rightarrow>
    long \<Rightarrow> tst \<Rightarrow> lrole out" where
  "main_l e peers att pids argv s st =
     obind (comm_init_l (se_qjunk e) argv s st) (\<lambda>(iRet, s) st.
       if iRet \<noteq> 0 then Exited 1 st
       else let (iRet, lsock, fds) = CreateSocket (l_loc_port s) 9999 0 (se_sockets e) (se_binds e) (se_opts e) (se_junk e) (l_fds s);
                s = s\<lparr>l_lstn := lsock, l_fds := fds\<rparr>
            in if iRet \<noteq> 0 then Exited (-1) st
               else case accept_loop peers s of
                   None \<Rightarrow> Sleeping
                 | Some s \<Rightarrow> let (ok, s) = connect_loop 11 (se_opts e) att s
                             in if \<not> ok then Exited (-1) st else Returned (fork_sons [0, 1] pids s) st)"

section \<open>The children\<close>

text \<open>What \<open>ChdDoSvr\<close> makes of a frame in its zeroed buffer of 8097 bytes: the service and the request.\<close>

definition long_head :: "string \<Rightarrow> int \<Rightarrow> int \<Rightarrow> int \<Rightarrow> nat \<Rightarrow> IPCMsgHead" where
  "long_head svc fd ssn now n = head_zero\<lparr>ih_name := cstr_in 33 svc, ih_req_msg_type := COMM_L_MSG_TYPE_ROOT, ih_fd := fd,
     ih_ssn := ssn, ih_utime := now, ih_reply_flag := REPLY_FLAG_ASYN,
     ih_len := int n - COMM_L_MSG_TYPE_ROOT - int REQ_HEAD_LEN\<rparr>"

definition long_request :: "int \<Rightarrow> int \<Rightarrow> string \<Rightarrow> (string \<times> string) cres" where
  "long_request fd now frm =
     (let iBufLen = length frm;
          src = frm @ pad (8097 - iBufLen);
          req_head = dec_req_head (drop SOCKET_MSG_HEAD_LEN src);
          sSvcName = AllTrim (c_str (take TUX_NAME_LEN (rh_name req_head)))
      in if SOCKET_MSG_HEAD_LEN + REQ_HEAD_LEN + iBufLen > 8097 then Crash OutOfBounds
         else Ret (sSvcName, enc_head (long_head sSvcName fd (rh_ssn req_head) now iBufLen)
                @ take iBufLen (drop (SOCKET_MSG_HEAD_LEN + REQ_HEAD_LEN) src)))"

text \<open>A turn of the reading child: \<open>orphan\<close> says that the parent has gone, \<open>eintr\<close> that a failed read was interrupted; \<open>inp\<close>
  is what the connection delivers. The rest of the input comes with the result.\<close>

definition ChdDoSvr :: "bool \<Rightarrow> bool \<Rightarrow> rd list \<Rightarrow> long \<Rightarrow> tst \<Rightarrow> rd list out" where
  "ChdDoSvr orphan eintr inp s st =
     (if orphan then Exited 1 st
      else obind (of_cres (RcvTxnMsg 8097 (int SOCKET_MSG_HEAD_LEN) inp) st) (\<lambda>(iRet, frm, inp') st.
           if iRet \<noteq> 0 then (if eintr \<or> iRet > 0 then Returned inp' st else Exited 1 st)
           else obind (of_cres (long_request (l_conn s) (sd_now (ts st)) frm) st) (\<lambda>(sSvcName, req) st.
                obind (tux_acall (Some sSvcName) (RawBuf req) (int (length req)) 0 st) (\<lambda>iRet st.
                  if iRet \<noteq> 0 \<and> p_errno (tp st) = SYS_SYSTEM then Exited 1 st else Returned inp' st))))"

text \<open>The bytes that \<open>ChdDoClt\<close> makes of a reply; there are no length digits before them.\<close>

definition long_reply :: "string \<Rightarrow> string cres" where
  "long_reply b =
     (let h = dec_head (b @ pad (10241 - length b))
      in if length b < HEAD_LEN then Crash BufOverflow
         else if length b - HEAD_LEN + REQ_HEAD_LEN > 10241 then Crash BufOverflow
         else Ret (enc_req_head \<lparr>rh_name = take TUX_NAME_LEN (ih_name h), rh_ssn = ih_ssn h, rh_err_no = 0\<rparr> @ drop HEAD_LEN b))"

text \<open>A turn of the writing child: \<open>wr\<close> are the results of \<open>write\<close>, \<open>late\<close> says that the alarm goes off while it runs; this
  process has no handler for it, so that it ends it. The bytes that went out come with the result.\<close>

definition SIGALRM :: int where "SIGALRM = 14"

definition ChdDoClt :: "bool \<Rightarrow> bool \<Rightarrow> bool \<Rightarrow> int list \<Rightarrow> long \<Rightarrow> tst \<Rightarrow> string out" where
  "ChdDoClt orphan eintr late wr s st =
     (if orphan then Exited 1 st
      else obind (tux_getreply 10241 (COMM_L_MSG_TYPE_ROOT + l_svr_id s) 0 st) (\<lambda>(iRet, rsp) st.
           if iRet \<noteq> 0 then (if eintr then Returned [] st else Exited 1 st)
           else obind (of_cres (long_reply (case rsp of None \<Rightarrow> [] | Some b \<Rightarrow> b)) st) (\<lambda>buf st.
             if late then Exited SIGALRM st
             else let (iRet, out) = WriteSocket buf (int (length buf)) wr
                  in if iRet < 0 \<and> l_time_out s \<noteq> 1 then Exited 1 st else Returned out st)))"

text \<open>\<open>ChdMainProc\<close>: the loop of child \<open>n\<close>, one turn.\<close>

definition ChdMainProc :: "nat \<Rightarrow> bool \<Rightarrow> bool \<Rightarrow> bool \<Rightarrow> rd list \<Rightarrow> int list \<Rightarrow> long \<Rightarrow> tst \<Rightarrow> (rd list \<times> string) out" where
  "ChdMainProc n orphan eintr late inp wr s st =
     (let s = s\<lparr>l_time_out := 0\<rparr>
      in if n mod 2 = 0 then obind (ChdDoSvr orphan eintr inp s st) (\<lambda>inp st. Returned (inp, []) st)
         else obind (ChdDoClt orphan eintr late wr s st) (\<lambda>out st. Returned (inp, out) st))"

section \<open>Addresses\<close>

lemma opts_ip: "length (l_clt_ip s) \<le> 12 \<Longrightarrow> length (l_clt_ip (apply_opts_l os s)) \<le> 12"
  by (induction os s rule: apply_opts_l.induct) auto

lemma init_ip: "comm_init_l qjunk argv long0 st = Returned (rc, s) st' \<Longrightarrow> length (l_clt_ip s) \<le> 12"
  using opts_ip [of "long0\<lparr>l_svr_id := atoi (argv ! 3)\<rparr>" "getopt_all ''pio'' (drop 4 argv)"]
  by (auto simp: comm_init_l_def Let_def obind_Ret long0_def split: if_splits)

lemma accept_loop_long:
  "\<lbrakk>\<forall>p \<in> set peers. 12 < length (snd p); length (l_clt_ip s) \<le> 12\<rbrakk> \<Longrightarrow> accept_loop peers s = None"
proof (induction peers s rule: accept_loop.induct)
  case (2 acc addr ps s)
  have "l_clt_ip s \<noteq> addr" using 2(2,3) by auto
  then have "accept_turn acc addr s = None \<or> (\<exists>s'. accept_turn acc addr s = Some (False, s') \<and> l_clt_ip s' = l_clt_ip s)"
    by (simp add: accept_turn_def Let_def close_l_def split: option.split)
  then show ?case
  proof (elim disjE exE conjE)
    fix s' assume s': "accept_turn acc addr s = Some (False, s')" "l_clt_ip s' = l_clt_ip s"
    have "accept_loop ps s' = None" by (rule 2(1) [OF s'(1) refl]) (use s'(2) 2(2,3) in simp_all)
    then show ?thesis using s'(1) by simp
  qed simp
qed simp

section \<open>Requests\<close>

lemma long_request_frame:
  assumes "req_head_ok rh" and "p = enc_req_head rh @ body" and "length p \<le> 8049" and "svc = strip (c_str (rh_name rh))"
  shows "long_request fd now (frame p) = Ret (svc, enc_head (long_head svc fd (rh_ssn rh) now (44 + length body)) @ body @ pad 44)"
proof -
  note f = frame_parts [OF assms(1-3)]
  have n: "length (frame p) = 44 + length body" using f(1,4) by simp
  have b: "\<not> 44 + (44 + length body) > 8097" using f(4) assms(3) by linarith
  have t: "take (44 + length body) (drop 44 (frame p @ pad (8097 - (44 + length body)))) = body @ pad 44"
    unfolding f(5) using f(4) assms(3) by (simp add: pad_def)
  show ?thesis
    unfolding long_request_def Let_def n SOCKET_MSG_HEAD_LEN_def REQ_HEAD_LEN_def f(2,3) AllTrim_eq assms(4) using b t
    by simp
qed

section \<open>Replies\<close>

definition only_type :: "int \<Rightarrow> int \<Rightarrow> sys \<Rightarrow> bool" where
  "only_type qid t s \<longleftrightarrow> (\<exists>q. msq_at qid s = Some q \<and> (\<forall>x \<in> set (q_msgs q). m_type x = t))"

definition all_only :: "int \<Rightarrow> int \<Rightarrow> sys wake list \<Rightarrow> bool" where
  "all_only qid t ws \<longleftrightarrow> (\<forall>w \<in> set ws. \<exists>k. w = Others k \<and> only_type qid t k)"

lemma msgrcv_other_type:
  "\<lbrakk>only_type qid t k; all_only qid t ws; u \<noteq> t; u > 0\<rbrakk> \<Longrightarrow> msgrcv qid sz u False k ws = Blocked"
proof (induction ws arbitrary: k)
  case Nil
  then obtain q where "msq_at qid k = Some q" "mbox qid k u = []" by (auto simp: only_type_def mbox_def)
  then have "msgrcv_try qid sz u k = None" using Nil(4) by (rule mbox_try_none)
  then show ?case by (simp add: msgrcv.simps [of _ _ _ _ k])
next
  case (Cons w ws)
  obtain q where "msq_at qid k = Some q" "mbox qid k u = []" using Cons.prems(1,3) by (auto simp: only_type_def mbox_def)
  then have n: "msgrcv_try qid sz u k = None" using Cons.prems(4) by (rule mbox_try_none)
  obtain k' where k': "w = Others k'" "only_type qid t k'" using Cons.prems(2) by (auto simp: all_only_def)
  then have "msq_at qid k' \<noteq> None" by (auto simp: only_type_def)
  moreover have "msgrcv qid sz u False k' ws = Blocked"
    using Cons k'(2) by (auto simp: all_only_def)
  ultimately show ?case using n k'(1) by (simp add: msgrcv.simps [of _ _ _ _ k])
qed

section \<open>Properties\<close>

text \<open>Claim C39. Every request that the server for a long connection passes on brings the server process of its service down: the
  length in the header is computed with the message type 200000 in place of the four length digits, so it is negative,
  and the first turn of the service's process that takes the request faults.\<close>

theorem long_request_crashes_server:
  assumes "asked inp rh body" and "length body \<le> 3900" and "svc = strip (c_str (rh_name rh))"
    and "h = long_head svc (l_conn s) (rh_ssn rh) (sd_now (ts st)) (44 + length body)" and "head_ok h"
    and "ctl (tp st) (ts st) = Ret m" and "service_ready m svc (svrid + SVR_MSG_TYPE_ROOT) (140 + length body) (ts st)"
    and "mbox (mb_req_que_id (mbctrl m)) (ts st) (svrid + SVR_MSG_TYPE_ROOT) = []"
    and "svc_handler (c_str (ih_name h)) m = Some f" and "p_ctl (tp v) = p_ctl (tp st)"
  shows "\<exists>inp' st'. ChdDoSvr False eintr inp s st = Returned inp' st' \<and>
    tux_service hs junk svrid pos (v\<lparr>ts := ts st'\<rparr>) = Faulted NullDeref"
proof -
  let ?p = "enc_req_head rh @ body" and ?t = "svrid + SVR_MSG_TYPE_ROOT" and ?rq = "mb_req_que_id (mbctrl m)"
  let ?req = "enc_head h @ body @ pad 44"
  obtain r where r: "flow inp = frame ?p @ r" "req_head_ok rh" using assms(1) by (auto simp: asked_def)
  have lp: "length ?p = 40 + length body" using r(2) by (simp add: enc_req_head_def req_head_ok_def)
  then have p: "?p \<noteq> []" "length ?p \<le> 9999" "length ?p \<le> 8049" "\<not> 8097 < 4 + length ?p" using assms(2) by fastforce+
  obtain inp' where inp': "RcvTxnMsg 8097 4 inp = Ret (0, frame ?p, inp')"
    using RcvTxnMsg_reads [OF r(1) p(1,2), of 8097] p(4) by auto
  have lq: "length ?req = 140 + length body" using ipc.enc_width [OF assms(5)] by (simp add: HEAD_LEN_def)
  have sr: "service_ready m svc ?t (length ?req) (ts st)" and ne: "?req \<noteq> []" using assms(7) lq by (simp_all add: pad_def)
  obtain q where q: "msq_at ?rq (ts st) = Some q" "tux_acall (Some svc) (RawBuf ?req) (int (length ?req)) 0 st =
      Returned 0 (st\<lparr>ts := msq_set ?rq (q_msgs q @ [req_msg ?t ?req]) (ts st)\<rparr>)"
    using acall_ready [OF assms(6) sr ne] by blast
  let ?st = "st\<lparr>ts := msq_set ?rq (q_msgs q @ [req_msg ?t ?req]) (ts st)\<rparr>"
  have one: "ChdDoSvr False eintr inp s st = Returned inp' ?st"
    using long_request_frame [OF r(2) refl p(3) assms(3), of "l_conn s" "sd_now (ts st)"] q(2) assms(4) inp'
    by (simp add: ChdDoSvr_def SOCKET_MSG_HEAD_LEN_def)
  have e: "mbox ?rq (ts ?st) ?t = req_msg ?t ?req # []"
    using assms(8) q(1) by (simp add: mbox_def msq_at_set req_msg_def)
  have "tux_service hs junk svrid pos (v\<lparr>ts := ts ?st\<rparr>) = Faulted NullDeref"
  proof (rule negative_length_faults [OF _ _ _ _ assms(5) _ _ assms(9)])
    have "ctl (tp v) (ts st) = Ret m" using assms(6,10) by (simp add: ctl_def)
    then show "ctl (tp (v\<lparr>ts := ts ?st\<rparr>)) (ts (v\<lparr>ts := ts ?st\<rparr>)) = Ret m" by simp
    show "mbox ?rq (ts (v\<lparr>ts := ts ?st\<rparr>)) ?t = req_msg ?t ?req # []" using e by simp
    show "?t > 0" using assms(7) by (simp add: service_ready_def)
    show "m_buf (req_msg ?t ?req) = enc_head h @ (body @ pad 44)" by (simp add: req_msg_def)
    show "length (m_buf (req_msg ?t ?req)) \<le> 4052" using lq assms(2) by (simp add: req_msg_def)
    show "ih_len h < 0" using assms(2) by (simp add: assms(4) long_head_def COMM_L_MSG_TYPE_ROOT_def REQ_HEAD_LEN_def)
  qed
  then show ?thesis using one by blast
qed

definition long_ex :: long where
  "long_ex = long0\<lparr>l_conn := 5, l_clnt := 6, l_svr_id := 1\<rparr>"

theorem long_request_crashes_server_witness:
  "\<exists>inp' st'. ChdDoSvr False False [Data (frame (enc_req_head rh_ex @ ''hi''))] long_ex st_test = Returned inp' st' \<and>
    tux_service [9 \<mapsto> answer ''done''] [] 7 1 (st_test\<lparr>ts := ts st'\<rparr>) = Faulted NullDeref"
proof -
  have rok: "req_head_ok rh_ex" by code_simp
  have k: "asked [Data (frame (enc_req_head rh_ex @ ''hi''))] rh_ex ''hi''" by (rule asked_one [OF rok]) simp
  have now: "sd_now (ts st_test) = 0" "p_ctl (tp st_test) = PSeg 2" by (simp_all add: st_test_def)
  have sr: "service_ready mem_test ''TEST'' (7 + SVR_MSG_TYPE_ROOT) (140 + length ''hi'') (ts st_test)" by code_simp
  have h: "head_ok (long_head ''TEST'' 5 9 0 46)" "svc_handler (c_str (ih_name (long_head ''TEST'' 5 9 0 46))) mem_test = Some 9"
    by code_simp+
  have mb: "mbox (mb_req_que_id (mbctrl mem_test)) (ts st_test) (7 + SVR_MSG_TYPE_ROOT) = []"
    by (simp add: st_test_def mbox_def msq_at_def)
  have e: "long_head ''TEST'' (l_conn long_ex) (rh_ssn rh_ex) (sd_now (ts st_test)) (44 + length ''hi'') = long_head ''TEST'' 5 9 0 46"
    unfolding now by (simp add: long_ex_def rh_ex_def)
  show ?thesis
    by (rule long_request_crashes_server [OF k _ rh_ex_name [symmetric] e [symmetric] h(1) test_mem(1) sr mb h(2) refl]) simp
qed

text \<open>A reply to a request of the long connection is never sent: it carries the message type of the request, and
  the writing child waits for this type plus the server's number. As long as only such replies arrive (now or
  whenever the queue changes), the child sleeps.\<close>

theorem long_reply_unread:
  assumes "ctl (tp st) (ts st) = Ret m" and "0 < l_svr_id s"
    and "only_type (mb_rsp_que_id (mbctrl m)) COMM_L_MSG_TYPE_ROOT (ts st)"
    and "all_only (mb_rsp_que_id (mbctrl m)) COMM_L_MSG_TYPE_ROOT (tw st)"
  shows "ih_req_msg_type (long_head svc fd ssn now n) = COMM_L_MSG_TYPE_ROOT \<and> ChdDoClt False eintr late wr s st = Sleeping"
proof -
  have a: "sdIsAttach (tp st)" using assms(1) by (auto simp: sdIsAttach_def ctl_def split: shmptr.splits)
  have "COMM_L_MSG_TYPE_ROOT + l_svr_id s \<noteq> COMM_L_MSG_TYPE_ROOT" "COMM_L_MSG_TYPE_ROOT + l_svr_id s > 0"
    using assms(2) by (simp_all add: COMM_L_MSG_TYPE_ROOT_def)
  from msgrcv_other_type [OF assms(3,4) this, of BUS_MAX_MSG_LEN] show ?thesis
    using a by (simp add: ChdDoClt_def tux_getreply_def mem_Ret [OF assms(1)] get_msg_def MsqRcv_def long_head_def
        MSQ_MODE_BLOCK_def MSQ_MODE_NONBLOCK_def)
qed

theorem long_reply_unread_witness:
  "ChdDoClt False False False [] long_ex (st_test\<lparr>ts := msq_set 6 [\<lparr>m_type = 200000, m_source = 0, m_buf = ''late''\<rparr>] (ts st_test)\<rparr>) = Sleeping"
proof -
  let ?st = "st_test\<lparr>ts := msq_set 6 [\<lparr>m_type = 200000, m_source = 0, m_buf = ''late''\<rparr>] (ts st_test)\<rparr>"
  have c: "ctl (tp ?st) (ts ?st) = Ret mem_test" using test_mem(1) by simp
  have i: "mb_rsp_que_id (mbctrl mem_test) = 6" by (simp add: mem_test_def sdmem2_def)
  have "msq_at 6 (ts st_test) = Some \<lparr>q_key = 601117, q_id = 6, q_msgs = [], q_qbytes = 16384\<rparr>"
    by (simp add: st_test_def msq_at_def)
  then have o: "only_type (mb_rsp_que_id (mbctrl mem_test)) COMM_L_MSG_TYPE_ROOT (ts ?st)"
    unfolding i by (simp add: only_type_def msq_at_set COMM_L_MSG_TYPE_ROOT_def)
  have a: "all_only (mb_rsp_que_id (mbctrl mem_test)) COMM_L_MSG_TYPE_ROOT (tw ?st)" by (simp add: all_only_def st_test_def)
  show ?thesis using long_reply_unread [OF c _ o a, of long_ex] by (simp add: long_ex_def)
qed

text \<open>The server for a long connection never gets past its accept loop when the addresses that connect have more than
  twelve characters: only twelve characters of the configured address are kept.\<close>

theorem long_address_refused:
  assumes "\<forall>p \<in> set peers. 12 < length (snd p)"
  shows "main_l e peers att pids argv long0 st \<noteq> Returned r st'"
proof
  assume m: "main_l e peers att pids argv long0 st = Returned r st'"
  then obtain rc s s1 where c: "comm_init_l (se_qjunk e) argv long0 st = Returned (rc, s) s1"
    by (auto simp: main_l_def obind_Ret)
  have n: "accept_loop peers (s\<lparr>l_lstn := a, l_fds := b\<rparr>) = None" for a b
    by (rule accept_loop_long [OF assms]) (use init_ip [OF c] in simp)
  show False using m by (auto simp: main_l_def c n Let_def split: if_splits prod.splits)
qed

theorem long_address_refused_witness:
  "\<nexists>r st'. main_l env_short [([5], ''192.168.44.10'')] (\<lambda>i j. Connected 7) (\<lambda>i. 50)
     [''C002'', ''30'', ''1'', ''7'', ''-p'', ''8000'', ''-i'', ''192.168.44.10'', ''-o'', ''9000''] long0 st_conn = Returned r st'"
  using long_address_refused [of "[([5], ''192.168.44.10'')]"] by simp

end
