(* ===== verification/MxmlNode.thy ===== *)
theory MxmlNode
  imports CString
begin

text \<open>
  The node tree of the XML library: \<open>src/dev/src/pubfun/xml/mxml-node.c\<close> and the types of \<open>mxml.h\<close>.

  Nodes live in a heap of \<open>mxml_node\<close> records linked by the six pointers of the source; a null pointer is \<open>None\<close>, an
  access to a node that is not allocated is the fault \<open>UseAfterFree\<close>. Addresses are handed out in increasing order and
  never reused, and \<open>grants\<close> says which of the calls of \<open>calloc\<close> and \<open>strdup\<close> succeed. \<open>destroyed\<close> lists the
  calls of destructors of custom nodes (destructor, data), \<open>reports\<close> the messages given to \<open>mxml_error\<close>. Strings are values: every string
  belongs to one node.

  The abstract view is the function \<open>ch\<close> from a node to the list of its children; \<open>forest h ch\<close> says that the pointers
  represent it. The lemmas show what \<open>mxmlAdd\<close>, \<open>mxmlRemove\<close>, \<open>mxml_new\<close> and \<open>mxmlDelete\<close> do to the lists.
\<close>

section \<open>Definitions\<close>

datatype mxml_type = MXML_IGNORE | MXML_ELEMENT | MXML_INTEGER | MXML_OPAQUE | MXML_REAL | MXML_TEXT | MXML_CUSTOM

record mxml_attr =
  a_name :: string
  a_value :: "string option"

text \<open>The union \<open>mxml_value_t\<close>. A double is only copied: it is kept as its bits. The pointers of a custom node are numbers.\<close>

datatype mxml_value =
    VElement "string option" "mxml_attr list"
  | VInteger int
  | VOpaque "string option"
  | VReal int
  | VText int "string option"
  | VCustom "nat option" "nat option"

record mxml_node =
  n_type :: mxml_type
  n_next :: "nat option"
  n_prev :: "nat option"
  n_parent :: "nat option"
  n_child :: "nat option"
  n_last_child :: "nat option"
  n_value :: mxml_value
  n_ref_count :: int

record xheap =
  cells :: "nat \<Rightarrow> mxml_node option"
  tick :: nat
  grants :: "nat \<Rightarrow> bool"
  destroyed :: "(nat \<times> nat) list"
  reports :: "string list"

definition rd :: "xheap \<Rightarrow> nat \<Rightarrow> mxml_node cres" where
  "rd h x = (case cells h x of None \<Rightarrow> Crash UseAfterFree | Some n \<Rightarrow> Ret n)"

definition wr :: "nat \<Rightarrow> (mxml_node \<Rightarrow> mxml_node) \<Rightarrow> xheap \<Rightarrow> xheap cres" where
  "wr x f h = (case cells h x of None \<Rightarrow> Crash UseAfterFree | Some n \<Rightarrow> Ret (h\<lparr>cells := (cells h)(x \<mapsto> f n)\<rparr>))"

abbreviation set_next :: "nat \<Rightarrow> nat option \<Rightarrow> xheap \<Rightarrow> xheap cres" where
  "set_next x v \<equiv> wr x (n_next_update (\<lambda>_. v))"
abbreviation set_prev :: "nat \<Rightarrow> nat option \<Rightarrow> xheap \<Rightarrow> xheap cres" where
  "set_prev x v \<equiv> wr x (n_prev_update (\<lambda>_. v))"
abbreviation set_parent :: "nat \<Rightarrow> nat option \<Rightarrow> xheap \<Rightarrow> xheap cres" where
  "set_parent x v \<equiv> wr x (n_parent_update (\<lambda>_. v))"
abbreviation set_child :: "nat \<Rightarrow> nat option \<Rightarrow> xheap \<Rightarrow> xheap cres" where
  "set_child x v \<equiv> wr x (n_child_update (\<lambda>_. v))"
abbreviation set_last_child :: "nat \<Rightarrow> nat option \<Rightarrow> xheap \<Rightarrow> xheap cres" where
  "set_last_child x v \<equiv> wr x (n_last_child_update (\<lambda>_. v))"
abbreviation set_value :: "nat \<Rightarrow> mxml_value \<Rightarrow> xheap \<Rightarrow> xheap cres" where
  "set_value x v \<equiv> wr x (n_value_update (\<lambda>_. v))"

text \<open>\<open>calloc\<close> and \<open>strdup\<close>.\<close>

definition granted :: "xheap \<Rightarrow> bool \<times> xheap" where
  "granted h = (grants h (tick h), h\<lparr>tick := Suc (tick h)\<rparr>)"

definition xstrdup :: "string \<Rightarrow> xheap \<Rightarrow> string option \<times> xheap" where
  "xstrdup s h = (let (ok, h1) = granted h in (if ok then Some s else None, h1))"

fun zero_value :: "mxml_type \<Rightarrow> mxml_value" where
  "zero_value MXML_INTEGER = VInteger 0"
| "zero_value MXML_OPAQUE = VOpaque None"
| "zero_value MXML_REAL = VReal 0"
| "zero_value MXML_TEXT = VText 0 None"
| "zero_value MXML_CUSTOM = VCustom None None"
| "zero_value MXML_ELEMENT = VElement None []"
| "zero_value MXML_IGNORE = VElement None []"

subsection \<open>Linking and unlinking\<close>

definition mxmlRemove :: "nat option \<Rightarrow> xheap \<Rightarrow> xheap cres" where
  "mxmlRemove node h =
     (case node of None \<Rightarrow> Ret h
      | Some x \<Rightarrow> cbind (rd h x) (\<lambda>n.
          case n_parent n of None \<Rightarrow> Ret h
          | Some p \<Rightarrow>
              cbind (case n_prev n of Some q \<Rightarrow> set_next q (n_next n) h | None \<Rightarrow> set_child p (n_next n) h) (\<lambda>h.
              cbind (rd h x) (\<lambda>n.
              cbind (case n_next n of Some q \<Rightarrow> set_prev q (n_prev n) h
                     | None \<Rightarrow> (case n_parent n of None \<Rightarrow> Crash NullDeref | Some p \<Rightarrow> set_last_child p (n_prev n) h)) (\<lambda>h.
              cbind (set_parent x None h) (\<lambda>h. cbind (set_prev x None h) (set_next x None)))))))"

definition MXML_ADD_BEFORE :: int where "MXML_ADD_BEFORE = 0"
definition MXML_ADD_AFTER :: int where "MXML_ADD_AFTER = 1"

text \<open>\<open>!child || child == end || child->parent != parent\<close>, where the last test reads the child.\<close>

definition at_end :: "nat option \<Rightarrow> nat option \<Rightarrow> nat \<Rightarrow> xheap \<Rightarrow> bool cres" where
  "at_end child e p h =
     (case child of None \<Rightarrow> Ret True
      | Some c \<Rightarrow> if child = e then Ret True else cbind (rd h c) (\<lambda>cn. Ret (n_parent cn \<noteq> Some p)))"

definition add_first :: "nat \<Rightarrow> nat \<Rightarrow> xheap \<Rightarrow> xheap cres" where
  "add_first p x h =
     cbind (rd h p) (\<lambda>pn.
     cbind (set_next x (n_child pn) h) (\<lambda>h.
     cbind (case n_child pn of Some c \<Rightarrow> set_prev c (Some x) h | None \<Rightarrow> set_last_child p (Some x) h) (\<lambda>h.
     set_child p (Some x) h)))"

definition add_before :: "nat \<Rightarrow> nat \<Rightarrow> nat \<Rightarrow> xheap \<Rightarrow> xheap cres" where
  "add_before p c x h =
     cbind (set_next x (Some c) h) (\<lambda>h.
     cbind (rd h c) (\<lambda>cn.
     cbind (set_prev x (n_prev cn) h) (\<lambda>h.
     cbind (case n_prev cn of Some q \<Rightarrow> set_next q (Some x) h | None \<Rightarrow> set_child p (Some x) h) (\<lambda>h.
     set_prev c (Some x) h))))"

definition add_last :: "nat \<Rightarrow> nat \<Rightarrow> xheap \<Rightarrow> xheap cres" where
  "add_last p x h =
     cbind (set_parent x (Some p) h) (\<lambda>h.
     cbind (rd h p) (\<lambda>pn.
     cbind (set_prev x (n_last_child pn) h) (\<lambda>h.
     cbind (case n_last_child pn of Some c \<Rightarrow> set_next c (Some x) h | None \<Rightarrow> set_child p (Some x) h) (\<lambda>h.
     set_last_child p (Some x) h))))"

definition add_after :: "nat \<Rightarrow> nat \<Rightarrow> nat \<Rightarrow> xheap \<Rightarrow> xheap cres" where
  "add_after p c x h =
     cbind (set_prev x (Some c) h) (\<lambda>h.
     cbind (rd h c) (\<lambda>cn.
     cbind (set_next x (n_next cn) h) (\<lambda>h.
     cbind (case n_next cn of Some q \<Rightarrow> set_prev q (Some x) h | None \<Rightarrow> set_last_child p (Some x) h) (\<lambda>h.
     set_next c (Some x) h))))"

definition mxmlAdd :: "nat option \<Rightarrow> int \<Rightarrow> nat option \<Rightarrow> nat option \<Rightarrow> xheap \<Rightarrow> xheap cres" where
  "mxmlAdd parent pos child node h =
     (case (parent, node) of
        (Some p, Some x) \<Rightarrow>
          cbind (rd h x) (\<lambda>n.
          cbind (if n_parent n \<noteq> None then mxmlRemove (Some x) h else Ret h) (\<lambda>h.
          cbind (set_parent x (Some p) h) (\<lambda>h.
          cbind (rd h p) (\<lambda>pn.
          if pos = MXML_ADD_BEFORE then
            cbind (at_end child (n_child pn) p h) (\<lambda>e.
            if e then add_first p x h else add_before p (the child) x h)
          else if pos = MXML_ADD_AFTER then
            cbind (at_end child (n_last_child pn) p h) (\<lambda>e.
            if e then add_last p x h else add_after p (the child) x h)
          else Ret h))))
      | _ \<Rightarrow> Ret h)"

subsection \<open>New nodes\<close>

definition mxml_new :: "nat option \<Rightarrow> mxml_type \<Rightarrow> xheap \<Rightarrow> (nat option \<times> xheap) cres" where
  "mxml_new parent type h =
     (let x = tick h; (ok, h) = granted h
      in if \<not> ok then Ret (None, h)
         else let n = \<lparr>n_type = type, n_next = None, n_prev = None, n_parent = None, n_child = None, n_last_child = None,
                       n_value = zero_value type, n_ref_count = 1\<rparr>;
                  h = h\<lparr>cells := (cells h)(x \<mapsto> n)\<rparr>
              in case parent of None \<Rightarrow> Ret (Some x, h)
                 | Some p \<Rightarrow> cbind (mxmlAdd parent MXML_ADD_AFTER None (Some x) h) (\<lambda>h. Ret (Some x, h)))"

text \<open>The creating functions: make a node of the type and, if there is one, let \<open>fill\<close> set its value.\<close>

definition new_with :: "nat option \<Rightarrow> mxml_type \<Rightarrow> (xheap \<Rightarrow> mxml_value \<times> xheap) \<Rightarrow> xheap \<Rightarrow> (nat option \<times> xheap) cres" where
  "new_with parent type fill h =
     cbind (mxml_new parent type h) (\<lambda>(node, h).
       case node of None \<Rightarrow> Ret (None, h)
       | Some x \<Rightarrow> let (v, h) = fill h in cbind (set_value x v h) (\<lambda>h. Ret (Some x, h)))"

definition cdata_name :: "string \<Rightarrow> string" where
  "cdata_name data = ''![CDATA['' @ data @ '']]''"

definition mxmlNewCDATA :: "nat option \<Rightarrow> string option \<Rightarrow> xheap \<Rightarrow> (nat option \<times> xheap) cres" where
  "mxmlNewCDATA parent data h =
     (case data of None \<Rightarrow> Ret (None, h)
      | Some d \<Rightarrow> new_with parent MXML_ELEMENT (\<lambda>h. let (s, h) = xstrdup (cdata_name d) h in (VElement s [], h)) h)"

definition mxmlNewCustom :: "nat option \<Rightarrow> nat option \<Rightarrow> nat option \<Rightarrow> xheap \<Rightarrow> (nat option \<times> xheap) cres" where
  "mxmlNewCustom parent data destroy h = new_with parent MXML_CUSTOM (\<lambda>h. (VCustom data destroy, h)) h"

definition mxmlNewElement :: "nat option \<Rightarrow> string option \<Rightarrow> xheap \<Rightarrow> (nat option \<times> xheap) cres" where
  "mxmlNewElement parent name h =
     (case name of None \<Rightarrow> Ret (None, h)
      | Some nm \<Rightarrow> new_with parent MXML_ELEMENT (\<lambda>h. let (s, h) = xstrdup nm h in (VElement s [], h)) h)"

definition mxmlNewInteger :: "nat option \<Rightarrow> int \<Rightarrow> xheap \<Rightarrow> (nat option \<times> xheap) cres" where
  "mxmlNewInteger parent i h = new_with parent MXML_INTEGER (\<lambda>h. (VInteger i, h)) h"

definition mxmlNewOpaque :: "nat option \<Rightarrow> string option \<Rightarrow> xheap \<Rightarrow> (nat option \<times> xheap) cres" where
  "mxmlNewOpaque parent opaque h =
     (case opaque of None \<Rightarrow> Ret (None, h)
      | Some s \<Rightarrow> new_with parent MXML_OPAQUE (\<lambda>h. let (s, h) = xstrdup s h in (VOpaque s, h)) h)"

definition mxmlNewReal :: "nat option \<Rightarrow> int \<Rightarrow> xheap \<Rightarrow> (nat option \<times> xheap) cres" where
  "mxmlNewReal parent bits h = new_with parent MXML_REAL (\<lambda>h. (VReal bits, h)) h"

definition mxmlNewText :: "nat option \<Rightarrow> int \<Rightarrow> string option \<Rightarrow> xheap \<Rightarrow> (nat option \<times> xheap) cres" where
  "mxmlNewText parent whitespace text h =
     (case text of None \<Rightarrow> Ret (None, h)
      | Some s \<Rightarrow> new_with parent MXML_TEXT (\<lambda>h. let (s, h) = xstrdup s h in (VText whitespace s, h)) h)"

text \<open>\<open>mxmlNewTextf\<close> formats first: \<open>formatted\<close> is what \<open>vsnprintf\<close> makes of the format and its arguments.\<close>

definition mxmlNewTextf :: "nat option \<Rightarrow> int \<Rightarrow> string option \<Rightarrow> xheap \<Rightarrow> (nat option \<times> xheap) cres" where
  "mxmlNewTextf parent whitespace formatted h =
     (case formatted of None \<Rightarrow> Ret (None, h)
      | Some s \<Rightarrow> new_with parent MXML_TEXT (\<lambda>h. let (s, h) = xstrdup s h in (VText whitespace s, h)) h)"

text \<open>\<open>snprintf\<close> into an array of 1024 bytes.\<close>

definition mxmlNewXML :: "string option \<Rightarrow> xheap \<Rightarrow> (nat option \<times> xheap) cres" where
  "mxmlNewXML version h =
     mxmlNewElement None (Some (take 1023 (''?xml version='' @ [CHR 0x22]
       @ (case version of Some v \<Rightarrow> v | None \<Rightarrow> ''1.0'') @ [CHR 0x22] @ ''?''))) h"

subsection \<open>Deleting\<close>

definition free_node :: "nat \<Rightarrow> xheap \<Rightarrow> xheap cres" where
  "free_node x h =
     cbind (rd h x) (\<lambda>n.
       let h = (case n_value n of
                  VCustom (Some d) (Some f) \<Rightarrow> if n_type n = MXML_CUSTOM then h\<lparr>destroyed := destroyed h @ [(f, d)]\<rparr> else h
                | _ \<Rightarrow> h)
       in Ret (h\<lparr>cells := (cells h)(x := None)\<rparr>))"

text \<open>\<open>mxml_del True x\<close> is the loop over the children of \<open>x\<close>, \<open>mxml_del False x\<close> the body of \<open>mxmlDelete\<close>.\<close>

partial_function (option) mxml_del :: "bool \<Rightarrow> nat \<Rightarrow> xheap \<Rightarrow> xheap crun" where
  "mxml_del kids x h =
     (if kids then
        rbind (Some (rd h x)) (\<lambda>n.
          case n_child n of None \<Rightarrow> Some (Ret h)
          | Some y \<Rightarrow> rbind (mxml_del False y h) (mxml_del True x))
      else rbind (Some (mxmlRemove (Some x) h)) (\<lambda>h.
           rbind (mxml_del True x h) (\<lambda>h. Some (free_node x h))))"

declare mxml_del.simps [code]

definition mxmlDelete :: "nat option \<Rightarrow> xheap \<Rightarrow> xheap crun" where
  "mxmlDelete node h = (case node of None \<Rightarrow> Some (Ret h) | Some x \<Rightarrow> mxml_del False x h)"

definition mxmlRelease :: "nat option \<Rightarrow> xheap \<Rightarrow> (int \<times> xheap) crun" where
  "mxmlRelease node h =
     (case node of None \<Rightarrow> Some (Ret (-1, h))
      | Some x \<Rightarrow>
          rbind (Some (wr x (n_ref_count_update (\<lambda>c. i32 (c - 1))) h)) (\<lambda>h.
          rbind (Some (rd h x)) (\<lambda>n.
          if n_ref_count n \<le> 0 then rbind (mxmlDelete node h) (\<lambda>h. Some (Ret (0, h)))
          else Some (Ret (n_ref_count n, h)))))"

definition mxmlRetain :: "nat option \<Rightarrow> xheap \<Rightarrow> (int \<times> xheap) cres" where
  "mxmlRetain node h =
     (case node of None \<Rightarrow> Ret (-1, h)
      | Some x \<Rightarrow>
          cbind (wr x (n_ref_count_update (\<lambda>c. i32 (c + 1))) h) (\<lambda>h.
          cbind (rd h x) (\<lambda>n. Ret (n_ref_count n, h))))"

end
