(* ===== verification/MxmlForest.thy ===== *)
theory MxmlForest
  imports MxmlNode
begin

text \<open>
  The lists of children that the pointers of the node heap represent, and what linking, unlinking, creating and deleting
  nodes do to them. \<open>forest c ch\<close> is the invariant of the heap: \<open>ch p\<close> lists the children of \<open>p\<close>, and the pointers \<open>parent\<close>,
  \<open>next\<close>, \<open>prev\<close>, \<open>child\<close> and \<open>last_child\<close> of every node are the ones the lists give it.
\<close>

named_theorems links \<open>neighbours in lists of children\<close>

section \<open>Neighbours in a list\<close>

definition first :: "nat list \<Rightarrow> nat option" where
  "first xs = (case xs of [] \<Rightarrow> None | x # _ \<Rightarrow> Some x)"

definition final :: "nat list \<Rightarrow> nat option" where
  "final xs = first (rev xs)"

fun succ_in :: "nat list \<Rightarrow> nat \<Rightarrow> nat option" where
  "succ_in (a # b # r) x = (if a = x then Some b else succ_in (b # r) x)"
| "succ_in _ x = None"

definition pred_in :: "nat list \<Rightarrow> nat \<Rightarrow> nat option" where
  "pred_in xs x = succ_in (rev xs) x"

lemma first_simps [simp]: "first [] = None" "first (x # xs) = Some x"
  by (simp_all add: first_def)

lemma first_append: "first (xs @ ys) = (if xs = [] then first ys else first xs)"
  by (cases xs) auto

lemma final_simps [simp]: "final [] = None" "final (xs @ [x]) = Some x"
  by (simp_all add: final_def)

lemma final_append: "final (xs @ ys) = (if ys = [] then final xs else final ys)"
  by (simp add: final_def first_append)

lemma final_Cons: "final (x # xs) = (if xs = [] then Some x else final xs)"
  using final_append [of "[x]" xs] final_simps(2) [of "[]" x] by simp

lemma first_None [simp]: "first xs = None \<longleftrightarrow> xs = []"
  by (cases xs) auto

lemma final_None [simp]: "final xs = None \<longleftrightarrow> xs = []"
  by (simp add: final_def)

lemma first_Some: "first xs = Some x \<longleftrightarrow> (\<exists>r. xs = x # r)"
  by (cases xs) auto

lemma final_Some: "final xs = Some x \<longleftrightarrow> (\<exists>r. xs = r @ [x])"
  by (cases xs rule: rev_cases) auto

lemma first_in: "first xs = Some x \<Longrightarrow> x \<in> set xs"
  by (auto simp: first_Some)

lemma final_in: "final xs = Some x \<Longrightarrow> x \<in> set xs"
  by (auto simp: final_Some)

lemma succ_notin [links]: "x \<notin> set xs \<Longrightarrow> succ_in xs x = None"
  by (induction xs x rule: succ_in.induct) auto

lemma pred_notin [links]: "x \<notin> set xs \<Longrightarrow> pred_in xs x = None"
  by (simp add: pred_in_def succ_notin)

lemma succ_Cons: "succ_in (a # xs) x = (if a = x \<and> xs \<noteq> [] then first xs else succ_in xs x)"
  by (cases xs) auto

lemma succ_append [links]:
  "distinct (xs @ ys) \<Longrightarrow> succ_in (xs @ ys) x =
     (if x \<in> set xs then (if final xs = Some x then first ys else succ_in xs x) else succ_in ys x)"
proof (induction xs)
  case (Cons a xs)
  then show ?case
    by (cases "x = a") (auto simp: succ_Cons first_append final_Cons links dest: final_in)
qed simp

lemma pred_append [links]:
  assumes "distinct (xs @ ys)"
  shows "pred_in (xs @ ys) x =
     (if x \<in> set ys then (if first ys = Some x then final xs else pred_in ys x) else pred_in xs x)"
  using succ_append [of "rev ys" "rev xs" x] assms by (simp add: pred_in_def final_def Int_commute)

lemma succ_one [links]: "succ_in [x] y = None"
  by simp

lemma pred_one [links]: "pred_in [x] y = None"
  by (simp add: pred_in_def)

lemma succ_mid: "distinct (as @ x # bs) \<Longrightarrow> succ_in (as @ x # bs) x = first bs"
  using succ_append [of as "x # bs" x] by (auto simp: succ_Cons links)

lemma pred_mid:
  assumes "distinct (as @ x # bs)"
  shows "pred_in (as @ x # bs) x = final as"
  using pred_append [of as "x # bs" x] assms by auto

lemma pred_Cons: "distinct (a # xs) \<Longrightarrow>
    pred_in (a # xs) x = (if x \<in> set xs then (if first xs = Some x then Some a else pred_in xs x) else None)"
  using pred_append [of "[a]" xs x] by (auto simp: links final_Cons)

section \<open>The invariant\<close>

definition kids :: "(nat \<Rightarrow> nat list) \<Rightarrow> (nat \<times> nat) set" where
  "kids ch = {(x, p). x \<in> set (ch p)}"

definition node_ok :: "(nat \<Rightarrow> nat list) \<Rightarrow> nat \<Rightarrow> mxml_node \<Rightarrow> bool" where
  "node_ok ch x n \<longleftrightarrow>
     (\<forall>p. n_parent n = Some p \<longleftrightarrow> x \<in> set (ch p)) \<and>
     n_child n = first (ch x) \<and> n_last_child n = final (ch x) \<and>
     n_next n = Option.bind (n_parent n) (\<lambda>p. succ_in (ch p) x) \<and>
     n_prev n = Option.bind (n_parent n) (\<lambda>p. pred_in (ch p) x)"

definition forest :: "(nat \<Rightarrow> mxml_node option) \<Rightarrow> (nat \<Rightarrow> nat list) \<Rightarrow> bool" where
  "forest c ch \<longleftrightarrow>
     (\<forall>p. distinct (ch p)) \<and>
     (\<forall>p x. x \<in> set (ch p) \<longrightarrow> c p \<noteq> None \<and> c x \<noteq> None) \<and>
     (\<forall>x n. c x = Some n \<longrightarrow> node_ok ch x n) \<and>
     wf (kids ch)"

lemma kids_iff [simp]: "(x, p) \<in> kids ch \<longleftrightarrow> x \<in> set (ch p)"
  by (simp add: kids_def)

lemma forestD:
  assumes "forest c ch"
  shows forest_distinct: "distinct (ch p)"
    and forest_live: "x \<in> set (ch p) \<Longrightarrow> c p \<noteq> None \<and> c x \<noteq> None"
    and forest_node: "c x = Some n \<Longrightarrow> node_ok ch x n"
    and forest_wf: "wf (kids ch)"
  using assms by (auto simp: forest_def)

lemma forest_irrefl: "forest c ch \<Longrightarrow> x \<notin> set (ch x)"
  using wf_not_refl [OF forest_wf, of c ch x] by simp

lemma forest_parent: "forest c ch \<Longrightarrow> c x = Some n \<Longrightarrow> n_parent n = Some p \<longleftrightarrow> x \<in> set (ch p)"
  using forest_node [of c ch x n] by (simp add: node_ok_def)

lemma forest_one_parent:
  assumes "forest c ch" "x \<in> set (ch p)" "x \<in> set (ch q)"
  shows "p = q"
proof -
  obtain n where "c x = Some n" using forest_live [OF assms(1,2)] by auto
  then show ?thesis using forest_parent [OF assms(1)] assms(2,3) by (metis option.inject)
qed

lemma forest_orphan: "forest c ch \<Longrightarrow> c x = Some n \<Longrightarrow> n_parent n = None \<longleftrightarrow> (\<forall>p. x \<notin> set (ch p))"
  using forest_parent [of c ch x n] by (cases "n_parent n") auto

lemma forest_kid:
  assumes "forest c ch" "ch p = as @ x # bs"
  obtains n where "c x = Some n" "n_parent n = Some p" "n_next n = first bs" "n_prev n = final as"
proof -
  obtain n where n: "c x = Some n" using forest_live [OF assms(1), of x p] assms(2) by auto
  moreover have p: "n_parent n = Some p" using forest_parent [OF assms(1) n, of p] assms(2) by simp
  moreover have "n_next n = first bs" "n_prev n = final as"
    using forest_node [OF assms(1) n] forest_distinct [OF assms(1), of p] p assms(2)
    by (simp_all add: node_ok_def succ_mid pred_mid)
  ultimately show ?thesis using that by blast
qed

section \<open>Unlinking\<close>

definition drop_link :: "(nat \<Rightarrow> nat list) \<Rightarrow> nat \<Rightarrow> nat \<Rightarrow> nat list" where
  "drop_link ch x p = filter (\<lambda>y. y \<noteq> x) (ch p)"

lemma filter_other: "x \<notin> set xs \<Longrightarrow> filter (\<lambda>y. y \<noteq> x) xs = xs"
  by (induction xs) auto

lemma drop_link_none: "(\<And>p. x \<notin> set (ch p)) \<Longrightarrow> drop_link ch x = ch"
  by (rule ext) (simp add: drop_link_def filter_other)

lemma drop_link_split:
  assumes "forest c ch" "ch p = as @ x # bs"
  shows "drop_link ch x = ch(p := as @ bs)"
proof (rule ext)
  fix q
  show "drop_link ch x q = (ch(p := as @ bs)) q"
  proof (cases "q = p")
    case True
    then show ?thesis
      using forest_distinct [OF assms(1), of p] assms(2) by (auto simp: drop_link_def filter_other)
  next
    case False
    then have "x \<notin> set (ch q)" using forest_one_parent [OF assms(1), of x p q] assms(2) by auto
    then show ?thesis using False by (simp add: drop_link_def filter_other)
  qed
qed

lemma kids_drop: "kids (drop_link ch x) \<subseteq> kids ch"
  by (auto simp: kids_def drop_link_def)

section \<open>Edits of one cell\<close>

definition payload :: "mxml_node \<Rightarrow> mxml_type \<times> mxml_value \<times> int" where
  "payload n = (n_type n, n_value n, n_ref_count n)"

definition same_data :: "xheap \<Rightarrow> xheap \<Rightarrow> bool" where
  "same_data h h' \<longleftrightarrow> tick h' = tick h \<and> grants h' = grants h \<and> destroyed h' = destroyed h \<and>
     reports h' = reports h \<and> (\<forall>y. map_option payload (cells h' y) = map_option payload (cells h y))"

definition ed :: "nat \<Rightarrow> (mxml_node \<Rightarrow> mxml_node) \<Rightarrow> xheap \<Rightarrow> xheap" where
  "ed x f h = h\<lparr>cells := \<lambda>y. if y = x then map_option f (cells h y) else cells h y\<rparr>"

lemma cells_ed: "cells (ed x f h) y = (if y = x then map_option f (cells h y) else cells h y)"
  by (simp add: ed_def)

lemma wr_ed: "cells h x \<noteq> None \<Longrightarrow> wr x f h = Ret (ed x f h)"
  by (auto simp: wr_def ed_def fun_eq_iff intro!: arg_cong [of _ _ "\<lambda>c. h\<lparr>cells := c\<rparr>"])

lemma live_ed [simp]: "cells (ed x f h) y = None \<longleftrightarrow> cells h y = None"
  by (simp add: cells_ed)

lemma same_refl [simp]: "same_data h h"
  by (simp add: same_data_def)

lemma same_trans: "same_data h h1 \<Longrightarrow> same_data h1 h2 \<Longrightarrow> same_data h h2"
  by (simp add: same_data_def)

lemma same_live: "same_data h h' \<Longrightarrow> cells h' y = None \<longleftrightarrow> cells h y = None"
  unfolding same_data_def by (metis option.map_disc_iff)

lemma same_ed: "same_data h h' \<Longrightarrow> (\<And>n. payload (f n) = payload n) \<Longrightarrow> same_data h (ed x f h')"
  by (auto simp: same_data_def ed_def option.map_comp o_def)

lemma payload_links [simp]:
  "payload (n_next_update f n) = payload n" "payload (n_prev_update f n) = payload n"
  "payload (n_parent_update f n) = payload n" "payload (n_child_update f n) = payload n"
  "payload (n_last_child_update f n) = payload n"
  by (simp_all add: payload_def)

lemma rd_Some: "cells h x = Some n \<Longrightarrow> rd h x = Ret n"
  by (simp add: rd_def)

text \<open>Unlinking \<open>x\<close> from \<open>as @ x # bs\<close>: its neighbours, or the ends of the list, are joined, and its own links cleared.\<close>

definition unlink :: "nat \<Rightarrow> nat list \<Rightarrow> nat \<Rightarrow> nat list \<Rightarrow> xheap \<Rightarrow> xheap" where
  "unlink p as x bs h =
     ed x (n_next_update (\<lambda>_. None)) (ed x (n_prev_update (\<lambda>_. None)) (ed x (n_parent_update (\<lambda>_. None))
       ((case bs of b # _ \<Rightarrow> ed b (n_prev_update (\<lambda>_. final as)) | [] \<Rightarrow> ed p (n_last_child_update (\<lambda>_. final as)))
         ((if as = [] then ed p (n_child_update (\<lambda>_. first bs)) else ed (last as) (n_next_update (\<lambda>_. first bs))) h))))"

lemma Remove_unlink:
  assumes f: "forest (cells h) ch" and p: "ch p = as @ x # bs"
  shows "mxmlRemove (Some x) h = Ret (unlink p as x bs h)"
proof -
  obtain n where n: "cells h x = Some n" "n_parent n = Some p" "n_next n = first bs" "n_prev n = final as"
    using forest_kid [OF f p] by blast
  have d: "distinct (as @ x # bs)" using forest_distinct [OF f, of p] p by simp
  have live: "y \<in> set as \<union> set bs \<Longrightarrow> cells h y \<noteq> None" "cells h p \<noteq> None" for y
    using forest_live [OF f, of y p] forest_live [OF f, of x p] p by auto
  have px: "p \<noteq> x" using forest_irrefl [OF f, of p] p by auto
  show ?thesis
    using n d live px
    by (cases as rule: rev_cases; cases bs)
       (simp_all add: mxmlRemove_def unlink_def rd_Some wr_ed cells_ed)
qed

lemma forestI:
  assumes "forest c ch"
    and "\<And>p. distinct (ch' p)"
    and "\<And>p x. x \<in> set (ch' p) \<Longrightarrow> c' p \<noteq> None \<and> c' x \<noteq> None"
    and "\<And>x n. c' x = Some n \<Longrightarrow> node_ok ch' x n"
    and "kids ch' \<subseteq> kids ch"
  shows "forest c' ch'"
  using assms wf_subset [OF forest_wf] unfolding forest_def by blast

lemma unlink_live [simp]: "cells (unlink p as x bs h) y = None \<longleftrightarrow> cells h y = None"
  by (auto simp: unlink_def split: list.split)

lemma unlink_same: "same_data h (unlink p as x bs h)"
  unfolding unlink_def by (cases bs) (auto intro!: same_ed)

lemma unlink_forest:
  assumes f: "forest (cells h) ch" and p: "ch p = as @ x # bs"
  shows "forest (cells (unlink p as x bs h)) (ch(p := as @ bs))"
proof -
  have d: "distinct (as @ x # bs)" using forest_distinct [OF f, of p] p by simp
  have live: "y \<in> set as \<union> set bs \<Longrightarrow> cells h y \<noteq> None" "cells h p \<noteq> None" for y
    using forest_live [OF f, of y p] forest_live [OF f, of x p] p by auto
  have pn: "p \<notin> set (as @ x # bs)" using forest_irrefl [OF f, of p] p by auto
  show ?thesis
  proof (rule forestI [OF f])
    fix y n' assume "cells (unlink p as x bs h) y = Some n'"
    then obtain n where n: "cells h y = Some n"
      and n': "n_parent n' = (if y = x then None else n_parent n)"
        "n_next n' = (if y = x then None else if final as = Some y then first bs else n_next n)"
        "n_prev n' = (if y = x then None else if first bs = Some y then final as else n_prev n)"
        "n_child n' = (if y = p \<and> as = [] then first bs else n_child n)"
        "n_last_child n' = (if y = p \<and> bs = [] then final as else n_last_child n)"
      using d pn
      by (cases as rule: rev_cases; cases bs) (auto simp: unlink_def cells_ed split: if_splits)
    have par: "n_parent n = Some q \<longleftrightarrow> y \<in> set (ch q)" for q by (rule forest_parent [OF f n])
    have ends: "final as = Some y \<Longrightarrow> y \<in> set as" "first bs = Some y \<Longrightarrow> y \<in> set bs"
      by (auto simp: final_Some first_Some)
    have ok: "node_ok ch y n" by (rule forest_node [OF f n])
    have other: "y \<in> set as \<union> set bs \<longleftrightarrow> n_parent n = Some p" if "y \<noteq> x"
      using par [of p] p that by auto
    show "node_ok (ch(p := as @ bs)) y n'"
    proof (cases "y = x")
      case True
      have "y \<notin> set (ch q)" if "q \<noteq> p" for q
        using that True forest_one_parent [OF f, of y p q] p by auto
      then show ?thesis using True ok pn d n' by (auto simp: node_ok_def)
    next
      case False
      have "n_parent n' = n_parent n" using n' False by auto
      moreover have "y \<in> set ((ch(p := as @ bs)) q) \<longleftrightarrow> y \<in> set (ch q)" for q
        using False p by auto
      moreover have "n_next n' = Option.bind (n_parent n) (\<lambda>q. succ_in ((ch(p := as @ bs)) q) y)"
        using n' False ok p pn d ends other
        by (cases "n_parent n"; cases "n_parent n = Some p") (auto simp: node_ok_def links succ_Cons split: if_splits)
      moreover have "n_prev n' = Option.bind (n_parent n) (\<lambda>q. pred_in ((ch(p := as @ bs)) q) y)"
        using n' False ok p pn d ends other
        by (cases "n_parent n"; cases "n_parent n = Some p") (auto simp: node_ok_def links pred_Cons final_Cons split: if_splits)
      moreover have "n_child n' = first ((ch(p := as @ bs)) y)" "n_last_child n' = final ((ch(p := as @ bs)) y)"
        using n' False ok p by (auto simp: node_ok_def first_append final_append final_Cons)
      ultimately show ?thesis using par unfolding node_ok_def by metis
    qed
  next
    fix q y assume "y \<in> set ((ch(p := as @ bs)) q)"
    then have "y \<in> set (ch q)" using p by (auto split: if_splits)
    then show "cells (unlink p as x bs h) q \<noteq> None \<and> cells (unlink p as x bs h) y \<noteq> None"
      using forest_live [OF f, of y q] by simp
  qed (use forest_distinct [OF f] d p in \<open>auto simp: kids_def split: if_splits\<close>)
qed

lemma Remove_forest:
  assumes f: "forest (cells h) ch" and x: "cells h x \<noteq> None"
  obtains h' where "mxmlRemove (Some x) h = Ret h'" "forest (cells h') (drop_link ch x)" "same_data h h'"
proof (cases "\<exists>p. x \<in> set (ch p)")
  case True
  then obtain p as bs where p: "ch p = as @ x # bs" by (auto dest: split_list)
  show ?thesis
    using that [OF Remove_unlink [OF f p]] unlink_forest [OF f p] unlink_same [of h p as x bs] drop_link_split [OF f p]
    by simp
next
  case False
  obtain n where n: "cells h x = Some n" using x by blast
  then have "n_parent n = None" using False forest_orphan [OF f n] by blast
  then have "mxmlRemove (Some x) h = Ret h" by (simp add: mxmlRemove_def rd_Some [OF n])
  then show ?thesis using that [of h] False f drop_link_none [of x ch] by simp
qed

section \<open>Linking\<close>

definition insert_pos :: "int \<Rightarrow> nat option \<Rightarrow> nat list \<Rightarrow> nat list \<times> nat list" where
  "insert_pos pos child xs =
     (if pos = MXML_ADD_BEFORE then
        (case child of Some c \<Rightarrow> if c \<in> set xs then (takeWhile (\<lambda>y. y \<noteq> c) xs, dropWhile (\<lambda>y. y \<noteq> c) xs) else ([], xs)
         | None \<Rightarrow> ([], xs))
      else
        (case child of Some c \<Rightarrow> if c \<in> set xs then (takeWhile (\<lambda>y. y \<noteq> c) xs @ [c], tl (dropWhile (\<lambda>y. y \<noteq> c) xs)) else (xs, [])
         | None \<Rightarrow> (xs, [])))"

definition insert_kid :: "int \<Rightarrow> nat option \<Rightarrow> nat \<Rightarrow> nat list \<Rightarrow> nat list" where
  "insert_kid pos child x xs = (case insert_pos pos child xs of (as, bs) \<Rightarrow> as @ x # bs)"

definition linked :: "nat \<Rightarrow> nat list \<Rightarrow> nat \<Rightarrow> nat list \<Rightarrow> xheap \<Rightarrow> xheap \<Rightarrow> bool" where
  "linked p as x bs h h' \<longleftrightarrow> same_data h h' \<and>
     (\<forall>y n n'. cells h y = Some n \<longrightarrow> cells h' y = Some n' \<longrightarrow>
        n_parent n' = (if y = x then Some p else n_parent n) \<and>
        n_next n' = (if y = x then first bs else if final as = Some y then Some x else n_next n) \<and>
        n_prev n' = (if y = x then final as else if first bs = Some y then Some x else n_prev n) \<and>
        n_child n' = (if y = p \<and> as = [] then Some x else n_child n) \<and>
        n_last_child n' = (if y = p \<and> bs = [] then Some x else n_last_child n))"

lemma around:
  assumes "c \<in> set xs"
  shows "dropWhile (\<lambda>y. y \<noteq> c) xs = c # tl (dropWhile (\<lambda>y. y \<noteq> c) xs)"
    and "takeWhile (\<lambda>y. y \<noteq> c) xs @ c # tl (dropWhile (\<lambda>y. y \<noteq> c) xs) = xs"
proof -
  have "dropWhile (\<lambda>y. y \<noteq> c) xs \<noteq> []" using assms by (auto simp: dropWhile_eq_Nil_conv)
  then show *: "dropWhile (\<lambda>y. y \<noteq> c) xs = c # tl (dropWhile (\<lambda>y. y \<noteq> c) xs)"
    using hd_dropWhile [of "\<lambda>y. y \<noteq> c" xs] by (cases "dropWhile (\<lambda>y. y \<noteq> c) xs") auto
  show "takeWhile (\<lambda>y. y \<noteq> c) xs @ c # tl (dropWhile (\<lambda>y. y \<noteq> c) xs) = xs"
    using takeWhile_dropWhile_id [of "\<lambda>y. y \<noteq> c" xs] * by simp
qed

lemma insert_pos_split: "insert_pos pos child xs = (as, bs) \<Longrightarrow> xs = as @ bs"
  using around(2) [symmetric] by (auto simp: insert_pos_def split: option.splits if_splits)

lemma add_first_linked:
  assumes "cells h x = Some n" "n_prev n = None" "cells h p = Some pn" "p \<noteq> x" "n_child pn = first bs"
    and "distinct bs" "x \<notin> set bs" "p \<notin> set bs" "\<And>y. y \<in> set bs \<Longrightarrow> cells h y \<noteq> None"
  shows "\<exists>h'. add_first p x (ed x (n_parent_update (\<lambda>_. Some p)) h) = Ret h' \<and> linked p [] x bs h h'"
proof (cases bs)
  case Nil
  then show ?thesis using assms
    by (auto simp: add_first_def rd_Some wr_ed cells_ed linked_def same_ed)
next
  case (Cons b r)
  then have "cells h b \<noteq> None" using assms(9) by simp
  then show ?thesis using assms(1-8) Cons
    by (auto simp: add_first_def rd_Some wr_ed cells_ed linked_def same_ed)
qed

lemma add_last_linked:
  assumes "cells h x = Some n" "n_next n = None" "cells h p = Some pn" "p \<noteq> x" "n_last_child pn = final as"
    and "distinct as" "x \<notin> set as" "p \<notin> set as" "\<And>y. y \<in> set as \<Longrightarrow> cells h y \<noteq> None"
  shows "\<exists>h'. add_last p x (ed x (n_parent_update (\<lambda>_. Some p)) h) = Ret h' \<and> linked p as x [] h h'"
proof (cases as rule: rev_cases)
  case Nil
  then show ?thesis using assms
    by (auto simp: add_last_def rd_Some wr_ed cells_ed linked_def same_ed)
next
  case (snoc r b)
  then have "cells h b \<noteq> None" using assms(9) by simp
  then show ?thesis using assms(1-8) snoc
    by (auto simp: add_last_def rd_Some wr_ed cells_ed linked_def same_ed)
qed

lemma add_before_linked:
  assumes "cells h x = Some n" "cells h p = Some pn" "p \<noteq> x"
    and c: "cells h c = Some cn" "n_prev cn = final as" and d: "distinct (as @ c # r)" "x \<notin> set (as @ c # r)" "p \<notin> set (as @ c # r)"
    and "\<And>y. y \<in> set as \<Longrightarrow> cells h y \<noteq> None" "as \<noteq> []"
  shows "\<exists>h'. add_before p c x (ed x (n_parent_update (\<lambda>_. Some p)) h) = Ret h' \<and> linked p as x (c # r) h h'"
proof -
  obtain as' b where b: "as = as' @ [b]" using assms(10) by (cases as rule: rev_cases) auto
  then have "cells h b \<noteq> None" using assms(9) by simp
  then show ?thesis using assms(1-8) b
    by (auto simp: add_before_def rd_Some wr_ed cells_ed linked_def same_ed)
qed

lemma add_after_linked:
  assumes "cells h x = Some n" "cells h p = Some pn" "p \<noteq> x"
    and c: "cells h c = Some cn" "n_next cn = first bs" and d: "distinct (r @ c # bs)" "x \<notin> set (r @ c # bs)" "p \<notin> set (r @ c # bs)"
    and "\<And>y. y \<in> set bs \<Longrightarrow> cells h y \<noteq> None" "bs \<noteq> []"
  shows "\<exists>h'. add_after p c x (ed x (n_parent_update (\<lambda>_. Some p)) h) = Ret h' \<and> linked p (r @ [c]) x bs h h'"
proof -
  obtain b bs' where b: "bs = b # bs'" using assms(10) by (cases bs) auto
  then have "cells h b \<noteq> None" using assms(9) by simp
  then show ?thesis using assms(1-8) b
    by (auto simp: add_after_def rd_Some wr_ed cells_ed linked_def same_ed)
qed

lemma add_linked:
  assumes f: "forest (cells h) ch" and x: "cells h x = Some n" "n_parent n = None" and p: "cells h p = Some pn" "p \<noteq> x"
    and c: "child \<noteq> Some x" "\<And>c. child = Some c \<Longrightarrow> cells h c \<noteq> None"
    and pos: "pos = MXML_ADD_BEFORE \<or> pos = MXML_ADD_AFTER" and s: "insert_pos pos child (ch p) = (as, bs)"
  shows "\<exists>h'. mxmlAdd (Some p) pos child (Some x) h = Ret h' \<and> linked p as x bs h h'"
proof -
  define h1 where "h1 = ed x (n_parent_update (\<lambda>_. Some p)) h"
  have ch: "ch p = as @ bs" by (rule insert_pos_split [OF s])
  have d: "distinct (as @ bs)" using forest_distinct [OF f, of p] ch by simp
  have xp: "x \<notin> set (as @ bs)" using forest_parent [OF f x(1), of p] x(2) ch by simp
  have pp: "p \<notin> set (as @ bs)" using forest_irrefl [OF f, of p] ch by simp
  have live: "y \<in> set (as @ bs) \<Longrightarrow> cells h y \<noteq> None" for y using forest_live [OF f, of y p] ch by simp
  have nx: "n_next n = None" "n_prev n = None" using forest_node [OF f x(1)] x(2) by (simp_all add: node_ok_def)
  have pe: "n_child pn = first (as @ bs)" "n_last_child pn = final (as @ bs)"
    using forest_node [OF f p(1)] ch by (simp_all add: node_ok_def)
  have eval: "mxmlAdd (Some p) pos child (Some x) h =
      (if pos = MXML_ADD_BEFORE then
         cbind (at_end child (n_child pn) p h1) (\<lambda>e. if e then add_first p x h1 else add_before p (the child) x h1)
       else cbind (at_end child (n_last_child pn) p h1) (\<lambda>e. if e then add_last p x h1 else add_after p (the child) x h1))"
  proof -
    have "rd h1 p = Ret pn" using p by (simp add: rd_Some cells_ed h1_def)
    moreover have "set_parent x (Some p) h = Ret h1" using x by (simp add: wr_ed h1_def)
    ultimately show ?thesis using x(2) pos by (auto simp: mxmlAdd_def rd_Some [OF x(1)])
  qed
  have cn: "\<exists>n. cells h1 c = Some n \<and> (n_parent n = Some p \<longleftrightarrow> c \<in> set (as @ bs))" if cc: "child = Some c" for c
  proof -
    obtain n' where n': "cells h c = Some n'" using c(2) [OF cc] by blast
    then show ?thesis using c(1) cc forest_parent [OF f n', of p] ch by (simp add: h1_def cells_ed)
  qed
  have mid: "\<exists>c. child = Some c \<and> c \<in> set (as @ bs)" if "at_end child e p h1 \<noteq> Ret True" for e
    using that cn by (auto simp: at_end_def rd_def split: option.splits if_splits)
  have inner: "at_end child e p h1 = Ret False" if "child = Some c" "c \<in> set (as @ bs)" "e \<noteq> Some c" for c e
    using that cn [OF that(1)] by (auto simp: at_end_def rd_Some)
  show ?thesis
  proof (cases "pos = MXML_ADD_BEFORE")
    case True
    then have sb: "bs = c # tl bs" "as = takeWhile (\<lambda>y. y \<noteq> c) (ch p)" if "child = Some c" "c \<in> set (as @ bs)" for c
      using s that around(1) [of c "ch p"] ch by (auto simp: insert_pos_def)
    have sn: "as = []" if "\<And>c. child = Some c \<Longrightarrow> c \<notin> set (as @ bs)"
      using s that True ch by (auto simp: insert_pos_def split: option.splits if_splits)
    show ?thesis
    proof (cases "as = []")
      case True
      have "at_end child (n_child pn) p h1 = Ret True"
      proof (rule ccontr)
        assume a: "at_end child (n_child pn) p h1 \<noteq> Ret True"
        then obtain c where c: "child = Some c" "c \<in> set (as @ bs)" using mid by blast
        then have "n_child pn = Some c" using sb(1) [OF c] True pe(1) by (metis append_Nil first_simps(2))
        then show False using a c(1) by (simp add: at_end_def)
      qed
      then show ?thesis
        using add_first_linked [OF x(1) nx(2) p(1,2), of bs] True d xp pp live pe \<open>pos = MXML_ADD_BEFORE\<close>
        unfolding eval by (simp add: h1_def)
    next
      case False
      then obtain c where c': "child = Some c" "c \<in> set (as @ bs)" using sn by blast
      then obtain r where r: "bs = c # r" using sb(1) by blast
      have "n_child pn \<noteq> Some c" using pe(1) False d r by (cases as) auto
      then have "at_end child (n_child pn) p h1 = Ret False" using inner c' by blast
      moreover obtain cn where "cells h c = Some cn" "n_prev cn = final as"
        using forest_kid [OF f, of p as c r] ch r by blast
      ultimately show ?thesis
        using add_before_linked [OF x(1) p, of c cn as r] False d xp pp live \<open>pos = MXML_ADD_BEFORE\<close> c'(1)
        unfolding r
        unfolding eval by (simp add: h1_def)
    qed
  next
    case False
    then have sb: "as = takeWhile (\<lambda>y. y \<noteq> c) (ch p) @ [c]" if "child = Some c" "c \<in> set (as @ bs)" for c
      using s that ch by (auto simp: insert_pos_def)
    have sn: "bs = []" if "\<And>c. child = Some c \<Longrightarrow> c \<notin> set (as @ bs)"
      using s that False ch by (auto simp: insert_pos_def split: option.splits if_splits)
    show ?thesis
    proof (cases "bs = []")
      case True
      have "at_end child (n_last_child pn) p h1 = Ret True"
      proof (rule ccontr)
        assume a: "at_end child (n_last_child pn) p h1 \<noteq> Ret True"
        then obtain c where c: "child = Some c" "c \<in> set (as @ bs)" using mid by blast
        then have "n_last_child pn = Some c" using sb [OF c] True pe(2) by (metis append_Nil2 final_simps(2))
        then show False using a c(1) by (simp add: at_end_def)
      qed
      then show ?thesis
        using add_last_linked [OF x(1) nx(1) p(1,2), of as] True d xp pp live pe False
        unfolding eval by (simp add: h1_def)
    next
      case F: False
      then obtain c where c': "child = Some c" "c \<in> set (as @ bs)" using sn by blast
      then obtain r where r: "as = r @ [c]" using sb by blast
      have "n_last_child pn \<noteq> Some c" using pe(2) F d r by (cases bs rule: rev_cases) (auto simp: final_append final_Cons)
      then have "at_end child (n_last_child pn) p h1 = Ret False" using inner c' by blast
      moreover obtain cn where "cells h c = Some cn" "n_next cn = first bs"
        using forest_kid [OF f, of p r c bs] ch r by auto
      ultimately show ?thesis
        using add_after_linked [OF x(1) p, of c cn bs r] False F d xp pp live c'(1)
        unfolding r
        unfolding eval by (simp add: h1_def)
    qed
  qed
qed

lemma insert_pos_before: "fst (insert_pos pos child xs) @ snd (insert_pos pos child xs) = xs"
  using insert_pos_split [of pos child xs] by (cases "insert_pos pos child xs") auto

lemma linked_forest:
  assumes f: "forest (cells h) ch" and ch: "ch p = as @ bs" and x: "cells h x = Some n" "n_parent n = None"
    and l: "linked p as x bs h h'" and p: "cells h p \<noteq> None" "(p, x) \<notin> (kids ch)\<^sup>*"
  shows "forest (cells h') (ch(p := as @ x # bs))"
proof -
  have px: "p \<noteq> x" using p(2) by auto
  have d: "distinct (as @ bs)" using forest_distinct [OF f, of p] ch by simp
  have xq: "x \<notin> set (ch q)" for q using forest_parent [OF f x(1), of q] x(2) by simp
  have xp: "x \<notin> set as" "x \<notin> set bs" using xq [of p] ch by auto
  have pp: "p \<notin> set (as @ bs)" using forest_irrefl [OF f, of p] ch by simp
  have live: "cells h' y = None \<longleftrightarrow> cells h y = None" for y
    using l same_live unfolding linked_def by blast
  let ?ch = "ch(p := as @ x # bs)"
  have "node_ok ?ch y n'" if n': "cells h' y = Some n'" for y n'
  proof -
    obtain n where n: "cells h y = Some n" using live [of y] n' by fastforce
    have par: "n_parent n = Some q \<longleftrightarrow> y \<in> set (ch q)" for q by (rule forest_parent [OF f n])
    have ok: "node_ok ch y n" by (rule forest_node [OF f n])
    have ends: "final as = Some y \<Longrightarrow> y \<in> set as" "first bs = Some y \<Longrightarrow> y \<in> set bs"
      by (auto simp: final_Some first_Some)
    have e: "n_parent n' = (if y = x then Some p else n_parent n)"
      "n_next n' = (if y = x then first bs else if final as = Some y then Some x else n_next n)"
      "n_prev n' = (if y = x then final as else if first bs = Some y then Some x else n_prev n)"
      "n_child n' = (if y = p \<and> as = [] then Some x else n_child n)"
      "n_last_child n' = (if y = p \<and> bs = [] then Some x else n_last_child n)"
      using l n n' unfolding linked_def by blast+
    have "n_child n' = first (?ch y)" "n_last_child n' = final (?ch y)"
      using e(4,5) ok ch by (auto simp: node_ok_def first_append final_append final_Cons)
    moreover have "n_parent n' = Some q \<longleftrightarrow> y \<in> set (?ch q)" for q
      using e(1) par [of q] xq [of q] ch px by auto
    moreover have "n_next n' = Option.bind (n_parent n') (\<lambda>q. succ_in (?ch q) y)"
    proof (cases "y = x")
      case True
      then show ?thesis using e(1,2) d xp by (simp add: succ_mid)
    next
      case False
      then have n': "n_parent n' = n_parent n" "n_next n' = (if final as = Some y then Some x else n_next n)"
        using e(1,2) by simp_all
      show ?thesis
      proof (cases "n_parent n = Some p")
        case True
        then have "y \<in> set as \<union> set bs" using par [of p] ch by simp
        then show ?thesis using True n' False d xp ok ch ends by (auto simp: node_ok_def links succ_Cons)
      next
        case other: False
        then have "final as \<noteq> Some y" using par [of p] ch ends by auto
        then show ?thesis using other n' ok by (cases "n_parent n") (auto simp: node_ok_def)
      qed
    qed
    moreover have "n_prev n' = Option.bind (n_parent n') (\<lambda>q. pred_in (?ch q) y)"
    proof (cases "y = x")
      case True
      then show ?thesis using e(1,3) d xp by (simp add: pred_mid)
    next
      case False
      then have n': "n_parent n' = n_parent n" "n_prev n' = (if first bs = Some y then Some x else n_prev n)"
        using e(1,3) by simp_all
      show ?thesis
      proof (cases "n_parent n = Some p")
        case True
        then have "y \<in> set as \<union> set bs" using par [of p] ch by simp
        then show ?thesis using True n' False d xp ok ch ends by (auto simp: node_ok_def links pred_Cons)
      next
        case other: False
        then have "first bs \<noteq> Some y" using par [of p] ch ends by auto
        then show ?thesis using other n' ok by (cases "n_parent n") (auto simp: node_ok_def)
      qed
    qed
    ultimately show ?thesis unfolding node_ok_def by blast
  qed
  moreover have "kids ?ch = insert (x, p) (kids ch)" using ch by (auto simp: kids_def split: if_splits)
  then have "wf (kids ?ch)" using forest_wf [OF f] p(2) by (simp add: wf_insert)
  moreover have "distinct (?ch q)" for q using forest_distinct [OF f, of q] d xp by auto
  moreover have "cells h' q \<noteq> None \<and> cells h' y \<noteq> None" if "y \<in> set (?ch q)" for q y
    using that forest_live [OF f, of y q] ch live x p(1) by (auto split: if_splits)
  ultimately show ?thesis unfolding forest_def by blast
qed

lemma same_data_payload: "same_data h h' \<Longrightarrow> cells h x = Some n \<Longrightarrow> \<exists>n'. cells h' x = Some n' \<and> payload n' = payload n"
  unfolding same_data_def by (metis map_option_eq_Some)

lemma Add_forest:
  assumes f: "forest (cells h) ch" and x: "cells h x \<noteq> None" and p: "cells h p \<noteq> None" "(p, x) \<notin> (kids ch)\<^sup>*"
    and c: "child \<noteq> Some x" "\<And>c. child = Some c \<Longrightarrow> cells h c \<noteq> None"
    and pos: "pos = MXML_ADD_BEFORE \<or> pos = MXML_ADD_AFTER"
  obtains h' where "mxmlAdd (Some p) pos child (Some x) h = Ret h'" "same_data h h'"
    "forest (cells h') ((drop_link ch x)(p := insert_kid pos child x (drop_link ch x p)))"
proof -
  obtain h1 where h1: "mxmlRemove (Some x) h = Ret h1" "forest (cells h1) (drop_link ch x)" "same_data h h1"
    using Remove_forest [OF f x] by blast
  have live: "cells h1 y \<noteq> None \<longleftrightarrow> cells h y \<noteq> None" for y using same_live [OF h1(3)] by simp
  obtain n1 where n1: "cells h1 x = Some n1" using live x by blast
  have "x \<notin> set (drop_link ch x q)" for q by (simp add: drop_link_def)
  then have o1: "n_parent n1 = None" using forest_orphan [OF h1(2) n1] by blast
  obtain n where n: "cells h x = Some n" using x by blast
  have go: "mxmlAdd (Some p) pos child (Some x) h = mxmlAdd (Some p) pos child (Some x) h1"
    using h1(1) o1 by (auto simp: mxmlAdd_def rd_Some [OF n] rd_Some [OF n1] mxmlRemove_def split: option.splits)
  obtain as bs where s: "insert_pos pos child (drop_link ch x p) = (as, bs)" by fastforce
  obtain pn where pn: "cells h1 p = Some pn" using live p(1) by blast
  have px: "p \<noteq> x" using p(2) by auto
  obtain h' where h': "mxmlAdd (Some p) pos child (Some x) h1 = Ret h'" "linked p as x bs h1 h'"
    using add_linked [OF h1(2) n1 o1 pn px c(1) _ pos s] c(2) live by blast
  have "(p, x) \<notin> (kids (drop_link ch x))\<^sup>*" using p(2) rtrancl_mono [OF kids_drop] by blast
  then have "forest (cells h') ((drop_link ch x)(p := as @ x # bs))"
    using linked_forest [OF h1(2) insert_pos_split [OF s] n1 o1 h'(2)] pn by simp
  then show ?thesis
    using that [of h'] h'(1) go same_trans [OF h1(3)] h'(2) s by (simp add: linked_def insert_kid_def)
qed
end
