(* ===== verification/MxmlHeap.thy ===== *)
theory MxmlHeap
  imports MxmlForest
begin

text \<open>
  The invariant \<open>xinv\<close> of the node heap, and what creating and deleting nodes (\<open>mxml_new\<close>, \<open>mxmlNewElement\<close>, \<open>mxmlDelete\<close> of
  \<open>mxml-node.c\<close>) do to it: a new node becomes the last child of its parent; a deletion ends without a fault, frees the node
  with everything below it, and nothing else. \<open>typed\<close> says that the member of the union in use is the one the type names.
\<close>

section \<open>The heap invariant\<close>

definition ptrs :: "mxml_node \<Rightarrow> nat option \<times> nat option \<times> nat option \<times> nat option \<times> nat option" where
  "ptrs n = (n_parent n, n_next n, n_prev n, n_child n, n_last_child n)"

fun fits :: "mxml_type \<Rightarrow> mxml_value \<Rightarrow> bool" where
  "fits MXML_ELEMENT (VElement _ _) = True"
| "fits MXML_IGNORE (VElement _ _) = True"
| "fits MXML_INTEGER (VInteger _) = True"
| "fits MXML_OPAQUE (VOpaque _) = True"
| "fits MXML_REAL (VReal _) = True"
| "fits MXML_TEXT (VText _ _) = True"
| "fits MXML_CUSTOM (VCustom _ _) = True"
| "fits _ _ = False"

definition typed :: "xheap \<Rightarrow> bool" where
  "typed h \<longleftrightarrow> (\<forall>y n. cells h y = Some n \<longrightarrow> fits (n_type n) (n_value n))"

definition xinv :: "xheap \<Rightarrow> (nat \<Rightarrow> nat list) \<Rightarrow> bool" where
  "xinv h ch \<longleftrightarrow> forest (cells h) ch \<and> (\<forall>y. tick h \<le> y \<longrightarrow> cells h y = None) \<and> typed h"

lemma xinvD:
  assumes "xinv h ch"
  shows xinv_forest: "forest (cells h) ch" and xinv_fresh: "tick h \<le> y \<Longrightarrow> cells h y = None" and xinv_typed: "typed h"
  using assms by (auto simp: xinv_def)

lemma forest_cong:
  assumes f: "forest c ch" and e: "\<And>y. map_option ptrs (c' y) = map_option ptrs (c y)"
  shows "forest c' ch"
proof -
  have live: "c' y = None \<longleftrightarrow> c y = None" for y using e [of y] by (metis option.map_disc_iff)
  have "node_ok ch y n" if n: "c' y = Some n" for y n
  proof -
    obtain n0 where n0: "c y = Some n0" using live [of y] n by fastforce
    then have "ptrs n = ptrs n0" using e [of y] n by simp
    then show ?thesis using forest_node [OF f n0] by (simp add: node_ok_def ptrs_def)
  qed
  then show ?thesis using f live unfolding forest_def by simp
qed

lemma same_typed: "same_data h h' \<Longrightarrow> typed h \<Longrightarrow> typed h'"
proof -
  assume s: "same_data h h'" and t: "typed h"
  have "fits (n_type n) (n_value n)" if n: "cells h' y = Some n" for y n
  proof -
    obtain m where "cells h y = Some m" using same_live [OF s, of y] n by fastforce
    then show ?thesis using same_data_payload [OF s, of y m] n t by (auto simp: payload_def typed_def)
  qed
  then show "typed h'" by (simp add: typed_def)
qed

lemma same_xinv: "xinv h ch \<Longrightarrow> same_data h h' \<Longrightarrow> forest (cells h') ch' \<Longrightarrow> xinv h' ch'"
  using same_typed [of h h'] same_live [of h h'] by (auto simp: xinv_def same_data_def)

section \<open>New nodes\<close>

definition add_kid :: "nat option \<Rightarrow> nat \<Rightarrow> (nat \<Rightarrow> nat list) \<Rightarrow> nat \<Rightarrow> nat list" where
  "add_kid parent x ch = (case parent of None \<Rightarrow> ch | Some p \<Rightarrow> ch(p := ch p @ [x]))"

definition blank_node :: "mxml_type \<Rightarrow> mxml_node" where
  "blank_node type = \<lparr>n_type = type, n_next = None, n_prev = None, n_parent = None, n_child = None, n_last_child = None,
     n_value = zero_value type, n_ref_count = 1\<rparr>"

lemma zero_fits: "fits t (zero_value t)"
  by (cases t) auto

lemma fresh_alone:
  assumes "xinv h ch" "tick h \<le> x"
  shows "ch x = []" "x \<notin> set (ch p)"
proof -
  note live = forest_live [OF xinv_forest [OF assms(1)]] and dead = xinv_fresh [OF assms]
  show "ch x = []" using live [of "hd (ch x)" x] dead by (cases "ch x") auto
  show "x \<notin> set (ch p)" using live [of x p] dead by auto
qed

lemma xinv_born:
  assumes i: "xinv h ch"
  shows "xinv (h\<lparr>tick := Suc (tick h), cells := (cells h)(tick h \<mapsto> blank_node t)\<rparr>) ch"
proof -
  have f: "forest (cells h) ch" by (rule xinv_forest [OF i])
  have "node_ok ch (tick h) (blank_node t)"
    using fresh_alone [OF i order_refl] by (simp add: node_ok_def blank_node_def)
  then have "forest ((cells h)(tick h \<mapsto> blank_node t)) ch"
    using f unfolding forest_def by auto
  moreover have "typed (h\<lparr>tick := Suc (tick h), cells := (cells h)(tick h \<mapsto> blank_node t)\<rparr>)"
    using xinv_typed [OF i] zero_fits [of t] by (simp add: typed_def blank_node_def)
  ultimately show ?thesis using xinv_fresh [OF i] by (simp add: xinv_def)
qed

definition others_same :: "nat \<Rightarrow> xheap \<Rightarrow> xheap \<Rightarrow> bool" where
  "others_same x h h' \<longleftrightarrow> grants h' = grants h \<and> destroyed h' = destroyed h \<and> reports h' = reports h \<and>
     (\<forall>y. y \<noteq> x \<longrightarrow> map_option payload (cells h' y) = map_option payload (cells h y))"

lemma root_unreach: "(\<And>p. x \<notin> set (ch p)) \<Longrightarrow> ch x = [] \<Longrightarrow> (p, x) \<in> (kids ch)\<^sup>* \<Longrightarrow> p = x"
  by (erule rtranclE) auto

definition live_opt :: "xheap \<Rightarrow> nat option \<Rightarrow> bool" where
  "live_opt h p \<longleftrightarrow> (\<forall>x. p = Some x \<longrightarrow> cells h x \<noteq> None)"

lemma new_cases:
  assumes i: "xinv h ch" and p: "live_opt h parent"
  obtains (none) "\<not> grants h (tick h)" "mxml_new parent t h = Ret (None, h\<lparr>tick := Suc (tick h)\<rparr>)"
  | (node) h' n where "grants h (tick h)" "mxml_new parent t h = Ret (Some (tick h), h')" "xinv h' (add_kid parent (tick h) ch)"
      "tick h' = Suc (tick h)" "others_same (tick h) h h'" "cells h' (tick h) = Some n" "payload n = (t, zero_value t, 1)"
proof (cases "grants h (tick h)")
  case False
  then show ?thesis using none by (simp add: mxml_new_def granted_def)
next
  case True
  let ?x = "tick h"
  define h1 where "h1 = h\<lparr>tick := Suc ?x, cells := (cells h)(?x \<mapsto> blank_node t)\<rparr>"
  have i1: "xinv h1 ch" unfolding h1_def by (rule xinv_born [OF i])
  have f1: "forest (cells h1) ch" by (rule xinv_forest [OF i1])
  note al = fresh_alone [OF i order_refl]
  show ?thesis
  proof (cases parent)
    case None
    then show ?thesis
      using node [of h1 "blank_node t"] True i1
      by (simp add: mxml_new_def granted_def add_kid_def blank_node_def h1_def others_same_def payload_def Let_def)
  next
    case (Some p)
    have px: "p \<noteq> ?x" "cells h1 p \<noteq> None" using p Some xinv_fresh [OF i, of ?x] by (auto simp: h1_def live_opt_def)
    obtain h' where h': "mxmlAdd (Some p) MXML_ADD_AFTER None (Some ?x) h1 = Ret h'" "same_data h1 h'"
      "forest (cells h') ((drop_link ch ?x)(p := insert_kid MXML_ADD_AFTER None ?x (drop_link ch ?x p)))"
      using Add_forest [OF f1, of ?x p None MXML_ADD_AFTER] px root_unreach [of ?x ch p] al
      by (force simp: h1_def)
    have "(drop_link ch ?x)(p := insert_kid MXML_ADD_AFTER None ?x (drop_link ch ?x p)) = add_kid parent ?x ch"
      using al Some
      by (simp add: drop_link_none add_kid_def insert_kid_def insert_pos_def MXML_ADD_AFTER_def MXML_ADD_BEFORE_def)
    then have i2: "xinv h' (add_kid parent ?x ch)" using same_xinv [OF i1 h'(2)] h'(3) by simp
    have "map_option payload (cells h' ?x) = Some (t, zero_value t, 1)"
      using h'(2) by (simp add: same_data_def h1_def blank_node_def payload_def)
    then obtain n where n: "cells h' ?x = Some n" "payload n = (t, zero_value t, 1)" by auto
    have "others_same ?x h h'" using h'(2) by (auto simp: same_data_def others_same_def h1_def)
    then show ?thesis
      using node [of h' n] True h'(1,2) Some i2 n
      by (simp add: mxml_new_def granted_def h1_def blank_node_def same_data_def Let_def)
  qed
qed

lemma xinv_tick: "xinv h ch \<Longrightarrow> tick h \<le> k \<Longrightarrow> xinv (h\<lparr>tick := k\<rparr>) ch"
  by (simp add: xinv_def typed_def)

lemma xinv_edit:
  assumes i: "xinv h ch" and n: "cells h x = Some n" and t: "fits (n_type (f n)) (n_value (f n))" and e: "\<And>n. ptrs (f n) = ptrs n"
  shows "xinv (ed x f h) ch"
proof -
  have "forest (cells (ed x f h)) ch"
    by (rule forest_cong [OF xinv_forest [OF i]]) (simp add: cells_ed option.map_comp o_def e)
  moreover have "typed (ed x f h)"
    using xinv_typed [OF i] n t by (auto simp: typed_def cells_ed)
  ultimately show ?thesis using xinv_fresh [OF i] by (auto simp: xinv_def cells_ed ed_def)
qed

lemma ptrs_data [simp]: "ptrs (n_value_update f n) = ptrs n" "ptrs (n_ref_count_update g n) = ptrs n"
  by (simp_all add: ptrs_def)

lemma others_ed: "others_same x h h' \<Longrightarrow> others_same x h (ed x f h')"
  by (auto simp: others_same_def ed_def)

lemma new_with_cases:
  assumes i: "xinv h ch" and p: "live_opt h parent" and v: "fits t v"
    and fill: "\<And>g. tick g = Suc (tick h) \<Longrightarrow> grants g = grants h \<Longrightarrow> fill g = (v, g\<lparr>tick := k\<rparr>)" "Suc (tick h) \<le> k"
  obtains (none) "\<not> grants h (tick h)" "new_with parent t fill h = Ret (None, h\<lparr>tick := Suc (tick h)\<rparr>)"
  | (node) h' n where "grants h (tick h)" "new_with parent t fill h = Ret (Some (tick h), h')" "xinv h' (add_kid parent (tick h) ch)"
      "tick h' = k" "others_same (tick h) h h'" "cells h' (tick h) = Some n" "payload n = (t, v, 1)"
proof (rule new_cases [OF i p, of t])
  assume "\<not> grants h (tick h)" "mxml_new parent t h = Ret (None, h\<lparr>tick := Suc (tick h)\<rparr>)"
  then show ?thesis using that(1) by (simp add: new_with_def)
next
  fix h1 n
  assume node: "grants h (tick h)" "mxml_new parent t h = Ret (Some (tick h), h1)" "xinv h1 (add_kid parent (tick h) ch)"
    "tick h1 = Suc (tick h)" "others_same (tick h) h h1" "cells h1 (tick h) = Some n" "payload n = (t, zero_value t, 1)"
  let ?x = "tick h"
  define h2 where "h2 = h1\<lparr>tick := k\<rparr>"
  have g: "fill h1 = (v, h2)" using fill(1) [of h1] node(4,5) by (simp add: others_same_def h2_def)
  have i2: "xinv h2 (add_kid parent ?x ch)" unfolding h2_def using xinv_tick [OF node(3)] node(4) fill(2) by simp
  have n2: "cells h2 ?x = Some n" using node(6) by (simp add: h2_def)
  have "xinv (ed ?x (n_value_update (\<lambda>_. v)) h2) (add_kid parent ?x ch)"
    by (rule xinv_edit [OF i2 n2]) (use v node(7) in \<open>auto simp: payload_def\<close>)
  moreover have "others_same ?x h (ed ?x (n_value_update (\<lambda>_. v)) h2)"
    by (rule others_ed) (use node(5) in \<open>simp add: others_same_def h2_def\<close>)
  moreover have "new_with parent t fill h = Ret (Some ?x, ed ?x (n_value_update (\<lambda>_. v)) h2)"
    using node(2) g n2 by (simp add: new_with_def wr_ed)
  ultimately show ?thesis
    using that(2) [of "ed ?x (n_value_update (\<lambda>_. v)) h2" "n\<lparr>n_value := v\<rparr>"] node(1,7) n2
    by (simp add: cells_ed payload_def h2_def ed_def)
qed

lemma NewElement_cases:
  assumes i: "xinv h ch" and p: "live_opt h parent"
  obtains (none) "\<not> grants h (tick h)" "mxmlNewElement parent (Some nm) h = Ret (None, h\<lparr>tick := Suc (tick h)\<rparr>)"
  | (node) h' n where "grants h (tick h)" "mxmlNewElement parent (Some nm) h = Ret (Some (tick h), h')"
      "xinv h' (add_kid parent (tick h) ch)" "tick h' = Suc (Suc (tick h))" "others_same (tick h) h h'" "cells h' (tick h) = Some n"
      "payload n = (MXML_ELEMENT, VElement (if grants h (Suc (tick h)) then Some nm else None) [], 1)"
proof -
  let ?v = "VElement (if grants h (Suc (tick h)) then Some nm else None) []"
  let ?fill = "\<lambda>h. let (s, h) = xstrdup nm h in (VElement s [], h)"
  have v: "fits MXML_ELEMENT ?v" by simp
  have fill: "?fill g = (?v, g\<lparr>tick := Suc (Suc (tick h))\<rparr>)" if "tick g = Suc (tick h)" "grants g = grants h" for g
    using that by (simp add: xstrdup_def granted_def)
  have new: "mxmlNewElement parent (Some nm) h = new_with parent MXML_ELEMENT ?fill h"
    by (simp add: mxmlNewElement_def)
  show ?thesis
    by (rule new_with_cases [OF i p v fill]) (use none node new in \<open>simp_all\<close>)
qed

section \<open>Deleting\<close>

definition under :: "(nat \<Rightarrow> nat list) \<Rightarrow> nat \<Rightarrow> nat set" where
  "under ch x = {y. (y, x) \<in> (kids ch)\<^sup>*}"

definition cleared :: "nat set \<Rightarrow> (nat \<Rightarrow> nat list) \<Rightarrow> nat \<Rightarrow> nat list" where
  "cleared D ch p = (if p \<in> D then [] else ch p)"

text \<open>The nodes of \<open>D\<close> are gone, everything else is as before; destructors of custom nodes may have run.\<close>

definition gone :: "nat set \<Rightarrow> xheap \<Rightarrow> xheap \<Rightarrow> bool" where
  "gone D h h' \<longleftrightarrow> tick h' = tick h \<and> grants h' = grants h \<and> reports h' = reports h \<and>
     (\<forall>y. map_option payload (cells h' y) = (if y \<in> D then None else map_option payload (cells h y)))"

lemma under_self [simp]: "x \<in> under ch x"
  by (simp add: under_def)

lemma under_kid: "y \<in> set (ch x) \<Longrightarrow> under ch y \<subseteq> under ch x"
  by (auto simp: under_def intro: rtrancl_into_rtrancl)

lemma under_split: "under ch x = insert x (\<Union>y \<in> set (ch x). under ch y)"
  unfolding under_def by (auto elim: rtranclE intro: rtrancl_into_rtrancl)

lemma under_live:
  assumes "forest c ch" "c x \<noteq> None" "y \<in> under ch x"
  shows "c y \<noteq> None"
proof -
  have "(y, x) \<in> (kids ch)\<^sup>*" using assms(3) by (simp add: under_def)
  then show ?thesis
    by (cases rule: converse_rtranclE) (use assms(2) forest_live [OF assms(1), of y] in auto)
qed

lemma under_finite:
  assumes "xinv h ch" "cells h x \<noteq> None"
  shows "finite (under ch x)"
proof (rule finite_subset)
  show "under ch x \<subseteq> {..<tick h}"
    using under_live [OF xinv_forest [OF assms(1)] assms(2)] xinv_fresh [OF assms(1)] by (force simp: not_le [symmetric])
qed simp

lemma parent_not_under:
  assumes "forest c ch" "x \<in> set (ch p)"
  shows "p \<notin> under ch x"
  using wf_acyclic [OF forest_wf [OF assms(1)]] assms(2) by (force simp: under_def acyclic_def dest: rtrancl_into_trancl1)

definition pruned :: "(nat \<Rightarrow> nat list) \<Rightarrow> nat \<Rightarrow> nat \<Rightarrow> nat list" where
  "pruned ch x = cleared (under ch x) (drop_link ch x)"

lemma kids_pruned:
  assumes "forest c ch"
  shows "kids (pruned ch y) = {(z, p) \<in> kids ch. z \<notin> under ch y}"
proof -
  have "(z, p) \<in> kids (pruned ch y) \<longleftrightarrow> (z, p) \<in> kids ch \<and> z \<notin> under ch y" for z p
  proof (cases "z \<in> set (ch p)")
    case True
    have "z \<in> under ch y \<longleftrightarrow> z = y \<or> p \<in> under ch y"
      unfolding under_def mem_Collect_eq
    proof
      assume "(z, y) \<in> (kids ch)\<^sup>*"
      then show "z = y \<or> (p, y) \<in> (kids ch)\<^sup>*"
      proof (cases rule: converse_rtranclE)
        case (step q)
        then have "q = p" using forest_one_parent [OF assms, of z q p] True by simp
        then show ?thesis using step by simp
      qed simp
    next
      assume "z = y \<or> (p, y) \<in> (kids ch)\<^sup>*"
      then show "(z, y) \<in> (kids ch)\<^sup>*" using True by (auto intro: converse_rtrancl_into_rtrancl)
    qed
    then show ?thesis using True by (simp add: pruned_def cleared_def drop_link_def)
  next
    case False
    then show ?thesis by (simp add: pruned_def cleared_def drop_link_def)
  qed
  then show ?thesis by auto
qed

lemma under_pruned:
  assumes f: "forest c ch" and x: "x \<notin> under ch y"
  shows "under (pruned ch y) x = under ch x - under ch y"
proof -
  have k: "kids (pruned ch y) = {(z, p) \<in> kids ch. z \<notin> under ch y}" by (rule kids_pruned [OF f])
  then have kids_sub: "kids (pruned ch y) \<subseteq> kids ch" by auto
  have "(z, x) \<in> (kids (pruned ch y))\<^sup>* \<longleftrightarrow> (z, x) \<in> (kids ch)\<^sup>* \<and> z \<notin> under ch y" for z
  proof
    assume z: "(z, x) \<in> (kids (pruned ch y))\<^sup>*"
    have "z \<notin> under ch y" using z x by (cases rule: converse_rtranclE) (auto simp: k)
    then show "(z, x) \<in> (kids ch)\<^sup>* \<and> z \<notin> under ch y"
      using z rtrancl_mono [of "kids (pruned ch y)" "kids ch"] kids_sub by blast
  next
    assume "(z, x) \<in> (kids ch)\<^sup>* \<and> z \<notin> under ch y"
    then have "(z, x) \<in> (kids ch)\<^sup>*" "z \<notin> under ch y" by auto
    then show "(z, x) \<in> (kids (pruned ch y))\<^sup>*"
    proof (induction rule: converse_rtrancl_induct)
      case (step z p)
      then have "p \<notin> under ch y" by (auto simp: under_def intro: converse_rtrancl_into_rtrancl)
      then show ?case using step by (auto simp: k intro: converse_rtrancl_into_rtrancl)
    qed simp
  qed
  then show ?thesis by (auto simp: under_def)
qed

lemma under_drop:
  assumes f: "forest c ch"
  shows "under (drop_link ch x) x = under ch x"
proof -
  have k: "kids (drop_link ch x) = {(z, p) \<in> kids ch. z \<noteq> x}" by (auto simp: kids_def drop_link_def)
  have "(z, x) \<in> (kids ch)\<^sup>* \<Longrightarrow> (z, x) \<in> (kids (drop_link ch x))\<^sup>*" for z
  proof (induction rule: converse_rtrancl_induct)
    case (step z p)
    show ?case
    proof (cases "z = x")
      case False
      then show ?thesis using step by (auto simp: k intro: converse_rtrancl_into_rtrancl)
    qed simp
  qed simp
  moreover have "(kids (drop_link ch x))\<^sup>* \<subseteq> (kids ch)\<^sup>*" by (rule rtrancl_mono [OF kids_drop])
  ultimately show ?thesis by (auto simp: under_def)
qed

lemma gone_trans: "gone D h h1 \<Longrightarrow> gone E h1 h2 \<Longrightarrow> gone (D \<union> E) h h2"
  by (auto simp: gone_def)

lemma same_gone: "same_data h h' \<Longrightarrow> gone {} h h'"
  by (simp add: same_data_def gone_def)

lemma gone_live: "gone D h h' \<Longrightarrow> cells h' y \<noteq> None \<longleftrightarrow> cells h y \<noteq> None \<and> y \<notin> D"
  unfolding gone_def by (metis map_option_is_None option.map_disc_iff)

lemma free_xinv:
  assumes i: "xinv h ch" and x: "cells h x = Some n" "ch x = []" "\<And>p. x \<notin> set (ch p)"
  obtains h' where "free_node x h = Ret h'" "xinv h' ch" "gone {x} h h'"
proof -
  obtain h' where h': "free_node x h = Ret h'" "cells h' = (cells h)(x := None)" "tick h' = tick h" "grants h' = grants h" "reports h' = reports h"
    using x(1) by (cases "n_value n") (auto simp: free_node_def rd_Some Let_def split: option.splits)
  have "forest (cells h') ch"
    unfolding forest_def
  proof (intro conjI allI impI)
    fix p y assume y: "y \<in> set (ch p)"
    then have "p \<noteq> x" "y \<noteq> x" using x(2,3) by auto
    then show "cells h' p \<noteq> None" "cells h' y \<noteq> None" using forest_live [OF xinv_forest [OF i] y] h'(2) by auto
  qed (use xinv_forest [OF i] h'(2) in \<open>auto simp: forest_def split: if_splits\<close>)
  moreover have "typed h'" using xinv_typed [OF i] h'(2) by (simp add: typed_def)
  ultimately have "xinv h' ch" using xinv_fresh [OF i] h' by (simp add: xinv_def)
  then show ?thesis using that h' by (simp add: gone_def)
qed

lemma del_from_kids:
  assumes i: "xinv h ch" and x: "cells h x \<noteq> None"
    and K: "\<And>h1. xinv h1 (drop_link ch x) \<Longrightarrow> cells h1 x \<noteq> None \<Longrightarrow>
      \<exists>h2. mxml_del True x h1 = Some (Ret h2) \<and> xinv h2 (cleared (under ch x) (drop_link ch x)) \<and> gone (under ch x - {x}) h1 h2"
  shows "\<exists>h'. mxml_del False x h = Some (Ret h') \<and> xinv h' (pruned ch x) \<and> gone (under ch x) h h'"
proof -
  obtain h1 where h1: "mxmlRemove (Some x) h = Ret h1" "forest (cells h1) (drop_link ch x)" "same_data h h1"
    using Remove_forest [OF xinv_forest [OF i] x] by blast
  have "cells h1 x \<noteq> None" using same_live [OF h1(3)] x by simp
  then obtain h2 where h2: "mxml_del True x h1 = Some (Ret h2)" "xinv h2 (pruned ch x)" "gone (under ch x - {x}) h1 h2"
    using K [OF same_xinv [OF i h1(3,2)]] unfolding pruned_def by blast
  obtain n where n: "cells h2 x = Some n" using gone_live [OF h2(3), of x] \<open>cells h1 x \<noteq> None\<close> by auto
  have "pruned ch x x = []" "\<And>p. x \<notin> set (pruned ch x p)"
    by (simp_all add: pruned_def cleared_def drop_link_def)
  then obtain h' where h': "free_node x h2 = Ret h'" "xinv h' (pruned ch x)" "gone {x} h2 h'"
    using free_xinv [OF h2(2) n] by blast
  have "under ch x - {x} \<union> {x} = under ch x" by auto
  then have "gone (under ch x) h h'"
    using gone_trans [OF same_gone [OF h1(3)] gone_trans [OF h2(3) h'(3)]] by simp
  moreover have "mxml_del False x h = Some (Ret h')"
    using h1(1) h2(1) h'(1) by (simp add: mxml_del.simps [of False])
  ultimately show ?thesis using h'(2) by blast
qed

lemma kids_del:
  assumes "xinv h ch" "cells h x \<noteq> None"
  shows "\<exists>h'. mxml_del True x h = Some (Ret h') \<and> xinv h' (cleared (under ch x) ch) \<and> gone (under ch x - {x}) h h'"
  using assms
proof (induction "card (under ch x)" arbitrary: h ch x rule: less_induct)
  case less
  note i = less.prems(1) and f = xinv_forest [OF less.prems(1)]
  obtain n where n: "cells h x = Some n" using less.prems(2) by blast
  have fin: "finite (under ch x)" by (rule under_finite [OF less.prems])
  show ?case
  proof (cases "ch x")
    case Nil
    then have "n_child n = None" using forest_node [OF f n] by (simp add: node_ok_def)
    then have "mxml_del True x h = Some (Ret h)" by (simp add: mxml_del.simps [of True] rd_Some [OF n])
    moreover have "under ch x = {x}" using Nil under_split [of ch x] by simp
    moreover have "cleared {x} ch = ch" using Nil by (auto simp: cleared_def)
    ultimately show ?thesis using i same_gone [of h h] by simp
  next
    case (Cons y r)
    then have y: "y \<in> set (ch x)" by simp
    have xy: "x \<notin> under ch y" by (rule parent_not_under [OF f y])
    have sub: "under ch y \<subseteq> under ch x" using under_kid [of y ch x] y by blast
    have "card (under ch y) < card (under ch x)"
      using psubset_card_mono [OF fin, of "under ch y"] sub xy under_self [of x ch] by blast
    then have "\<exists>h1. mxml_del False y h = Some (Ret h1) \<and> xinv h1 (pruned ch y) \<and> gone (under ch y) h h1"
      using del_from_kids [OF i, of y] less.hyps [of "drop_link ch y" y] under_drop [OF f, of y] forest_live [OF f y]
      by force
    then obtain h1 where h1: "mxml_del False y h = Some (Ret h1)" "xinv h1 (pruned ch y)" "gone (under ch y) h h1" by blast
    have x1: "cells h1 x \<noteq> None" using gone_live [OF h1(3), of x] less.prems(2) xy by simp
    have u1: "under (pruned ch y) x = under ch x - under ch y" by (rule under_pruned [OF f xy])
    have "card (under (pruned ch y) x) < card (under ch x)"
      unfolding u1 by (rule psubset_card_mono [OF fin]) (use sub under_self [of y ch] in blast)
    then obtain h' where h': "mxml_del True x h1 = Some (Ret h')" "xinv h' (cleared (under ch x - under ch y) (pruned ch y))"
      "gone (under ch x - under ch y - {x}) h1 h'"
      using less.hyps [OF _ h1(2) x1] u1 by auto
    have "n_child n = Some y" using forest_node [OF f n] Cons by (simp add: node_ok_def)
    then have "mxml_del True x h = Some (Ret h')"
      using h1(1) h'(1) by (simp add: mxml_del.simps [of True x h] rd_Some [OF n])
    moreover have "cleared (under ch x - under ch y) (pruned ch y) = cleared (under ch x) ch"
    proof
      fix p
      have "y \<notin> set (ch p)" if "p \<notin> under ch x"
        using that under_self [of x ch] forest_one_parent [OF f, of y p x] y by auto
      then show "cleared (under ch x - under ch y) (pruned ch y) p = cleared (under ch x) ch p"
        using sub by (auto simp: cleared_def pruned_def drop_link_def filter_other)
    qed
    moreover have "under ch y \<union> (under ch x - under ch y - {x}) = under ch x - {x}" using sub xy by auto
    ultimately show ?thesis using h'(2) gone_trans [OF h1(3) h'(3)] by simp
  qed
qed

lemma Delete_forest:
  assumes "xinv h ch" "cells h x \<noteq> None"
  obtains h' where "mxmlDelete (Some x) h = Some (Ret h')" "xinv h' (pruned ch x)" "gone (under ch x) h h'"
proof -
  have "\<exists>h'. mxml_del False x h = Some (Ret h') \<and> xinv h' (pruned ch x) \<and> gone (under ch x) h h'"
    using del_from_kids [OF assms] kids_del [of _ "drop_link ch x" x] under_drop [OF xinv_forest [OF assms(1)], of x] by auto
  then show ?thesis using that by (auto simp: mxmlDelete_def)
qed

end
