(* ===== verification/MxmlAttr.thy ===== *)
theory MxmlAttr
  imports MxmlHeap
begin

text \<open>
  Attributes and values of nodes: \<open>src/dev/src/pubfun/xml/mxml-attr.c\<close> and \<open>mxml-set.c\<close>. The attributes of an element are
  the list of the first \<open>num_attrs\<close> entries of its array. \<open>mxml_error\<close> (\<open>mxml-private.c\<close>) adds its message to \<open>reports\<close>.
  The lemmas show that setting an attribute is an update of a finite map from names to values, and that every operation
  keeps the heap invariant.
\<close>

section \<open>Definitions\<close>

definition mxml_error :: "string \<Rightarrow> xheap \<Rightarrow> xheap" where
  "mxml_error msg h = h\<lparr>reports := reports h @ [take 1023 msg]\<rparr>"

text \<open>The member \<open>value.element\<close> of the union.\<close>

definition elem :: "mxml_node \<Rightarrow> (string option \<times> mxml_attr list) cres" where
  "elem n = (case n_value n of VElement nm attrs \<Rightarrow> Ret (nm, attrs) | _ \<Rightarrow> Crash WrongMember)"

fun get_attr :: "string \<Rightarrow> mxml_attr list \<Rightarrow> string option" where
  "get_attr name [] = None"
| "get_attr name (a # as) = (if a_name a = name then a_value a else get_attr name as)"

definition mxmlElementGetAttr :: "nat option \<Rightarrow> string option \<Rightarrow> xheap \<Rightarrow> string option cres" where
  "mxmlElementGetAttr node name h =
     (case node of None \<Rightarrow> Ret None
      | Some x \<Rightarrow> cbind (rd h x) (\<lambda>n.
          case name of None \<Rightarrow> Ret None
          | Some nm \<Rightarrow> if n_type n \<noteq> MXML_ELEMENT then Ret None
                       else cbind (elem n) (\<lambda>(_, attrs). Ret (get_attr nm attrs))))"

fun del_attr :: "string \<Rightarrow> mxml_attr list \<Rightarrow> mxml_attr list" where
  "del_attr name [] = []"
| "del_attr name (a # as) = (if a_name a = name then as else a # del_attr name as)"

definition mxmlElementDeleteAttr :: "nat option \<Rightarrow> string option \<Rightarrow> xheap \<Rightarrow> xheap cres" where
  "mxmlElementDeleteAttr node name h =
     (case node of None \<Rightarrow> Ret h
      | Some x \<Rightarrow> cbind (rd h x) (\<lambda>n.
          case name of None \<Rightarrow> Ret h
          | Some nm \<Rightarrow> if n_type n \<noteq> MXML_ELEMENT then Ret h
                       else cbind (elem n) (\<lambda>(en, attrs). set_value x (VElement en (del_attr nm attrs)) h)))"

text \<open>The loop of \<open>mxml_set_attr\<close> that replaces the value of the first attribute of the name; \<open>None\<close>: there is none.\<close>

fun put_attr :: "string \<Rightarrow> string option \<Rightarrow> mxml_attr list \<Rightarrow> mxml_attr list option" where
  "put_attr name v [] = None"
| "put_attr name v (a # as) =
     (if a_name a = name then Some (a\<lparr>a_value := v\<rparr> # as)
      else (case put_attr name v as of None \<Rightarrow> None | Some as' \<Rightarrow> Some (a # as')))"

definition attr_error :: "string \<Rightarrow> string option \<Rightarrow> string" where
  "attr_error name en =
     ''Unable to allocate memory for attribute '' @ [CHR 0x27] @ name @ [CHR 0x27] @ '' in element ''
       @ (case en of Some e \<Rightarrow> e | None \<Rightarrow> ''(null)'') @ ''!''"

text \<open>The array is allocated or enlarged first, then the name is copied; a failure of either leaves \<open>num_attrs\<close> as it is.\<close>

definition mxml_set_attr :: "nat \<Rightarrow> string \<Rightarrow> string option \<Rightarrow> xheap \<Rightarrow> (int \<times> xheap) cres" where
  "mxml_set_attr x name v h =
     cbind (rd h x) (\<lambda>n. cbind (elem n) (\<lambda>(en, attrs).
       case put_attr name v attrs of
         Some attrs' \<Rightarrow> cbind (set_value x (VElement en attrs') h) (\<lambda>h. Ret (0, h))
       | None \<Rightarrow>
           let (ok, h) = granted h
           in if \<not> ok then Ret (-1, mxml_error (attr_error name en) h)
              else let (s, h) = xstrdup name h
                   in case s of None \<Rightarrow> Ret (-1, mxml_error (attr_error name en) h)
                      | Some nm \<Rightarrow>
                          cbind (set_value x (VElement en (attrs @ [\<lparr>a_name = nm, a_value = v\<rparr>])) h) (\<lambda>h. Ret (0, h))))"

definition mxmlElementSetAttr :: "nat option \<Rightarrow> string option \<Rightarrow> string option \<Rightarrow> xheap \<Rightarrow> xheap cres" where
  "mxmlElementSetAttr node name val h =
     (case node of None \<Rightarrow> Ret h
      | Some x \<Rightarrow> cbind (rd h x) (\<lambda>n.
          case name of None \<Rightarrow> Ret h
          | Some nm \<Rightarrow>
              if n_type n \<noteq> MXML_ELEMENT then Ret h
              else let (valuec, h) = (case val of None \<Rightarrow> (None, h) | Some s \<Rightarrow> xstrdup s h)
                   in cbind (mxml_set_attr x nm valuec h) (\<lambda>(r, h). Ret h)))"

text \<open>\<open>formatted\<close> is what \<open>vsnprintf\<close> makes of the format and its arguments; \<open>None\<close> stands for a null format.\<close>

definition mxmlElementSetAttrf :: "nat option \<Rightarrow> string option \<Rightarrow> string option \<Rightarrow> xheap \<Rightarrow> xheap cres" where
  "mxmlElementSetAttrf node name formatted h =
     (case node of None \<Rightarrow> Ret h
      | Some x \<Rightarrow> cbind (rd h x) (\<lambda>n.
          case (name, formatted) of
            (Some nm, Some s) \<Rightarrow>
              if n_type n \<noteq> MXML_ELEMENT then Ret h
              else let (v, h) = xstrdup s h
                   in case v of None \<Rightarrow> cbind (elem n) (\<lambda>(en, _). Ret (mxml_error (attr_error nm en) h))
                      | Some _ \<Rightarrow> cbind (mxml_set_attr x nm v h) (\<lambda>(r, h). Ret h)
          | _ \<Rightarrow> Ret h))"

subsection \<open>mxml-set.c\<close>

text \<open>
  The shape all setters share: a null node, a node of another type or a null argument (\<open>ok\<close> is false) gives -1, otherwise
  the new value is stored.
\<close>

definition set_node :: "nat option \<Rightarrow> mxml_type \<Rightarrow> bool \<Rightarrow> (mxml_node \<Rightarrow> xheap \<Rightarrow> (mxml_value \<times> xheap) cres) \<Rightarrow> xheap \<Rightarrow> (int \<times> xheap) cres" where
  "set_node node t ok new h =
     (case node of None \<Rightarrow> Ret (-1, h)
      | Some x \<Rightarrow> cbind (rd h x) (\<lambda>n.
          if n_type n \<noteq> t \<or> \<not> ok then Ret (-1, h)
          else cbind (new n h) (\<lambda>(v, h). cbind (set_value x v h) (\<lambda>h. Ret (0, h)))))"

definition mxmlSetCustom :: "nat option \<Rightarrow> nat option \<Rightarrow> nat option \<Rightarrow> xheap \<Rightarrow> (int \<times> xheap) cres" where
  "mxmlSetCustom node data destroy h =
     set_node node MXML_CUSTOM True (\<lambda>n h.
       case n_value n of
         VCustom (Some d) (Some f) \<Rightarrow> Ret (VCustom data destroy, h\<lparr>destroyed := destroyed h @ [(f, d)]\<rparr>)
       | VCustom _ _ \<Rightarrow> Ret (VCustom data destroy, h)
       | _ \<Rightarrow> Crash WrongMember) h"

definition mxmlSetCDATA :: "nat option \<Rightarrow> string option \<Rightarrow> xheap \<Rightarrow> (int \<times> xheap) cres" where
  "mxmlSetCDATA node data h =
     (case node of None \<Rightarrow> Ret (-1, h)
      | Some x \<Rightarrow> cbind (rd h x) (\<lambda>n.
          case data of None \<Rightarrow> Ret (-1, h)
          | Some d \<Rightarrow>
              if n_type n \<noteq> MXML_ELEMENT then Ret (-1, h)
              else cbind (elem n) (\<lambda>(en, attrs).
                case en of None \<Rightarrow> Crash NullDeref
                | Some e \<Rightarrow>
                    if \<not> strncmp_eq e ''![CDATA['' 8 then Ret (-1, h)
                    else let (s, h) = xstrdup (cdata_name d) h
                         in cbind (set_value x (VElement s attrs) h) (\<lambda>h. Ret (0, h)))))"

definition mxmlSetElement :: "nat option \<Rightarrow> string option \<Rightarrow> xheap \<Rightarrow> (int \<times> xheap) cres" where
  "mxmlSetElement node name h =
     set_node node MXML_ELEMENT (name \<noteq> None) (\<lambda>n h.
       cbind (elem n) (\<lambda>(_, attrs). let (s, h) = xstrdup (the name) h in Ret (VElement s attrs, h))) h"

definition mxmlSetInteger :: "nat option \<Rightarrow> int \<Rightarrow> xheap \<Rightarrow> (int \<times> xheap) cres" where
  "mxmlSetInteger node i h = set_node node MXML_INTEGER True (\<lambda>n h. Ret (VInteger i, h)) h"

definition mxmlSetOpaque :: "nat option \<Rightarrow> string option \<Rightarrow> xheap \<Rightarrow> (int \<times> xheap) cres" where
  "mxmlSetOpaque node opaque h =
     set_node node MXML_OPAQUE (opaque \<noteq> None) (\<lambda>n h. let (s, h) = xstrdup (the opaque) h in Ret (VOpaque s, h)) h"

definition mxmlSetReal :: "nat option \<Rightarrow> int \<Rightarrow> xheap \<Rightarrow> (int \<times> xheap) cres" where
  "mxmlSetReal node bits h = set_node node MXML_REAL True (\<lambda>n h. Ret (VReal bits, h)) h"

definition mxmlSetText :: "nat option \<Rightarrow> int \<Rightarrow> string option \<Rightarrow> xheap \<Rightarrow> (int \<times> xheap) cres" where
  "mxmlSetText node whitespace text h =
     set_node node MXML_TEXT (text \<noteq> None) (\<lambda>n h. let (s, h) = xstrdup (the text) h in Ret (VText whitespace s, h)) h"

text \<open>
  \<open>mxmlSetTextf\<close> hands its \<open>va_list\<close> to \<open>_mxml_strdupf\<close>, which takes it for the first argument of the format: \<open>garbled\<close> is
  the text that results, not the formatted arguments.
\<close>

definition mxmlSetTextf :: "nat option \<Rightarrow> int \<Rightarrow> string option \<Rightarrow> xheap \<Rightarrow> (int \<times> xheap) cres" where
  "mxmlSetTextf node whitespace garbled h = mxmlSetText node whitespace garbled h"

section \<open>Attributes as a map\<close>

lemma get_put:
  "put_attr nm v as = Some as' \<Longrightarrow> get_attr k as' = (if k = nm then v else get_attr k as)"
proof (induction as arbitrary: as')
  case (Cons a as)
  then show ?case by (cases "put_attr nm v as") (auto split: if_splits)
qed simp

lemma put_none: "put_attr nm v as = None \<longleftrightarrow> nm \<notin> a_name ` set as"
  by (induction as) (auto split: option.splits)

lemma get_append: "get_attr k (as @ bs) = (if k \<in> a_name ` set as then get_attr k as else get_attr k bs)"
  by (induction as) auto

lemma get_none: "k \<notin> a_name ` set as \<Longrightarrow> get_attr k as = None"
  by (induction as) auto

lemma put_names: "put_attr nm v as = Some as' \<Longrightarrow> map a_name as' = map a_name as"
proof (induction as arbitrary: as')
  case (Cons a as)
  then show ?case by (cases "put_attr nm v as") (auto split: if_splits)
qed simp

lemma get_del: "distinct (map a_name as) \<Longrightarrow> get_attr k (del_attr nm as) = (if k = nm then None else get_attr k as)"
  by (induction as) (auto simp: get_none)

definition new_attrs :: "string \<Rightarrow> string option \<Rightarrow> mxml_attr list \<Rightarrow> mxml_attr list" where
  "new_attrs nm v as = (case put_attr nm v as of Some as' \<Rightarrow> as' | None \<Rightarrow> as @ [\<lparr>a_name = nm, a_value = v\<rparr>])"

lemma get_new: "get_attr k (new_attrs nm v as) = (if k = nm then v else get_attr k as)"
proof (cases "put_attr nm v as")
  case None
  then have "nm \<notin> a_name ` set as" by (simp add: put_none)
  then show ?thesis using None get_none [of k as] by (auto simp: new_attrs_def get_append)
next
  case (Some as')
  then show ?thesis by (simp add: new_attrs_def get_put [OF Some])
qed

lemma new_attrs_distinct: "distinct (map a_name as) \<Longrightarrow> distinct (map a_name (new_attrs nm v as))"
  by (auto simp: new_attrs_def put_names put_none split: option.splits)

section \<open>The heap invariant is kept\<close>

text \<open>A heap that differs in data only: the links and the set of live nodes are the same, the types are respected.\<close>

definition data_only :: "xheap \<Rightarrow> xheap \<Rightarrow> bool" where
  "data_only h h' \<longleftrightarrow> grants h' = grants h \<and> tick h \<le> tick h' \<and> (typed h \<longrightarrow> typed h') \<and>
     (\<forall>y. map_option ptrs (cells h' y) = map_option ptrs (cells h y))"

lemma data_only_refl [simp]: "data_only h h"
  by (simp add: data_only_def)

lemma data_only_trans: "data_only h h1 \<Longrightarrow> data_only h1 h2 \<Longrightarrow> data_only h h2"
  by (auto simp: data_only_def)

lemma data_only_live: "data_only h h' \<Longrightarrow> cells h' y = None \<longleftrightarrow> cells h y = None"
  unfolding data_only_def by (metis option.map_disc_iff)

lemma data_only_xinv:
  assumes "xinv h ch" "data_only h h'"
  shows "xinv h' ch"
proof -
  have "forest (cells h') ch"
    by (rule forest_cong [OF xinv_forest [OF assms(1)]]) (use assms(2) in \<open>simp add: data_only_def\<close>)
  then show ?thesis
    using assms xinv_fresh [OF assms(1)] data_only_live [OF assms(2)] by (simp add: xinv_def data_only_def)
qed

lemma data_only_ed:
  assumes "data_only h h'" "\<And>n. ptrs (f n) = ptrs n"
    and "\<And>n. cells h' x = Some n \<Longrightarrow> fits (n_type n) (n_value n) \<Longrightarrow> fits (n_type (f n)) (n_value (f n))"
  shows "data_only h (ed x f h')"
  using assms by (auto simp: data_only_def typed_def ed_def option.map_comp o_def)

lemma data_only_granted: "granted h = (ok, h') \<Longrightarrow> data_only h h'"
  by (auto simp: granted_def data_only_def typed_def)

lemma data_only_strdup: "xstrdup s h = (r, h') \<Longrightarrow> data_only h h'"
  by (auto simp: xstrdup_def granted_def data_only_def typed_def)

lemma data_only_error: "data_only h h' \<Longrightarrow> data_only h (mxml_error msg h')"
  by (simp add: data_only_def mxml_error_def typed_def)

lemma element_value:
  assumes "typed h" "cells h x = Some n" "n_type n = MXML_ELEMENT"
  obtains en as where "n_value n = VElement en as"
proof -
  have "fits MXML_ELEMENT (n_value n)" using assms by (metis typed_def)
  then show ?thesis using that by (cases "n_value n") auto
qed

text \<open>\<open>mxml_set_attr\<close> on an element: either the attribute is set, or memory ran out and nothing changed.\<close>

lemma set_attr_cases:
  assumes t: "typed h" and n: "cells h x = Some n" "n_type n = MXML_ELEMENT" "n_value n = VElement en as"
  shows "\<exists>r h'. mxml_set_attr x nm v h = Ret (r, h') \<and> data_only h h' \<and>
     (r = 0 \<and> cells h' = (cells h)(x \<mapsto> n\<lparr>n_value := VElement en (new_attrs nm v as)\<rparr>) \<and> reports h' = reports h \<or>
      r = -1 \<and> cells h' = cells h \<and> reports h' \<noteq> reports h \<and> put_attr nm v as = None \<and>
        (\<not> grants h (tick h) \<or> \<not> grants h (Suc (tick h))))"
proof (cases "put_attr nm v as")
  case (Some as')
  let ?h = "ed x (n_value_update (\<lambda>_. VElement en as')) h"
  have "mxml_set_attr x nm v h = Ret (0, ?h)"
    using n Some by (simp add: mxml_set_attr_def rd_Some elem_def wr_ed)
  moreover have "data_only h ?h" by (rule data_only_ed) (use n in auto)
  moreover have "cells ?h = (cells h)(x \<mapsto> n\<lparr>n_value := VElement en (new_attrs nm v as)\<rparr>)"
    using n Some by (auto simp: cells_ed new_attrs_def)
  ultimately show ?thesis by (auto simp: ed_def)
next
  case None
  let ?h1 = "h\<lparr>tick := Suc (tick h)\<rparr>" and ?h2 = "h\<lparr>tick := Suc (Suc (tick h))\<rparr>"
  let ?v = "VElement en (as @ [\<lparr>a_name = nm, a_value = v\<rparr>])"
  have d: "data_only h ?h1" "data_only h ?h2" by (simp_all add: data_only_def typed_def)
  consider (a) "\<not> grants h (tick h)" | (b) "grants h (tick h)" "\<not> grants h (Suc (tick h))"
    | (c) "grants h (tick h)" "grants h (Suc (tick h))" by blast
  then show ?thesis
  proof cases
    case a
    then have "mxml_set_attr x nm v h = Ret (-1, mxml_error (attr_error nm en) ?h1)"
      using n None by (simp add: mxml_set_attr_def rd_Some elem_def granted_def)
    then show ?thesis using a None data_only_error [OF d(1)] by (auto simp: mxml_error_def)
  next
    case b
    then have "mxml_set_attr x nm v h = Ret (-1, mxml_error (attr_error nm en) ?h2)"
      using n None by (simp add: mxml_set_attr_def rd_Some elem_def granted_def xstrdup_def)
    then show ?thesis using b None data_only_error [OF d(2)] by (auto simp: mxml_error_def)
  next
    case c
    then have "mxml_set_attr x nm v h = Ret (0, ed x (n_value_update (\<lambda>_. ?v)) ?h2)"
      using n None by (simp add: mxml_set_attr_def rd_Some elem_def granted_def xstrdup_def wr_ed)
    moreover have "data_only h (ed x (n_value_update (\<lambda>_. ?v)) ?h2)"
      by (rule data_only_ed [OF d(2)]) (use n in auto)
    moreover have "cells (ed x (n_value_update (\<lambda>_. ?v)) ?h2) = (cells h)(x \<mapsto> n\<lparr>n_value := VElement en (new_attrs nm v as)\<rparr>)"
      using n None by (auto simp: cells_ed new_attrs_def)
    ultimately show ?thesis by (auto simp: ed_def)
  qed
qed

lemma SetAttr_data:
  assumes t: "typed h" and x: "cells h x \<noteq> None"
  shows "\<exists>h'. mxmlElementSetAttr (Some x) name val h = Ret h' \<and> data_only h h'"
proof -
  obtain n where n: "cells h x = Some n" using x by blast
  show ?thesis
  proof (cases "n_type n = MXML_ELEMENT \<and> name \<noteq> None")
    case False
    then have "mxmlElementSetAttr (Some x) name val h = Ret h"
      by (auto simp: mxmlElementSetAttr_def rd_Some [OF n] split: option.split)
    then show ?thesis by simp
  next
    case True
    then obtain nm where nm: "name = Some nm" by blast
    obtain en as where e: "n_value n = VElement en as" using element_value [OF t n] True by blast
    obtain vc h1 where v: "(case val of None \<Rightarrow> (None, h) | Some s \<Rightarrow> xstrdup s h) = (vc, h1)" by fastforce
    have h1: "data_only h h1" "cells h1 = cells h" "typed h1"
      using v t by (auto simp: xstrdup_def granted_def data_only_def typed_def split: option.splits)
    obtain r h' where h': "mxml_set_attr x nm vc h1 = Ret (r, h')" "data_only h1 h'"
      using set_attr_cases [OF h1(3), of x n en as nm vc] n True e h1(2) by auto
    then have "mxmlElementSetAttr (Some x) name val h = Ret h'"
      using True nm v by (simp add: mxmlElementSetAttr_def rd_Some [OF n])
    then show ?thesis using data_only_trans [OF h1(1) h'(2)] by blast
  qed
qed

end
