(* ===== verification/MxmlSearch.thy ===== *)
theory MxmlSearch
  imports MxmlAttr
begin

text \<open>
  Walking and searching the tree: \<open>src/dev/src/pubfun/xml/mxml-search.c\<close>. The loops run over pointers and need not end on
  a broken heap, so they are partial functions. On a heap that represents lists of children (\<open>forest\<close>) they are compared with
  lists: the search of one level is \<open>find\<close> on the list of children, the walk through all levels is the preorder of the tree.
\<close>

section \<open>Definitions\<close>

definition MXML_NO_DESCEND :: int where "MXML_NO_DESCEND = 0"
definition MXML_DESCEND :: int where "MXML_DESCEND = 1"
definition MXML_DESCEND_FIRST :: int where "MXML_DESCEND_FIRST = -1"

text \<open>\<open>while (!node->next) if (node->parent == top || !node->parent) return (NULL); else node = node->parent;\<close>\<close>

partial_function (option) walk_up :: "nat \<Rightarrow> nat option \<Rightarrow> xheap \<Rightarrow> nat option crun" where
  "walk_up x tp h =
     rbind (Some (rd h x)) (\<lambda>n.
       if n_next n \<noteq> None then Some (Ret (n_next n))
       else if n_parent n = tp then Some (Ret None)
       else case n_parent n of None \<Rightarrow> Some (Ret None) | Some p \<Rightarrow> walk_up p tp h)"

definition mxmlWalkNext :: "nat option \<Rightarrow> nat option \<Rightarrow> int \<Rightarrow> xheap \<Rightarrow> nat option crun" where
  "mxmlWalkNext node tp descend h =
     (case node of None \<Rightarrow> Some (Ret None)
      | Some x \<Rightarrow> rbind (Some (rd h x)) (\<lambda>n.
          if n_child n \<noteq> None \<and> descend \<noteq> 0 then Some (Ret (n_child n))
          else if node = tp then Some (Ret None)
          else if n_next n \<noteq> None then Some (Ret (n_next n))
          else case n_parent n of None \<Rightarrow> Some (Ret None)
               | Some p \<Rightarrow> if n_parent n = tp then Some (Ret None) else walk_up p tp h))"

partial_function (option) last_below :: "nat \<Rightarrow> xheap \<Rightarrow> nat option crun" where
  "last_below x h =
     rbind (Some (rd h x)) (\<lambda>n. case n_last_child n of None \<Rightarrow> Some (Ret (Some x)) | Some y \<Rightarrow> last_below y h)"

definition mxmlWalkPrev :: "nat option \<Rightarrow> nat option \<Rightarrow> int \<Rightarrow> xheap \<Rightarrow> nat option crun" where
  "mxmlWalkPrev node tp descend h =
     (case node of None \<Rightarrow> Some (Ret None)
      | Some x \<Rightarrow>
          if node = tp then Some (Ret None)
          else rbind (Some (rd h x)) (\<lambda>n.
            case n_prev n of
              Some q \<Rightarrow> rbind (Some (rd h q)) (\<lambda>qn.
                case n_last_child qn of
                  Some y \<Rightarrow> if descend \<noteq> 0 then last_below y h else Some (Ret (Some q))
                | None \<Rightarrow> Some (Ret (Some q)))
            | None \<Rightarrow> if n_parent n \<noteq> tp then Some (Ret (n_parent n)) else Some (Ret None)))"

text \<open>The test of one node in \<open>mxmlFindElement\<close>.\<close>

definition matches :: "string option \<Rightarrow> string option \<Rightarrow> string option \<Rightarrow> xheap \<Rightarrow> nat \<Rightarrow> bool cres" where
  "matches name attr val h x =
     cbind (rd h x) (\<lambda>n.
     if n_type n \<noteq> MXML_ELEMENT then Ret False
     else cbind (elem n) (\<lambda>(en, attrs).
       if en = None \<or> (name \<noteq> None \<and> en \<noteq> name) then Ret False
       else if attr = None then Ret True
       else cbind (mxmlElementGetAttr (Some x) attr h) (\<lambda>temp.
         Ret (temp \<noteq> None \<and> (val = None \<or> val = temp)))))"

partial_function (option) find_loop ::
  "nat option \<Rightarrow> nat option \<Rightarrow> string option \<Rightarrow> string option \<Rightarrow> string option \<Rightarrow> int \<Rightarrow> xheap \<Rightarrow> nat option crun" where
  "find_loop node tp name attr val descend h =
     (case node of None \<Rightarrow> Some (Ret None)
      | Some x \<Rightarrow> rbind (Some (matches name attr val h x)) (\<lambda>m.
          if m then Some (Ret node)
          else if descend = MXML_DESCEND then
            rbind (mxmlWalkNext node tp MXML_DESCEND h) (\<lambda>nx. find_loop nx tp name attr val descend h)
          else rbind (Some (rd h x)) (\<lambda>n. find_loop (n_next n) tp name attr val descend h)))"

definition mxmlFindElement ::
  "nat option \<Rightarrow> nat option \<Rightarrow> string option \<Rightarrow> string option \<Rightarrow> string option \<Rightarrow> int \<Rightarrow> xheap \<Rightarrow> nat option crun" where
  "mxmlFindElement node tp name attr val descend h =
     (if node = None \<or> tp = None \<or> (attr = None \<and> val \<noteq> None) then Some (Ret None)
      else rbind (mxmlWalkNext node tp descend h) (\<lambda>nx. find_loop nx tp name attr val descend h))"

section \<open>The search of one level\<close>

text \<open>The test on a node of a well-typed heap, without faults.\<close>

definition sat :: "string option \<Rightarrow> string option \<Rightarrow> string option \<Rightarrow> xheap \<Rightarrow> nat \<Rightarrow> bool" where
  "sat name attr val h x =
     (case cells h x of None \<Rightarrow> False
      | Some n \<Rightarrow> (case (n_type n, n_value n) of
          (MXML_ELEMENT, VElement (Some en) attrs) \<Rightarrow>
            (case name of None \<Rightarrow> True | Some nm \<Rightarrow> en = nm) \<and>
            (case attr of None \<Rightarrow> True
             | Some a \<Rightarrow> (case get_attr a attrs of None \<Rightarrow> False
                 | Some v \<Rightarrow> (case val of None \<Rightarrow> True | Some w \<Rightarrow> v = w)))
        | _ \<Rightarrow> False))"

lemma matches_sat:
  assumes "typed h" "cells h x \<noteq> None"
  shows "matches name attr val h x = Ret (sat name attr val h x)"
proof -
  obtain n where n: "cells h x = Some n" using assms(2) by blast
  show ?thesis
  proof (cases "n_type n = MXML_ELEMENT")
    case True
    obtain en as where "n_value n = VElement en as" by (rule element_value [OF assms(1) n True])
    then show ?thesis using n True
      by (auto simp: matches_def sat_def rd_Some elem_def mxmlElementGetAttr_def split: option.splits)
  next
    case False
    then show ?thesis using n by (cases "n_type n") (auto simp: matches_def sat_def rd_Some)
  qed
qed

lemma find_loop_None [simp]: "find_loop None tp name attr val d h = Some (Ret None)"
  by (simp add: find_loop.simps [of None])

lemma find_loop_list:
  assumes f: "forest (cells h) ch" and t: "typed h" and d: "d \<noteq> MXML_DESCEND" and p: "ch p = as @ bs"
  shows "find_loop (first bs) tp name attr val d h = Some (Ret (find (sat name attr val h) bs))"
  using p
proof (induction bs arbitrary: as)
  case (Cons b bs)
  obtain n where n: "cells h b = Some n" "n_next n = first bs" using forest_kid [OF f Cons.prems] by blast
  have "find_loop (first bs) tp name attr val d h = Some (Ret (find (sat name attr val h) bs))"
    using Cons.IH [of "as @ [b]"] Cons.prems by simp
  then show ?case
    using n d matches_sat [OF t, of b name attr val] by (simp add: find_loop.simps [of "Some b"] rd_Some)
qed simp

lemma FindElement_first:
  assumes f: "forest (cells h) ch" and t: "typed h" and p: "cells h p \<noteq> None" and v: "attr \<noteq> None \<or> val = None"
  shows "mxmlFindElement (Some p) (Some p) name attr val MXML_DESCEND_FIRST h = Some (Ret (find (sat name attr val h) (ch p)))"
proof -
  obtain n where n: "cells h p = Some n" using p by blast
  have c: "n_child n = first (ch p)" using forest_node [OF f n] by (simp add: node_ok_def)
  have "mxmlWalkNext (Some p) (Some p) MXML_DESCEND_FIRST h = Some (Ret (first (ch p)))"
    using c by (simp add: mxmlWalkNext_def rd_Some [OF n] MXML_DESCEND_FIRST_def)
  moreover have "find_loop (first (ch p)) (Some p) name attr val MXML_DESCEND_FIRST h = Some (Ret (find (sat name attr val h) (ch p)))"
    by (rule find_loop_list [OF f t, of _ p "[]"]) (simp_all add: MXML_DESCEND_def MXML_DESCEND_FIRST_def)
  ultimately show ?thesis using v by (auto simp: mxmlFindElement_def)
qed

lemma FindElement_next:
  assumes f: "forest (cells h) ch" and t: "typed h" and c: "ch p = as @ x # bs" and v: "attr \<noteq> None \<or> val = None"
  shows "mxmlFindElement (Some x) (Some p) name attr val MXML_NO_DESCEND h = Some (Ret (find (sat name attr val h) bs))"
proof -
  obtain n where n: "cells h x = Some n" "n_parent n = Some p" "n_next n = first bs" using forest_kid [OF f c] by blast
  have "x \<noteq> p" using forest_irrefl [OF f, of p] c by auto
  then have "mxmlWalkNext (Some x) (Some p) MXML_NO_DESCEND h = Some (Ret (first bs))"
    using n by (auto simp: mxmlWalkNext_def rd_Some MXML_NO_DESCEND_def)
  moreover have "find_loop (first bs) (Some p) name attr val MXML_NO_DESCEND h = Some (Ret (find (sat name attr val h) bs))"
    by (rule find_loop_list [OF f t, of _ p "as @ [x]"]) (simp_all add: MXML_DESCEND_def MXML_NO_DESCEND_def c)
  ultimately show ?thesis using v by (auto simp: mxmlFindElement_def)
qed

section \<open>The walk through all levels\<close>

text \<open>\<open>rose t\<close>: the subtree below a node as a tree, \<open>preorder\<close> its nodes in document order.\<close>

datatype rose = Rose nat "rose list"

fun root_of :: "rose \<Rightarrow> nat" where
  "root_of (Rose x ts) = x"

fun preorder :: "rose \<Rightarrow> nat list" where
  "preorder (Rose x ts) = x # concat (map preorder ts)"

fun shape :: "(nat \<Rightarrow> nat list) \<Rightarrow> rose \<Rightarrow> bool" where
  "shape ch (Rose x ts) \<longleftrightarrow> ch x = map root_of ts \<and> (\<forall>t \<in> set ts. shape ch t)"

lemma shape_ex:
  assumes "forest c ch"
  shows "\<exists>t. root_of t = x \<and> shape ch t"
proof (induction x rule: wf_induct_rule [OF forest_wf [OF assms]])
  case (1 x)
  then obtain f where "\<And>y. y \<in> set (ch x) \<Longrightarrow> root_of (f y) = y \<and> shape ch (f y)" by (metis kids_iff)
  then have "shape ch (Rose x (map f (ch x)))" by (simp add: map_idI)
  then show ?case by (intro exI [of _ "Rose x (map f (ch x))"]) simp
qed

lemma preorder_nonempty [simp]: "preorder t \<noteq> []" "hd (preorder t) = root_of t"
  by (cases t; simp)+

lemma set_preorder: "shape ch t \<Longrightarrow> set (preorder t) = under ch (root_of t)"
proof (induction t)
  case (Rose x ts)
  have "under ch x = insert x (\<Union>y \<in> set (ch x). under ch y)" by (rule under_split)
  then show ?case using Rose by auto
qed

text \<open>\<open>chain f xs k\<close>: \<open>f\<close> leads from each element of \<open>xs\<close> to the next, and from the last one to \<open>k\<close>.\<close>

fun chain :: "(nat \<Rightarrow> nat option crun) \<Rightarrow> nat list \<Rightarrow> nat option \<Rightarrow> bool" where
  "chain f [] k = True"
| "chain f (a # xs) k \<longleftrightarrow> f a = Some (Ret (if xs = [] then k else first xs)) \<and> chain f xs k"

lemma chain_append: "chain f (xs @ ys) k \<longleftrightarrow> chain f xs (if ys = [] then k else first ys) \<and> chain f ys k"
  by (induction xs) (auto simp: first_append)

lemma walk_kid:
  assumes f: "forest (cells h) ch" and c: "ch p = as @ x # bs" and x: "Some x \<noteq> tp"
    and k: "bs = [] \<Longrightarrow> k = None \<and> tp = Some p \<or> tp \<noteq> Some p \<and> walk_up p tp h = Some (Ret k)"
  shows "walk_up x tp h = Some (Ret (if bs = [] then k else first bs))"
proof -
  obtain n where n: "cells h x = Some n" "n_parent n = Some p" "n_next n = first bs" using forest_kid [OF f c] by blast
  then show ?thesis using k by (cases bs) (auto simp: walk_up.simps [of x] rd_Some)
qed

lemma WalkNext_leaf:
  assumes f: "forest (cells h) ch" and x: "cells h x \<noteq> None" "ch x = []" and w: "walk_up x tp h = Some (Ret k)" "Some x \<noteq> tp"
  shows "mxmlWalkNext (Some x) tp MXML_DESCEND h = Some (Ret k)"
proof -
  obtain n where n: "cells h x = Some n" using x(1) by blast
  have "n_child n = None" using forest_node [OF f n] x(2) by (simp add: node_ok_def)
  then show ?thesis using w
    by (auto simp: mxmlWalkNext_def rd_Some [OF n] walk_up.simps [of x] split: option.splits if_splits)
qed

lemma WalkNext_down:
  assumes f: "forest (cells h) ch" and x: "cells h x \<noteq> None" "ch x \<noteq> []"
  shows "mxmlWalkNext (Some x) tp MXML_DESCEND h = Some (Ret (first (ch x)))"
proof -
  obtain n where n: "cells h x = Some n" using x(1) by blast
  have "n_child n = first (ch x)" using forest_node [OF f n] by (simp add: node_ok_def)
  then show ?thesis using x(2) by (simp add: mxmlWalkNext_def rd_Some [OF n] MXML_DESCEND_def)
qed

lemma first_preorder [simp]: "first (preorder t @ xs) = Some (root_of t)"
  by (cases t) simp

lemma first_preorders: "first (concat (map preorder ts)) = first (map root_of ts)"
  by (cases ts) simp_all

lemma walk_tree:
  assumes f: "forest (cells h) ch"
  shows "shape ch t \<Longrightarrow> cells h (root_of t) \<noteq> None \<Longrightarrow> tp \<notin> Some ` (set (preorder t) - {root_of t}) \<Longrightarrow>
    (tp = Some (root_of t) \<and> k = None \<or> tp \<noteq> Some (root_of t) \<and> walk_up (root_of t) tp h = Some (Ret k)) \<Longrightarrow>
    chain (\<lambda>x. mxmlWalkNext (Some x) tp MXML_DESCEND h) (preorder t) k"
proof (induction t arbitrary: k)
  case (Rose x ts)
  let ?f = "\<lambda>x. mxmlWalkNext (Some x) tp MXML_DESCEND h"
  have c: "ch x = map root_of ts" and s: "\<And>t. t \<in> set ts \<Longrightarrow> shape ch t" using Rose.prems(1) by auto
  have x: "cells h x \<noteq> None" using Rose.prems(2) by simp
  have xk: "x \<notin> set (preorder t)" if "t \<in> set ts" for t
    using parent_not_under [OF f, of "root_of t" x] set_preorder [OF s [OF that]] c that by auto
  have "chain ?f (concat (map preorder us)) k" if "ts = ss @ us" for ss us
    using that
  proof (induction us arbitrary: ss)
    case (Cons u us)
    have u: "u \<in> set ts" using Cons.prems by simp
    have cu: "ch x = map root_of ss @ root_of u # map root_of us" using c Cons.prems by simp
    have tu: "tp \<noteq> Some (root_of u)" "tp \<notin> Some ` (set (preorder u) - {root_of u})"
      using Rose.prems(3) u xk [OF u] by (auto simp: image_iff) (metis DiffI UnionI hd_in_set image_eqI preorder_nonempty singletonD)+
    have "walk_up (root_of u) tp h = Some (Ret (if us = [] then k else first (map root_of us)))"
      using walk_kid [OF f cu, of tp k] tu(1) Rose.prems(4) by (cases us) auto
    then have "chain ?f (preorder u) (if us = [] then k else first (map root_of us))"
      using Rose.IH [OF u s [OF u]] forest_live [OF f, of "root_of u" x] cu tu by simp
    then show ?case using Cons.IH [of "ss @ [u]"] Cons.prems
      by (cases us) (simp_all add: chain_append first_preorders)
  qed simp
  from this [of "[]" ts] have below: "chain ?f (concat (map preorder ts)) k" by simp
  show ?case
  proof (cases ts)
    case Nil
    have "?f x = Some (Ret k)"
    proof (cases "tp = Some x")
      case True
      obtain n where n: "cells h x = Some n" using x by blast
      have "n_child n = None" using forest_node [OF f n] c Nil by (simp add: node_ok_def)
      then show ?thesis using True Rose.prems(4) by (simp add: mxmlWalkNext_def rd_Some [OF n])
    next
      case False
      then show ?thesis using WalkNext_leaf [OF f x] Rose.prems(4) c Nil by auto
    qed
    then show ?thesis using Nil by simp
  next
    case (Cons t r)
    then have "?f x = Some (Ret (first (concat (map preorder ts))))"
      using WalkNext_down [OF f x] c first_preorders by simp
    moreover have "concat (map preorder ts) \<noteq> []" using Cons by simp
    ultimately show ?thesis using below by simp
  qed
qed

lemma walk_document:
  assumes f: "forest (cells h) ch" and t: "shape ch t" "root_of t = x" and x: "cells h x \<noteq> None"
  shows "chain (\<lambda>y. mxmlWalkNext (Some y) (Some x) MXML_DESCEND h) (preorder t) None"
  using walk_tree [OF f t(1), of "Some x" None] t(2) x by auto

lemma find_loop_chain:
  assumes t: "typed h" and c: "chain (\<lambda>y. mxmlWalkNext (Some y) tp MXML_DESCEND h) xs None"
    and live: "\<And>y. y \<in> set xs \<Longrightarrow> cells h y \<noteq> None"
  shows "find_loop (first xs) tp name attr val MXML_DESCEND h = Some (Ret (find (sat name attr val h) xs))"
  using c live
proof (induction xs)
  case (Cons a xs)
  have w: "mxmlWalkNext (Some a) tp MXML_DESCEND h = Some (Ret (first xs))" using Cons.prems(1) by (auto split: if_splits)
  have m: "matches name attr val h a = Ret (sat name attr val h a)" by (rule matches_sat [OF t]) (use Cons.prems(2) in simp)
  have "find_loop (first xs) tp name attr val MXML_DESCEND h = Some (Ret (find (sat name attr val h) xs))"
    using Cons.IH Cons.prems by simp
  then show ?case by (simp add: find_loop.simps [of "Some a"] w m)
qed simp

lemma chain_split: "chain f (as @ x # bs) k \<Longrightarrow> f x = Some (Ret (if bs = [] then k else first bs)) \<and> chain f bs k"
  by (simp add: chain_append)

lemma FindElement_document:
  assumes f: "forest (cells h) ch" and ty: "typed h" and t: "shape ch t" "root_of t = x" and x: "cells h x \<noteq> None"
    and s: "preorder t = as @ y # bs" and v: "attr \<noteq> None \<or> val = None"
  shows "mxmlFindElement (Some y) (Some x) name attr val MXML_DESCEND h = Some (Ret (find (sat name attr val h) bs))"
proof -
  let ?f = "\<lambda>y. mxmlWalkNext (Some y) (Some x) MXML_DESCEND h"
  have c: "?f y = Some (Ret (first bs))" "chain ?f bs None"
    using chain_split [of ?f as y bs None] walk_document [OF f t x] s by (auto split: if_splits)
  have "cells h z \<noteq> None" if "z \<in> set bs" for z
    using under_live [OF f x, of z] set_preorder [OF t(1)] t(2) s that by auto
  then have "find_loop (first bs) (Some x) name attr val MXML_DESCEND h = Some (Ret (find (sat name attr val h) bs))"
    by (rule find_loop_chain [OF ty c(2)])
  then show ?thesis using c(1) v by (auto simp: mxmlFindElement_def)
qed

end
