(* ===== verification/MxmlOps.thy ===== *)
theory MxmlOps
  imports MxmlSearch
begin

text \<open>
  The interface of the node tree (\<open>mxml-node.c\<close>, \<open>mxml-attr.c\<close>, \<open>mxml-set.c\<close>) as one machine: \<open>xop\<close> are the calls that change
  the tree, \<open>xexec\<close> runs one of them with the functions of the model, \<open>xspec\<close> is its effect on the lists of children, \<open>allowed\<close>
  what a caller has to respect. Every allowed call refines its effect, so no sequence of them faults or breaks the tree.
\<close>

section \<open>Calls\<close>

datatype xop =
    OpAdd nat int "nat option" nat
  | OpRemove nat
  | OpDelete nat
  | OpRelease nat
  | OpRetain nat
  | OpNewCDATA "nat option" string
  | OpNewCustom "nat option" "nat option" "nat option"
  | OpNewElement "nat option" string
  | OpNewInteger "nat option" int
  | OpNewOpaque "nat option" string
  | OpNewReal "nat option" int
  | OpNewText "nat option" int string
  | OpSetAttr nat "string option" "string option"
  | OpDeleteAttr nat "string option"
  | OpSetCustom nat "nat option" "nat option"
  | OpSetElement nat "string option"
  | OpSetInteger nat int
  | OpSetOpaque nat "string option"
  | OpSetReal nat int
  | OpSetText nat int "string option"

definition keep_heap :: "('a \<times> xheap) cres \<Rightarrow> xheap crun" where
  "keep_heap r = Some (cbind r (\<lambda>(_, h). Ret h))"

fun xexec :: "xop \<Rightarrow> xheap \<Rightarrow> xheap crun" where
  "xexec (OpAdd p pos c x) h = Some (mxmlAdd (Some p) pos c (Some x) h)"
| "xexec (OpRemove x) h = Some (mxmlRemove (Some x) h)"
| "xexec (OpDelete x) h = mxmlDelete (Some x) h"
| "xexec (OpRelease x) h = rbind (mxmlRelease (Some x) h) (\<lambda>(_, h). Some (Ret h))"
| "xexec (OpRetain x) h = keep_heap (mxmlRetain (Some x) h)"
| "xexec (OpNewCDATA p s) h = keep_heap (mxmlNewCDATA p (Some s) h)"
| "xexec (OpNewCustom p d f) h = keep_heap (mxmlNewCustom p d f h)"
| "xexec (OpNewElement p s) h = keep_heap (mxmlNewElement p (Some s) h)"
| "xexec (OpNewInteger p i) h = keep_heap (mxmlNewInteger p i h)"
| "xexec (OpNewOpaque p s) h = keep_heap (mxmlNewOpaque p (Some s) h)"
| "xexec (OpNewReal p b) h = keep_heap (mxmlNewReal p b h)"
| "xexec (OpNewText p w s) h = keep_heap (mxmlNewText p w (Some s) h)"
| "xexec (OpSetAttr x a v) h = Some (mxmlElementSetAttr (Some x) a v h)"
| "xexec (OpDeleteAttr x a) h = Some (mxmlElementDeleteAttr (Some x) a h)"
| "xexec (OpSetCustom x d f) h = keep_heap (mxmlSetCustom (Some x) d f h)"
| "xexec (OpSetElement x s) h = keep_heap (mxmlSetElement (Some x) s h)"
| "xexec (OpSetInteger x i) h = keep_heap (mxmlSetInteger (Some x) i h)"
| "xexec (OpSetOpaque x s) h = keep_heap (mxmlSetOpaque (Some x) s h)"
| "xexec (OpSetReal x b) h = keep_heap (mxmlSetReal (Some x) b h)"
| "xexec (OpSetText x w s) h = keep_heap (mxmlSetText (Some x) w s h)"

text \<open>The nodes a call works on; a node may not be put below itself, nor next to itself.\<close>

fun allowed :: "xop \<Rightarrow> xheap \<Rightarrow> (nat \<Rightarrow> nat list) \<Rightarrow> bool" where
  "allowed (OpAdd p pos c x) h ch \<longleftrightarrow> cells h p \<noteq> None \<and> cells h x \<noteq> None \<and> live_opt h c \<and> c \<noteq> Some x \<and>
     (pos = MXML_ADD_BEFORE \<or> pos = MXML_ADD_AFTER) \<and> p \<notin> under ch x"
| "allowed (OpNewCDATA p s) h ch \<longleftrightarrow> live_opt h p"
| "allowed (OpNewCustom p d f) h ch \<longleftrightarrow> live_opt h p"
| "allowed (OpNewElement p s) h ch \<longleftrightarrow> live_opt h p"
| "allowed (OpNewInteger p i) h ch \<longleftrightarrow> live_opt h p"
| "allowed (OpNewOpaque p s) h ch \<longleftrightarrow> live_opt h p"
| "allowed (OpNewReal p b) h ch \<longleftrightarrow> live_opt h p"
| "allowed (OpNewText p w s) h ch \<longleftrightarrow> live_opt h p"
| "allowed (OpRemove x) h ch \<longleftrightarrow> cells h x \<noteq> None"
| "allowed (OpDelete x) h ch \<longleftrightarrow> cells h x \<noteq> None"
| "allowed (OpRelease x) h ch \<longleftrightarrow> cells h x \<noteq> None"
| "allowed (OpRetain x) h ch \<longleftrightarrow> cells h x \<noteq> None"
| "allowed (OpSetAttr x a v) h ch \<longleftrightarrow> cells h x \<noteq> None"
| "allowed (OpDeleteAttr x a) h ch \<longleftrightarrow> cells h x \<noteq> None"
| "allowed (OpSetCustom x d f) h ch \<longleftrightarrow> cells h x \<noteq> None"
| "allowed (OpSetElement x s) h ch \<longleftrightarrow> cells h x \<noteq> None"
| "allowed (OpSetInteger x i) h ch \<longleftrightarrow> cells h x \<noteq> None"
| "allowed (OpSetOpaque x s) h ch \<longleftrightarrow> cells h x \<noteq> None"
| "allowed (OpSetReal x b) h ch \<longleftrightarrow> cells h x \<noteq> None"
| "allowed (OpSetText x w s) h ch \<longleftrightarrow> cells h x \<noteq> None"

definition born :: "nat option \<Rightarrow> xheap \<Rightarrow> (nat \<Rightarrow> nat list) \<Rightarrow> nat \<Rightarrow> nat list" where
  "born p h ch = (if grants h (tick h) then add_kid p (tick h) ch else ch)"

fun xspec :: "xop \<Rightarrow> xheap \<Rightarrow> (nat \<Rightarrow> nat list) \<Rightarrow> nat \<Rightarrow> nat list" where
  "xspec (OpAdd p pos c x) h ch = (drop_link ch x)(p := insert_kid pos c x (drop_link ch x p))"
| "xspec (OpRemove x) h ch = drop_link ch x"
| "xspec (OpDelete x) h ch = pruned ch x"
| "xspec (OpRelease x) h ch =
     (case cells h x of Some n \<Rightarrow> if i32 (n_ref_count n - 1) \<le> 0 then pruned ch x else ch | None \<Rightarrow> ch)"
| "xspec (OpNewCDATA p s) h ch = born p h ch"
| "xspec (OpNewCustom p d f) h ch = born p h ch"
| "xspec (OpNewElement p s) h ch = born p h ch"
| "xspec (OpNewInteger p i) h ch = born p h ch"
| "xspec (OpNewOpaque p s) h ch = born p h ch"
| "xspec (OpNewReal p b) h ch = born p h ch"
| "xspec (OpNewText p w s) h ch = born p h ch"
| "xspec _ h ch = ch"

section \<open>Each call refines its effect\<close>

definition refines :: "xheap crun \<Rightarrow> (nat \<Rightarrow> nat list) \<Rightarrow> bool" where
  "refines r ch' \<longleftrightarrow> (\<exists>h'. r = Some (Ret h') \<and> xinv h' ch')"

lemma new_refines:
  assumes i: "xinv h ch" and p: "live_opt h p" and v: "fits t v" and k: "Suc (tick h) \<le> k"
    and fill: "\<And>g. tick g = Suc (tick h) \<Longrightarrow> grants g = grants h \<Longrightarrow> fill g = (v, g\<lparr>tick := k\<rparr>)"
  shows "refines (keep_heap (new_with p t fill h)) (born p h ch)"
  by (rule new_with_cases [OF i p v fill k])
     (auto simp: refines_def keep_heap_def born_def intro: xinv_tick [OF i])

lemma new_text_refines:
  assumes "xinv h ch" "live_opt h p" "\<And>s. fits t (v s)"
  shows "refines (keep_heap (new_with p t (\<lambda>h. let (s, h) = xstrdup s h in (v s, h)) h)) (born p h ch)"
  by (rule new_refines [OF assms(1,2), where k = "Suc (Suc (tick h))" and v = "v (if grants h (Suc (tick h)) then Some s else None)"])
     (simp_all add: assms(3) xstrdup_def granted_def)

lemma new_plain_refines:
  assumes "xinv h ch" "live_opt h p" "fits t v"
  shows "refines (keep_heap (new_with p t (\<lambda>h. (v, h)) h)) (born p h ch)"
  by (rule new_refines [OF assms, where k = "Suc (tick h)"]) simp_all

lemma data_refines: "xinv h ch \<Longrightarrow> r = Some (Ret h') \<Longrightarrow> data_only h h' \<Longrightarrow> refines r ch"
  using data_only_xinv by (auto simp: refines_def)

lemma set_node_refines:
  assumes i: "xinv h ch" and x: "cells h x \<noteq> None"
    and new: "\<And>n. cells h x = Some n \<Longrightarrow> n_type n = t \<Longrightarrow> fits t (n_value n) \<Longrightarrow> ok \<Longrightarrow>
      \<exists>v h1. new n h = Ret (v, h1) \<and> fits t v \<and> data_only h h1 \<and> cells h1 = cells h"
  shows "refines (keep_heap (set_node (Some x) t ok new h)) ch"
proof -
  obtain n where n: "cells h x = Some n" using x by blast
  have ty: "fits (n_type n) (n_value n)" using xinv_typed [OF i] n by (simp add: typed_def)
  show ?thesis
  proof (cases "n_type n = t \<and> ok")
    case False
    then show ?thesis by (intro data_refines [OF i _ data_only_refl]) (auto simp: set_node_def rd_Some [OF n] keep_heap_def)
  next
    case True
    then obtain v h1 where v: "new n h = Ret (v, h1)" "fits t v" "data_only h h1" "cells h1 = cells h"
      using new [OF n] ty by blast
    have "keep_heap (set_node (Some x) t ok new h) = Some (Ret (ed x (n_value_update (\<lambda>_. v)) h1))"
      using True v n by (simp add: set_node_def rd_Some [OF n] wr_ed keep_heap_def)
    moreover have "data_only h (ed x (n_value_update (\<lambda>_. v)) h1)"
      by (rule data_only_ed [OF v(3)]) (use v n True in auto)
    ultimately show ?thesis by (rule data_refines [OF i])
  qed
qed

lemma set_text_refines:
  assumes "xinv h ch" "cells h x \<noteq> None" "\<And>s. fits t (v s)"
  shows "refines (keep_heap (set_node (Some x) t ok (\<lambda>n h. let (s, h) = xstrdup (w n) h in Ret (v s, h)) h)) ch"
  by (rule set_node_refines [OF assms(1,2)])
     (auto simp: xstrdup_def granted_def assms(3) data_only_def typed_def)

lemma set_plain_refines:
  assumes "xinv h ch" "cells h x \<noteq> None" "fits t v"
  shows "refines (keep_heap (set_node (Some x) t ok (\<lambda>n h. Ret (v, h)) h)) ch"
  by (rule set_node_refines [OF assms(1,2)]) (simp add: assms(3))

lemma DeleteAttr_refines:
  assumes i: "xinv h ch" and x: "cells h x \<noteq> None"
  shows "refines (Some (mxmlElementDeleteAttr (Some x) a h)) ch"
proof -
  obtain n where n: "cells h x = Some n" using x by blast
  show ?thesis
  proof (cases "n_type n = MXML_ELEMENT \<and> a \<noteq> None")
    case False
    then show ?thesis
      by (intro data_refines [OF i _ data_only_refl]) (auto simp: mxmlElementDeleteAttr_def rd_Some [OF n] split: option.split)
  next
    case True
    then obtain nm where a: "a = Some nm" by blast
    obtain en as where e: "n_value n = VElement en as" using element_value [OF xinv_typed [OF i] n] True by blast
    have "mxmlElementDeleteAttr (Some x) a h = Ret (ed x (n_value_update (\<lambda>_. VElement en (del_attr nm as))) h)"
      using True a n e by (simp add: mxmlElementDeleteAttr_def rd_Some elem_def wr_ed)
    moreover have "data_only h (ed x (n_value_update (\<lambda>_. VElement en (del_attr nm as))) h)"
      by (rule data_only_ed) (use n True in auto)
    ultimately show ?thesis by (intro data_refines [OF i]) simp_all
  qed
qed

lemma SetElement_refines:
  assumes i: "xinv h ch" and x: "cells h x \<noteq> None"
  shows "refines (keep_heap (mxmlSetElement (Some x) name h)) ch"
  unfolding mxmlSetElement_def
proof (rule set_node_refines [OF i x])
  fix n assume n: "cells h x = Some n" "n_type n = MXML_ELEMENT" "fits MXML_ELEMENT (n_value n)"
  obtain en as where "n_value n = VElement en as" by (rule element_value [OF xinv_typed [OF i] n(1,2)])
  then show "\<exists>v h1. cbind (elem n) (\<lambda>(_, attrs). let (s, h) = xstrdup (the name) h in Ret (VElement s attrs, h)) = Ret (v, h1) \<and>
      fits MXML_ELEMENT v \<and> data_only h h1 \<and> cells h1 = cells h"
    by (simp add: elem_def xstrdup_def granted_def data_only_def typed_def)
qed

lemma SetCustom_refines:
  assumes i: "xinv h ch" and x: "cells h x \<noteq> None"
  shows "refines (keep_heap (mxmlSetCustom (Some x) d f h)) ch"
  unfolding mxmlSetCustom_def
proof (rule set_node_refines [OF i x])
  fix n assume "fits MXML_CUSTOM (n_value n)"
  then obtain a b where "n_value n = VCustom a b" by (cases "n_value n") auto
  then show "\<exists>v h1. (case n_value n of VCustom (Some d') (Some f') \<Rightarrow> Ret (VCustom d f, h\<lparr>destroyed := destroyed h @ [(f', d')]\<rparr>)
      | VCustom _ _ \<Rightarrow> Ret (VCustom d f, h) | _ \<Rightarrow> Crash WrongMember) = Ret (v, h1) \<and>
      fits MXML_CUSTOM v \<and> data_only h h1 \<and> cells h1 = cells h"
    by (cases a; cases b) (simp_all add: data_only_def typed_def)
qed

lemma count_refines:
  assumes i: "xinv h ch" and n: "cells h x = Some n"
  shows "xinv (ed x (n_ref_count_update g) h) ch"
  by (rule xinv_edit [OF i n]) (use xinv_typed [OF i] n in \<open>auto simp: typed_def\<close>)

lemma Release_refines:
  assumes i: "xinv h ch" and n: "cells h x = Some n"
  shows "refines (rbind (mxmlRelease (Some x) h) (\<lambda>(_, h). Some (Ret h))) (if i32 (n_ref_count n - 1) \<le> 0 then pruned ch x else ch)"
proof -
  let ?h = "ed x (n_ref_count_update (\<lambda>c. i32 (c - 1))) h"
  have i1: "xinv ?h ch" by (rule count_refines [OF i n])
  have n1: "cells ?h x = Some (n\<lparr>n_ref_count := i32 (n_ref_count n - 1)\<rparr>)" using n by (simp add: cells_ed)
  show ?thesis
  proof (cases "i32 (n_ref_count n - 1) \<le> 0")
    case True
    obtain h' where "mxmlDelete (Some x) ?h = Some (Ret h')" "xinv h' (pruned ch x)"
      by (rule Delete_forest [OF i1, of x]) (use n1 in auto)
    then show ?thesis using True n n1 by (simp add: mxmlRelease_def wr_ed rd_Some [OF n1] refines_def)
  next
    case False
    then show ?thesis using i1 n n1 by (simp add: mxmlRelease_def wr_ed rd_Some [OF n1] refines_def)
  qed
qed

lemma Retain_refines:
  assumes i: "xinv h ch" and n: "cells h x = Some n"
  shows "refines (keep_heap (mxmlRetain (Some x) h)) ch"
proof -
  have n1: "cells (ed x (n_ref_count_update (\<lambda>c. i32 (c + 1))) h) x = Some (n\<lparr>n_ref_count := i32 (n_ref_count n + 1)\<rparr>)"
    using n by (simp add: cells_ed)
  show ?thesis using count_refines [OF i n] n
    by (simp add: mxmlRetain_def wr_ed rd_Some [OF n1] keep_heap_def refines_def)
qed

lemma call_refines:
  assumes i: "xinv h ch" and a: "allowed op h ch"
  shows "refines (xexec op h) (xspec op h ch)"
proof (cases op)
  case (OpAdd p pos c x)
  then have x: "cells h x \<noteq> None" "cells h p \<noteq> None" "(p, x) \<notin> (kids ch)\<^sup>*" "c \<noteq> Some x" "pos = MXML_ADD_BEFORE \<or> pos = MXML_ADD_AFTER"
    "\<And>y. c = Some y \<Longrightarrow> cells h y \<noteq> None"
    using a by (auto simp: under_def live_opt_def)
  obtain h' where "mxmlAdd (Some p) pos c (Some x) h = Ret h'" "same_data h h'"
    "forest (cells h') ((drop_link ch x)(p := insert_kid pos c x (drop_link ch x p)))"
    by (rule Add_forest [OF xinv_forest [OF i] x(1-4,6,5)]) auto
  then show ?thesis using OpAdd same_xinv [OF i] by (auto simp: refines_def)
next
  case (OpRemove x)
  then have x: "cells h x \<noteq> None" using a by simp
  obtain h' where "mxmlRemove (Some x) h = Ret h'" "forest (cells h') (drop_link ch x)" "same_data h h'"
    by (rule Remove_forest [OF xinv_forest [OF i] x]) auto
  then show ?thesis using OpRemove same_xinv [OF i] by (auto simp: refines_def)
next
  case (OpDelete x)
  then have x: "cells h x \<noteq> None" using a by simp
  show ?thesis by (rule Delete_forest [OF i x]) (simp add: OpDelete refines_def)
next
  case (OpRelease x)
  then obtain n where n: "cells h x = Some n" using a by auto
  show ?thesis using Release_refines [OF i n] n OpRelease by simp
next
  case (OpRetain x)
  then obtain n where n: "cells h x = Some n" using a by auto
  show ?thesis using Retain_refines [OF i n] OpRetain by simp
next
  case (OpSetAttr x nm v)
  then have x: "cells h x \<noteq> None" using a by simp
  show ?thesis using SetAttr_data [OF xinv_typed [OF i] x, of nm v] data_refines [OF i refl] OpSetAttr by auto
qed (use a in \<open>simp_all add: mxmlNewCDATA_def mxmlNewCustom_def mxmlNewElement_def mxmlNewInteger_def mxmlNewOpaque_def mxmlNewReal_def
      mxmlNewText_def mxmlSetInteger_def mxmlSetOpaque_def mxmlSetReal_def mxmlSetText_def new_text_refines [OF i, unfolded Let_def] new_plain_refines [OF i]
      set_text_refines [OF i, unfolded Let_def] set_plain_refines [OF i] DeleteAttr_refines [OF i] SetElement_refines [OF i] SetCustom_refines [OF i]\<close>)

section \<open>All sequences of calls\<close>

text \<open>The heaps a program can reach with allowed calls, with the lists of children the effects give them.\<close>

inductive xreach :: "xheap \<Rightarrow> (nat \<Rightarrow> nat list) \<Rightarrow> bool" where
  start: "xreach \<lparr>cells = (\<lambda>_. None), tick = 0, grants = g, destroyed = [], reports = []\<rparr> (\<lambda>_. [])"
| call: "xreach h ch \<Longrightarrow> allowed op h ch \<Longrightarrow> xexec op h = Some (Ret h') \<Longrightarrow> xreach h' (xspec op h ch)"

lemma xreach_inv: "xreach h ch \<Longrightarrow> xinv h ch"
proof (induction rule: xreach.induct)
  case (start g)
  then show ?case by (simp add: xinv_def forest_def typed_def kids_def)
next
  case (call h ch op h')
  then show ?case using call_refines [of h ch op] by (auto simp: refines_def)
qed

section \<open>Properties\<close>

text \<open>A document \<open>doc\<close> with the children \<open>a\<close> and \<open>b\<close>.\<close>

definition demo_node :: "nat option \<Rightarrow> nat option \<Rightarrow> nat option \<Rightarrow> nat list \<Rightarrow> string \<Rightarrow> mxml_node" where
  "demo_node p nx pv xs name = \<lparr>n_type = MXML_ELEMENT, n_next = nx, n_prev = pv, n_parent = p, n_child = first xs,
     n_last_child = final xs, n_value = VElement (Some name) [], n_ref_count = 1\<rparr>"

definition demo :: xheap where
  "demo = \<lparr>cells = [0 \<mapsto> demo_node None None None [2, 4] ''doc'', 2 \<mapsto> demo_node (Some 0) (Some 4) None [] ''a'',
     4 \<mapsto> demo_node (Some 0) None (Some 2) [] ''b''], tick = 6, grants = (\<lambda>_. True), destroyed = [], reports = []\<rparr>"

definition demo_kids :: "nat \<Rightarrow> nat list" where
  "demo_kids = (\<lambda>x. if x = 0 then [2, 4] else [])"

lemma demo_ok: "xinv demo demo_kids"
proof -
  have "kids demo_kids \<subseteq> measure (\<lambda>x. if x = 0 then 1 else 0)" by (auto simp: demo_kids_def split: if_splits)
  then have "wf (kids demo_kids)" by (rule wf_subset [OF wf_measure])
  moreover have "node_ok demo_kids x n" if "cells demo x = Some n" for x n
    using that by (auto simp: demo_def demo_node_def node_ok_def demo_kids_def pred_in_def split: if_splits)
  ultimately have "forest (cells demo) demo_kids"
    by (auto simp: forest_def demo_def demo_kids_def split: if_splits)
  then show ?thesis by (auto simp: xinv_def demo_def typed_def demo_node_def)
qed

lemma demo_shape: "shape demo_kids (Rose 0 [Rose 2 [], Rose 4 []])"
  by (simp add: demo_kids_def)

text \<open>Claim C14. In every heap that allowed calls can reach, the union of each node holds the member that the type of the node
  names, and the pointers of all nodes are those of the lists of children that the calls build.\<close>

theorem node_heap_well_typed: "xreach h ch \<Longrightarrow> typed h \<and> forest (cells h) ch"
  using xreach_inv [of h ch] by (simp add: xinv_def)

lemma reach_one: "xexec (OpNewElement None ''doc'') \<lparr>cells = (\<lambda>_. None), tick = 0, grants = (\<lambda>_. True), destroyed = [], reports = []\<rparr> =
    Some (Ret \<lparr>cells = [0 \<mapsto> demo_node None None None [] ''doc''], tick = 2, grants = (\<lambda>_. True), destroyed = [], reports = []\<rparr>)"
  by (simp add: keep_heap_def mxmlNewElement_def new_with_def mxml_new_def granted_def xstrdup_def wr_def demo_node_def Let_def)

theorem node_heap_well_typed_witness:
  "typed \<lparr>cells = [0 \<mapsto> demo_node None None None [] ''doc''], tick = 2, grants = (\<lambda>_. True), destroyed = [], reports = []\<rparr>"
proof -
  have "xreach \<lparr>cells = [0 \<mapsto> demo_node None None None [] ''doc''], tick = 2, grants = (\<lambda>_. True), destroyed = [], reports = []\<rparr>
      (xspec (OpNewElement None ''doc'') \<lparr>cells = (\<lambda>_. None), tick = 0, grants = (\<lambda>_. True), destroyed = [], reports = []\<rparr> (\<lambda>_. []))"
    by (rule xreach.call [OF xreach.start _ reach_one]) (simp add: live_opt_def)
  then show ?thesis using node_heap_well_typed by blast
qed



text \<open>Claim C23. \<open>mxmlDelete\<close> returns, frees the node and all nodes below it and no other node, and unlinks it from its parent; the
  remaining nodes keep their data.\<close>

theorem mxmlDelete_frees_subtree:
  "\<lbrakk>xinv h ch; cells h x \<noteq> None\<rbrakk> \<Longrightarrow>
     \<exists>h'. mxmlDelete (Some x) h = Some (Ret h') \<and> xinv h' (pruned ch x) \<and>
       (\<forall>y. map_option payload (cells h' y) = (if y \<in> under ch x then None else map_option payload (cells h y)))"
  by (rule Delete_forest [of h ch x]) (auto simp: gone_def)

theorem mxmlDelete_frees_subtree_witness:
  "\<exists>h'. mxmlDelete (Some 2) demo = Some (Ret h') \<and> xinv h' (pruned demo_kids 2) \<and>
     (\<forall>y. map_option payload (cells h' y) = (if y \<in> under demo_kids 2 then None else map_option payload (cells demo y)))"
  by (rule mxmlDelete_frees_subtree [OF demo_ok]) (simp add: demo_def)

text \<open>Claim C24. The search through all levels equals the search of a list: starting from a node of the tree below \<open>x\<close>,
  \<open>mxmlFindElement\<close> with \<open>MXML_DESCEND\<close> finds the first matching element among the nodes behind it in document order.\<close>

theorem mxmlFindElement_document_order:
  "\<lbrakk>xinv h ch; shape ch t; cells h (root_of t) \<noteq> None; preorder t = as @ y # bs; attr \<noteq> None \<or> val = None\<rbrakk> \<Longrightarrow>
     mxmlFindElement (Some y) (Some (root_of t)) name attr val MXML_DESCEND h = Some (Ret (find (sat name attr val h) bs))"
  by (rule FindElement_document) (auto simp: xinv_def)

theorem mxmlFindElement_document_order_witness:
  "mxmlFindElement (Some 0) (Some 0) (Some ''b'') None None MXML_DESCEND demo = Some (Ret (Some 4))"
proof -
  have "mxmlFindElement (Some 0) (Some (root_of (Rose 0 [Rose 2 [], Rose 4 []]))) (Some ''b'') None None MXML_DESCEND demo =
      Some (Ret (find (sat (Some ''b'') None None demo) [2, 4]))"
    by (rule mxmlFindElement_document_order [OF demo_ok demo_shape, of "[]"]) (simp_all add: demo_def)
  then show ?thesis by (simp add: sat_def demo_def demo_node_def)
qed

text \<open>The search of one level, with which \<open>xml.c\<close> finds its elements, looks at the children of the node and at nothing
  below them: it equals the search of the list of children.\<close>

theorem mxmlFindElement_one_level:
  "\<lbrakk>xinv h ch; cells h p \<noteq> None; attr \<noteq> None \<or> val = None\<rbrakk> \<Longrightarrow>
     mxmlFindElement (Some p) (Some p) name attr val MXML_DESCEND_FIRST h = Some (Ret (find (sat name attr val h) (ch p)))"
  by (rule FindElement_first) (auto simp: xinv_def)

theorem mxmlFindElement_one_level_witness:
  "mxmlFindElement (Some 0) (Some 0) (Some ''b'') None None MXML_DESCEND_FIRST demo = Some (Ret (Some 4))"
proof -
  have "mxmlFindElement (Some 0) (Some 0) (Some ''b'') None None MXML_DESCEND_FIRST demo =
      Some (Ret (find (sat (Some ''b'') None None demo) (demo_kids 0)))"
    by (rule mxmlFindElement_one_level [OF demo_ok]) (simp_all add: demo_def)
  then show ?thesis by (simp add: sat_def demo_def demo_node_def demo_kids_def)
qed

end
