(* ===== verification/MxmlIndex.thy ===== *)
theory MxmlIndex
  imports MxmlOps "HOL-Library.Multiset"
begin

text \<open>
  Sorted indices over the nodes of a tree: \<open>src/dev/src/pubfun/xml/mxml-index.c\<close>. The indices that are alive are a map from
  addresses; \<open>num_nodes\<close> is the length of the array \<open>i_nodes\<close>. The sort is an in-place quicksort: it ends, permutes the array and
  sorts it, whenever the comparison is a total preorder (locale \<open>node_order\<close>, interpreted on \<open>index_compare\<close>). The search is a
  binary search whose repeated calls list the matching nodes.
\<close>

section \<open>Definitions\<close>

record mxml_index =
  i_attr :: "string option"
  i_alloc :: nat
  i_cur :: nat
  i_nodes :: "nat list"

type_synonym istore = "nat \<Rightarrow> mxml_index option"

definition ird :: "istore \<Rightarrow> nat \<Rightarrow> mxml_index cres" where
  "ird S i = (case S i of None \<Rightarrow> Crash UseAfterFree | Some d \<Rightarrow> Ret d)"

definition nd :: "nat list \<Rightarrow> nat \<Rightarrow> nat cres" where
  "nd ns i = (if i < length ns then Ret (ns ! i) else Crash OutOfBounds)"

definition mxmlIndexDelete :: "nat option \<Rightarrow> istore \<Rightarrow> istore cres" where
  "mxmlIndexDelete ind S = (case ind of None \<Rightarrow> Ret S | Some i \<Rightarrow> cbind (ird S i) (\<lambda>d. Ret (S(i := None))))"

definition mxmlIndexEnum :: "nat option \<Rightarrow> istore \<Rightarrow> (nat option \<times> istore) cres" where
  "mxmlIndexEnum ind S =
     (case ind of None \<Rightarrow> Ret (None, S)
      | Some i \<Rightarrow> cbind (ird S i) (\<lambda>d.
          if i_cur d < length (i_nodes d) then Ret (Some (i_nodes d ! i_cur d), S(i \<mapsto> d\<lparr>i_cur := i_cur d + 1\<rparr>))
          else Ret (None, S)))"

definition mxmlIndexReset :: "nat option \<Rightarrow> istore \<Rightarrow> (nat option \<times> istore) cres" where
  "mxmlIndexReset ind S =
     (case ind of None \<Rightarrow> Ret (None, S)
      | Some i \<Rightarrow> cbind (ird S i) (\<lambda>d. Ret (case i_nodes d of [] \<Rightarrow> None | x # _ \<Rightarrow> Some x, S(i \<mapsto> d\<lparr>i_cur := 0\<rparr>))))"

subsection \<open>Comparisons\<close>

text \<open>\<open>strcmp\<close> follows both pointers.\<close>

definition not_null :: "string option \<Rightarrow> string cres" where
  "not_null s = (case s of None \<Rightarrow> Crash NullDeref | Some t \<Rightarrow> Ret t)"

definition elem_name :: "xheap \<Rightarrow> nat \<Rightarrow> string cres" where
  "elem_name h x = cbind (rd h x) (\<lambda>n. cbind (elem n) (\<lambda>(en, _). not_null en))"

definition elem_attr :: "xheap \<Rightarrow> string option \<Rightarrow> nat \<Rightarrow> string cres" where
  "elem_attr h a x = cbind (mxmlElementGetAttr (Some x) a h) not_null"

definition index_compare :: "string option \<Rightarrow> xheap \<Rightarrow> nat \<Rightarrow> nat \<Rightarrow> int cres" where
  "index_compare attr h x y =
     cbind (elem_name h x) (\<lambda>a. cbind (elem_name h y) (\<lambda>b.
       if strcmp a b \<noteq> 0 then Ret (strcmp a b)
       else if attr = None then Ret 0
       else cbind (elem_attr h attr x) (\<lambda>u. cbind (elem_attr h attr y) (\<lambda>v. Ret (strcmp u v)))))"

definition index_find :: "string option \<Rightarrow> xheap \<Rightarrow> string option \<Rightarrow> string option \<Rightarrow> nat \<Rightarrow> int cres" where
  "index_find attr h element val x =
     cbind (case element of None \<Rightarrow> Ret 0 | Some e \<Rightarrow> cbind (elem_name h x) (\<lambda>b. Ret (strcmp e b))) (\<lambda>diff.
       if diff \<noteq> 0 then Ret diff
       else case val of None \<Rightarrow> Ret 0 | Some v \<Rightarrow> cbind (elem_attr h attr x) (\<lambda>u. Ret (strcmp v u)))"

subsection \<open>Sorting\<close>

text \<open>The two inner loops; \<open>c\<close> compares a node with the pivot.\<close>

function scan_up :: "(nat \<Rightarrow> int cres) \<Rightarrow> nat \<Rightarrow> nat list \<Rightarrow> nat \<Rightarrow> nat cres" where
  "scan_up c right ns t =
     (if t < right then cbind (nd ns t) (\<lambda>x. cbind (c x) (\<lambda>d. if d \<le> 0 then scan_up c right ns (t + 1) else Ret t)) else Ret t)"
  by pat_completeness auto
termination
  by (relation "measure (\<lambda>(c, right, ns, t). right - t)") auto

fun scan_down :: "(nat \<Rightarrow> int cres) \<Rightarrow> nat \<Rightarrow> nat list \<Rightarrow> nat \<Rightarrow> nat cres" where
  "scan_down c left ns 0 = Ret 0"
| "scan_down c left ns (Suc k) =
     (if Suc k > left then cbind (nd ns (Suc k)) (\<lambda>x. cbind (c x) (\<lambda>d. if d > 0 then scan_down c left ns k else Ret (Suc k))) else Ret (Suc k))"

declare scan_up.simps [simp del] scan_down.simps [simp del]

definition swap :: "nat list \<Rightarrow> nat \<Rightarrow> nat \<Rightarrow> nat list" where
  "swap ns i j = ns[i := ns ! j, j := ns ! i]"

partial_function (option) part_loop ::
  "(nat \<Rightarrow> int cres) \<Rightarrow> nat \<Rightarrow> nat \<Rightarrow> nat list \<Rightarrow> nat \<Rightarrow> nat \<Rightarrow> (nat list \<times> nat) crun" where
  "part_loop c left right ns t r =
     (if t < r then
        rbind (Some (scan_up c right ns t)) (\<lambda>t. rbind (Some (scan_down c left ns r)) (\<lambda>r.
          part_loop c left right (if t < r then swap ns t r else ns) t r))
      else Some (Ret (ns, r)))"

declare part_loop.simps [code]

text \<open>The \<open>do\<close> loop over the right part is a tail call.\<close>

partial_function (option) index_sort :: "(nat \<Rightarrow> nat \<Rightarrow> int cres) \<Rightarrow> nat \<Rightarrow> nat \<Rightarrow> nat list \<Rightarrow> nat list crun" where
  "index_sort cmp left right ns =
     rbind (Some (nd ns left)) (\<lambda>pivot.
     rbind (part_loop (\<lambda>x. cmp x pivot) left right ns left right) (\<lambda>(ns, r).
     rbind (Some (nd ns r)) (\<lambda>q.
     rbind (Some (cmp pivot q)) (\<lambda>d.
     rbind (if left + 1 < r then index_sort cmp left (r - 1) (if d > 0 then ns[left := q, r := pivot] else ns)
            else Some (Ret (if d > 0 then ns[left := q, r := pivot] else ns))) (\<lambda>ns.
       if right > r + 1 then index_sort cmp (r + 1) right ns else Some (Ret ns))))))"

declare index_sort.simps [code]

subsection \<open>A new index\<close>

definition no_index_memory :: "string \<Rightarrow> nat \<Rightarrow> string" where
  "no_index_memory sep n = ''Unable to allocate '' @ show_nat n @ '' bytes for index'' @ sep @ ''Cannot allocate memory''"

text \<open>The loop that collects the nodes; \<open>nx\<close> is the search for the next one. \<open>None\<close>: the array could not grow.\<close>

partial_function (option) index_fill ::
  "(nat \<Rightarrow> xheap \<Rightarrow> nat option crun) \<Rightarrow> nat option \<Rightarrow> nat list \<Rightarrow> nat \<Rightarrow> xheap \<Rightarrow> ((nat list \<times> nat) option \<times> xheap) crun" where
  "index_fill nx current ns alloc h =
     (case current of None \<Rightarrow> Some (Ret (Some (ns, alloc), h))
      | Some x \<Rightarrow>
          let full = (length ns \<ge> alloc); (ok, h) = (if full then granted h else (True, h))
          in if \<not> ok then Some (Ret (None, mxml_error (no_index_memory '': '' ((alloc + 64) * 8)) h))
             else rbind (nx x h) (\<lambda>y. index_fill nx y (ns @ [x]) (if full then alloc + 64 else alloc) h))"

declare index_fill.simps [code]

text \<open>When \<open>strdup\<close> fails the index is one without an attribute. The address is the number of the first allocation.\<close>

definition mxmlIndexNew ::
  "nat option \<Rightarrow> string option \<Rightarrow> string option \<Rightarrow> xheap \<Rightarrow> istore \<Rightarrow> (nat option \<times> xheap \<times> istore) crun" where
  "mxmlIndexNew node element attr h S =
     (case node of None \<Rightarrow> Some (Ret (None, h, S))
      | Some _ \<Rightarrow>
          let i = tick h; (ok, h) = granted h
          in if \<not> ok then Some (Ret (None, mxml_error (no_index_memory '' - '' 32) h, S))
             else let (iattr, h) = (case attr of None \<Rightarrow> (None, h) | Some a \<Rightarrow> xstrdup a h)
               in rbind (if element = None \<and> attr = None then Some (Ret node)
                         else mxmlFindElement node node element attr None MXML_DESCEND h) (\<lambda>current.
                  rbind (index_fill (\<lambda>x. mxmlFindElement (Some x) node element attr None MXML_DESCEND) current [] 0 h) (\<lambda>(w, h).
                  case w of None \<Rightarrow> Some (Ret (None, h, S))
                  | Some (ns, alloc) \<Rightarrow>
                      rbind (if length ns > 1 then index_sort (index_compare iattr h) 0 (length ns - 1) ns else Some (Ret ns)) (\<lambda>ns.
                      Some (Ret (Some i, h, S(i \<mapsto> \<lparr>i_attr = iattr, i_alloc = alloc, i_cur = 0, i_nodes = ns\<rparr>)))))))"

subsection \<open>Searching\<close>

text \<open>The binary search: the place of a match, or the last two candidates. \<open>f\<close> compares the values with the node at a place.\<close>

function halve :: "(nat \<Rightarrow> int cres) \<Rightarrow> nat \<Rightarrow> nat \<Rightarrow> (nat + nat \<times> nat) cres" where
  "halve f lo hi =
     (if hi - lo > 1 then
        cbind (f ((lo + hi) div 2)) (\<lambda>diff.
          if diff = 0 then Ret (Inl ((lo + hi) div 2))
          else if diff < 0 then halve f lo ((lo + hi) div 2) else halve f ((lo + hi) div 2) hi)
      else Ret (Inr (lo, hi)))"
  by pat_completeness auto
termination
  by (relation "measure (\<lambda>(f, lo, hi). hi - lo)") auto

fun move_back :: "(nat \<Rightarrow> int cres) \<Rightarrow> nat \<Rightarrow> nat cres" where
  "move_back f 0 = Ret 0"
| "move_back f (Suc k) = cbind (f k) (\<lambda>d. if d = 0 then move_back f k else Ret (Suc k))"

function first_of :: "(nat \<Rightarrow> int cres) \<Rightarrow> nat \<Rightarrow> nat \<Rightarrow> nat option cres" where
  "first_of f current hi =
     (if current \<le> hi then cbind (f current) (\<lambda>d. if d = 0 then Ret (Some current) else first_of f (current + 1) hi) else Ret None)"
  by pat_completeness auto
termination
  by (relation "measure (\<lambda>(f, current, hi). Suc hi - current)") auto

declare halve.simps [simp del] move_back.simps [simp del] first_of.simps [simp del]

definition first_match :: "(nat \<Rightarrow> int cres) \<Rightarrow> nat \<Rightarrow> nat option cres" where
  "first_match f n =
     cbind (halve f 0 (n - 1)) (\<lambda>w. case w of
       Inl current \<Rightarrow> cbind (move_back f current) (\<lambda>k. Ret (Some k))
     | Inr (lo, hi) \<Rightarrow> first_of f lo hi)"

definition mxmlIndexFind :: "nat option \<Rightarrow> string option \<Rightarrow> string option \<Rightarrow> xheap \<Rightarrow> istore \<Rightarrow> (nat option \<times> istore) cres" where
  "mxmlIndexFind ind element val h S =
     (case ind of None \<Rightarrow> Ret (None, S)
      | Some i \<Rightarrow> cbind (ird S i) (\<lambda>d.
          if i_attr d = None \<and> val \<noteq> None then Ret (None, S)
          else if element = None \<and> val = None then mxmlIndexEnum ind S
          else if i_nodes d = [] then Ret (None, S)
          else let n = length (i_nodes d); f = (\<lambda>k. cbind (nd (i_nodes d) k) (index_find (i_attr d) h element val));
                   found = (\<lambda>k. Ret (Some (i_nodes d ! k), S(i \<mapsto> d\<lparr>i_cur := k + 1\<rparr>))); nothing = Ret (None, S(i \<mapsto> d\<lparr>i_cur := n\<rparr>))
            in if i_cur d = 0 then cbind (first_match f n) (\<lambda>k. case k of None \<Rightarrow> nothing | Some k \<Rightarrow> found k)
               else if i_cur d < n then cbind (f (i_cur d)) (\<lambda>diff. if diff = 0 then found (i_cur d) else nothing)
               else nothing))"

section \<open>The sort\<close>

text \<open>The places from \<open>l\<close> to \<open>r\<close> are permuted.\<close>

definition perm_in :: "nat \<Rightarrow> nat \<Rightarrow> nat list \<Rightarrow> nat list \<Rightarrow> bool" where
  "perm_in l r ns ns' \<longleftrightarrow> length ns' = length ns \<and> mset ns' = mset ns \<and> (\<forall>i. i < l \<or> r < i \<longrightarrow> ns' ! i = ns ! i)"

lemma perm_refl [simp]: "perm_in l r ns ns"
  by (simp add: perm_in_def)

lemma perm_trans: "perm_in l r ns n1 \<Longrightarrow> perm_in l r n1 n2 \<Longrightarrow> perm_in l r ns n2"
  by (simp add: perm_in_def)

lemma perm_wider: "perm_in l' r' ns ns' \<Longrightarrow> l \<le> l' \<Longrightarrow> r' \<le> r \<Longrightarrow> perm_in l r ns ns'"
  by (auto simp: perm_in_def)

lemma perm_set: "perm_in l r ns ns' \<Longrightarrow> set ns' = set ns"
  unfolding perm_in_def by (metis set_mset_mset)

lemma perm_swap: "i < length ns \<Longrightarrow> j < length ns \<Longrightarrow> l \<le> i \<Longrightarrow> i \<le> r \<Longrightarrow> l \<le> j \<Longrightarrow> j \<le> r \<Longrightarrow> perm_in l r ns (swap ns i j)"
  by (auto simp: perm_in_def swap_def nth_list_update mset_swap)

lemma perm_all:
  assumes p: "perm_in l r ns ns'" and r: "r < length ns" and P: "\<And>i. l \<le> i \<Longrightarrow> i \<le> r \<Longrightarrow> P (ns ! i)" and i: "l \<le> i" "i \<le> r"
  shows "P (ns' ! i)"
proof -
  have len: "length ns' = length ns" using p by (simp add: perm_in_def)
  let ?seg = "\<lambda>xs. drop l (take (Suc r) xs)"
  have lr: "l \<le> Suc r" using i by simp
  have split: "mset xs = mset (take l xs) + mset (?seg xs) + mset (drop (Suc r) xs)" for xs :: "nat list"
  proof -
    have "take l (take (Suc r) xs) = take l xs" using lr by (simp add: min_absorb1)
    then show ?thesis by (metis append_take_drop_id mset_append)
  qed
  have "take l ns' = take l ns" using p r lr by (intro nth_equalityI) (auto simp: perm_in_def)
  moreover have "drop (Suc r) ns' = drop (Suc r) ns" using p by (intro nth_equalityI) (auto simp: perm_in_def)
  ultimately have "mset (?seg ns') = mset (?seg ns)" using split [of ns] split [of ns'] p by (simp add: perm_in_def)
  then have s: "set (?seg ns') = set (?seg ns)" by (metis set_mset_mset)
  have "ns' ! i = ?seg ns' ! (i - l)" "i - l < length (?seg ns')" using i r len by auto
  then have "ns' ! i \<in> set (?seg ns)" using s by (metis nth_mem)
  then obtain k where "k < length (?seg ns)" "ns' ! i = ?seg ns ! k" by (metis in_set_conv_nth)
  then have "ns' ! i = ns ! (l + k)" "l + k \<le> r" using r by auto
  then show ?thesis using P [of "l + k"] by simp
qed

locale node_order =
  fixes cmp :: "nat \<Rightarrow> nat \<Rightarrow> int cres" and c :: "nat \<Rightarrow> nat \<Rightarrow> int" and A :: "nat set"
  assumes cmp_ret: "x \<in> A \<Longrightarrow> y \<in> A \<Longrightarrow> cmp x y = Ret (c x y)"
    and c_refl: "c x x \<le> 0" and c_trans: "c x y \<le> 0 \<Longrightarrow> c y z \<le> 0 \<Longrightarrow> c x z \<le> 0" and c_total: "0 < c x y \<Longrightarrow> c y x \<le> 0"
begin

definition ordered :: "nat \<Rightarrow> nat \<Rightarrow> nat list \<Rightarrow> bool" where
  "ordered l r ns \<longleftrightarrow> (\<forall>i j. l \<le> i \<longrightarrow> i \<le> j \<longrightarrow> j \<le> r \<longrightarrow> c (ns ! i) (ns ! j) \<le> 0)"

lemma scan_up_stops:
  "right < length ns \<Longrightarrow> set ns \<subseteq> A \<Longrightarrow> p \<in> A \<Longrightarrow> t \<le> right \<Longrightarrow>
    \<exists>t'. scan_up (\<lambda>x. cmp x p) right ns t = Ret t' \<and> t \<le> t' \<and> t' \<le> right \<and> (\<forall>i. t \<le> i \<longrightarrow> i < t' \<longrightarrow> c (ns ! i) p \<le> 0) \<and>
      (t' < right \<longrightarrow> 0 < c (ns ! t') p)"
proof (induction "right - t" arbitrary: t)
  case 0
  then have "right = t" by simp
  then show ?case by (intro exI [of _ t]) (simp add: scan_up.simps [of _ t ns t])
next
  case (Suc k)
  have t: "t < right" "ns ! t \<in> A" using Suc.hyps(2) Suc.prems(1,2) by auto
  have step: "scan_up (\<lambda>x. cmp x p) right ns t = (if c (ns ! t) p \<le> 0 then scan_up (\<lambda>x. cmp x p) right ns (t + 1) else Ret t)"
    using t Suc.prems(1,3) cmp_ret by (simp add: scan_up.simps [of _ right ns t] nd_def)
  show ?case
  proof (cases "c (ns ! t) p \<le> 0")
    case True
    have "k = right - (t + 1)" "t + 1 \<le> right" using Suc.hyps(2) t(1) by auto
    from Suc.hyps(1) [OF this(1) Suc.prems(1,2,3) this(2)]
    obtain t' where "scan_up (\<lambda>x. cmp x p) right ns (t + 1) = Ret t'" "t + 1 \<le> t'" "t' \<le> right" "\<forall>i. t + 1 \<le> i \<longrightarrow> i < t' \<longrightarrow> c (ns ! i) p \<le> 0"
      "t' < right \<longrightarrow> 0 < c (ns ! t') p"
      by blast
    moreover have "c (ns ! i) p \<le> 0" if "t \<le> i" "i < t'" for i using calculation(4) that True by (cases "i = t") auto
    ultimately show ?thesis using step True by (intro exI [of _ t']) auto
  next
    case False
    then show ?thesis using step t(1) by (intro exI [of _ t]) auto
  qed
qed

lemma scan_down_stops:
  "r < length ns \<Longrightarrow> set ns \<subseteq> A \<Longrightarrow> p \<in> A \<Longrightarrow> left \<le> r \<Longrightarrow>
    \<exists>r'. scan_down (\<lambda>x. cmp x p) left ns r = Ret r' \<and> left \<le> r' \<and> r' \<le> r \<and> (\<forall>i. r' < i \<longrightarrow> i \<le> r \<longrightarrow> 0 < c (ns ! i) p) \<and>
      (left < r' \<longrightarrow> c (ns ! r') p \<le> 0)"
proof (induction r)
  case 0
  then show ?case by (simp add: scan_down.simps)
next
  case (Suc r)
  show ?case
  proof (cases "left = Suc r")
    case True
    then show ?thesis by (simp add: scan_down.simps)
  next
    case False
    then have l: "left \<le> r" "ns ! Suc r \<in> A" using Suc.prems(1,2,4) by auto
    have step: "scan_down (\<lambda>x. cmp x p) left ns (Suc r) = (if 0 < c (ns ! Suc r) p then scan_down (\<lambda>x. cmp x p) left ns r else Ret (Suc r))"
      using l Suc.prems(1,3) cmp_ret by (simp add: scan_down.simps nd_def)
    show ?thesis
    proof (cases "0 < c (ns ! Suc r) p")
      case True
      obtain r' where "scan_down (\<lambda>x. cmp x p) left ns r = Ret r'" "left \<le> r'" "r' \<le> r" "\<forall>i. r' < i \<longrightarrow> i \<le> r \<longrightarrow> 0 < c (ns ! i) p"
        "left < r' \<longrightarrow> c (ns ! r') p \<le> 0"
        using Suc.IH Suc.prems l(1) by auto
      moreover have "0 < c (ns ! i) p" if "r' < i" "i \<le> Suc r" for i using calculation(4) that True by (cases "i = Suc r") auto
      ultimately show ?thesis using step True by (intro exI [of _ r']) auto
    next
      case False
      then show ?thesis using step l(1) by (intro exI [of _ "Suc r"]) auto
    qed
  qed
qed

text \<open>A state of the partition: left of \<open>t\<close> nothing is greater than the pivot \<open>p\<close>, right of \<open>r\<close> everything is.\<close>

definition parted :: "nat \<Rightarrow> nat \<Rightarrow> nat \<Rightarrow> nat list \<Rightarrow> nat \<Rightarrow> nat \<Rightarrow> bool" where
  "parted p left right ns t r \<longleftrightarrow> left \<le> t \<and> t \<le> right \<and> left \<le> r \<and> r \<le> right \<and> right < length ns \<and> set ns \<subseteq> A \<and> ns ! left = p \<and>
     (\<forall>i. left \<le> i \<longrightarrow> i < t \<longrightarrow> c (ns ! i) p \<le> 0) \<and> (\<forall>i. r < i \<longrightarrow> i \<le> right \<longrightarrow> 0 < c (ns ! i) p)"

lemma part_loop_parts:
  "parted p left right ns t r \<Longrightarrow> t < r \<Longrightarrow> c (ns ! t) p \<le> 0 \<Longrightarrow>
    \<exists>ns' r'. part_loop (\<lambda>x. cmp x p) left right ns t r = Some (Ret (ns', r')) \<and> perm_in left right ns ns' \<and> ns' ! left = p \<and> left \<le> r' \<and> r' \<le> right \<and>
      (\<forall>i. left \<le> i \<longrightarrow> i \<le> r' \<longrightarrow> c (ns' ! i) p \<le> 0) \<and> (\<forall>i. r' < i \<longrightarrow> i \<le> right \<longrightarrow> 0 < c (ns' ! i) p)"
proof (induction "r - t" arbitrary: ns t r rule: less_induct)
  case less
  note P = less.prems(1) [unfolded parted_def]
  have p: "p \<in> A" using P by (metis le_less_trans nth_mem subsetD)
  obtain t1 where t1: "scan_up (\<lambda>x. cmp x p) right ns t = Ret t1" "t \<le> t1" "t1 \<le> right" "\<forall>i. t \<le> i \<longrightarrow> i < t1 \<longrightarrow> c (ns ! i) p \<le> 0"
    "t1 < right \<longrightarrow> 0 < c (ns ! t1) p"
    using scan_up_stops [of right ns p t] P p by auto
  obtain r1 where r1: "scan_down (\<lambda>x. cmp x p) left ns r = Ret r1" "left \<le> r1" "r1 \<le> r" "\<forall>i. r1 < i \<longrightarrow> i \<le> r \<longrightarrow> 0 < c (ns ! i) p"
    "left < r1 \<longrightarrow> c (ns ! r1) p \<le> 0"
    using scan_down_stops [of r ns p left] P p by auto
  have tt: "t < t1" using t1(2,5) less.prems(2,3) P by (cases "t1 = t") auto
  have low: "c (ns ! i) p \<le> 0" if "left \<le> i" "i < t1" for i using P t1(4) that by (cases "i < t") auto
  have high: "0 < c (ns ! i) p" if "r1 < i" "i \<le> right" for i using P r1(4) that by (cases "i \<le> r") auto
  have step: "part_loop (\<lambda>x. cmp x p) left right ns t r = part_loop (\<lambda>x. cmp x p) left right (if t1 < r1 then swap ns t1 r1 else ns) t1 r1"
    using less.prems(2) t1(1) r1(1) by (simp add: part_loop.simps [of _ left right ns t r])
  show ?case
  proof (cases "t1 < r1")
    case True
    let ?ns = "swap ns t1 r1"
    have b: "t1 < length ns" "r1 < length ns" "left < t1" using P t1(3) r1(3) tt by auto
    have pm: "perm_in left right ns ?ns" by (rule perm_swap) (use b r1(2,3) t1(3) P in auto)
    have n: "?ns ! t1 = ns ! r1" "?ns ! r1 = ns ! t1" "\<And>i. i \<noteq> t1 \<Longrightarrow> i \<noteq> r1 \<Longrightarrow> ?ns ! i = ns ! i"
      using b by (auto simp: swap_def nth_list_update)
    have gr: "0 < c (ns ! t1) p" "c (ns ! r1) p \<le> 0" using True t1(5) r1(2,3,5) b(3) P by auto
    have "parted p left right ?ns t1 r1"
      unfolding parted_def
    proof (intro conjI allI impI)
      show "left \<le> t1" "t1 \<le> right" "left \<le> r1" "r1 \<le> right" "right < length ?ns" using P t1 r1 tt by (auto simp: swap_def)
      show "set ?ns \<subseteq> A" using perm_set [OF pm] P by simp
      show "?ns ! left = p" using n(3) [of left] b(3) True P by simp
      show "c (?ns ! i) p \<le> 0" if "left \<le> i" "i < t1" for i using low [OF that] n(3) [of i] that True by simp
      show "0 < c (?ns ! i) p" if "r1 < i" "i \<le> right" for i using high [OF that] n(3) [of i] that True by simp
    qed
    moreover have "r1 - t1 < r - t" using True r1(3) tt by simp
    ultimately obtain ns' r' where ns': "part_loop (\<lambda>x. cmp x p) left right ?ns t1 r1 = Some (Ret (ns', r'))" "perm_in left right ?ns ns'" "ns' ! left = p"
      "left \<le> r'" "r' \<le> right" "\<forall>i. left \<le> i \<longrightarrow> i \<le> r' \<longrightarrow> c (ns' ! i) p \<le> 0" "\<forall>i. r' < i \<longrightarrow> i \<le> right \<longrightarrow> 0 < c (ns' ! i) p"
      using less.hyps [of r1 t1 ?ns] True gr(2) n(1) by auto
    then show ?thesis using step True perm_trans [OF pm ns'(2)] by (intro exI [of _ ns'] exI [of _ r']) simp
  next
    case False
    have "c (ns ! i) p \<le> 0" if i: "left \<le> i" "i \<le> r1" for i
    proof (cases "i < t1")
      case True
      then show ?thesis by (rule low [OF i(1)])
    next
      case no: False
      then have "i = r1" "left < r1" using i False tt P by auto
      then show ?thesis using r1(5) by simp
    qed
    then show ?thesis
      using step False high P r1(2,3) by (intro exI [of _ ns] exI [of _ r1]) (simp add: part_loop.simps [of _ left right ns t1 r1])
  qed
qed

lemma index_sort_sorts:
  "left < right \<Longrightarrow> right < length ns \<Longrightarrow> set ns \<subseteq> A \<Longrightarrow>
    \<exists>ns'. index_sort cmp left right ns = Some (Ret ns') \<and> perm_in left right ns ns' \<and> ordered left right ns'"
proof (induction "right - left" arbitrary: left right ns rule: less_induct)
  case less
  let ?p = "ns ! left"
  have A: "ns ! i \<in> A" if "i < length ns" for i using less.prems(3) that by auto
  have "parted ?p left right ns left right" using less.prems by (auto simp: parted_def)
  then obtain n1 r where n1: "part_loop (\<lambda>x. cmp x ?p) left right ns left right = Some (Ret (n1, r))" "perm_in left right ns n1" "n1 ! left = ?p"
    "left \<le> r" "r \<le> right" "\<forall>i. left \<le> i \<longrightarrow> i \<le> r \<longrightarrow> c (n1 ! i) ?p \<le> 0" "\<forall>i. r < i \<longrightarrow> i \<le> right \<longrightarrow> 0 < c (n1 ! i) ?p"
    using part_loop_parts [of ?p left right ns left right] less.prems(1) c_refl [of ?p] by auto
  let ?q = "n1 ! r"
  have l1: "length n1 = length ns" "set n1 = set ns" using n1(2) perm_set [OF n1(2)] by (auto simp: perm_in_def)
  obtain n2 where n2: "n2 = (if 0 < c ?p ?q then n1[left := ?q, r := ?p] else n1)" by simp
  have sw: "n1[left := ?q, r := ?p] = swap n1 left r" using n1(3) by (simp add: swap_def)
  have p2: "perm_in left r n1 n2" using perm_swap [of left n1 r left r] n1(4,5) l1(1) less.prems(2) by (simp add: sw n2)
  have l2: "length n2 = length ns" "set n2 = set ns" using p2 perm_set [OF p2] l1 by (auto simp: perm_in_def)
  have piv: "c ?p (n2 ! r) \<le> 0" using n1(4,5) l1(1) less.prems(2) c_refl [of ?p] by (auto simp: n2)
  have low2: "c (n2 ! i) ?p \<le> 0" if "left \<le> i" "i \<le> r" for i
    by (rule perm_all [OF p2, of "\<lambda>x. c x ?p \<le> 0"]) (use n1(5,6) l1(1) less.prems(2) that in auto)
  have high2: "0 < c (n2 ! i) ?p" if "r < i" "i \<le> right" for i using n1(7) that p2 by (simp add: perm_in_def)
  have sub: "\<exists>n'. (if a < b then index_sort cmp a b n else Some (Ret n)) = Some (Ret n') \<and> perm_in a b n n' \<and> ordered a b n'"
    if "b - a < right - left" "b < length n" "set n \<subseteq> A" for a b n
  proof (cases "a < b")
    case True
    then show ?thesis using less.hyps [OF that(1) _ that(2,3)] by simp
  next
    case False
    then have "ordered a b n" unfolding ordered_def using c_refl by (metis dual_order.strict_trans1 le_neq_implies_less le_trans)
    then show ?thesis using False by (intro exI [of _ n]) simp
  qed
  have "r - 1 - left < right - left" "r - 1 < length n2" "set n2 \<subseteq> A" using n1(4,5) less.prems l2 by auto
  from sub [OF this] obtain n3 where
    n3: "(if left < r - 1 then index_sort cmp left (r - 1) n2 else Some (Ret n2)) = Some (Ret n3)" "perm_in left (r - 1) n2 n3" "ordered left (r - 1) n3"
    by blast
  have l3: "length n3 = length ns" "set n3 = set ns" using n3(2) perm_set [OF n3(2)] l2 by (auto simp: perm_in_def)
  have "right - (r + 1) < right - left" "right < length n3" "set n3 \<subseteq> A" using n1(4,5) less.prems l3 by auto
  from sub [OF this] obtain n4 where
    n4: "(if r + 1 < right then index_sort cmp (r + 1) right n3 else Some (Ret n3)) = Some (Ret n4)" "perm_in (r + 1) right n3 n4" "ordered (r + 1) right n4"
    by blast
  have "index_sort cmp left right ns = Some (Ret n4)"
  proof -
    have b: "left < length ns" "r < length n1" using n1(5) l1(1) less.prems by auto
    then have "?q \<in> set n1" "?p \<in> set ns" by auto
    then have "?q \<in> A" "?p \<in> A" using l1(2) less.prems(3) by auto
    then have "cmp ?p ?q = Ret (c ?p ?q)" by (rule cmp_ret [rotated])
    moreover have "left + 1 < r \<longleftrightarrow> left < r - 1" by auto
    ultimately show ?thesis using b n1(1) n3(1) n4(1)
      by (cases "left < r - 1"; cases "r + 1 < right") (simp_all add: index_sort.simps [of cmp left right ns] nd_def flip: n2)
  qed
  moreover have "perm_in left right ns n4"
  proof -
    have "perm_in left right n1 n2" "perm_in left right n2 n3" "perm_in left right n3 n4"
      using perm_wider [OF p2] perm_wider [OF n3(2)] perm_wider [OF n4(2)] n1(4,5) by auto
    then show ?thesis using n1(2) by (blast intro: perm_trans)
  qed
  moreover have "ordered left right n4"
  proof -
    have n43: "n4 ! i = n3 ! i" if "i \<le> r" for i using n4(2) that by (simp add: perm_in_def)
    have n32: "n3 ! i = n2 ! i" if "r < i" for i using n3(2) that by (auto simp: perm_in_def)
    have n3r: "n3 ! r = n2 ! r"
    proof (cases r)
      case 0
      then have "perm_in r r n2 n3" using n3(2) n1(4) by simp
      from perm_all [OF this, of "\<lambda>x. x = n2 ! r" r] n1(5) l2 less.prems(2) show ?thesis by (metis le_antisym le_less_trans order_refl)
    next
      case (Suc k)
      then show ?thesis using n3(2) by (simp add: perm_in_def)
    qed
    have low: "c (n4 ! i) ?p \<le> 0" if "left \<le> i" "i \<le> r" for i
      unfolding n43 [OF that(2)]
      by (rule perm_all [OF perm_wider [OF n3(2), of left r], of "\<lambda>x. c x ?p \<le> 0"]) (use low2 n1(5) l2 less.prems(2) that in auto)
    have high: "c ?p (n4 ! j) \<le> 0" if "r \<le> j" "j \<le> right" for j
    proof (cases "j = r")
      case True
      then show ?thesis using piv n43 n3r by simp
    next
      case False
      have "0 < c (n4 ! j) ?p"
        by (rule perm_all [OF n4(2), of "\<lambda>x. 0 < c x ?p"]) (use high2 n32 l3 less.prems(2) that False in auto)
      then show ?thesis by (rule c_total)
    qed
    show ?thesis
      unfolding ordered_def
    proof (intro allI impI)
      fix i j
      assume ij: "left \<le> i" "i \<le> j" "j \<le> right"
      consider "j < r" | "i \<le> r" "r \<le> j" | "r < i" by linarith
      then show "c (n4 ! i) (n4 ! j) \<le> 0"
      proof cases
        case 1
        then show ?thesis using n3(3) ij n43 by (auto simp: ordered_def)
      next
        case 2
        then show ?thesis using c_trans [OF low high] ij by simp
      next
        case 3
        then show ?thesis using n4(3) ij by (auto simp: ordered_def)
      qed
    qed
  qed
  ultimately show ?case by blast
qed

end


section \<open>The order of the nodes\<close>

definition name_at :: "xheap \<Rightarrow> nat \<Rightarrow> string" where
  "name_at h x = (case cells h x of Some n \<Rightarrow> (case n_value n of VElement (Some en) _ \<Rightarrow> en | _ \<Rightarrow> []) | None \<Rightarrow> [])"

definition attr_at :: "xheap \<Rightarrow> string option \<Rightarrow> nat \<Rightarrow> string" where
  "attr_at h a x = (case cells h x of Some n \<Rightarrow> (case n_value n of VElement _ as \<Rightarrow> (case get_attr (the a) as of Some v \<Rightarrow> v | None \<Rightarrow> []) | _ \<Rightarrow> [])
     | None \<Rightarrow> [])"

definition key_cmp :: "string option \<Rightarrow> xheap \<Rightarrow> nat \<Rightarrow> nat \<Rightarrow> int" where
  "key_cmp a h x y = (if strcmp (name_at h x) (name_at h y) \<noteq> 0 then strcmp (name_at h x) (name_at h y)
     else if a = None then 0 else strcmp (attr_at h a x) (attr_at h a y))"

text \<open>The same for the comparison with the values that are looked for.\<close>

definition key_find :: "string option \<Rightarrow> xheap \<Rightarrow> string option \<Rightarrow> string option \<Rightarrow> nat \<Rightarrow> int" where
  "key_find a h element val x =
     (let diff = (case element of None \<Rightarrow> 0 | Some e \<Rightarrow> strcmp e (name_at h x))
      in if diff \<noteq> 0 then diff else case val of None \<Rightarrow> 0 | Some v \<Rightarrow> strcmp v (attr_at h a x))"

lemma sat_elem:
  assumes "sat element attr None h x"
  obtains n en as where "cells h x = Some n" "n_type n = MXML_ELEMENT" "n_value n = VElement (Some en) as" "name_at h x = en"
    "attr \<noteq> None \<Longrightarrow> get_attr (the attr) as = Some (attr_at h attr x)" "element = None \<or> element = Some en"
proof -
  obtain n where n: "cells h x = Some n" "n_type n = MXML_ELEMENT" using assms by (auto simp: sat_def split: option.splits mxml_type.splits)
  obtain en as where e: "n_value n = VElement (Some en) as" using assms n by (auto simp: sat_def split: mxml_value.splits option.splits)
  show ?thesis
    by (rule that [OF n e]) (use assms n e in \<open>auto simp: sat_def name_at_def attr_at_def split: option.splits\<close>)
qed

lemma sat_weaker: "sat element attr None h x \<Longrightarrow> sat None attr None h x" "sat element attr None h x \<Longrightarrow> sat element None None h x"
  by (auto simp: sat_def split: option.splits mxml_type.splits mxml_value.splits)

lemma elem_name_ok: "sat element attr None h x \<Longrightarrow> elem_name h x = Ret (name_at h x)"
  by (erule sat_elem) (simp add: elem_name_def rd_Some elem_def not_null_def)

lemma elem_attr_ok: "sat element attr None h x \<Longrightarrow> attr \<noteq> None \<Longrightarrow> elem_attr h attr x = Ret (attr_at h attr x)"
  by (erule sat_elem) (auto simp: elem_attr_def mxmlElementGetAttr_def rd_Some elem_def not_null_def)

lemma index_compare_ok:
  assumes "sat None attr None h x" "sat None attr None h y"
  shows "index_compare attr h x y = Ret (key_cmp attr h x y)"
  using elem_name_ok [OF assms(1)] elem_name_ok [OF assms(2)] elem_attr_ok [OF assms(1)] elem_attr_ok [OF assms(2)]
  by (cases attr) (auto simp: index_compare_def key_cmp_def)

lemma index_find_ok:
  assumes "sat None attr None h x" "val = None \<or> attr \<noteq> None"
  shows "index_find attr h element val x = Ret (key_find attr h element val x)"
  using elem_name_ok [OF assms(1)] elem_attr_ok [OF assms(1)] assms(2)
  by (cases element; cases val) (auto simp: index_find_def key_find_def Let_def)

lemma strcmp_le_trans: "strcmp a b \<le> 0 \<Longrightarrow> strcmp b c \<le> 0 \<Longrightarrow> strcmp a c \<le> 0"
  using strcmp_trans [of a b c] by (cases "a = b"; cases "b = c") (auto simp: order.order_iff_strict)

lemma strcmp_le_less: "strcmp a b \<le> 0 \<Longrightarrow> strcmp b c < 0 \<Longrightarrow> strcmp a c < 0" "strcmp a b < 0 \<Longrightarrow> strcmp b c \<le> 0 \<Longrightarrow> strcmp a c < 0"
  using strcmp_trans [of a b c] by (cases "a = b"; cases "b = c"; auto simp: order.order_iff_strict)+

interpretation ix: node_order "index_compare attr h" "key_cmp attr h" "{x. sat None attr None h x}" for attr h
proof
  show "index_compare attr h x y = Ret (key_cmp attr h x y)" if "x \<in> {x. sat None attr None h x}" "y \<in> {x. sat None attr None h x}" for x y
    using that index_compare_ok by simp
  show "key_cmp attr h x x \<le> 0" for x by (simp add: key_cmp_def)
  show "key_cmp attr h y x \<le> 0" if "0 < key_cmp attr h x y" for x y
    using that strcmp_swap [of "name_at h y" "name_at h x"] strcmp_swap [of "attr_at h attr y" "attr_at h attr x"]
    by (auto simp: key_cmp_def split: if_splits)
  show "key_cmp attr h x z \<le> 0" if "key_cmp attr h x y \<le> 0" "key_cmp attr h y z \<le> 0" for x y z
    using that strcmp_le_trans [of "name_at h x" "name_at h y" "name_at h z"] strcmp_le_trans [of "attr_at h attr x" "attr_at h attr y" "attr_at h attr z"]
      strcmp_le_less [of "name_at h x" "name_at h y" "name_at h z"] strcmp_swap [of "name_at h z" "name_at h y"]
    by (auto simp: key_cmp_def split: if_splits)
qed

lemma sort_nodes:
  assumes "length ns > 1" "\<And>x. x \<in> set ns \<Longrightarrow> sat None attr None h x"
  shows "\<exists>ns'. index_sort (index_compare attr h) 0 (length ns - 1) ns = Some (Ret ns') \<and> mset ns' = mset ns \<and>
    sorted_wrt (\<lambda>x y. key_cmp attr h x y \<le> 0) ns'"
proof -
  obtain ns' where n: "index_sort (index_compare attr h) 0 (length ns - 1) ns = Some (Ret ns')" "perm_in 0 (length ns - 1) ns ns'"
    "ix.ordered attr h 0 (length ns - 1) ns'"
    using ix.index_sort_sorts [of 0 "length ns - 1" ns attr h] assms by (metis One_nat_def Suc_lessD diff_less mem_Collect_eq subsetI zero_less_diff zero_less_one)
  then have "sorted_wrt (\<lambda>x y. key_cmp attr h x y \<le> 0) ns'"
    by (auto simp: sorted_wrt_iff_nth_less ix.ordered_def perm_in_def)
  then show ?thesis using n by (auto simp: perm_in_def)
qed


section \<open>A new index\<close>

text \<open>Allocations and messages leave the nodes alone.\<close>

definition same_cells :: "xheap \<Rightarrow> xheap \<Rightarrow> bool" where
  "same_cells h h' \<longleftrightarrow> cells h' = cells h \<and> grants h' = grants h"

lemma same_cells_refl [simp]: "same_cells h h"
  by (simp add: same_cells_def)

lemma same_cells_trans: "same_cells h h1 \<Longrightarrow> same_cells h1 h2 \<Longrightarrow> same_cells h h2"
  by (simp add: same_cells_def)

lemma granted_cells: "granted h = (ok, h') \<Longrightarrow> same_cells h h' \<and> (ok \<or> (\<exists>k. \<not> grants h k))"
  by (auto simp: granted_def same_cells_def)

lemma find_split: "find P bs = Some y \<Longrightarrow> \<exists>cs ds. bs = cs @ y # ds \<and> filter P bs = y # filter P ds"
proof (induction bs)
  case (Cons b bs)
  then show ?case by (cases "P b") (force intro: exI [of _ "b # _"] exI [of _ "[]"])+
qed simp

lemma find_filter_none: "find P bs = None \<Longrightarrow> filter P bs = []"
  by (simp add: find_None_iff filter_empty_conv)

lemma index_fill_collects:
  assumes nx: "\<And>h1 as y bs. same_cells h h1 \<Longrightarrow> xs = as @ y # bs \<Longrightarrow> nx y h1 = Some (Ret (find P bs))"
  shows "same_cells h h1 \<Longrightarrow> xs = as @ bs \<Longrightarrow> length ns \<le> alloc \<Longrightarrow>
    \<exists>w h'. index_fill nx (find P bs) ns alloc h1 = Some (Ret (w, h')) \<and> same_cells h h' \<and>
      (case w of None \<Rightarrow> \<exists>k. \<not> grants h k | Some (ns', alloc') \<Rightarrow> ns' = ns @ filter P bs \<and> length ns' \<le> alloc')"
proof (induction "length bs" arbitrary: bs as ns alloc h1 rule: less_induct)
  case less
  show ?case
  proof (cases "find P bs")
    case None
    then show ?thesis using less.prems find_filter_none [OF None] by (simp add: index_fill.simps [of nx None])
  next
    case (Some y)
    obtain cs ds where bs: "bs = cs @ y # ds" "filter P bs = y # filter P ds" using find_split [OF Some] by blast
    obtain ok h2 where g: "(if length ns \<ge> alloc then granted h1 else (True, h1)) = (ok, h2)" by fastforce
    then have h2: "same_cells h1 h2" "ok \<or> (\<exists>k. \<not> grants h k)"
      using granted_cells [of h1 ok h2] less.prems(1) by (auto split: if_splits simp: same_cells_def)
    note s2 = same_cells_trans [OF less.prems(1) h2(1)]
    show ?thesis
    proof (cases ok)
      case False
      then show ?thesis using Some g h2 s2 by (auto simp: index_fill.simps [of nx "Some y"] Let_def mxml_error_def same_cells_def)
    next
      case True
      let ?al = "if length ns \<ge> alloc then alloc + 64 else alloc"
      have "xs = (as @ cs) @ y # ds" using less.prems(2) bs(1) by simp
      note n = nx [OF s2 this]
      have rest: "\<exists>w h'. index_fill nx (find P ds) (ns @ [y]) ?al h2 = Some (Ret (w, h')) \<and> same_cells h h' \<and>
          (case w of None \<Rightarrow> \<exists>k. \<not> grants h k | Some (ns', alloc') \<Rightarrow> ns' = (ns @ [y]) @ filter P ds \<and> length ns' \<le> alloc')"
        by (rule less.hyps [OF _ s2, of _ "as @ cs @ [y]"]) (use bs(1) less.prems(2,3) in auto)
      have step: "index_fill nx (find P bs) ns alloc h1 = index_fill nx (find P ds) (ns @ [y]) ?al h2"
        using Some g n True by (simp only: index_fill.simps [of nx "Some y"]) (simp add: Let_def)
      have "ns @ filter P bs = (ns @ [y]) @ filter P ds" using bs(2) by simp
      then show ?thesis unfolding step using rest by presburger
    qed
  qed
qed

text \<open>The nodes of a new index: a sorted rearrangement of the matching nodes.\<close>

definition indexes :: "xheap \<Rightarrow> nat list \<Rightarrow> mxml_index \<Rightarrow> bool" where
  "indexes h xs d \<longleftrightarrow> mset (i_nodes d) = mset xs \<and> sorted_wrt (\<lambda>x y. key_cmp (i_attr d) h x y \<le> 0) (i_nodes d) \<and>
     i_cur d = 0 \<and> length (i_nodes d) \<le> i_alloc d"

lemma key_cmp_cells: "cells h' = cells h \<Longrightarrow> key_cmp a h' = key_cmp a h"
  by (intro ext) (simp add: key_cmp_def name_at_def attr_at_def)

lemma sat_cells: "cells h' = cells h \<Longrightarrow> sat e a v h' = sat e a v h"
  by (simp add: sat_def fun_eq_iff)

lemma IndexNew_sorts:
  assumes h: "xinv h ch" and t: "shape ch t" and x: "cells h (root_of t) \<noteq> None"
    and ea: "element = None \<and> attr = None \<Longrightarrow> sat None None None h (root_of t)"
  shows "\<exists>i h' S'. mxmlIndexNew (Some (root_of t)) element attr h S = Some (Ret (i, h', S')) \<and> same_cells h h' \<and>
    (case i of None \<Rightarrow> S' = S \<and> (\<exists>k. \<not> grants h k)
     | Some a \<Rightarrow> \<exists>d. S' = S(a \<mapsto> d) \<and> (i_attr d = attr \<or> i_attr d = None \<and> (\<exists>k. \<not> grants h k)) \<and>
         indexes h (filter (sat element attr None h) (if element = None \<and> attr = None then preorder t else tl (preorder t))) d)"
proof -
  let ?P = "sat element attr None h" and ?f = "\<lambda>x. mxmlFindElement (Some x) (Some (root_of t)) element attr None MXML_DESCEND"
  let ?all = "element = None \<and> attr = None"
  obtain as bs where sp: "preorder t = as @ bs" "bs = (if ?all then preorder t else tl (preorder t))" "as = (if ?all then [] else [root_of t])"
    by (cases t) auto
  have pt: "preorder t = root_of t # tl (preorder t)" by (cases t) simp
  have nx: "?f y h1 = Some (Ret (find ?P bs'))" if "same_cells h h1" "preorder t = as' @ y # bs'" for h1 as' y bs'
  proof -
    have c: "cells h1 = cells h" using that(1) by (simp add: same_cells_def)
    then have "forest (cells h1) ch" "typed h1" "cells h1 (root_of t) \<noteq> None" using h x by (auto simp: xinv_def typed_def)
    then show ?thesis
      using FindElement_document [OF _ _ t refl _ that(2), of h1 attr None element] sat_cells [OF c] by simp
  qed
  obtain ok h1 where g: "granted h = (ok, h1)" by fastforce
  note g1 = granted_cells [OF g]
  show ?thesis
  proof (cases ok)
    case False
    then show ?thesis using g g1 by (auto simp: mxmlIndexNew_def Let_def mxml_error_def same_cells_def)
  next
    case True
    obtain ia h2 where ia: "(case attr of None \<Rightarrow> (None, h1) | Some a \<Rightarrow> xstrdup a h1) = (ia, h2)" by fastforce
    then have h2: "same_cells h1 h2" "ia = attr \<or> ia = None \<and> (\<exists>k. \<not> grants h k)"
      using g1 by (auto simp: xstrdup_def granted_def Let_def same_cells_def split: option.splits if_splits)
    have s2: "same_cells h h2" using same_cells_trans [OF _ h2(1)] g1 by blast
    have cur: "(if ?all then Some (Ret (Some (root_of t))) else ?f (root_of t) h2) = Some (Ret (find ?P bs))"
      using sp ea nx [OF s2, of "[]" "root_of t" "tl (preorder t)"] pt by (metis append_Nil find.simps(2))
    obtain w h3 where w: "index_fill ?f (find ?P bs) [] 0 h2 = Some (Ret (w, h3))" "same_cells h h3"
      "case w of None \<Rightarrow> \<exists>k. \<not> grants h k | Some (ns', alloc') \<Rightarrow> ns' = [] @ filter ?P bs \<and> length ns' \<le> alloc'"
      using index_fill_collects [of h "preorder t" ?f ?P h2 as bs "[]" 0] nx s2 sp(1) by auto
    show ?thesis
    proof (cases w)
      case None
      have "mxmlIndexNew (Some (root_of t)) element attr h S = Some (Ret (None, h3, S))"
        using g True ia cur w(1) None by (simp add: mxmlIndexNew_def Let_def)
      then show ?thesis using w(2,3) None by auto
    next
      case (Some p)
      obtain ns al where p: "p = (ns, al)" by (cases p)
      have ns: "ns = filter ?P bs" "length ns \<le> al" using w(3) Some p by auto
      have c3: "cells h3 = cells h" using w(2) by (simp add: same_cells_def)
      have el: "sat None ia None h3 x" if "x \<in> set ns" for x
        using that ns(1) h2(2) sat_weaker [of element attr h x] sat_weaker(1) [of element None h x] sat_cells [OF c3] by auto
      obtain ns' where n': "(if length ns > 1 then index_sort (index_compare ia h3) 0 (length ns - 1) ns else Some (Ret ns)) = Some (Ret ns')"
        "mset ns' = mset ns" "sorted_wrt (\<lambda>x y. key_cmp ia h3 x y \<le> 0) ns'"
      proof (cases "length ns > 1")
        case True
        then show ?thesis using sort_nodes [OF True el] that by auto
      next
        case False
        then have "sorted_wrt (\<lambda>x y. key_cmp ia h3 x y \<le> 0) ns" by (cases ns) auto
        then show ?thesis using False that by simp
      qed
      let ?d = "\<lparr>i_attr = ia, i_alloc = al, i_cur = 0, i_nodes = ns'\<rparr>"
      have "mxmlIndexNew (Some (root_of t)) element attr h S = Some (Ret (Some (tick h), h3, S(tick h \<mapsto> ?d)))"
        using g True ia cur w(1) Some p n'(1) by (simp add: mxmlIndexNew_def Let_def)
      moreover have "indexes h (filter ?P bs) ?d"
        using n' ns mset_eq_length [OF n'(2)] key_cmp_cells [OF c3] by (simp add: indexes_def)
      ultimately show ?thesis using w(2) h2(2) g1 sp(2) by (intro exI [of _ "Some (tick h)"] exI [of _ h3] exI [of _ "S(tick h \<mapsto> ?d)"])
          (auto simp: same_cells_def intro!: exI [of _ ?d])
    qed
  qed
qed


section \<open>The search\<close>

text \<open>Along the index the searched values are first greater than the nodes, then equal to them, then less.\<close>

definition falling :: "(nat \<Rightarrow> int) \<Rightarrow> nat \<Rightarrow> bool" where
  "falling d n \<longleftrightarrow> (\<forall>i j. i \<le> j \<longrightarrow> j < n \<longrightarrow> (d i \<le> 0 \<longrightarrow> d j \<le> 0) \<and> (d i < 0 \<longrightarrow> d j < 0))"

lemma fallingD: "falling d n \<Longrightarrow> i \<le> j \<Longrightarrow> j < n \<Longrightarrow> (d i \<le> 0 \<longrightarrow> d j \<le> 0) \<and> (d i < 0 \<longrightarrow> d j < 0)"
  by (auto simp: falling_def)

lemma halve_narrows:
  assumes f: "\<And>k. k < n \<Longrightarrow> f k = Ret (d k)" and fall: "falling d n"
  shows "lo \<le> hi \<Longrightarrow> hi < n \<Longrightarrow> (\<And>k. k < n \<Longrightarrow> d k = 0 \<Longrightarrow> lo \<le> k \<and> k \<le> hi) \<Longrightarrow>
    \<exists>w. halve f lo hi = Ret w \<and> (case w of Inl m \<Rightarrow> m < n \<and> d m = 0
      | Inr (a, b) \<Rightarrow> a \<le> b \<and> b < n \<and> (\<forall>k. k < n \<longrightarrow> d k = 0 \<longrightarrow> a \<le> k \<and> k \<le> b))"
proof (induction "hi - lo" arbitrary: lo hi rule: less_induct)
  case less
  let ?m = "(lo + hi) div 2"
  show ?case
  proof (cases "hi - lo > 1")
    case True
    then have m: "lo < ?m" "?m < hi" "?m < n" using less.prems(2) by auto
    consider "d ?m = 0" | "d ?m < 0" | "0 < d ?m" by linarith
    then show ?thesis
    proof cases
      case 1
      then show ?thesis using True m f by (simp add: halve.simps [of f lo hi])
    next
      case 2
      have z: "lo \<le> k \<and> k \<le> ?m" if "k < n" "d k = 0" for k
        using less.prems(3) [OF that] fallingD [OF fall, of ?m k] that 2 by (metis less_irrefl nat_le_linear)
      have "halve f lo hi = halve f lo ?m" using True 2 m f by (simp add: halve.simps [of f lo hi])
      then show ?thesis using less.hyps [of ?m lo] m z by auto
    next
      case 3
      have z: "?m \<le> k \<and> k \<le> hi" if "k < n" "d k = 0" for k
        using less.prems(3) [OF that] fallingD [OF fall, of k ?m] that 3 m by (metis le_less_trans less_irrefl linorder_not_less nat_le_linear order_refl)
      have "halve f lo hi = halve f ?m hi" using True 3 m f by (simp add: halve.simps [of f lo hi])
      then show ?thesis using less.hyps [of hi ?m] m z less.prems(2) by auto
    qed
  next
    case False
    then show ?thesis using less.prems by (intro exI [of _ "Inr (lo, hi)"]) (simp add: halve.simps [of f lo hi])
  qed
qed

lemma move_back_stops:
  assumes f: "\<And>k. k < n \<Longrightarrow> f k = Ret (d k)"
  shows "m < n \<Longrightarrow> d m = 0 \<Longrightarrow> \<exists>k. move_back f m = Ret k \<and> k \<le> m \<and> d k = 0 \<and> (0 < k \<longrightarrow> d (k - 1) \<noteq> 0)"
proof (induction m)
  case 0
  then show ?case by (simp add: move_back.simps)
next
  case (Suc m)
  then show ?case using f [of m] by (cases "d m = 0") (auto simp: move_back.simps intro: le_SucI)
qed

lemma first_of_stops:
  assumes f: "\<And>k. k < n \<Longrightarrow> f k = Ret (d k)"
  shows "hi < n \<Longrightarrow> \<exists>w. first_of f c hi = Ret w \<and>
    (case w of None \<Rightarrow> \<forall>k. c \<le> k \<longrightarrow> k \<le> hi \<longrightarrow> d k \<noteq> 0 | Some k \<Rightarrow> c \<le> k \<and> k \<le> hi \<and> d k = 0 \<and> (\<forall>j. c \<le> j \<longrightarrow> j < k \<longrightarrow> d j \<noteq> 0))"
proof (induction "Suc hi - c" arbitrary: c)
  case 0
  then show ?case by (simp add: first_of.simps [of f c hi])
next
  case (Suc k)
  then have c: "c \<le> hi" "c < n" "k = Suc hi - (c + 1)" by auto
  have step: "first_of f c hi = (if d c = 0 then Ret (Some c) else first_of f (c + 1) hi)"
    using c f by (simp add: first_of.simps [of f c hi])
  show ?case
  proof (cases "d c = 0")
    case True
    then show ?thesis using step c by (intro exI [of _ "Some c"]) auto
  next
    case False
    obtain w where w: "first_of f (c + 1) hi = Ret w" "case w of None \<Rightarrow> \<forall>k. c + 1 \<le> k \<longrightarrow> k \<le> hi \<longrightarrow> d k \<noteq> 0
        | Some k \<Rightarrow> c + 1 \<le> k \<and> k \<le> hi \<and> d k = 0 \<and> (\<forall>j. c + 1 \<le> j \<longrightarrow> j < k \<longrightarrow> d j \<noteq> 0)"
      using Suc.hyps(1) [OF c(3) Suc.prems] by blast
    have "d j \<noteq> 0" if "c \<le> j" "j \<noteq> c \<Longrightarrow> c + 1 \<le> j \<Longrightarrow> d j \<noteq> 0" for j using that False by (cases "j = c") auto
    then show ?thesis using step False w by (intro exI [of _ w]) (auto split: option.splits)
  qed
qed

lemma first_match_first:
  assumes f: "\<And>k. k < n \<Longrightarrow> f k = Ret (d k)" and fall: "falling d n" and n: "0 < n"
  shows "\<exists>w. first_match f n = Ret w \<and>
    (case w of None \<Rightarrow> \<forall>k < n. d k \<noteq> 0 | Some k \<Rightarrow> k < n \<and> d k = 0 \<and> (\<forall>j < k. d j \<noteq> 0))"
proof -
  have "0 \<le> n - 1" "n - 1 < n" "\<And>k. k < n \<Longrightarrow> d k = 0 \<Longrightarrow> 0 \<le> k \<and> k \<le> n - 1" using n by auto
  from halve_narrows [of n f d 0 "n - 1", OF f fall this]
  obtain w where w: "halve f 0 (n - 1) = Ret w" "case w of Inl m \<Rightarrow> m < n \<and> d m = 0
      | Inr (a, b) \<Rightarrow> a \<le> b \<and> b < n \<and> (\<forall>k. k < n \<longrightarrow> d k = 0 \<longrightarrow> a \<le> k \<and> k \<le> b)"
    by blast
  show ?thesis
  proof (cases w)
    case (Inl m)
    obtain k where k: "move_back f m = Ret k" "k \<le> m" "d k = 0" "0 < k \<longrightarrow> d (k - 1) \<noteq> 0"
      using move_back_stops [of n f d m, OF f] w(2) Inl by auto
    have "d j \<noteq> 0" if "j < k" for j
      using fallingD [OF fall, of j "k - 1"] fallingD [OF fall, of "k - 1" k] k that w(2) Inl by force
    then show ?thesis using w Inl k by (simp add: first_match_def)
  next
    case (Inr p)
    obtain a b where p: "p = (a, b)" by (cases p)
    obtain v where v: "first_of f a b = Ret v"
      "case v of None \<Rightarrow> \<forall>k. a \<le> k \<longrightarrow> k \<le> b \<longrightarrow> d k \<noteq> 0 | Some k \<Rightarrow> a \<le> k \<and> k \<le> b \<and> d k = 0 \<and> (\<forall>j. a \<le> j \<longrightarrow> j < k \<longrightarrow> d j \<noteq> 0)"
      using first_of_stops [of n f d b a, OF f] w(2) Inr p by auto
    have in_ab: "a \<le> k \<and> k \<le> b" if "k < n" "d k = 0" for k using w(2) Inr p that by simp
    have b: "b < n" using w(2) Inr p by simp
    have "case v of None \<Rightarrow> \<forall>k < n. d k \<noteq> 0 | Some k \<Rightarrow> k < n \<and> d k = 0 \<and> (\<forall>j < k. d j \<noteq> 0)"
    proof (cases v)
      case None
      then show ?thesis using v(2) in_ab by auto
    next
      case (Some k)
      then have k: "k < n" "d k = 0" "\<And>j. a \<le> j \<Longrightarrow> j < k \<Longrightarrow> d j \<noteq> 0" using v(2) b by auto
      have "d j \<noteq> 0" if "j < k" for j using k(3) [of j] in_ab [of j] that k(1) by (meson less_trans)
      then show ?thesis using k Some by simp
    qed
    moreover have "first_match f n = Ret v" using w(1) Inr p v(1) by (simp add: first_match_def)
    ultimately show ?thesis by blast
  qed
qed


text \<open>The results of \<open>m\<close> successive calls.\<close>

fun find_calls :: "nat \<Rightarrow> nat option \<Rightarrow> string option \<Rightarrow> string option \<Rightarrow> xheap \<Rightarrow> istore \<Rightarrow> nat option list cres" where
  "find_calls 0 ind element val h S = Ret []"
| "find_calls (Suc m) ind element val h S =
     cbind (mxmlIndexFind ind element val h S) (\<lambda>(x, S). cbind (find_calls m ind element val h S) (\<lambda>xs. Ret (x # xs)))"

lemma key_find_zero:
  assumes "sat None attr None h x" "val = None \<or> attr \<noteq> None"
  shows "key_find attr h (Some e) val x = 0 \<longleftrightarrow> sat (Some e) attr val h x"
  by (rule sat_elem [OF assms(1)]) (use assms(2) in \<open>cases attr; cases val; auto simp: key_find_def sat_def\<close>)

lemma key_find_falls:
  assumes "key_cmp attr h x y \<le> 0" "val = None \<or> attr \<noteq> None"
  shows "(key_find attr h (Some e) val x \<le> 0 \<longrightarrow> key_find attr h (Some e) val y \<le> 0) \<and>
    (key_find attr h (Some e) val x < 0 \<longrightarrow> key_find attr h (Some e) val y < 0)"
proof -
  note n = strcmp_le_trans [of e "name_at h x" "name_at h y"] strcmp_le_less [of e "name_at h x" "name_at h y"]
  have n': "strcmp (name_at h x) (name_at h y) \<le> 0" using assms(1) by (auto simp: key_cmp_def split: if_splits)
  have less: "name_at h x \<noteq> name_at h y \<Longrightarrow> strcmp (name_at h x) (name_at h y) < 0 \<and> 0 < strcmp (name_at h y) (name_at h x)"
    using n' strcmp_swap [of "name_at h y" "name_at h x"] by (simp add: order.order_iff_strict)
  show ?thesis
  proof (cases val)
    case None
    then show ?thesis using n n' by (auto simp: key_find_def Let_def)
  next
    case (Some v)
    note a = strcmp_le_trans [of v "attr_at h attr x" "attr_at h attr y"] strcmp_le_less [of v "attr_at h attr x" "attr_at h attr y"]
    show ?thesis using Some n n' less a assms by (auto simp: key_find_def key_cmp_def Let_def split: if_splits)
  qed
qed

lemma take_pad: "take m (xs @ replicate (Suc m) a) = take m (xs @ replicate m a)"
  by (simp add: min_def del: replicate_Suc)

definition zeros :: "string option \<Rightarrow> xheap \<Rightarrow> string \<Rightarrow> string option \<Rightarrow> nat list \<Rightarrow> nat list" where
  "zeros attr h e val ns = filter (\<lambda>x. key_find attr h (Some e) val x = 0) ns"

lemma index_find_place:
  assumes "\<And>x. x \<in> set ns \<Longrightarrow> sat None attr None h x" "val = None \<or> attr \<noteq> None" "k < length ns"
  shows "cbind (nd ns k) (index_find attr h (Some e) val) = Ret (key_find attr h (Some e) val (ns ! k))"
  using assms index_find_ok [of attr h "ns ! k" val "Some e"] by (simp add: nd_def)

text \<open>From the second call on; from the place \<open>i_cur\<close> the matches come before the other nodes.\<close>

lemma find_calls_on:
  assumes el: "\<And>x. x \<in> set ns \<Longrightarrow> sat None attr None h x" and v: "val = None \<or> attr \<noteq> None"
  shows "S a = Some d \<Longrightarrow> i_nodes d = ns \<Longrightarrow> i_attr d = attr \<Longrightarrow> 0 < i_cur d \<Longrightarrow> i_cur d \<le> length ns \<Longrightarrow>
    (\<And>i j. i_cur d \<le> i \<Longrightarrow> i \<le> j \<Longrightarrow> j < length ns \<Longrightarrow> key_find attr h (Some e) val (ns ! j) = 0 \<Longrightarrow> key_find attr h (Some e) val (ns ! i) = 0) \<Longrightarrow>
    find_calls m (Some a) (Some e) val h S = Ret (take m (map Some (zeros attr h e val (drop (i_cur d) ns)) @ replicate m None))"
proof (induction m arbitrary: S d)
  case (Suc m)
  let ?D = "\<lambda>k. key_find attr h (Some e) val (ns ! k)" and ?c = "i_cur d"
  have ne: "ns \<noteq> []" "\<not> (attr = None \<and> val \<noteq> None)" using Suc.prems(4,5) v by auto
  show ?case
  proof (cases "?c < length ns \<and> ?D ?c = 0")
    case True
    let ?d = "d\<lparr>i_cur := ?c + 1\<rparr>"
    have "mxmlIndexFind (Some a) (Some e) val h S = Ret (Some (ns ! ?c), S(a \<mapsto> ?d))"
      using Suc.prems(1,2,3,4) True ne index_find_place [of ns attr h val ?c e, OF el v] by (simp add: mxmlIndexFind_def ird_def Let_def)
    moreover have "find_calls m (Some a) (Some e) val h (S(a \<mapsto> ?d)) =
        Ret (take m (map Some (zeros attr h e val (drop (?c + 1) ns)) @ replicate m None))"
      using Suc.IH [of "S(a \<mapsto> ?d)" ?d] Suc.prems True by (simp add: fun_upd_same del: fun_upd_apply)
    moreover have "drop ?c ns = ns ! ?c # drop (?c + 1) ns" using True by (simp add: Cons_nth_drop_Suc)
    ultimately show ?thesis using True by (simp add: zeros_def take_pad del: replicate_Suc)
  next
    case False
    let ?d = "d\<lparr>i_cur := length ns\<rparr>"
    have "mxmlIndexFind (Some a) (Some e) val h S = Ret (None, S(a \<mapsto> ?d))"
      using Suc.prems(1,2,3,4) False ne index_find_place [of ns attr h val ?c e, OF el v] by (auto simp: mxmlIndexFind_def ird_def Let_def)
    moreover have "find_calls m (Some a) (Some e) val h (S(a \<mapsto> ?d)) = Ret (replicate m None)"
      using Suc.IH [of "S(a \<mapsto> ?d)" ?d] Suc.prems ne by (simp add: zeros_def fun_upd_same del: fun_upd_apply)
    moreover have "zeros attr h e val (drop ?c ns) = []"
    proof -
      have "?D j \<noteq> 0" if "?c \<le> j" "j < length ns" for j using Suc.prems(6) [of ?c j] that False by auto
      then show ?thesis by (auto simp: zeros_def filter_empty_conv in_set_conv_nth)
    qed
    ultimately show ?thesis by simp
  qed
qed simp

lemma find_calls_all:
  assumes d: "S a = Some d" "i_cur d = 0" "i_attr d = attr" and el: "\<And>x. x \<in> set (i_nodes d) \<Longrightarrow> sat None attr None h x"
    and s: "sorted_wrt (\<lambda>x y. key_cmp attr h x y \<le> 0) (i_nodes d)" and v: "val = None \<or> attr \<noteq> None"
  shows "find_calls m (Some a) (Some e) val h S = Ret (take m (map Some (zeros attr h e val (i_nodes d)) @ replicate m None))"
proof -
  let ?ns = "i_nodes d" and ?n = "length (i_nodes d)" and ?D = "\<lambda>k. key_find attr h (Some e) val (i_nodes d ! k)"
  let ?f = "\<lambda>k. cbind (nd ?ns k) (index_find attr h (Some e) val)"
  have le: "key_cmp attr h (?ns ! i) (?ns ! j) \<le> 0" if "i \<le> j" "j < ?n" for i j
    using that s ix.c_refl by (cases "i = j") (auto simp: sorted_wrt_iff_nth_less)
  have fall: "falling ?D ?n" unfolding falling_def using key_find_falls [OF le v] by blast
  have f: "?f k = Ret (?D k)" if "k < ?n" for k by (rule index_find_place [of ?ns attr h val k e, OF el v that])
  show ?thesis
  proof (cases "?ns = []")
    case True
    have "mxmlIndexFind (Some a) (Some e) val h S = Ret (None, S)" using d True by (simp add: mxmlIndexFind_def ird_def)
    then have "find_calls m (Some a) (Some e) val h S = Ret (replicate m None)" by (induction m) simp_all
    then show ?thesis using True by (simp add: zeros_def)
  next
    case False
    obtain w where w: "first_match ?f ?n = Ret w"
      "case w of None \<Rightarrow> \<forall>k < ?n. ?D k \<noteq> 0 | Some k \<Rightarrow> k < ?n \<and> ?D k = 0 \<and> (\<forall>j < k. ?D j \<noteq> 0)"
      using first_match_first [of ?n ?f ?D, OF f fall] False by auto
    show ?thesis
    proof (cases m)
      case 0
      then show ?thesis by simp
    next
      case (Suc k)
      let ?at = "\<lambda>c. S(a \<mapsto> d\<lparr>i_cur := c\<rparr>)"
      show ?thesis
      proof (cases w)
        case None
        have "mxmlIndexFind (Some a) (Some e) val h S = Ret (None, ?at ?n)"
          using d False v w(1) None by (auto simp: mxmlIndexFind_def ird_def Let_def)
        moreover have z: "zeros attr h e val ?ns = []" using w(2) None by (auto simp: zeros_def filter_empty_conv in_set_conv_nth)
        moreover have "find_calls k (Some a) (Some e) val h (?at ?n) = Ret (replicate k None)"
          using find_calls_on [of ?ns attr h val "?at ?n" a "d\<lparr>i_cur := ?n\<rparr>" e k, OF el v] d False by (simp add: zeros_def)
        ultimately show ?thesis using Suc by simp
      next
        case (Some c)
        then have c: "c < ?n" "?D c = 0" "\<And>j. j < c \<Longrightarrow> ?D j \<noteq> 0" using w(2) by auto
        have "mxmlIndexFind (Some a) (Some e) val h S = Ret (Some (?ns ! c), ?at (c + 1))"
          using d False v w(1) Some by (auto simp: mxmlIndexFind_def ird_def Let_def)
        moreover have "?D i = 0" if "c + 1 \<le> i" "i \<le> j" "j < ?n" "?D j = 0" for i j
          using fallingD [OF fall, of c i] fallingD [OF fall, of i j] c that by force
        then have "find_calls k (Some a) (Some e) val h (?at (c + 1)) =
            Ret (take k (map Some (zeros attr h e val (drop (c + 1) ?ns)) @ replicate k None))"
          using find_calls_on [of ?ns attr h val "?at (c + 1)" a "d\<lparr>i_cur := c + 1\<rparr>" e k, OF el v] d c(1) by auto
        moreover have "zeros attr h e val ?ns = ?ns ! c # zeros attr h e val (drop (c + 1) ?ns)"
        proof -
          have "zeros attr h e val (take c ?ns) = []" using c(1,3) by (auto simp: zeros_def filter_empty_conv in_set_conv_nth)
          then have "zeros attr h e val (take c ?ns @ ?ns ! c # drop (Suc c) ?ns) = ?ns ! c # zeros attr h e val (drop (c + 1) ?ns)"
            using c(2) by (simp add: zeros_def)
          then show ?thesis by (rule trans [OF arg_cong [OF id_take_nth_drop [OF c(1)], of "zeros attr h e val"]])
        qed
        ultimately show ?thesis using Suc by (simp add: take_pad del: replicate_Suc)
      qed
    qed
  qed
qed

text \<open>A new index and the calls of \<open>mxmlIndexFind\<close> on it.\<close>

lemma IndexNew_Find:
  assumes h: "xinv h ch" and t: "shape ch t" and x: "cells h (root_of t) \<noteq> None" and g: "\<forall>k. grants h k"
    and ea: "element = None \<and> attr = None \<Longrightarrow> sat None None None h (root_of t)" and v: "val = None \<or> attr \<noteq> None"
  shows "\<exists>a h' S' ms. mxmlIndexNew (Some (root_of t)) element attr h S = Some (Ret (Some a, h', S')) \<and>
    mset ms = mset (filter (\<lambda>x. sat element attr None h x \<and> sat (Some e) attr val h x) (if element = None \<and> attr = None then preorder t else tl (preorder t))) \<and>
    (\<forall>m. find_calls m (Some a) (Some e) val h' S' = Ret (take m (map Some ms @ replicate m None)))"
proof -
  let ?P = "sat element attr None h" and ?xs = "if element = None \<and> attr = None then preorder t else tl (preorder t)"
  from IndexNew_sorts [of h ch t element attr S, OF h t x ea] obtain a h' d where
    r: "mxmlIndexNew (Some (root_of t)) element attr h S = Some (Ret (Some a, h', S(a \<mapsto> d)))" "same_cells h h'" "i_attr d = attr"
      "indexes h (filter ?P ?xs) d"
    using g by (auto split: option.splits)
  have c: "cells h' = cells h" using r(2) by (simp add: same_cells_def)
  have m: "mset (i_nodes d) = mset (filter ?P ?xs)" using r(4) by (simp add: indexes_def)
  have el: "sat None attr None h' x" if "x \<in> set (i_nodes d)" for x
    using that mset_eq_setD [OF m] sat_weaker [of element attr h x] sat_cells [OF c] by auto
  have "find_calls m (Some a) (Some e) val h' (S(a \<mapsto> d)) = Ret (take m (map Some (zeros attr h' e val (i_nodes d)) @ replicate m None))" for m
    by (rule find_calls_all) (use r(3,4) el v key_cmp_cells [OF c] in \<open>auto simp: indexes_def\<close>)
  moreover have "zeros attr h' e val (i_nodes d) = filter (sat (Some e) attr val h) (i_nodes d)"
    unfolding zeros_def by (rule filter_cong [OF refl]) (use key_find_zero [OF el v] sat_cells [OF c] in auto)
  moreover have "mset (filter (sat (Some e) attr val h) (i_nodes d)) = mset (filter (\<lambda>x. ?P x \<and> sat (Some e) attr val h x) ?xs)"
  proof -
    have "filter (\<lambda>x. ?P x \<and> sat (Some e) attr val h x) ?xs = filter (sat (Some e) attr val h) (filter ?P ?xs)" by (simp add: conj_commute)
    then show ?thesis using m by (simp only: mset_filter)
  qed
  ultimately show ?thesis using r(1) by (metis (no_types, lifting))
qed


section \<open>Properties\<close>





text \<open>Three elements with an attribute \<open>k\<close>, sorted by their names.\<close>

definition shelf :: xheap where
  "shelf = \<lparr>cells = (\<lambda>x. if x \<in> {1, 2, 3} then Some (\<lparr>n_type = MXML_ELEMENT, n_next = None, n_prev = None, n_parent = None, n_child = None, n_last_child = None,
       n_value = VElement (Some (if x = 1 then ''a'' else if x = 2 then ''b'' else ''c'')) [\<lparr>a_name = ''k'', a_value = Some (if x = 1 then ''1'' else ''0'')\<rparr>], n_ref_count = 1\<rparr>)
     else None), tick = 4, grants = (\<lambda>_. True), destroyed = [], reports = []\<rparr>"

text \<open>A search for the value alone, with \<open>element\<close> \<open>NULL\<close>, halves an index that is sorted by the names first: it can miss an element
  that has the value.\<close>

theorem mxmlIndexFind_value_misses:
  "indexes shelf [1, 2, 3] \<lparr>i_attr = Some ''k'', i_alloc = 64, i_cur = 0, i_nodes = [1, 2, 3]\<rparr> \<and> sat None (Some ''k'') (Some ''1'') shelf 1 \<and>
   mxmlIndexFind (Some 9) None (Some ''1'') shelf [9 \<mapsto> \<lparr>i_attr = Some ''k'', i_alloc = 64, i_cur = 0, i_nodes = [1, 2, 3]\<rparr>] =
     Ret (None, [9 \<mapsto> \<lparr>i_attr = Some ''k'', i_alloc = 64, i_cur = 3, i_nodes = [1, 2, 3]\<rparr>])"
proof (intro conjI)
  show "indexes shelf [1, 2, 3] \<lparr>i_attr = Some ''k'', i_alloc = 64, i_cur = 0, i_nodes = [1, 2, 3]\<rparr>"
    by (simp add: indexes_def key_cmp_def name_at_def attr_at_def shelf_def)
  show "sat None (Some ''k'') (Some ''1'') shelf 1" by (simp add: sat_def shelf_def)
  show "mxmlIndexFind (Some 9) None (Some ''1'') shelf [9 \<mapsto> \<lparr>i_attr = Some ''k'', i_alloc = 64, i_cur = 0, i_nodes = [1, 2, 3]\<rparr>] =
     Ret (None, [9 \<mapsto> \<lparr>i_attr = Some ''k'', i_alloc = 64, i_cur = 3, i_nodes = [1, 2, 3]\<rparr>])"
    by (simp add: mxmlIndexFind_def ird_def Let_def first_match_def halve.simps first_of.simps nd_def index_find_def elem_attr_def
        mxmlElementGetAttr_def rd_def elem_def not_null_def shelf_def numeral_3_eq_3)
qed

end
