(* ===== verification/MxmlEntity.thy ===== *)
theory MxmlEntity
  imports CString
begin

text \<open>
  Character entities: \<open>src/dev/src/pubfun/xml/mxml-entity.c\<close> and the per-thread data of \<open>mxml-private.c\<close>. A callback is a
  number; \<open>cb\<close> gives the function behind it, number 0 is \<open>_mxml_entity_cb\<close>. The binary search of that function over the
  table of 257 names equals the lookup in the table.
\<close>

section \<open>Definitions\<close>

record mxml_global =
  entity_cbs :: "nat list"
  g_wrap :: int

text \<open>The first call in a thread.\<close>

definition mxml_global0 :: mxml_global where
  "mxml_global0 = \<lparr>entity_cbs = [0], g_wrap = 72\<rparr>"

definition mxmlEntityAddCallback :: "nat \<Rightarrow> mxml_global \<Rightarrow> int \<times> mxml_global" where
  "mxmlEntityAddCallback f g =
     (if length (entity_cbs g) < 100 then (0, g\<lparr>entity_cbs := entity_cbs g @ [f]\<rparr>) else (-1, g))"

definition mxmlEntityGetName :: "int \<Rightarrow> string option" where
  "mxmlEntityGetName val =
     (if val = 38 then Some ''amp'' else if val = 60 then Some ''lt'' else if val = 62 then Some ''gt''
      else if val = 34 then Some ''quot'' else None)"

fun ask_callbacks :: "(nat \<Rightarrow> string \<Rightarrow> int) \<Rightarrow> nat list \<Rightarrow> string \<Rightarrow> int" where
  "ask_callbacks cb [] name = -1"
| "ask_callbacks cb (f # fs) name = (if cb f name \<ge> 0 then cb f name else ask_callbacks cb fs name)"

definition mxmlEntityGetValue :: "(nat \<Rightarrow> string \<Rightarrow> int) \<Rightarrow> string \<Rightarrow> mxml_global \<Rightarrow> int" where
  "mxmlEntityGetValue cb name g = ask_callbacks cb (entity_cbs g) name"

definition mxmlEntityRemoveCallback :: "nat \<Rightarrow> mxml_global \<Rightarrow> mxml_global" where
  "mxmlEntityRemoveCallback f g = g\<lparr>entity_cbs := remove1 f (entity_cbs g)\<rparr>"

definition entities :: "(string \<times> int) list" where
  "entities = [
    (''AElig'', 198), (''Aacute'', 193), (''Acirc'', 194), (''Agrave'', 192), (''Alpha'', 913), (''Aring'', 197),
    (''Atilde'', 195), (''Auml'', 196), (''Beta'', 914), (''Ccedil'', 199), (''Chi'', 935), (''Dagger'', 8225),
    (''Delta'', 916), (''Dstrok'', 208), (''ETH'', 208), (''Eacute'', 201), (''Ecirc'', 202), (''Egrave'', 200),
    (''Epsilon'', 917), (''Eta'', 919), (''Euml'', 203), (''Gamma'', 915), (''Iacute'', 205), (''Icirc'', 206),
    (''Igrave'', 204), (''Iota'', 921), (''Iuml'', 207), (''Kappa'', 922), (''Lambda'', 923), (''Mu'', 924),
    (''Ntilde'', 209), (''Nu'', 925), (''OElig'', 338), (''Oacute'', 211), (''Ocirc'', 212), (''Ograve'', 210),
    (''Omega'', 937), (''Omicron'', 927), (''Oslash'', 216), (''Otilde'', 213), (''Ouml'', 214), (''Phi'', 934),
    (''Pi'', 928), (''Prime'', 8243), (''Psi'', 936), (''Rho'', 929), (''Scaron'', 352), (''Sigma'', 931),
    (''THORN'', 222), (''Tau'', 932), (''Theta'', 920), (''Uacute'', 218), (''Ucirc'', 219), (''Ugrave'', 217),
    (''Upsilon'', 933), (''Uuml'', 220), (''Xi'', 926), (''Yacute'', 221), (''Yuml'', 376), (''Zeta'', 918),
    (''aacute'', 225), (''acirc'', 226), (''acute'', 180), (''aelig'', 230), (''agrave'', 224), (''alefsym'', 8501),
    (''alpha'', 945), (''amp'', 38), (''and'', 8743), (''ang'', 8736), (''apos'', 39), (''aring'', 229),
    (''asymp'', 8776), (''atilde'', 227), (''auml'', 228), (''bdquo'', 8222), (''beta'', 946), (''brkbar'', 166),
    (''brvbar'', 166), (''bull'', 8226), (''cap'', 8745), (''ccedil'', 231), (''cedil'', 184), (''cent'', 162),
    (''chi'', 967), (''circ'', 710), (''clubs'', 9827), (''cong'', 8773), (''copy'', 169), (''crarr'', 8629),
    (''cup'', 8746), (''curren'', 164), (''dArr'', 8659), (''dagger'', 8224), (''darr'', 8595), (''deg'', 176),
    (''delta'', 948), (''diams'', 9830), (''die'', 168), (''divide'', 247), (''eacute'', 233), (''ecirc'', 234),
    (''egrave'', 232), (''empty'', 8709), (''emsp'', 8195), (''ensp'', 8194), (''epsilon'', 949), (''equiv'', 8801),
    (''eta'', 951), (''eth'', 240), (''euml'', 235), (''euro'', 8364), (''exist'', 8707), (''fnof'', 402),
    (''forall'', 8704), (''frac12'', 189), (''frac14'', 188), (''frac34'', 190), (''frasl'', 8260), (''gamma'', 947),
    (''ge'', 8805), (''gt'', 62), (''hArr'', 8660), (''harr'', 8596), (''hearts'', 9829), (''hellip'', 8230),
    (''hibar'', 175), (''iacute'', 237), (''icirc'', 238), (''iexcl'', 161), (''igrave'', 236), (''image'', 8465),
    (''infin'', 8734), (''int'', 8747), (''iota'', 953), (''iquest'', 191), (''isin'', 8712), (''iuml'', 239),
    (''kappa'', 954), (''lArr'', 8656), (''lambda'', 955), (''lang'', 9001), (''laquo'', 171), (''larr'', 8592),
    (''lceil'', 8968), (''ldquo'', 8220), (''le'', 8804), (''lfloor'', 8970), (''lowast'', 8727), (''loz'', 9674),
    (''lrm'', 8206), (''lsaquo'', 8249), (''lsquo'', 8216), (''lt'', 60), (''macr'', 175), (''mdash'', 8212),
    (''micro'', 181), (''middot'', 183), (''minus'', 8722), (''mu'', 956), (''nabla'', 8711), (''nbsp'', 160),
    (''ndash'', 8211), (''ne'', 8800), (''ni'', 8715), (''not'', 172), (''notin'', 8713), (''nsub'', 8836),
    (''ntilde'', 241), (''nu'', 957), (''oacute'', 243), (''ocirc'', 244), (''oelig'', 339), (''ograve'', 242),
    (''oline'', 8254), (''omega'', 969), (''omicron'', 959), (''oplus'', 8853), (''or'', 8744), (''ordf'', 170),
    (''ordm'', 186), (''oslash'', 248), (''otilde'', 245), (''otimes'', 8855), (''ouml'', 246), (''para'', 182),
    (''part'', 8706), (''permil'', 8240), (''perp'', 8869), (''phi'', 966), (''pi'', 960), (''piv'', 982),
    (''plusmn'', 177), (''pound'', 163), (''prime'', 8242), (''prod'', 8719), (''prop'', 8733), (''psi'', 968),
    (''quot'', 34), (''rArr'', 8658), (''radic'', 8730), (''rang'', 9002), (''raquo'', 187), (''rarr'', 8594),
    (''rceil'', 8969), (''rdquo'', 8221), (''real'', 8476), (''reg'', 174), (''rfloor'', 8971), (''rho'', 961),
    (''rlm'', 8207), (''rsaquo'', 8250), (''rsquo'', 8217), (''sbquo'', 8218), (''scaron'', 353), (''sdot'', 8901),
    (''sect'', 167), (''shy'', 173), (''sigma'', 963), (''sigmaf'', 962), (''sim'', 8764), (''spades'', 9824),
    (''sub'', 8834), (''sube'', 8838), (''sum'', 8721), (''sup'', 8835), (''sup1'', 185), (''sup2'', 178),
    (''sup3'', 179), (''supe'', 8839), (''szlig'', 223), (''tau'', 964), (''there4'', 8756), (''theta'', 952),
    (''thetasym'', 977), (''thinsp'', 8201), (''thorn'', 254), (''tilde'', 732), (''times'', 215), (''trade'', 8482),
    (''uArr'', 8657), (''uacute'', 250), (''uarr'', 8593), (''ucirc'', 251), (''ugrave'', 249), (''uml'', 168),
    (''upsih'', 978), (''upsilon'', 965), (''uuml'', 252), (''weierp'', 8472), (''xi'', 958), (''yacute'', 253),
    (''yen'', 165), (''yuml'', 255), (''zeta'', 950), (''zwj'', 8205), (''zwnj'', 8204)
  ]"

text \<open>The binary search; \<open>first\<close> and \<open>last\<close> are positions of the table.\<close>

function entity_search :: "(string \<times> int) list \<Rightarrow> string \<Rightarrow> nat \<Rightarrow> nat \<Rightarrow> int" where
  "entity_search tab name lo hi =
     (if hi - lo > 1 then
        let current = (lo + hi) div 2; diff = strcmp name (fst (tab ! current))
        in if diff = 0 then snd (tab ! current)
           else if diff < 0 then entity_search tab name lo current
           else entity_search tab name current hi
      else if name = fst (tab ! lo) then snd (tab ! lo)
      else if name = fst (tab ! hi) then snd (tab ! hi)
      else -1)"
  by pat_completeness auto
termination
  by (relation "measure (\<lambda>(tab, name, lo, hi). hi - lo)") auto

declare entity_search.simps [simp del]

definition mxml_entity_cb :: "string \<Rightarrow> int" where
  "mxml_entity_cb name = entity_search entities name 0 (length entities - 1)"

section \<open>The search equals the lookup\<close>

definition ascending :: "(string \<times> int) list \<Rightarrow> bool" where
  "ascending tab \<longleftrightarrow> (\<forall>i j. i < j \<longrightarrow> j < length tab \<longrightarrow> strcmp (fst (tab ! i)) (fst (tab ! j)) < 0)"

fun steps_up :: "string list \<Rightarrow> bool" where
  "steps_up (a # b # r) \<longleftrightarrow> strcmp a b < 0 \<and> steps_up (b # r)"
| "steps_up _ \<longleftrightarrow> True"

lemma steps_up_nth: "steps_up xs \<Longrightarrow> Suc i < length xs \<Longrightarrow> strcmp (xs ! i) (xs ! Suc i) < 0"
  by (induction xs arbitrary: i rule: steps_up.induct) (auto simp: nth_Cons split: nat.split)

lemma steps_up_less: "steps_up xs \<Longrightarrow> i < j \<Longrightarrow> j < length xs \<Longrightarrow> strcmp (xs ! i) (xs ! j) < 0"
proof (induction j)
  case (Suc j)
  then show ?case
    using steps_up_nth [of xs j] strcmp_trans [of "xs ! i" "xs ! j" "xs ! Suc j"] by (cases "i = j") auto
qed simp

lemma steps_up_ascending: "steps_up (map fst tab) \<Longrightarrow> ascending tab"
  using steps_up_less [of "map fst tab"] by (auto simp: ascending_def)

lemma ascending_inj:
  assumes "ascending tab" "i < length tab" "j < length tab" "fst (tab ! i) = fst (tab ! j)"
  shows "i = j"
proof (rule ccontr)
  assume "i \<noteq> j"
  then consider "i < j" | "j < i" by linarith
  then show False using assms strcmp_zero by cases (metis ascending_def less_irrefl)+
qed

lemma ascending_map_of:
  assumes "ascending tab" "i < length tab"
  shows "map_of tab (fst (tab ! i)) = Some (snd (tab ! i))"
proof -
  have "distinct (map fst tab)"
    unfolding distinct_conv_nth using ascending_inj [OF assms(1)] by auto
  then show ?thesis using assms(2) by (simp add: map_of_is_SomeI)
qed

lemma map_of_pos: "map_of tab name = Some v \<Longrightarrow> \<exists>k < length tab. tab ! k = (name, v)"
  using map_of_SomeD [of tab name v] by (auto simp: in_set_conv_nth)

lemma map_of_between:
  assumes "\<And>k. k < length tab \<Longrightarrow> fst (tab ! k) = name \<Longrightarrow> lo \<le> k \<and> k \<le> hi" "\<not> hi - lo > 1"
    "name \<noteq> fst (tab ! lo)" "name \<noteq> fst (tab ! hi)"
  shows "map_of tab name = None"
proof (cases "map_of tab name")
  case (Some v)
  obtain k where k: "k < length tab" "tab ! k = (name, v)"
    using map_of_pos [OF Some] by blast
  then have n: "fst (tab ! k) = name" by simp
  have "k = lo \<or> k = hi" using assms(1) [OF k(1) n] assms(2) by linarith
  then have False using n assms(3,4) by (elim disjE) simp_all
  then show ?thesis ..
qed

lemma entity_search_map_of:
  "ascending tab \<Longrightarrow> hi < length tab \<Longrightarrow> lo \<le> hi \<Longrightarrow>
    (\<And>k. k < length tab \<Longrightarrow> fst (tab ! k) = name \<Longrightarrow> lo \<le> k \<and> k \<le> hi) \<Longrightarrow>
    entity_search tab name lo hi = (case map_of tab name of None \<Rightarrow> -1 | Some v \<Rightarrow> v)"
proof (induction tab name lo hi rule: entity_search.induct)
  case (1 tab name lo hi)
  let ?c = "(lo + hi) div 2"
  note asc = 1(3) and hi = 1(4) and pos = 1(6)
  show ?case
  proof (cases "hi - lo > 1")
    case True
    then have c: "lo < ?c" "?c < hi" "?c < length tab" using hi by auto
    consider (eq) "strcmp name (fst (tab ! ?c)) = 0" | (lt) "strcmp name (fst (tab ! ?c)) < 0"
      | (gt) "strcmp name (fst (tab ! ?c)) > 0" by linarith
    then show ?thesis
    proof cases
      case eq
      then show ?thesis using True ascending_map_of [OF asc c(3)] by (simp add: entity_search.simps [of tab _ lo hi] Let_def)
    next
      case lt
      then have ne: "name \<noteq> fst (tab ! ?c)" by (metis less_irrefl strcmp_zero)
      have "lo \<le> k \<and> k \<le> ?c" if k: "k < length tab" "fst (tab ! k) = name" for k
      proof -
        have "\<not> ?c < k"
        proof
          assume "?c < k"
          then have "strcmp (fst (tab ! ?c)) name < 0" using asc k by (auto simp: ascending_def)
          then show False using lt strcmp_swap [of name "fst (tab ! ?c)"] by simp
        qed
        then show ?thesis using pos [OF k] by simp
      qed
      note down = this
      have "entity_search tab name lo ?c = (case map_of tab name of None \<Rightarrow> -1 | Some v \<Rightarrow> v)"
      proof (rule 1(1) [OF True refl refl _ lt asc c(3)])
        show "strcmp name (fst (tab ! ?c)) \<noteq> 0" using ne by simp
        show "lo \<le> ?c" using c by simp
      qed (rule down)
      then show ?thesis
        unfolding entity_search.simps [of tab name lo hi] using True lt ne by (simp only: Let_def if_True if_False strcmp_zero simp_thms )
    next
      case gt
      then have ng: "\<not> strcmp name (fst (tab ! ?c)) < 0" by simp
      from gt have ne: "name \<noteq> fst (tab ! ?c)" by (metis less_irrefl strcmp_zero)
      have "?c \<le> k \<and> k \<le> hi" if k: "k < length tab" "fst (tab ! k) = name" for k
      proof -
        have "\<not> k < ?c"
        proof
          assume "k < ?c"
          then have "strcmp name (fst (tab ! ?c)) < 0" using asc k c(3) by (auto simp: ascending_def)
          then show False using gt by simp
        qed
        then show ?thesis using pos [OF k] by simp
      qed
      note up = this
      have "entity_search tab name ?c hi = (case map_of tab name of None \<Rightarrow> -1 | Some v \<Rightarrow> v)"
      proof (rule 1(2) [OF True refl refl _ _ asc hi])
        show "strcmp name (fst (tab ! ?c)) \<noteq> 0" using ne by simp
        show "\<not> strcmp name (fst (tab ! ?c)) < 0" using gt by simp
        show "?c \<le> hi" using c by simp
      qed (rule up)
      then show ?thesis
        unfolding entity_search.simps [of tab name lo hi] using True ng ne by (simp only: Let_def if_True if_False strcmp_zero simp_thms)
    qed
  next
    case False
    have lo: "lo < length tab" using hi 1(5) by simp
    have e: "entity_search tab name lo hi = (if name = fst (tab ! lo) then snd (tab ! lo)
        else if name = fst (tab ! hi) then snd (tab ! hi) else -1)"
      by (subst entity_search.simps) (simp only: False if_False)
    show ?thesis
    proof (cases "name = fst (tab ! lo)")
      case True
      then show ?thesis unfolding e using ascending_map_of [OF asc lo] by simp
    next
      case nlo: False
      show ?thesis
      proof (cases "name = fst (tab ! hi)")
        case True
        then show ?thesis unfolding e using ascending_map_of [OF asc hi] nlo by simp
      next
        case False
        have none: "map_of tab name = None"
          by (rule map_of_between [OF _ \<open>\<not> hi - lo > 1\<close> nlo False]) (rule pos)
        show ?thesis unfolding e none using nlo False by (simp only: if_False option.case)
      qed
    qed
  qed
qed

lemma entities_ascending: "ascending entities"
  by (rule steps_up_ascending) (simp add: entities_def)

lemma entity_lookup: "mxml_entity_cb name = (case map_of entities name of None \<Rightarrow> -1 | Some v \<Rightarrow> v)"
proof -
  have "length entities - 1 < length entities" by (simp add: entities_def)
  then show ?thesis
    unfolding mxml_entity_cb_def by (intro entity_search_map_of entities_ascending) auto
qed

text \<open>Writing and reading: the name that a special character is written with is read back as this character.\<close>

lemma entity_specials:
  "map (map_of entities) [''amp'', ''lt'', ''gt'', ''quot''] = [Some 38, Some 60, Some 62, Some 34]"
  by code_simp

lemma entity_special: "mxml_entity_cb ''amp'' = 38" "mxml_entity_cb ''lt'' = 60" "mxml_entity_cb ''gt'' = 62" "mxml_entity_cb ''quot'' = 34"
  using entity_specials by (simp_all add: entity_lookup)

lemma entity_name_value:
  assumes "mxmlEntityGetName c = Some n" "cb 0 = mxml_entity_cb"
  shows "mxmlEntityGetValue cb n mxml_global0 = c"
  using assms entity_special
  by (auto simp: mxmlEntityGetName_def mxmlEntityGetValue_def mxml_global0_def split: if_splits)

section \<open>Properties\<close>

text \<open>Claim C38. The binary search for the name of a character entity equals the lookup in the table: every name of the table gives
  its character, every other text gives -1.\<close>

theorem entity_binary_search: "mxml_entity_cb name = (case map_of entities name of None \<Rightarrow> -1 | Some v \<Rightarrow> v)"
  by (rule entity_lookup)

end
