(* ===== verification/MxmlSave.thy ===== *)
theory MxmlSave
  imports MxmlAttr MxmlEntity
begin

text \<open>
  Writing the tree: the output half of \<open>src/dev/src/pubfun/xml/mxml-file.c\<close>.

  A sink is its function \<open>putc\<close>, which takes a character and gives 0 or a negative number; the three of the source are
  strings (\<open>sbuf\<close>, as a C array with the two pointers), files (\<open>fsink\<close>) and descriptors (\<open>fdsink\<close>). A \<open>char\<close> of the
  tree reaches \<open>putc\<close> as a signed number (\<open>schar\<close>). The code returns -1 from many places; the pieces of \<open>mxml_write_node\<close>
  give \<open>None\<close> for these returns and the new column otherwise. The column is not bounded.
\<close>

section \<open>Definitions\<close>

definition schar :: "char \<Rightarrow> int" where
  "schar c = (if (of_char c :: int) < 128 then of_char c else of_char c - 256)"

definition byte :: "int \<Rightarrow> char" where
  "byte i = char_of (nat (i mod 256))"

text \<open>The bytes of a character as UTF-8; \<open>0xc0 | (ch >> 6)\<close> and \<open>0x80 | (ch & 0x3f)\<close> are sums.\<close>

definition utf8_bytes :: "int \<Rightarrow> char list" where
  "utf8_bytes ch =
     (if ch < 128 then [byte ch]
      else if ch < 2048 then [byte (192 + ch div 64), byte (128 + ch mod 64)]
      else if ch < 65536 then [byte (224 + ch div 4096), byte (128 + ch div 64 mod 64), byte (128 + ch mod 64)]
      else [byte (240 + ch div 262144), byte (128 + ch div 4096 mod 64), byte (128 + ch div 64 mod 64), byte (128 + ch mod 64)])"

subsection \<open>Sinks\<close>

text \<open>The caller's memory, the pointers \<open>ptr[0]\<close> and \<open>ptr[1]\<close> as offsets.\<close>

record sbuf =
  sb_mem :: "char list"
  sb_pos :: int
  sb_end :: int

fun store :: "int \<Rightarrow> char list \<Rightarrow> char list \<Rightarrow> char list cres" where
  "store i [] m = Ret m"
| "store i (c # cs) m = (if 0 \<le> i \<and> i < int (length m) then store (i + 1) cs (m[nat i := c]) else Crash BufOverflow)"

text \<open>The test before the four bytes of a long character leaves room for three.\<close>

definition mxml_string_putc :: "int \<Rightarrow> sbuf \<Rightarrow> (int \<times> sbuf) cres" where
  "mxml_string_putc ch b =
     (let n = (if ch < 128 then 0 else if ch < 2048 then 1 else 2)
      in cbind (if sb_pos b + n < sb_end b then store (sb_pos b) (utf8_bytes ch) (sb_mem b) else Ret (sb_mem b)) (\<lambda>m.
         Ret (0, b\<lparr>sb_mem := m, sb_pos := sb_pos b + int (length (utf8_bytes ch))\<rparr>)))"

text \<open>A file that takes \<open>fs_room\<close> more bytes.\<close>

record fsink =
  fs_out :: string
  fs_room :: nat

definition mxml_file_putc :: "int \<Rightarrow> fsink \<Rightarrow> (int \<times> fsink) cres" where
  "mxml_file_putc ch f =
     (let bs = utf8_bytes ch; n = min (length bs) (fs_room f)
      in Ret (if n < length bs then -1 else 0, f\<lparr>fs_out := fs_out f @ take n bs, fs_room := fs_room f - n\<rparr>))"

text \<open>A descriptor with its buffer of 8192 bytes; \<open>fd_io\<close> are the results of the calls of \<open>write\<close> (all is written when it is used up).\<close>

record fdsink =
  fd_buf :: string
  fd_out :: string
  fd_io :: "int list"

fun write_all :: "int list \<Rightarrow> string \<Rightarrow> string \<Rightarrow> int \<times> string \<times> string \<times> int list" where
  "write_all io [] out = (0, [], out, io)"
| "write_all [] b out = (0, [], out @ b, [])"
| "write_all (n # io) b out = (if n < 0 then (-1, b, out, io) else write_all io (drop (nat n) b) (out @ take (nat n) b))"

text \<open>A failed call leaves the buffer as it is, with the bytes that were already written still in it.\<close>

definition mxml_fd_write :: "fdsink \<Rightarrow> int \<times> fdsink" where
  "mxml_fd_write f =
     (let (r, _, out, io) = write_all (fd_io f) (fd_buf f) (fd_out f)
      in if r < 0 then (-1, f\<lparr>fd_out := out, fd_io := io\<rparr>) else (0, f\<lparr>fd_buf := [], fd_out := out, fd_io := io\<rparr>))"

definition mxml_fd_putc :: "int \<Rightarrow> fdsink \<Rightarrow> (int \<times> fdsink) cres" where
  "mxml_fd_putc ch f =
     (let (r, f) = (if length (fd_buf f) \<ge> 8192 - 4 then mxml_fd_write f else (0, f))
      in if r < 0 then Ret (-1, f) else Ret (0, f\<lparr>fd_buf := fd_buf f @ utf8_bytes ch\<rparr>))"

subsection \<open>Names and strings\<close>

type_synonym 'p putc = "int \<Rightarrow> 'p \<Rightarrow> (int \<times> 'p) cres"

definition ok_then :: "('p \<Rightarrow> (int \<times> 'p) cres) \<Rightarrow> ('p \<Rightarrow> (int \<times> 'p) cres) \<Rightarrow> 'p \<Rightarrow> (int \<times> 'p) cres" where
  "ok_then f g p = cbind (f p) (\<lambda>(r, p). if r < 0 then Ret (-1, p) else g p)"

fun puts :: "'p putc \<Rightarrow> string \<Rightarrow> 'p \<Rightarrow> (int \<times> 'p) cres" where
  "puts putc [] p = Ret (0, p)"
| "puts putc (c # s) p = ok_then (putc (schar c)) (puts putc s) p"

fun mxml_write_string :: "'p putc \<Rightarrow> string \<Rightarrow> 'p \<Rightarrow> (int \<times> 'p) cres" where
  "mxml_write_string putc [] p = Ret (0, p)"
| "mxml_write_string putc (c # s) p =
     ok_then (case mxmlEntityGetName (schar c) of Some name \<Rightarrow> puts putc (''&'' @ name @ '';'') | None \<Rightarrow> puts putc [c])
       (mxml_write_string putc s) p"

definition mxml_write_name :: "'p putc \<Rightarrow> string \<Rightarrow> 'p \<Rightarrow> (int \<times> 'p) cres" where
  "mxml_write_name putc s p =
     (case s of [] \<Rightarrow> Ret (0, p)
      | q # r \<Rightarrow>
          if q = CHR 0x22 \<or> q = CHR 0x27
          then ok_then (puts putc [q]) (ok_then (mxml_write_string putc (takeWhile (\<lambda>c. c \<noteq> q) r)) (puts putc [q])) p
          else puts putc s p)"

subsection \<open>White space\<close>

definition MXML_WS_BEFORE_OPEN :: int where "MXML_WS_BEFORE_OPEN = 0"
definition MXML_WS_AFTER_OPEN :: int where "MXML_WS_AFTER_OPEN = 1"
definition MXML_WS_BEFORE_CLOSE :: int where "MXML_WS_BEFORE_CLOSE = 2"
definition MXML_WS_AFTER_CLOSE :: int where "MXML_WS_AFTER_CLOSE = 3"

type_synonym save_cb = "(nat \<Rightarrow> int \<Rightarrow> xheap \<Rightarrow> string option crun) option"

fun put_ws :: "'p putc \<Rightarrow> string \<Rightarrow> int \<Rightarrow> 'p \<Rightarrow> (int \<times> 'p) cres" where
  "put_ws putc [] col p = Ret (col, p)"
| "put_ws putc (c # s) col p =
     cbind (putc (schar c) p) (\<lambda>(r, p).
       if r < 0 then Ret (-1, p)
       else put_ws putc s (if c = NL then 0 else if c = CHR 0x09 then col + 8 - (col + 8) mod 8 else col + 1) p)"

definition mxml_write_ws :: "save_cb \<Rightarrow> 'p putc \<Rightarrow> nat \<Rightarrow> int \<Rightarrow> int \<Rightarrow> xheap \<Rightarrow> 'p \<Rightarrow> (int \<times> 'p) crun" where
  "mxml_write_ws cb putc x ws col h p =
     (case cb of None \<Rightarrow> Some (Ret (col, p))
      | Some f \<Rightarrow> rbind (f x ws h) (\<lambda>s. case s of None \<Rightarrow> Some (Ret (col, p)) | Some s \<Rightarrow> Some (put_ws putc s col p)))"

text \<open>The first element at or behind a node, in the direction of \<open>link\<close>.\<close>

partial_function (option) skip_values :: "(mxml_node \<Rightarrow> nat option) \<Rightarrow> nat option \<Rightarrow> xheap \<Rightarrow> nat option crun" where
  "skip_values link node h =
     (case node of None \<Rightarrow> Some (Ret None)
      | Some y \<Rightarrow> rbind (Some (rd h y)) (\<lambda>n. if n_type n = MXML_ELEMENT then Some (Ret node) else skip_values link (link n) h))"

declare skip_values.simps [code]

text \<open>\<open>for (level = 1, node = tree->parent; node != NULL && node->parent != NULL && level < 30; ...) strcat(fill, "  ")\<close>\<close>

fun indent :: "nat \<Rightarrow> nat option \<Rightarrow> xheap \<Rightarrow> string cres" where
  "indent 0 node h = (case node of None \<Rightarrow> Ret [] | Some y \<Rightarrow> cbind (rd h y) (\<lambda>n. Ret []))"
| "indent (Suc k) node h =
     (case node of None \<Rightarrow> Ret []
      | Some y \<Rightarrow> cbind (rd h y) (\<lambda>n.
          if n_parent n = None then Ret [] else cbind (indent k (n_parent n) h) (\<lambda>s. Ret (''  '' @ s))))"

definition write_ws_cb :: "nat \<Rightarrow> int \<Rightarrow> xheap \<Rightarrow> string option crun" where
  "write_ws_cb tree at h =
     rbind (Some (rd h tree)) (\<lambda>t.
       if at = MXML_WS_AFTER_CLOSE then Some (Ret (Some [NL]))
       else if at = MXML_WS_BEFORE_CLOSE then
         rbind (skip_values n_next (n_child t) h) (\<lambda>node.
           case node of None \<Rightarrow> Some (Ret (Some []))
           | Some _ \<Rightarrow> rbind (Some (indent 29 (n_parent t) h)) (\<lambda>s. Some (Ret (Some s))))
       else if at = MXML_WS_BEFORE_OPEN then
         rbind (skip_values n_prev (n_prev t) h) (\<lambda>node.
         rbind (Some (indent 29 (n_parent t) h)) (\<lambda>s.
           Some (Ret (Some ((if node = None \<and> n_parent t \<noteq> None then [NL] else []) @ s)))))
       else Some (Ret (Some [])))"

subsection \<open>Nodes\<close>

text \<open>\<open>None\<close> is \<open>return (-1)\<close>.\<close>

type_synonym 'p wres = "(int option \<times> 'p) cres"

definition put_col :: "'p putc \<Rightarrow> string \<Rightarrow> int \<Rightarrow> 'p \<Rightarrow> 'p wres" where
  "put_col putc s col p = cbind (puts putc s p) (\<lambda>(r, p). Ret (if r < 0 then None else Some col, p))"

definition str_col :: "'p putc \<Rightarrow> string option \<Rightarrow> int \<Rightarrow> 'p \<Rightarrow> 'p wres" where
  "str_col putc s col p =
     (case s of None \<Rightarrow> Crash NullDeref
      | Some s \<Rightarrow> cbind (mxml_write_string putc s p) (\<lambda>(r, p). Ret (if r < 0 then None else Some (col + int (length s)), p)))"

definition wbind :: "'p wres \<Rightarrow> (int \<Rightarrow> 'p \<Rightarrow> 'p wres) \<Rightarrow> 'p wres" where
  "wbind m f = cbind m (\<lambda>(c, p). case c of None \<Rightarrow> Ret (None, p) | Some col \<Rightarrow> f col p)"

definition xbind :: "'p wres \<Rightarrow> (int \<times> 'p \<Rightarrow> (int \<times> 'p) crun) \<Rightarrow> (int \<times> 'p) crun" where
  "xbind m f = rbind (Some m) (\<lambda>(c, p). case c of None \<Rightarrow> Some (Ret (-1, p)) | Some col \<Rightarrow> f (col, p))"

lemma xbind_mono [partial_function_mono]:
  assumes "\<And>y. mono_option (\<lambda>f. G f y)"
  shows "mono_option (\<lambda>f. xbind m (G f))"
  unfolding xbind_def
proof (rule rbind_mono [OF option.const_mono])
  show "mono_option (\<lambda>f. case y of (None, p) \<Rightarrow> Some (Ret (-1, p)) | (Some col, p) \<Rightarrow> G f (col, p))" for y
    using assms by (cases y; cases "fst y") (auto intro: option.const_mono)
qed

text \<open>A blank before a value, or a new line when the line is full.\<close>

definition space_first :: "'p putc \<Rightarrow> int \<Rightarrow> int \<Rightarrow> 'p \<Rightarrow> 'p wres" where
  "space_first putc wrap col p = (if col > wrap then put_col putc [NL] 0 p else put_col putc '' '' (col + 1) p)"

definition starts :: "char list \<Rightarrow> string \<Rightarrow> bool" where
  "starts cs nm \<longleftrightarrow> nm \<noteq> [] \<and> hd nm \<in> set cs"

definition name_col :: "'p putc \<Rightarrow> string \<Rightarrow> int \<Rightarrow> 'p \<Rightarrow> 'p wres" where
  "name_col putc nm col p = cbind (mxml_write_name putc nm p) (\<lambda>(r, p). Ret (if r < 0 then None else Some col, p))"

fun write_attrs :: "'p putc \<Rightarrow> int \<Rightarrow> mxml_attr list \<Rightarrow> int \<Rightarrow> 'p \<Rightarrow> 'p wres" where
  "write_attrs putc wrap [] col p = Ret (Some col, p)"
| "write_attrs putc wrap (a # as) col p =
     (let width = int (length (a_name a)) + (case a_value a of None \<Rightarrow> 0 | Some v \<Rightarrow> int (length v) + 3)
      in wbind (if col + width > wrap then put_col putc [NL] 0 p else put_col putc '' '' (col + 1) p) (\<lambda>col p.
         wbind (name_col putc (a_name a) col p) (\<lambda>col p.
         wbind (case a_value a of None \<Rightarrow> Ret (Some col, p)
                | Some v \<Rightarrow> wbind (put_col putc [CHR ''='', CHR 0x22] col p) (\<lambda>col p.
                    wbind (str_col putc (Some v) col p) (\<lambda>_ p. put_col putc [CHR 0x22] col p))) (\<lambda>col p.
         write_attrs putc wrap as (col + width) p))))"

definition write_open :: "'p putc \<Rightarrow> int \<Rightarrow> string \<Rightarrow> mxml_attr list \<Rightarrow> int \<Rightarrow> 'p \<Rightarrow> 'p wres" where
  "write_open putc wrap nm attrs col p =
     wbind (put_col putc ''<'' col p) (\<lambda>col p.
     wbind (if starts ''?'' nm \<or> strncmp_eq nm ''!--'' 3 \<or> strncmp_eq nm ''![CDATA['' 8 then put_col putc nm col p
            else name_col putc nm col p) (\<lambda>col p.
     write_attrs putc wrap attrs (col + int (length nm) + 1) p))"

definition write_close :: "'p putc \<Rightarrow> string \<Rightarrow> int \<Rightarrow> 'p \<Rightarrow> 'p wres" where
  "write_close putc nm col p =
     wbind (put_col putc ''</'' col p) (\<lambda>col p.
     wbind (str_col putc (Some nm) col p) (\<lambda>_ p. put_col putc ''>'' (col + int (length nm) + 3) p))"

text \<open>\<open>%f\<close> of a double given by its bits: the exact value rounded to six digits, ties to even.\<close>

definition show_real :: "int \<Rightarrow> string" where
  "show_real bits =
     (let ex = bits div 2 ^ 52 mod 2 ^ 11; fr = bits mod 2 ^ 52
      in (if bits div 2 ^ 63 mod 2 = 1 then ''-'' else []) @
         (if ex = 2047 then (if fr = 0 then ''inf'' else ''nan'')
          else let m = (if ex = 0 then fr else fr + 2 ^ 52); e = max ex 1 - 1075;
                   num = m * 10 ^ 6 * 2 ^ nat e; den = 2 ^ nat (- e); q = num div den; r = num mod den;
                   q = nat (if 2 * r > den \<or> 2 * r = den \<and> odd q then q + 1 else q)
               in show_nat (q div 10 ^ 6) @ ''.'' @ show_pad 6 (q mod 10 ^ 6)))"

text \<open>\<open>sprintf\<close> into \<open>s[255]\<close>.\<close>

definition real_text :: "int \<Rightarrow> string cres" where
  "real_text bits = (if length (show_real bits) + 1 > 255 then Crash BufOverflow else Ret (show_real bits))"

text \<open>The nodes that are not elements; \<open>save\<close> is the handler for custom nodes, if one is set.\<close>

type_synonym custom_save_cb = "(nat \<Rightarrow> xheap \<Rightarrow> string option) option"

definition write_value :: "custom_save_cb \<Rightarrow> 'p putc \<Rightarrow> int \<Rightarrow> nat \<Rightarrow> mxml_node \<Rightarrow> int \<Rightarrow> xheap \<Rightarrow> 'p \<Rightarrow> 'p wres" where
  "write_value save putc wrap x n col h p =
     (case (n_type n, n_value n) of
        (MXML_INTEGER, VInteger i) \<Rightarrow>
          wbind (if n_prev n \<noteq> None then space_first putc wrap col p else Ret (Some col, p)) (str_col putc (Some (show_int i)))
      | (MXML_REAL, VReal bits) \<Rightarrow>
          wbind (if n_prev n \<noteq> None then space_first putc wrap col p else Ret (Some col, p)) (\<lambda>col p.
          cbind (real_text bits) (\<lambda>s. str_col putc (Some s) col p))
      | (MXML_OPAQUE, VOpaque s) \<Rightarrow> str_col putc s col p
      | (MXML_TEXT, VText ws s) \<Rightarrow>
          wbind (if ws \<noteq> 0 \<and> col > 0 then space_first putc wrap col p else Ret (Some col, p)) (str_col putc s)
      | (MXML_CUSTOM, v) \<Rightarrow>
          (case save of None \<Rightarrow> Ret (None, p)
           | Some f \<Rightarrow> (case f x h of None \<Rightarrow> Ret (None, p)
               | Some d \<Rightarrow> wbind (str_col putc (Some d) col p) (\<lambda>c p.
                   Ret (Some (if NL \<in> set d then 1 + int (length (takeWhile (\<lambda>c. c \<noteq> NL) (rev d))) else c), p))))
      | (MXML_IGNORE, v) \<Rightarrow> Ret (None, p)
      | _ \<Rightarrow> Crash WrongMember)"

text \<open>What stays the same during a call of \<open>mxml_write_node\<close>: the handlers, the sink's function, the width and the tree.\<close>

record 'p wenv =
  w_save :: custom_save_cb
  w_cb :: save_cb
  w_putc :: "'p putc"
  w_wrap :: int
  w_heap :: xheap

definition env_ws :: "'p wenv \<Rightarrow> nat \<Rightarrow> int \<Rightarrow> int \<Rightarrow> 'p \<Rightarrow> (int \<times> 'p) crun" where
  "env_ws E x ws col p = mxml_write_ws (w_cb E) (w_putc E) x ws col (w_heap E) p"

text \<open>The node and its later siblings.\<close>

partial_function (option) mxml_write_node :: "'p wenv \<Rightarrow> nat option \<Rightarrow> int \<Rightarrow> 'p \<Rightarrow> (int \<times> 'p) crun" where
  "mxml_write_node E node col p =
     (case node of None \<Rightarrow> Some (Ret (col, p))
      | Some x \<Rightarrow> rbind (Some (rd (w_heap E) x)) (\<lambda>n.
          if n_type n \<noteq> MXML_ELEMENT then
            xbind (write_value (w_save E) (w_putc E) (w_wrap E) x n col (w_heap E) p) (\<lambda>(col, p). mxml_write_node E (n_next n) col p)
          else
            rbind (env_ws E x MXML_WS_BEFORE_OPEN col p) (\<lambda>(col, p).
            rbind (Some (elem n)) (\<lambda>(en, attrs).
            case en of None \<Rightarrow> Some (Crash NullDeref)
            | Some nm \<Rightarrow>
                xbind (write_open (w_putc E) (w_wrap E) nm attrs col p) (\<lambda>(col, p).
                case n_child n of
                  Some y \<Rightarrow>
                    xbind (put_col (w_putc E) ''>'' (col + 1) p) (\<lambda>(col, p).
                    rbind (env_ws E x MXML_WS_AFTER_OPEN col p) (\<lambda>(col, p).
                    rbind (mxml_write_node E (Some y) col p) (\<lambda>(col, p).
                    if col < 0 then Some (Ret (-1, p))
                    else if starts ''!?'' nm then mxml_write_node E (n_next n) col p
                    else rbind (env_ws E x MXML_WS_BEFORE_CLOSE col p) (\<lambda>(col, p).
                         xbind (write_close (w_putc E) nm col p) (\<lambda>(col, p).
                         rbind (env_ws E x MXML_WS_AFTER_CLOSE col p) (\<lambda>(col, p).
                         mxml_write_node E (n_next n) col p))))))
                | None \<Rightarrow>
                    xbind (if starts ''!?'' nm then put_col (w_putc E) ''>'' (col + 1) p else put_col (w_putc E) '' />'' (col + 3) p) (\<lambda>(col, p).
                    rbind (env_ws E x MXML_WS_AFTER_CLOSE col p) (\<lambda>(col, p).
                    mxml_write_node E (n_next n) col p)))))))"

declare mxml_write_node.simps [code]

subsection \<open>Saving\<close>

definition SAVE_WRAP :: int where "SAVE_WRAP = 0x7F000000"

definition saving :: "custom_save_cb \<Rightarrow> save_cb \<Rightarrow> 'p putc \<Rightarrow> xheap \<Rightarrow> 'p wenv" where
  "saving save cb putc h = \<lparr>w_save = save, w_cb = cb, w_putc = putc, w_wrap = SAVE_WRAP, w_heap = h\<rparr>"

definition with_ws :: "save_cb \<Rightarrow> save_cb" where
  "with_ws cb = (case cb of None \<Rightarrow> Some write_ws_cb | Some f \<Rightarrow> Some f)"

definition finish_line :: "'p putc \<Rightarrow> int \<Rightarrow> 'p \<Rightarrow> (int \<times> 'p) cres" where
  "finish_line putc col p = (if col > 0 then putc (schar NL) p else Ret (0, p))"

text \<open>\<open>buffer\<close> is the caller's memory, \<open>bufsize\<close> the size the caller names.\<close>

definition mxmlSaveString ::
  "custom_save_cb \<Rightarrow> nat option \<Rightarrow> char list \<Rightarrow> int \<Rightarrow> save_cb \<Rightarrow> xheap \<Rightarrow> (int \<times> char list) crun" where
  "mxmlSaveString save node buffer bufsize cb h =
     rbind (mxml_write_node (saving save cb mxml_string_putc h) node 0 \<lparr>sb_mem = buffer, sb_pos = 0, sb_end = bufsize\<rparr>) (\<lambda>(col, p).
       if col < 0 then Some (Ret (-1, sb_mem p))
       else rbind (Some (finish_line mxml_string_putc col p)) (\<lambda>(_, p).
            rbind (Some (store (if sb_pos p \<ge> sb_end p then bufsize - 1 else sb_pos p) [NUL] (sb_mem p))) (\<lambda>m.
            Some (Ret (sb_pos p, m)))))"

text \<open>\<open>junk\<close> is what the array on the stack and fresh memory hold.\<close>

definition mxmlSaveAllocString ::
  "custom_save_cb \<Rightarrow> char \<Rightarrow> nat option \<Rightarrow> save_cb \<Rightarrow> xheap \<Rightarrow> (string option \<times> xheap) crun" where
  "mxmlSaveAllocString save junk node cb h =
     rbind (mxmlSaveString save node (replicate 8192 junk) 8192 cb h) (\<lambda>(bytes, buffer).
       if bytes \<le> 0 then Some (Ret (None, h))
       else if bytes < 8192 - 1 then Some (Ret (xstrdup (c_str buffer) h))
       else let (ok, h) = granted h
            in if \<not> ok then Some (Ret (None, h))
               else rbind (mxmlSaveString save node (replicate (nat bytes + 1) junk) (bytes + 1) cb h) (\<lambda>(_, s).
                    Some (Ret (Some (c_str s), h))))"

definition mxmlSaveFile :: "custom_save_cb \<Rightarrow> nat option \<Rightarrow> fsink \<Rightarrow> save_cb \<Rightarrow> xheap \<Rightarrow> (int \<times> fsink) crun" where
  "mxmlSaveFile save node fp cb h =
     rbind (mxml_write_node (saving save (with_ws cb) mxml_file_putc h) node 0 fp) (\<lambda>(col, fp).
       if col < 0 then Some (Ret (-1, fp))
       else rbind (Some (finish_line mxml_file_putc col fp)) (\<lambda>(r, fp). Some (Ret (if r < 0 then -1 else 0, fp))))"

definition mxmlSaveFd :: "custom_save_cb \<Rightarrow> nat option \<Rightarrow> int list \<Rightarrow> save_cb \<Rightarrow> xheap \<Rightarrow> (int \<times> fdsink) crun" where
  "mxmlSaveFd save node io cb h =
     rbind (mxml_write_node (saving save (with_ws cb) mxml_fd_putc h) node 0 \<lparr>fd_buf = [], fd_out = [], fd_io = io\<rparr>) (\<lambda>(col, f).
       if col < 0 then Some (Ret (-1, f))
       else rbind (Some (finish_line mxml_fd_putc col f)) (\<lambda>(r, f).
            if r < 0 then Some (Ret (-1, f)) else Some (Ret (mxml_fd_write f))))"

text \<open>The settings of a thread that only this file uses.\<close>

record mxml_settings = mxml_global +
  g_error_cb :: "nat option"
  g_custom_load :: "nat option"
  g_custom_save :: "nat option"

definition mxmlSetCustomHandlers :: "nat option \<Rightarrow> nat option \<Rightarrow> mxml_settings \<Rightarrow> mxml_settings" where
  "mxmlSetCustomHandlers load save g = g\<lparr>g_custom_load := load, g_custom_save := save\<rparr>"

definition mxmlSetErrorCallback :: "nat option \<Rightarrow> mxml_settings \<Rightarrow> mxml_settings" where
  "mxmlSetErrorCallback cb g = g\<lparr>g_error_cb := cb\<rparr>"

definition mxmlSetWrapMargin :: "int \<Rightarrow> mxml_settings \<Rightarrow> mxml_settings" where
  "mxmlSetWrapMargin column g = g\<lparr>g_wrap := (if column \<le> 0 then 2147483647 else column)\<rparr>"

end
