(* ===== verification/XmlText.thy ===== *)
theory XmlText
  imports MxmlSave MxmlSearch
begin

text \<open>
  The text of a document. \<open>xtree\<close> is a document of elements with attributes, \<open>xml_text\<close> the text that \<open>mxml_write_node\<close> of
  \<open>mxml-file.c\<close> makes of it without a callback for white space, \<open>tree_at h ch x t\<close> says that the nodes below \<open>x\<close> are the
  document \<open>t\<close>. The locale \<open>sink\<close> is what the writer relies on: every character is taken and appended. It is interpreted on
  strings, whose memory may be too small (what does not fit is counted, not stored), and on files with room.
\<close>

section \<open>Documents and their text\<close>

datatype xtree = Elem string "(string \<times> string) list" "xtree list"

definition esc_char :: "char \<Rightarrow> string" where
  "esc_char c = (case mxmlEntityGetName (schar c) of Some name \<Rightarrow> ''&'' @ name @ '';'' | None \<Rightarrow> [c])"

definition escape :: "string \<Rightarrow> string" where
  "escape s = concat (map esc_char s)"

definition attr_text :: "string \<times> string \<Rightarrow> string" where
  "attr_text a = '' '' @ fst a @ [CHR ''='', CHR 0x22] @ escape (snd a) @ [CHR 0x22]"

definition attrs_text :: "(string \<times> string) list \<Rightarrow> string" where
  "attrs_text as = concat (map attr_text as)"

fun xml_text :: "xtree \<Rightarrow> string" where
  "xml_text (Elem nm as sub) =
     ''<'' @ nm @ attrs_text as @
       (if sub \<noteq> [] then ''>'' @ concat (map xml_text sub) @ (if starts ''!?'' nm then [] else ''</'' @ escape nm @ ''>'')
        else if starts ''!?'' nm then ''>'' else '' />'')"

text \<open>A name that is written as it is.\<close>

definition raw_name :: "string \<Rightarrow> bool" where
  "raw_name nm \<longleftrightarrow> nm \<noteq> [] \<and> \<not> starts [CHR 0x22, CHR 0x27] nm"

fun writable :: "xtree \<Rightarrow> bool" where
  "writable (Elem nm as sub) \<longleftrightarrow> raw_name nm \<and> list_all (\<lambda>a. raw_name (fst a)) as \<and> list_all writable sub"

definition attr_rec :: "string \<times> string \<Rightarrow> mxml_attr" where
  "attr_rec a = \<lparr>a_name = fst a, a_value = Some (snd a)\<rparr>"

function tree_at :: "xheap \<Rightarrow> (nat \<Rightarrow> nat list) \<Rightarrow> nat \<Rightarrow> xtree \<Rightarrow> bool" where
  "tree_at h ch x (Elem nm as sub) \<longleftrightarrow>
     (\<exists>c. map_option payload (cells h x) = Some (MXML_ELEMENT, VElement (Some nm) (map attr_rec as), c)) \<and>
     length (ch x) = length sub \<and> (\<forall>(y, t) \<in> set (zip (ch x) sub). tree_at h ch y t)"
  by pat_completeness auto
termination
  by (relation "measure (\<lambda>(h, ch, x, t). size t)") (auto dest!: set_zip_rightD simp: less_Suc_eq_le size_list_estimation')

declare tree_at.simps [simp del]

definition trees_at :: "xheap \<Rightarrow> (nat \<Rightarrow> nat list) \<Rightarrow> nat list \<Rightarrow> xtree list \<Rightarrow> bool" where
  "trees_at h ch xs ts \<longleftrightarrow> list_all2 (tree_at h ch) xs ts"

lemma tree_at_iff:
  "tree_at h ch x (Elem nm as sub) \<longleftrightarrow>
     (\<exists>c. map_option payload (cells h x) = Some (MXML_ELEMENT, VElement (Some nm) (map attr_rec as), c)) \<and> trees_at h ch (ch x) sub"
  by (auto simp: tree_at.simps trees_at_def list_all2_iff)

lemma tree_atD:
  assumes "tree_at h ch x (Elem nm as sub)"
  obtains n where "cells h x = Some n" "n_type n = MXML_ELEMENT" "n_value n = VElement (Some nm) (map attr_rec as)" "trees_at h ch (ch x) sub"
  using assms by (auto simp: tree_at_iff payload_def)

text \<open>The nodes of a document and their children decide what it is.\<close>

lemma tree_at_keep:
  "tree_at h ch x t \<Longrightarrow> (\<And>z. z \<in> under ch x \<Longrightarrow> map_option payload (cells h' z) = map_option payload (cells h z) \<and> ch' z = ch z) \<Longrightarrow>
    tree_at h' ch' x t"
proof (induction t arbitrary: x)
  case (Elem nm as sub)
  have x: "map_option payload (cells h' x) = map_option payload (cells h x)" "ch' x = ch x"
    using Elem.prems(2) [of x] by simp_all
  have "tree_at h' ch' (ch x ! i) (sub ! i)" if i: "i < length sub" "length (ch x) = length sub" for i
  proof (rule Elem.IH)
    show "sub ! i \<in> set sub" using i by simp
    show "tree_at h ch (ch x ! i) (sub ! i)" using Elem.prems(1) i by (auto simp: tree_at_iff trees_at_def list_all2_conv_all_nth)
    fix z assume "z \<in> under ch (ch x ! i)"
    then have "z \<in> under ch x" using under_kid [of "ch x ! i" ch x] i by auto
    then show "map_option payload (cells h' z) = map_option payload (cells h z) \<and> ch' z = ch z" by (rule Elem.prems(2))
  qed
  then show ?case using Elem.prems(1) x by (auto simp: tree_at_iff trees_at_def list_all2_conv_all_nth)
qed

section \<open>Sinks\<close>

locale sink =
  fixes putc :: "'p putc" and wrote :: "'p \<Rightarrow> string \<Rightarrow> bool"
  assumes putc_wrote: "wrote p w \<Longrightarrow> \<exists>p'. putc (schar c) p = Ret (0, p') \<and> wrote p' (w @ [c])"
begin

definition gives :: "(int \<times> 'p) cres \<Rightarrow> string \<Rightarrow> bool" where
  "gives m w \<longleftrightarrow> (\<exists>p. m = Ret (0, p) \<and> wrote p w)"

lemma ok_then_gives: "gives (f p) w \<Longrightarrow> (\<And>p. wrote p w \<Longrightarrow> gives (g p) w') \<Longrightarrow> gives (ok_then f g p) w'"
  by (auto simp: gives_def ok_then_def)

lemma puts_gives: "wrote p w \<Longrightarrow> gives (puts putc s p) (w @ s)"
proof (induction s arbitrary: p w)
  case (Cons c s)
  show ?case
    unfolding puts.simps
  proof (rule ok_then_gives)
    show "gives (putc (schar c) p) (w @ [c])" using putc_wrote [OF Cons.prems] by (auto simp: gives_def)
  qed (use Cons.IH [of _ "w @ [c]"] in simp)
qed (simp add: gives_def)

lemma write_string_gives: "wrote p w \<Longrightarrow> gives (mxml_write_string putc s p) (w @ escape s)"
proof (induction s arbitrary: p w)
  case (Cons c s)
  show ?case
    unfolding mxml_write_string.simps
  proof (rule ok_then_gives [where w = "w @ esc_char c"])
    show "gives ((case mxmlEntityGetName (schar c) of Some name \<Rightarrow> puts putc (''&'' @ name @ '';'') | None \<Rightarrow> puts putc [c]) p) (w @ esc_char c)"
      using puts_gives [OF Cons.prems] by (auto simp: esc_char_def simp del: puts.simps split: option.split)
  qed (use Cons.IH [of _ "w @ esc_char c"] in \<open>simp add: escape_def\<close>)
qed (simp add: gives_def escape_def)

lemma write_name_gives: "wrote p w \<Longrightarrow> raw_name nm \<Longrightarrow> gives (mxml_write_name putc nm p) (w @ nm)"
  using puts_gives [of p w nm] by (auto simp: mxml_write_name_def raw_name_def starts_def split: list.split)

text \<open>A piece of \<open>mxml_write_node\<close> that starts in column \<open>col\<close>: what it has written, and the column is not behind it.\<close>

definition col_gives :: "'p wres \<Rightarrow> string \<Rightarrow> int \<Rightarrow> int \<Rightarrow> bool" where
  "col_gives m w least most \<longleftrightarrow> (\<exists>col p. m = Ret (Some col, p) \<and> wrote p w \<and> least \<le> col \<and> col \<le> most)"

lemma wbind_gives:
  "col_gives m w j k \<Longrightarrow> (\<And>col p. wrote p w \<Longrightarrow> j \<le> col \<Longrightarrow> col \<le> k \<Longrightarrow> col_gives (f col p) w' j' k') \<Longrightarrow> col_gives (wbind m f) w' j' k'"
  by (auto simp: col_gives_def wbind_def)

lemma put_col_gives: "wrote p w \<Longrightarrow> j \<le> col \<Longrightarrow> col \<le> k \<Longrightarrow> col_gives (put_col putc s col p) (w @ s) j k"
  using puts_gives [of p w s] by (auto simp: gives_def col_gives_def put_col_def)

lemma name_col_gives: "wrote p w \<Longrightarrow> raw_name s \<Longrightarrow> j \<le> col \<Longrightarrow> col \<le> k \<Longrightarrow> col_gives (name_col putc s col p) (w @ s) j k"
  using write_name_gives [of p w s] by (auto simp: gives_def col_gives_def name_col_def)

lemma str_col_gives: "wrote p w \<Longrightarrow> j \<le> col \<Longrightarrow> col + int (length s) \<le> k \<Longrightarrow> col_gives (str_col putc (Some s) col p) (w @ escape s) j k"
  using write_string_gives [of p w s] by (auto simp: gives_def col_gives_def str_col_def)

end

lemma esc_char_length: "1 \<le> length (esc_char c)"
  by (auto simp: esc_char_def split: option.split)

lemma escape_length: "length s \<le> length (escape s)"
proof (induction s)
  case (Cons c s)
  then show ?case using esc_char_length [of c] by (simp add: escape_def)
qed (simp add: escape_def)

context sink
begin

lemma write_attrs_gives:
  "wrote p w \<Longrightarrow> list_all (\<lambda>a. raw_name (fst a)) as \<Longrightarrow> j \<le> col \<Longrightarrow> col + int (length (attrs_text as)) \<le> wrap \<Longrightarrow>
    col + int (length (attrs_text as)) \<le> k \<Longrightarrow> col_gives (write_attrs putc wrap (map attr_rec as) col p) (w @ attrs_text as) j k"
proof (induction as arbitrary: p w col)
  case Nil
  then show ?case by (auto simp: col_gives_def attrs_text_def)
next
  case (Cons a as)
  obtain nm v where a: "a = (nm, v)" by fastforce
  have nm: "raw_name nm" using Cons.prems(2) a by simp
  let ?w = "int (length nm) + (int (length v) + 3)"
  have len: "attrs_text (a # as) = attr_text a @ attrs_text as" by (simp add: attrs_text_def)
  have w: "col + 1 + ?w \<le> col + int (length (attr_text a))" using escape_length [of v] a by (simp add: attr_text_def)
  have fit: "\<not> col + ?w > wrap" using w Cons.prems(4) len by simp
  have "col_gives (wbind (put_col putc '' '' (col + 1) p) (\<lambda>col p.
         wbind (name_col putc nm col p) (\<lambda>col p.
         wbind (wbind (put_col putc [CHR ''='', CHR 0x22] col p) (\<lambda>col p.
                    wbind (str_col putc (Some v) col p) (\<lambda>_ p. put_col putc [CHR 0x22] col p))) (\<lambda>col p.
         write_attrs putc wrap (map attr_rec as) (col + ?w) p)))) (w @ attrs_text (a # as)) j k"
  proof (rule wbind_gives [OF put_col_gives [OF Cons.prems(1), where j = j and k = "col + 1"]])
    fix c1 p1 assume 1: "wrote p1 (w @ '' '')" "j \<le> c1" "c1 \<le> col + 1"
    show "col_gives (wbind (name_col putc nm c1 p1) (\<lambda>col p.
         wbind (wbind (put_col putc [CHR ''='', CHR 0x22] col p) (\<lambda>col p.
                    wbind (str_col putc (Some v) col p) (\<lambda>_ p. put_col putc [CHR 0x22] col p))) (\<lambda>col p.
         write_attrs putc wrap (map attr_rec as) (col + ?w) p))) (w @ attrs_text (a # as)) j k"
    proof (rule wbind_gives [OF name_col_gives [OF 1(1) nm 1(2), where k = "col + 1"]])
      fix c2 p2 assume 2: "wrote p2 ((w @ '' '') @ nm)" "j \<le> c2" "c2 \<le> col + 1"
      have "col_gives (wbind (put_col putc [CHR ''='', CHR 0x22] c2 p2) (\<lambda>col p.
          wbind (str_col putc (Some v) col p) (\<lambda>_ p. put_col putc [CHR 0x22] col p)))
          (((((w @ '' '') @ nm) @ [CHR ''='', CHR 0x22]) @ escape v) @ [CHR 0x22]) j (col + 1)"
        by (rule wbind_gives [OF put_col_gives [OF 2]], rule wbind_gives [OF str_col_gives], assumption, assumption, rule order_refl,
            rule put_col_gives) simp_all
      then show "col_gives (wbind (wbind (put_col putc [CHR ''='', CHR 0x22] c2 p2) (\<lambda>col p.
          wbind (str_col putc (Some v) col p) (\<lambda>_ p. put_col putc [CHR 0x22] col p))) (\<lambda>col p.
          write_attrs putc wrap (map attr_rec as) (col + ?w) p)) (w @ attrs_text (a # as)) j k"
      proof (rule wbind_gives)
        fix c3 p3 assume 3: "wrote p3 (((((w @ '' '') @ nm) @ [CHR ''='', CHR 0x22]) @ escape v) @ [CHR 0x22])" "j \<le> c3" "c3 \<le> col + 1"
        have "((((w @ '' '') @ nm) @ [CHR ''='', CHR 0x22]) @ escape v) @ [CHR 0x22] = w @ attr_text a" by (simp add: attr_text_def a)
        then show "col_gives (write_attrs putc wrap (map attr_rec as) (c3 + ?w) p3) (w @ attrs_text (a # as)) j k"
          using Cons.IH [of p3 "w @ attr_text a" "c3 + ?w"] 3 Cons.prems(2,4,5) w len by simp
      qed
    qed (use 1 in simp)
  qed (use Cons.prems(3) in simp_all)
  moreover have "attr_rec a = \<lparr>a_name = nm, a_value = Some v\<rparr>" by (simp add: attr_rec_def a)
  ultimately show ?case using fit by (simp add: Let_def)
qed

lemma write_open_gives:
  assumes "wrote p w" "raw_name nm" "list_all (\<lambda>a. raw_name (fst a)) as" "0 \<le> col" "j \<le> col + 1 + int (length nm)"
    "col + int (length (''<'' @ nm @ attrs_text as)) \<le> wrap" "col + int (length (''<'' @ nm @ attrs_text as)) \<le> k"
  shows "col_gives (write_open putc wrap nm (map attr_rec as) col p) (w @ ''<'' @ nm @ attrs_text as) j k"
proof -
  have "col_gives (wbind (put_col putc ''<'' col p) (\<lambda>col p.
     wbind (if starts ''?'' nm \<or> strncmp_eq nm ''!--'' 3 \<or> strncmp_eq nm ''![CDATA['' 8 then put_col putc nm col p
            else name_col putc nm col p) (\<lambda>col p.
     write_attrs putc wrap (map attr_rec as) (col + int (length nm) + 1) p))) (((w @ ''<'') @ nm) @ attrs_text as) j k"
  proof (rule wbind_gives [OF put_col_gives [OF assms(1) order_refl order_refl]])
    fix c1 p1 assume 1: "wrote p1 (w @ ''<'')" "col \<le> c1" "c1 \<le> col"
    show "col_gives (wbind (if starts ''?'' nm \<or> strncmp_eq nm ''!--'' 3 \<or> strncmp_eq nm ''![CDATA['' 8 then put_col putc nm c1 p1
            else name_col putc nm c1 p1) (\<lambda>col p.
        write_attrs putc wrap (map attr_rec as) (col + int (length nm) + 1) p)) (((w @ ''<'') @ nm) @ attrs_text as) j k"
    proof (rule wbind_gives [where j = col and k = col])
      show "col_gives (if starts ''?'' nm \<or> strncmp_eq nm ''!--'' 3 \<or> strncmp_eq nm ''![CDATA['' 8 then put_col putc nm c1 p1
            else name_col putc nm c1 p1) ((w @ ''<'') @ nm) col col"
        using put_col_gives [OF 1] name_col_gives [OF 1(1) assms(2) 1(2,3)] by simp
    qed (rule write_attrs_gives; use assms in simp)
  qed
  then show ?thesis by (simp add: write_open_def)
qed

lemma write_close_gives:
  assumes "wrote p w" "0 \<le> col" "j \<le> col + 3 + int (length nm)" "col + int (length (''</'' @ escape nm @ ''>'')) \<le> k"
  shows "col_gives (write_close putc nm col p) (w @ ''</'' @ escape nm @ ''>'') j k"
proof -
  have "col_gives (wbind (put_col putc ''</'' col p) (\<lambda>col p.
     wbind (str_col putc (Some nm) col p) (\<lambda>_ p. put_col putc ''>'' (col + int (length nm) + 3) p))) (((w @ ''</'') @ escape nm) @ ''>'') j k"
    by (rule wbind_gives [OF put_col_gives [OF assms(1) order_refl order_refl]], rule wbind_gives [OF str_col_gives], assumption, assumption, rule order_refl,
        rule put_col_gives) (use assms(2-4) escape_length [of nm] in simp_all)
  then show ?thesis by (simp add: write_close_def)
qed

text \<open>The same for the calls that return a number.\<close>

definition node_gives :: "(int \<times> 'p) crun \<Rightarrow> string \<Rightarrow> int \<Rightarrow> int \<Rightarrow> bool" where
  "node_gives m w least most \<longleftrightarrow> (\<exists>col p. m = Some (Ret (col, p)) \<and> wrote p w \<and> least \<le> col \<and> col \<le> most)"

lemma xbind_gives:
  "col_gives m w j k \<Longrightarrow> (\<And>col p. wrote p w \<Longrightarrow> j \<le> col \<Longrightarrow> col \<le> k \<Longrightarrow> node_gives (f (col, p)) w' j' k') \<Longrightarrow> node_gives (xbind m f) w' j' k'"
  by (auto simp: col_gives_def xbind_def)

lemma rbind_gives:
  "node_gives m w j k \<Longrightarrow> (\<And>col p. wrote p w \<Longrightarrow> j \<le> col \<Longrightarrow> col \<le> k \<Longrightarrow> node_gives (f (col, p)) w' j' k') \<Longrightarrow> node_gives (rbind m f) w' j' k'"
  by (auto simp: node_gives_def)

end

text \<open>Nodes that follow each other as siblings.\<close>

definition linked :: "xheap \<Rightarrow> nat list \<Rightarrow> bool" where
  "linked h xs \<longleftrightarrow> (\<forall>as x bs. xs = as @ x # bs \<longrightarrow> (\<exists>n. cells h x = Some n \<and> n_next n = first bs))"

lemma linked_Cons: "linked h (x # xs) \<Longrightarrow> (\<exists>n. cells h x = Some n \<and> n_next n = first xs) \<and> linked h xs"
  unfolding linked_def by (metis append_Cons append_Nil)

lemma linked_children: "forest (cells h) ch \<Longrightarrow> linked h (ch x)"
  unfolding linked_def using forest_kid by metis

lemma trees_at_Cons: "trees_at h ch xs (t # ts) \<longleftrightarrow> (\<exists>x r. xs = x # r \<and> tree_at h ch x t \<and> trees_at h ch r ts)"
  by (auto simp: trees_at_def list_all2_Cons2)

lemma saving_sel [simp]:
  "w_putc (saving save cb putc h) = putc" "w_wrap (saving save cb putc h) = SAVE_WRAP" "w_heap (saving save cb putc h) = h"
  by (simp_all add: saving_def)

lemma no_ws [simp]: "env_ws (saving save None putc h) x ws col p = Some (Ret (col, p))"
  by (simp add: env_ws_def saving_def mxml_write_ws_def)

context sink
begin

lemma write_trees_gives:
  assumes f: "forest (cells h) ch"
  shows "trees_at h ch xs ts \<Longrightarrow> list_all writable ts \<Longrightarrow> linked h xs \<Longrightarrow> wrote p w \<Longrightarrow> 0 \<le> col \<Longrightarrow>
    col + int (length (concat (map xml_text ts))) \<le> SAVE_WRAP \<Longrightarrow>
    node_gives (mxml_write_node (saving save None putc h) (first xs) col p) (w @ concat (map xml_text ts)) (if ts = [] then col else 1)
      (col + int (length (concat (map xml_text ts))))"
proof (induction "length (concat (map xml_text ts))" arbitrary: xs ts p w col rule: less_induct)
  case less
  show ?case
  proof (cases ts)
    case Nil
    then show ?thesis using less.prems by (simp add: trees_at_def mxml_write_node.simps [of _ None] node_gives_def)
  next
    case (Cons t ts')
    obtain nm as sub where t: "t = Elem nm as sub" by (cases t)
    obtain x r where x: "xs = x # r" "tree_at h ch x t" "trees_at h ch r ts'" using less.prems(1) Cons by (auto simp: trees_at_Cons)
    obtain n where n: "cells h x = Some n" "n_type n = MXML_ELEMENT" "n_value n = VElement (Some nm) (map attr_rec as)"
      "trees_at h ch (ch x) sub" using x(2) t by (auto elim: tree_atD)
    have nx: "n_next n = first r" "linked h r" using linked_Cons [of h x r] less.prems(3) x(1) n(1) by auto
    have nc: "n_child n = first (ch x)" using forest_node [OF f n(1)] by (simp add: node_ok_def)
    have ok: "raw_name nm" "list_all (\<lambda>a. raw_name (fst a)) as" "list_all writable sub" "list_all writable ts'"
      using less.prems(2) Cons t by auto
    let ?E = "saving save None putc h" and ?o = "''<'' @ nm @ attrs_text as" and ?T = "concat (map xml_text ts')"
    let ?K = "concat (map xml_text sub)" and ?m = "col + int (length (concat (map xml_text ts)))"
    have rest: "node_gives (mxml_write_node ?E (first r) c q) ((w @ xml_text t) @ ?T) 1 ?m"
      if "wrote q (w @ xml_text t)" "1 \<le> c" "c \<le> col + int (length (xml_text t))" for c q
    proof -
      have "length ?T < length (concat (map xml_text ts))" using Cons t by simp
      then have "node_gives (mxml_write_node ?E (first r) c q) ((w @ xml_text t) @ ?T) (if ts' = [] then c else 1) (c + int (length ?T))"
        by (rule less.hyps [OF _ x(3) ok(4) nx(2) that(1)]) (use that less.prems(6) Cons in simp_all)
      then show ?thesis using that Cons by (auto simp: node_gives_def split: if_splits)
    qed
    have o: "col_gives (write_open putc SAVE_WRAP nm (map attr_rec as) col p) (w @ ?o) 1 (col + int (length ?o))"
      by (rule write_open_gives [OF less.prems(4) ok(1,2) less.prems(5)]) (use less.prems(5) less.prems(6) Cons t in simp_all)
    have go: "mxml_write_node ?E (first xs) col p = xbind (write_open putc SAVE_WRAP nm (map attr_rec as) col p) (\<lambda>(col, p).
         case first (ch x) of
           Some y \<Rightarrow> xbind (put_col putc ''>'' (col + 1) p) (\<lambda>(col, p).
                rbind (mxml_write_node ?E (Some y) col p) (\<lambda>(col, p).
                if col < 0 then Some (Ret (-1, p))
                else if starts ''!?'' nm then mxml_write_node ?E (first r) col p
                else xbind (write_close putc nm col p) (\<lambda>(col, p). mxml_write_node ?E (first r) col p)))
         | None \<Rightarrow> xbind (if starts ''!?'' nm then put_col putc ''>'' (col + 1) p else put_col putc '' />'' (col + 3) p)
             (\<lambda>(col, p). mxml_write_node ?E (first r) col p))"
      using x(1) n nx(1) nc
      by (cases "first (ch x)") (simp_all add: mxml_write_node.simps [of ?E "Some x"] rd_Some elem_def case_prod_beta' cong: if_cong)
    have ne: "ts \<noteq> []" using Cons by simp
    have goal: "(w @ xml_text t) @ ?T = w @ concat (map xml_text ts)" using Cons by simp
    show ?thesis
      unfolding go goal [symmetric] if_not_P [OF ne]
    proof (rule xbind_gives [OF o], unfold prod.case)
      fix c1 p1 assume 1: "wrote p1 (w @ ?o)" "1 \<le> c1" "c1 \<le> col + int (length ?o)"
      show "node_gives (case first (ch x) of
           Some y \<Rightarrow> xbind (put_col putc ''>'' (c1 + 1) p1) (\<lambda>(col, p).
                rbind (mxml_write_node ?E (Some y) col p) (\<lambda>(col, p).
                if col < 0 then Some (Ret (-1, p))
                else if starts ''!?'' nm then mxml_write_node ?E (first r) col p
                else xbind (write_close putc nm col p) (\<lambda>(col, p). mxml_write_node ?E (first r) col p)))
         | None \<Rightarrow> xbind (if starts ''!?'' nm then put_col putc ''>'' (c1 + 1) p1 else put_col putc '' />'' (c1 + 3) p1)
             (\<lambda>(col, p). mxml_write_node ?E (first r) col p)) ((w @ xml_text t) @ ?T) 1 ?m"
      proof (cases "first (ch x)")
        case None
        then have sub: "sub = []" using n(4) by (simp add: trees_at_def)
        let ?e = "if starts ''!?'' nm then ''>'' else '' />''"
        have "col_gives (if starts ''!?'' nm then put_col putc ''>'' (c1 + 1) p1 else put_col putc '' />'' (c1 + 3) p1)
            (w @ xml_text t) 1 (col + int (length (xml_text t)))"
          using put_col_gives [OF 1(1), of 1 "c1 + 1" "col + int (length (xml_text t))" "''>''"]
            put_col_gives [OF 1(1), of 1 "c1 + 3" "col + int (length (xml_text t))" "'' />''"] 1(2,3) t sub by (cases "starts ''!?'' nm") simp_all
        then show ?thesis unfolding None option.case by (rule xbind_gives) (use rest in simp)
      next
        case (Some y)
        then have sub: "sub \<noteq> []" using n(4) by (auto simp: trees_at_def)
        let ?s = "w @ ?o @ ''>''"
        have b: "int (length (xml_text t)) = int (length ?o) + 1 + int (length ?K) + int (length (if starts ''!?'' nm then [] else ''</'' @ escape nm @ ''>''))"
          using t sub by simp
        have "node_gives (xbind (put_col putc ''>'' (c1 + 1) p1) (\<lambda>(col, p).
                rbind (mxml_write_node ?E (Some y) col p) (\<lambda>(col, p).
                if col < 0 then Some (Ret (-1, p))
                else if starts ''!?'' nm then mxml_write_node ?E (first r) col p
                else xbind (write_close putc nm col p) (\<lambda>(col, p). mxml_write_node ?E (first r) col p)))) ((w @ xml_text t) @ ?T) 1 ?m"
        proof (rule xbind_gives [OF put_col_gives [OF 1(1) _ order_refl, where j = 1]], unfold prod.case)
          fix c2 p2 assume 2: "wrote p2 ((w @ ?o) @ ''>'')" "1 \<le> c2" "c2 \<le> c1 + 1"
          have lt: "length ?K < length (concat (map xml_text ts))" using Cons t sub by simp
          have "node_gives (mxml_write_node ?E (first (ch x)) c2 p2) (((w @ ?o) @ ''>'') @ ?K) (if sub = [] then c2 else 1) (c2 + int (length ?K))"
            by (rule less.hyps [OF lt n(4) ok(3) linked_children [OF f] 2(1)])
              (use 1(3) 2(2,3) less.prems(6) Cons t sub in simp_all)
          then show "node_gives (rbind (mxml_write_node ?E (Some y) c2 p2) (\<lambda>(col, p).
                if col < 0 then Some (Ret (-1, p))
                else if starts ''!?'' nm then mxml_write_node ?E (first r) col p
                else xbind (write_close putc nm col p) (\<lambda>(col, p). mxml_write_node ?E (first r) col p))) ((w @ xml_text t) @ ?T) 1 ?m"
            unfolding Some if_not_P [OF sub]
          proof (rule rbind_gives, unfold prod.case)
            fix c3 p3 assume 3: "wrote p3 (((w @ ?o) @ ''>'') @ ?K)" "1 \<le> c3" "c3 \<le> c2 + int (length ?K)"
            show "node_gives (if c3 < 0 then Some (Ret (-1, p3))
                else if starts ''!?'' nm then mxml_write_node ?E (first r) c3 p3
                else xbind (write_close putc nm c3 p3) (\<lambda>(col, p). mxml_write_node ?E (first r) col p)) ((w @ xml_text t) @ ?T) 1 ?m"
            proof (cases "starts ''!?'' nm")
              case True
              then show ?thesis using rest [of p3 c3] 1(3) 2(3) 3 b t sub by simp
            next
              case False
              have "col_gives (write_close putc nm c3 p3) ((((w @ ?o) @ ''>'') @ ?K) @ ''</'' @ escape nm @ ''>'') 1 (col + int (length (xml_text t)))"
                by (rule write_close_gives [OF 3(1)]) (use 3(2) 1(3) 2(3) 3(3) b False in simp_all)
              then have "node_gives (xbind (write_close putc nm c3 p3) (\<lambda>(col, p). mxml_write_node ?E (first r) col p)) ((w @ xml_text t) @ ?T) 1 ?m"
                by (rule xbind_gives) (use rest t sub False in simp)
              then show ?thesis using False 3(2) by simp
            qed
          qed
        qed (use 1(2) in simp)
        then show ?thesis using Some by simp
      qed
    qed
  qed
qed

end

section \<open>Strings and descriptors\<close>

lemma of_char_int: "0 \<le> (of_char c :: int)" "(of_char c :: int) < 256"
  using of_char_mod_256 [of c, where 'a = int] pos_mod_sign [of 256 "of_char c"] pos_mod_bound [of 256 "of_char c"] by simp_all

lemma byte_schar [simp]: "byte (schar c) = c"
proof -
  have "schar c mod 256 = of_char c" using of_char_int [of c] by (auto simp: schar_def)
  then show ?thesis by (simp add: byte_def)
qed

lemma utf8_schar [simp]: "utf8_bytes (schar c) = [c]" "schar c < 128"
proof -
  show "schar c < 128" using of_char_int [of c] by (auto simp: schar_def)
  then show "utf8_bytes (schar c) = [c]" by (simp add: utf8_bytes_def)
qed

text \<open>The caller's memory: the position counts all characters, what fits is stored.\<close>

definition in_buf :: "int \<Rightarrow> char list \<Rightarrow> sbuf \<Rightarrow> string \<Rightarrow> bool" where
  "in_buf sz mem b w \<longleftrightarrow> sb_pos b = int (length w) \<and> sb_end b = sz \<and> length (sb_mem b) = length mem \<and> sz \<le> int (length mem) \<and>
     (\<forall>i < length w. int i < sz \<longrightarrow> sb_mem b ! i = w ! i) \<and> drop (nat sz) (sb_mem b) = drop (nat sz) mem"

interpretation strs: sink mxml_string_putc "in_buf sz mem" for sz mem
proof
  fix p w c assume "in_buf sz mem p w"
  then show "\<exists>p'. mxml_string_putc (schar c) p = Ret (0, p') \<and> in_buf sz mem p' (w @ [c])"
    by (cases "int (length w) < sz") (auto simp: in_buf_def mxml_string_putc_def nth_append nth_list_update less_Suc_eq)
qed

text \<open>A descriptor whose calls of \<open>write\<close> succeed.\<close>

definition in_fd :: "fdsink \<Rightarrow> string \<Rightarrow> bool" where
  "in_fd f w \<longleftrightarrow> fd_io f = [] \<and> fd_out f @ fd_buf f = w"

interpretation fds: sink mxml_fd_putc in_fd
proof
  fix p w c assume p: "in_fd p w"
  have "write_all [] b out = (0, [], out @ b, [])" for b out by (cases b) simp_all
  then show "\<exists>p'. mxml_fd_putc (schar c) p = Ret (0, p') \<and> in_fd p' (w @ [c])"
    using p by (auto simp: in_fd_def mxml_fd_putc_def mxml_fd_write_def)
qed

text \<open>What \<open>mxmlSaveString\<close> writes: the text of the document and a line end, cut off where the memory ends.\<close>

definition doc_text :: "xtree \<Rightarrow> string" where
  "doc_text t = xml_text t @ [NL]"

definition holds_text :: "int \<Rightarrow> char list \<Rightarrow> string \<Rightarrow> bool" where
  "holds_text sz m w \<longleftrightarrow> (let n = min (nat sz - 1) (length w) in n < length m \<and> take n m = take n w \<and> m ! n = NUL)"

lemma SaveString_text:
  assumes f: "forest (cells h) ch" and t: "tree_at h ch x t" "writable t" "length (xml_text t) \<le> nat SAVE_WRAP"
    and x: "cells h x = Some n" "n_next n = None" and sz: "0 < sz" "sz \<le> int (length buffer)"
  shows "\<exists>m. mxmlSaveString save (Some x) buffer sz None h = Some (Ret (int (length (doc_text t)), m)) \<and>
    length m = length buffer \<and> holds_text sz m (doc_text t) \<and> drop (nat sz) m = drop (nat sz) buffer"
proof -
  let ?b = "\<lparr>sb_mem = buffer, sb_pos = 0, sb_end = sz\<rparr>"
  have "strs.node_gives sz buffer (mxml_write_node (saving save None mxml_string_putc h) (first [x]) 0 ?b)
      ([] @ concat (map xml_text [t])) (if [t] = [] then 0 else 1) (0 + int (length (concat (map xml_text [t]))))"
    by (rule strs.write_trees_gives [OF f]) (use t x sz in \<open>simp_all add: trees_at_def linked_def in_buf_def Cons_eq_append_conv SAVE_WRAP_def\<close>)
  then obtain col p where p: "mxml_write_node (saving save None mxml_string_putc h) (Some x) 0 ?b = Some (Ret (col, p))"
    "in_buf sz buffer p (xml_text t)" "1 \<le> col"
    by (auto simp: strs.node_gives_def)
  obtain p' where p': "mxml_string_putc (schar NL) p = Ret (0, p')" "in_buf sz buffer p' (doc_text t)"
    using strs.putc_wrote [OF p(2), of NL] by (auto simp: doc_text_def)
  let ?i = "if sb_pos p' \<ge> sb_end p' then sz - 1 else sb_pos p'"
  have i: "?i = int (min (nat sz - 1) (length (doc_text t)))" "min (nat sz - 1) (length (doc_text t)) < length buffer"
    using p'(2) sz by (auto simp: in_buf_def)
  have "mxmlSaveString save (Some x) buffer sz None h
      = Some (Ret (int (length (doc_text t)), (sb_mem p')[min (nat sz - 1) (length (doc_text t)) := NUL]))"
    using p(1,3) p' i by (simp add: mxmlSaveString_def finish_line_def in_buf_def)
  moreover have "holds_text sz ((sb_mem p')[min (nat sz - 1) (length (doc_text t)) := NUL]) (doc_text t)"
    using p'(2) i(2) sz by (auto simp: holds_text_def in_buf_def Let_def intro!: nth_equalityI)
  moreover have "drop (nat sz) ((sb_mem p')[min (nat sz - 1) (length (doc_text t)) := NUL]) = drop (nat sz) buffer"
    using p'(2) sz by (simp add: in_buf_def drop_update_cancel)
  ultimately show ?thesis using p'(2) by (auto simp: in_buf_def)
qed

end
