(* ===== verification/MxmlRead.thy ===== *)
theory MxmlRead
  imports MxmlSave
begin

text \<open>
  Reading characters: the sources, the string buffer and the scanning loops of \<open>src/dev/src/pubfun/xml/mxml-file.c\<close>.

  A source is its function \<open>getc\<close> on an \<open>rdr\<close>, which holds the rest of the input, the encoding and the node heap (for its
  messages). The three of the source are strings (the bytes from the current position to the end of the memory, the
  terminator included), files, and descriptors with their buffer. The file exists twice, as \<open>mxml-file.c\<close>, which is built, and
  as \<open>mxml-file-utf8.c\<close>; they differ in four conditions. \<open>multi\<close> is true for the second: bytes from 128 on start a
  character of several bytes there, and are characters of their own in the first.
\<close>

section \<open>Definitions\<close>

abbreviation EOF :: int where "EOF \<equiv> -1"

definition ENCODE_UTF8 :: int where "ENCODE_UTF8 = 0"
definition ENCODE_UTF16BE :: int where "ENCODE_UTF16BE = 1"
definition ENCODE_UTF16LE :: int where "ENCODE_UTF16LE = 2"

definition mxml_bad_char :: "int \<Rightarrow> bool" where
  "mxml_bad_char ch \<longleftrightarrow> ch < 32 \<and> ch \<noteq> 10 \<and> ch \<noteq> 13 \<and> ch \<noteq> 9"

definition mxml_isspace :: "int \<Rightarrow> bool" where
  "mxml_isspace ch \<longleftrightarrow> ch = 32 \<or> ch = 9 \<or> ch = 13 \<or> ch = 10"

record 'p rdr =
  r_src :: 'p
  r_enc :: int
  r_heap :: xheap

type_synonym 'p getc = "'p rdr \<Rightarrow> (int \<times> 'p rdr) cres"

definition report :: "string \<Rightarrow> 'p rdr \<Rightarrow> 'p rdr" where
  "report msg r = r\<lparr>r_heap := mxml_error msg (r_heap r)\<rparr>"

text \<open>\<open>0x%02x\<close> of an \<open>int\<close>.\<close>

fun show_hex :: "nat \<Rightarrow> string" where
  "show_hex n = (if n < 16 then [''0123456789abcdef'' ! n] else show_hex (n div 16) @ [''0123456789abcdef'' ! (n mod 16)])"

declare show_hex.simps [simp del]

definition hex2 :: "int \<Rightarrow> string" where
  "hex2 ch = (let s = show_hex (nat (ch mod 2 ^ 32)) in replicate (2 - length s) (CHR ''0'') @ s)"

definition bad_char_msg :: "int \<Rightarrow> string" where
  "bad_char_msg ch = ''Bad control character 0x'' @ hex2 ch @ '' not allowed by XML standard!''"

text \<open>A character that is returned, unless it is a forbidden control character.\<close>

definition checked :: "int \<Rightarrow> 'p rdr \<Rightarrow> int \<times> 'p rdr" where
  "checked ch r = (if mxml_bad_char ch then (EOF, report (bad_char_msg ch) r) else (ch, r))"

definition surrogate :: "int \<Rightarrow> int \<Rightarrow> int" where
  "surrogate ch lch = (if lch < 0xdc00 \<or> lch \<ge> 0xdfff then EOF else ch mod 1024 * 1024 + lch mod 1024 + 0x10000)"

subsection \<open>Strings\<close>

definition peek :: "string \<Rightarrow> nat \<Rightarrow> int cres" where
  "peek s i = (if i < length s then Ret (of_char (s ! i)) else Crash OutOfBounds)"

definition skip :: "nat \<Rightarrow> string rdr \<Rightarrow> string rdr" where
  "skip n r = r\<lparr>r_src := drop n (r_src r)\<rparr>"

text \<open>The continuation bytes of a character, tested from the left (the next is read only when the last one was right).\<close>

fun peek_cont :: "nat \<Rightarrow> string \<Rightarrow> int \<Rightarrow> int option cres" where
  "peek_cont 0 s ch = Ret (Some ch)"
| "peek_cont (Suc n) s ch = cbind (peek s 0) (\<lambda>b. if b div 64 \<noteq> 2 then Ret None else peek_cont n (drop 1 s) (ch * 64 + b mod 64))"

definition string_multi :: "nat \<Rightarrow> int \<Rightarrow> int \<Rightarrow> string rdr \<Rightarrow> (int \<times> string rdr) cres" where
  "string_multi n ch least r =
     cbind (peek_cont n (r_src r) ch) (\<lambda>c.
       case c of None \<Rightarrow> Ret (EOF, r) | Some ch \<Rightarrow> Ret (if ch < least then EOF else ch, skip n r))"

text \<open>The branches of the two-byte encodings, \<open>ch\<close> is the byte at the position.\<close>

definition string_getc16 :: "string getc" where
  "string_getc16 r =
     cbind (peek (r_src r) 0) (\<lambda>ch.
     if ch = 0 \<and> r_enc r \<noteq> ENCODE_UTF16LE then Ret (EOF, r)
     else cbind (peek (r_src r) 1) (\<lambda>b.
       if r_enc r = ENCODE_UTF16BE then
         let ch = ch * 256 + b; r = skip 2 r
         in if mxml_bad_char ch then Ret (checked ch r)
            else if ch \<ge> 0xd800 \<and> ch \<le> 0xdbff then
              cbind (peek (r_src r) 0) (\<lambda>c.
              if c = 0 then Ret (EOF, r)
              else cbind (peek (r_src r) 1) (\<lambda>d. Ret (surrogate ch (c * 256 + d), skip 2 r)))
            else Ret (ch, r)
       else
         let ch = ch + b * 256
         in if ch = 0 then Ret (EOF, r)
            else let r = skip 2 r
              in if mxml_bad_char ch then Ret (checked ch r)
                 else if ch \<ge> 0xd800 \<and> ch \<le> 0xdbff then
                   cbind (peek (r_src r) 1) (\<lambda>d.
                   if d = 0 then Ret (EOF, r)
                   else cbind (peek (r_src r) 0) (\<lambda>c. Ret (surrogate ch (d * 256 + c), skip 2 r)))
                 else Ret (ch, r)))"

definition string_getc :: "bool \<Rightarrow> string getc" where
  "string_getc multi r =
     (if r_enc r \<noteq> ENCODE_UTF8 then string_getc16 r
      else cbind (peek (r_src r) 0) (\<lambda>ch.
        if ch = 0 then Ret (EOF, r)
        else let r = skip 1 r
          in if \<not> multi \<or> ch < 128 then Ret (checked ch r)
             else if ch = 0xfe then
               cbind (peek (r_src r) 0) (\<lambda>b.
               if b \<noteq> 0xff then Ret (EOF, r) else string_getc16 ((skip 1 r)\<lparr>r_enc := ENCODE_UTF16BE\<rparr>))
             else if ch = 0xff then
               cbind (peek (r_src r) 0) (\<lambda>b.
               if b \<noteq> 0xfe then Ret (EOF, r) else string_getc16 ((skip 1 r)\<lparr>r_enc := ENCODE_UTF16LE\<rparr>))
             else if ch div 32 = 6 then string_multi 1 (ch mod 32) 0x80 r
             else if ch div 16 = 14 then string_multi 2 (ch mod 16) 0x800 r
             else if ch div 8 = 30 then string_multi 3 (ch mod 8) 0x10000 r
             else Ret (EOF, r)))"

definition mxml_string_getc :: "string getc" where
  "mxml_string_getc = string_getc False"

definition mxml_string_getc_utf8 :: "string getc" where
  "mxml_string_getc_utf8 = string_getc True"

subsection \<open>Files and descriptors\<close>

text \<open>\<open>nextb\<close> gives the next byte or \<open>EOF\<close>.\<close>

type_synonym 'p nextb = "'p \<Rightarrow> int \<times> 'p"

definition rnext :: "'p nextb \<Rightarrow> 'p rdr \<Rightarrow> int \<times> 'p rdr" where
  "rnext nextb r = (let (b, s) = nextb (r_src r) in (b, r\<lparr>r_src := s\<rparr>))"

fun read_cont :: "'p nextb \<Rightarrow> nat \<Rightarrow> int \<Rightarrow> 'p rdr \<Rightarrow> int \<times> 'p rdr" where
  "read_cont nextb 0 ch r = (ch, r)"
| "read_cont nextb (Suc n) ch r =
     (let (b, r) = rnext nextb r in if b = EOF \<or> b div 64 \<noteq> 2 then (EOF, r) else read_cont nextb n (ch * 64 + b mod 64) r)"

definition read_multi :: "'p nextb \<Rightarrow> nat \<Rightarrow> int \<Rightarrow> int \<Rightarrow> 'p rdr \<Rightarrow> int \<times> 'p rdr" where
  "read_multi nextb n ch least r = (let (c, r) = read_cont nextb n ch r in (if c < least then EOF else c, r))"

text \<open>
  The second byte of a two-byte character. A descriptor tests for the end of the input (\<open>stops\<close>); a file goes on with the
  value -1, and \<open>(-1 << 8) | b\<close>, \<open>ch | (-1 << 8)\<close> are negative.
\<close>

definition pair :: "bool \<Rightarrow> int \<Rightarrow> int \<Rightarrow> int" where
  "pair be a b = (if a < 0 \<or> b < 0 then (if be then (if b < 0 then -1 else b - 256) else (if a < 0 then -1 else a - 256))
                  else if be then a * 256 + b else a + b * 256)"

definition read_getc16 :: "bool \<Rightarrow> 'p nextb \<Rightarrow> int \<Rightarrow> 'p rdr \<Rightarrow> int \<times> 'p rdr" where
  "read_getc16 stops nextb ch r =
     (let (b, r) = rnext nextb r
      in if stops \<and> b = EOF then (EOF, r)
         else let be = (r_enc r = ENCODE_UTF16BE); ch = pair be ch b
           in if mxml_bad_char ch then checked ch r
              else if ch \<ge> 0xd800 \<and> ch \<le> 0xdbff then
                let (c, r) = rnext nextb r
                in if stops \<and> c = EOF then (EOF, r)
                   else let (d, r) = rnext nextb r
                        in if stops \<and> d = EOF then (EOF, r) else (surrogate ch (pair be c d), r)
              else (ch, r))"

definition read_getc :: "bool \<Rightarrow> bool \<Rightarrow> 'p nextb \<Rightarrow> 'p rdr \<Rightarrow> int \<times> 'p rdr" where
  "read_getc multi stops nextb r =
     (let (ch, r) = rnext nextb r
      in if ch = EOF then (EOF, r)
         else if r_enc r \<noteq> ENCODE_UTF8 then read_getc16 stops nextb ch r
         else if \<not> multi \<or> ch < 128 then checked ch r
         else if ch = 0xfe \<or> ch = 0xff then
           let (b, r) = rnext nextb r
           in if b \<noteq> (if ch = 0xfe then 0xff else 0xfe) then (EOF, r)
              else let r = r\<lparr>r_enc := if ch = 0xfe then ENCODE_UTF16BE else ENCODE_UTF16LE\<rparr>; (ch, r) = rnext nextb r
                   in if ch = EOF then (EOF, r) else read_getc16 stops nextb ch r
         else if ch div 32 = 6 then read_multi nextb 1 (ch mod 32) 0x80 r
         else if ch div 16 = 14 then read_multi nextb 2 (ch mod 16) 0x800 r
         else if ch div 8 = 30 then read_multi nextb 3 (ch mod 8) 0x10000 r
         else (EOF, r))"

fun file_next :: "string nextb" where
  "file_next [] = (EOF, [])"
| "file_next (c # s) = (of_char c, s)"

definition mxml_file_getc :: "string getc" where
  "mxml_file_getc r = Ret (read_getc False False file_next r)"

definition mxml_file_getc_utf8 :: "string getc" where
  "mxml_file_getc_utf8 r = Ret (read_getc True False file_next r)"

text \<open>The results of the calls of \<open>read\<close>: bytes (at most 8192 at a time, none at the end), a signal, or another error.\<close>

datatype fdread = Bytes string | Again | Fails

record fdsrc =
  fd_cur :: string
  fd_reads :: "fdread list"

fun mxml_fd_read :: "fdread list \<Rightarrow> string option \<times> fdread list" where
  "mxml_fd_read [] = (None, [])"
| "mxml_fd_read (Again # rs) = mxml_fd_read rs"
| "mxml_fd_read (Fails # rs) = (None, rs)"
| "mxml_fd_read (Bytes b # rs) =
     (if b = [] then None else Some (take 8192 b), if length b > 8192 then Bytes (drop 8192 b) # rs else rs)"

definition fd_next :: "fdsrc nextb" where
  "fd_next f =
     (case fd_cur f of c # s \<Rightarrow> (of_char c, f\<lparr>fd_cur := s\<rparr>)
      | [] \<Rightarrow> (case mxml_fd_read (fd_reads f) of
          (Some (c # s), rs) \<Rightarrow> (of_char c, \<lparr>fd_cur = s, fd_reads = rs\<rparr>)
        | (_, rs) \<Rightarrow> (EOF, f\<lparr>fd_reads := rs\<rparr>)))"

definition mxml_fd_getc :: "fdsrc getc" where
  "mxml_fd_getc r = Ret (read_getc False True fd_next r)"

definition mxml_fd_getc_utf8 :: "fdsrc getc" where
  "mxml_fd_getc_utf8 r = Ret (read_getc True True fd_next r)"

subsection \<open>The string buffer and the scanning loops\<close>

text \<open>
  A buffer that was allocated: its text and its size. \<open>mxml_add_char\<close> gives \<open>None\<close> when the buffer could not grow; it has been
  freed then.
\<close>

record strbuf =
  b_text :: string
  b_size :: nat

definition new_buf :: strbuf where
  "new_buf = \<lparr>b_text = [], b_size = 64\<rparr>"

definition put_bytes :: "string \<Rightarrow> strbuf \<Rightarrow> strbuf" where
  "put_bytes s b = b\<lparr>b_text := b_text b @ s\<rparr>"

definition add_char :: "bool \<Rightarrow> int \<Rightarrow> strbuf \<Rightarrow> xheap \<Rightarrow> strbuf option \<times> xheap" where
  "add_char multi ch b h =
     (let grow = (length (b_text b) + 4 \<ge> b_size b);
          size = (if b_size b < 1024 then 2 * b_size b else b_size b + 1024);
          (ok, h) = (if grow then granted h else (True, h));
          bytes = (if ch < 128 \<or> \<not> multi \<and> ch div 128 mod 2 = 1 then [byte ch] else utf8_bytes ch)
      in if \<not> ok then (None, mxml_error (''Unable to expand string buffer to '' @ show_nat size @ '' bytes!'') h)
         else (Some (put_bytes bytes (if grow then b\<lparr>b_size := size\<rparr> else b)), h))"

definition mxml_add_char :: "int \<Rightarrow> strbuf \<Rightarrow> xheap \<Rightarrow> strbuf option \<times> xheap" where
  "mxml_add_char = add_char False"

definition mxml_add_char_utf8 :: "int \<Rightarrow> strbuf \<Rightarrow> xheap \<Rightarrow> strbuf option \<times> xheap" where
  "mxml_add_char_utf8 = add_char True"

text \<open>
  What the reader takes from outside: the source's function, the build, the value of a named entity, \<open>strtod\<close> (the bits of
  the double and the text behind it), and the callbacks for the type of values, for SAX and for custom nodes, if set.
\<close>

datatype sax_event = SAX_CDATA | SAX_COMMENT | SAX_DATA | SAX_DIRECTIVE | SAX_ELEMENT_CLOSE | SAX_ELEMENT_OPEN

record 'p lenv =
  e_getc :: "'p getc"
  e_multi :: bool
  e_entity :: "string \<Rightarrow> int"
  e_strtod :: "string \<Rightarrow> int \<times> string"
  e_type :: "(nat \<Rightarrow> xheap \<Rightarrow> mxml_type) option"
  e_sax :: "(nat option \<Rightarrow> sax_event \<Rightarrow> xheap \<Rightarrow> xheap cres) option"
  e_custom :: "(nat option \<Rightarrow> string \<Rightarrow> xheap \<Rightarrow> (int \<times> xheap) cres) option"

text \<open>\<open>parent ? parent->value.element.name : "null"\<close> as the argument of \<open>%s\<close>.\<close>

definition name_of :: "string \<Rightarrow> nat option \<Rightarrow> xheap \<Rightarrow> string cres" where
  "name_of null node h =
     (case node of None \<Rightarrow> Ret null
      | Some x \<Rightarrow> cbind (rd h x) (\<lambda>n. cbind (elem n) (\<lambda>(en, _). Ret (case en of None \<Rightarrow> ''(null)'' | Some s \<Rightarrow> s))))"

text \<open>A message with the name of a node, and a result.\<close>

definition blame :: "string \<Rightarrow> nat option \<Rightarrow> (string \<Rightarrow> string) \<Rightarrow> 'a \<Rightarrow> 'p rdr \<Rightarrow> ('a \<times> 'p rdr) crun" where
  "blame null node msg a r = Some (cbind (name_of null node (r_heap r)) (\<lambda>s. Ret (a, report (msg s) r)))"

definition isalnum :: "int \<Rightarrow> bool" where
  "isalnum ch \<longleftrightarrow> 48 \<le> ch \<and> ch \<le> 57 \<or> 65 \<le> ch \<and> ch \<le> 90 \<or> 97 \<le> ch \<and> ch \<le> 122"

definition hex_digit :: "char \<Rightarrow> int option" where
  "hex_digit c = (let n = (of_char c :: int) in
     if 48 \<le> n \<and> n \<le> 57 then Some (n - 48) else if 65 \<le> n \<and> n \<le> 70 then Some (n - 55)
     else if 97 \<le> n \<and> n \<le> 102 then Some (n - 87) else None)"

fun hex_val :: "int \<Rightarrow> string \<Rightarrow> int" where
  "hex_val a [] = a"
| "hex_val a (c # s) = (case hex_digit c of None \<Rightarrow> a | Some d \<Rightarrow> hex_val (16 * a + d) s)"

text \<open>\<open>strtol(s, NULL, 16)\<close> of a text without blanks and signs, converted to \<open>int\<close>.\<close>

definition strtol16 :: "string \<Rightarrow> int" where
  "strtol16 s =
     i32 (min (2 ^ 63 - 1) (case s of
       a # x # c # r \<Rightarrow> if a = CHR ''0'' \<and> (x = CHR ''x'' \<or> x = CHR ''X'') \<and> hex_digit c \<noteq> None then hex_val 0 (c # r) else hex_val 0 s
     | _ \<Rightarrow> hex_val 0 s))"

text \<open>The loop over the name of an entity: the character that ended it, and the name.\<close>

partial_function (option) entity_loop :: "'p lenv \<Rightarrow> nat option \<Rightarrow> string \<Rightarrow> 'p rdr \<Rightarrow> ((int \<times> string) \<times> 'p rdr) crun" where
  "entity_loop E node acc r =
     rbind (Some (e_getc E r)) (\<lambda>(ch, r).
       if ch = EOF \<or> ch > 126 \<or> (\<not> isalnum ch \<and> ch \<noteq> 35) then Some (Ret ((ch, acc), r))
       else if length acc < 63 then entity_loop E node (acc @ [byte ch]) r
       else blame ''null'' node (\<lambda>s. ''Entity name too long under parent <'' @ s @ ''>!'') (ch, acc) r)"

declare entity_loop.simps [code]

definition entity_code :: "'p lenv \<Rightarrow> string \<Rightarrow> int" where
  "entity_code E s =
     (case s of c # r \<Rightarrow>
        if c = CHR ''#'' then (case r of x # t \<Rightarrow> if x = CHR ''x'' then strtol16 t else atoi r | [] \<Rightarrow> atoi r)
        else e_entity E s
      | [] \<Rightarrow> e_entity E s)"

definition mxml_get_entity :: "'p lenv \<Rightarrow> nat option \<Rightarrow> 'p rdr \<Rightarrow> (int \<times> 'p rdr) crun" where
  "mxml_get_entity E node r =
     rbind (entity_loop E node [] r) (\<lambda>((ch, entity), r).
       if ch \<noteq> 59 then
         blame ''null'' node (\<lambda>s. ''Character entity '' @ [CHR 0x22] @ entity @ [CHR 0x22] @ '' not terminated under parent <'' @ s @ ''>!'') EOF r
       else let ch = entity_code E entity
         in rbind (if \<not> starts ''#'' entity \<and> ch < 0
                   then blame ''null'' node (\<lambda>s. ''Entity name '' @ [CHR 0x22] @ entity @ '';'' @ [CHR 0x22] @ '' not supported under parent <'' @ s @ ''>!'') () r
                   else Some (Ret ((), r))) (\<lambda>(_, r).
            if mxml_bad_char ch then
              blame ''null'' node (\<lambda>s. ''Bad control character 0x'' @ hex2 ch @ '' under parent <'' @ s @ ''> not allowed by XML standard!'') EOF r
            else Some (Ret (ch, r))))"

text \<open>
  The result of a loop that fills a buffer: it ended with a character (\<open>EOF\<close> at the end of the input), or with \<open>goto error\<close>;
  then the buffer may have been freed.
\<close>

datatype got = Got int strbuf | Bad "strbuf option"

definition take_char :: "'p lenv \<Rightarrow> bool \<Rightarrow> nat option \<Rightarrow> int \<Rightarrow> strbuf \<Rightarrow> 'p rdr \<Rightarrow> (got \<times> 'p rdr) crun" where
  "take_char E ents node ch b r =
     rbind (if ents \<and> ch = 38 then mxml_get_entity E node r else Some (Ret (ch, r))) (\<lambda>(c, r).
       if ents \<and> ch = 38 \<and> c = EOF then Some (Ret (Bad (Some b), r))
       else let (b', h) = add_char (e_multi E) c b (r_heap r); r = r\<lparr>r_heap := h\<rparr>
            in case b' of None \<Rightarrow> Some (Ret (Bad None, r)) | Some b' \<Rightarrow> Some (Ret (Got c b', r)))"

text \<open>
  Read and add characters: \<open>halt\<close> ends the loop before a character is added, \<open>ents\<close> says that entities are decoded, \<open>fin\<close>
  ends it after a character was added (its first argument: the character came from an entity).
\<close>

partial_function (option) gather ::
  "'p lenv \<Rightarrow> (int \<Rightarrow> string \<Rightarrow> bool) \<Rightarrow> bool \<Rightarrow> (bool \<Rightarrow> int \<Rightarrow> string \<Rightarrow> bool) \<Rightarrow> nat option \<Rightarrow> strbuf \<Rightarrow> 'p rdr \<Rightarrow> (got \<times> 'p rdr) crun" where
  "gather E halt ents fin node b r =
     rbind (Some (e_getc E r)) (\<lambda>(ch, r).
       if ch = EOF \<or> halt ch (b_text b) then Some (Ret (Got ch b, r))
       else rbind (take_char E ents node ch b r) (\<lambda>(g, r).
         case g of Bad b \<Rightarrow> Some (Ret (Bad b, r))
         | Got c b \<Rightarrow> if fin (ents \<and> ch = 38) c (b_text b) then Some (Ret (Got c b, r))
                      else gather E halt ents fin node b r))"

declare gather.simps [code]

abbreviation never :: "bool \<Rightarrow> int \<Rightarrow> string \<Rightarrow> bool" where
  "never \<equiv> \<lambda>_ _ _. False"

text \<open>The loops that only skip characters.\<close>

partial_function (option) skip_while :: "'p lenv \<Rightarrow> (int \<Rightarrow> bool) \<Rightarrow> 'p rdr \<Rightarrow> (int \<times> 'p rdr) crun" where
  "skip_while E P r =
     rbind (Some (e_getc E r)) (\<lambda>(ch, r). if ch \<noteq> EOF \<and> P ch then skip_while E P r else Some (Ret (ch, r)))"

declare skip_while.simps [code]

end
