(* ===== verification/MxmlLoad.thy ===== *)
theory MxmlLoad
  imports MxmlRead MxmlSearch
begin

text \<open>
  Loading a tree: \<open>mxml_parse_element\<close>, \<open>mxml_load_data\<close> and the functions \<open>mxmlLoad...\<close>, \<open>mxmlSAXLoad...\<close> of
  \<open>src/dev/src/pubfun/xml/mxml-file.c\<close>. The loop of \<open>mxml_load_data\<close> is cut into its turns: a turn is \<open>load_char\<close>, on the local variables
  \<open>lst\<close>; it goes on (\<open>More\<close>), leaves the loop (\<open>Stop\<close>), or jumps to the label \<open>error\<close> (\<open>Fail\<close>). There the string buffer is
  freed; after a buffer that could not grow this is the second time, the fault \<open>UseAfterFree\<close>.
\<close>

section \<open>Definitions\<close>

subsection \<open>Attributes\<close>

definition expected_end :: "int \<Rightarrow> int \<Rightarrow> string \<Rightarrow> string" where
  "expected_end ch q s =
     ''Expected '' @ [CHR 0x27, CHR ''>'', CHR 0x27] @ '' after '' @ [CHR 0x27, byte ch, CHR 0x27] @ '' for element '' @ s
       @ '', but got '' @ [CHR 0x27, byte q, CHR 0x27] @ ''!''"

text \<open>The character behind \<open>/\<close> or \<open>?\<close> has to be \<open>>\<close>.\<close>

definition end_tag :: "'p lenv \<Rightarrow> nat \<Rightarrow> int \<Rightarrow> 'p rdr \<Rightarrow> (int \<times> 'p rdr) crun" where
  "end_tag E x ch r =
     rbind (Some (e_getc E r)) (\<lambda>(q, r). if q \<noteq> 62 then blame ''null'' (Some x) (expected_end ch q) EOF r else Some (Ret (ch, r)))"

text \<open>\<open>free(name); free(value); return (EOF);\<close>\<close>

definition parse_error :: "strbuf option \<Rightarrow> 'p rdr \<Rightarrow> (int \<times> 'p rdr) crun" where
  "parse_error b r = (case b of None \<Rightarrow> Some (Crash UseAfterFree) | Some _ \<Rightarrow> Some (Ret (EOF, r)))"

definition attr_name :: "'p lenv \<Rightarrow> nat \<Rightarrow> int \<Rightarrow> strbuf \<Rightarrow> 'p rdr \<Rightarrow> (got \<times> 'p rdr) crun" where
  "attr_name E x ch b r =
     (let b = b\<lparr>b_text := [byte ch]\<rparr>
      in if ch = 34 \<or> ch = 39 then gather E (\<lambda>_ _. False) True (\<lambda>_ c _. c = ch) (Some x) b r
         else gather E (\<lambda>c _. mxml_isspace c \<or> c = 61 \<or> c = 47 \<or> c = 62 \<or> c = 63) True never (Some x) b r)"

definition attr_value :: "'p lenv \<Rightarrow> nat \<Rightarrow> int \<Rightarrow> strbuf \<Rightarrow> 'p rdr \<Rightarrow> (got \<times> 'p rdr) crun" where
  "attr_value E x ch b r =
     (if ch = 34 \<or> ch = 39 then gather E (\<lambda>c _. c = ch) True never (Some x) (b\<lparr>b_text := []\<rparr>) r
      else gather E (\<lambda>c _. mxml_isspace c \<or> c = 61 \<or> c = 47 \<or> c = 62) True never (Some x) (b\<lparr>b_text := [byte ch]\<rparr>) r)"

definition missing_value :: "string \<Rightarrow> string \<Rightarrow> string" where
  "missing_value name s = ''Missing value for attribute '' @ [CHR 0x27] @ name @ [CHR 0x27] @ '' in element '' @ s @ ''!''"

partial_function (option) attr_loop :: "'p lenv \<Rightarrow> nat \<Rightarrow> strbuf \<Rightarrow> strbuf \<Rightarrow> 'p rdr \<Rightarrow> (int \<times> 'p rdr) crun" where
  "attr_loop E x name val r =
     rbind (Some (e_getc E r)) (\<lambda>(ch, r).
       if ch = EOF then Some (Ret (EOF, r))
       else if mxml_isspace ch then attr_loop E x name val r
       else if ch = 47 \<or> ch = 63 then end_tag E x ch r
       else if ch = 60 then blame ''null'' (Some x) (\<lambda>s. ''Bare < in element '' @ s @ ''!'') EOF r
       else if ch = 62 then Some (Ret (ch, r))
       else rbind (attr_name E x ch name r) (\<lambda>(g, r).
         case g of Bad b \<Rightarrow> parse_error b r
         | Got ch name \<Rightarrow>
             rbind (Some (mxmlElementGetAttr (Some x) (Some (b_text name)) (r_heap r))) (\<lambda>old.
             if old \<noteq> None then Some (Ret (EOF, r))
             else rbind (if ch \<noteq> EOF \<and> mxml_isspace ch then skip_while E mxml_isspace r else Some (Ret (ch, r))) (\<lambda>(ch, r).
               if ch \<noteq> 61 then blame ''null'' (Some x) (missing_value (b_text name)) EOF r
               else rbind (skip_while E mxml_isspace r) (\<lambda>(ch, r).
                 if ch = EOF then blame ''null'' (Some x) (missing_value (b_text name)) EOF r
                 else rbind (attr_value E x ch val r) (\<lambda>(g, r).
                   case g of Bad b \<Rightarrow> parse_error b r
                   | Got ch val \<Rightarrow>
                       rbind (Some (mxmlElementSetAttr (Some x) (Some (b_text name)) (Some (b_text val)) (r_heap r))) (\<lambda>h.
                       if ch = 47 \<or> ch = 63 then end_tag E x ch (r\<lparr>r_heap := h\<rparr>)
                       else if ch = 62 then Some (Ret (ch, r\<lparr>r_heap := h\<rparr>))
                       else attr_loop E x name val (r\<lparr>r_heap := h\<rparr>))))))))"

declare attr_loop.simps [code]

definition mxml_parse_element :: "'p lenv \<Rightarrow> nat \<Rightarrow> 'p rdr \<Rightarrow> (int \<times> 'p rdr) crun" where
  "mxml_parse_element E x r =
     (let (ok, h) = granted (r_heap r); r = r\<lparr>r_heap := h\<rparr>
      in if \<not> ok then Some (Ret (EOF, report ''Unable to allocate memory for name!'' r))
         else let (ok, h) = granted (r_heap r); r = r\<lparr>r_heap := h\<rparr>
              in if \<not> ok then Some (Ret (EOF, report ''Unable to allocate memory for value!'' r))
                 else attr_loop E x new_buf new_buf r)"

subsection \<open>Values\<close>

fun read_digits :: "int \<Rightarrow> int \<Rightarrow> string \<Rightarrow> int \<times> string" where
  "read_digits base a [] = (a, [])"
| "read_digits base a (c # s) =
     (case hex_digit c of Some d \<Rightarrow> if d < base then read_digits base (base * a + d) s else (a, c # s) | None \<Rightarrow> (a, c # s))"

definition is_digit_in :: "int \<Rightarrow> string \<Rightarrow> bool" where
  "is_digit_in base s = (case s of [] \<Rightarrow> False | c # _ \<Rightarrow> (case hex_digit c of None \<Rightarrow> False | Some d \<Rightarrow> d < base))"

text \<open>\<open>strtol(s, &end, 0)\<close>\<close>

definition strtol0 :: "string \<Rightarrow> int \<times> string" where
  "strtol0 s =
     (let t = dropWhile isspace s; neg = starts ''-'' t; u = (if starts ''+-'' t then tl t else t);
          hex = (starts ''0'' u \<and> starts ''xX'' (tl u) \<and> is_digit_in 16 (drop 2 u));
          base = (if hex then 16 else if starts ''0'' u then 8 else 10); v = (if hex then drop 2 u else u);
          (n, rest) = read_digits base 0 v; n = (if neg then - n else n)
      in if is_digit_in base v then (max (- (2 ^ 63)) (min (2 ^ 63 - 1) n), rest) else (0, s))"

fun type_name :: "mxml_type \<Rightarrow> string" where
  "type_name MXML_ELEMENT = ''MXML_ELEMENT''"
| "type_name MXML_INTEGER = ''MXML_INTEGER''"
| "type_name MXML_OPAQUE = ''MXML_OPAQUE''"
| "type_name MXML_REAL = ''MXML_REAL''"
| "type_name MXML_TEXT = ''MXML_TEXT''"
| "type_name MXML_CUSTOM = ''MXML_CUSTOM''"
| "type_name MXML_IGNORE = []"

record 'p lst =
  l_r :: "'p rdr"
  l_buf :: strbuf
  l_first :: "nat option"
  l_parent :: "nat option"
  l_ws :: int
  l_type :: mxml_type

datatype 'p step = More "'p lst" | Stop "'p lst" | Fail "nat option" "strbuf option" "'p rdr"

definition l_heap :: "'p lst \<Rightarrow> xheap" where
  "l_heap s = r_heap (l_r s)"

definition with_heap :: "xheap \<Rightarrow> 'p lst \<Rightarrow> 'p lst" where
  "with_heap h s = s\<lparr>l_r := (l_r s)\<lparr>r_heap := h\<rparr>\<rparr>"

definition fail_with :: "'p lst \<Rightarrow> 'p step" where
  "fail_with s = Fail (l_first s) (Some (l_buf s)) (l_r s)"

text \<open>A message that names the parent, then \<open>goto error\<close>.\<close>

definition fail_blame :: "string \<Rightarrow> (string \<Rightarrow> string) \<Rightarrow> 'p lst \<Rightarrow> 'p step crun" where
  "fail_blame null msg s = rbind (blame null (l_parent s) msg () (l_r s)) (\<lambda>(_, r). Some (Ret (fail_with (s\<lparr>l_r := r\<rparr>))))"

definition fail_report :: "string \<Rightarrow> 'p lst \<Rightarrow> 'p step crun" where
  "fail_report msg s = Some (Ret (fail_with (s\<lparr>l_r := report msg (l_r s)\<rparr>)))"

text \<open>The SAX callback and the release that follows it.\<close>

definition sax_done :: "'p lenv \<Rightarrow> sax_event \<Rightarrow> nat option \<Rightarrow> xheap \<Rightarrow> (nat option \<times> xheap) crun" where
  "sax_done E ev node h =
     (case e_sax E of None \<Rightarrow> Some (Ret (node, h))
      | Some f \<Rightarrow> rbind (Some (f node ev h)) (\<lambda>h. rbind (mxmlRelease node h) (\<lambda>(c, h). Some (Ret (if c = 0 then None else node, h)))))"

definition keep_first :: "nat option \<Rightarrow> 'p lst \<Rightarrow> 'p lst" where
  "keep_first node s = (if l_first s = None then s\<lparr>l_first := node\<rparr> else s)"

definition retype :: "'p lenv \<Rightarrow> 'p lst \<Rightarrow> 'p lst" where
  "retype E s =
     (case (e_type E, l_parent s) of (Some f, Some p) \<Rightarrow> s\<lparr>l_type := f p (l_heap s)\<rparr> | _ \<Rightarrow> s)"

text \<open>The node for a value, and the text that the conversion of a number left over.\<close>

definition new_value :: "'p lenv \<Rightarrow> 'p lst \<Rightarrow> ((nat option \<times> string) \<times> 'p rdr) crun" where
  "new_value E s =
     (let r = l_r s; h = r_heap r; buf = b_text (l_buf s); parent = l_parent s;
          ret = (\<lambda>rest m. Some (cbind m (\<lambda>(node, h). Ret ((node, rest), r\<lparr>r_heap := h\<rparr>))))
      in case l_type s of
           MXML_INTEGER \<Rightarrow> (let (i, rest) = strtol0 buf in ret rest (mxmlNewInteger parent (i32 i) h))
         | MXML_OPAQUE \<Rightarrow> ret [] (mxmlNewOpaque parent (Some buf) h)
         | MXML_REAL \<Rightarrow> (let (bits, rest) = e_strtod E buf in ret rest (mxmlNewReal parent bits h))
         | MXML_TEXT \<Rightarrow> ret [] (mxmlNewText parent (l_ws s) (Some buf) h)
         | MXML_CUSTOM \<Rightarrow>
             (case e_custom E of None \<Rightarrow> Some (Ret ((None, []), r))
              | Some f \<Rightarrow>
                  rbind (Some (mxmlNewCustom parent None None h)) (\<lambda>(node, h).
                  rbind (Some (f node buf h)) (\<lambda>(c, h).
                  if c = 0 then Some (Ret ((node, []), r\<lparr>r_heap := h\<rparr>))
                  else rbind (blame ''null'' parent (\<lambda>n. ''Bad custom value '' @ [CHR 0x27] @ buf @ [CHR 0x27] @ '' in parent <'' @ n @ ''>!'') ()
                                (r\<lparr>r_heap := h\<rparr>)) (\<lambda>(_, r).
                       rbind (mxmlDelete node (r_heap r)) (\<lambda>h. Some (Ret ((None, []), r\<lparr>r_heap := h\<rparr>)))))))
         | _ \<Rightarrow> Some (Ret ((None, []), r)))"

definition bad_value :: "'p lst \<Rightarrow> string \<Rightarrow> string" where
  "bad_value s n =
     ''Bad '' @ (if l_type s = MXML_INTEGER then ''integer'' else ''real'') @ '' value '' @ [CHR 0x27] @ b_text (l_buf s) @ [CHR 0x27]
       @ '' in parent <'' @ n @ ''>!''"

definition value_step :: "'p lenv \<Rightarrow> int \<Rightarrow> 'p lst \<Rightarrow> 'p step crun" where
  "value_step E ch s =
     (if (ch = 60 \<or> mxml_isspace ch \<and> l_type s \<noteq> MXML_OPAQUE \<and> l_type s \<noteq> MXML_CUSTOM) \<and> b_text (l_buf s) \<noteq> [] then
        rbind (new_value E s) (\<lambda>((node, rest), r).
        if rest \<noteq> [] then
          rbind (blame ''null'' (l_parent s) (bad_value s) () r) (\<lambda>(_, r). Some (Ret (Stop (s\<lparr>l_r := r\<rparr>))))
        else let s = s\<lparr>l_r := r, l_buf := (l_buf s)\<lparr>b_text := []\<rparr>, l_ws := (if mxml_isspace ch \<and> l_type s = MXML_TEXT then 1 else 0)\<rparr>
          in if node = None \<and> l_type s \<noteq> MXML_IGNORE then
               fail_blame ''null'' (\<lambda>n. ''Unable to add value node of type '' @ type_name (l_type s) @ '' to parent <'' @ n @ ''>!'') s
             else rbind (sax_done E SAX_DATA node (l_heap s)) (\<lambda>(node, h). Some (Ret (More (keep_first node (with_heap h s))))))
      else if mxml_isspace ch \<and> l_type s = MXML_TEXT then Some (Ret (More (s\<lparr>l_ws := 1\<rparr>)))
      else Some (Ret (More s)))"

text \<open>A text node for white space alone; it is not tested whether it could be made.\<close>

definition blank_step :: "'p lenv \<Rightarrow> int \<Rightarrow> 'p lst \<Rightarrow> 'p step crun" where
  "blank_step E ch s =
     (if ch = 60 \<and> l_ws s \<noteq> 0 \<and> l_type s = MXML_TEXT then
        rbind (Some (mxmlNewText (l_parent s) (l_ws s) (Some []) (l_heap s))) (\<lambda>(node, h).
        rbind (sax_done E SAX_DATA node h) (\<lambda>(node, h). Some (Ret (More ((keep_first node (with_heap h s))\<lparr>l_ws := 0\<rparr>)))))
      else Some (Ret (More s)))"

subsection \<open>Tags\<close>

text \<open>The end of the loops over the name of a tag, a comment, a CDATA section and a processing instruction.\<close>

definition tag_stop :: "int \<Rightarrow> string \<Rightarrow> bool" where
  "tag_stop ch t \<longleftrightarrow> mxml_isspace ch \<or> ch = 62 \<or> (ch = 47 \<and> t \<noteq> []) \<or> ch = 60"

definition tag_special :: "bool \<Rightarrow> int \<Rightarrow> string \<Rightarrow> bool" where
  "tag_special ent ch t \<longleftrightarrow> \<not> ent \<and> (t = ''?'' \<or> t = ''!--'' \<or> t = ''![CDATA['')"

definition comment_end :: "int \<Rightarrow> string \<Rightarrow> bool" where
  "comment_end ch t \<longleftrightarrow> ch = 62 \<and> length t > 4 \<and> rev t ! 2 \<noteq> CHR ''-'' \<and> rev t ! 1 = CHR ''-'' \<and> rev t ! 0 = CHR ''-''"

definition cdata_end :: "int \<Rightarrow> string \<Rightarrow> bool" where
  "cdata_end ch t \<longleftrightarrow> ch = 62 \<and> take 2 (rev t) = '']]''"

definition pi_end :: "int \<Rightarrow> string \<Rightarrow> bool" where
  "pi_end ch t \<longleftrightarrow> ch = 62 \<and> t \<noteq> [] \<and> last t = CHR ''?''"

text \<open>A node whose name is the text of the buffer; \<open>what\<close> names it in the messages, \<open>k\<close> is done without a node.\<close>

definition add_node :: "'p lenv \<Rightarrow> sax_event \<Rightarrow> string \<Rightarrow> ('p lst \<Rightarrow> 'p step) \<Rightarrow> 'p lst \<Rightarrow> ('p lst \<Rightarrow> nat option \<Rightarrow> 'p lst) \<Rightarrow> 'p step crun" where
  "add_node E ev what k s opened =
     rbind (Some (mxmlNewElement (l_parent s) (Some (b_text (l_buf s))) (l_heap s))) (\<lambda>(node, h).
       let s = with_heap h s
       in case node of
            None \<Rightarrow>
              rbind (blame ''null'' (l_parent s) (\<lambda>n. ''Unable to add '' @ what @ '' node to parent <'' @ n @ ''>!'') () (l_r s)) (\<lambda>(_, r).
              Some (Ret (k (s\<lparr>l_r := r\<rparr>))))
          | Some _ \<Rightarrow>
              rbind (sax_done E ev node h) (\<lambda>(node, h). Some (Ret (More (opened (keep_first node (with_heap h s)) node)))))"

definition early_eof :: "string \<Rightarrow> string" where
  "early_eof what = ''Early EOF in '' @ what @ '' node!''"

text \<open>The rest of a comment, a CDATA section, a processing instruction or a declaration has been read (\<open>g\<close>).\<close>

definition finish_node ::
  "'p lenv \<Rightarrow> sax_event \<Rightarrow> string \<Rightarrow> ('p lst \<Rightarrow> 'p step) \<Rightarrow> ('p lst \<Rightarrow> nat option \<Rightarrow> 'p lst) \<Rightarrow> 'p lst \<Rightarrow> got \<times> 'p rdr \<Rightarrow> 'p step crun" where
  "finish_node E ev what k opened s = (\<lambda>(g, r).
     case g of Bad b \<Rightarrow> Some (Ret (Fail (l_first s) b r))
     | Got ch b \<Rightarrow>
         let s = s\<lparr>l_r := r, l_buf := b\<rparr>
         in if ch \<noteq> 62 then fail_report (early_eof what) s else add_node E ev what k s opened)"

text \<open>A directive without a parent becomes the parent of what follows.\<close>

definition directive :: "'p lenv \<Rightarrow> 'p lst \<Rightarrow> nat option \<Rightarrow> 'p lst" where
  "directive E s node = (if node \<noteq> None \<and> l_parent s = None then retype E (s\<lparr>l_parent := node\<rparr>) else s)"

text \<open>\<open>do ... while\<close>: the character at hand is treated before the next one is read.\<close>

definition decl_rest :: "'p lenv \<Rightarrow> nat option \<Rightarrow> int \<Rightarrow> strbuf \<Rightarrow> 'p rdr \<Rightarrow> (got \<times> 'p rdr) crun" where
  "decl_rest E node ch b r =
     (if ch = 62 then Some (Ret (Got ch b, r))
      else rbind (take_char E True node ch b r) (\<lambda>(g, r).
        case g of Bad b \<Rightarrow> Some (Ret (Bad b, r)) | Got _ b \<Rightarrow> gather E (\<lambda>c _. c = 62) True never node b r))"

definition same_name :: "string \<Rightarrow> nat \<Rightarrow> xheap \<Rightarrow> bool cres" where
  "same_name s p h = cbind (rd h p) (\<lambda>n. cbind (elem n) (\<lambda>(en, _). case en of None \<Rightarrow> Crash NullDeref | Some nm \<Rightarrow> Ret (s = nm)))"

definition close_tag :: "'p lenv \<Rightarrow> int \<Rightarrow> 'p lst \<Rightarrow> 'p step crun" where
  "close_tag E ch s =
     rbind (Some (case l_parent s of None \<Rightarrow> Ret False | Some p \<Rightarrow> same_name (tl (b_text (l_buf s))) p (l_heap s))) (\<lambda>same.
     case l_parent s of
       Some p \<Rightarrow>
         if \<not> same then fail_blame ''(null)'' (\<lambda>n. ''Mismatched close tag <'' @ b_text (l_buf s) @ ''> under parent <'' @ n @ ''>!'') s
         else rbind (if ch \<noteq> 62 \<and> ch \<noteq> EOF then skip_while E (\<lambda>c. c \<noteq> 62) (l_r s) else Some (Ret (ch, l_r s))) (\<lambda>(_, r).
              rbind (Some (rd (r_heap r) p)) (\<lambda>n.
              rbind (case e_sax E of None \<Rightarrow> Some (Ret (r_heap r))
                     | Some f \<Rightarrow> rbind (Some (f (Some p) SAX_ELEMENT_CLOSE (r_heap r))) (\<lambda>h.
                         rbind (mxmlRelease (Some p) h) (\<lambda>(_, h). Some (Ret h)))) (\<lambda>h.
              Some (Ret (More (retype E (s\<lparr>l_r := r\<lparr>r_heap := h\<rparr>, l_parent := n_parent n\<rparr>)))))))
     | None \<Rightarrow> fail_blame ''(null)'' (\<lambda>n. ''Mismatched close tag <'' @ b_text (l_buf s) @ ''> under parent <'' @ n @ ''>!'') s)"

text \<open>The rest of an open tag: the character that ends it, \<open>/\<close> for an element without content; \<open>None\<close> is \<open>goto error\<close>.\<close>

definition open_rest :: "'p lenv \<Rightarrow> string \<Rightarrow> nat \<Rightarrow> int \<Rightarrow> 'p rdr \<Rightarrow> (int option \<times> 'p rdr) crun" where
  "open_rest E name x ch r =
     (if mxml_isspace ch then
        rbind (mxml_parse_element E x r) (\<lambda>(c, r). Some (Ret (if c = EOF then None else Some c, r)))
      else if ch = 47 then
        rbind (Some (e_getc E r)) (\<lambda>(c, r).
          if c \<noteq> 62 then
            rbind (mxmlDelete (Some x) (r_heap (report (''Expected > but got '' @ [CHR 0x27, byte c, CHR 0x27] @ '' instead for element <'' @ name @ ''/>!'') r)))
              (\<lambda>h. Some (Ret (None, r\<lparr>r_heap := h\<rparr>)))
          else Some (Ret (Some 47, r)))
      else Some (Ret (Some ch, r)))"

definition open_tag :: "'p lenv \<Rightarrow> int \<Rightarrow> 'p lst \<Rightarrow> 'p step crun" where
  "open_tag E ch s =
     rbind (Some (mxmlNewElement (l_parent s) (Some (b_text (l_buf s))) (l_heap s))) (\<lambda>(node, h).
     case node of
       None \<Rightarrow> fail_blame ''null'' (\<lambda>n. ''Unable to add element node to parent <'' @ n @ ''>!'') (with_heap h s)
     | Some x \<Rightarrow>
         rbind (open_rest E (b_text (l_buf s)) x ch ((l_r s)\<lparr>r_heap := h\<rparr>)) (\<lambda>(c, r).
         case c of
           None \<Rightarrow> Some (Ret (fail_with (s\<lparr>l_r := r\<rparr>)))
         | Some c \<Rightarrow>
             rbind (case e_sax E of None \<Rightarrow> Some (Ret (r_heap r)) | Some f \<Rightarrow> Some (f node SAX_ELEMENT_OPEN (r_heap r))) (\<lambda>h.
             let s = keep_first node (s\<lparr>l_r := r\<lparr>r_heap := h\<rparr>\<rparr>)
             in if c = EOF then Some (Ret (Stop s))
                else if c \<noteq> 47 then Some (Ret (More (retype E (s\<lparr>l_parent := node\<rparr>))))
                else case e_sax E of None \<Rightarrow> Some (Ret (More s))
                     | Some f \<Rightarrow>
                         rbind (Some (f node SAX_ELEMENT_CLOSE h)) (\<lambda>h.
                         rbind (mxmlRelease node h) (\<lambda>(n, h).
                         let s = with_heap h s
                         in Some (Ret (More (if n = 0 \<and> l_first s = node then s\<lparr>l_first := None\<rparr> else s))))))))"

definition clear_buf :: "'p step \<Rightarrow> 'p step" where
  "clear_buf w = (case w of More s \<Rightarrow> More (s\<lparr>l_buf := (l_buf s)\<lparr>b_text := []\<rparr>\<rparr>) | _ \<Rightarrow> w)"

definition tag_step :: "'p lenv \<Rightarrow> 'p lst \<Rightarrow> 'p step crun" where
  "tag_step E s =
     rbind (gather E tag_stop True tag_special (l_parent s) ((l_buf s)\<lparr>b_text := []\<rparr>) (l_r s)) (\<lambda>(g, r).
     case g of Bad b \<Rightarrow> Some (Ret (Fail (l_first s) b r))
     | Got ch b \<Rightarrow>
         let s = s\<lparr>l_r := r, l_buf := b\<rparr>; t = b_text b
         in if ch = 60 then fail_report ''Bare < in element!'' s
            else rbind
              (if t = ''!--'' then
                 rbind (gather E comment_end False never (l_parent s) b r) (finish_node E SAX_COMMENT ''comment'' Stop (\<lambda>s _. s) s)
               else if t = ''![CDATA['' then
                 rbind (gather E cdata_end False never (l_parent s) b r) (finish_node E SAX_CDATA ''CDATA'' fail_with (\<lambda>s _. s) s)
               else if starts ''?'' t then
                 rbind (gather E pi_end False never (l_parent s) b r)
                   (finish_node E SAX_DIRECTIVE ''processing instruction'' fail_with (directive E) s)
               else if starts ''!'' t then
                 rbind (decl_rest E (l_parent s) ch b r) (finish_node E SAX_DIRECTIVE ''declaration'' fail_with (directive E) s)
               else if starts ''/'' t then close_tag E ch s
               else open_tag E ch s) (\<lambda>w. Some (Ret (clear_buf w))))"

subsection \<open>The loop\<close>

definition step_bind :: "'p step crun \<Rightarrow> ('p lst \<Rightarrow> 'p step crun) \<Rightarrow> 'p step crun" where
  "step_bind m f = rbind m (\<lambda>w. case w of More s \<Rightarrow> f s | _ \<Rightarrow> Some (Ret w))"

text \<open>A character of a value.\<close>

definition text_step :: "'p lenv \<Rightarrow> int \<Rightarrow> 'p lst \<Rightarrow> 'p step crun" where
  "text_step E ch s =
     rbind (take_char E True (l_parent s) ch (l_buf s) (l_r s)) (\<lambda>(g, r).
       case g of Bad b \<Rightarrow> Some (Ret (Fail (l_first s) b r)) | Got _ b \<Rightarrow> Some (Ret (More (s\<lparr>l_r := r, l_buf := b\<rparr>))))"

definition load_char :: "'p lenv \<Rightarrow> int \<Rightarrow> 'p lst \<Rightarrow> 'p step crun" where
  "load_char E ch s =
     step_bind (value_step E ch s) (\<lambda>s.
     step_bind (blank_step E ch s) (\<lambda>s.
       if ch = 60 then tag_step E s
       else if ch = 38 \<or> l_type s = MXML_OPAQUE \<or> l_type s = MXML_CUSTOM \<or> \<not> mxml_isspace ch then text_step E ch s
       else Some (Ret (More s))))"

partial_function (option) load_loop :: "'p lenv \<Rightarrow> 'p lst \<Rightarrow> 'p step crun" where
  "load_loop E s =
     rbind (Some (e_getc E (l_r s))) (\<lambda>(ch, r).
       if ch = EOF then Some (Ret (Stop (s\<lparr>l_r := r\<rparr>)))
       else rbind (load_char E ch (s\<lparr>l_r := r\<rparr>)) (\<lambda>w. case w of More s \<Rightarrow> load_loop E s | _ \<Rightarrow> Some (Ret w)))"

declare load_loop.simps [code]

text \<open>\<open>while (parent->parent != top && parent->parent) parent = parent->parent;\<close>\<close>

partial_function (option) climb :: "nat option \<Rightarrow> nat \<Rightarrow> xheap \<Rightarrow> nat crun" where
  "climb tp x h =
     rbind (Some (rd h x)) (\<lambda>n. if n_parent n = tp then Some (Ret x)
       else case n_parent n of None \<Rightarrow> Some (Ret x) | Some p \<Rightarrow> climb tp p h)"

declare climb.simps [code]

definition load_end :: "nat option \<Rightarrow> 'p lst \<Rightarrow> (nat option \<times> 'p rdr) crun" where
  "load_end tp s =
     (case l_parent s of None \<Rightarrow> Some (Ret (l_first s, l_r s))
      | Some x \<Rightarrow>
          rbind (climb tp x (l_heap s)) (\<lambda>p.
          if p = x then Some (Ret (Some p, l_r s))
          else rbind (Some (name_of '''' (Some x) (l_heap s))) (\<lambda>en.
               rbind (Some (cbind (rd (l_heap s) x) (\<lambda>n. name_of ''(null)'' (n_parent n) (l_heap s)))) (\<lambda>pn.
               let r = report (''Missing close tag </'' @ en @ ''> under parent <'' @ pn @ ''>!'') (l_r s)
               in rbind (mxmlDelete (l_first s) (r_heap r)) (\<lambda>h. Some (Ret (None, r\<lparr>r_heap := h\<rparr>)))))))"

definition mxml_load_data :: "'p lenv \<Rightarrow> nat option \<Rightarrow> 'p \<Rightarrow> xheap \<Rightarrow> (nat option \<times> 'p rdr) crun" where
  "mxml_load_data E tp p h =
     (let (ok, h) = granted h; r = \<lparr>r_src = p, r_enc = ENCODE_UTF8, r_heap = h\<rparr>
      in if \<not> ok then Some (Ret (None, report ''Unable to allocate string buffer!'' r))
         else rbind (load_loop E (retype E \<lparr>l_r = r, l_buf = new_buf, l_first = None, l_parent = tp, l_ws = 0, l_type = MXML_TEXT\<rparr>)) (\<lambda>w.
           case w of
             Fail top_node b r \<Rightarrow>
               rbind (mxmlDelete top_node (r_heap r)) (\<lambda>h.
               case b of None \<Rightarrow> Some (Crash UseAfterFree) | Some _ \<Rightarrow> Some (Ret (None, r\<lparr>r_heap := h\<rparr>)))
           | Stop s \<Rightarrow> load_end tp s
           | More s \<Rightarrow> load_end tp s))"

subsection \<open>The functions that load\<close>

text \<open>Of \<open>E\<close> they use the build, the entities, \<open>strtod\<close> and the handler for custom nodes.\<close>

definition mxmlSAXLoadString where
  "mxmlSAXLoadString E tp s cb sax h = mxml_load_data (E\<lparr>e_getc := string_getc (e_multi E), e_type := cb, e_sax := sax\<rparr>) tp (s @ [NUL]) h"

definition mxmlLoadString where
  "mxmlLoadString E tp s cb h = mxml_load_data (E\<lparr>e_getc := string_getc (e_multi E), e_type := cb, e_sax := None\<rparr>) tp (s @ [NUL]) h"

definition mxmlSAXLoadFile where
  "mxmlSAXLoadFile E tp fp cb sax h =
     mxml_load_data (E\<lparr>e_getc := (\<lambda>r. Ret (read_getc (e_multi E) False file_next r)), e_type := cb, e_sax := sax\<rparr>) tp fp h"

definition mxmlLoadFile where
  "mxmlLoadFile E tp fp cb h =
     mxml_load_data (E\<lparr>e_getc := (\<lambda>r. Ret (read_getc (e_multi E) False file_next r)), e_type := cb, e_sax := None\<rparr>) tp fp h"

definition mxmlSAXLoadFd where
  "mxmlSAXLoadFd E tp reads cb sax h =
     mxml_load_data (E\<lparr>e_getc := (\<lambda>r. Ret (read_getc (e_multi E) True fd_next r)), e_type := cb, e_sax := sax\<rparr>) tp
       \<lparr>fd_cur = [], fd_reads = reads\<rparr> h"

definition mxmlLoadFd where
  "mxmlLoadFd E tp reads cb h =
     mxml_load_data (E\<lparr>e_getc := (\<lambda>r. Ret (read_getc (e_multi E) True fd_next r)), e_type := cb, e_sax := None\<rparr>) tp
       \<lparr>fd_cur = [], fd_reads = reads\<rparr> h"

end
