(* ===== verification/MxmlSafe.thy ===== *)
theory MxmlSafe
  imports MxmlLoad
begin

text \<open>
  The reader of \<open>mxml-file.c\<close> returns on every input. The locale \<open>char_source\<close> is what it relies on: a source answers every
  call, a character uses up some of the rest of the input, and the tree is not touched; it is interpreted on strings, files and
  descriptors. While memory does not run out, no loop of the reader runs forever, no pointer is followed that is not valid,
  and the heap of nodes keeps its invariant. \<open>runs m Q\<close>: the call \<open>m\<close> returns, with a result for which \<open>Q\<close> holds.
\<close>

section \<open>Calls that return\<close>

definition runs :: "'a crun \<Rightarrow> ('a \<Rightarrow> bool) \<Rightarrow> bool" where
  "runs m Q \<longleftrightarrow> (\<exists>y. m = Some (Ret y) \<and> Q y)"

lemma runs_Ret [simp]: "runs (Some (Ret y)) Q \<longleftrightarrow> Q y"
  by (simp add: runs_def)

lemma runs_bind: "runs m P \<Longrightarrow> (\<And>y. P y \<Longrightarrow> runs (f y) Q) \<Longrightarrow> runs (rbind m f) Q"
  by (auto simp: runs_def)

lemma runs_mono: "runs m P \<Longrightarrow> (\<And>y. P y \<Longrightarrow> Q y) \<Longrightarrow> runs m Q"
  by (auto simp: runs_def)

lemma runs_if: "(b \<Longrightarrow> runs m Q) \<Longrightarrow> (\<not> b \<Longrightarrow> runs m' Q) \<Longrightarrow> runs (if b then m else m') Q"
  by simp

lemma runs_got: "(\<And>b. g = Bad b \<Longrightarrow> runs (m b) Q) \<Longrightarrow> (\<And>c b. g = Got c b \<Longrightarrow> runs (m' c b) Q) \<Longrightarrow>
    runs (case g of Bad b \<Rightarrow> m b | Got c b \<Rightarrow> m' c b) Q"
  by (cases g) auto

lemma runs_cbind: "m = Ret y \<Longrightarrow> runs (Some (f y)) Q \<Longrightarrow> runs (Some (cbind m f)) Q"
  by simp

section \<open>Heaps that differ in data only\<close>

definition quiet :: "xheap \<Rightarrow> xheap \<Rightarrow> bool" where
  "quiet h h' \<longleftrightarrow> cells h' = cells h \<and> grants h' = grants h \<and> tick h \<le> tick h'"

definition elem_named :: "xheap \<Rightarrow> nat \<Rightarrow> bool" where
  "elem_named h x \<longleftrightarrow> (\<exists>nm as c. map_option payload (cells h x) = Some (MXML_ELEMENT, VElement (Some nm) as, c))"

definition calm :: "xheap \<Rightarrow> xheap \<Rightarrow> bool" where
  "calm h h' \<longleftrightarrow> data_only h h' \<and> (\<forall>y. elem_named h y \<longrightarrow> elem_named h' y)"

lemma quiet_refl [simp]: "quiet h h"
  by (simp add: quiet_def)

lemma quiet_trans: "quiet h h1 \<Longrightarrow> quiet h1 h2 \<Longrightarrow> quiet h h2"
  by (simp add: quiet_def)

lemma calm_refl [simp]: "calm h h"
  by (simp add: calm_def)

lemma calm_trans: "calm h h1 \<Longrightarrow> calm h1 h2 \<Longrightarrow> calm h h2"
  using data_only_trans by (auto simp: calm_def)

lemma quiet_calm: "quiet h h' \<Longrightarrow> calm h h'"
  by (simp add: quiet_def calm_def data_only_def elem_named_def typed_def)

lemma quiet_error [simp]: "quiet h (mxml_error msg h') \<longleftrightarrow> quiet h h'"
  by (simp add: quiet_def mxml_error_def)

lemma quiet_granted: "granted h = (ok, h') \<Longrightarrow> quiet h h' \<and> ok = grants h (tick h)"
  by (auto simp: granted_def quiet_def)

lemma elem_namedD:
  assumes "elem_named h x"
  obtains n nm as where "cells h x = Some n" "n_type n = MXML_ELEMENT" "n_value n = VElement (Some nm) as"
  using assms by (auto simp: elem_named_def payload_def)

lemma elem_namedI: "cells h x = Some n \<Longrightarrow> n_type n = MXML_ELEMENT \<Longrightarrow> n_value n = VElement (Some nm) as \<Longrightarrow> elem_named h x"
  by (auto simp: elem_named_def payload_def)

lemma elem_named_live: "elem_named h x \<Longrightarrow> cells h x \<noteq> None"
  by (auto simp: elem_named_def)

definition okp :: "xheap \<Rightarrow> nat option \<Rightarrow> bool" where
  "okp h p \<longleftrightarrow> (\<forall>x. p = Some x \<longrightarrow> elem_named h x)"

lemma okp_calm: "okp h p \<Longrightarrow> calm h h' \<Longrightarrow> okp h' p"
  by (auto simp: okp_def calm_def)

lemma name_of_ok: "okp h p \<Longrightarrow> \<exists>s. name_of null p h = Ret s"
  by (cases p) (auto simp: name_of_def okp_def rd_Some elem_def elim!: elem_namedD split: option.split)

section \<open>Sources\<close>

locale char_source =
  fixes getc :: "'p getc" and good :: "'p rdr \<Rightarrow> bool" and left :: "'p rdr \<Rightarrow> nat"
  assumes getc_ret: "good r \<Longrightarrow> \<exists>ch r'. getc r = Ret (ch, r') \<and> good r' \<and> quiet (r_heap r) (r_heap r') \<and> left r' \<le> left r \<and>
      (ch \<noteq> EOF \<longrightarrow> left r' < left r)"
    and good_heap: "good (r\<lparr>r_heap := h\<rparr>) \<longleftrightarrow> good r"
    and left_heap: "left (r\<lparr>r_heap := h\<rparr>) = left r"
begin

definition onward :: "'p rdr \<Rightarrow> 'p rdr \<Rightarrow> bool" where
  "onward r r' \<longleftrightarrow> good r' \<and> left r' \<le> left r \<and> calm (r_heap r) (r_heap r')"

definition ready :: "'p lenv \<Rightarrow> 'p rdr \<Rightarrow> bool" where
  "ready E r \<longleftrightarrow> e_getc E = getc \<and> good r \<and> (\<forall>k. grants (r_heap r) k)"

lemma onward_refl: "good r \<Longrightarrow> onward r r"
  by (simp add: onward_def)

lemma onward_trans: "onward r r1 \<Longrightarrow> onward r1 r2 \<Longrightarrow> onward r r2"
  using calm_trans by (auto simp: onward_def)

lemma onward_ready: "onward r r' \<Longrightarrow> ready E r \<Longrightarrow> ready E r'"
  by (simp add: onward_def ready_def calm_def data_only_def)

lemma onward_okp: "onward r r' \<Longrightarrow> okp (r_heap r) p \<Longrightarrow> okp (r_heap r') p"
  using okp_calm by (auto simp: onward_def)

lemma onward_heap: "onward r r' \<Longrightarrow> calm (r_heap r') h \<Longrightarrow> onward r (r'\<lparr>r_heap := h\<rparr>)"
  using calm_trans by (auto simp: onward_def good_heap left_heap)

lemma onward_report: "onward r r' \<Longrightarrow> onward r (report msg r')"
  unfolding report_def by (erule onward_heap) (simp add: quiet_calm)

lemma getc_runs: "ready E r \<Longrightarrow> runs (Some (e_getc E r)) (\<lambda>(ch, r'). onward r r' \<and> (ch \<noteq> EOF \<longrightarrow> left r' < left r))"
  using getc_ret [of r] quiet_calm by (fastforce simp: ready_def runs_def onward_def)

lemma blame_runs: "good r \<Longrightarrow> okp (r_heap r) p \<Longrightarrow> runs (blame null p msg a r) (\<lambda>(b, r'). b = a \<and> onward r r')"
  using name_of_ok [of "r_heap r" p null] onward_report [OF onward_refl] by (auto simp: blame_def)

lemma ready_good: "ready E r \<Longrightarrow> good r"
  by (simp add: ready_def)

lemma blame_on:
  assumes "onward r q" "okp (r_heap r) p"
  shows "runs (blame null p msg a q) (\<lambda>(b, q'). b = a \<and> onward r q')"
proof -
  have "good q" using assms(1) by (simp add: onward_def)
  then show ?thesis
    using blame_runs [OF _ onward_okp [OF assms], of null msg a] onward_trans [OF assms(1)] by (auto elim!: runs_mono)
qed

lemma entity_loop_runs:
  "ready E r \<Longrightarrow> okp (r_heap r) p \<Longrightarrow> runs (entity_loop E p acc r) (\<lambda>(_, r'). onward r r')"
proof (induction "left r" arbitrary: r acc rule: less_induct)
  case less
  show ?case
    unfolding entity_loop.simps [of E p acc r]
  proof (rule runs_bind [OF getc_runs [OF less.prems(1)]], clarify)
    fix ch r' assume r': "onward r r'" "ch \<noteq> EOF \<longrightarrow> left r' < left r"
    note rdy = onward_ready [OF r'(1) less.prems(1)] and okp = onward_okp [OF r'(1) less.prems(2)]
    have rec: "runs (entity_loop E p s r') (\<lambda>(_, r'). onward r r')" if "ch \<noteq> EOF" for s
      using less.hyps [OF _ rdy okp, of s] r' that by (auto elim!: runs_mono intro: onward_trans)
    show "runs (if ch = EOF \<or> ch > 126 \<or> (\<not> isalnum ch \<and> ch \<noteq> 35) then Some (Ret ((ch, acc), r'))
       else if length acc < 63 then entity_loop E p (acc @ [byte ch]) r'
       else blame ''null'' p (\<lambda>s. ''Entity name too long under parent <'' @ s @ ''>!'') (ch, acc) r') (\<lambda>(_, r'). onward r r')"
      using rec r'(1) by (auto intro: runs_mono [OF blame_on [OF r'(1) less.prems(2)]])
  qed
qed

lemma get_entity_runs:
  assumes "ready E r" "okp (r_heap r) p"
  shows "runs (mxml_get_entity E p r) (\<lambda>(_, r'). onward r r')"
  unfolding mxml_get_entity_def
proof (rule runs_bind [OF entity_loop_runs [OF assms]], clarify)
  fix ch s r' assume r': "onward r r'"
  let ?c = "entity_code E s"
  show "runs (if ch \<noteq> 59 then
         blame ''null'' p (\<lambda>n. ''Character entity '' @ [CHR 0x22] @ s @ [CHR 0x22] @ '' not terminated under parent <'' @ n @ ''>!'') EOF r'
       else let ch = ?c
         in rbind (if \<not> starts ''#'' s \<and> ch < 0
                   then blame ''null'' p (\<lambda>n. ''Entity name '' @ [CHR 0x22] @ s @ '';'' @ [CHR 0x22] @ '' not supported under parent <'' @ n @ ''>!'') () r'
                   else Some (Ret ((), r'))) (\<lambda>(_, r).
            if mxml_bad_char ch then
              blame ''null'' p (\<lambda>n. ''Bad control character 0x'' @ hex2 ch @ '' under parent <'' @ n @ ''> not allowed by XML standard!'') EOF r
            else Some (Ret (ch, r)))) (\<lambda>(_, r'). onward r r')"
    unfolding Let_def
    by (auto intro!: runs_bind [of _ "\<lambda>(_, q). onward r q"] runs_mono [OF blame_on [OF _ assms(2)]] simp: r')
qed

text \<open>The result of a loop that fills a buffer: no buffer was lost.\<close>

definition got_ok :: "'p rdr \<Rightarrow> got \<times> 'p rdr \<Rightarrow> bool" where
  "got_ok r w \<longleftrightarrow> onward r (snd w) \<and> fst w \<noteq> Bad None"

lemma add_char_ok:
  assumes "\<forall>k. grants h k"
  shows "\<exists>b' h'. add_char multi c b h = (Some b', h') \<and> quiet h h'"
  using assms by (auto simp: add_char_def granted_def quiet_def Let_def)

lemma take_char_runs:
  assumes rdy: "ready E r" and p: "okp (r_heap r) p"
  shows "runs (take_char E ents p ch b r) (got_ok r)"
  unfolding take_char_def
proof (rule runs_bind [where P = "\<lambda>(_, r'). onward r r'"])
  show "runs (if ents \<and> ch = 38 then mxml_get_entity E p r else Some (Ret (ch, r))) (\<lambda>(_, r'). onward r r')"
    using get_entity_runs [OF assms] onward_refl [OF ready_good [OF rdy]] by simp
next
  fix w :: "int \<times> 'p rdr" assume "case w of (_, r') \<Rightarrow> onward r r'"
  then obtain c q where w: "w = (c, q)" "onward r q" by (cases w) simp
  obtain b' h' where "add_char (e_multi E) c b (r_heap q) = (Some b', h')" "quiet (r_heap q) h'"
    using add_char_ok onward_ready [OF w(2) rdy] unfolding ready_def by blast
  then show "runs (case w of (c, r) \<Rightarrow>
       if ents \<and> ch = 38 \<and> c = EOF then Some (Ret (Bad (Some b), r))
       else let (b', h) = add_char (e_multi E) c b (r_heap r); r = r\<lparr>r_heap := h\<rparr>
            in case b' of None \<Rightarrow> Some (Ret (Bad None, r)) | Some b' \<Rightarrow> Some (Ret (Got c b', r))) (got_ok r)"
    using w onward_heap [OF w(2)] by (simp add: got_ok_def quiet_calm)
qed

lemma got_ok_trans: "onward r q \<Longrightarrow> got_ok q w \<Longrightarrow> got_ok r w"
  using onward_trans by (auto simp: got_ok_def)

lemma gather_runs:
  "ready E r \<Longrightarrow> okp (r_heap r) p \<Longrightarrow> runs (gather E halt ents fin p b r) (got_ok r)"
proof (induction "left r" arbitrary: r b rule: less_induct)
  case less
  show ?case
    unfolding gather.simps [of E halt ents fin p b r]
  proof (rule runs_bind [OF getc_runs [OF less.prems(1)]], clarify)
    fix ch q assume q: "onward r q" "ch \<noteq> EOF \<longrightarrow> left q < left r"
    note rdy = onward_ready [OF q(1) less.prems(1)] and okp = onward_okp [OF q(1) less.prems(2)]
    have rec: "runs (gather E halt ents fin p b' q') (got_ok r)" if "ch \<noteq> EOF" "onward q q'" for b' q'
    proof -
      have "left q' < left r" using that q by (auto simp: onward_def)
      then have "runs (gather E halt ents fin p b' q') (got_ok q')"
        using less.hyps [OF _ onward_ready [OF that(2) rdy] onward_okp [OF that(2) okp]] by blast
      then show ?thesis by (rule runs_mono) (rule got_ok_trans [OF onward_trans [OF q(1) that(2)]])
    qed
    show "runs (if ch = EOF \<or> halt ch (b_text b) then Some (Ret (Got ch b, q))
       else rbind (take_char E ents p ch b q) (\<lambda>(g, r).
         case g of Bad b \<Rightarrow> Some (Ret (Bad b, r))
         | Got c b \<Rightarrow> if fin (ents \<and> ch = 38) c (b_text b) then Some (Ret (Got c b, r))
                      else gather E halt ents fin p b r)) (got_ok r)"
    proof (cases "ch = EOF \<or> halt ch (b_text b)")
      case True
      then show ?thesis using q(1) by (auto simp: got_ok_def)
    next
      case False
      then show ?thesis
        using rec onward_trans [OF q(1)]
        by (auto intro!: runs_bind [OF take_char_runs [OF rdy okp]] simp: got_ok_def split: got.split)
    qed
  qed
qed

lemma skip_while_runs: "ready E r \<Longrightarrow> runs (skip_while E P r) (\<lambda>(_, r'). onward r r')"
proof (induction "left r" arbitrary: r rule: less_induct)
  case less
  show ?case
    unfolding skip_while.simps [of E P r]
  proof (rule runs_bind [OF getc_runs [OF less.prems]], clarify)
    fix ch q assume q: "onward r q" "ch \<noteq> EOF \<longrightarrow> left q < left r"
    have "runs (skip_while E P q) (\<lambda>(_, r'). onward r r')" if "ch \<noteq> EOF"
      using less.hyps [OF _ onward_ready [OF q(1) less.prems]] q that by (auto elim!: runs_mono intro: onward_trans)
    then show "runs (if ch \<noteq> EOF \<and> P ch then skip_while E P q else Some (Ret (ch, q))) (\<lambda>(_, r'). onward r r')"
      using q(1) by simp
  qed
qed

section \<open>Attributes\<close>

lemma end_tag_runs:
  assumes "ready E q" "onward r q" "elem_named (r_heap r) x"
  shows "runs (end_tag E x ch q) (\<lambda>(_, r'). onward r r')"
  unfolding end_tag_def
proof (rule runs_bind [OF getc_runs [OF assms(1)]], clarify)
  fix c q' assume "onward q q'"
  then have "onward r q'" using onward_trans [OF assms(2)] by blast
  then show "runs (if c \<noteq> 62 then blame ''null'' (Some x) (expected_end ch c) EOF q' else Some (Ret (ch, q'))) (\<lambda>(_, r'). onward r r')"
    using assms(3) by (auto intro: runs_mono [OF blame_on] simp: okp_def)
qed

lemma attr_name_runs: "ready E r \<Longrightarrow> elem_named (r_heap r) x \<Longrightarrow> runs (attr_name E x ch b r) (got_ok r)"
  by (auto simp: attr_name_def Let_def okp_def intro!: gather_runs)

lemma attr_value_runs: "ready E r \<Longrightarrow> elem_named (r_heap r) x \<Longrightarrow> runs (attr_value E x ch b r) (got_ok r)"
  by (auto simp: attr_value_def okp_def intro!: gather_runs)

lemma parse_error_runs: "b \<noteq> None \<Longrightarrow> onward r q \<Longrightarrow> runs (parse_error b q) (\<lambda>(_, r'). onward r r')"
  by (auto simp: parse_error_def)

lemma GetAttr_ok: "elem_named h x \<Longrightarrow> \<exists>v. mxmlElementGetAttr (Some x) (Some nm) h = Ret v"
  by (auto simp: mxmlElementGetAttr_def rd_Some elem_def elim!: elem_namedD)

end

lemma SetAttr_calm:
  assumes "typed h" "elem_named h x"
  shows "\<exists>h'. mxmlElementSetAttr (Some x) (Some nm) (Some v) h = Ret h' \<and> calm h h'"
proof -
  obtain n en as where n: "cells h x = Some n" "n_type n = MXML_ELEMENT" "n_value n = VElement (Some en) as"
    using elem_namedD [OF assms(2)] by blast
  obtain vc h1 where v: "xstrdup v h = (vc, h1)" by fastforce
  have h1: "cells h1 = cells h" "data_only h h1" "typed h1"
    using v assms(1) data_only_strdup [OF v] by (auto simp: xstrdup_def granted_def typed_def)
  obtain r h' where h': "mxml_set_attr x nm vc h1 = Ret (r, h')" "data_only h1 h'"
    "cells h' = (cells h1)(x \<mapsto> n\<lparr>n_value := VElement (Some en) (new_attrs nm vc as)\<rparr>) \<or> cells h' = cells h1"
    using set_attr_cases [OF h1(3), of x n "Some en" as nm vc] n h1(1) by auto
  have "elem_named h' y" if "elem_named h y" for y
    using that h'(3) n h1(1) by (auto simp: elem_named_def payload_def)
  then have "calm h h'" using data_only_trans [OF h1(2) h'(2)] by (simp add: calm_def)
  then show ?thesis using n v h'(1) by (simp add: mxmlElementSetAttr_def rd_Some)
qed

context char_source
begin

text \<open>A call on the next part of an element keeps everything that the loop over the attributes relies on.\<close>

definition parsing :: "'p lenv \<Rightarrow> nat \<Rightarrow> 'p rdr \<Rightarrow> 'p rdr \<Rightarrow> bool" where
  "parsing E x r q \<longleftrightarrow> onward r q \<and> ready E q \<and> elem_named (r_heap q) x \<and> typed (r_heap q)"

lemma parsing_on:
  assumes "parsing E x r q" "onward q q'"
  shows "parsing E x r q'"
proof -
  have "typed (r_heap q')" using assms by (simp add: parsing_def onward_def calm_def data_only_def)
  moreover have "elem_named (r_heap q') x" using assms by (simp add: parsing_def onward_def calm_def)
  ultimately show ?thesis using assms onward_trans onward_ready by (auto simp: parsing_def)
qed

lemma parsing_blame: "parsing E x r q \<Longrightarrow> runs (blame null (Some x) msg a q) (\<lambda>(_, r'). onward r r')"
  using blame_on [of q q "Some x" null msg a] onward_trans [of r q] onward_refl [of q]
  by (auto simp: parsing_def okp_def ready_def elim!: runs_mono)

lemma parsing_end: "parsing E x r q \<Longrightarrow> runs (end_tag E x ch q) (\<lambda>(_, r'). onward r r')"
  using end_tag_runs [of E q q x ch] onward_trans [of r q] onward_refl [of q]
  by (auto simp: parsing_def ready_def elim!: runs_mono)

lemma parsing_bind:
  assumes "parsing E x r q" "runs m (\<lambda>(_, q'). onward q q')" "\<And>a q'. parsing E x r q' \<Longrightarrow> left q' \<le> left q \<Longrightarrow> runs (f a q') Q"
  shows "runs (rbind m (\<lambda>(a, q'). f a q')) Q"
  by (rule runs_bind [OF assms(2)]) (use assms(1,3) parsing_on in \<open>auto simp: onward_def\<close>)

lemma parsing_got:
  assumes "parsing E x r q" "runs m (got_ok q)"
    "\<And>g q'. parsing E x r q' \<Longrightarrow> left q' \<le> left q \<Longrightarrow> g \<noteq> Bad None \<Longrightarrow> runs (f g q') Q"
  shows "runs (rbind m (\<lambda>(g, q'). f g q')) Q"
  by (rule runs_bind [OF assms(2)]) (use assms(1,3) parsing_on in \<open>auto simp: got_ok_def onward_def\<close>)

lemma parsing_set:
  assumes "parsing E x r q" "\<And>h. parsing E x r (q\<lparr>r_heap := h\<rparr>) \<Longrightarrow> runs (f h) Q"
  shows "runs (rbind (Some (mxmlElementSetAttr (Some x) (Some nm) (Some v) (r_heap q))) f) Q"
proof -
  obtain h where h: "mxmlElementSetAttr (Some x) (Some nm) (Some v) (r_heap q) = Ret h" "calm (r_heap q) h"
    using SetAttr_calm assms by (fastforce simp: parsing_def)
  have "onward q (q\<lparr>r_heap := h\<rparr>)" by (rule onward_heap [OF onward_refl h(2)]) (use assms(1) in \<open>simp add: parsing_def ready_def\<close>)
  then show ?thesis using assms(2) [OF parsing_on [OF assms(1)]] h(1) by simp
qed

lemma parsing_getc:
  "parsing E x r q \<Longrightarrow> runs (Some (e_getc E q)) (\<lambda>(ch, q'). onward q q' \<and> (ch \<noteq> EOF \<longrightarrow> left q' < left q))"
  by (rule getc_runs) (simp add: parsing_def)

text \<open>The part of a turn behind the name of an attribute; \<open>k\<close> is the next turn.\<close>

lemma attr_rest_runs:
  assumes p: "parsing E x r q" and k: "\<And>nb vb q'. parsing E x r q' \<Longrightarrow> left q' \<le> left q \<Longrightarrow> runs (k nb vb q') (\<lambda>(_, r'). onward r r')"
  shows "runs (rbind (Some (mxmlElementGetAttr (Some x) (Some nm) (r_heap q))) (\<lambda>old.
     if old \<noteq> None then Some (Ret (EOF, q))
     else rbind (if ch \<noteq> EOF \<and> mxml_isspace ch then skip_while E mxml_isspace q else Some (Ret (ch, q))) (\<lambda>(ch, q).
       if ch \<noteq> 61 then blame ''null'' (Some x) (missing_value nm) EOF q
       else rbind (skip_while E mxml_isspace q) (\<lambda>(ch, q).
         if ch = EOF then blame ''null'' (Some x) (missing_value nm) EOF q
         else rbind (attr_value E x ch vb q) (\<lambda>(g, q).
           case g of Bad b \<Rightarrow> parse_error b q
           | Got ch vb \<Rightarrow>
               rbind (Some (mxmlElementSetAttr (Some x) (Some nm) (Some (b_text vb)) (r_heap q))) (\<lambda>h.
               if ch = 47 \<or> ch = 63 then end_tag E x ch (q\<lparr>r_heap := h\<rparr>)
               else if ch = 62 then Some (Ret (ch, q\<lparr>r_heap := h\<rparr>))
               else k nb vb (q\<lparr>r_heap := h\<rparr>))))))) (\<lambda>(_, r'). onward r r')"
proof -
  have rdy: "ready E q'" and el: "elem_named (r_heap q') x" and on: "onward r q'" if "parsing E x r q'" for q'
    using that by (simp_all add: parsing_def)
  obtain v where v: "mxmlElementGetAttr (Some x) (Some nm) (r_heap q) = Ret v" using GetAttr_ok [OF el [OF p]] by blast
  have skip: "runs (if ch \<noteq> EOF \<and> mxml_isspace ch then skip_while E mxml_isspace q else Some (Ret (ch, q))) (\<lambda>(_, q'). onward q q')"
    using skip_while_runs [OF rdy [OF p]] onward_refl [of q] rdy [OF p] by (auto simp: ready_def)
  show ?thesis
    unfolding v rbind.simps
    apply (rule runs_if)
     apply (simp add: on [OF p])
    apply (rule parsing_bind [OF p skip])
    apply (rule runs_if)
     apply (erule parsing_blame)
    apply (rule parsing_bind, assumption, rule skip_while_runs, erule rdy)
    apply (rule runs_if)
     apply (erule parsing_blame)
    apply (rule parsing_got, assumption, rule attr_value_runs, erule rdy, erule el)
    apply (rule runs_got)
     apply (rule parse_error_runs, simp, erule on)
    apply (rule parsing_set, assumption)
    apply (rule runs_if)
     apply (erule parsing_end)
    apply (rule runs_if)
     apply (simp add: on)
    apply (rule k, assumption)
    apply (simp add: left_heap)
    done
qed

lemma attr_loop_runs: "parsing E x r q \<Longrightarrow> runs (attr_loop E x nb vb q) (\<lambda>(_, r'). onward r r')"
proof (induction "left q" arbitrary: q nb vb rule: less_induct)
  case less
  note p = less.prems
  show ?case
    unfolding attr_loop.simps [of E x nb vb q]
  proof (rule runs_bind [OF parsing_getc [OF p]], clarify)
    fix ch q1 assume q1: "onward q q1" "ch \<noteq> EOF \<longrightarrow> left q1 < left q"
    have p1: "parsing E x r q1" by (rule parsing_on [OF p q1(1)])
    have rec: "runs (attr_loop E x nb vb q') (\<lambda>(_, r'). onward r r')" if "ch \<noteq> EOF" "parsing E x r q'" "left q' \<le> left q1" for nb vb q'
      using less.hyps [OF _ that(2)] q1(2) that by simp
    show "runs (if ch = EOF then Some (Ret (EOF, q1))
       else if mxml_isspace ch then attr_loop E x nb vb q1
       else if ch = 47 \<or> ch = 63 then end_tag E x ch q1
       else if ch = 60 then blame ''null'' (Some x) (\<lambda>s. ''Bare < in element '' @ s @ ''!'') EOF q1
       else if ch = 62 then Some (Ret (ch, q1))
       else rbind (attr_name E x ch nb q1) (\<lambda>(g, r).
         case g of Bad b \<Rightarrow> parse_error b r
         | Got ch name \<Rightarrow>
             rbind (Some (mxmlElementGetAttr (Some x) (Some (b_text name)) (r_heap r))) (\<lambda>old.
             if old \<noteq> None then Some (Ret (EOF, r))
             else rbind (if ch \<noteq> EOF \<and> mxml_isspace ch then skip_while E mxml_isspace r else Some (Ret (ch, r))) (\<lambda>(ch, r).
               if ch \<noteq> 61 then blame ''null'' (Some x) (missing_value (b_text name)) EOF r
               else rbind (skip_while E mxml_isspace r) (\<lambda>(ch, r).
                 if ch = EOF then blame ''null'' (Some x) (missing_value (b_text name)) EOF r
                 else rbind (attr_value E x ch vb r) (\<lambda>(g, r).
                   case g of Bad b \<Rightarrow> parse_error b r
                   | Got ch val \<Rightarrow>
                       rbind (Some (mxmlElementSetAttr (Some x) (Some (b_text name)) (Some (b_text val)) (r_heap r))) (\<lambda>h.
                       if ch = 47 \<or> ch = 63 then end_tag E x ch (r\<lparr>r_heap := h\<rparr>)
                       else if ch = 62 then Some (Ret (ch, r\<lparr>r_heap := h\<rparr>))
                       else attr_loop E x name val (r\<lparr>r_heap := h\<rparr>)))))))) (\<lambda>(_, r'). onward r r')"
      apply (rule runs_if, use p1 in \<open>simp add: parsing_def\<close>)
      apply (rule runs_if, rule rec, assumption, rule p1, simp)
      apply (rule runs_if, rule parsing_end [OF p1])
      apply (rule runs_if, rule parsing_blame [OF p1])
      apply (rule runs_if, use p1 in \<open>simp add: parsing_def\<close>)
      apply (rule parsing_got [OF p1])
       apply (rule attr_name_runs, use p1 in \<open>simp_all add: parsing_def\<close>)
      apply (rule runs_got, rule parse_error_runs, simp, simp add: parsing_def)
      apply (rule attr_rest_runs, simp add: parsing_def)
      apply (rule rec, assumption, assumption, simp)
      done
  qed
qed

lemma parse_element_runs:
  assumes rdy: "ready E r" and x: "elem_named (r_heap r) x" and t: "typed (r_heap r)"
  shows "runs (mxml_parse_element E x r) (\<lambda>(_, r'). onward r r')"
proof -
  let ?r = "r\<lparr>r_heap := (r_heap r)\<lparr>tick := Suc (Suc (tick (r_heap r)))\<rparr>\<rparr>"
  have on: "onward r ?r"
    by (rule onward_heap [OF onward_refl [OF ready_good [OF rdy]] quiet_calm]) (simp add: quiet_def)
  have "parsing E x r r" using rdy x t onward_refl [OF ready_good [OF rdy]] by (simp add: parsing_def)
  then have "runs (attr_loop E x new_buf new_buf ?r) (\<lambda>(_, r'). onward r r')" by (rule attr_loop_runs [OF parsing_on [OF _ on]])
  then show ?thesis using rdy by (simp add: mxml_parse_element_def granted_def ready_def)
qed

end

section \<open>The state of the loop\<close>

text \<open>The nodes from \<open>t0\<close> on were made by this call: each hangs below an older one of them that is an element with a name.\<close>

definition tree_ok :: "nat \<Rightarrow> xheap \<Rightarrow> (nat \<Rightarrow> nat list) \<Rightarrow> bool" where
  "tree_ok t0 h ch \<longleftrightarrow> (\<forall>p y. y \<in> set (ch p) \<longrightarrow> t0 \<le> y \<longrightarrow> t0 \<le> p \<and> p < y \<and> elem_named h p)"

definition parent_ok :: "nat \<Rightarrow> xheap \<Rightarrow> nat option \<Rightarrow> bool" where
  "parent_ok t0 h p \<longleftrightarrow> (\<forall>x. p = Some x \<longrightarrow> t0 \<le> x \<and> elem_named h x)"

definition tree_inv :: "nat \<Rightarrow> xheap \<Rightarrow> (nat \<Rightarrow> nat list) \<Rightarrow> nat option \<Rightarrow> nat option \<Rightarrow> bool" where
  "tree_inv t0 h ch p f \<longleftrightarrow> xinv h ch \<and> tree_ok t0 h ch \<and> parent_ok t0 h p \<and> live_opt h f \<and> t0 \<le> tick h"

lemma calm_live: "calm h h' \<Longrightarrow> live_opt h f \<Longrightarrow> live_opt h' f"
  using data_only_live [of h h'] unfolding live_opt_def calm_def by blast

lemma tree_inv_calm: "tree_inv t0 h ch p f \<Longrightarrow> calm h h' \<Longrightarrow> tree_inv t0 h' ch p f"
  using calm_live data_only_xinv [of h ch h'] by (auto simp: tree_inv_def tree_ok_def parent_ok_def calm_def data_only_def)

lemma tree_inv_okp: "tree_inv t0 h ch p f \<Longrightarrow> okp h p"
  by (auto simp: tree_inv_def parent_ok_def okp_def)

lemma tree_inv_typed: "tree_inv t0 h ch p f \<Longrightarrow> typed h"
  using xinv_typed by (auto simp: tree_inv_def)

lemma tree_inv_parent_live: "tree_inv t0 h ch p f \<Longrightarrow> live_opt h p"
  using elem_named_live by (auto simp: tree_inv_def parent_ok_def live_opt_def)

text \<open>A new node below the parent.\<close>

lemma tree_inv_grow:
  assumes i: "tree_inv t0 h ch p f" and x: "xinv h' (add_kid p (tick h) ch)" "others_same (tick h) h h'" "tick h < tick h'"
    "cells h' (tick h) \<noteq> None"
  shows "tree_inv t0 h' (add_kid p (tick h) ch) p (if f = None then Some (tick h) else f)" "tree_inv t0 h' (add_kid p (tick h) ch) p f"
proof -
  have dead: "cells h (tick h) = None" using i xinv_fresh [of h ch "tick h"] by (simp add: tree_inv_def)
  have keep: "y \<noteq> tick h" "elem_named h' y" if y: "elem_named h y" for y
  proof -
    show "y \<noteq> tick h" using y dead by (auto simp: elem_named_def)
    then have "map_option payload (cells h' y) = map_option payload (cells h y)" using x(2) by (simp add: others_same_def)
    then show "elem_named h' y" using y by (simp only: elem_named_def)
  qed
  have "tree_ok t0 h' (add_kid p (tick h) ch)"
    unfolding tree_ok_def
  proof (intro allI impI)
    fix q y assume y: "y \<in> set (add_kid p (tick h) ch q)" "t0 \<le> y"
    show "t0 \<le> q \<and> q < y \<and> elem_named h' q"
    proof (cases "y \<in> set (ch q)")
      case True
      then show ?thesis using i y(2) keep by (auto simp: tree_inv_def tree_ok_def)
    next
      case False
      then have q: "p = Some q" "y = tick h" using y(1) by (auto simp: add_kid_def split: option.splits if_splits)
      then have "t0 \<le> q" "elem_named h q" using i by (auto simp: tree_inv_def parent_ok_def)
      moreover have "q < tick h"
        using elem_named_live [OF \<open>elem_named h q\<close>] i xinv_fresh [of h ch q] by (force simp: tree_inv_def not_le [symmetric])
      ultimately show ?thesis using keep q(2) by simp
    qed
  qed
  moreover have "parent_ok t0 h' p" using i keep by (auto simp: tree_inv_def parent_ok_def)
  moreover have "live_opt h' f"
    unfolding live_opt_def
  proof (intro allI impI)
    fix y assume "f = Some y"
    then have "cells h y \<noteq> None" using i by (simp add: tree_inv_def live_opt_def)
    then have ne: "y \<noteq> tick h" using dead by auto
    have "map_option payload (cells h' y) = map_option payload (cells h y)" using x(2) ne by (simp add: others_same_def)
    then show "cells h' y \<noteq> None" using \<open>cells h y \<noteq> None\<close> by (metis option.map_disc_iff)
  qed
  ultimately show "tree_inv t0 h' (add_kid p (tick h) ch) p (if f = None then Some (tick h) else f)"
    "tree_inv t0 h' (add_kid p (tick h) ch) p f"
    using i x by (auto simp: tree_inv_def live_opt_def)
qed

lemma NewElement_grow:
  assumes i: "tree_inv t0 h ch p f" and g: "\<forall>k. grants h k"
  obtains h' where "mxmlNewElement p (Some nm) h = Ret (Some (tick h), h')" "grants h' = grants h" "t0 \<le> tick h" "elem_named h' (tick h)"
    "tree_inv t0 h' (add_kid p (tick h) ch) p (if f = None then Some (tick h) else f)" "tree_inv t0 h' (add_kid p (tick h) ch) p f"
    "ch (tick h) = []" "f \<noteq> Some (tick h)"
proof -
  have xi: "xinv h ch" using i by (simp add: tree_inv_def)
  obtain h' n where h': "mxmlNewElement p (Some nm) h = Ret (Some (tick h), h')" "xinv h' (add_kid p (tick h) ch)"
    "tick h' = Suc (Suc (tick h))" "others_same (tick h) h h'" "cells h' (tick h) = Some n" "payload n = (MXML_ELEMENT, VElement (Some nm) [], 1)"
    by (rule NewElement_cases [OF xi tree_inv_parent_live [OF i], of nm]) (use g in auto)
  have "elem_named h' (tick h)" using h'(5,6) by (simp add: elem_named_def)
  moreover have "f \<noteq> Some (tick h)" using i xinv_fresh [OF xi, of "tick h"] by (auto simp: tree_inv_def live_opt_def)
  ultimately show ?thesis
    using that [OF h'(1)] tree_inv_grow [OF i h'(2,4)] h'(3,4,5) i fresh_alone [OF xi order_refl] by (simp add: others_same_def tree_inv_def)
qed

lemma NewText_grow:
  assumes i: "tree_inv t0 h ch p f" and g: "\<forall>k. grants h k"
  obtains h' where "mxmlNewText p ws (Some s) h = Ret (Some (tick h), h')" "grants h' = grants h"
    "tree_inv t0 h' (add_kid p (tick h) ch) p (if f = None then Some (tick h) else f)"
proof -
  have xi: "xinv h ch" using i by (simp add: tree_inv_def)
  let ?fill = "\<lambda>h. let (t, h) = xstrdup s h in (VText ws t, h)"
  have fill: "?fill k = (VText ws (Some s), k\<lparr>tick := Suc (Suc (tick h))\<rparr>)" if "tick k = Suc (tick h)" "grants k = grants h" for k
    using that g by (simp add: xstrdup_def granted_def)
  have new: "mxmlNewText p ws (Some s) h = new_with p MXML_TEXT ?fill h" by (simp add: mxmlNewText_def)
  obtain h' n where h': "mxmlNewText p ws (Some s) h = Ret (Some (tick h), h')" "xinv h' (add_kid p (tick h) ch)"
    "tick h' = Suc (Suc (tick h))" "others_same (tick h) h h'" "cells h' (tick h) = Some n"
    by (rule new_with_cases [OF xi tree_inv_parent_live [OF i], of MXML_TEXT "VText ws (Some s)" ?fill, OF _ fill]) (use g new in auto)
  show ?thesis using that [OF h'(1)] tree_inv_grow [OF i h'(2,4)] h'(3,4,5) by (simp add: others_same_def)
qed

context char_source
begin

definition linv :: "'p lenv \<Rightarrow> nat \<Rightarrow> nat \<Rightarrow> 'p lst \<Rightarrow> bool" where
  "linv E t0 n s \<longleftrightarrow> ready E (l_r s) \<and> left (l_r s) \<le> n \<and> l_type s = MXML_TEXT \<and>
     (\<exists>ch. tree_inv t0 (l_heap s) ch (l_parent s) (l_first s))"

fun step_ok :: "'p lenv \<Rightarrow> nat \<Rightarrow> nat \<Rightarrow> 'p step \<Rightarrow> bool" where
  "step_ok E t0 n (More s) \<longleftrightarrow> linv E t0 n s"
| "step_ok E t0 n (Stop s) \<longleftrightarrow> linv E t0 n s"
| "step_ok E t0 n (Fail f b r) \<longleftrightarrow> b \<noteq> None \<and> (\<exists>ch. xinv (r_heap r) ch \<and> live_opt (r_heap r) f)"

definition plain :: "'p lenv \<Rightarrow> bool" where
  "plain E \<longleftrightarrow> e_type E = None \<and> e_sax E = None"

lemma linv_okp: "linv E t0 n s \<Longrightarrow> okp (r_heap (l_r s)) (l_parent s)"
  using tree_inv_okp by (auto simp: linv_def l_heap_def)

lemma linv_good: "linv E t0 n s \<Longrightarrow> good (l_r s)"
  by (simp add: linv_def ready_def)

lemma linv_on:
  assumes "linv E t0 n s" "onward (l_r s) r"
  shows "linv E t0 n (s\<lparr>l_r := r\<rparr>)" "linv E t0 n (s\<lparr>l_r := r, l_buf := b\<rparr>)"
  using assms onward_ready [OF assms(2), of E] tree_inv_calm by (fastforce simp: linv_def l_heap_def onward_def)+

lemma linv_buf: "linv E t0 n s \<Longrightarrow> linv E t0 n (s\<lparr>l_buf := b\<rparr>)" "linv E t0 n s \<Longrightarrow> linv E t0 n (s\<lparr>l_ws := w\<rparr>)"
  by (simp_all add: linv_def l_heap_def)

lemma linv_fail: "linv E t0 n s \<Longrightarrow> step_ok E t0 n (fail_with s)"
  by (auto simp: linv_def fail_with_def tree_inv_def l_heap_def)

lemma linv_Fail: "linv E t0 n s \<Longrightarrow> b \<noteq> None \<Longrightarrow> onward (l_r s) r \<Longrightarrow> step_ok E t0 n (Fail (l_first s) b r)"
  using linv_on(1) [of E t0 n s r] by (auto simp: linv_def tree_inv_def l_heap_def)

lemma fail_blame_runs: "linv E t0 n s \<Longrightarrow> runs (fail_blame null msg s) (step_ok E t0 n)"
  unfolding fail_blame_def
  by (rule runs_bind [OF blame_runs]) (auto intro!: linv_good linv_okp linv_fail linv_on(1))

lemma fail_report_runs: "linv E t0 n s \<Longrightarrow> runs (fail_report msg s) (step_ok E t0 n)"
  using linv_fail [OF linv_on(1) [OF _ onward_report [OF onward_refl]]] linv_good [of E t0 n s] by (simp add: fail_report_def)

lemma step_bind_runs:
  assumes "runs m (step_ok E t0 n)" "\<And>s. linv E t0 n s \<Longrightarrow> runs (f s) (step_ok E t0 n)"
  shows "runs (step_bind m f) (step_ok E t0 n)"
  unfolding step_bind_def by (rule runs_bind [OF assms(1)]) (use assms(2) in \<open>auto split: step.split\<close>)

lemma linv_grow:
  assumes "linv E t0 n s" "grants h = grants (l_heap s)" "tree_inv t0 h ch (l_parent s) (if l_first s = None then Some x else l_first s)"
  shows "linv E t0 n (keep_first (Some x) (with_heap h s))"
  using assms by (auto simp: linv_def ready_def keep_first_def with_heap_def l_heap_def good_heap left_heap)

end

end
