(* ===== verification/MxmlTotal.thy ===== *)
theory MxmlTotal
  imports MxmlSafe
begin

text \<open>
  The turns of \<open>mxml_load_data\<close> keep the invariant \<open>linv\<close> of \<open>MxmlSafe\<close>, and the loop ends: the part of the source that is
  left gets smaller with every turn. So a document is loaded, or refused, without a fault. The sources are interpreted here.
\<close>

section \<open>Turns\<close>

context char_source
begin

lemma linv_plenty: "linv E t0 n s \<Longrightarrow> \<forall>k. grants (l_heap s) k"
  by (simp add: linv_def ready_def l_heap_def)

lemma value_step_runs:
  assumes i: "linv E t0 n s" and E: "plain E"
  shows "runs (value_step E ch s) (step_ok E t0 n)"
proof -
  obtain c where c: "tree_inv t0 (l_heap s) c (l_parent s) (l_first s)" using i by (auto simp: linv_def)
  obtain h where h: "mxmlNewText (l_parent s) (l_ws s) (Some (b_text (l_buf s))) (l_heap s) = Ret (Some (tick (l_heap s)), h)"
    "grants h = grants (l_heap s)"
    "tree_inv t0 h (add_kid (l_parent s) (tick (l_heap s)) c) (l_parent s) (if l_first s = None then Some (tick (l_heap s)) else l_first s)"
    by (rule NewText_grow [OF c linv_plenty [OF i], of "l_ws s" "b_text (l_buf s)"]) blast
  have t: "l_type s = MXML_TEXT" using i by (simp add: linv_def)
  have "linv E t0 n (keep_first (Some (tick (l_heap s))) (with_heap h s))" by (rule linv_grow [OF i h(2,3)])
  moreover have "value_step E ch s =
      (if (ch = 60 \<or> mxml_isspace ch) \<and> b_text (l_buf s) \<noteq> [] then
         Some (Ret (More ((keep_first (Some (tick (l_heap s))) (with_heap h s))\<lparr>l_buf := (l_buf s)\<lparr>b_text := []\<rparr>, l_ws := (if mxml_isspace ch then 1 else 0)\<rparr>)))
       else if mxml_isspace ch then Some (Ret (More (s\<lparr>l_ws := 1\<rparr>))) else Some (Ret (More s)))"
    using E t h(1)
    by (auto simp: value_step_def new_value_def sax_done_def plain_def l_heap_def keep_first_def with_heap_def Let_def)
  ultimately show ?thesis using i linv_buf by simp
qed

lemma blank_step_runs:
  assumes i: "linv E t0 n s" and E: "plain E"
  shows "runs (blank_step E ch s) (step_ok E t0 n)"
proof -
  obtain c where c: "tree_inv t0 (l_heap s) c (l_parent s) (l_first s)" using i by (auto simp: linv_def)
  obtain h where h: "mxmlNewText (l_parent s) (l_ws s) (Some []) (l_heap s) = Ret (Some (tick (l_heap s)), h)"
    "grants h = grants (l_heap s)"
    "tree_inv t0 h (add_kid (l_parent s) (tick (l_heap s)) c) (l_parent s) (if l_first s = None then Some (tick (l_heap s)) else l_first s)"
    by (rule NewText_grow [OF c linv_plenty [OF i], of "l_ws s" "[]"]) blast
  have "linv E t0 n (keep_first (Some (tick (l_heap s))) (with_heap h s))" by (rule linv_grow [OF i h(2,3)])
  then show ?thesis using E h(1) i linv_buf by (simp add: blank_step_def sax_done_def plain_def)
qed

text \<open>What is done with the node of a comment, a section or a directive.\<close>

definition opens :: "'p lenv \<Rightarrow> ('p lst \<Rightarrow> nat option \<Rightarrow> 'p lst) \<Rightarrow> bool" where
  "opens E f \<longleftrightarrow> (\<forall>t0 n s x. linv E t0 n s \<longrightarrow> t0 \<le> x \<longrightarrow> elem_named (l_heap s) x \<longrightarrow> linv E t0 n (f s (Some x)))"

lemma opens_none: "opens E (\<lambda>s _. s)"
  by (simp add: opens_def)

lemma linv_parent: "linv E t0 n s \<Longrightarrow> t0 \<le> x \<Longrightarrow> elem_named (l_heap s) x \<Longrightarrow> linv E t0 n (s\<lparr>l_parent := Some x\<rparr>)"
  by (auto simp: linv_def l_heap_def tree_inv_def parent_ok_def)

lemma retype_plain: "plain E \<Longrightarrow> retype E s = s"
  by (simp add: retype_def plain_def)

lemma opens_directive: "plain E \<Longrightarrow> opens E (directive E)"
  by (simp add: opens_def directive_def retype_plain linv_parent)

lemma finish_node_runs:
  assumes i: "linv E t0 n s" and E: "plain E" and w: "got_ok (l_r s) w" and k: "k = fail_with \<or> k = Stop" and f: "opens E f"
  shows "runs (finish_node E ev what k f s w) (step_ok E t0 n)"
proof -
  obtain g r where gr: "w = (g, r)" "onward (l_r s) r" "g \<noteq> Bad None" using w by (cases w) (auto simp: got_ok_def)
  show ?thesis
  proof (cases g)
    case (Bad b)
    then show ?thesis using gr linv_Fail [OF i _ gr(2), of b] by (simp add: finish_node_def)
  next
    case (Got ch b)
    let ?s = "s\<lparr>l_r := r, l_buf := b\<rparr>"
    have i1: "linv E t0 n ?s" by (rule linv_on(2) [OF i gr(2)])
    obtain c where c: "tree_inv t0 (l_heap ?s) c (l_parent ?s) (l_first ?s)" using i1 by (auto simp: linv_def)
    obtain h where h: "mxmlNewElement (l_parent ?s) (Some (b_text b)) (l_heap ?s) = Ret (Some (tick (l_heap ?s)), h)"
      "grants h = grants (l_heap ?s)" "t0 \<le> tick (l_heap ?s)" "elem_named h (tick (l_heap ?s))"
      "tree_inv t0 h (add_kid (l_parent ?s) (tick (l_heap ?s)) c) (l_parent ?s) (if l_first ?s = None then Some (tick (l_heap ?s)) else l_first ?s)"
      by (rule NewElement_grow [OF c linv_plenty [OF i1], of "b_text b"]) blast
    have "linv E t0 n (keep_first (Some (tick (l_heap ?s))) (with_heap h ?s))" by (rule linv_grow [OF i1 h(2,5)])
    moreover have "l_heap (keep_first (Some (tick (l_heap ?s))) (with_heap h ?s)) = h" by (simp add: keep_first_def with_heap_def l_heap_def)
    ultimately have "linv E t0 n (f (keep_first (Some (tick (l_heap ?s))) (with_heap h ?s)) (Some (tick (l_heap ?s))))"
      using f h(3,4) unfolding opens_def by metis
    moreover have "with_heap h (with_heap h ?s) = with_heap h ?s" by (simp add: with_heap_def)
    ultimately have "runs (add_node E ev what k ?s f) (step_ok E t0 n)"
      using h(1) E by (simp add: add_node_def sax_done_def plain_def Let_def)
    then show ?thesis using gr(1) Got fail_report_runs [OF i1] by (simp add: finish_node_def Let_def)
  qed
qed

lemma decl_rest_runs:
  assumes rdy: "ready E r" and p: "okp (r_heap r) p"
  shows "runs (decl_rest E p ch b r) (got_ok r)"
proof -
  have "runs (rbind (take_char E True p ch b r) (\<lambda>(g, r).
        case g of Bad b \<Rightarrow> Some (Ret (Bad b, r)) | Got _ b \<Rightarrow> gather E (\<lambda>c _. c = 62) True never p b r)) (got_ok r)"
  proof (rule runs_bind [OF take_char_runs [OF assms]])
    fix w :: "got \<times> 'p rdr" assume w: "got_ok r w"
    obtain g q where gq: "w = (g, q)" "onward r q" using w by (cases w) (auto simp: got_ok_def)
    show "runs (case w of (g, r) \<Rightarrow>
        case g of Bad b \<Rightarrow> Some (Ret (Bad b, r)) | Got _ b \<Rightarrow> gather E (\<lambda>c _. c = 62) True never p b r) (got_ok r)"
    proof (cases g)
      case (Got c b)
      have "runs (gather E (\<lambda>c _. c = 62) True never p b q) (got_ok r)"
        by (rule runs_mono [OF gather_runs [OF onward_ready [OF gq(2) rdy] onward_okp [OF gq(2) p]] got_ok_trans [OF gq(2)]])
      then show ?thesis using gq(1) Got by simp
    qed (use w gq(1) in simp)
  qed
  then show ?thesis using onward_refl [OF ready_good [OF rdy]] by (simp add: decl_rest_def got_ok_def)
qed

lemma same_name_ok: "elem_named h p \<Longrightarrow> \<exists>b. same_name s p h = Ret b"
  by (auto simp: same_name_def rd_Some elem_def elim!: elem_namedD)

lemma close_tag_runs:
  assumes i: "linv E t0 n s" and E: "plain E"
  shows "runs (close_tag E ch s) (step_ok E t0 n)"
proof (cases "l_parent s")
  case None
  then show ?thesis using fail_blame_runs [OF i] by (simp add: close_tag_def)
next
  case (Some p)
  obtain c where c: "tree_inv t0 (l_heap s) c (l_parent s) (l_first s)" using i by (auto simp: linv_def)
  have p: "t0 \<le> p" "elem_named (l_heap s) p" using c Some by (auto simp: tree_inv_def parent_ok_def)
  obtain same where same: "same_name (tl (b_text (l_buf s))) p (l_heap s) = Ret same" using same_name_ok [OF p(2)] by blast
  have rdy: "ready E (l_r s)" using i by (simp add: linv_def)
  have "runs (if ch \<noteq> 62 \<and> ch \<noteq> EOF then skip_while E (\<lambda>c. c \<noteq> 62) (l_r s) else Some (Ret (ch, l_r s))) (\<lambda>(_, r). onward (l_r s) r)"
    using skip_while_runs [OF rdy] onward_refl [OF ready_good [OF rdy]] by simp
  then obtain d r where r: "(if ch \<noteq> 62 \<and> ch \<noteq> EOF then skip_while E (\<lambda>c. c \<noteq> 62) (l_r s) else Some (Ret (ch, l_r s))) = Some (Ret (d, r))"
    "onward (l_r s) r" unfolding runs_def by auto
  have i1: "linv E t0 n (s\<lparr>l_r := r\<rparr>)" by (rule linv_on(1) [OF i r(2)])
  then obtain c1 where c1: "tree_inv t0 (r_heap r) c1 (Some p) (l_first s)" using Some by (auto simp: linv_def l_heap_def)
  then obtain m where m: "cells (r_heap r) p = Some m" using elem_named_live by (fastforce simp: tree_inv_def parent_ok_def)
  have "parent_ok t0 (r_heap r) (n_parent m)"
    using c1 p(1) forest_parent [OF xinv_forest m] by (auto simp: tree_inv_def tree_ok_def parent_ok_def)
  then have "linv E t0 n (s\<lparr>l_r := r\<lparr>r_heap := r_heap r\<rparr>, l_parent := n_parent m\<rparr>)"
    using i1 c1 by (auto simp: linv_def l_heap_def tree_inv_def)
  then show ?thesis
    using Some same r(1) E fail_blame_runs [OF i] m by (simp add: close_tag_def plain_def rd_Some retype_def)
qed

lemma linv_buf_first: "linv E t0 n s \<Longrightarrow> onward (l_r s) r \<Longrightarrow> linv E t0 n (s\<lparr>l_r := r, l_buf := b\<rparr>)"
  by (rule linv_on(2))

lemma open_rest_runs:
  assumes rdy: "ready E r" and x: "elem_named (r_heap r) x" and i: "xinv (r_heap r) ch" and f: "live_opt (r_heap r) f"
    and a: "ch x = []" "f \<noteq> Some x"
  shows "runs (open_rest E nm x c r) (\<lambda>(d, q). if d = None then \<exists>ch. xinv (r_heap q) ch \<and> live_opt (r_heap q) f else onward r q)"
proof -
  have fail: "\<exists>ch. xinv (r_heap q) ch \<and> live_opt (r_heap q) f" if "onward r q" for q
    using that i f data_only_xinv [OF i] calm_live [of "r_heap r" "r_heap q" f] by (auto simp: onward_def calm_def)
  consider (sp) "mxml_isspace c" | (sl) "\<not> mxml_isspace c" "c = 47" | (no) "\<not> mxml_isspace c" "c \<noteq> 47" by blast
  then show ?thesis
  proof cases
    case sp
    have "runs (mxml_parse_element E x r) (\<lambda>(_, q). onward r q)" by (rule parse_element_runs [OF rdy x xinv_typed [OF i]])
    then obtain d q where q: "mxml_parse_element E x r = Some (Ret (d, q))" "onward r q" by (auto simp: runs_def)
    then show ?thesis using sp fail [OF q(2)] by (simp add: open_rest_def)
  next
    case sl
    obtain d q where q: "e_getc E r = Ret (d, q)" "onward r q" using getc_runs [OF rdy] by (auto simp: runs_def)
    let ?q = "report (''Expected > but got '' @ [CHR 0x27, byte d, CHR 0x27] @ '' instead for element <'' @ nm @ ''/>!'') q"
    have on: "onward r ?q" by (rule onward_report [OF q(2)])
    have iq: "xinv (r_heap ?q) ch" by (rule data_only_xinv [OF i]) (use on in \<open>simp add: onward_def calm_def\<close>)
    have "elem_named (r_heap ?q) x" "live_opt (r_heap ?q) f" using on x f calm_live by (auto simp: onward_def calm_def)
    then obtain h where h: "mxmlDelete (Some x) (r_heap ?q) = Some (Ret h)" "xinv h (pruned ch x)" "gone (under ch x) (r_heap ?q) h"
      using Delete_forest [OF iq elem_named_live] by blast
    have "under ch x = {x}" using a(1) under_split [of ch x] by simp
    then have "live_opt h f" using \<open>live_opt (r_heap ?q) f\<close> gone_live [OF h(3)] a(2) by (auto simp: live_opt_def)
    then show ?thesis using sl q h(1,2) by (auto simp: open_rest_def)
  next
    case no
    then show ?thesis using onward_refl [OF ready_good [OF rdy]] by (simp add: open_rest_def)
  qed
qed

lemma open_tag_runs:
  assumes i: "linv E t0 n s" and E: "plain E"
  shows "runs (open_tag E c s) (step_ok E t0 n)"
proof -
  obtain ch where ch: "tree_inv t0 (l_heap s) ch (l_parent s) (l_first s)" using i by (auto simp: linv_def)
  let ?x = "tick (l_heap s)" and ?nm = "b_text (l_buf s)"
  let ?ch = "add_kid (l_parent s) ?x ch"
  obtain h where h: "mxmlNewElement (l_parent s) (Some ?nm) (l_heap s) = Ret (Some ?x, h)"
    "grants h = grants (l_heap s)" "t0 \<le> ?x" "elem_named h ?x"
    "tree_inv t0 h ?ch (l_parent s) (if l_first s = None then Some ?x else l_first s)" "tree_inv t0 h ?ch (l_parent s) (l_first s)"
    "ch ?x = []" "l_first s \<noteq> Some ?x"
    by (rule NewElement_grow [OF ch linv_plenty [OF i], of ?nm])
  let ?r = "(l_r s)\<lparr>r_heap := h\<rparr>"
  have rdy: "ready E ?r" using i h(2) by (simp add: linv_def ready_def l_heap_def good_heap)
  have xi: "xinv h ?ch" using h(6) by (simp add: tree_inv_def)
  have lf: "live_opt h (l_first s)" using h(6) by (simp add: tree_inv_def)
  have xx: "?ch ?x = []" using h(7) forest_irrefl [OF xinv_forest, of h ?ch ?x] h(5) by (auto simp: add_kid_def tree_inv_def split: option.splits if_splits)
  then have "runs (open_rest E ?nm ?x c ?r) (\<lambda>(d, q). if d = None then \<exists>ch. xinv (r_heap q) ch \<and> live_opt (r_heap q) (l_first s) else onward ?r q)"
    using open_rest_runs [OF rdy, of ?x ?ch "l_first s" ?nm c] xx h(4,8) xi lf by simp
  then obtain d q where q: "open_rest E ?nm ?x c ?r = Some (Ret (d, q))"
    "if d = None then \<exists>ch. xinv (r_heap q) ch \<and> live_opt (r_heap q) (l_first s) else onward ?r q" by (auto simp: runs_def)
  show ?thesis
  proof (cases d)
    case None
    then show ?thesis using h(1) q by (simp add: open_tag_def fail_with_def)
  next
    case (Some e)
    have on: "onward ?r q" using q(2) Some by simp
    have "linv E t0 n (keep_first (Some ?x) (with_heap h s))" by (rule linv_grow [OF i h(2,5)])
    moreover have "l_r (keep_first (Some ?x) (with_heap h s)) = ?r" by (simp add: keep_first_def with_heap_def)
    ultimately have "linv E t0 n ((keep_first (Some ?x) (with_heap h s))\<lparr>l_r := q\<rparr>)" using on by (intro linv_on(1)) simp_all
    moreover have "(keep_first (Some ?x) (with_heap h s))\<lparr>l_r := q\<rparr> = keep_first (Some ?x) (s\<lparr>l_r := q\<rparr>)" by (simp add: keep_first_def with_heap_def)
    ultimately have i2: "linv E t0 n (keep_first (Some ?x) (s\<lparr>l_r := q\<rparr>))" by simp
    have "elem_named (r_heap q) ?x" using h(4) on by (simp add: onward_def calm_def)
    then have i3: "linv E t0 n ((keep_first (Some ?x) (s\<lparr>l_r := q\<rparr>))\<lparr>l_parent := Some ?x\<rparr>)"
      using linv_parent [OF i2 h(3)] by (simp add: l_heap_def keep_first_def)
    have qq: "q\<lparr>r_heap := r_heap q\<rparr> = q" by simp
    show ?thesis
      using h(1) q(1) Some E i2 i3
      by (simp add: open_tag_def plain_def retype_def Let_def)
  qed
qed

lemma clear_buf_ok: "step_ok E t0 n w \<Longrightarrow> step_ok E t0 n (clear_buf w)"
  by (cases w) (simp_all add: clear_buf_def linv_buf)

lemma tag_step_runs:
  assumes i: "linv E t0 n s" and E: "plain E"
  shows "runs (tag_step E s) (step_ok E t0 n)"
  unfolding tag_step_def
proof (rule runs_bind [where P = "got_ok (l_r s)"])
  show "runs (gather E tag_stop True tag_special (l_parent s) ((l_buf s)\<lparr>b_text := []\<rparr>) (l_r s)) (got_ok (l_r s))"
    using gather_runs [of E "l_r s" "l_parent s"] linv_okp [OF i] i by (simp add: linv_def)
next
  fix w :: "got \<times> 'p rdr" assume w: "got_ok (l_r s) w"
  obtain g r where gr: "w = (g, r)" "onward (l_r s) r" "g \<noteq> Bad None" using w by (cases w) (auto simp: got_ok_def)
  show "runs (case w of (g, r) \<Rightarrow> case g of Bad b \<Rightarrow> Some (Ret (Fail (l_first s) b r))
     | Got ch b \<Rightarrow>
         let s = s\<lparr>l_r := r, l_buf := b\<rparr>; t = b_text b
         in if ch = 60 then fail_report ''Bare < in element!'' s
            else rbind
              (if t = ''!--'' then
                 rbind (gather E comment_end False never (l_parent s) b r) (finish_node E SAX_COMMENT ''comment'' Stop (\<lambda>s _. s) s)
               else if t = ''![CDATA['' then
                 rbind (gather E cdata_end False never (l_parent s) b r) (finish_node E SAX_CDATA ''CDATA'' fail_with (\<lambda>s _. s) s)
               else if starts ''?'' t then
                 rbind (gather E pi_end False never (l_parent s) b r)
                   (finish_node E SAX_DIRECTIVE ''processing instruction'' fail_with (directive E) s)
               else if starts ''!'' t then
                 rbind (decl_rest E (l_parent s) ch b r) (finish_node E SAX_DIRECTIVE ''declaration'' fail_with (directive E) s)
               else if starts ''/'' t then close_tag E ch s
               else open_tag E ch s) (\<lambda>w. Some (Ret (clear_buf w)))) (step_ok E t0 n)"
  proof (cases g)
    case (Bad b)
    then show ?thesis using gr linv_Fail [OF i _ gr(2), of b] by simp
  next
    case (Got ch b)
    let ?s = "s\<lparr>l_r := r, l_buf := b\<rparr>"
    have i1: "linv E t0 n ?s" by (rule linv_on(2) [OF i gr(2)])
    have rdy: "ready E r" and okp: "okp (r_heap r) (l_parent ?s)" using i1 linv_okp [OF i1] by (simp_all add: linv_def)
    note G = gather_runs [OF rdy okp] and D = decl_rest_runs [OF rdy okp]
    have F: "runs (rbind m (finish_node E ev what k f ?s)) (step_ok E t0 n)"
      if "runs m (got_ok r)" "k = fail_with \<or> k = Stop" "opens E f" for m ev what k f
      by (rule runs_bind [OF that(1)]) (use finish_node_runs [OF i1 E _ that(2,3)] in simp)
    have K: "runs (rbind m (\<lambda>w. Some (Ret (clear_buf w)))) (step_ok E t0 n)" if "runs m (step_ok E t0 n)" for m
      by (rule runs_bind [OF that]) (simp add: clear_buf_ok)
    show ?thesis
      unfolding gr(1) Got prod.case got.case Let_def
    proof (intro runs_if K)
      show "runs (fail_report ''Bare < in element!'' ?s) (step_ok E t0 n)" by (rule fail_report_runs [OF i1])
      show "runs (close_tag E ch ?s) (step_ok E t0 n)" by (rule close_tag_runs [OF i1 E])
      show "runs (open_tag E ch ?s) (step_ok E t0 n)" by (rule open_tag_runs [OF i1 E])
    qed (rule F; use G D opens_none opens_directive [OF E] in blast)+
  qed
qed

section \<open>The loop\<close>

lemma text_step_runs:
  assumes i: "linv E t0 n s"
  shows "runs (text_step E ch s) (step_ok E t0 n)"
  unfolding text_step_def
proof (rule runs_bind [where P = "got_ok (l_r s)"])
  show "runs (take_char E True (l_parent s) ch (l_buf s) (l_r s)) (got_ok (l_r s))"
    using take_char_runs [of E "l_r s" "l_parent s"] linv_okp [OF i] i by (simp add: linv_def)
next
  fix w :: "got \<times> 'p rdr" assume w: "got_ok (l_r s) w"
  obtain g r where gr: "w = (g, r)" "onward (l_r s) r" "g \<noteq> Bad None" using w by (cases w) (auto simp: got_ok_def)
  show "runs (case w of (g, r) \<Rightarrow> case g of Bad b \<Rightarrow> Some (Ret (Fail (l_first s) b r)) | Got _ b \<Rightarrow> Some (Ret (More (s\<lparr>l_r := r, l_buf := b\<rparr>))))
      (step_ok E t0 n)"
    using gr linv_Fail [OF i _ gr(2)] linv_on(2) [OF i gr(2)] by (cases g) (simp_all del: step_ok.simps, simp)
qed

lemma load_char_runs:
  assumes "linv E t0 n s" "plain E"
  shows "runs (load_char E ch s) (step_ok E t0 n)"
  unfolding load_char_def
  by (intro step_bind_runs value_step_runs blank_step_runs runs_if tag_step_runs text_step_runs assms) auto

lemma linv_less: "linv E t0 n s \<Longrightarrow> linv E t0 (left (l_r s)) s"
  by (simp add: linv_def)

lemma linv_more: "linv E t0 n s \<Longrightarrow> n \<le> m \<Longrightarrow> linv E t0 m s"
  by (simp add: linv_def)

lemma step_ok_more: "step_ok E t0 n w \<Longrightarrow> n \<le> m \<Longrightarrow> step_ok E t0 m w"
  by (cases w) (auto intro: linv_more)

lemma load_loop_runs: "linv E t0 n s \<Longrightarrow> plain E \<Longrightarrow> runs (load_loop E s) (\<lambda>w. step_ok E t0 n w \<and> (\<forall>s. w \<noteq> More s))"
proof (induction n arbitrary: s rule: less_induct)
  case (less n)
  note i = less.prems(1) and E = less.prems(2)
  have rdy: "ready E (l_r s)" using i by (simp add: linv_def)
  show ?case
    unfolding load_loop.simps [of E s]
  proof (rule runs_bind [OF getc_runs [OF rdy]], clarify)
    fix ch r assume r: "onward (l_r s) r" "ch \<noteq> EOF \<longrightarrow> left r < left (l_r s)"
    let ?s = "s\<lparr>l_r := r\<rparr>"
    have i1: "linv E t0 n ?s" by (rule linv_on(1) [OF i r(1)])
    have "runs (rbind (load_char E ch ?s) (\<lambda>w. case w of More s \<Rightarrow> load_loop E s | _ \<Rightarrow> Some (Ret w)))
        (\<lambda>w. step_ok E t0 n w \<and> (\<forall>s. w \<noteq> More s))" if "ch \<noteq> EOF"
    proof (rule runs_bind [where P = "step_ok E t0 (left r)"])
      show "runs (load_char E ch ?s) (step_ok E t0 (left r))" using load_char_runs [OF linv_less [OF i1] E] by simp
      have lt: "left r < n" using r(2) that i by (simp add: linv_def)
      fix w :: "'p step" assume w: "step_ok E t0 (left r) w"
      show "runs (case w of More s \<Rightarrow> load_loop E s | _ \<Rightarrow> Some (Ret w)) (\<lambda>w. step_ok E t0 n w \<and> (\<forall>s. w \<noteq> More s))"
      proof (cases w)
        case (More s')
        have "runs (load_loop E s') (\<lambda>w. step_ok E t0 (left r) w \<and> (\<forall>s. w \<noteq> More s))"
          by (rule less.IH [OF lt _ E]) (use w More in simp)
        then show ?thesis using More lt by (auto elim!: runs_mono intro: step_ok_more)
      qed (use w lt step_ok_more [OF w, of n] in auto)
    qed
    then show "runs (if ch = EOF then Some (Ret (Stop ?s))
        else rbind (load_char E ch ?s) (\<lambda>w. case w of More s \<Rightarrow> load_loop E s | _ \<Rightarrow> Some (Ret w)))
        (\<lambda>w. step_ok E t0 n w \<and> (\<forall>s. w \<noteq> More s))"
      using i1 by simp
  qed
qed

end

lemma climb_runs:
  assumes "forest (cells h) ch" "tree_ok t0 h ch"
  shows "t0 \<le> x \<Longrightarrow> cells h x \<noteq> None \<Longrightarrow> runs (climb None x h) (\<lambda>p. cells h p \<noteq> None)"
proof (induction x rule: less_induct)
  case (less x)
  then obtain n where n: "cells h x = Some n" by blast
  show ?case
  proof (cases "n_parent n")
    case None
    then show ?thesis using n by (simp add: climb.simps [of None x h] rd_Some)
  next
    case (Some p)
    then have "x \<in> set (ch p)" using forest_parent [OF assms(1) n] by blast
    then have "t0 \<le> p" "p < x" "elem_named h p" using assms(2) less.prems(1) by (auto simp: tree_ok_def)
    then show ?thesis using less.IH [of p] elem_named_live Some n by (simp add: climb.simps [of None x h] rd_Some)
  qed
qed

context char_source
begin

lemma load_end_runs:
  assumes i: "linv E t0 n s"
  shows "runs (load_end None s) (\<lambda>(node, r). \<exists>ch. xinv (r_heap r) ch \<and> live_opt (r_heap r) node)"
proof -
  obtain ch where ch: "tree_inv t0 (l_heap s) ch (l_parent s) (l_first s)" using i by (auto simp: linv_def)
  have xi: "xinv (l_heap s) ch" and lf: "live_opt (l_heap s) (l_first s)" using ch by (auto simp: tree_inv_def)
  show ?thesis
  proof (cases "l_parent s")
    case None
    then show ?thesis using xi lf by (auto simp: load_end_def l_heap_def)
  next
    case (Some x)
    have x: "t0 \<le> x" "elem_named (l_heap s) x" using ch Some by (auto simp: tree_inv_def parent_ok_def)
    obtain p where p: "climb None x (l_heap s) = Some (Ret p)" "cells (l_heap s) p \<noteq> None"
      using climb_runs [OF xinv_forest [OF xi] _ x(1) elem_named_live [OF x(2)]] ch by (auto simp: runs_def tree_inv_def)
    obtain en where en: "name_of '''' (Some x) (l_heap s) = Ret en" using name_of_ok [of "l_heap s" "Some x"] x(2) by (auto simp: okp_def)
    obtain m where m: "cells (l_heap s) x = Some m" using elem_named_live [OF x(2)] by blast
    have "okp (l_heap s) (n_parent m)"
      using forest_parent [OF xinv_forest [OF xi] m] ch x(1) by (auto simp: okp_def tree_inv_def tree_ok_def)
    then obtain pn where pn: "name_of ''(null)'' (n_parent m) (l_heap s) = Ret pn" using name_of_ok by blast
    let ?h = "r_heap (report (''Missing close tag </'' @ en @ ''> under parent <'' @ pn @ ''>!'') (l_r s))"
    have cm: "calm (l_heap s) ?h" by (rule quiet_calm) (simp add: report_def l_heap_def)
    have xh: "xinv ?h ch" using data_only_xinv [OF xi] cm by (simp add: calm_def)
    obtain h where "mxmlDelete (l_first s) ?h = Some (Ret h)" "\<exists>ch. xinv h ch"
    proof (cases "l_first s")
      case None
      then show ?thesis using that xh by (auto simp: mxmlDelete_def)
    next
      case (Some f)
      have "cells ?h f \<noteq> None" using calm_live [OF cm lf] Some by (simp add: live_opt_def)
      then show ?thesis using Delete_forest [OF xh] that Some by metis
    qed
    then show ?thesis using Some p en m pn xi by (auto simp: load_end_def rd_Some Let_def l_heap_def live_opt_def)
  qed
qed

lemma load_data_runs:
  assumes E: "plain E" "e_getc E = getc" and h: "xinv h ch" "\<forall>k. grants h k"
    and g: "\<And>h. good \<lparr>r_src = p, r_enc = ENCODE_UTF8, r_heap = h\<rparr>"
  shows "runs (mxml_load_data E None p h) (\<lambda>(node, r). \<exists>ch. xinv (r_heap r) ch \<and> live_opt (r_heap r) node)"
proof -
  let ?h = "h\<lparr>tick := Suc (tick h)\<rparr>" and ?t = "tick h"
  let ?r = "\<lparr>r_src = p, r_enc = ENCODE_UTF8, r_heap = ?h\<rparr>"
  let ?s = "\<lparr>l_r = ?r, l_buf = new_buf, l_first = None, l_parent = None, l_ws = 0, l_type = MXML_TEXT\<rparr>"
  have x: "xinv ?h ch" by (rule xinv_tick [OF h(1)]) simp
  have "tree_ok ?t ?h ch" using xinv_forest [OF h(1)] forest_live xinv_fresh [OF h(1)] by (fastforce simp: tree_ok_def)
  then have "tree_inv ?t ?h ch None None" using x by (simp add: tree_inv_def parent_ok_def live_opt_def)
  then have "linv E ?t (left ?r) ?s" using g E(2) h(2) by (auto simp: linv_def ready_def l_heap_def)
  then have "runs (load_loop E ?s) (\<lambda>w. step_ok E ?t (left ?r) w \<and> (\<forall>s. w \<noteq> More s))" by (rule load_loop_runs [OF _ E(1)])
  then obtain w where w: "load_loop E ?s = Some (Ret w)" "step_ok E ?t (left ?r) w" "\<forall>s. w \<noteq> More s" by (auto simp: runs_def)
  have start: "mxml_load_data E None p h =
      (case w of Fail top_node b r \<Rightarrow>
               rbind (mxmlDelete top_node (r_heap r)) (\<lambda>h.
               case b of None \<Rightarrow> Some (Crash UseAfterFree) | Some _ \<Rightarrow> Some (Ret (None, r\<lparr>r_heap := h\<rparr>)))
           | Stop s \<Rightarrow> load_end None s | More s \<Rightarrow> load_end None s)"
    using w(1) h(2) E(1) by (simp add: mxml_load_data_def granted_def retype_def plain_def)
  show ?thesis
  proof (cases w)
    case (Stop s)
    then show ?thesis using start w(2) load_end_runs [of E ?t _ s] by simp
  next
    case (Fail f b r)
    then obtain ch1 where c: "b \<noteq> None" "xinv (r_heap r) ch1" "live_opt (r_heap r) f" using w(2) by auto
    obtain h1 where "mxmlDelete f (r_heap r) = Some (Ret h1)" "\<exists>ch. xinv h1 ch"
    proof (cases f)
      case None
      then show ?thesis using that c by (auto simp: mxmlDelete_def)
    next
      case (Some y)
      then show ?thesis using Delete_forest [OF c(2), of y] c(3) that by (auto simp: live_opt_def)
    qed
    then show ?thesis using start Fail c(1) by (auto simp: live_opt_def)
  qed (use w(3) in simp)
qed

end

section \<open>The sources\<close>

lemma checked_quiet: "checked ch r = (c, q) \<Longrightarrow> quiet (r_heap r) (r_heap q) \<and> r_src q = r_src r \<and> r_enc q = r_enc r"
  by (auto simp: checked_def report_def split: if_splits)

definition text_left :: "string rdr \<Rightarrow> bool" where
  "text_left r \<longleftrightarrow> r_enc r = ENCODE_UTF8 \<and> NUL \<in> set (r_src r)"

lemma of_char_0: "(of_char c :: int) = 0 \<longleftrightarrow> c = NUL"
  using of_char_eq_iff [of c NUL, where ?'a = int] by simp

interpretation str: char_source mxml_string_getc text_left "\<lambda>r. length (r_src r)"
proof
  fix r :: "string rdr" assume g: "text_left r"
  then obtain c s where c: "r_src r = c # s" by (cases "r_src r") (auto simp: text_left_def)
  show "\<exists>ch r'. mxml_string_getc r = Ret (ch, r') \<and> text_left r' \<and> quiet (r_heap r) (r_heap r') \<and> length (r_src r') \<le> length (r_src r) \<and>
      (ch \<noteq> EOF \<longrightarrow> length (r_src r') < length (r_src r))"
  proof (cases "c = NUL")
    case True
    then show ?thesis using g c by (auto simp: mxml_string_getc_def string_getc_def text_left_def peek_def)
  next
    case False
    obtain ch q where q: "checked (of_char c) (skip 1 r) = (ch, q)" by fastforce
    then have "mxml_string_getc r = Ret (ch, q)"
      using g c False of_char_0 [of c] by (simp add: mxml_string_getc_def string_getc_def text_left_def peek_def)
    then show ?thesis using checked_quiet [OF q] g c False by (auto simp: skip_def text_left_def)
  qed
qed (simp_all add: text_left_def)

text \<open>Sources that hand out bytes, such as files and descriptors: they give a source of characters, in either build.\<close>

locale byte_source =
  fixes nextb :: "'p nextb" and len :: "'p \<Rightarrow> nat" and multi stops :: bool
  assumes nextb_less: "nextb p = (b, q) \<Longrightarrow> len q \<le> len p \<and> (b \<noteq> EOF \<longrightarrow> len q < len p)"
begin

definition further :: "'p rdr \<Rightarrow> 'p rdr \<Rightarrow> bool" where
  "further r q \<longleftrightarrow> quiet (r_heap r) (r_heap q) \<and> len (r_src q) \<le> len (r_src r)"

lemma further_refl: "further r r"
  by (simp add: further_def)

lemma further_trans: "further r q \<Longrightarrow> further q p \<Longrightarrow> further r p"
  using quiet_trans by (auto simp: further_def)

lemma further_enc: "further r q \<Longrightarrow> further r (q\<lparr>r_enc := e\<rparr>)"
  by (simp add: further_def)

lemma rnext_further: "rnext nextb r = (b, q) \<Longrightarrow> further r q \<and> (b \<noteq> EOF \<longrightarrow> len (r_src q) < len (r_src r))"
  using nextb_less [of "r_src r"] by (auto simp: rnext_def further_def split: prod.splits)

lemma checked_further: "checked ch r = (c, q) \<Longrightarrow> further r q"
  using checked_quiet by (auto simp: further_def)

lemma cont_further: "read_cont nextb n ch r = (c, q) \<Longrightarrow> further r q"
proof (induction n arbitrary: ch r)
  case (Suc n)
  obtain b q1 where 1: "rnext nextb r = (b, q1)" by fastforce
  then show ?case
    using Suc.IH [of "ch * 64 + b mod 64" q1] Suc.prems rnext_further [OF 1] further_trans [of r q1 q]
    by (auto split: if_splits)
qed (simp add: further_refl)

lemma multi_further: "read_multi nextb n ch least r = (c, q) \<Longrightarrow> further r q"
  using cont_further [of n ch r] by (auto simp: read_multi_def split: prod.splits)

lemma wide_further: "read_getc16 stops nextb ch r = (c, q) \<Longrightarrow> further r q"
  using rnext_further checked_further further_trans further_refl
  unfolding read_getc16_def Let_def
  by (auto split: prod.splits if_splits) (meson further_trans)+

lemma read_further:
  assumes "read_getc multi stops nextb r = (c, q)"
  shows "further r q \<and> (c \<noteq> EOF \<longrightarrow> len (r_src q) < len (r_src r))"
proof -
  obtain b r1 where 1: "rnext nextb r = (b, r1)" by fastforce
  show ?thesis
  proof (cases "b = EOF")
    case True
    then show ?thesis using assms 1 rnext_further [OF 1] by (simp add: read_getc_def)
  next
    case False
    have "further r1 q"
    proof (cases "r_enc r1 = ENCODE_UTF8 \<and> multi \<and> \<not> b < 128 \<and> (b = 0xfe \<or> b = 0xff)")
      case True
      obtain d r2 where 2: "rnext nextb r1 = (d, r2)" by fastforce
      obtain e r3 where 3: "rnext nextb (r2\<lparr>r_enc := if b = 0xfe then ENCODE_UTF16BE else ENCODE_UTF16LE\<rparr>) = (e, r3)" by fastforce
      have f: "further r1 r2" "further r1 r3" using rnext_further [OF 2] rnext_further [OF 3] further_trans further_enc by blast+
      have "(c, q) = (if d \<noteq> (if b = 0xfe then 0xff else 0xfe) then (EOF, r2) else if e = EOF then (EOF, r3) else read_getc16 stops nextb e r3)"
        using assms 1 2 3 False True by (cases "b = 0xfe") (simp_all add: read_getc_def Let_def split: if_splits)
      then show ?thesis using f wide_further [of e r3 c q] further_trans by (metis prod.inject)
    next
      case other: False
      then show ?thesis
        using assms 1 False wide_further [of b r1 c q] checked_further [of b r1 c q] multi_further [of _ _ _ r1 c q] further_refl [of r1]
        by (auto simp: read_getc_def Let_def split: if_splits)
    qed
    then show ?thesis using rnext_further [OF 1] False further_trans by (auto simp: further_def)
  qed
qed

sublocale char_source "\<lambda>r. Ret (read_getc multi stops nextb r)" "\<lambda>_. True" "\<lambda>r. len (r_src r)"
proof
  fix r :: "'p rdr"
  obtain c q where q: "read_getc multi stops nextb r = (c, q)" by fastforce
  then show "\<exists>ch r'. Ret (read_getc multi stops nextb r) = Ret (ch, r') \<and> True \<and> quiet (r_heap r) (r_heap r') \<and>
      len (r_src r') \<le> len (r_src r) \<and> (ch \<noteq> EOF \<longrightarrow> len (r_src r') < len (r_src r))"
    using read_further [OF q] by (auto simp: further_def)
qed simp_all

end

interpretation fsrc: byte_source file_next length multi stops for multi stops
  by unfold_locales (auto elim: file_next.elims)

fun reads_left :: "fdread list \<Rightarrow> nat" where
  "reads_left [] = 0"
| "reads_left (Bytes b # rs) = length b + reads_left rs"
| "reads_left (_ # rs) = reads_left rs"

lemma fd_read_left: "mxml_fd_read rs = (s, rs') \<Longrightarrow> (case s of None \<Rightarrow> 0 | Some b \<Rightarrow> length b) + reads_left rs' \<le> reads_left rs"
  by (induction rs rule: mxml_fd_read.induct) (auto split: if_splits)

lemma fd_next_left:
  assumes "fd_next f = (b, g)"
  shows "length (fd_cur g) + reads_left (fd_reads g) \<le> length (fd_cur f) + reads_left (fd_reads f) \<and>
    (b \<noteq> EOF \<longrightarrow> length (fd_cur g) + reads_left (fd_reads g) < length (fd_cur f) + reads_left (fd_reads f))"
proof (cases "fd_cur f")
  case Nil
  obtain s rs where r: "mxml_fd_read (fd_reads f) = (s, rs)" by fastforce
  then show ?thesis using assms Nil fd_read_left [OF r] by (auto simp: fd_next_def split: option.splits list.splits)
qed (use assms in \<open>auto simp: fd_next_def\<close>)

interpretation dsrc: byte_source fd_next "\<lambda>f. length (fd_cur f) + reads_left (fd_reads f)" multi stops for multi stops
  by unfold_locales (rule fd_next_left)

section \<open>Loading\<close>

lemma LoadString_total:
  assumes "xinv h ch" "\<forall>k. grants h k" "e_multi E = False"
  shows "runs (mxmlLoadString E None s None h) (\<lambda>(node, r). \<exists>ch. xinv (r_heap r) ch \<and> live_opt (r_heap r) node)"
  unfolding mxmlLoadString_def
  by (rule str.load_data_runs [OF _ _ assms(1,2)]) (use assms(3) in \<open>simp_all add: str.plain_def mxml_string_getc_def text_left_def\<close>)

lemma LoadFile_total:
  assumes "xinv h ch" "\<forall>k. grants h k"
  shows "runs (mxmlLoadFile E None fp None h) (\<lambda>(node, r). \<exists>ch. xinv (r_heap r) ch \<and> live_opt (r_heap r) node)"
  unfolding mxmlLoadFile_def
  by (rule fsrc.load_data_runs [OF _ _ assms]) (simp_all add: fsrc.plain_def)

lemma LoadFd_total:
  assumes "xinv h ch" "\<forall>k. grants h k"
  shows "runs (mxmlLoadFd E None reads None h) (\<lambda>(node, r). \<exists>ch. xinv (r_heap r) ch \<and> live_opt (r_heap r) node)"
  unfolding mxmlLoadFd_def
  by (rule dsrc.load_data_runs [OF _ _ assms]) (simp_all add: dsrc.plain_def)

end
