(* ===== verification/XmlParse.thy ===== *)
theory XmlParse
  imports XmlText MxmlTotal
begin

text \<open>
  Reading a document back. For a document of the form that the writer gives a text to (\<open>document\<close>), the reader of \<open>mxml-file.c\<close>,
  on \<open>xml_text\<close> followed by anything, makes the nodes of that document and goes on with the rest. The proof follows the reader:
  a character, a loop that fills a buffer, an attribute, a tag, an element with its content. \<open>src s h\<close> is a string source at
  the text \<open>s\<close>.
\<close>

section \<open>Documents that can be read\<close>

definition readable_char :: "char \<Rightarrow> bool" where
  "readable_char c \<longleftrightarrow> \<not> mxml_bad_char (of_char c)"

definition name_char :: "char \<Rightarrow> bool" where
  "name_char c \<longleftrightarrow> 32 < (of_char c :: int) \<and> c \<notin> set ''<>&/=?'' \<and> c \<noteq> CHR 0x22 \<and> c \<noteq> CHR 0x27"

definition plain_name :: "string \<Rightarrow> bool" where
  "plain_name nm \<longleftrightarrow> nm \<noteq> [] \<and> list_all name_char nm \<and> \<not> starts ''!'' nm"

definition pi_name :: "string \<Rightarrow> bool" where
  "pi_name nm \<longleftrightarrow> (let w = butlast (tl nm) in nm = ''?'' @ w @ ''?'' \<and> list_all (\<lambda>c. readable_char c \<and> c \<noteq> CHR ''>'') w)"

lemma pi_name_iff: "pi_name nm \<longleftrightarrow> (\<exists>w. nm = ''?'' @ w @ ''?'' \<and> list_all (\<lambda>c. readable_char c \<and> c \<noteq> CHR ''>'') w)"
  by (auto simp: pi_name_def Let_def)

fun readable :: "xtree \<Rightarrow> bool" where
  "readable (Elem nm as sub) \<longleftrightarrow> plain_name nm \<and> distinct (map fst as) \<and>
     list_all (\<lambda>a. plain_name (fst a) \<and> list_all readable_char (snd a)) as \<and> list_all readable sub"

text \<open>The root may be a processing instruction, as in the messages of \<open>xml.c\<close>.\<close>

fun document :: "xtree \<Rightarrow> bool" where
  "document (Elem nm as sub) \<longleftrightarrow> readable (Elem nm as sub) \<or> pi_name nm \<and> as = [] \<and> list_all readable sub"

section \<open>Characters\<close>

definition src :: "string \<Rightarrow> xheap \<Rightarrow> string rdr" where
  "src s h = \<lparr>r_src = s, r_enc = ENCODE_UTF8, r_heap = h\<rparr>"

lemma src_simps [simp]: "r_heap (src s h) = h" "r_src (src s h) = s" "(src s h)\<lparr>r_heap := h'\<rparr> = src s h'"
  "src s h = src s' h' \<longleftrightarrow> s = s' \<and> h = h'"
  by (simp_all add: src_def)

text \<open>The reader as \<open>mxmlLoadString\<close> sets it up; the entities of the writer are known.\<close>

definition std :: "string lenv \<Rightarrow> bool" where
  "std E \<longleftrightarrow> e_getc E = mxml_string_getc \<and> \<not> e_multi E \<and> e_type E = None \<and> e_sax E = None \<and>
     (\<forall>c name. mxmlEntityGetName c = Some name \<longrightarrow> e_entity E name = c)"

definition rich :: "xheap \<Rightarrow> bool" where
  "rich h \<longleftrightarrow> (\<forall>k. grants h k)"

lemma rich_quiet: "rich h \<Longrightarrow> quiet h h' \<Longrightarrow> rich h'"
  by (simp add: rich_def quiet_def)

lemma getc_char: "std E \<Longrightarrow> readable_char c \<Longrightarrow> e_getc E (src (c # s) h) = Ret (of_char c, src s h)"
  by (auto simp: std_def readable_char_def mxml_string_getc_def string_getc_def src_def peek_def skip_def checked_def mxml_bad_char_def)

lemma getc_NUL: "std E \<Longrightarrow> e_getc E (src (NUL # s) h) = Ret (EOF, src (NUL # s) h)"
  by (simp add: std_def mxml_string_getc_def string_getc_def src_def peek_def)

lemma byte_of_char [simp]: "byte (of_char c) = c"
  using of_char_int [of c] by (simp add: byte_def)

text \<open>A character is added to the buffer.\<close>

lemma add_char_plain:
  assumes "rich h"
  obtains b' h' where "add_char False (of_char c) b h = (Some b', h')" "b_text b' = b_text b @ [c]" "quiet h h'"
proof -
  have "(if (of_char c :: int) < 128 \<or> \<not> False \<and> of_char c div 128 mod 2 = (1 :: int) then [byte (of_char c)] else utf8_bytes (of_char c)) = [c]"
    using of_char_int [of c] by (auto simp: zdiv_eq_0_iff div_pos_geq)
  then have "\<exists>b' h'. add_char False (of_char c) b h = (Some b', h') \<and> b_text b' = b_text b @ [c] \<and> quiet h h'"
    using assms by (simp add: add_char_def granted_def rich_def put_bytes_def quiet_def Let_def)
  then show ?thesis using that by blast
qed

lemma take_plain:
  assumes "std E" "rich h" "c \<noteq> CHR ''&'' \<or> \<not> ents"
  obtains b' h' where "take_char E ents p (of_char c) b (src s h) = Some (Ret (Got (of_char c) b', src s h'))"
    "b_text b' = b_text b @ [c]" "quiet h h'"
proof -
  obtain b' h' where b': "add_char False (of_char c) b h = (Some b', h')" "b_text b' = b_text b @ [c]" "quiet h h'"
    by (rule add_char_plain [OF assms(2)])
  have "\<not> (ents \<and> of_char c = (38 :: int))" using assms(3) of_char_eq_iff [of c "CHR ''&''", where 'a = int] by auto
  then have "take_char E ents p (of_char c) b (src s h) = Some (Ret (Got (of_char c) b', src s h'))"
    using b'(1) assms(1) by (cases ents) (simp_all add: take_char_def std_def)
  then show ?thesis using that b'(2,3) by blast
qed

text \<open>The name of an entity is read up to the semicolon.\<close>

lemma entity_loop_name:
  "std E \<Longrightarrow> list_all (\<lambda>c. isalnum (of_char c)) w \<Longrightarrow> length (acc @ w) < 63 \<Longrightarrow>
    entity_loop E p acc (src (w @ CHR '';'' # s) h) = Some (Ret ((59, acc @ w), src s h))"
proof (induction w arbitrary: acc)
  case Nil
  have "e_getc E (src (CHR '';'' # s) h) = Ret (59, src s h)" using getc_char [OF Nil.prems(1), of "CHR '';''" s h] by (simp add: readable_char_def mxml_bad_char_def)
  then show ?case by (simp add: entity_loop.simps [of E p acc] isalnum_def)
next
  case (Cons c w)
  have c: "isalnum (of_char c)" "readable_char c" using Cons.prems(2) by (auto simp: isalnum_def readable_char_def mxml_bad_char_def)
  then have "of_char c \<noteq> EOF" "\<not> of_char c > (126 :: int)" by (auto simp: isalnum_def)
  then show ?case
    using Cons.IH [of "acc @ [c]"] Cons.prems c getc_char [OF Cons.prems(1) c(2), of "w @ CHR '';'' # s" h]
    by (simp add: entity_loop.simps [of E p acc])
qed

lemma GetName_cases:
  assumes "mxmlEntityGetName c = Some name"
  shows "list_all (\<lambda>c. isalnum (of_char c)) name \<and> length name < 63 \<and> \<not> starts ''#'' name \<and> name \<noteq> [] \<and> 32 < c \<and> c < 128"
  using assms by (auto simp: mxmlEntityGetName_def isalnum_def starts_def split: if_splits)

text \<open>A character of a value, as the writer writes it.\<close>

lemma get_entity_name:
  assumes "std E" "mxmlEntityGetName c = Some name"
  shows "mxml_get_entity E p (src (name @ '';'' @ s) h) = Some (Ret (c, src s h))"
proof -
  note n = GetName_cases [OF assms(2)]
  have "entity_code E name = c"
    using n assms by (cases name) (auto simp: entity_code_def std_def starts_def)
  then show ?thesis
    using entity_loop_name [OF assms(1), of name "[]" p s h] n by (simp add: mxml_get_entity_def mxml_bad_char_def)
qed

lemma esc_char_cases:
  obtains (plain) "esc_char c = [c]" "c \<noteq> CHR ''&''" "c \<noteq> CHR 0x22"
  | (name) name where "mxmlEntityGetName (of_char c) = Some name" "esc_char c = ''&'' @ name @ '';''"
proof (cases "mxmlEntityGetName (schar c)")
  case None
  then have "c \<noteq> CHR ''&''" "c \<noteq> CHR 0x22" by (auto simp: mxmlEntityGetName_def schar_def)
  then show ?thesis using None that(1) by (simp add: esc_char_def)
next
  case (Some name)
  then have "32 < schar c" using GetName_cases [OF Some] by simp
  then have "schar c = of_char c" using of_char_int [of c] by (auto simp: schar_def split: if_splits)
  then show ?thesis using that(2) Some by (simp add: esc_char_def)
qed

lemma take_value:
  assumes E: "std E" "rich h" and c: "readable_char c"
  obtains ch s' b' h' where "e_getc E (src (esc_char c @ s) h) = Ret (ch, src s' h)" "ch \<noteq> EOF" "ch \<noteq> 34"
    "take_char E True p ch b (src s' h) = Some (Ret (Got (of_char c) b', src s h'))" "b_text b' = b_text b @ [c]" "quiet h h'"
proof (cases rule: esc_char_cases [of c])
  case plain
  have "of_char c \<noteq> EOF" "of_char c \<noteq> (34 :: int)" using plain(3) of_char_int [of c] of_char_eq_iff [of c "CHR 0x22", where 'a = int] by auto
  moreover obtain b' h' where "take_char E True p (of_char c) b (src s h) = Some (Ret (Got (of_char c) b', src s h'))"
    "b_text b' = b_text b @ [c]" "quiet h h'"
    by (rule take_plain [OF E, of c True p b s]) (use plain(2) that in auto)
  ultimately show ?thesis using that [of "of_char c" s b' h'] getc_char [OF E(1) c, of s h] plain(1) by simp
next
  case (name name)
  obtain b' h' where b': "add_char False (of_char c) b h = (Some b', h')" "b_text b' = b_text b @ [c]" "quiet h h'"
    by (rule add_char_plain [OF E(2)])
  have "e_getc E (src (esc_char c @ s) h) = Ret (38, src (name @ '';'' @ s) h)"
    using getc_char [OF E(1), of "CHR ''&''" "name @ '';'' @ s" h] name(2) by (simp add: readable_char_def mxml_bad_char_def)
  moreover have "take_char E True p 38 b (src (name @ '';'' @ s) h) = Some (Ret (Got (of_char c) b', src s h'))"
    using get_entity_name [OF E(1) name(1), of p s h] b'(1) E(1) GetName_cases [OF name(1)] by (simp add: take_char_def std_def)
  ultimately show ?thesis using that b'(2,3) by simp
qed

section \<open>Loops over characters\<close>

text \<open>Filling the buffer \<open>b\<close> with a text: afterwards the buffer is \<open>b'\<close>, and the heap differs in its clock.\<close>

definition filled :: "string \<Rightarrow> strbuf \<Rightarrow> xheap \<Rightarrow> strbuf \<Rightarrow> xheap \<Rightarrow> bool" where
  "filled w b h b' h' \<longleftrightarrow> b_text b' = b_text b @ w \<and> quiet h h'"

lemma filled_Cons: "b_text b1 = b_text b @ [c] \<Longrightarrow> quiet h h1 \<Longrightarrow> filled w b1 h1 b' h' \<Longrightarrow> filled (c # w) b h b' h'"
  using quiet_trans by (auto simp: filled_def)

lemma of_char_not_EOF [simp]: "(of_char c :: int) \<noteq> EOF"
  using of_char_int [of c] by simp

lemma gather_stop:
  "std E \<Longrightarrow> readable_char c \<Longrightarrow> halt (of_char c) (b_text b) \<Longrightarrow> gather E halt ents fin p b (src (c # s) h) = Some (Ret (Got (of_char c) b, src s h))"
  by (simp add: gather.simps [of E halt ents fin p b] getc_char)

lemma gather_step:
  assumes "std E" "rich h" "readable_char c" "c \<noteq> CHR ''&'' \<or> \<not> ents" "\<not> halt (of_char c) (b_text b)"
  obtains b1 h1 where "b_text b1 = b_text b @ [c]" "quiet h h1"
    "gather E halt ents fin p b (src (c # s) h) =
       (if fin False (of_char c) (b_text b @ [c]) then Some (Ret (Got (of_char c) b1, src s h1)) else gather E halt ents fin p b1 (src s h1))"
proof -
  obtain b1 h1 where b1: "take_char E ents p (of_char c) b (src s h) = Some (Ret (Got (of_char c) b1, src s h1))"
    "b_text b1 = b_text b @ [c]" "quiet h h1"
    by (rule take_plain [OF assms(1,2,4)])
  have "(ents \<and> of_char c = (38 :: int)) = False" using assms(4) of_char_eq_iff [of c "CHR ''&''", where 'a = int] by auto
  then have "gather E halt ents fin p b (src (c # s) h) =
      (if fin False (of_char c) (b_text b @ [c]) then Some (Ret (Got (of_char c) b1, src s h1)) else gather E halt ents fin p b1 (src s h1))"
    using b1(1,2) assms(5) by (cases ents) (simp_all add: gather.simps [of E halt _ fin p b "src (c # s) h"] getc_char [OF assms(1,3)])
  then show ?thesis by (rule that [OF b1(2,3)])
qed

lemma gather_text:
  "std E \<Longrightarrow> rich h \<Longrightarrow> list_all (\<lambda>c. readable_char c \<and> (c \<noteq> CHR ''&'' \<or> \<not> ents)) w \<Longrightarrow>
    \<forall>u c v. w = u @ c # v \<longrightarrow> \<not> halt (of_char c) (b_text b @ u) \<and> \<not> fin False (of_char c) (b_text b @ u @ [c]) \<Longrightarrow>
    \<exists>b' h'. gather E halt ents fin p b (src (w @ s) h) = gather E halt ents fin p b' (src s h') \<and> filled w b h b' h'"
proof (induction w arbitrary: b h)
  case Nil
  then show ?case by (intro exI [of _ b] exI [of _ h]) (simp add: filled_def)
next
  case (Cons c w)
  have no: "\<not> halt (of_char c) (b_text b)" "\<not> fin False (of_char c) (b_text b @ [c])" using Cons.prems(4) by fastforce+
  obtain b1 h1 where 1: "b_text b1 = b_text b @ [c]" "quiet h h1"
    "gather E halt ents fin p b (src (c # (w @ s)) h) = gather E halt ents fin p b1 (src (w @ s) h1)"
    by (rule gather_step [OF Cons.prems(1,2), of c ents halt b fin p "w @ s"]) (use Cons.prems(3) no that in auto)
  have "\<forall>u d v. w = u @ d # v \<longrightarrow> \<not> halt (of_char d) (b_text b1 @ u) \<and> \<not> fin False (of_char d) (b_text b1 @ u @ [d])"
    using Cons.prems(4) 1(1) by (metis append.assoc append_Cons append_Nil)
  then obtain b' h' where "gather E halt ents fin p b1 (src (w @ s) h1) = gather E halt ents fin p b' (src s h')" "filled w b1 h1 b' h'"
    using Cons.IH [OF Cons.prems(1) rich_quiet [OF Cons.prems(2) 1(2)], of b1] Cons.prems(3) by auto
  then show ?case using 1(3) filled_Cons [OF 1(1,2), of w b' h'] by (intro exI [of _ b'] exI [of _ h']) simp
qed

lemma gather_value:
  "std E \<Longrightarrow> rich h \<Longrightarrow> list_all readable_char v \<Longrightarrow>
    \<exists>b' h'. gather E (\<lambda>c _. c = 34) True never p b (src (escape v @ CHR 0x22 # s) h) = Some (Ret (Got 34 b', src s h')) \<and> filled v b h b' h'"
proof (induction v arbitrary: b h)
  case Nil
  have "of_char (CHR 0x22) = (34 :: int)" by simp
  then show ?case
    using gather_stop [OF Nil.prems(1), of "CHR 0x22" "\<lambda>c _. c = 34" b True never p s h]
    by (auto simp: escape_def filled_def readable_char_def mxml_bad_char_def)
next
  case (Cons c v)
  obtain ch s' b1 h1 where 1: "e_getc E (src (esc_char c @ escape v @ CHR 0x22 # s) h) = Ret (ch, src s' h)" "ch \<noteq> EOF" "ch \<noteq> 34"
    "take_char E True p ch b (src s' h) = Some (Ret (Got (of_char c) b1, src (escape v @ CHR 0x22 # s) h1))"
    "b_text b1 = b_text b @ [c]" "quiet h h1"
    by (rule take_value [OF Cons.prems(1,2), of c "escape v @ CHR 0x22 # s" p b]) (use Cons.prems(3) that in auto)
  obtain b' h' where "gather E (\<lambda>c _. c = 34) True never p b1 (src (escape v @ CHR 0x22 # s) h1) = Some (Ret (Got 34 b', src s h'))"
    "filled v b1 h1 b' h'"
    using Cons.IH [OF Cons.prems(1) rich_quiet [OF Cons.prems(2) 1(6)], of b1] Cons.prems(3) by auto
  then show ?case
    using 1 filled_Cons [OF 1(5,6)]
    by (simp add: gather.simps [of E _ True never p b] escape_def)
qed

section \<open>Attributes\<close>

lemma name_charD:
  assumes "name_char c"
  shows "readable_char c" "c \<noteq> CHR ''&''" "\<not> mxml_isspace (of_char c)" "of_char c \<noteq> (34 :: int)" "of_char c \<noteq> (39 :: int)" "of_char c \<noteq> (47 :: int)"
    "of_char c \<noteq> (60 :: int)" "of_char c \<noteq> (61 :: int)" "of_char c \<noteq> (62 :: int)" "of_char c \<noteq> (63 :: int)"
proof -
  have "of_char c \<noteq> (of_char d :: int)" if "c \<noteq> d" for d using that by simp
  from this [of "CHR 0x22"] this [of "CHR 0x27"] this [of "CHR ''/''"] this [of "CHR ''<''"] this [of "CHR ''=''"] this [of "CHR ''>''"]
    this [of "CHR ''?''"] assms
  show "readable_char c" "c \<noteq> CHR ''&''" "\<not> mxml_isspace (of_char c)" "of_char c \<noteq> (34 :: int)" "of_char c \<noteq> (39 :: int)" "of_char c \<noteq> (47 :: int)"
    "of_char c \<noteq> (60 :: int)" "of_char c \<noteq> (61 :: int)" "of_char c \<noteq> (62 :: int)" "of_char c \<noteq> (63 :: int)"
    by (auto simp: name_char_def readable_char_def mxml_bad_char_def mxml_isspace_def)
qed

lemma list_all_mid: "list_all P (u @ c # v) \<Longrightarrow> P c"
  by simp

text \<open>A heap in which the attributes of the element \<open>x\<close> are \<open>as\<close>, and which is as \<open>h\<close> otherwise.\<close>

definition with_attrs :: "xheap \<Rightarrow> nat \<Rightarrow> mxml_node \<Rightarrow> string \<Rightarrow> mxml_attr list \<Rightarrow> xheap \<Rightarrow> bool" where
  "with_attrs h x n en as h' \<longleftrightarrow> cells h' = (cells h)(x \<mapsto> n\<lparr>n_value := VElement (Some en) as\<rparr>) \<and> data_only h h'"

lemma SetAttr_new:
  assumes h: "typed h" "rich h" and n: "cells h x = Some n" "n_type n = MXML_ELEMENT" "n_value n = VElement (Some en) as"
    and nm: "nm \<notin> a_name ` set as"
  obtains h' where "mxmlElementSetAttr (Some x) (Some nm) (Some v) h = Ret h'" "with_attrs h x n en (as @ [attr_rec (nm, v)]) h'"
proof -
  obtain vc h1 where v: "xstrdup v h = (vc, h1)" by fastforce
  have h1: "vc = Some v" "cells h1 = cells h" "data_only h h1" "typed h1" "rich h1"
    using v h data_only_strdup [OF v] by (auto simp: xstrdup_def granted_def typed_def rich_def)
  have put: "put_attr nm vc as = None" using nm put_none by blast
  obtain r h' where h': "mxml_set_attr x nm vc h1 = Ret (r, h')" "data_only h1 h'"
    "cells h' = (cells h1)(x \<mapsto> n\<lparr>n_value := VElement (Some en) (new_attrs nm vc as)\<rparr>)"
    using set_attr_cases [OF h1(4), of x n "Some en" as nm vc] n h1(2,5) by (auto simp: rich_def)
  have "with_attrs h x n en (as @ [attr_rec (nm, v)]) h'"
    using data_only_trans [OF h1(3) h'(2)] h'(3) h1(1,2) put by (simp add: with_attrs_def new_attrs_def attr_rec_def)
  moreover have "mxmlElementSetAttr (Some x) (Some nm) (Some v) h = Ret h'" using n v h'(1) by (simp add: mxmlElementSetAttr_def rd_Some)
  ultimately show ?thesis by (rule that [rotated])
qed

lemma attr_space: "std E \<Longrightarrow> attr_loop E x name val (src (SP # s) h) = attr_loop E x name val (src s h)"
  using getc_char [of E SP s h]
  by (simp add: attr_loop.simps [of E x name val "src (SP # s) h"] readable_char_def mxml_bad_char_def mxml_isspace_def)

lemma attr_name_reads:
  assumes E: "std E" "rich h" and nm: "plain_name (c # w)"
  obtains b' h' where "attr_name E x (of_char c) b (src (w @ CHR ''='' # s) h) = Some (Ret (Got 61 b', src s h'))" "b_text b' = c # w" "quiet h h'"
proof -
  let ?halt = "\<lambda>c _. mxml_isspace c \<or> c = 61 \<or> c = 47 \<or> c = 62 \<or> c = 63" and ?b = "b\<lparr>b_text := [c]\<rparr>"
  have all: "list_all name_char (c # w)" using nm by (simp add: plain_name_def)
  have "\<exists>b' h'. gather E ?halt True never (Some x) ?b (src (w @ CHR ''='' # s) h) = gather E ?halt True never (Some x) b' (src (CHR ''='' # s) h') \<and>
      filled w ?b h b' h'"
  proof (rule gather_text [OF E])
    show "list_all (\<lambda>c. readable_char c \<and> (c \<noteq> CHR ''&'' \<or> \<not> True)) w" using all name_charD(1,2) by (auto simp: list_all_iff)
    show "\<forall>u d v. w = u @ d # v \<longrightarrow> \<not> ?halt (of_char d) (b_text ?b @ u) \<and> \<not> never False (of_char d) (b_text ?b @ u @ [d])"
      using all name_charD(3,6,8-10) by fastforce
  qed
  then obtain b' h' where b': "gather E ?halt True never (Some x) ?b (src (w @ CHR ''='' # s) h) = gather E ?halt True never (Some x) b' (src (CHR ''='' # s) h')"
    "filled w ?b h b' h'" by blast
  have "gather E ?halt True never (Some x) b' (src (CHR ''='' # s) h') = Some (Ret (Got (of_char (CHR ''='')) b', src s h'))"
    by (rule gather_stop [OF E(1)]) (simp_all add: readable_char_def mxml_bad_char_def)
  then show ?thesis
    using that [of b' h'] b' name_charD(4,5) [of c] all by (simp add: attr_name_def filled_def)
qed

lemma attr_step:
  assumes E: "std E" "rich h" and t: "typed h" and n: "cells h x = Some n" "n_type n = MXML_ELEMENT" "n_value n = VElement (Some en) as"
    and a: "plain_name nm" "list_all readable_char v" "nm \<notin> a_name ` set as"
  shows "\<exists>name' val' h'. attr_loop E x name val (src (nm @ [CHR ''='', CHR 0x22] @ escape v @ CHR 0x22 # s) h) = attr_loop E x name' val' (src s h') \<and>
    with_attrs h x n en (as @ [attr_rec (nm, v)]) h'"
proof -
  obtain c w where nm: "nm = c # w" using a(1) by (cases nm) (auto simp: plain_name_def)
  let ?q = "escape v @ CHR 0x22 # s"
  have c: "name_char c" using a(1) nm by (simp add: plain_name_def)
  obtain b1 h1 where 1: "attr_name E x (of_char c) name (src (w @ CHR ''='' # CHR 0x22 # ?q) h) = Some (Ret (Got 61 b1, src (CHR 0x22 # ?q) h1))"
    "b_text b1 = nm" "quiet h h1"
    by (rule attr_name_reads [OF E, of c w x name "CHR 0x22 # ?q"]) (use a(1) nm that in auto)
  have h1: "cells h1 = cells h" "rich h1" using 1(3) rich_quiet [OF E(2)] by (auto simp: quiet_def)
  have get: "mxmlElementGetAttr (Some x) (Some nm) h1 = Ret None"
    using n a(3) h1(1) get_none by (simp add: mxmlElementGetAttr_def rd_Some elem_def)
  have q: "skip_while E mxml_isspace (src (CHR 0x22 # ?q) h1) = Some (Ret (34, src ?q h1))"
    using getc_char [OF E(1), of "CHR 0x22" ?q h1] by (simp add: skip_while.simps readable_char_def mxml_bad_char_def mxml_isspace_def)
  obtain b2 h2 where 2: "gather E (\<lambda>c _. c = 34) True never (Some x) (val\<lparr>b_text := []\<rparr>) (src ?q h1) = Some (Ret (Got 34 b2, src s h2))"
    "filled v (val\<lparr>b_text := []\<rparr>) h1 b2 h2"
    using gather_value [OF E(1) h1(2) a(2), of "Some x" "val\<lparr>b_text := []\<rparr>" s] by blast
  have h2: "cells h2 = cells h" "rich h2" "b_text b2 = v" "typed h2" "data_only h h2"
    using 2(2) 1(3) h1(2) t rich_quiet quiet_trans quiet_calm by (auto simp: filled_def quiet_def typed_def data_only_def)
  obtain h3 where h3: "mxmlElementSetAttr (Some x) (Some nm) (Some v) h2 = Ret h3" "with_attrs h2 x n en (as @ [attr_rec (nm, v)]) h3"
    by (rule SetAttr_new [OF h2(4,2), of x n en as nm v]) (use n a(3) h2(1) that in auto)
  have "with_attrs h x n en (as @ [attr_rec (nm, v)]) h3"
    using h3(2) h2(1) data_only_trans [OF h2(5)] by (simp add: with_attrs_def)
  moreover have "attr_loop E x name val (src (nm @ [CHR ''='', CHR 0x22] @ ?q) h) = attr_loop E x b1 b2 (src s h3)"
    using getc_char [OF E(1) name_charD(1) [OF c], of "w @ [CHR ''='', CHR 0x22] @ ?q" h] name_charD [OF c] nm 1(1,2) get q 2(1) h2(3) h3(1)
    by (simp add: attr_loop.simps [of E x name val] attr_value_def mxml_isspace_def [of 61])
  ultimately show ?thesis by blast
qed

lemma with_attrs_twice:
  "with_attrs h x n en as h1 \<Longrightarrow> with_attrs h1 x (n\<lparr>n_value := VElement (Some en) as\<rparr>) en bs h2 \<Longrightarrow> with_attrs h x n en bs h2"
  using data_only_trans by (auto simp: with_attrs_def)

lemma attrs_read:
  "std E \<Longrightarrow> rich h \<Longrightarrow> typed h \<Longrightarrow> cells h x = Some n \<Longrightarrow> n_type n = MXML_ELEMENT \<Longrightarrow> n_value n = VElement (Some en) pre \<Longrightarrow>
    list_all (\<lambda>a. plain_name (fst a) \<and> list_all readable_char (snd a)) as \<Longrightarrow> distinct (map fst as) \<Longrightarrow> fst ` set as \<inter> a_name ` set pre = {} \<Longrightarrow>
    \<exists>name' val' h'. attr_loop E x name val (src (attrs_text as @ s) h) = attr_loop E x name' val' (src s h') \<and>
      with_attrs h x n en (pre @ map attr_rec as) h'"
proof (induction as arbitrary: h n pre name val)
  case Nil
  then have "with_attrs h x n en pre h" by (auto simp: with_attrs_def)
  then show ?case by (auto simp: attrs_text_def)
next
  case (Cons a as)
  obtain nm v where a: "a = (nm, v)" by fastforce
  obtain name1 val1 h1 where 1: "attr_loop E x name val (src (nm @ [CHR ''='', CHR 0x22] @ escape v @ CHR 0x22 # attrs_text as @ s) h)
      = attr_loop E x name1 val1 (src (attrs_text as @ s) h1)"
    "with_attrs h x n en (pre @ [attr_rec (nm, v)]) h1"
    using attr_step [OF Cons.prems(1-6), of nm v name val "attrs_text as @ s"] Cons.prems(7,9) a by auto
  let ?n = "n\<lparr>n_value := VElement (Some en) (pre @ [attr_rec (nm, v)])\<rparr>"
  have "rich h1" "typed h1" "cells h1 x = Some ?n"
    using 1(2) Cons.prems(2,3) by (auto simp: with_attrs_def data_only_def rich_def)
  moreover have "fst ` set as \<inter> a_name ` set (pre @ [attr_rec (nm, v)]) = {}"
    using Cons.prems(8,9) a by (auto simp: attr_rec_def)
  ultimately obtain name' val' h' where "attr_loop E x name1 val1 (src (attrs_text as @ s) h1) = attr_loop E x name' val' (src s h')"
    "with_attrs h1 x ?n en ((pre @ [attr_rec (nm, v)]) @ map attr_rec as) h'"
    using Cons.IH [OF Cons.prems(1), of h1 ?n "pre @ [attr_rec (nm, v)]" name1 val1] Cons.prems(5,7,8) by auto
  then show ?case
    using with_attrs_twice [OF 1(2)] 1(1) attr_space [OF Cons.prems(1)] a
    by (intro exI [of _ name'] exI [of _ val'] exI [of _ h']) (auto simp: attrs_text_def attr_text_def)
qed

section \<open>Tags\<close>

text \<open>The two ends of an open tag and what the reader makes of them.\<close>

definition tag_end :: "int \<Rightarrow> string \<Rightarrow> bool" where
  "tag_end c tail \<longleftrightarrow> c = 47 \<and> tail = '' />'' \<or> c = 62 \<and> tail = ''>''"

definition good_attrs :: "(string \<times> string) list \<Rightarrow> bool" where
  "good_attrs as \<longleftrightarrow> distinct (map fst as) \<and> list_all (\<lambda>a. plain_name (fst a) \<and> list_all readable_char (snd a)) as"

lemma tag_tail: "tag_end c tail \<Longrightarrow> \<exists>d T. attrs_text as @ tail = d # T \<and> (d = SP \<or> d = CHR ''>'' \<and> T = [] \<and> as = [] \<and> tail = ''>'')"
  by (cases as) (auto simp: tag_end_def attrs_text_def attr_text_def)

lemma attr_ends:
  assumes "std E" "tag_end c tail"
  shows "attr_loop E x name val (src (tail @ s) h) = Some (Ret (c, src s h))"
proof -
  have "attr_loop E x name val (src (CHR ''/'' # CHR ''>'' # s) h) = Some (Ret (47, src s h))"
    using getc_char [OF assms(1), of "CHR ''/''" "CHR ''>'' # s" h] getc_char [OF assms(1), of "CHR ''>''" s h]
    by (simp add: attr_loop.simps [of E x name val] end_tag_def readable_char_def mxml_bad_char_def mxml_isspace_def)
  moreover have "attr_loop E x name val (src (CHR ''>'' # s) h) = Some (Ret (62, src s h))"
    using getc_char [OF assms(1), of "CHR ''>''" s h]
    by (simp add: attr_loop.simps [of E x name val] readable_char_def mxml_bad_char_def mxml_isspace_def)
  ultimately show ?thesis using assms(2) attr_space [OF assms(1)] by (auto simp: tag_end_def)
qed

lemma open_rest_reads:
  assumes E: "std E" "rich h" and t: "typed h" and n: "cells h x = Some n" "n_type n = MXML_ELEMENT" "n_value n = VElement (Some en) []"
    and a: "good_attrs as" "tag_end c tail" "attrs_text as @ tail = d # T"
  shows "\<exists>h'. open_rest E en x (of_char d) (src (T @ s) h) = Some (Ret (Some c, src s h')) \<and> with_attrs h x n en (map attr_rec as) h'"
proof (cases "d = SP")
  case True
  let ?h = "h\<lparr>tick := Suc (Suc (tick h))\<rparr>"
  have eq: "attrs_text as @ tail @ s = SP # T @ s" using a(3) True by (metis append_Cons append_assoc)
  then have sp: "attr_loop E x new_buf new_buf (src (T @ s) ?h) = attr_loop E x new_buf new_buf (src (attrs_text as @ tail @ s) ?h)"
    unfolding eq using attr_space [OF E(1)] by simp
  obtain name' val' h' where h': "attr_loop E x new_buf new_buf (src (attrs_text as @ tail @ s) ?h) = attr_loop E x name' val' (src (tail @ s) h')"
    "with_attrs ?h x n en (map attr_rec as) h'"
    using attrs_read [OF E(1), of ?h x n en "[]" as new_buf new_buf "tail @ s"] E(2) t n a(1) by (auto simp: rich_def typed_def good_attrs_def)
  have "mxml_parse_element E x (src (T @ s) h) = Some (Ret (c, src s h'))"
    using E(2) sp h'(1) attr_ends [OF E(1) a(2)] by (simp add: mxml_parse_element_def granted_def rich_def)
  moreover have "c \<noteq> EOF" "mxml_isspace (of_char d)" using a(2) True by (auto simp: tag_end_def mxml_isspace_def)
  moreover have "with_attrs h x n en (map attr_rec as) h'" using h'(2) data_only_trans [of h ?h h'] by (simp add: with_attrs_def) (simp add: data_only_def typed_def)
  ultimately show ?thesis by (simp add: open_rest_def)
next
  case False
  then have "d = CHR ''>''" "T = []" "as = []" "c = 62" using tag_tail [OF a(2), of as] a(2,3) by (auto simp: tag_end_def)
  moreover have "with_attrs h x n en [] h" using n by (auto simp: with_attrs_def)
  ultimately show ?thesis by (auto simp: open_rest_def mxml_isspace_def)
qed

text \<open>The local variables of the loop between two tags.\<close>

definition between :: "string rdr \<Rightarrow> strbuf \<Rightarrow> nat option \<Rightarrow> nat option \<Rightarrow> string lst" where
  "between r b f p = \<lparr>l_r = r, l_buf = b, l_first = f, l_parent = p, l_ws = 0, l_type = MXML_TEXT\<rparr>"

lemma between_simps [simp]:
  "l_r (between r b f p) = r" "l_buf (between r b f p) = b" "l_first (between r b f p) = f" "l_parent (between r b f p) = p"
  "l_heap (between r b f p) = r_heap r" "(between r b f p)\<lparr>l_r := r'\<rparr> = between r' b f p" "(between r b f p)\<lparr>l_buf := b'\<rparr> = between r b' f p"
  "(between r b f p)\<lparr>l_parent := p'\<rparr> = between r b f p'" "(between r b f p)\<lparr>l_first := f'\<rparr> = between r b f' p"
  "l_ws (between r b f p) = 0" "l_type (between r b f p) = MXML_TEXT"
  by (simp_all add: between_def l_heap_def)

lemma retype_std: "std E \<Longrightarrow> retype E s = s"
  by (simp add: retype_def std_def)

definition keep :: "nat option \<Rightarrow> nat list \<Rightarrow> nat option" where
  "keep f xs = (case f of None \<Rightarrow> first xs | Some _ \<Rightarrow> f)"

lemma keep_first_between: "keep_first (Some x) (between r b f p) = between r b (keep f [x]) p"
  by (cases f) (simp_all add: keep_first_def keep_def)

text \<open>The element \<open>x\<close> has been added below \<open>p\<close>.\<close>

definition added :: "nat option \<Rightarrow> xheap \<Rightarrow> (nat \<Rightarrow> nat list) \<Rightarrow> nat \<Rightarrow> string \<Rightarrow> (string \<times> string) list \<Rightarrow> xheap \<Rightarrow> bool" where
  "added p h ch x nm as h' \<longleftrightarrow> xinv h' (add_kid p x ch) \<and> rich h' \<and> cells h x = None \<and> ch x = [] \<and> (\<forall>q. x \<notin> set (ch q)) \<and>
     map_option payload (cells h' x) = Some (MXML_ELEMENT, VElement (Some nm) (map attr_rec as), 1) \<and>
     (\<forall>y. y \<noteq> x \<longrightarrow> map_option payload (cells h' y) = map_option payload (cells h y))"

lemma NewElement_adds:
  assumes "xinv h ch" "rich h" "live_opt h p"
  obtains h' n where "mxmlNewElement p (Some nm) h = Ret (Some (tick h), h')" "added p h ch (tick h) nm [] h'"
  using assms(1,3)
proof (cases rule: NewElement_cases [where nm = nm])
  case none
  then show ?thesis using assms(2) by (simp add: rich_def)
next
  case (node h' n)
  have "added p h ch (tick h) nm [] h'"
    using node assms(2) xinv_fresh [OF assms(1), of "tick h"] fresh_alone [OF assms(1), of "tick h"]
    by (auto simp: added_def others_same_def rich_def)
  then show ?thesis using node(2) that by blast
qed

lemma added_attrs:
  assumes "added p h ch x nm [] h1" "cells h1 x = Some n" "with_attrs h1 x n nm (map attr_rec as) h2"
  shows "added p h ch x nm as h2"
  using assms data_only_xinv [of h1 "add_kid p x ch" h2]
  by (auto simp: added_def with_attrs_def data_only_def rich_def payload_def)

lemma open_tag_reads:
  assumes E: "std E" and h: "xinv h ch" "rich h" "live_opt h p"
    and a: "good_attrs as" "tag_end c tail" "attrs_text as @ tail = d # T"
  shows "\<exists>h'. open_tag E (of_char d) (between (src (T @ s) h) b f p) =
      Some (Ret (More (between (src s h') b (keep f [tick h]) (if c = 47 then p else Some (tick h))))) \<and> added p h ch (tick h) (b_text b) as h'"
proof -
  obtain h1 where h1: "mxmlNewElement p (Some (b_text b)) h = Ret (Some (tick h), h1)" "added p h ch (tick h) (b_text b) [] h1"
    by (rule NewElement_adds [OF h])
  obtain n where n: "cells h1 (tick h) = Some n" "n_type n = MXML_ELEMENT" "n_value n = VElement (Some (b_text b)) []"
    using h1(2) by (auto simp: added_def payload_def)
  have ok: "rich h1" "typed h1" using h1(2) by (auto simp: added_def xinv_def)
  obtain h2 where h2: "open_rest E (b_text b) (tick h) (of_char d) (src (T @ s) h1) = Some (Ret (Some c, src s h2))"
    "with_attrs h1 (tick h) n (b_text b) (map attr_rec as) h2"
    using open_rest_reads [OF E ok n a] by blast
  have "c \<noteq> EOF" "e_sax E = None" using a(2) E by (auto simp: tag_end_def std_def)
  then have "open_tag E (of_char d) (between (src (T @ s) h) b f p) =
      Some (Ret (More (between (src s h2) b (keep f [tick h]) (if c = 47 then p else Some (tick h)))))"
    using h1(1) h2(1) retype_std [OF E] by (simp add: open_tag_def keep_first_between)
  then show ?thesis using added_attrs [OF h1(2) n(1) h2(2)] by blast
qed

text \<open>The name of a tag, from \<open><\<close> to the character behind it.\<close>

definition tag_word :: "string \<Rightarrow> bool" where
  "tag_word w \<longleftrightarrow> (\<exists>c v. w = c # v \<and> (name_char c \<or> c = CHR ''/'') \<and> c \<noteq> CHR ''!'' \<and> list_all name_char v)"

lemma plain_tag: "plain_name nm \<Longrightarrow> tag_word nm" "plain_name nm \<Longrightarrow> tag_word (CHR ''/'' # nm)"
  by (auto simp: plain_name_def tag_word_def starts_def neq_Nil_conv)

lemma tag_name_reads:
  assumes E: "std E" "rich h" and w: "tag_word w" and d: "d = SP \<or> d = CHR ''>''"
  obtains b' h' where "gather E tag_stop True tag_special p (b\<lparr>b_text := []\<rparr>) (src (w @ d # s) h) = Some (Ret (Got (of_char d) b', src s h'))"
    "b_text b' = w" "quiet h h'"
proof -
  let ?b = "b\<lparr>b_text := []\<rparr>"
  obtain c v where cv: "w = c # v" "name_char c \<or> c = CHR ''/''" "c \<noteq> CHR ''!''" "list_all name_char v" using w by (auto simp: tag_word_def)
  have c: "readable_char c" "c \<noteq> CHR ''&''" "\<not> tag_stop (of_char c) []" "c \<noteq> CHR ''?''"
    using cv(2) name_charD [of c] by (auto simp: tag_stop_def readable_char_def mxml_bad_char_def mxml_isspace_def)
  have v: "readable_char x" "x \<noteq> CHR ''&''" "\<not> tag_stop (of_char x) t" if "x \<in> set v" for x t
    using cv(4) that name_charD [of x] by (auto simp: list_all_iff tag_stop_def)
  have "\<exists>b' h'. gather E tag_stop True tag_special p ?b (src (w @ d # s) h) = gather E tag_stop True tag_special p b' (src (d # s) h') \<and>
      filled w ?b h b' h'"
  proof (rule gather_text [OF E])
    show "list_all (\<lambda>c. readable_char c \<and> (c \<noteq> CHR ''&'' \<or> \<not> True)) w" using c v cv(1) by (auto simp: list_all_iff)
    have "\<not> tag_stop (of_char x) u \<and> \<not> tag_special False (of_char x) (u @ [x])" if "w = u @ x # y" for u x y
      using that cv(1,3) c v by (cases u) (auto simp: tag_special_def)
    then show "\<forall>u x y. w = u @ x # y \<longrightarrow> \<not> tag_stop (of_char x) (b_text ?b @ u) \<and> \<not> tag_special False (of_char x) (b_text ?b @ u @ [x])"
      by simp
  qed
  then obtain b' h' where b': "gather E tag_stop True tag_special p ?b (src (w @ d # s) h) = gather E tag_stop True tag_special p b' (src (d # s) h')"
    "filled w ?b h b' h'" by blast
  have "gather E tag_stop True tag_special p b' (src (d # s) h') = Some (Ret (Got (of_char d) b', src s h'))"
    by (rule gather_stop [OF E(1)]) (use d in \<open>auto simp: readable_char_def mxml_bad_char_def tag_stop_def mxml_isspace_def\<close>)
  then show ?thesis using that [of b' h'] b' by (simp add: filled_def)
qed

lemma load_lt:
  assumes "std E" "b_text b = []"
  shows "load_loop E (between (src (CHR ''<'' # s) h) b f p) =
    rbind (tag_step E (between (src s h) b f p)) (\<lambda>w. case w of More s \<Rightarrow> load_loop E s | _ \<Rightarrow> Some (Ret w))"
  using getc_char [OF assms(1), of "CHR ''<''" s h] assms(2)
  by (simp add: load_loop.simps [of E "between (src (CHR ''<'' # s) h) b f p"] load_char_def value_step_def blank_step_def step_bind_def
      readable_char_def mxml_bad_char_def mxml_isspace_def)

definition go_on :: "string lenv \<Rightarrow> string step crun \<Rightarrow> string step crun" where
  "go_on E m = rbind m (\<lambda>w. case clear_buf w of More s \<Rightarrow> load_loop E s | w \<Rightarrow> Some (Ret w))"

lemma load_tag:
  assumes E: "std E" "rich h" and b: "b_text b = []" and w: "tag_word w" and d: "d = SP \<or> d = CHR ''>''"
  obtains b' h' where "load_loop E (between (src (CHR ''<'' # w @ d # s) h) b f p) =
      go_on E ((if hd w = CHR ''/'' then close_tag else open_tag) E (of_char d) (between (src s h') b' f p))"
    "b_text b' = w" "quiet h h'"
proof -
  obtain b' h' where b': "gather E tag_stop True tag_special p (b\<lparr>b_text := []\<rparr>) (src (w @ d # s) h) = Some (Ret (Got (of_char d) b', src s h'))"
    "b_text b' = w" "quiet h h'"
    by (rule tag_name_reads [OF E w d])
  obtain c v where cv: "w = c # v" "c \<noteq> CHR ''!''" "c \<noteq> CHR ''?''" using w name_charD(10) [of "CHR ''?''"] by (auto simp: tag_word_def)
  let ?m = "(if hd w = CHR ''/'' then close_tag else open_tag) E (of_char d) (between (src s h') b' f p)"
  have "tag_step E (between (src (w @ d # s) h) b f p) = rbind ?m (\<lambda>w. Some (Ret (clear_buf w)))"
    using b'(1,2) cv d by (auto simp: tag_step_def starts_def)
  then have "load_loop E (between (src (CHR ''<'' # w @ d # s) h) b f p) =
      go_on E ?m"
    by (cases "(?m, \<lambda>w :: string step. Some (Ret w))" rule: rbind.cases) (auto simp: go_on_def load_lt [OF E(1) b] split: step.split)
  then show ?thesis using that b'(2,3) by blast
qed

section \<open>Elements with their content\<close>

text \<open>
  The documents \<open>ts\<close> have been added below \<open>p\<close>, as the nodes \<open>xs\<close>; the nodes that were there before are as before, but for the
  children of \<open>p\<close>.
\<close>

definition grown ::
  "nat option \<Rightarrow> xheap \<Rightarrow> (nat \<Rightarrow> nat list) \<Rightarrow> xheap \<Rightarrow> (nat \<Rightarrow> nat list) \<Rightarrow> nat list \<Rightarrow> xtree list \<Rightarrow> bool" where
  "grown p h ch h' ch' xs ts \<longleftrightarrow> xinv h' ch' \<and> rich h' \<and> trees_at h' ch' xs ts \<and> (p = None \<longrightarrow> (\<forall>x \<in> set xs. \<forall>q. x \<notin> set (ch' q))) \<and>
     (\<forall>y. cells h y \<noteq> None \<longrightarrow> map_option payload (cells h' y) = map_option payload (cells h y) \<and>
        ch' y = (if p = Some y then ch y @ xs else ch y) \<and> (\<forall>q. y \<in> set (ch' q) \<longleftrightarrow> y \<in> set (ch q)))"

lemma grown_live: "grown p h ch h' ch' xs ts \<Longrightarrow> cells h y \<noteq> None \<Longrightarrow> cells h' y \<noteq> None"
  by (auto simp: grown_def dest!: spec [of _ y])

lemma grown_Nil: "xinv h ch \<Longrightarrow> rich h \<Longrightarrow> grown p h ch h ch [] []"
  by (simp add: grown_def trees_at_def)

lemma grown_quiet: "quiet h h1 \<Longrightarrow> grown p h1 ch h' ch' xs ts \<Longrightarrow> grown p h ch h' ch' xs ts"
  by (simp add: grown_def quiet_def)

lemma quiet_xinv: "xinv h ch \<Longrightarrow> quiet h h' \<Longrightarrow> xinv h' ch"
  by (auto simp: xinv_def quiet_def typed_def)

lemma trees_at_append: "trees_at h ch xs ts \<Longrightarrow> trees_at h ch ys us \<Longrightarrow> trees_at h ch (xs @ ys) (ts @ us)"
  by (simp add: trees_at_def list_all2_appendI)

lemma grown_append:
  assumes 1: "grown (Some q) h ch h1 ch1 xs ts" and 2: "grown (Some q) h1 ch1 h2 ch2 ys us" and q: "cells h q \<noteq> None"
  shows "grown (Some q) h ch h2 ch2 (xs @ ys) (ts @ us)"
proof -
  have f1: "forest (cells h1) ch1" using 1 by (simp add: grown_def xinv_def)
  have c1: "ch1 q = ch q @ xs" using 1 q by (simp add: grown_def)
  have "trees_at h2 ch2 xs ts"
    unfolding trees_at_def
  proof (rule list.rel_mono_strong)
    show "list_all2 (tree_at h1 ch1) xs ts" using 1 by (simp add: grown_def trees_at_def)
    fix x t assume x: "x \<in> set xs" "t \<in> set ts" "tree_at h1 ch1 x t"
    have k: "x \<in> set (ch1 q)" using x(1) c1 by simp
    show "tree_at h2 ch2 x t"
    proof (rule tree_at_keep [OF x(3)])
      fix z assume z: "z \<in> under ch1 x"
      have "cells h1 z \<noteq> None" using under_live [OF f1 _ z] forest_live [OF f1 k] by blast
      moreover have "z \<noteq> q" using parent_not_under [OF f1 k] z by blast
      ultimately show "map_option payload (cells h2 z) = map_option payload (cells h1 z) \<and> ch2 z = ch1 z"
        using 2 by (auto simp: grown_def)
    qed
  qed
  then have t: "trees_at h2 ch2 (xs @ ys) (ts @ us)" using 2 trees_at_append by (auto simp: grown_def)
  have "map_option payload (cells h2 y) = map_option payload (cells h y) \<and>
        ch2 y = (if q = y then ch y @ (xs @ ys) else ch y) \<and> (\<forall>q. y \<in> set (ch2 q) \<longleftrightarrow> y \<in> set (ch q))" if y: "cells h y \<noteq> None" for y
    using 1 2 y grown_live [OF 1 y] by (auto simp: grown_def)
  then show ?thesis using t 2 by (simp add: grown_def)
qed

lemma grown_element:
  assumes p: "live_opt h p" and 1: "added p h ch x nm as h1" and 2: "grown (Some x) h1 (add_kid p x ch) h2 ch2 ks sub"
  shows "grown p h ch h2 ch2 [x] [Elem nm as sub]" "\<And>q. x \<in> set (ch2 q) \<longleftrightarrow> p = Some q"
proof -
  have px: "p \<noteq> Some x" using p 1 by (auto simp: live_opt_def added_def)
  have x: "cells h x = None" "ch x = []" "\<And>q. x \<notin> set (ch q)" "cells h1 x \<noteq> None" using 1 by (auto simp: added_def)
  have xk: "add_kid p x ch x = []" using px x(2) by (auto simp: add_kid_def split: option.split)
  have kid: "x \<in> set (add_kid p x ch q) \<longleftrightarrow> p = Some q" for q using x(3) by (auto simp: add_kid_def split: option.split)
  then show par: "x \<in> set (ch2 q) \<longleftrightarrow> p = Some q" for q using 2 x(4) by (simp add: grown_def)
  have "tree_at h2 ch2 x (Elem nm as sub)"
    using 1 2 x(4) xk by (auto simp: tree_at_iff grown_def added_def)
  moreover have "map_option payload (cells h2 y) = map_option payload (cells h y) \<and>
        ch2 y = (if p = Some y then ch y @ [x] else ch y) \<and> (\<forall>q. y \<in> set (ch2 q) \<longleftrightarrow> y \<in> set (ch q))" if y: "cells h y \<noteq> None" for y
  proof -
    have "y \<noteq> x" using y x(1) by auto
    moreover have "cells h1 y \<noteq> None" "map_option payload (cells h1 y) = map_option payload (cells h y)"
      using 1 y calculation by (auto simp: added_def dest!: spec [of _ y])
    ultimately show ?thesis using 2 by (auto simp: grown_def add_kid_def split: option.splits)
  qed
  ultimately show "grown p h ch h2 ch2 [x] [Elem nm as sub]" using 2 par by (auto simp: grown_def trees_at_def)
qed

text \<open>The reader on a text, between two tags: it makes the documents \<open>ts\<close> below \<open>p\<close> and goes on.\<close>

definition loads :: "string lenv \<Rightarrow> nat option \<Rightarrow> string \<Rightarrow> xtree list \<Rightarrow> bool" where
  "loads E p txt ts \<longleftrightarrow> (\<forall>h ch b f s. xinv h ch \<longrightarrow> rich h \<longrightarrow> live_opt h p \<longrightarrow> b_text b = [] \<longrightarrow>
     (\<exists>xs h' ch' b'. load_loop E (between (src (txt @ s) h) b f p) = load_loop E (between (src s h') b' (keep f xs) p) \<and>
        b_text b' = [] \<and> grown p h ch h' ch' xs ts))"

lemma loadsD:
  assumes "loads E p txt ts" "xinv h ch" "rich h" "live_opt h p" "b_text b = []"
  obtains xs h' ch' b' where "load_loop E (between (src (txt @ s) h) b f p) = load_loop E (between (src s h') b' (keep f xs) p)"
    "b_text b' = []" "grown p h ch h' ch' xs ts"
  using assms unfolding loads_def by blast

lemma keep_keep: "keep (keep f xs) ys = keep f (xs @ ys)"
  by (cases f; cases xs) (simp_all add: keep_def)

lemma loads_list:
  assumes "\<And>t. t \<in> set ts \<Longrightarrow> loads E (Some q) (xml_text t) [t]"
  shows "loads E (Some q) (concat (map xml_text ts)) ts"
  using assms
proof (induction ts)
  case Nil
  have keep: "keep f [] = f" for f by (cases f) (simp_all add: keep_def)
  show ?case
    unfolding loads_def
  proof (intro allI impI)
    fix h ch and b :: strbuf and f s assume h: "xinv h ch" "rich h" "b_text b = []"
    show "\<exists>xs h' ch' b'. load_loop E (between (src (concat (map xml_text []) @ s) h) b f (Some q)) =
        load_loop E (between (src s h') b' (keep f xs) (Some q)) \<and> b_text b' = [] \<and> grown (Some q) h ch h' ch' xs []"
      using grown_Nil [OF h(1,2)] h(3) keep by (intro exI [of _ "[]"] exI [of _ h] exI [of _ ch] exI [of _ b]) simp
  qed
next
  case (Cons t ts)
  have rest: "loads E (Some q) (concat (map xml_text ts)) ts" by (rule Cons.IH) (use Cons.prems in simp)
  show ?case
    unfolding loads_def
  proof (intro allI impI)
    fix h ch and b :: strbuf and f s assume h: "xinv h ch" "rich h" "live_opt h (Some q)" "b_text b = []"
    let ?s = "concat (map xml_text ts) @ s"
    have t: "loads E (Some q) (xml_text t) [t]" by (rule Cons.prems) simp
    obtain xs h1 ch1 b1 where 1: "load_loop E (between (src (xml_text t @ ?s) h) b f (Some q)) = load_loop E (between (src ?s h1) b1 (keep f xs) (Some q))"
      "b_text b1 = []" "grown (Some q) h ch h1 ch1 xs [t]"
      by (rule loadsD [OF t h])
    have h1: "xinv h1 ch1" "rich h1" "live_opt h1 (Some q)" using 1(3) h(3) grown_live [OF 1(3)] by (auto simp: grown_def live_opt_def)
    obtain ys h2 ch2 b2 where 2: "load_loop E (between (src ?s h1) b1 (keep f xs) (Some q)) = load_loop E (between (src s h2) b2 (keep (keep f xs) ys) (Some q))"
      "b_text b2 = []" "grown (Some q) h1 ch1 h2 ch2 ys ts"
      by (rule loadsD [OF rest h1 1(2)])
    have "grown (Some q) h ch h2 ch2 (xs @ ys) ([t] @ ts)" using grown_append [OF 1(3) 2(3)] h(3) by (simp add: live_opt_def)
    then show "\<exists>xs h' ch' b'. load_loop E (between (src (concat (map xml_text (t # ts)) @ s) h) b f (Some q)) =
        load_loop E (between (src s h') b' (keep f xs) (Some q)) \<and> b_text b' = [] \<and> grown (Some q) h ch h' ch' xs (t # ts)"
      using 1(1) 2(1,2) keep_keep by (intro exI [of _ "xs @ ys"] exI [of _ h2] exI [of _ ch2] exI [of _ b2]) simp
  qed
qed

lemma tree_at_quiet: "tree_at h ch x t \<Longrightarrow> quiet h h' \<Longrightarrow> tree_at h' ch x t"
  by (rule tree_at_keep) (simp_all add: quiet_def)

lemma grown_then_quiet:
  assumes "grown p h ch h1 ch1 xs ts" "quiet h1 h2"
  shows "grown p h ch h2 ch1 xs ts"
proof -
  have "trees_at h2 ch1 xs ts"
    using assms(1) tree_at_quiet [OF _ assms(2)] by (auto simp: grown_def trees_at_def elim!: list_all2_mono)
  moreover have "xinv h2 ch1" "rich h2" using assms quiet_xinv rich_quiet by (auto simp: grown_def)
  ultimately show ?thesis using assms by (simp add: grown_def quiet_def)
qed

lemma added_quiet: "quiet h h1 \<Longrightarrow> added p h1 ch x nm as h2 \<Longrightarrow> added p h ch x nm as h2"
  by (simp add: added_def quiet_def)

lemma load_open:
  assumes E: "std E" and h: "xinv h ch" "rich h" "live_opt h p" and b: "b_text b = []"
    and a: "plain_name nm" "good_attrs as" "tag_end c tail"
  obtains x h' b' where "load_loop E (between (src (''<'' @ nm @ attrs_text as @ tail @ s) h) b f p) =
      load_loop E (between (src s h') b' (keep f [x]) (if c = 47 then p else Some x))"
    "b_text b' = []" "added p h ch x nm as h'"
proof -
  obtain d T where d: "attrs_text as @ tail = d # T" "d = SP \<or> d = CHR ''>''" using tag_tail [OF a(3)] by blast
  then have shape: "''<'' @ nm @ attrs_text as @ tail @ s = CHR ''<'' # nm @ d # (T @ s)" by (metis append_Cons append_Nil append_assoc)
  obtain b1 h1 where 1: "load_loop E (between (src (CHR ''<'' # nm @ d # (T @ s)) h) b f p) =
      go_on E ((if hd nm = CHR ''/'' then close_tag else open_tag) E (of_char d) (between (src (T @ s) h1) b1 f p))"
    "b_text b1 = nm" "quiet h h1"
    by (rule load_tag [OF E h(2) b plain_tag(1) [OF a(1)] d(2)])
  have h1: "xinv h1 ch" "rich h1" "live_opt h1 p"
    using quiet_xinv [OF h(1) 1(3)] rich_quiet [OF h(2) 1(3)] h(3) 1(3) by (auto simp: live_opt_def quiet_def)
  obtain h2 where h2: "open_tag E (of_char d) (between (src (T @ s) h1) b1 f p) =
      Some (Ret (More (between (src s h2) b1 (keep f [tick h1]) (if c = 47 then p else Some (tick h1)))))"
    "added p h1 ch (tick h1) nm as h2"
    using open_tag_reads [OF E h1 a(2,3) d(1), of s b1 f] 1(2) by blast
  have "hd nm \<noteq> CHR ''/''" using a(1) by (cases nm) (auto simp: plain_name_def name_char_def)
  then have "load_loop E (between (src (''<'' @ nm @ attrs_text as @ tail @ s) h) b f p) =
      load_loop E (between (src s h2) (b1\<lparr>b_text := []\<rparr>) (keep f [tick h1]) (if c = 47 then p else Some (tick h1)))"
    unfolding shape 1(1) by (simp add: h2(1) go_on_def clear_buf_def)
  then show ?thesis using that [OF _ _ added_quiet [OF 1(3) h2(2)]] by simp
qed

lemma of_gt: "of_char (CHR ''>'') = (62 :: int)"
  by simp

lemma of_qm: "of_char (CHR ''?'') = (63 :: int)"
  by simp

lemma load_close:
  assumes E: "std E" and h: "xinv h ch" "rich h" and b: "b_text b = []" and nm: "plain_name nm"
    and x: "map_option payload (cells h x) = Some (MXML_ELEMENT, VElement (Some nm) as, k)" "\<And>q. x \<in> set (ch q) \<longleftrightarrow> p = Some q"
  obtains h' b' where "load_loop E (between (src (''</'' @ nm @ ''>'' @ s) h) b f (Some x)) = load_loop E (between (src s h') b' f p)"
    "b_text b' = []" "quiet h h'"
proof -
  obtain b1 h1 where 1: "load_loop E (between (src (CHR ''<'' # (CHR ''/'' # nm) @ CHR ''>'' # s) h) b f (Some x)) =
      go_on E ((if hd (CHR ''/'' # nm) = CHR ''/'' then close_tag else open_tag) E (of_char (CHR ''>'')) (between (src s h1) b1 f (Some x)))"
    "b_text b1 = CHR ''/'' # nm" "quiet h h1"
    by (rule load_tag [OF E h(2) b plain_tag(2) [OF nm], of "CHR ''>''" s f "Some x"]) (simp, rule that)
  have "cells h1 x = cells h x" using 1(3) by (simp add: quiet_def)
  then obtain n where n: "cells h1 x = Some n" "n_type n = MXML_ELEMENT" "n_value n = VElement (Some nm) as"
    using x(1) by (auto simp: payload_def)
  have "n_parent n = Some q \<longleftrightarrow> p = Some q" for q
    using forest_parent [OF xinv_forest [OF quiet_xinv [OF h(1) 1(3)]] n(1), of q] x(2) [of q] by simp
  then have par: "n_parent n = p" by (metis option.exhaust)
  have same: "same_name nm x h1 = Ret True" using n by (simp add: same_name_def rd_Some elem_def)
  have sax: "e_sax E = None" using E by (simp add: std_def)
  have "close_tag E 62 (between (src s h1) b1 f (Some x)) = Some (Ret (More (between (src s h1) b1 f p)))"
    using 1(2) n(1) par retype_std [OF E] same sax by (simp add: close_tag_def rd_Some)
  then have "load_loop E (between (src (''</'' @ nm @ ''>'' @ s) h) b f (Some x)) = load_loop E (between (src s h1) (b1\<lparr>b_text := []\<rparr>) f p)"
    using 1(1) by (simp add: go_on_def clear_buf_def of_gt)
  then show ?thesis using that 1(3) by simp
qed

lemma escape_plain: "list_all name_char nm \<Longrightarrow> escape nm = nm"
proof (induction nm)
  case (Cons c nm)
  have "esc_char c = [c]"
  proof (cases rule: esc_char_cases [of c])
    case (name name)
    then show ?thesis using name_charD [of c] Cons.prems of_char_eq_iff [of c "CHR ''&''", where 'a = int]
      by (auto simp: mxmlEntityGetName_def split: if_splits)
  qed
  then show ?case using Cons by (simp add: escape_def)
qed (simp add: escape_def)

lemma loads_tree: "std E \<Longrightarrow> readable t \<Longrightarrow> loads E p (xml_text t) [t]"
proof (induction t arbitrary: p)
  case (Elem nm as sub)
  have ok: "plain_name nm" "good_attrs as" "\<And>t. t \<in> set sub \<Longrightarrow> readable t"
    using Elem.prems(2) by (auto simp: good_attrs_def list_all_iff)
  have nm: "\<not> starts ''!?'' nm" "escape nm = nm"
    using ok(1) name_charD(10) [of "CHR ''?''"] escape_plain by (cases nm; auto simp: plain_name_def starts_def)+
  show ?case
    unfolding loads_def
  proof (intro allI impI)
    fix h ch and b :: strbuf and f s assume h: "xinv h ch" "rich h" "live_opt h p" "b_text b = []"
    let ?goal = "\<lambda>txt. \<exists>xs h' ch' b'. load_loop E (between (src txt h) b f p) =
        load_loop E (between (src s h') b' (keep f xs) p) \<and> b_text b' = [] \<and> grown p h ch h' ch' xs [Elem nm as sub]"
    show "?goal (xml_text (Elem nm as sub) @ s)"
    proof (cases "sub = []")
      case True
      obtain x h1 b1 where 1: "load_loop E (between (src (''<'' @ nm @ attrs_text as @ '' />'' @ s) h) b f p) =
          load_loop E (between (src s h1) b1 (keep f [x]) (if (47::int) = 47 then p else Some x))"
        "b_text b1 = []" "added p h ch x nm as h1"
        by (rule load_open [OF Elem.prems(1) h ok(1,2), of 47 "'' />''" s f]) (simp add: tag_end_def, rule that)
      have "xinv h1 (add_kid p x ch)" "rich h1" using 1(3) by (auto simp: added_def)
      then have "grown p h ch h1 (add_kid p x ch) [x] [Elem nm as sub]"
        using grown_element(1) [OF h(3) 1(3) grown_Nil] True by blast
      then show ?thesis using 1(1,2) True nm(1)
        by (intro exI [of _ "[x]"] exI [of _ h1] exI [of _ "add_kid p x ch"] exI [of _ b1]) simp
    next
      case False
      let ?sub = "concat (map xml_text sub)"
      obtain x h1 b1 where 1: "load_loop E (between (src (''<'' @ nm @ attrs_text as @ ''>'' @ (?sub @ ''</'' @ nm @ ''>'' @ s)) h) b f p) =
          load_loop E (between (src (?sub @ ''</'' @ nm @ ''>'' @ s) h1) b1 (keep f [x]) (if (62::int) = 47 then p else Some x))"
        "b_text b1 = []" "added p h ch x nm as h1"
        by (rule load_open [OF Elem.prems(1) h ok(1,2), of 62 "''>''" "?sub @ ''</'' @ nm @ ''>'' @ s" f]) (simp add: tag_end_def, rule that)
      have h1: "xinv h1 (add_kid p x ch)" "rich h1" "live_opt h1 (Some x)" using 1(3) by (auto simp: added_def live_opt_def)
      have subs: "loads E (Some x) ?sub sub" by (rule loads_list) (use Elem.IH [OF _ Elem.prems(1) ok(3)] in blast)
      obtain ks h2 ch2 b2 where 2: "load_loop E (between (src (?sub @ (''</'' @ nm @ ''>'' @ s)) h1) b1 (keep f [x]) (Some x)) =
          load_loop E (between (src (''</'' @ nm @ ''>'' @ s) h2) b2 (keep (keep f [x]) ks) (Some x))"
        "b_text b2 = []" "grown (Some x) h1 (add_kid p x ch) h2 ch2 ks sub"
        by (rule loadsD [OF subs h1 1(2)])
      note g = grown_element [OF h(3) 1(3) 2(3)]
      have h2: "xinv h2 ch2" "rich h2" using 2(3) by (auto simp: grown_def)
      have px: "map_option payload (cells h2 x) = Some (MXML_ELEMENT, VElement (Some nm) (map attr_rec as), 1)"
        using 1(3) 2(3) h1(3) by (auto simp: added_def grown_def live_opt_def)
      obtain h3 b3 where 3: "load_loop E (between (src (''</'' @ nm @ ''>'' @ s) h2) b2 (keep (keep f [x]) ks) (Some x)) =
          load_loop E (between (src s h3) b3 (keep (keep f [x]) ks) p)" "b_text b3 = []" "quiet h2 h3"
        by (rule load_close [OF Elem.prems(1) h2 2(2) ok(1) px g(2)])
      have "keep (keep f [x]) ks = keep f [x]" by (cases f) (simp_all add: keep_def)
      then show ?thesis using 1(1) 2(1) 3(1,2) grown_then_quiet [OF g(1) 3(3)] False nm
        by (intro exI [of _ "[x]"] exI [of _ h3] exI [of _ ch2] exI [of _ b3]) simp
    qed
  qed
qed

section \<open>Documents\<close>

lemma gather_last:
  assumes "std E" "rich h" "readable_char c" "c \<noteq> CHR ''&'' \<or> \<not> ents" "\<not> halt (of_char c) (b_text b)" "fin False (of_char c) (b_text b @ [c])"
  obtains b1 h1 where "gather E halt ents fin p b (src (c # s) h) = Some (Ret (Got (of_char c) b1, src s h1))"
    "b_text b1 = b_text b @ [c]" "quiet h h1"
proof -
  obtain b1 h1 where "b_text b1 = b_text b @ [c]" "quiet h h1"
    "gather E halt ents fin p b (src (c # s) h) =
       (if fin False (of_char c) (b_text b @ [c]) then Some (Ret (Got (of_char c) b1, src s h1)) else gather E halt ents fin p b1 (src s h1))"
    by (rule gather_step [where halt = halt and fin = fin, OF assms(1-5)])
  then show ?thesis using that assms(6) by simp
qed

text \<open>A processing instruction as the root.\<close>

lemma pi_reads:
  assumes E: "std E" "rich h" and nm: "pi_name nm"
  obtains b1 h1 b2 h2 where
    "gather E tag_stop True tag_special p (b\<lparr>b_text := []\<rparr>) (src (nm @ CHR ''>'' # s) h) = Some (Ret (Got 63 b1, src (tl nm @ CHR ''>'' # s) h1))"
    "b_text b1 = ''?''" "gather E pi_end False never p b1 (src (tl nm @ CHR ''>'' # s) h1) = Some (Ret (Got 62 b2, src s h2))"
    "b_text b2 = nm" "quiet h h2"
proof -
  obtain w where w: "nm = ''?'' @ w @ ''?''" "list_all (\<lambda>c. readable_char c \<and> c \<noteq> CHR ''>'') w" using nm by (auto simp: pi_name_iff)
  let ?b = "b\<lparr>b_text := []\<rparr>" and ?w = "w @ ''?''"
  have q: "readable_char (CHR ''?'')" "CHR ''?'' \<noteq> CHR ''&'' \<or> \<not> True" "\<not> tag_stop (of_char (CHR ''?'')) (b_text ?b)"
    "tag_special False (of_char (CHR ''?'')) (b_text ?b @ ''?'')"
    by (simp_all add: readable_char_def mxml_bad_char_def tag_stop_def mxml_isspace_def tag_special_def)
  obtain b1 h1 where 1: "gather E tag_stop True tag_special p ?b (src (CHR ''?'' # ?w @ CHR ''>'' # s) h) =
      Some (Ret (Got (of_char (CHR ''?'')) b1, src (?w @ CHR ''>'' # s) h1))" "b_text b1 = b_text ?b @ ''?''" "quiet h h1"
    by (rule gather_last [where halt = tag_stop and fin = tag_special, OF E q])
  have "\<exists>b2 h2. gather E pi_end False never p b1 (src (?w @ (CHR ''>'' # s)) h1) = gather E pi_end False never p b2 (src (CHR ''>'' # s) h2) \<and>
      filled ?w b1 h1 b2 h2"
  proof (rule gather_text [OF E(1) rich_quiet [OF E(2) 1(3)]])
    show "list_all (\<lambda>c. readable_char c \<and> (c \<noteq> CHR ''&'' \<or> \<not> False)) ?w"
      using w(2) by (simp add: list_all_iff readable_char_def mxml_bad_char_def)
    have "of_char c \<noteq> (62 :: int)" if "c \<in> set ?w" for c
      using that w(2) of_char_eq_iff [of c "CHR ''>''", where 'a = int] by (auto simp: list_all_iff)
    then have "\<not> pi_end (of_char c) t" if "?w = u @ c # v" for u c v t
      using that by (simp add: pi_end_def)
    then show "\<forall>u c v. ?w = u @ c # v \<longrightarrow> \<not> pi_end (of_char c) (b_text b1 @ u) \<and> \<not> never False (of_char c) (b_text b1 @ u @ [c])"
      by blast
  qed
  then obtain b2 h2 where 2: "gather E pi_end False never p b1 (src (?w @ (CHR ''>'' # s)) h1) = gather E pi_end False never p b2 (src (CHR ''>'' # s) h2)"
    "filled ?w b1 h1 b2 h2" by blast
  have "gather E pi_end False never p b2 (src (CHR ''>'' # s) h2) = Some (Ret (Got (of_char (CHR ''>'')) b2, src s h2))"
    by (rule gather_stop [OF E(1)]) (use 1(2) 2(2) in \<open>simp_all add: readable_char_def mxml_bad_char_def pi_end_def filled_def\<close>)
  then have "gather E pi_end False never p b1 (src (tl nm @ CHR ''>'' # s) h1) = Some (Ret (Got 62 b2, src s h2))"
    using 2(1) w(1) by (simp only: of_gt append_assoc append.simps list.sel)
  moreover have "gather E tag_stop True tag_special p ?b (src (nm @ CHR ''>'' # s) h) = Some (Ret (Got 63 b1, src (tl nm @ CHR ''>'' # s) h1))"
    using 1(1) w(1) of_char_mod_256 by (simp only: of_qm append_assoc append.simps list.sel)
  moreover have "b_text b1 = ''?''" "b_text b2 = nm" "quiet h h2"
    using 1(2) 2(2) w(1) quiet_trans [OF 1(3)] by (simp_all add: filled_def)
  ultimately show ?thesis by (intro that)
qed

lemma load_pi:
  assumes E: "std E" and h: "xinv h ch" "rich h" and b: "b_text b = []" and nm: "pi_name nm"
  obtains x h' b' where "load_loop E (between (src (''<'' @ nm @ ''>'' @ s) h) b None None) = load_loop E (between (src s h') b' (Some x) (Some x))"
    "b_text b' = []" "added None h ch x nm [] h'"
proof -
  obtain b1 h1 b2 h2 where 1: "gather E tag_stop True tag_special None (b\<lparr>b_text := []\<rparr>) (src (nm @ CHR ''>'' # s) h)
      = Some (Ret (Got 63 b1, src (tl nm @ CHR ''>'' # s) h1))"
    "b_text b1 = ''?''" "gather E pi_end False never None b1 (src (tl nm @ CHR ''>'' # s) h1) = Some (Ret (Got 62 b2, src s h2))"
    "b_text b2 = nm" "quiet h h2"
    by (rule pi_reads [OF E h(2) nm])
  have h2: "xinv h2 ch" "rich h2" using quiet_xinv [OF h(1) 1(5)] rich_quiet [OF h(2) 1(5)] by auto
  obtain h3 where h3: "mxmlNewElement None (Some nm) h2 = Ret (Some (tick h2), h3)" "added None h2 ch (tick h2) nm [] h3"
    by (rule NewElement_adds [OF h2, of None nm]) (simp add: live_opt_def, rule that)
  have sax: "e_sax E = None" using E by (simp add: std_def)
  have wh: "with_heap h' (between (src t g) b f p) = between (src t h') b f p" for h' t g b f p by (simp add: with_heap_def)
  have "add_node E SAX_DIRECTIVE ''processing instruction'' fail_with (between (src s h2) b2 None None) (directive E)
      = Some (Ret (More (between (src s h3) b2 (Some (tick h2)) (Some (tick h2)))))"
    using 1(4) h3(1) sax by (simp add: add_node_def Let_def wh sax_done_def keep_first_between keep_def directive_def retype_std [OF E])
  then have "tag_step E (between (src (nm @ CHR ''>'' # s) h) b None None) =
      Some (Ret (More (between (src s h3) (b2\<lparr>b_text := []\<rparr>) (Some (tick h2)) (Some (tick h2)))))"
    using 1(1-3) by (simp add: tag_step_def starts_def finish_node_def clear_buf_def)
  then have "load_loop E (between (src (''<'' @ nm @ ''>'' @ s) h) b None None) =
      load_loop E (between (src s h3) (b2\<lparr>b_text := []\<rparr>) (Some (tick h2)) (Some (tick h2)))"
    using load_lt [OF E b] by simp
  then show ?thesis using that [OF _ _ added_quiet [OF 1(5) h3(2)]] by simp
qed

text \<open>The line end and the end of the text.\<close>

lemma load_tail:
  assumes "std E" "b_text b = []"
  shows "load_loop E (between (src [NL, NUL] h) b f p) = Some (Ret (Stop ((between (src [NUL] h) b f p)\<lparr>l_ws := 1\<rparr>)))"
proof -
  have "e_getc E (src [NL, NUL] h) = Ret (10, src [NUL] h)"
    using getc_char [OF assms(1), of NL "[NUL]" h] by (simp add: readable_char_def mxml_bad_char_def)
  moreover have "load_char E 10 (between (src [NUL] h) b f p) = Some (Ret (More ((between (src [NUL] h) b f p)\<lparr>l_ws := 1\<rparr>)))"
    using assms(2) by (simp add: load_char_def value_step_def blank_step_def step_bind_def mxml_isspace_def)
  moreover have "load_loop E ((between (src [NUL] h) b f p)\<lparr>l_ws := 1\<rparr>) = Some (Ret (Stop ((between (src [NUL] h) b f p)\<lparr>l_ws := 1\<rparr>)))"
    using getc_NUL [OF assms(1), of "[]" h] by (simp add: load_loop.simps [of E "(between (src [NUL] h) b f p)\<lparr>l_ws := 1\<rparr>"])
  ultimately show ?thesis by (simp add: load_loop.simps [of E "between (src [NL, NUL] h) b f p"])
qed

text \<open>The root \<open>x\<close> of the document \<open>t\<close>, a tree of its own.\<close>

definition doc_root :: "xheap \<Rightarrow> (nat \<Rightarrow> nat list) \<Rightarrow> nat \<Rightarrow> xtree \<Rightarrow> bool" where
  "doc_root h ch x t \<longleftrightarrow> tree_at h ch x t \<and> (\<forall>q. x \<notin> set (ch q))"

lemma root_live: "doc_root h ch x t \<Longrightarrow> \<exists>n. cells h x = Some n"
  by (cases t) (auto simp: doc_root_def elim: tree_atD)

lemma climb_root:
  assumes "xinv h ch" "doc_root h ch x t"
  shows "climb None x h = Some (Ret x)"
proof -
  obtain n where n: "cells h x = Some n" using root_live [OF assms(2)] by blast
  then have "n_parent n = None" using forest_orphan [OF xinv_forest [OF assms(1)] n] assms(2) by (simp add: doc_root_def)
  then show ?thesis using n by (simp add: climb.simps [of None x h] rd_Some)
qed

text \<open>What the nodes of a heap that was there before are afterwards.\<close>

definition kept :: "xheap \<Rightarrow> (nat \<Rightarrow> nat list) \<Rightarrow> xheap \<Rightarrow> (nat \<Rightarrow> nat list) \<Rightarrow> bool" where
  "kept h ch h' ch' \<longleftrightarrow> (\<forall>y. cells h y \<noteq> None \<longrightarrow> map_option payload (cells h' y) = map_option payload (cells h y) \<and> ch' y = ch y)"

lemma loads_document:
  assumes E: "std E" and t: "document t" and h: "xinv h ch" "rich h" and b: "b_text b = []"
  obtains x p h' ch' b' where "load_loop E (between (src (xml_text t @ s) h) b None None) = load_loop E (between (src s h') b' (Some x) p)"
    "b_text b' = []" "p = None \<or> p = Some x" "xinv h' ch'" "rich h'" "doc_root h' ch' x t" "kept h ch h' ch'"
proof (cases "readable t")
  case True
  have none: "live_opt h None" by (simp add: live_opt_def)
  obtain xs h' ch' b' where 1: "load_loop E (between (src (xml_text t @ s) h) b None None) = load_loop E (between (src s h') b' (keep None xs) None)"
    "b_text b' = []" "grown None h ch h' ch' xs [t]"
    by (rule loadsD [OF loads_tree [OF E True] h none b])
  obtain x where "xs = [x]" "tree_at h' ch' x t" using 1(3) unfolding grown_def trees_at_Cons by (auto simp: trees_at_def)
  then show ?thesis using that [of h' b' x None ch'] 1 by (simp add: keep_def grown_def doc_root_def kept_def)
next
  case False
  obtain nm as sub where "t = Elem nm as sub" by (cases t)
  then have T: "t = Elem nm [] sub" "pi_name nm" "list_all readable sub" using t False by auto
  let ?sub = "concat (map xml_text sub)"
  have pi: "starts ''!?'' nm" using T(2) by (auto simp: pi_name_iff starts_def)
  have shape: "xml_text t @ s = ''<'' @ nm @ ''>'' @ (?sub @ s)" using T(1) pi by (simp add: attrs_text_def)
  obtain x h1 b1 where 1: "load_loop E (between (src (''<'' @ nm @ ''>'' @ (?sub @ s)) h) b None None) = load_loop E (between (src (?sub @ s) h1) b1 (Some x) (Some x))"
    "b_text b1 = []" "added None h ch x nm [] h1"
    by (rule load_pi [OF E h b T(2)])
  have h1: "xinv h1 (add_kid None x ch)" "rich h1" "live_opt h1 (Some x)" using 1(3) by (auto simp: added_def live_opt_def)
  have subs: "loads E (Some x) ?sub sub" by (rule loads_list) (use loads_tree [OF E] T(3) in \<open>auto simp: list_all_iff\<close>)
  obtain ks h2 ch2 b2 where 2: "load_loop E (between (src (?sub @ s) h1) b1 (Some x) (Some x)) = load_loop E (between (src s h2) b2 (keep (Some x) ks) (Some x))"
    "b_text b2 = []" "grown (Some x) h1 (add_kid None x ch) h2 ch2 ks sub"
    by (rule loadsD [OF subs h1 1(2)])
  have "live_opt h None" by (simp add: live_opt_def)
  note g = grown_element [OF this 1(3) 2(3)]
  have "doc_root h2 ch2 x t" using g T(1) by (simp add: doc_root_def grown_def trees_at_def)
  then show ?thesis
    using that [of h2 b2 x "Some x" ch2] 1(1) 2(1,2) g(1) unfolding shape by (simp add: keep_def grown_def kept_def)
qed

text \<open>Loading the text that a document is written as gives the document.\<close>

lemma LoadString_document:
  assumes E: "\<not> e_multi E" "\<And>c name. mxmlEntityGetName c = Some name \<Longrightarrow> e_entity E name = c"
    and t: "document t" and h: "xinv h ch" "rich h"
  obtains x r ch' where "mxmlLoadString E None (doc_text t) None h = Some (Ret (Some x, r))"
    "xinv (r_heap r) ch'" "rich (r_heap r)" "doc_root (r_heap r) ch' x t" "kept h ch (r_heap r) ch'"
proof -
  let ?E = "E\<lparr>e_getc := mxml_string_getc, e_type := None, e_sax := None\<rparr>" and ?h = "h\<lparr>tick := Suc (tick h)\<rparr>"
  have std: "std ?E" using E by (auto simp: std_def)
  have h1: "xinv ?h ch" "rich ?h" "b_text new_buf = []" using h xinv_tick [OF h(1)] by (simp_all add: rich_def new_buf_def)
  obtain x p h' ch' b' where 1: "load_loop ?E (between (src (xml_text t @ [NL, NUL]) ?h) new_buf None None) = load_loop ?E (between (src [NL, NUL] h') b' (Some x) p)"
    "b_text b' = []" "p = None \<or> p = Some x" "xinv h' ch'" "rich h'" "doc_root h' ch' x t" "kept ?h ch h' ch'"
    by (rule loads_document [OF std t h1])
  let ?s = "(between (src [NUL] h') b' (Some x) p)\<lparr>l_ws := 1\<rparr>"
  have "load_end None ?s = Some (Ret (Some x, src [NUL] h'))"
    using 1(3) climb_root [OF 1(4,6)] by (auto simp: load_end_def l_heap_def)
  moreover have "load_loop ?E (between (src (xml_text t @ [NL, NUL]) ?h) new_buf None None) = Some (Ret (Stop ?s))"
    using 1(1) load_tail [OF std 1(2)] by simp
  moreover have "string_getc (e_multi E) = mxml_string_getc" using E(1) by (simp add: mxml_string_getc_def)
  ultimately have "mxmlLoadString E None (doc_text t) None h = Some (Ret (Some x, src [NUL] h'))"
    using h(2) retype_std [OF std]
    by (simp add: mxmlLoadString_def mxml_load_data_def granted_def rich_def doc_text_def between_def [symmetric] src_def [symmetric])
  moreover have "kept h ch h' ch'" using 1(7) by (simp add: kept_def)
  ultimately show ?thesis using that [of x "src [NUL] h'" ch'] 1(4-6) by simp
qed

end
