(* ===== verification/XmlMsg.thy ===== *)
theory XmlMsg
  imports MxmlSearch
begin

text \<open>
  Messages as XML: \<open>src/dev/src/pubfun/xml/xml.c\<close>. A message is a document with the element \<open>Message\<close>, whose child
  \<open>Public\<close> holds the fields (an element per field, its text in the attribute \<open>value\<close>) and whose children \<open>RecordSet\<close>
  hold numbered records of fields. The state \<open>xml\<close> is the node heap, the pointer \<open>l_pIntXml\<close>, the text \<open>l_sXmlError\<close> (1024
  bytes) and whether the error callback is installed. A function returns its value, what it wrote into the caller's buffer,
  and the new state; a negative or unbounded \<open>memset\<close> or \<open>memcpy\<close> and an overrun of a local array are the fault \<open>BufOverflow\<close>.
\<close>

section \<open>Definitions\<close>

record xml =
  x_heap :: xheap
  l_pIntXml :: "nat option"
  l_sXmlError :: string
  x_cb :: bool

text \<open>\<open>strcpy(l_sXmlError, "error: "); vsprintf(l_sXmlError + 7, ...)\<close>\<close>

definition XmlSetError :: "string \<Rightarrow> xml \<Rightarrow> xml cres" where
  "XmlSetError msg s =
     (if 7 + length msg + 1 > 1024 then Crash BufOverflow else Ret (s\<lparr>l_sXmlError := ''error: '' @ msg\<rparr>))"

text \<open>The number of bytes copied for a short message is \<open>strlen(l_sXmlError)\<close>, just after the array was cleared.\<close>

definition XmlSaveError :: "string \<Rightarrow> string \<Rightarrow> string" where
  "XmlSaveError psMessage old =
     (let cleared = replicate 1024 NUL;
          n = (if length psMessage \<ge> 1024 then 1023 else length (c_str cleared))
      in c_str (take n psMessage @ drop n cleared))"

text \<open>The state after a call of the library: the callback has seen the messages that were reported.\<close>

definition absorb :: "xheap \<Rightarrow> xml \<Rightarrow> xml" where
  "absorb h s = s\<lparr>x_heap := h,
     l_sXmlError := (if x_cb s then fold XmlSaveError (drop (length (reports (x_heap s))) (reports h)) (l_sXmlError s)
                     else l_sXmlError s)\<rparr>"

definition xfail :: "string \<Rightarrow> 'a \<Rightarrow> xml \<Rightarrow> (int \<times> 'a \<times> xml) crun" where
  "xfail msg out s = Some (cbind (XmlSetError msg s) (\<lambda>s. Ret (-1, out, s)))"

definition xfind :: "nat option \<Rightarrow> string \<Rightarrow> (string \<times> string) option \<Rightarrow> xml \<Rightarrow> nat option crun" where
  "xfind tree name attr s =
     mxmlFindElement tree tree (Some name) (map_option fst attr) (map_option snd attr) MXML_DESCEND_FIRST (x_heap s)"

definition xnew :: "nat option \<Rightarrow> string \<Rightarrow> xml \<Rightarrow> (nat option \<times> xml) crun" where
  "xnew parent name s = Some (cbind (mxmlNewElement parent (Some name) (x_heap s)) (\<lambda>(node, h). Ret (node, absorb h s)))"

definition xattr :: "nat \<Rightarrow> string \<Rightarrow> string \<Rightarrow> xml \<Rightarrow> xml crun" where
  "xattr x name v s = Some (cbind (mxmlElementSetAttr (Some x) (Some name) (Some v) (x_heap s)) (\<lambda>h. Ret (absorb h s)))"

definition no_element :: "string \<Rightarrow> string" where
  "no_element name = ''Unable to find <'' @ name @ ''> element in XML tree!''"

definition not_added :: "string \<Rightarrow> string" where
  "not_added name = ''Unable to add <'' @ name @ ''> element in XML tree!''"

definition no_value :: "string \<Rightarrow> string" where
  "no_value name = ''<'' @ name @ ''> element '' @ [CHR 0x27] @ ''value'' @ [CHR 0x27] @ '' attribute not exists!''"

subsection \<open>Start and end\<close>

definition XML_HEAD :: string where
  "XML_HEAD = ''?xml version='' @ [CHR 0x22] @ ''1.0'' @ [CHR 0x22, SP, CHR 0x22] @ ''encoding'' @ [CHR 0x22] @ ''=''
     @ [CHR 0x22] @ ''GB18030'' @ [CHR 0x22] @ ''?''"

definition init_failed :: "string \<Rightarrow> xml \<Rightarrow> (int \<times> unit \<times> xml) crun" where
  "init_failed name s = rbind (mxmlDelete (l_pIntXml s) (x_heap s)) (\<lambda>h. xfail (not_added name) () (absorb h s))"

definition XmlInit :: "xml \<Rightarrow> (int \<times> unit \<times> xml) crun" where
  "XmlInit s =
     (let s = s\<lparr>x_cb := True\<rparr>
      in rbind (mxmlDelete (l_pIntXml s) (x_heap s)) (\<lambda>h.
         rbind (xnew None XML_HEAD (absorb h s)) (\<lambda>(doc, s).
         let s = s\<lparr>l_pIntXml := doc\<rparr>
         in case doc of None \<Rightarrow> xfail ''Unable to initialize XML tree!'' () s
            | Some _ \<Rightarrow>
                rbind (xnew doc ''Message'' s) (\<lambda>(node, s).
                case node of None \<Rightarrow> init_failed ''Message'' s
                | Some _ \<Rightarrow>
                    rbind (xnew node ''Public'' s) (\<lambda>(pub, s).
                    case pub of None \<Rightarrow> init_failed ''Public'' s
                    | Some _ \<Rightarrow> Some (Ret (0, (), s)))))))"

definition XmlFree :: "xml \<Rightarrow> xml crun" where
  "XmlFree s = rbind (mxmlDelete (l_pIntXml s) (x_heap s)) (\<lambda>h. Some (Ret ((absorb h s)\<lparr>l_pIntXml := None\<rparr>)))"

subsection \<open>Fields\<close>

definition with_message :: "'a \<Rightarrow> (nat \<Rightarrow> (int \<times> 'a \<times> xml) crun) \<Rightarrow> xml \<Rightarrow> (int \<times> 'a \<times> xml) crun" where
  "with_message out k s =
     rbind (xfind (l_pIntXml s) ''Message'' None s) (\<lambda>m.
       case m of None \<Rightarrow> xfail (no_element ''Message'') out s | Some t \<Rightarrow> k t)"

definition with_public :: "'a \<Rightarrow> (nat \<Rightarrow> (int \<times> 'a \<times> xml) crun) \<Rightarrow> xml \<Rightarrow> (int \<times> 'a \<times> xml) crun" where
  "with_public out k s =
     with_message out (\<lambda>t. rbind (xfind (Some t) ''Public'' None s) (\<lambda>p.
       case p of None \<Rightarrow> xfail (no_element ''Public'') out s | Some t \<Rightarrow> k t)) s"

definition with_value :: "'a \<Rightarrow> nat \<Rightarrow> string \<Rightarrow> (string \<Rightarrow> (int \<times> 'a \<times> xml) crun) \<Rightarrow> xml \<Rightarrow> (int \<times> 'a \<times> xml) crun" where
  "with_value out tree name k s =
     rbind (xfind (Some tree) name None s) (\<lambda>node.
       case node of None \<Rightarrow> xfail (no_element name) out s
       | Some x \<Rightarrow> rbind (Some (mxmlElementGetAttr (Some x) (Some ''value'') (x_heap s))) (\<lambda>v.
           case v of None \<Rightarrow> xfail (no_value name) out s | Some v \<Rightarrow> k v))"

text \<open>
  \<open>memcpy(psData, v, (strlen(v) >= nBuffSize) ? (nBuffSize - 1) : strlen(v))\<close> into a buffer of \<open>nBuffSize\<close> cleared bytes.
\<close>

definition copy_out :: "string \<Rightarrow> int \<Rightarrow> string cres" where
  "copy_out v nBuffSize =
     (if nBuffSize \<le> 0 then Crash BufOverflow
      else let n = nat nBuffSize; k = (if length v \<ge> n then n - 1 else length v)
           in Ret (take k v @ replicate (n - k) NUL))"

definition XmlGet :: "string \<Rightarrow> int \<Rightarrow> xml \<Rightarrow> (int \<times> string \<times> xml) crun" where
  "XmlGet psTagName nBuffSize s =
     (if nBuffSize < 0 then Some (Crash BufOverflow)
      else let zero = replicate (nat nBuffSize) NUL
           in with_public zero (\<lambda>tree.
                with_value zero tree psTagName (\<lambda>v.
                  rbind (Some (copy_out v nBuffSize)) (\<lambda>buf. Some (Ret (int (length v), buf, s)))) s) s)"

text \<open>\<open>None\<close>: \<open>*pnData\<close> was not written.\<close>

definition XmlIntGet :: "string \<Rightarrow> xml \<Rightarrow> (int \<times> int option \<times> xml) crun" where
  "XmlIntGet psTagName s =
     with_public None (\<lambda>tree. with_value None tree psTagName (\<lambda>v. Some (Ret (0, Some (atoi v), s))) s) s"

text \<open>
  The search for an element that makes it, with its attribute, when it is missing: \<open>attr\<close> is the attribute it is searched
  by, \<open>k\<close> what is done with the element.
\<close>

definition find_or_new ::
  "nat \<Rightarrow> string \<Rightarrow> (string \<times> string) option \<Rightarrow> (nat \<Rightarrow> xml \<Rightarrow> (int \<times> unit \<times> xml) crun) \<Rightarrow> xml \<Rightarrow> (int \<times> unit \<times> xml) crun" where
  "find_or_new tree name attr k s =
     rbind (xfind (Some tree) name attr s) (\<lambda>node.
       case node of Some x \<Rightarrow> k x s
       | None \<Rightarrow>
           rbind (xnew (Some tree) name s) (\<lambda>(node, s).
             case node of None \<Rightarrow> xfail (not_added name) () s
             | Some x \<Rightarrow> (case attr of None \<Rightarrow> k x s | Some (a, v) \<Rightarrow> rbind (xattr x a v s) (k x))))"

definition set_value_of :: "string cres \<Rightarrow> nat \<Rightarrow> xml \<Rightarrow> (int \<times> unit \<times> xml) crun" where
  "set_value_of v x s = rbind (Some v) (\<lambda>v. rbind (xattr x ''value'' v s) (\<lambda>s. Some (Ret (0, (), s))))"

definition XmlSet :: "string \<Rightarrow> string \<Rightarrow> xml \<Rightarrow> (int \<times> unit \<times> xml) crun" where
  "XmlSet psTagName psData s =
     with_public () (\<lambda>tree. find_or_new tree psTagName None (set_value_of (Ret psData)) s) s"

definition XmlCharSet :: "string \<Rightarrow> char \<Rightarrow> xml \<Rightarrow> (int \<times> unit \<times> xml) crun" where
  "XmlCharSet psTagName cData s =
     with_public () (\<lambda>tree. find_or_new tree psTagName None (set_value_of (Ret (c_str [cData, NUL]))) s) s"

text \<open>\<open>sprintf\<close> of an integer into an array of 11 bytes.\<close>

definition int_text :: "int \<Rightarrow> string cres" where
  "int_text n = (if length (show_int n) + 1 > 11 then Crash BufOverflow else Ret (show_int n))"

definition XmlIntSet :: "string \<Rightarrow> int \<Rightarrow> xml \<Rightarrow> (int \<times> unit \<times> xml) crun" where
  "XmlIntSet psTagName nData s =
     with_public () (\<lambda>tree. find_or_new tree psTagName None (set_value_of (int_text nData)) s) s"

subsection \<open>Records\<close>

definition add_record :: "string \<Rightarrow> int \<Rightarrow> string \<Rightarrow> string cres \<Rightarrow> xml \<Rightarrow> (int \<times> unit \<times> xml) crun" where
  "add_record psRecordSetName nRecID psEmName v s =
     with_message () (\<lambda>tree.
       find_or_new tree ''RecordSet'' (Some (''name'', psRecordSetName)) (\<lambda>recordset s.
         rbind (Some (int_text nRecID)) (\<lambda>sRecID.
         find_or_new recordset ''Record'' (Some (''RecID'', sRecID)) (\<lambda>rec s.
           find_or_new rec psEmName None (set_value_of v) s) s)) s) s"

definition XmlAddList :: "string \<Rightarrow> int \<Rightarrow> string \<Rightarrow> string \<Rightarrow> xml \<Rightarrow> (int \<times> unit \<times> xml) crun" where
  "XmlAddList psRecordSetName nRecID psEmName psData s = add_record psRecordSetName nRecID psEmName (Ret psData) s"

definition XmlAddIntList :: "string \<Rightarrow> int \<Rightarrow> string \<Rightarrow> int \<Rightarrow> xml \<Rightarrow> (int \<times> unit \<times> xml) crun" where
  "XmlAddIntList psRecordSetName nRecID psEmName nData s = add_record psRecordSetName nRecID psEmName (int_text nData) s"

definition XmlFetchList :: "string \<Rightarrow> int \<Rightarrow> string \<Rightarrow> int \<Rightarrow> xml \<Rightarrow> (int \<times> string \<times> xml) crun" where
  "XmlFetchList psRecordSetName nRecID psEmName nBuffSize s =
     (if nBuffSize < 0 then Some (Crash BufOverflow)
      else let zero = replicate (nat nBuffSize) NUL
           in with_message zero (\<lambda>tree.
                rbind (xfind (Some tree) ''RecordSet'' (Some (''name'', psRecordSetName)) s) (\<lambda>recordset.
                case recordset of
                  None \<Rightarrow> xfail (''Unable to find <RecordSet name='' @ [CHR 0x22] @ psRecordSetName @ [CHR 0x22] @ ''> element in XML tree!'') zero s
                | Some rset \<Rightarrow>
                    rbind (Some (int_text nRecID)) (\<lambda>sRecID.
                    rbind (xfind (Some rset) ''Record'' (Some (''RecID'', sRecID)) s) (\<lambda>rec.
                    case rec of
                      None \<Rightarrow> xfail (''Unable to find <Record RecID='' @ [CHR 0x22] @ show_int nRecID @ [CHR 0x22] @ ''> element in XML tree!'') zero s
                    | Some r \<Rightarrow> with_value zero r psEmName (\<lambda>v.
                        rbind (Some (copy_out v nBuffSize)) (\<lambda>buf. Some (Ret (int (length v), buf, s)))) s)))) s)"

subsection \<open>Comparisons\<close>

definition XmlStringCmp :: "string \<Rightarrow> string \<Rightarrow> xml \<Rightarrow> (int \<times> unit \<times> xml) crun" where
  "XmlStringCmp psTagName psData s =
     with_public () (\<lambda>tree. with_value () tree psTagName (\<lambda>v. Some (Ret (strcmp v psData, (), s))) s) s"

definition XmlElementCmp :: "string \<Rightarrow> string \<Rightarrow> xml \<Rightarrow> (int \<times> unit \<times> xml) crun" where
  "XmlElementCmp psTagName1 psTagName2 s =
     with_public () (\<lambda>tree.
       with_value () tree psTagName1 (\<lambda>v1.
         with_value () tree psTagName2 (\<lambda>v2. Some (Ret (strcmp v1 v2, (), s))) s) s) s"

definition XmlError :: "xml \<Rightarrow> string" where
  "XmlError s = l_sXmlError s"

definition XmlPointer :: "xml \<Rightarrow> nat option" where
  "XmlPointer s = l_pIntXml s"

end
