(* ===== verification/XmlFields.thy ===== *)
theory XmlFields
  imports XmlMsg
begin

text \<open>
  The message document of \<open>xml.c\<close> as a store of fields. \<open>xml_at s ch r m p\<close>: the heap of \<open>s\<close> is well-formed with the lists of
  children \<open>ch\<close>, \<open>r\<close> is the document, \<open>m\<close> its element \<open>Message\<close>, \<open>p\<close> the element \<open>Public\<close> of that. \<open>fld\<close> is the finite map
  from names to values that a list of elements represents. The lemmas say what the shared steps \<open>find_or_new\<close> and
  \<open>set_value_of\<close> do to the document when memory does not run out (\<open>plenty\<close>).
\<close>

section \<open>Searches on a well-formed document\<close>

lemma sat_cong: "map_option payload (cells h' x) = map_option payload (cells h x) \<Longrightarrow> sat name attr val h' x = sat name attr val h x"
  by (cases "cells h' x"; cases "cells h x") (simp_all add: sat_def payload_def)

definition attr_of :: "string \<Rightarrow> xheap \<Rightarrow> nat \<Rightarrow> string option" where
  "attr_of a h x = (case cells h x of Some n \<Rightarrow> (case n_value n of VElement _ as \<Rightarrow> get_attr a as | _ \<Rightarrow> None) | None \<Rightarrow> None)"

lemma attr_cong: "map_option payload (cells h' x) = map_option payload (cells h x) \<Longrightarrow> attr_of a h' x = attr_of a h x"
  by (cases "cells h' x"; cases "cells h x") (simp_all add: attr_of_def payload_def)

lemma sat_element: "sat name attr val h x \<Longrightarrow> \<exists>n en as. cells h x = Some n \<and> n_type n = MXML_ELEMENT \<and> n_value n = VElement (Some en) as"
proof -
  assume s: "sat name attr val h x"
  then obtain n where n: "cells h x = Some n" by (cases "cells h x") (simp_all add: sat_def)
  then show ?thesis using s by (cases "n_type n"; cases "n_value n") (simp_all add: sat_def split: option.splits)
qed

lemma GetAttr_sat:
  assumes "sat name attr val h x"
  shows "mxmlElementGetAttr (Some x) (Some a) h = Ret (attr_of a h x)"
  using sat_element [OF assms] by (auto simp: mxmlElementGetAttr_def rd_Some elem_def attr_of_def)

lemma xfind_list:
  assumes "xinv (x_heap s) ch" "cells (x_heap s) t \<noteq> None"
  shows "xfind (Some t) name attr s =
    Some (Ret (find (sat (Some name) (map_option fst attr) (map_option snd attr) (x_heap s)) (ch t)))"
  unfolding xfind_def
  by (rule FindElement_first [OF xinv_forest [OF assms(1)] xinv_typed [OF assms(1)] assms(2)]) (cases attr; simp)

lemma find_in: "find P xs = Some x \<Longrightarrow> x \<in> set xs \<and> P x"
  by (induction xs) (auto split: if_splits)

lemma find_snoc: "find P (xs @ [x]) = (case find P xs of None \<Rightarrow> if P x then Some x else None | Some y \<Rightarrow> Some y)"
  by (induction xs) auto

lemma find_same: "(\<And>x. x \<in> set xs \<Longrightarrow> P x = Q x) \<Longrightarrow> find P xs = find Q xs"
  by (induction xs) auto

definition named :: "string \<Rightarrow> xheap \<Rightarrow> nat list \<Rightarrow> nat option" where
  "named name h xs = find (sat (Some name) None None h) xs"

definition xml_at :: "xml \<Rightarrow> (nat \<Rightarrow> nat list) \<Rightarrow> nat \<Rightarrow> nat \<Rightarrow> nat \<Rightarrow> bool" where
  "xml_at s ch r m p \<longleftrightarrow> xinv (x_heap s) ch \<and> l_pIntXml s = Some r \<and> cells (x_heap s) r \<noteq> None \<and>
     named ''Message'' (x_heap s) (ch r) = Some m \<and> named ''Public'' (x_heap s) (ch m) = Some p"

lemma named_live: "xinv h ch \<Longrightarrow> named name h (ch t) = Some x \<Longrightarrow> x \<in> set (ch t) \<and> cells h x \<noteq> None \<and> sat (Some name) None None h x"
  using find_in [of _ "ch t" x] forest_live [OF xinv_forest, of h ch x t] unfolding named_def by blast

lemma xml_at_live:
  assumes "xml_at s ch r m p"
  shows "cells (x_heap s) m \<noteq> None" "cells (x_heap s) p \<noteq> None" "m \<in> set (ch r)" "p \<in> set (ch m)"
  using assms named_live [of "x_heap s" ch _ r m] named_live [of "x_heap s" ch _ m p] by (auto simp: xml_at_def)

lemma with_message_at:
  assumes "xml_at s ch r m p"
  shows "with_message out k s = k m"
proof -
  have "xfind (l_pIntXml s) ''Message'' None s = Some (Ret (Some m))"
    using assms xfind_list [of s ch r "''Message''" None] by (simp add: xml_at_def named_def)
  then show ?thesis by (simp add: with_message_def)
qed

lemma with_public_at:
  assumes "xml_at s ch r m p"
  shows "with_public out k s = k p"
proof -
  have "xfind (Some m) ''Public'' None s = Some (Ret (Some p))"
    using assms xfind_list [of s ch m "''Public''" None] xml_at_live(1) [OF assms] by (simp add: xml_at_def named_def)
  then show ?thesis by (simp add: with_public_def with_message_at [OF assms])
qed

lemma with_value_list:
  assumes i: "xinv (x_heap s) ch" and t: "cells (x_heap s) t \<noteq> None"
  shows "with_value out t name k s =
    (case named name (x_heap s) (ch t) of None \<Rightarrow> xfail (no_element name) out s
     | Some x \<Rightarrow> (case attr_of ''value'' (x_heap s) x of None \<Rightarrow> xfail (no_value name) out s | Some v \<Rightarrow> k v))"
proof (cases "named name (x_heap s) (ch t)")
  case None
  then show ?thesis using xfind_list [OF i t, of name None] by (simp add: with_value_def named_def)
next
  case (Some x)
  then have "sat (Some name) None None (x_heap s) x" using named_live [OF i] by blast
  then show ?thesis using xfind_list [OF i t, of name None] Some
    by (simp add: with_value_def named_def GetAttr_sat split: option.split)
qed

section \<open>Making and changing elements\<close>

definition plenty :: "xml \<Rightarrow> bool" where
  "plenty s \<longleftrightarrow> (\<forall>k. grants (x_heap s) k)"

lemma xnew_kid:
  assumes i: "xinv (x_heap s) ch" and p: "plenty s" and t: "cells (x_heap s) t \<noteq> None"
  obtains x s' where "xnew (Some t) name s = Some (Ret (Some x, s'))" "cells (x_heap s) x = None"
    "xinv (x_heap s') (ch(t := ch t @ [x]))" "cells (x_heap s') x \<noteq> None" "\<And>nm. sat (Some nm) None None (x_heap s') x \<longleftrightarrow> nm = name"
    "\<And>a. attr_of a (x_heap s') x = None" "ch x = []" "plenty s'" "l_pIntXml s' = l_pIntXml s" "x_cb s' = x_cb s"
    "\<And>y. y \<noteq> x \<Longrightarrow> map_option payload (cells (x_heap s') y) = map_option payload (cells (x_heap s) y)"
proof -
  let ?h = "x_heap s" and ?x = "tick (x_heap s)"
  have g: "grants ?h k" for k using p by (simp add: plenty_def)
  have "live_opt ?h (Some t)" using t by (simp add: live_opt_def)
  then obtain h' n where h': "mxmlNewElement (Some t) (Some name) ?h = Ret (Some ?x, h')" "xinv h' (ch(t := ch t @ [?x]))"
    "others_same ?x ?h h'" "cells h' ?x = Some n" "payload n = (MXML_ELEMENT, VElement (Some name) [], 1)"
    using g by (cases rule: NewElement_cases [OF i, of "Some t" name]) (auto simp: add_kid_def)
  have new: "xnew (Some t) name s = Some (Ret (Some ?x, absorb h' s))" using h'(1) by (simp add: xnew_def)
  have ab: "x_heap (absorb h' s) = h'" "l_pIntXml (absorb h' s) = l_pIntXml s" "x_cb (absorb h' s) = x_cb s"
    by (simp_all add: absorb_def)
  have "plenty (absorb h' s)" using h'(3) p by (simp add: plenty_def ab others_same_def)
  moreover have "sat (Some nm) None None h' ?x \<longleftrightarrow> nm = name" for nm
    using h'(4,5) by (auto simp: sat_def payload_def)
  moreover have "attr_of a h' ?x = None" for a using h'(4,5) by (simp add: payload_def attr_of_def)
  moreover have "cells h' ?x \<noteq> None" using h'(4) by simp
  ultimately show ?thesis
    by (intro that [of ?x "absorb h' s", OF new xinv_fresh [OF i order_refl], unfolded ab, OF h'(2)])
       (use h'(3) fresh_alone(1) [OF i order_refl] in \<open>simp_all add: others_same_def\<close>)
qed

lemma xattr_set:
  assumes i: "xinv (x_heap s) ch" and p: "plenty s" and x: "sat name attr val (x_heap s) x"
  obtains s' where "xattr x a v s = Some (Ret s')" "xinv (x_heap s') ch" "plenty s'" "l_pIntXml s' = l_pIntXml s" "x_cb s' = x_cb s"
    "\<And>y. y \<noteq> x \<Longrightarrow> map_option payload (cells (x_heap s') y) = map_option payload (cells (x_heap s) y)"
    "\<And>b. attr_of b (x_heap s') x = (if b = a then Some v else attr_of b (x_heap s) x)"
    "\<And>nm. sat (Some nm) None None (x_heap s') x = sat (Some nm) None None (x_heap s) x"
    "\<And>y. cells (x_heap s') y = None \<longleftrightarrow> cells (x_heap s) y = None"
proof -
  let ?h = "x_heap s"
  have g: "grants ?h k" for k using p by (simp add: plenty_def)
  obtain n en as where n: "cells ?h x = Some n" "n_type n = MXML_ELEMENT" "n_value n = VElement (Some en) as"
    using sat_element [OF x] by blast
  let ?h1 = "?h\<lparr>tick := Suc (tick ?h)\<rparr>"
  have t1: "typed ?h1" using xinv_typed [OF i] by (simp add: typed_def)
  obtain h' where h': "mxml_set_attr x a (Some v) ?h1 = Ret (0, h')" "data_only ?h1 h'"
    "cells h' = (cells ?h)(x \<mapsto> n\<lparr>n_value := VElement (Some en) (new_attrs a (Some v) as)\<rparr>)"
    using set_attr_cases [OF t1, of x n "Some en" as a "Some v"] n g by auto
  have "mxmlElementSetAttr (Some x) (Some a) (Some v) ?h = Ret h'"
    using n g h'(1) by (simp add: mxmlElementSetAttr_def rd_Some xstrdup_def granted_def)
  then have new: "xattr x a v s = Some (Ret (absorb h' s))" by (simp add: xattr_def)
  have ab: "x_heap (absorb h' s) = h'" "l_pIntXml (absorb h' s) = l_pIntXml s" "x_cb (absorb h' s) = x_cb s"
    by (simp_all add: absorb_def)
  have "data_only ?h h'" using h'(2) by (simp add: data_only_def typed_def)
  then have inv: "xinv h' ch" by (rule data_only_xinv [OF i])
  have pl: "plenty (absorb h' s)" using h'(2) p by (simp add: plenty_def absorb_def data_only_def)
  have "attr_of b h' x = (if b = a then Some v else attr_of b ?h x)" for b
    using h'(3) n by (simp add: attr_of_def get_new)
  moreover have "sat (Some nm) None None h' x = sat (Some nm) None None ?h x" for nm
    using h'(3) n by (simp add: sat_def)
  moreover have "cells h' y = None \<longleftrightarrow> cells ?h y = None" for y using h'(3) n by simp
  moreover have "map_option payload (cells h' y) = map_option payload (cells ?h y)" if "y \<noteq> x" for y
    using h'(3) that by simp
  ultimately show ?thesis
    by (intro that [of "absorb h' s", OF new, unfolded ab, OF inv pl]) simp_all
qed

lemma sat_attr: "sat (Some nm) (Some a) (Some v) h y \<longleftrightarrow> sat (Some nm) None None h y \<and> attr_of a h y = Some v"
proof (cases "\<exists>n en as. cells h y = Some n \<and> n_type n = MXML_ELEMENT \<and> n_value n = VElement (Some en) as")
  case True
  then obtain n en as where "cells h y = Some n" "n_type n = MXML_ELEMENT" "n_value n = VElement (Some en) as" by blast
  then show ?thesis by (cases "get_attr a as") (auto simp: sat_def attr_of_def)
next
  case False
  then show ?thesis using sat_element [of "Some nm" "Some a" "Some v" h y] sat_element [of "Some nm" None None h y] by blast
qed

text \<open>\<open>grew s ch s' ch' t x\<close>: the element \<open>x\<close> below \<open>t\<close> was there, or was added as the last child; nothing else changed.\<close>

definition grew :: "xml \<Rightarrow> (nat \<Rightarrow> nat list) \<Rightarrow> xml \<Rightarrow> (nat \<Rightarrow> nat list) \<Rightarrow> nat \<Rightarrow> nat \<Rightarrow> bool" where
  "grew s ch s' ch' t x \<longleftrightarrow> xinv (x_heap s') ch' \<and> plenty s' \<and> l_pIntXml s' = l_pIntXml s \<and>
     (\<forall>y. cells (x_heap s) y \<noteq> None \<longrightarrow> map_option payload (cells (x_heap s') y) = map_option payload (cells (x_heap s) y)) \<and>
     (ch' = ch \<and> x \<in> set (ch t) \<or> ch' = ch(t := ch t @ [x]) \<and> cells (x_heap s) x = None \<and> ch x = [])"

lemma grewD:
  assumes "grew s ch s' ch' t x"
  shows grew_xinv: "xinv (x_heap s') ch'" and grew_plenty: "plenty s'" and grew_doc: "l_pIntXml s' = l_pIntXml s"
    and grew_live: "cells (x_heap s) y \<noteq> None \<Longrightarrow> cells (x_heap s') y \<noteq> None"
    and grew_sat: "cells (x_heap s) y \<noteq> None \<Longrightarrow> sat nm a v (x_heap s') y = sat nm a v (x_heap s) y"
    and grew_attr: "cells (x_heap s) y \<noteq> None \<Longrightarrow> attr_of b (x_heap s') y = attr_of b (x_heap s) y"
    and grew_in: "x \<in> set (ch' t)"
    and grew_other: "q \<noteq> t \<Longrightarrow> ch' q = ch q"
    and grew_list: "ch' t = ch t \<or> ch' t = ch t @ [x] \<and> cells (x_heap s) x = None"
proof -
  have same: "map_option payload (cells (x_heap s') y) = map_option payload (cells (x_heap s) y)"
    if "cells (x_heap s) y \<noteq> None" for y using assms that by (simp add: grew_def)
  show "cells (x_heap s) y \<noteq> None \<Longrightarrow> cells (x_heap s') y \<noteq> None" using same [of y] by (metis option.map_disc_iff)
  show "cells (x_heap s) y \<noteq> None \<Longrightarrow> sat nm a v (x_heap s') y = sat nm a v (x_heap s) y" by (rule sat_cong [OF same])
  show "cells (x_heap s) y \<noteq> None \<Longrightarrow> attr_of b (x_heap s') y = attr_of b (x_heap s) y" by (rule attr_cong [OF same])
qed (use assms in \<open>auto simp: grew_def\<close>)

definition attr_ok :: "(string \<times> string) option \<Rightarrow> xheap \<Rightarrow> nat \<Rightarrow> bool" where
  "attr_ok attr h x = (case attr of None \<Rightarrow> True | Some (a, v) \<Rightarrow> attr_of a h x = Some v)"

lemma sat_split: "sat (Some nm) (map_option fst attr) (map_option snd attr) h x \<longleftrightarrow> sat (Some nm) None None h x \<and> attr_ok attr h x"
  by (cases attr) (auto simp: attr_ok_def sat_attr)

definition found :: "string \<Rightarrow> (string \<times> string) option \<Rightarrow> xheap \<Rightarrow> nat list \<Rightarrow> nat option" where
  "found name attr h xs = find (sat (Some name) (map_option fst attr) (map_option snd attr) h) xs"

lemma find_or_new_step:
  assumes i: "xinv (x_heap s) ch" and p: "plenty s" and t: "cells (x_heap s) t \<noteq> None"
  obtains x s' ch' where "find_or_new t name attr k s = k x s'" "grew s ch s' ch' t x"
    "found name attr (x_heap s') (ch' t) = Some x" "sat (Some name) None None (x_heap s') x"
    "\<And>nm. nm \<noteq> name \<Longrightarrow> named nm (x_heap s') (ch' t) = named nm (x_heap s) (ch t)"
proof (cases "found name attr (x_heap s) (ch t)")
  case (Some x)
  then have "find_or_new t name attr k s = k x s"
    using xfind_list [OF i t, of name attr] by (simp add: find_or_new_def found_def)
  moreover have x: "x \<in> set (ch t) \<and> sat (Some name) None None (x_heap s) x"
    using find_in Some unfolding found_def sat_split by fastforce
  then have "grew s ch s ch t x" using i p by (simp add: grew_def)
  ultimately show ?thesis using that [of x s ch] Some x by simp
next
  case None
  then have no: "\<And>y. y \<in> set (ch t) \<Longrightarrow> \<not> (sat (Some name) None None (x_heap s) y \<and> attr_ok attr (x_heap s) y)"
    by (simp add: found_def find_None_iff sat_split)
  obtain x s1 where n: "xnew (Some t) name s = Some (Ret (Some x, s1))" "cells (x_heap s) x = None"
    "xinv (x_heap s1) (ch(t := ch t @ [x]))" "\<And>nm. sat (Some nm) None None (x_heap s1) x \<longleftrightarrow> nm = name"
    "ch x = []" "plenty s1" "l_pIntXml s1 = l_pIntXml s"
    "\<And>y. y \<noteq> x \<Longrightarrow> map_option payload (cells (x_heap s1) y) = map_option payload (cells (x_heap s) y)"
    using xnew_kid [OF i p t, of name] by metis
  have "xfind (Some t) name attr s = Some (Ret None)"
    using xfind_list [OF i t, of name attr] None by (simp add: found_def)
  then have run: "find_or_new t name attr k s =
      (case attr of None \<Rightarrow> k x s1 | Some (a, v) \<Rightarrow> rbind (xattr x a v s1) (k x))"
    using n(1) by (simp add: find_or_new_def)
  obtain s2 where s2: "(case attr of None \<Rightarrow> k x s1 | Some (a, v) \<Rightarrow> rbind (xattr x a v s1) (k x)) = k x s2"
    "xinv (x_heap s2) (ch(t := ch t @ [x]))" "plenty s2" "l_pIntXml s2 = l_pIntXml s1"
    "\<And>y. y \<noteq> x \<Longrightarrow> map_option payload (cells (x_heap s2) y) = map_option payload (cells (x_heap s1) y)"
    "\<And>nm. sat (Some nm) None None (x_heap s2) x = sat (Some nm) None None (x_heap s1) x" "attr_ok attr (x_heap s2) x"
  proof (cases attr)
    case None
    then show ?thesis using that [of s1] n by (simp add: attr_ok_def)
  next
    case (Some av)
    obtain a v where av: "av = (a, v)" by fastforce
    have "sat (Some name) None None (x_heap s1) x" using n(4) by simp
    then obtain s2 where "xattr x a v s1 = Some (Ret s2)" "xinv (x_heap s2) (ch(t := ch t @ [x]))" "plenty s2"
      "l_pIntXml s2 = l_pIntXml s1"
      "\<And>y. y \<noteq> x \<Longrightarrow> map_option payload (cells (x_heap s2) y) = map_option payload (cells (x_heap s1) y)"
      "\<And>b. attr_of b (x_heap s2) x = (if b = a then Some v else attr_of b (x_heap s1) x)"
      "\<And>nm. sat (Some nm) None None (x_heap s2) x = sat (Some nm) None None (x_heap s1) x"
      using xattr_set [OF n(3,6), of "Some name" None None x a v] by metis
    then show ?thesis using that [of s2] Some av by (simp add: attr_ok_def)
  qed
  have old: "map_option payload (cells (x_heap s2) y) = map_option payload (cells (x_heap s) y)" if "y \<noteq> x" for y
    using s2(5) n(8) that by simp
  have live: "y \<noteq> x" if "y \<in> set (ch t)" for y using forest_live [OF xinv_forest [OF i] that] n(2) by auto
  have "grew s ch s2 (ch(t := ch t @ [x])) t x"
    unfolding grew_def using s2(2,3,4) n(2,5,7) old by metis
  moreover have "find (sat (Some name) (map_option fst attr) (map_option snd attr) (x_heap s2)) (ch t) = None"
    using None find_same [of "ch t" "sat (Some name) (map_option fst attr) (map_option snd attr) (x_heap s2)"
        "sat (Some name) (map_option fst attr) (map_option snd attr) (x_heap s)"] sat_cong [OF old] live
    unfolding found_def by metis
  then have "found name attr (x_heap s2) (ch t @ [x]) = Some x"
    using s2(6,7) n(4) by (simp add: found_def find_snoc sat_split)
  moreover have "named nm (x_heap s2) (ch t @ [x]) = named nm (x_heap s) (ch t)" if "nm \<noteq> name" for nm
  proof -
    have "find (sat (Some nm) None None (x_heap s2)) (ch t) = find (sat (Some nm) None None (x_heap s)) (ch t)"
      by (rule find_same) (use sat_cong [OF old] live in blast)
    then show ?thesis using that s2(6) n(4) by (simp add: named_def find_snoc split: option.split)
  qed
  ultimately show ?thesis using that [of x s2 "ch(t := ch t @ [x])"] run s2(1,6) n(4) by simp
qed

lemma sat_name: "sat (Some a) None None h y \<Longrightarrow> sat (Some b) None None h y \<Longrightarrow> a = b"
  using sat_element [of "Some a" None None h y] by (auto simp: sat_def)

text \<open>\<open>wrote s ch s' ch' t x\<close>: a value was put into the element \<open>x\<close> below \<open>t\<close>, which may be new; nothing else changed.\<close>

definition wrote :: "xml \<Rightarrow> (nat \<Rightarrow> nat list) \<Rightarrow> xml \<Rightarrow> (nat \<Rightarrow> nat list) \<Rightarrow> nat \<Rightarrow> nat \<Rightarrow> bool" where
  "wrote s ch s' ch' t x \<longleftrightarrow> xinv (x_heap s') ch' \<and> plenty s' \<and> l_pIntXml s' = l_pIntXml s \<and>
     (\<forall>y. cells (x_heap s) y \<noteq> None \<longrightarrow> cells (x_heap s') y \<noteq> None \<and>
        (\<forall>nm. sat (Some nm) None None (x_heap s') y = sat (Some nm) None None (x_heap s) y) \<and>
        (y \<noteq> x \<longrightarrow> (\<forall>b. attr_of b (x_heap s') y = attr_of b (x_heap s) y))) \<and>
     (\<forall>q. q \<noteq> t \<longrightarrow> ch' q = ch q) \<and> (ch' t = ch t \<or> ch' t = ch t @ [x])"

lemma put_field:
  assumes i: "xinv (x_heap s) ch" and p: "plenty s" and t: "cells (x_heap s) t \<noteq> None"
  obtains x s' ch' where "find_or_new t name None (set_value_of (Ret w)) s = Some (Ret (0, (), s'))" "wrote s ch s' ch' t x"
    "named name (x_heap s') (ch' t) = Some x" "attr_of ''value'' (x_heap s') x = Some w"
    "\<And>nm. nm \<noteq> name \<Longrightarrow> named nm (x_heap s') (ch' t) = named nm (x_heap s) (ch t)"
proof -
  obtain x s1 ch1 where f: "find_or_new t name None (set_value_of (Ret w)) s = set_value_of (Ret w) x s1" "grew s ch s1 ch1 t x"
    "found name None (x_heap s1) (ch1 t) = Some x" "sat (Some name) None None (x_heap s1) x"
    "\<And>nm. nm \<noteq> name \<Longrightarrow> named nm (x_heap s1) (ch1 t) = named nm (x_heap s) (ch t)"
    by (rule find_or_new_step [OF i p t, of name None "set_value_of (Ret w)"]) (rule that)
  obtain s2 where g: "xattr x ''value'' w s1 = Some (Ret s2)" "xinv (x_heap s2) ch1" "plenty s2" "l_pIntXml s2 = l_pIntXml s1"
      "\<And>y. y \<noteq> x \<Longrightarrow> map_option payload (cells (x_heap s2) y) = map_option payload (cells (x_heap s1) y)"
      "\<And>b. attr_of b (x_heap s2) x = (if b = ''value'' then Some w else attr_of b (x_heap s1) x)"
      "\<And>nm. sat (Some nm) None None (x_heap s2) x = sat (Some nm) None None (x_heap s1) x"
      "\<And>y. cells (x_heap s2) y = None \<longleftrightarrow> cells (x_heap s1) y = None"
    by (rule xattr_set [OF grew_xinv [OF f(2)] grew_plenty [OF f(2)] f(4), of "''value''" w]) (rule that)
  have sat2: "sat (Some nm) None None (x_heap s2) y = sat (Some nm) None None (x_heap s1) y" for nm y
    using g(7) sat_cong [OF g(5)] by (cases "y = x") auto
  have named2: "named nm (x_heap s2) xs = named nm (x_heap s1) xs" for nm xs
    unfolding named_def by (rule find_same) (rule sat2)
  have "find_or_new t name None (set_value_of (Ret w)) s = Some (Ret (0, (), s2))"
    using f(1) g(1) by (simp add: set_value_of_def)
  moreover have "wrote s ch s2 ch1 t x"
    unfolding wrote_def
  proof (intro conjI allI impI)
    fix y assume y: "cells (x_heap s) y \<noteq> None"
    show "cells (x_heap s2) y \<noteq> None" using grew_live [OF f(2) y] g(8) by simp
    show "sat (Some nm) None None (x_heap s2) y = sat (Some nm) None None (x_heap s) y" for nm
      using grew_sat [OF f(2) y] sat2 by simp
    show "attr_of b (x_heap s2) y = attr_of b (x_heap s) y" if "y \<noteq> x" for b
      using grew_attr [OF f(2) y] attr_cong [OF g(5) [OF that]] by simp
  qed (use g grew_doc [OF f(2)] grew_other [OF f(2)] grew_list [OF f(2)] in auto)
  moreover have "named name (x_heap s2) (ch1 t) = Some x"
    using f(3) named2 by (simp add: found_def named_def)
  moreover have "attr_of ''value'' (x_heap s2) x = Some w" using g(6) by simp
  moreover have "named nm (x_heap s2) (ch1 t) = named nm (x_heap s) (ch t)" if "nm \<noteq> name" for nm
    unfolding named2 by (rule f(5) [OF that])
  ultimately show ?thesis by (rule that)
qed

section \<open>Fields\<close>

definition fld :: "xml \<Rightarrow> nat list \<Rightarrow> string \<Rightarrow> string option" where
  "fld s xs tag = (case named tag (x_heap s) xs of None \<Rightarrow> None | Some x \<Rightarrow> attr_of ''value'' (x_heap s) x)"

lemma fld_wrote:
  assumes i: "xinv (x_heap s) ch" and w: "wrote s ch s' ch' t x" and n: "named name (x_heap s') (ch' t) = Some x"
    "attr_of ''value'' (x_heap s') x = Some v" "\<And>nm. nm \<noteq> name \<Longrightarrow> named nm (x_heap s') (ch' t) = named nm (x_heap s) (ch t)"
  shows "fld s' (ch' t) = (fld s (ch t))(name \<mapsto> v)"
proof
  fix nm
  show "fld s' (ch' t) nm = ((fld s (ch t))(name \<mapsto> v)) nm"
  proof (cases "nm = name")
    case True
    then show ?thesis using n by (simp add: fld_def)
  next
    case False
    have i': "xinv (x_heap s') ch'" using w by (simp add: wrote_def)
    show ?thesis
    proof (cases "named nm (x_heap s) (ch t)")
      case None
      then show ?thesis using False n(3) by (simp add: fld_def)
    next
      case (Some y)
      then have y: "cells (x_heap s) y \<noteq> None" "sat (Some nm) None None (x_heap s) y"
        using named_live [OF i] by blast+
      have "sat (Some nm) None None (x_heap s') y" using w y by (simp add: wrote_def)
      moreover have "sat (Some name) None None (x_heap s') x" using named_live [OF i' n(1)] by blast
      ultimately have "y \<noteq> x" using sat_name False by metis
      then have "attr_of ''value'' (x_heap s') y = attr_of ''value'' (x_heap s) y" using w y(1) by (simp add: wrote_def)
      then show ?thesis using False n(3) Some by (simp add: fld_def)
    qed
  qed
qed

lemma named_wrote:
  assumes i: "xinv (x_heap s) ch" and w: "wrote s ch s' ch' t x" and q: "q \<noteq> t"
  shows "named nm (x_heap s') (ch' q) = named nm (x_heap s) (ch q)"
proof -
  have "ch' q = ch q" using w q by (simp add: wrote_def)
  then show ?thesis unfolding named_def
    by (simp, intro find_same) (use w forest_live [OF xinv_forest [OF i]] in \<open>auto simp: wrote_def\<close>)
qed

lemma xml_at_distinct:
  assumes "xml_at s ch r m p"
  shows "r \<noteq> m" "m \<noteq> p" "r \<noteq> p"
proof -
  have f: "forest (cells (x_heap s)) ch" using assms by (simp add: xml_at_def xinv_forest)
  note l = xml_at_live(3,4) [OF assms]
  have "(m, r) \<in> kids ch" "(p, m) \<in> kids ch" using l by simp_all
  then show "r \<noteq> m" "m \<noteq> p" "r \<noteq> p"
    using wf_acyclic [OF forest_wf [OF f]] unfolding acyclic_def by (blast intro: trancl.intros)+
qed

lemma XmlSet_at:
  assumes a: "xml_at s ch r m p" and pl: "plenty s"
  obtains s' ch' where "XmlSet tag v s = Some (Ret (0, (), s'))" "xml_at s' ch' r m p" "plenty s'"
    "fld s' (ch' p) = (fld s (ch p))(tag \<mapsto> v)"
proof -
  have i: "xinv (x_heap s) ch" using a by (simp add: xml_at_def)
  obtain x s' ch' where s': "find_or_new p tag None (set_value_of (Ret v)) s = Some (Ret (0, (), s'))" "wrote s ch s' ch' p x"
    "named tag (x_heap s') (ch' p) = Some x" "attr_of ''value'' (x_heap s') x = Some v"
    "\<And>nm. nm \<noteq> tag \<Longrightarrow> named nm (x_heap s') (ch' p) = named nm (x_heap s) (ch p)"
    by (rule put_field [OF i pl xml_at_live(2) [OF a], of tag v]) (rule that)
  note d = xml_at_distinct [OF a]
  have "xml_at s' ch' r m p"
    using a s'(2) named_wrote [OF i s'(2) d(3), of "''Message''"] named_wrote [OF i s'(2) d(2), of "''Public''"]
    by (simp add: xml_at_def wrote_def)
  moreover have "plenty s'" using s'(2) by (simp add: wrote_def)
  ultimately show ?thesis
    using that fld_wrote [OF i s'(2-5)] s'(1) with_public_at [OF a, of "()" "\<lambda>t. find_or_new t tag None (set_value_of (Ret v)) s"]
    by (simp add: XmlSet_def)
qed

end
