(* ===== verification/XmlStore.thy ===== *)
theory XmlStore
  imports XmlFields
begin

text \<open>
  What a program that uses \<open>xml.c\<close> relies on. \<open>xml_field\<close> is the abstract content of a message, a finite map from names to
  values; \<open>XmlSet\<close> is an update of it, \<open>XmlGet\<close> a lookup (locale \<open>keyed_store\<close>, interpreted on both). Further lemmas: records
  written by \<open>XmlAddList\<close> are read by \<open>XmlFetchList\<close>, integers are printed into eleven bytes, \<open>XmlInit\<close> and its failure.
\<close>

section \<open>The fields of a message\<close>

definition xml_ok :: "xml \<Rightarrow> bool" where
  "xml_ok s \<longleftrightarrow> (\<exists>ch r m p. xml_at s ch r m p)"

text \<open>The abstract content of a message: what the searches of \<open>XmlGet\<close> find for each name.\<close>

definition xml_field :: "xml \<Rightarrow> string \<Rightarrow> string option" where
  "xml_field s tag =
     (case xfind (l_pIntXml s) ''Message'' None s of
        Some (Ret (Some m)) \<Rightarrow> (case xfind (Some m) ''Public'' None s of
          Some (Ret (Some p)) \<Rightarrow> (case xfind (Some p) tag None s of
            Some (Ret (Some x)) \<Rightarrow> (case mxmlElementGetAttr (Some x) (Some ''value'') (x_heap s) of
              Ret v \<Rightarrow> v | Crash e \<Rightarrow> None)
          | _ \<Rightarrow> None) | _ \<Rightarrow> None) | _ \<Rightarrow> None)"

lemma xml_field_at:
  assumes a: "xml_at s ch r m p"
  shows "xml_field s = fld s (ch p)"
proof
  fix tag
  have i: "xinv (x_heap s) ch" and r: "l_pIntXml s = Some r" "cells (x_heap s) r \<noteq> None" using a by (simp_all add: xml_at_def)
  note l = xml_at_live(1,2) [OF a]
  have s: "mxmlElementGetAttr (Some x) (Some ''value'') (x_heap s) = Ret (attr_of ''value'' (x_heap s) x)"
    if "named tag (x_heap s) (ch p) = Some x" for x
    using named_live [OF i that] GetAttr_sat by blast
  show "xml_field s tag = fld s (ch p) tag"
    using a s xfind_list [OF i r(2), of "''Message''" None] xfind_list [OF i l(1), of "''Public''" None]
      xfind_list [OF i l(2), of tag None]
    by (cases "named tag (x_heap s) (ch p)") (simp_all add: xml_field_def fld_def xml_at_def named_def)
qed

lemma with_value_field:
  assumes a: "xml_at s ch r m p" and v: "xml_field s tag = Some v"
  shows "with_value out p tag k s = k v"
proof -
  have i: "xinv (x_heap s) ch" using a by (simp add: xml_at_def)
  obtain x where "named tag (x_heap s) (ch p) = Some x" "attr_of ''value'' (x_heap s) x = Some v"
    using v by (auto simp: xml_field_at [OF a] fld_def split: option.splits)
  then show ?thesis by (simp add: with_value_list [OF i xml_at_live(2) [OF a]])
qed

lemma XmlSet_field:
  assumes "xml_ok s" "plenty s"
  obtains s' where "XmlSet tag v s = Some (Ret (0, (), s'))" "xml_ok s'" "plenty s'" "xml_field s' = (xml_field s)(tag \<mapsto> v)"
proof -
  obtain ch r m p where a: "xml_at s ch r m p" using assms(1) by (auto simp: xml_ok_def)
  obtain s' ch' where "XmlSet tag v s = Some (Ret (0, (), s'))" "xml_at s' ch' r m p" "plenty s'"
    "fld s' (ch' p) = (fld s (ch p))(tag \<mapsto> v)"
    by (rule XmlSet_at [OF a assms(2), of tag v]) (rule that)
  then show ?thesis using that [of s'] xml_field_at [OF a] xml_field_at [of s' ch' r m p] by (auto simp: xml_ok_def)
qed

lemma XmlGet_field:
  assumes "xml_ok s" "xml_field s tag = Some v" "0 < n"
  shows "XmlGet tag n s = Some (Ret (int (length v), take (nat n - 1) v @ replicate (nat n - min (nat n - 1) (length v)) NUL, s))"
proof -
  obtain ch r m p where a: "xml_at s ch r m p" using assms(1) by (auto simp: xml_ok_def)
  have "copy_out v n = Ret (take (nat n - 1) v @ replicate (nat n - min (nat n - 1) (length v)) NUL)"
    using assms(3) by (auto simp: copy_out_def Let_def min_def)
  then show ?thesis
    using assms(3) by (simp add: XmlGet_def Let_def with_public_at [OF a] with_value_field [OF a assms(2)])
qed

section \<open>A message as a keyed store\<close>

text \<open>The contract of a store of fields: \<open>put\<close> may fail, \<open>get\<close> reads what was put last.\<close>

locale keyed_store =
  fixes ok :: "'s \<Rightarrow> bool"
    and content :: "'s \<Rightarrow> 'k \<Rightarrow> 'v option"
    and put :: "'k \<Rightarrow> 'v \<Rightarrow> 's \<Rightarrow> 's option"
    and get :: "'k \<Rightarrow> 's \<Rightarrow> 'v option"
  assumes put_content: "ok s \<Longrightarrow> \<exists>s'. put k v s = Some s' \<and> ok s' \<and> content s' = (content s)(k \<mapsto> v)"
    and get_content: "ok s \<Longrightarrow> get k s = content s k"
begin

fun put_all :: "('k \<times> 'v) list \<Rightarrow> 's \<Rightarrow> 's option" where
  "put_all [] s = Some s"
| "put_all ((k, v) # kvs) s = Option.bind (put k v s) (put_all kvs)"

lemma put_all_content:
  "ok s \<Longrightarrow> \<exists>s'. put_all kvs s = Some s' \<and> ok s' \<and>
     (\<forall>k. content s' k = (case map_of (rev kvs) k of None \<Rightarrow> content s k | Some v \<Rightarrow> Some v))"
proof (induction kvs arbitrary: s)
  case (Cons kv kvs)
  obtain k v where kv: "kv = (k, v)" by fastforce
  obtain s1 where "put k v s = Some s1" "ok s1" "content s1 = (content s)(k \<mapsto> v)" using put_content [OF Cons.prems] by blast
  then show ?case using Cons.IH [of s1] kv by (fastforce simp: map_add_def split: option.splits if_splits)
qed simp

lemma get_put_all: "ok s \<Longrightarrow> put_all kvs s = Some s' \<Longrightarrow> get k s' = (case map_of (rev kvs) k of None \<Rightarrow> get k s | Some v \<Rightarrow> Some v)"
  using put_all_content [of s kvs] by (fastforce simp: get_content split: option.split)

end

definition xml_put :: "string \<Rightarrow> string \<Rightarrow> xml \<Rightarrow> xml option" where
  "xml_put tag v s = (case XmlSet tag v s of Some (Ret (r, _, s')) \<Rightarrow> if r = 0 then Some s' else None | _ \<Rightarrow> None)"

text \<open>Reading a field of unknown length: a first call asks for the length, a second one has a buffer for it.\<close>

definition xml_get :: "string \<Rightarrow> xml \<Rightarrow> string option" where
  "xml_get tag s =
     (case XmlGet tag 1 s of
        Some (Ret (r, _, s1)) \<Rightarrow>
          if r < 0 then None
          else (case XmlGet tag (r + 1) s1 of Some (Ret (r, buf, _)) \<Rightarrow> Some (take (nat r) buf) | _ \<Rightarrow> None)
      | _ \<Rightarrow> None)"

lemma XmlGet_missing:
  assumes "xml_ok s" "xml_field s tag = None" "0 \<le> n" "XmlGet tag n s = Some (Ret (r, buf, s'))"
  shows "r = -1"
proof -
  obtain ch r m p where a: "xml_at s ch r m p" using assms(1) by (auto simp: xml_ok_def)
  have i: "xinv (x_heap s) ch" using a by (simp add: xml_at_def)
  have "\<exists>msg. XmlGet tag n s = xfail msg (replicate (nat n) NUL) s"
    using assms(2,3)
    by (auto simp: XmlGet_def Let_def with_public_at [OF a] with_value_list [OF i xml_at_live(2) [OF a]]
        xml_field_at [OF a] fld_def split: option.splits)
  then show ?thesis using assms(4) by (auto simp: xfail_def XmlSetError_def split: if_splits)
qed

lemma xml_get_content:
  assumes "xml_ok s"
  shows "xml_get tag s = xml_field s tag"
proof (cases "xml_field s tag")
  case None
  show ?thesis
  proof (cases "XmlGet tag 1 s")
    case (Some c)
    then show ?thesis using XmlGet_missing [OF assms None, of 1] None
      by (cases c) (auto simp: xml_get_def)
  qed (simp add: xml_get_def None)
next
  case (Some v)
  then show ?thesis
    using XmlGet_field [OF assms Some, of 1] XmlGet_field [OF assms Some, of "int (length v) + 1"]
    by (simp add: xml_get_def nat_add_distrib)
qed

interpretation xml_fields: keyed_store "\<lambda>s. xml_ok s \<and> plenty s" xml_field xml_put xml_get
proof unfold_locales
  fix s k v
  assume ok: "xml_ok s \<and> plenty s"
  obtain s' where "XmlSet k v s = Some (Ret (0, (), s'))" "xml_ok s'" "plenty s'" "xml_field s' = (xml_field s)(k \<mapsto> v)"
    by (rule XmlSet_field [of s k v]) (use ok in simp_all)
  then show "\<exists>s'. xml_put k v s = Some s' \<and> (xml_ok s' \<and> plenty s') \<and> xml_field s' = (xml_field s)(k \<mapsto> v)"
    by (simp add: xml_put_def)
qed (simp add: xml_get_content)

section \<open>Integers as fields\<close>

lemma length_show_nat: "n < 10 ^ k \<Longrightarrow> 0 < k \<Longrightarrow> length (show_nat n) \<le> k"
proof (induction k arbitrary: n)
  case (Suc k)
  show ?case
  proof (cases "n < 10")
    case False
    then have "k > 0" using Suc.prems by (cases k) auto
    moreover have "n div 10 < 10 ^ k" using Suc.prems by (simp add: less_mult_imp_div_less mult.commute)
    ultimately show ?thesis using Suc.IH [of "n div 10"] False by (simp add: show_nat.simps [of n])
  qed (simp add: show_nat.simps [of n])
qed simp

lemma length_show_nat_ge: "10 ^ k \<le> n \<Longrightarrow> k < length (show_nat n)"
proof (induction k arbitrary: n)
  case 0
  then show ?case using show_nat_nonempty [of n] by simp
next
  case (Suc k)
  have n: "10 * 10 ^ k \<le> n" using Suc.prems by simp
  have "(10::nat) \<le> 10 * 10 ^ k" by simp
  then have "\<not> n < 10" using n by linarith
  moreover have "10 ^ k \<le> n div 10" using n by (simp add: less_eq_div_iff_mult_less_eq)
  ultimately have "\<not> n < 10" "10 ^ k \<le> n div 10" by blast+
  then show ?case using Suc.IH [of "n div 10"] by (simp add: show_nat.simps [of n])
qed

lemma int_text_ok:
  assumes "- 1000000000 < n" "n < 10000000000"
  shows "int_text n = Ret (show_int n)"
proof (cases "n < 0")
  case True
  then have "nat (- n) < 10 ^ 9" using assms by (simp add: nat_less_iff)
  then have "length (show_nat (nat (- n))) \<le> 9" by (rule length_show_nat) simp
  then show ?thesis using True by (simp add: int_text_def show_int_def)
next
  case False
  then have "nat n < 10 ^ 10" using assms by (simp add: nat_less_iff)
  then have "length (show_nat (nat n)) \<le> 10" by (rule length_show_nat) simp
  then show ?thesis using False by (simp add: int_text_def show_int_def)
qed

lemma int_text_over:
  assumes "n \<le> - 1000000000"
  shows "int_text n = Crash BufOverflow"
proof -
  have "10 ^ 9 \<le> nat (- n)" using assms by simp
  then have "9 < length (show_nat (nat (- n)))" by (rule length_show_nat_ge)
  then show ?thesis using assms by (simp add: int_text_def show_int_def)
qed

lemma atoi_show_int:
  assumes "- (2 ^ 31) \<le> n" "n < 2 ^ 31"
  shows "atoi (show_int n) = n"
proof (cases "n < 0")
  case True
  have "atol (show_int n) = n"
    using True assms digits_val_show [of 0 "nat (- n)" "[]"]
    by (simp add: atol_def show_int_def isspace_def digits_val_stop)
  then show ?thesis using assms by (simp add: atoi_def i32_id in_i32_def)
next
  case False
  then show ?thesis using atoi_show_nat [of "nat n" "[]"] assms by (simp add: show_int_def)
qed

lemma set_crash: "find_or_new t name attr (\<lambda>x s. Some (Crash e)) s = r \<Longrightarrow> xinv (x_heap s) ch \<Longrightarrow> plenty s \<Longrightarrow>
    cells (x_heap s) t \<noteq> None \<Longrightarrow> r = Some (Crash e)"
  by (rule find_or_new_step [of s ch t name attr "\<lambda>x s. Some (Crash e)"]) auto

section \<open>Records\<close>

lemma found_live:
  assumes "xinv h ch" "found name attr h (ch t) = Some x"
  shows "x \<in> set (ch t)" "cells h x \<noteq> None" "sat (Some name) None None h x" "attr_ok attr h x"
proof -
  have x: "x \<in> set (ch t)" "sat (Some name) (map_option fst attr) (map_option snd attr) h x"
    using find_in [OF assms(2) [unfolded found_def]] by simp_all
  show "x \<in> set (ch t)" by (rule x(1))
  show "cells h x \<noteq> None" using forest_live [OF xinv_forest [OF assms(1)] x(1)] by simp
  show "sat (Some name) None None h x" "attr_ok attr h x" using x(2) by (simp_all only: sat_split)
qed

lemma found_keeps:
  assumes f: "found name attr h xs = Some x"
    and e: "\<And>y. y \<in> set xs \<Longrightarrow> sat (Some name) None None h' y = sat (Some name) None None h y"
    and g: "\<And>y. y \<in> set xs \<Longrightarrow> attr_ok attr h' y = attr_ok attr h y"
    and l: "xs' = xs \<or> (\<exists>z. xs' = xs @ [z])"
  shows "found name attr h' xs' = Some x"
proof -
  have "find (sat (Some name) (map_option fst attr) (map_option snd attr) h') xs =
      find (sat (Some name) (map_option fst attr) (map_option snd attr) h) xs"
    by (rule find_same) (simp only: sat_split e g)
  then have "found name attr h' xs = Some x" using f by (simp add: found_def)
  then show ?thesis using l by (auto simp: found_def find_snoc)
qed

lemma forest_above:
  assumes "forest c ch" "x \<in> set (ch y)"
  shows "x \<noteq> y" and "y \<in> set (ch z) \<Longrightarrow> x \<noteq> z" and "y \<in> set (ch z) \<Longrightarrow> z \<in> set (ch w) \<Longrightarrow> x \<noteq> w"
proof -
  have ac: "a \<noteq> b" if "(a, b) \<in> (kids ch)\<^sup>+" for a b
    using wf_acyclic [OF forest_wf [OF assms(1)]] that unfolding acyclic_def by blast
  have xy: "(x, y) \<in> (kids ch)\<^sup>+" using assms(2) by auto
  then show "x \<noteq> y" by (rule ac)
  show "x \<noteq> z" if "y \<in> set (ch z)" using ac [OF trancl_into_trancl [OF xy, of z]] that by simp
  show "x \<noteq> w" if "y \<in> set (ch z)" "z \<in> set (ch w)"
    using ac [OF trancl_into_trancl [OF trancl_into_trancl [OF xy, of z], of w]] that by simp
qed

lemma fld_same:
  assumes "\<And>y. y \<in> set xs \<Longrightarrow> sat (Some tag) None None (x_heap s') y = sat (Some tag) None None (x_heap s) y"
    and "\<And>y. y \<in> set xs \<Longrightarrow> attr_of ''value'' (x_heap s') y = attr_of ''value'' (x_heap s) y"
  shows "fld s' xs tag = fld s xs tag"
proof -
  have "named tag (x_heap s') xs = named tag (x_heap s) xs" unfolding named_def by (rule find_same) (rule assms(1))
  then show ?thesis using find_in [of _ xs] assms(2) by (auto simp: fld_def named_def split: option.splits)
qed

lemma XmlAddList_at:
  assumes a: "xml_at s ch r m p" and pl: "plenty s" and n: "int_text k = Ret kt"
  obtains s' ch' rs rec where "XmlAddList rset k tag v s = Some (Ret (0, (), s'))" "xml_at s' ch' r m p" "plenty s'"
    "found ''RecordSet'' (Some (''name'', rset)) (x_heap s') (ch' m) = Some rs"
    "found ''Record'' (Some (''RecID'', kt)) (x_heap s') (ch' rs) = Some rec"
    "fld s' (ch' rec) tag = Some v" "fld s' (ch' p) = fld s (ch p)"
proof -
  have i: "xinv (x_heap s) ch" using a by (simp add: xml_at_def)
  note lv = xml_at_live [OF a]
  let ?k2 = "\<lambda>rec s. find_or_new rec tag None (set_value_of (Ret v)) s"
  let ?k1 = "\<lambda>rs s. find_or_new rs ''Record'' (Some (''RecID'', kt)) ?k2 s"
  have run: "XmlAddList rset k tag v s = find_or_new m ''RecordSet'' (Some (''name'', rset)) ?k1 s"
    by (simp add: XmlAddList_def add_record_def with_message_at [OF a] n)
  obtain rs s1 ch1 where 1: "find_or_new m ''RecordSet'' (Some (''name'', rset)) ?k1 s = ?k1 rs s1" "grew s ch s1 ch1 m rs"
    "found ''RecordSet'' (Some (''name'', rset)) (x_heap s1) (ch1 m) = Some rs" "sat (Some ''RecordSet'') None None (x_heap s1) rs"
    "\<And>nm. nm \<noteq> ''RecordSet'' \<Longrightarrow> named nm (x_heap s1) (ch1 m) = named nm (x_heap s) (ch m)"
    by (rule find_or_new_step [OF i pl lv(1), of "''RecordSet''" "Some (''name'', rset)" ?k1]) (rule that)
  note i1 = grew_xinv [OF 1(2)] and p1 = grew_plenty [OF 1(2)]
  have rs: "rs \<in> set (ch1 m)" "cells (x_heap s1) rs \<noteq> None" using found_live [OF i1 1(3)] by simp_all
  obtain rec s2 ch2 where 2: "?k1 rs s1 = ?k2 rec s2" "grew s1 ch1 s2 ch2 rs rec"
    "found ''Record'' (Some (''RecID'', kt)) (x_heap s2) (ch2 rs) = Some rec" "sat (Some ''Record'') None None (x_heap s2) rec"
    "\<And>nm. nm \<noteq> ''Record'' \<Longrightarrow> named nm (x_heap s2) (ch2 rs) = named nm (x_heap s1) (ch1 rs)"
    by (rule find_or_new_step [OF i1 p1 rs(2), of "''Record''" "Some (''RecID'', kt)" ?k2]) (rule that)
  note i2 = grew_xinv [OF 2(2)] and p2 = grew_plenty [OF 2(2)]
  have rc: "rec \<in> set (ch2 rs)" "cells (x_heap s2) rec \<noteq> None" using found_live [OF i2 2(3)] by simp_all
  obtain x s3 ch3 where 3: "?k2 rec s2 = Some (Ret (0, (), s3))" "wrote s2 ch2 s3 ch3 rec x"
    "named tag (x_heap s3) (ch3 rec) = Some x" "attr_of ''value'' (x_heap s3) x = Some v"
    "\<And>nm. nm \<noteq> tag \<Longrightarrow> named nm (x_heap s3) (ch3 rec) = named nm (x_heap s2) (ch2 rec)"
    by (rule put_field [OF i2 p2 rc(2), of tag v]) (rule that)
  have i3: "xinv (x_heap s3) ch3" and p3: "plenty s3" using 3(2) by (simp_all add: wrote_def)
  note f1 = xinv_forest [OF i1] and f2 = xinv_forest [OF i2] and f3 = xinv_forest [OF i3] and d = xml_at_distinct [OF a]
  have mr1: "m \<in> set (ch1 r)" using lv(3) grew_other [OF 1(2), of r] d by simp
  have "rs \<noteq> m" "rs \<noteq> r" using forest_above(1) [OF f1 rs(1)] forest_above(2) [OF f1 rs(1) mr1] by simp_all
  then have c2: "ch2 m = ch1 m" "ch2 r = ch1 r" using grew_other [OF 2(2)] by simp_all
  have rec: "rec \<noteq> rs" "rec \<noteq> m" "rec \<noteq> r"
    using forest_above(1) [OF f2 rc(1)] forest_above(2) [OF f2 rc(1), of m] forest_above(3) [OF f2 rc(1), of m r] rs(1) mr1 c2
    by simp_all
  have c3: "ch3 q = ch2 q" if "q \<noteq> rec" for q using 3(2) that by (simp add: wrote_def)
  have pm1: "named ''Public'' (x_heap s1) (ch1 m) = Some p" using 1(5) [of "''Public''"] a by (simp add: xml_at_def)
  have pp: "p \<in> set (ch1 m)" "sat (Some ''Public'') None None (x_heap s1) p" using named_live [OF i1 pm1] by blast+
  have "p \<noteq> rs" using sat_name [OF pp(2)] 1(4) by auto
  moreover have "p \<noteq> rec" using forest_one_parent [OF f2, of rec m rs] pp(1) c2 rc(1) \<open>rs \<noteq> m\<close> by auto
  ultimately have cp: "ch3 p = ch p" using c3 grew_other [OF 2(2)] grew_other [OF 1(2)] d by simp
  have live: "cells (x_heap s2) y \<noteq> None" if "cells (x_heap s1) y \<noteq> None" for y using grew_live [OF 2(2) that] .
  have sat31: "sat (Some nm) None None (x_heap s3) y = sat (Some nm) None None (x_heap s1) y" if "cells (x_heap s1) y \<noteq> None" for nm y
    using 3(2) live [OF that] grew_sat [OF 2(2) that] by (simp add: wrote_def)
  have x: "x \<in> set (ch3 rec)" using named_live [OF i3 3(3)] by blast
  have att3: "attr_of b (x_heap s3) y = attr_of b (x_heap s2) y" if "y \<in> set (ch3 q)" "q \<noteq> rec" for b y q
  proof -
    have "y \<noteq> x" using forest_one_parent [OF f3, of y q rec] that x by auto
    moreover have "cells (x_heap s2) y \<noteq> None" using forest_live [OF f2, of y q] that c3 by simp
    ultimately show ?thesis using 3(2) by (simp add: wrote_def)
  qed
  have att31: "attr_of b (x_heap s3) y = attr_of b (x_heap s1) y"
    if "y \<in> set (ch3 q)" "q \<noteq> rec" "cells (x_heap s1) y \<noteq> None" for b y q
    using att3 [OF that(1,2)] grew_attr [OF 2(2) that(3)] by simp
  have named31: "named nm (x_heap s3) (ch1 q) = named nm (x_heap s1) (ch1 q)" for nm q
    unfolding named_def by (rule find_same) (use sat31 forest_live [OF f1] in blast)
  have frs: "found ''RecordSet'' (Some (''name'', rset)) (x_heap s3) (ch3 m) = Some rs"
  proof (rule found_keeps [OF 1(3)])
    fix y assume y: "y \<in> set (ch1 m)"
    then have l: "cells (x_heap s1) y \<noteq> None" using forest_live [OF f1 y] by simp
    show "sat (Some ''RecordSet'') None None (x_heap s3) y = sat (Some ''RecordSet'') None None (x_heap s1) y" by (rule sat31 [OF l])
    show "attr_ok (Some (''name'', rset)) (x_heap s3) y = attr_ok (Some (''name'', rset)) (x_heap s1) y"
      using att31 [of y m] y l rec(2) c3 [of m] c2 by (simp add: attr_ok_def)
  qed (use c3 [of m] rec c2 in simp)
  have frc: "found ''Record'' (Some (''RecID'', kt)) (x_heap s3) (ch3 rs) = Some rec"
  proof (rule found_keeps [OF 2(3)])
    fix y assume y: "y \<in> set (ch2 rs)"
    then have l: "cells (x_heap s2) y \<noteq> None" using forest_live [OF f2 y] by simp
    show "sat (Some ''Record'') None None (x_heap s3) y = sat (Some ''Record'') None None (x_heap s2) y"
      using 3(2) l by (simp add: wrote_def)
    show "attr_ok (Some (''RecID'', kt)) (x_heap s3) y = attr_ok (Some (''RecID'', kt)) (x_heap s2) y"
      using att3 [of y rs] y rec(1) c3 [of rs] by (simp add: attr_ok_def)
  qed (use c3 [of rs] rec in simp)
  have "xml_at s3 ch3 r m p"
    unfolding xml_at_def
  proof (intro conjI)
    show "l_pIntXml s3 = Some r" using 3(2) grew_doc [OF 2(2)] grew_doc [OF 1(2)] a by (simp add: wrote_def xml_at_def)
    show "cells (x_heap s3) r \<noteq> None" using forest_live [OF f3, of m r] mr1 c3 [of r] rec c2 by simp
    have "named ''Message'' (x_heap s1) (ch1 r) = named ''Message'' (x_heap s) (ch r)"
      unfolding named_def grew_other [OF 1(2) d(1)]
      by (rule find_same) (use grew_sat [OF 1(2)] forest_live [OF xinv_forest [OF i]] in blast)
    then show "named ''Message'' (x_heap s3) (ch3 r) = Some m"
      using c3 [of r] rec c2 a named31 [of _ r] by (simp add: xml_at_def)
    show "named ''Public'' (x_heap s3) (ch3 m) = Some p"
      using c3 [of m] rec c2 pm1 named31 [of _ m] by simp
  qed (rule i3)
  moreover have "fld s3 (ch3 p) = fld s (ch p)"
  proof
    fix nm
    have l0: "cells (x_heap s) y \<noteq> None" "cells (x_heap s1) y \<noteq> None" if "y \<in> set (ch p)" for y
      using forest_live [OF xinv_forest [OF i] that] grew_live [OF 1(2)] by simp_all
    show "fld s3 (ch3 p) nm = fld s (ch p) nm"
      unfolding cp
    proof (rule fld_same)
      fix y assume y: "y \<in> set (ch p)"
      show "sat (Some nm) None None (x_heap s3) y = sat (Some nm) None None (x_heap s) y"
        using sat31 [OF l0(2) [OF y]] grew_sat [OF 1(2) l0(1) [OF y]] by simp
      show "attr_of ''value'' (x_heap s3) y = attr_of ''value'' (x_heap s) y"
        using att31 [of y p, OF _ \<open>p \<noteq> rec\<close> l0(2) [OF y]] grew_attr [OF 1(2) l0(1) [OF y]] cp y by simp
    qed
  qed
  moreover have "fld s3 (ch3 rec) tag = Some v" using 3(3,4) by (simp add: fld_def)
  moreover have "XmlAddList rset k tag v s = Some (Ret (0, (), s3))" using run 1(1) 2(1) 3(1) by simp
  ultimately show ?thesis using that p3 frs frc by blast
qed
section \<open>Start and end of a message\<close>

lemma Delete_doc:
  assumes "xinv h ch" "live_opt h doc"
  obtains h' ch' where "mxmlDelete doc h = Some (Ret h')" "xinv h' ch'" "grants h' = grants h" "tick h' = tick h"
    "doc = None \<Longrightarrow> h' = h \<and> ch' = ch" "\<And>x. doc = Some x \<Longrightarrow> cells h' x = None"
proof (cases doc)
  case None
  then show ?thesis using that [of h ch] assms(1) by (simp add: mxmlDelete_def)
next
  case (Some x)
  then have "cells h x \<noteq> None" using assms(2) by (simp add: live_opt_def)
  then obtain h' where h': "mxmlDelete (Some x) h = Some (Ret h')" "xinv h' (pruned ch x)" "gone (under ch x) h h'"
    by (rule Delete_forest [OF assms(1)])
  have "cells h' x = None" using gone_live [OF h'(3), of x] by simp
  then show ?thesis using that [of h' "pruned ch x"] h' Some by (simp add: gone_def)
qed

lemma xnew_root:
  assumes i: "xinv (x_heap s) ch" and p: "plenty s"
  obtains x s' where "xnew None name s = Some (Ret (Some x, s'))" "xinv (x_heap s') ch" "cells (x_heap s') x \<noteq> None" "ch x = []" "plenty s'"
proof -
  let ?h = "x_heap s" and ?x = "tick (x_heap s)"
  have g: "grants ?h k" for k using p by (simp add: plenty_def)
  obtain h' n where h': "mxmlNewElement None (Some name) ?h = Ret (Some ?x, h')" "xinv h' ch"
    "others_same ?x ?h h'" "cells h' ?x = Some n"
    using g by (cases rule: NewElement_cases [OF i, of None name]) (auto simp: add_kid_def live_opt_def)
  have new: "xnew None name s = Some (Ret (Some ?x, absorb h' s))" using h'(1) by (simp add: xnew_def)
  have ab: "x_heap (absorb h' s) = h'" by (simp add: absorb_def)
  have pl: "plenty (absorb h' s)" using h'(3) p by (simp add: plenty_def ab others_same_def)
  show ?thesis
    by (rule that [OF new, unfolded ab, OF h'(2) _ fresh_alone(1) [OF i order_refl] pl]) (use h'(4) in simp)
qed

lemma XmlInit_ok:
  assumes i: "xinv (x_heap s) ch" and d: "live_opt (x_heap s) (l_pIntXml s)" and p: "plenty s"
  obtains s' where "XmlInit s = Some (Ret (0, (), s'))" "xml_ok s'" "plenty s'" "xml_field s' = Map.empty"
proof -
  obtain h0 ch0 where h0: "mxmlDelete (l_pIntXml s) (x_heap s) = Some (Ret h0)" "xinv h0 ch0" "grants h0 = grants (x_heap s)"
    by (rule Delete_doc [OF i d]) (rule that)
  define s0 where "s0 = absorb h0 (s\<lparr>x_cb := True\<rparr>)"
  have i0: "xinv (x_heap s0) ch0" and p0: "plenty s0" using h0 p by (simp_all add: s0_def absorb_def plenty_def)
  obtain r s1 where 1: "xnew None XML_HEAD s0 = Some (Ret (Some r, s1))" "xinv (x_heap s1) ch0" "cells (x_heap s1) r \<noteq> None"
      "ch0 r = []" "plenty s1"
    by (rule xnew_root [OF i0 p0, of XML_HEAD]) (rule that)
  define t1 where "t1 = s1\<lparr>l_pIntXml := Some r\<rparr>"
  have j1: "xinv (x_heap t1) ch0" "plenty t1" "cells (x_heap t1) r \<noteq> None" using 1 by (simp_all add: t1_def plenty_def)
  obtain m s2 where 2: "xnew (Some r) ''Message'' t1 = Some (Ret (Some m, s2))" "cells (x_heap t1) m = None"
      "xinv (x_heap s2) (ch0(r := ch0 r @ [m]))" "cells (x_heap s2) m \<noteq> None"
      "\<And>nm. sat (Some nm) None None (x_heap s2) m \<longleftrightarrow> nm = ''Message''" "\<And>a. attr_of a (x_heap s2) m = None" "ch0 m = []"
      "plenty s2" "l_pIntXml s2 = l_pIntXml t1" "x_cb s2 = x_cb t1"
      "\<And>y. y \<noteq> m \<Longrightarrow> map_option payload (cells (x_heap s2) y) = map_option payload (cells (x_heap t1) y)"
    by (rule xnew_kid [OF j1(1,2,3), of "''Message''"]) (rule that)
  let ?c2 = "ch0(r := ch0 r @ [m])"
  obtain p s3 where 3: "xnew (Some m) ''Public'' s2 = Some (Ret (Some p, s3))" "cells (x_heap s2) p = None"
      "xinv (x_heap s3) (?c2(m := ?c2 m @ [p]))" "cells (x_heap s3) p \<noteq> None"
      "\<And>nm. sat (Some nm) None None (x_heap s3) p \<longleftrightarrow> nm = ''Public''" "\<And>a. attr_of a (x_heap s3) p = None" "?c2 p = []"
      "plenty s3" "l_pIntXml s3 = l_pIntXml s2" "x_cb s3 = x_cb s2"
      "\<And>y. y \<noteq> p \<Longrightarrow> map_option payload (cells (x_heap s3) y) = map_option payload (cells (x_heap s2) y)"
    by (rule xnew_kid [OF 2(3) 2(8) 2(4), of "''Public''"]) (rule that)
  let ?c3 = "?c2(m := ?c2 m @ [p])"
  have rm: "r \<noteq> m" using 2(2) j1(3) by auto
  have mp: "m \<noteq> p" using 3(2) 2(4) by auto
  have rp: "r \<noteq> p" using 3(7) 1(4) rm by auto
  have lr: "cells (x_heap s3) r \<noteq> None"
    using forest_live [OF xinv_forest [OF 3(3)], of m r] rm 1(4) by simp
  have "sat (Some nm) None None (x_heap s3) m \<longleftrightarrow> nm = ''Message''" for nm
    using 2(5) [of nm] sat_cong [OF 3(11) [OF mp]] by simp
  then have at: "xml_at s3 ?c3 r m p"
    using 1(4) 2(7,9) 3(3,5,9) rm lr by (simp add: xml_at_def named_def t1_def)
  have "xml_field s3 = fld s3 (?c3 p)" by (rule xml_field_at [OF at])
  also have "\<dots> = Map.empty" using 3(7) mp by (auto simp: fld_def named_def)
  finally have "xml_field s3 = Map.empty" .
  moreover have "XmlInit s = Some (Ret (0, (), s3))"
    using h0(1) 1(1) 2(1) 3(1) by (simp add: XmlInit_def s0_def t1_def Let_def)
  moreover have "xml_ok s3" using at by (auto simp: xml_ok_def)
  ultimately show ?thesis using that 3(8) by blast
qed

lemma dead_document: "l_pIntXml s = Some x \<Longrightarrow> cells (x_heap s) x = None \<Longrightarrow> XmlFree s = Some (Crash UseAfterFree)"
  by (simp add: XmlFree_def mxmlDelete_def mxml_del.simps [of False] mxmlRemove_def rd_def)

lemma XmlInit_no_memory:
  assumes i: "xinv (x_heap s) ch" and d: "l_pIntXml s = None" and g: "grants (x_heap s) (tick (x_heap s))"
    "\<not> grants (x_heap s) (tick (x_heap s) + 2)"
  shows "\<exists>s'. XmlInit s = Some (Ret (-1, (), s')) \<and> XmlFree s' = Some (Crash UseAfterFree)"
proof -
  let ?h = "x_heap s" and ?x = "tick (x_heap s)"
  define s0 where "s0 = absorb ?h (s\<lparr>x_cb := True\<rparr>)"
  have l: "live_opt ?h None" by (simp add: live_opt_def)
  obtain h1 n where h1: "mxmlNewElement None (Some XML_HEAD) ?h = Ret (Some ?x, h1)" "xinv h1 ch" "tick h1 = Suc (Suc ?x)"
    "others_same ?x ?h h1" "cells h1 ?x = Some n"
    by (rule NewElement_cases [OF i l, of XML_HEAD]) (use g(1) in \<open>simp_all add: add_kid_def\<close>)
  define s1 where "s1 = (absorb h1 s0)\<lparr>l_pIntXml := Some ?x\<rparr>"
  have "live_opt h1 (Some ?x)" using h1(5) by (simp add: live_opt_def)
  then have 2: "mxmlNewElement (Some ?x) (Some ''Message'') h1 = Ret (None, h1\<lparr>tick := Suc (tick h1)\<rparr>)"
    by (rule NewElement_cases [OF h1(2), of "Some ?x" "''Message''"]) (use h1(3,4) g(2) in \<open>simp_all add: others_same_def\<close>)
  let ?h2 = "h1\<lparr>tick := Suc (tick h1)\<rparr>"
  define s2 where "s2 = absorb ?h2 s1"
  have i2: "xinv ?h2 ch" by (rule xinv_tick [OF h1(2)]) simp
  have "live_opt ?h2 (Some ?x)" using h1(5) by (simp add: live_opt_def)
  then obtain h3 where h3: "mxmlDelete (Some ?x) ?h2 = Some (Ret h3)" "cells h3 ?x = None"
    by (rule Delete_doc [OF i2]) (use that in blast)
  define s3 where "s3 = (absorb h3 s2)\<lparr>l_sXmlError := ''error: '' @ not_added ''Message''\<rparr>"
  have "XmlInit s = Some (Ret (-1, (), s3))"
  proof -
    have "xnew None XML_HEAD s0 = Some (Ret (Some ?x, absorb h1 s0))"
      using h1(1) by (simp add: xnew_def s0_def absorb_def)
    moreover have "xnew (Some ?x) ''Message'' s1 = Some (Ret (None, s2))"
      using 2 by (simp add: xnew_def s1_def s2_def absorb_def)
    moreover have "init_failed ''Message'' s2 = Some (Ret (-1, (), s3))"
      using h3(1) by (simp add: init_failed_def s2_def s1_def absorb_def xfail_def XmlSetError_def s3_def not_added_def)
    ultimately show ?thesis using d by (simp add: XmlInit_def mxmlDelete_def s0_def s1_def Let_def)
  qed
  moreover have "XmlFree s3 = Some (Crash UseAfterFree)"
    by (rule dead_document [of _ ?x]) (simp_all add: s3_def s2_def s1_def absorb_def h3(2))
  ultimately show ?thesis by blast
qed

end
