(* ===== verification/XmlProps.thy ===== *)
theory XmlProps
  imports XmlStore
begin

text \<open>
  The properties of the XML library and of the messages made with it, and concrete documents on which they apply.
\<close>

section \<open>Messages\<close>

text \<open>A process with enough memory before and after \<open>XmlInit\<close>, and after one field has been set.\<close>

definition heap_empty :: xheap where
  "heap_empty = \<lparr>cells = (\<lambda>_. None), tick = 0, grants = (\<lambda>_. True), destroyed = [], reports = []\<rparr>"

definition xml0 :: xml where
  "xml0 = \<lparr>x_heap = heap_empty, l_pIntXml = None, l_sXmlError = [], x_cb = False\<rparr>"

definition after :: "(int \<times> 'a \<times> xml) crun \<Rightarrow> xml" where
  "after r = (case r of Some (Ret (_, _, s)) \<Rightarrow> s | _ \<Rightarrow> xml0)"

definition xml1 :: xml where
  "xml1 = after (XmlInit xml0)"

definition xml2 :: xml where
  "xml2 = after (XmlSet ''amount'' ''250'' xml1)"

lemma heap_empty_ok: "xinv heap_empty (\<lambda>_. [])"
  by (simp add: xinv_def forest_def heap_empty_def typed_def kids_def)

lemma xml1_ok: "XmlInit xml0 = Some (Ret (0, (), xml1))" "xml_ok xml1" "plenty xml1" "xml_field xml1 = Map.empty"
proof -
  have "xinv (x_heap xml0) (\<lambda>_. [])" "live_opt (x_heap xml0) (l_pIntXml xml0)" "plenty xml0"
    using heap_empty_ok by (simp_all add: xml0_def live_opt_def plenty_def heap_empty_def)
  then obtain s' where "XmlInit xml0 = Some (Ret (0, (), s'))" "xml_ok s'" "plenty s'" "xml_field s' = Map.empty"
    by (rule XmlInit_ok) (use that in blast)
  then show "XmlInit xml0 = Some (Ret (0, (), xml1))" "xml_ok xml1" "plenty xml1" "xml_field xml1 = Map.empty"
    by (simp_all add: xml1_def after_def)
qed

lemma xml2_ok: "XmlSet ''amount'' ''250'' xml1 = Some (Ret (0, (), xml2))" "xml_ok xml2" "plenty xml2"
  "xml_field xml2 = [''amount'' \<mapsto> ''250'']"
proof -
  obtain s' where "XmlSet ''amount'' ''250'' xml1 = Some (Ret (0, (), s'))" "xml_ok s'" "plenty s'"
    "xml_field s' = (xml_field xml1)(''amount'' \<mapsto> ''250'')"
    by (rule XmlSet_field [OF xml1_ok(2,3), of "''amount''" "''250''"]) (rule that)
  then show "XmlSet ''amount'' ''250'' xml1 = Some (Ret (0, (), xml2))" "xml_ok xml2" "plenty xml2"
    "xml_field xml2 = [''amount'' \<mapsto> ''250'']"
    by (simp_all add: xml2_def after_def xml1_ok(4))
qed

lemma c_str_cut:
  assumes "0 < n" "NUL \<notin> set v"
  shows "c_str (take (nat n - 1) v @ replicate (nat n - min (nat n - 1) (length v)) NUL) = take (nat n - 1) v"
proof -
  obtain j where j: "nat n - min (nat n - 1) (length v) = Suc j"
    using assms(1) by (cases "nat n - min (nat n - 1) (length v)") auto
  have "\<forall>c \<in> set (take (nat n - 1) v). c \<noteq> NUL" using assms(2) in_set_takeD by fastforce
  then show ?thesis by (simp add: c_str_def j takeWhile_append2)
qed

text \<open>Claim C9. Setting a field of a well-formed message, with enough memory, succeeds, keeps the message well-formed and changes
  the content in this field only: \<open>XmlSet\<close> is the update of a finite map.\<close>

theorem XmlSet_updates_field:
  "\<lbrakk>xml_ok s; plenty s\<rbrakk> \<Longrightarrow> \<exists>s'. XmlSet tag v s = Some (Ret (0, (), s')) \<and> xml_ok s' \<and> plenty s' \<and>
     xml_field s' = (xml_field s)(tag \<mapsto> v)"
  using XmlSet_field [of s tag v] by metis

theorem XmlSet_updates_field_witness:
  "\<exists>s'. XmlSet ''currency'' ''CNY'' xml2 = Some (Ret (0, (), s')) \<and> xml_ok s' \<and> plenty s' \<and>
     xml_field s' = [''amount'' \<mapsto> ''250'', ''currency'' \<mapsto> ''CNY'']"
  using XmlSet_updates_field [OF xml2_ok(2,3), of "''currency''" "''CNY''"] by (simp add: xml2_ok(4))

text \<open>Claim C25. The last value set for a name is what is read back: after any sequence of \<open>XmlSet\<close>, reading a field with a buffer
  of the length asked for gives the last value of the sequence for that name, or the former content when it is not in it.\<close>

theorem XmlSet_XmlGet_roundtrip:
  "\<lbrakk>xml_ok s; plenty s; xml_fields.put_all kvs s = Some s'\<rbrakk> \<Longrightarrow>
     xml_get k s' = (case map_of (rev kvs) k of None \<Rightarrow> xml_get k s | Some v \<Rightarrow> Some v)"
  by (rule xml_fields.get_put_all) simp_all

theorem XmlSet_XmlGet_roundtrip_witness:
  "xml_get ''amount'' xml2 = Some ''250''"
proof -
  have "xml_fields.put_all [(''amount'', ''250'')] xml1 = Some xml2"
    by (simp add: xml_put_def xml2_ok(1))
  then show ?thesis using XmlSet_XmlGet_roundtrip [OF xml1_ok(2,3), of "[(''amount'', ''250'')]" xml2 "''amount''"] by simp
qed

text \<open>Reading a field into a buffer of \<open>n\<close> bytes copies at most \<open>n - 1\<close> of them, leaves the buffer terminated and the
  message as it is, but returns the length of the whole value, also when it did not fit.\<close>

theorem XmlGet_truncates:
  "\<lbrakk>xml_ok s; xml_field s tag = Some v; 0 < n; NUL \<notin> set v\<rbrakk> \<Longrightarrow>
     \<exists>buf. XmlGet tag n s = Some (Ret (int (length v), buf, s)) \<and> length buf = nat n \<and> c_str buf = take (nat n - 1) v"
proof -
  assume a: "xml_ok s" "xml_field s tag = Some v" "0 < n" "NUL \<notin> set v"
  let ?k = "nat n - min (nat n - 1) (length v)"
  have "c_str (take (nat n - 1) v @ replicate ?k NUL) = take (nat n - 1) v" by (rule c_str_cut [OF a(3,4)])
  moreover have "length (take (nat n - 1) v @ replicate ?k NUL) = nat n" using a(3) by simp
  ultimately show ?thesis using XmlGet_field [OF a(1-3)] by blast
qed

theorem XmlGet_truncates_witness:
  "\<exists>buf. XmlGet ''amount'' 3 xml2 = Some (Ret (3, buf, xml2)) \<and> length buf = 3 \<and> c_str buf = ''25''"
  using XmlGet_truncates [OF xml2_ok(2), of "''amount''" "''250''" 3] by (simp add: xml2_ok(4))

text \<open>An integer of more than ten characters overruns the array in which \<open>XmlIntSet\<close> prints it: every number from
  -1000000000 downwards does.\<close>

theorem XmlIntSet_overflow:
  "\<lbrakk>xml_ok s; plenty s; n \<le> - 1000000000\<rbrakk> \<Longrightarrow> XmlIntSet tag n s = Some (Crash BufOverflow)"
proof -
  assume s: "xml_ok s" "plenty s" "n \<le> - 1000000000"
  obtain ch r m p where a: "xml_at s ch r m p" using s(1) by (auto simp: xml_ok_def)
  have "set_value_of (int_text n) = (\<lambda>x s. Some (Crash BufOverflow))"
    by (simp add: fun_eq_iff set_value_of_def int_text_over [OF s(3)])
  then show ?thesis
    using set_crash [OF refl _ s(2) xml_at_live(2) [OF a], of ch tag None BufOverflow] a
    by (simp add: XmlIntSet_def with_public_at [OF a] xml_at_def)
qed

theorem XmlIntSet_overflow_witness: "XmlIntSet ''amount'' (- 2147483648) xml1 = Some (Crash BufOverflow)"
  by (rule XmlIntSet_overflow [OF xml1_ok(2,3)]) simp

text \<open>Every other 32-bit integer that is stored as a field is read back.\<close>

theorem XmlIntSet_XmlIntGet:
  "\<lbrakk>xml_ok s; plenty s; - 1000000000 < n; n < 2 ^ 31\<rbrakk> \<Longrightarrow>
     \<exists>s'. XmlIntSet tag n s = Some (Ret (0, (), s')) \<and> XmlIntGet tag s' = Some (Ret (0, Some n, s'))"
proof -
  assume s: "xml_ok s" "plenty s" "- 1000000000 < n" "n < 2 ^ 31"
  have "XmlIntSet tag n s = XmlSet tag (show_int n) s"
    using int_text_ok [of n] s(3,4) by (simp add: XmlIntSet_def XmlSet_def)
  moreover obtain s' where s': "XmlSet tag (show_int n) s = Some (Ret (0, (), s'))" "xml_ok s'" "plenty s'"
    "xml_field s' = (xml_field s)(tag \<mapsto> show_int n)"
    by (rule XmlSet_field [OF s(1,2), of tag "show_int n"]) (rule that)
  moreover have "XmlIntGet tag s' = Some (Ret (0, Some n, s'))"
  proof -
    obtain ch r m p where a: "xml_at s' ch r m p" using s'(2) by (auto simp: xml_ok_def)
    have f: "xml_field s' tag = Some (show_int n)" using s'(4) by simp
    show ?thesis using atoi_show_int [of n] s(3,4)
      by (simp add: XmlIntGet_def with_public_at [OF a] with_value_field [OF a f])
  qed
  ultimately show ?thesis by simp
qed

theorem XmlIntSet_XmlIntGet_witness:
  "\<exists>s'. XmlIntSet ''balance'' (- 999999999) xml2 = Some (Ret (0, (), s')) \<and> XmlIntGet ''balance'' s' = Some (Ret (0, Some (- 999999999), s'))"
  by (rule XmlIntSet_XmlIntGet [OF xml2_ok(2,3)]) simp_all



text \<open>A long name that is not in the message overruns the error text: with a name of 979 characters or more the message
  is written past the end of its 1024 bytes.\<close>

theorem XmlGet_long_name_overflows:
  "\<lbrakk>xml_ok s; xml_field s tag = None; 979 \<le> length tag; 0 \<le> n\<rbrakk> \<Longrightarrow> XmlGet tag n s = Some (Crash BufOverflow)"
proof -
  assume s: "xml_ok s" "xml_field s tag = None" and l: "979 \<le> length tag" and n: "0 \<le> n"
  obtain ch r m p where a: "xml_at s ch r m p" using s(1) by (auto simp: xml_ok_def)
  have i: "xinv (x_heap s) ch" using a by (simp add: xml_at_def)
  have "xfail (no_element tag) out s = Some (Crash BufOverflow)" "xfail (no_value tag) out s = Some (Crash BufOverflow)" for out :: string
    using l by (simp_all add: xfail_def XmlSetError_def no_element_def no_value_def)
  then show ?thesis
    using s(2) n by (auto simp: XmlGet_def Let_def with_public_at [OF a] with_value_list [OF i xml_at_live(2) [OF a]]
        xml_field_at [OF a] fld_def split: option.splits)
qed

theorem XmlGet_long_name_overflows_witness: "XmlGet (replicate 1000 (CHR ''x'')) 64 xml1 = Some (Crash BufOverflow)"
  by (rule XmlGet_long_name_overflows [OF xml1_ok(2)]) (simp_all add: xml1_ok(4))

text \<open>The messages of the library never reach the error text: the callback copies as many bytes as the text it has just
  cleared is long, so whatever \<open>mxml_error\<close> reports, the text is empty afterwards.\<close>

theorem XmlSaveError_loses_message: "XmlSaveError (take 1023 msg) old = []"
  by (simp add: XmlSaveError_def c_str_def Let_def)

text \<open>When memory runs out while \<open>XmlInit\<close> makes the element \<open>Message\<close>, it deletes the document but keeps the pointer
  to it: it returns -1, and the following \<open>XmlFree\<close> works on freed memory.\<close>

theorem XmlInit_failure_dangles:
  "\<lbrakk>xinv (x_heap s) ch; l_pIntXml s = None; grants (x_heap s) (tick (x_heap s)); \<not> grants (x_heap s) (tick (x_heap s) + 2)\<rbrakk> \<Longrightarrow>
     \<exists>s'. XmlInit s = Some (Ret (-1, (), s')) \<and> XmlFree s' = Some (Crash UseAfterFree)"
  by (rule XmlInit_no_memory)

theorem XmlInit_failure_dangles_witness:
  "\<exists>s'. XmlInit (xml0\<lparr>x_heap := heap_empty\<lparr>grants := (\<lambda>k. k < 2)\<rparr>\<rparr>) = Some (Ret (-1, (), s')) \<and> XmlFree s' = Some (Crash UseAfterFree)"
  by (rule XmlInit_failure_dangles [of _ "\<lambda>_. []"])
     (simp_all add: xml0_def heap_empty_def xinv_def forest_def typed_def kids_def)

end
