(* ===== verification/XmlFile.thy ===== *)
theory XmlFile
  imports XmlParse XmlProps
begin

text \<open>
  Messages as text: the functions of \<open>src/dev/src/pubfun/xml/xml.c\<close> that load a message from a string and save it to a string or
  a file. \<open>xml_holds s t\<close> says that the message of the process is the document \<open>t\<close>; \<open>doc_field\<close> are the fields of a document.
  Loading and saving are related by the text of the document (\<open>doc_text\<close>).
\<close>

section \<open>Definitions\<close>

text \<open>
  What the reader uses: strings as sources, the entities of the library (no program of the repository adds others), no callbacks.
  \<open>strtod\<close> stands for the function of the C library, which is only used for values of another type.
\<close>

definition xml_env :: "(string \<Rightarrow> int \<times> string) \<Rightarrow> string lenv" where
  "xml_env strtod = \<lparr>e_getc = mxml_string_getc, e_multi = False, e_entity = (\<lambda>name. mxmlEntityGetValue (\<lambda>_. mxml_entity_cb) name mxml_global0),
     e_strtod = strtod, e_type = None, e_sax = None, e_custom = None\<rparr>"

text \<open>The document that was there before is not deleted.\<close>

definition XmlLoadString :: "(string \<Rightarrow> int \<times> string) \<Rightarrow> string \<Rightarrow> xml \<Rightarrow> (int \<times> xml) crun" where
  "XmlLoadString strtod psData s =
     (let s = s\<lparr>x_cb := True\<rparr>
      in rbind (mxmlLoadString (xml_env strtod) None psData None (x_heap s)) (\<lambda>(node, r).
         let s = (absorb (r_heap r) s)\<lparr>l_pIntXml := node\<rparr>
         in Some (Ret (if node \<noteq> None then 0 else -1, s))))"

text \<open>\<open>psData\<close> is the caller's memory, \<open>nSize\<close> the size that is named; the result has the memory afterwards.\<close>

definition XmlSaveString :: "char list \<Rightarrow> int \<Rightarrow> xml \<Rightarrow> (int \<times> char list) crun" where
  "XmlSaveString psData nSize s = mxmlSaveString None (l_pIntXml s) psData nSize None (x_heap s)"

definition XmlShow :: "fsink \<Rightarrow> xml \<Rightarrow> (int \<times> fsink) crun" where
  "XmlShow fp s = mxmlSaveFile None (l_pIntXml s) fp None (x_heap s)"

section \<open>The message as a document\<close>

definition xml_holds :: "xml \<Rightarrow> xtree \<Rightarrow> bool" where
  "xml_holds s t \<longleftrightarrow> (\<exists>ch x. xinv (x_heap s) ch \<and> l_pIntXml s = Some x \<and> doc_root (x_heap s) ch x t)"

fun tree_name :: "xtree \<Rightarrow> string" where
  "tree_name (Elem nm as sub) = nm"

fun tree_attrs :: "xtree \<Rightarrow> (string \<times> string) list" where
  "tree_attrs (Elem nm as sub) = as"

fun tree_sub :: "xtree \<Rightarrow> xtree list" where
  "tree_sub (Elem nm as sub) = sub"

definition sub_named :: "string \<Rightarrow> xtree \<Rightarrow> xtree option" where
  "sub_named nm t = find (\<lambda>u. tree_name u = nm) (tree_sub t)"

definition doc_public :: "xtree \<Rightarrow> xtree option" where
  "doc_public t = Option.bind (sub_named ''Message'' t) (sub_named ''Public'')"

definition doc_field :: "xtree \<Rightarrow> string \<Rightarrow> string option" where
  "doc_field t tag = Option.bind (doc_public t) (\<lambda>u. Option.bind (sub_named tag u) (\<lambda>e. map_of (tree_attrs e) ''value''))"

lemma sat_tree: "tree_at h ch x t \<Longrightarrow> sat (Some nm) None None h x \<longleftrightarrow> tree_name t = nm"
  by (cases t) (auto simp: sat_def elim!: tree_atD)

lemma get_attr_rec: "get_attr a (map attr_rec as) = map_of as a"
  by (induction as) (auto simp: attr_rec_def)

lemma attr_tree: "tree_at h ch x t \<Longrightarrow> attr_of a h x = map_of (tree_attrs t) a"
  by (cases t) (auto simp: attr_of_def get_attr_rec elim!: tree_atD)

lemma find_trees: "trees_at h ch xs ts \<Longrightarrow> rel_option (tree_at h ch) (named nm h xs) (find (\<lambda>u. tree_name u = nm) ts)"
  unfolding trees_at_def named_def by (induction xs ts rule: list_all2_induct) (auto simp: sat_tree)

lemma named_tree: "tree_at h ch x t \<Longrightarrow> rel_option (tree_at h ch) (named nm h (ch x)) (sub_named nm t)"
  by (cases t) (auto simp: sub_named_def find_trees elim!: tree_atD)

text \<open>The fields of the message are those of the document.\<close>

lemma holds_fields:
  assumes s: "xml_holds s t" and p: "doc_public t \<noteq> None"
  shows "xml_ok s" "xml_field s = doc_field t"
proof -
  obtain ch x where x: "xinv (x_heap s) ch" "l_pIntXml s = Some x" "tree_at (x_heap s) ch x t" "doc_root (x_heap s) ch x t"
    using s by (auto simp: xml_holds_def doc_root_def)
  obtain u v where u: "sub_named ''Message'' t = Some u" "sub_named ''Public'' u = Some v"
    using p by (auto simp: doc_public_def bind_eq_Some_conv)
  obtain m where m: "named ''Message'' (x_heap s) (ch x) = Some m" "tree_at (x_heap s) ch m u"
    using named_tree [OF x(3), of "''Message''"] u(1) by (auto simp: option_rel_Some2)
  obtain q where q: "named ''Public'' (x_heap s) (ch m) = Some q" "tree_at (x_heap s) ch q v"
    using named_tree [OF m(2), of "''Public''"] u(2) by (auto simp: option_rel_Some2)
  have a: "xml_at s ch x m q" using x m(1) q(1) root_live [OF x(4)] by (simp add: xml_at_def)
  then show "xml_ok s" by (auto simp: xml_ok_def)
  show "xml_field s = doc_field t"
  proof
    fix tag
    show "xml_field s tag = doc_field t tag"
      using named_tree [OF q(2), of tag] u attr_tree
      by (cases "sub_named tag v")
        (auto simp: xml_field_at [OF a] fld_def doc_field_def doc_public_def option_rel_Some2)
  qed
qed

text \<open>A document that can be read can be written, and its text has no NUL.\<close>

lemma plain_raw: "plain_name n \<Longrightarrow> raw_name n"
  by (cases n) (auto simp: plain_name_def raw_name_def name_char_def starts_def)

lemma pi_raw: "pi_name n \<Longrightarrow> raw_name n"
  by (auto simp: pi_name_iff raw_name_def starts_def)

lemma readable_writable: "readable t \<Longrightarrow> writable t"
proof (induction t)
  case (Elem nm as sub)
  then show ?case using plain_raw by (simp add: list_all_iff)
qed

lemma document_writable: "document t \<Longrightarrow> writable t"
proof (cases t)
  case (Elem nm as sub)
  assume "document t"
  then show ?thesis using readable_writable [of t] readable_writable pi_raw [of nm] Elem by (auto simp: list_all_iff simp del: readable.simps)
qed

lemma readable_NUL: "readable_char c \<Longrightarrow> c \<noteq> NUL"
  by (auto simp: readable_char_def mxml_bad_char_def)

lemma esc_char_NUL: "NUL \<noteq> c \<Longrightarrow> NUL \<notin> set (esc_char c)"
proof (cases rule: esc_char_cases [of c])
  case (name name)
  then have "NUL \<notin> set name" by (auto simp: mxmlEntityGetName_def split: if_splits)
  then show ?thesis using name(2) by simp
qed simp

lemma escape_NUL: "NUL \<notin> set s \<Longrightarrow> NUL \<notin> set (escape s)"
  by (induction s) (simp_all add: escape_def esc_char_NUL)

lemma plain_NUL: "plain_name nm \<Longrightarrow> NUL \<notin> set nm"
proof -
  have "\<not> name_char NUL" by (simp add: name_char_def)
  then show "plain_name nm \<Longrightarrow> NUL \<notin> set nm" unfolding plain_name_def list_all_iff by blast
qed

lemma pi_NUL: "pi_name nm \<Longrightarrow> NUL \<notin> set nm"
proof -
  have "\<not> readable_char NUL" by (simp add: readable_char_def mxml_bad_char_def)
  then have "NUL \<notin> set w" if "list_all (\<lambda>c. readable_char c \<and> c \<noteq> CHR ''>'') w" for w using that unfolding list_all_iff by blast
  then show "pi_name nm \<Longrightarrow> NUL \<notin> set nm" by (auto simp: pi_name_iff)
qed

lemma readable_text_NUL: "readable t \<Longrightarrow> NUL \<notin> set (xml_text t)"
proof (induction t)
  case (Elem nm as sub)
  have nm: "NUL \<notin> set nm" "NUL \<notin> set (escape nm)" using Elem.prems plain_NUL escape_NUL [of nm] by auto
  have "NUL \<notin> set (attr_text a)" if "a \<in> set as" for a
  proof -
    have "plain_name (fst a)" "\<forall>c \<in> set (snd a). c \<noteq> NUL" using that Elem.prems readable_NUL by (auto simp: list_all_iff)
    then show ?thesis using plain_NUL [of "fst a"] escape_NUL [of "snd a"] by (auto simp: attr_text_def)
  qed
  moreover have "NUL \<notin> set (xml_text t)" if "t \<in> set sub" for t
    using Elem.IH [OF that] Elem.prems that by (simp add: list_all_iff)
  ultimately show ?case using nm by (auto simp: attrs_text_def)
qed

lemma document_text_NUL: "document t \<Longrightarrow> NUL \<notin> set (doc_text t)"
proof (cases t)
  case (Elem nm as sub)
  assume d: "document t"
  show ?thesis
  proof (cases "readable t")
    case True
    then show ?thesis using readable_text_NUL by (simp add: doc_text_def)
  next
    case False
    then have pi: "pi_name nm" "as = []" "\<forall>u \<in> set sub. readable u" using d Elem by (auto simp: list_all_iff simp del: readable.simps)
    have "NUL \<notin> set nm" "starts ''!?'' nm" using pi(1) pi_NUL by (auto simp: pi_name_iff starts_def)
    then show ?thesis using Elem pi(2,3) readable_text_NUL by (auto simp: doc_text_def attrs_text_def)
  qed
qed

section \<open>Loading and saving\<close>

lemma xml_env_std:
  "\<not> e_multi (xml_env strtod)" "\<And>c name. mxmlEntityGetName c = Some name \<Longrightarrow> e_entity (xml_env strtod) name = c"
  by (simp_all add: xml_env_def entity_name_value)

lemma absorb_simps [simp]: "x_heap (absorb h s) = h" "l_pIntXml (absorb h s) = l_pIntXml s"
  by (simp_all add: absorb_def)

lemma XmlLoadString_doc:
  assumes t: "document t" and s: "xinv (x_heap s) ch" "plenty s"
  obtains s' where "XmlLoadString strtod (doc_text t) s = Some (Ret (0, s'))" "xml_holds s' t" "plenty s'"
proof -
  have h: "rich (x_heap s)" using s(2) by (simp add: plenty_def rich_def)
  obtain x r ch' where 1: "mxmlLoadString (xml_env strtod) None (doc_text t) None (x_heap s) = Some (Ret (Some x, r))"
    "xinv (r_heap r) ch'" "rich (r_heap r)" "doc_root (r_heap r) ch' x t" "kept (x_heap s) ch (r_heap r) ch'"
    by (rule LoadString_document [OF xml_env_std t s(1) h])
  then show ?thesis using that by (auto simp: XmlLoadString_def Let_def xml_holds_def plenty_def rich_def)
qed

lemma XmlSaveString_doc:
  assumes s: "xml_holds s t" and t: "writable t" "int (length (xml_text t)) \<le> SAVE_WRAP" and n: "0 < n" "n \<le> int (length buffer)"
  obtains m where "XmlSaveString buffer n s = Some (Ret (int (length (doc_text t)), m))" "length m = length buffer" "holds_text n m (doc_text t)"
    "drop (nat n) m = drop (nat n) buffer"
proof -
  obtain ch x where x: "xinv (x_heap s) ch" "l_pIntXml s = Some x" "doc_root (x_heap s) ch x t" using s by (auto simp: xml_holds_def)
  obtain k where k: "cells (x_heap s) x = Some k" using root_live [OF x(3)] by blast
  have "n_parent k = None" using forest_orphan [OF xinv_forest [OF x(1)] k] x(3) by (simp add: doc_root_def)
  then have "n_next k = None" using forest_node [OF xinv_forest [OF x(1)] k] by (simp add: node_ok_def)
  moreover have "tree_at (x_heap s) ch x t" "length (xml_text t) \<le> nat SAVE_WRAP" using x(3) t(2) by (auto simp: doc_root_def)
  ultimately show ?thesis
    using SaveString_text [OF xinv_forest [OF x(1)] _ t(1) _ k _ n, where save = None] that x(2) by (auto simp: XmlSaveString_def)
qed

lemma c_str_holds:
  assumes "holds_text n m w" "NUL \<notin> set w"
  shows "c_str m = take (nat n - 1) w"
proof -
  let ?w = "take (nat n - 1) w"
  have k: "min (nat n - 1) (length w) = length ?w" by simp
  have m: "length ?w < length m" "take (length ?w) m = ?w" "m ! length ?w = NUL"
    using assms(1) unfolding holds_text_def Let_def k by (auto simp: min_def split: if_splits)
  then have split: "m = ?w @ NUL # drop (Suc (length ?w)) m" by (metis id_take_nth_drop)
  have "\<forall>c \<in> set ?w. c \<noteq> NUL" using assms(2) by (auto dest: in_set_takeD)
  then have "c_str (?w @ NUL # drop (Suc (length ?w)) m) = ?w" by (simp add: c_str_def takeWhile_append2)
  then show ?thesis using split by simp
qed

section \<open>Properties\<close>

text \<open>Claim C11. Loading a message returns for every text, well-formed or not: with enough memory no loop of the reader runs forever and
  no invalid pointer is followed; the result is 0 exactly when there is a document, and the heap of nodes stays a forest in
  which that document is alive.\<close>

theorem XmlLoadString_returns:
  "\<lbrakk>xinv (x_heap s) ch; plenty s\<rbrakk> \<Longrightarrow>
     \<exists>ret s'. XmlLoadString strtod data s = Some (Ret (ret, s')) \<and> ret = (if l_pIntXml s' = None then -1 else 0) \<and>
       (\<exists>ch'. xinv (x_heap s') ch') \<and> live_opt (x_heap s') (l_pIntXml s')"
proof -
  assume s: "xinv (x_heap s) ch" "plenty s"
  have "runs (mxmlLoadString (xml_env strtod) None data None (x_heap s)) (\<lambda>(node, r). \<exists>ch. xinv (r_heap r) ch \<and> live_opt (r_heap r) node)"
    by (rule LoadString_total [OF s(1)]) (use s(2) in \<open>simp_all add: plenty_def xml_env_def\<close>)
  then obtain node r ch' where "mxmlLoadString (xml_env strtod) None data None (x_heap s) = Some (Ret (node, r))"
    "xinv (r_heap r) ch'" "live_opt (r_heap r) node" by (auto simp: runs_def)
  then show ?thesis by (cases node) (auto simp: XmlLoadString_def Let_def)
qed

theorem XmlLoadString_returns_witness:
  "\<exists>ret s'. XmlLoadString (\<lambda>s. (0, s)) ''<Message><Public name=x></Message'' xml0 = Some (Ret (ret, s')) \<and>
     ret = (if l_pIntXml s' = None then -1 else 0) \<and> (\<exists>ch'. xinv (x_heap s') ch') \<and> live_opt (x_heap s') (l_pIntXml s')"
  by (rule XmlLoadString_returns [where ch = "\<lambda>_. []"]) (use heap_empty_ok in \<open>simp_all add: xml0_def plenty_def heap_empty_def\<close>)

text \<open>A message of a process that has read it from a text.\<close>

definition sample :: xtree where
  "sample = Elem XML_HEAD [] [Elem ''Message'' [] [
     Elem ''Public'' [] [Elem ''amount'' [(''value'', ''250'')] [], Elem ''text'' [(''value'', ''a<b & c>d'')] []]]]"

definition xml_sample :: xml where
  "xml_sample = (case XmlLoadString (\<lambda>s. (0, s)) (doc_text sample) xml0 of Some (Ret (_, s)) \<Rightarrow> s | _ \<Rightarrow> xml0)"

lemma sample_text:
  "xml_text sample = ''<'' @ XML_HEAD @ ''><Message><Public><amount value='' @ [CHR 0x22] @ ''250'' @ [CHR 0x22] @
     '' /><text value='' @ [CHR 0x22] @ ''a&lt;b &amp; c&gt;d'' @ [CHR 0x22] @ '' /></Public></Message>''"
  by code_simp

lemma sample_ok: "document sample" "length (xml_text sample) < 200" "doc_public sample \<noteq> None"
    "doc_field sample ''text'' = Some ''a<b & c>d''"
  by code_simp+

lemma xml_sample_ok: "XmlLoadString (\<lambda>s. (0, s)) (doc_text sample) xml0 = Some (Ret (0, xml_sample))" "xml_holds xml_sample sample" "plenty xml_sample"
proof -
  have "xinv (x_heap xml0) (\<lambda>_. [])" "plenty xml0" using heap_empty_ok by (simp_all add: xml0_def plenty_def heap_empty_def)
  then obtain s' where "XmlLoadString (\<lambda>s. (0, s)) (doc_text sample) xml0 = Some (Ret (0, s'))" "xml_holds s' sample" "plenty s'"
    by (rule XmlLoadString_doc [OF sample_ok(1)])
  then show "XmlLoadString (\<lambda>s. (0, s)) (doc_text sample) xml0 = Some (Ret (0, xml_sample))" "xml_holds xml_sample sample" "plenty xml_sample"
    by (simp_all add: xml_sample_def)
qed

lemma sample_size: "int (length (doc_text sample)) \<le> 200" "int (length (doc_text sample)) \<le> SAVE_WRAP"
  using sample_ok(2) by (simp_all add: doc_text_def SAVE_WRAP_def)

text \<open>Claim C10. What is saved is loaded again: the message, as a document \<open>t\<close> of the form that can be read, is saved into a buffer
  with room, and loading that buffer gives a message that is the same document, with the same fields.\<close>

theorem XmlSaveString_XmlLoadString:
  "\<lbrakk>xml_holds s t; document t; doc_public t \<noteq> None; plenty s; int (length (doc_text t)) \<le> SAVE_WRAP;
    int (length (doc_text t)) < n; n \<le> int (length buffer)\<rbrakk> \<Longrightarrow>
     \<exists>m s'. XmlSaveString buffer n s = Some (Ret (int (length (doc_text t)), m)) \<and>
       XmlLoadString strtod (c_str m) s = Some (Ret (0, s')) \<and> xml_holds s' t \<and> xml_ok s' \<and> xml_field s' = xml_field s"
proof -
  assume s: "xml_holds s t" and t: "document t" "doc_public t \<noteq> None" and p: "plenty s"
    and n: "int (length (doc_text t)) \<le> SAVE_WRAP" "int (length (doc_text t)) < n" "n \<le> int (length buffer)"
  obtain m where m: "XmlSaveString buffer n s = Some (Ret (int (length (doc_text t)), m))" "holds_text n m (doc_text t)"
    by (rule XmlSaveString_doc [OF s document_writable [OF t(1)], of n buffer]) (use n in \<open>auto simp: doc_text_def intro: that\<close>)
  have "c_str m = doc_text t" using c_str_holds [OF m(2) document_text_NUL [OF t(1)]] n(2) by simp
  moreover obtain ch where "xinv (x_heap s) ch" using s by (auto simp: xml_holds_def)
  then obtain s' where "XmlLoadString strtod (doc_text t) s = Some (Ret (0, s'))" "xml_holds s' t" "plenty s'"
    by (rule XmlLoadString_doc [OF t(1) _ p])
  ultimately show ?thesis using m(1) holds_fields [OF s t(2)] holds_fields [of s' t, OF _ t(2)] by auto
qed

theorem XmlSaveString_XmlLoadString_witness:
  "\<exists>m s'. XmlSaveString (replicate 256 NUL) 256 xml_sample = Some (Ret (int (length (doc_text sample)), m)) \<and>
     XmlLoadString (\<lambda>s. (0, s)) (c_str m) xml_sample = Some (Ret (0, s')) \<and> xml_holds s' sample \<and> xml_ok s' \<and>
     xml_field s' = xml_field xml_sample"
  by (rule XmlSaveString_XmlLoadString [OF xml_sample_ok(2) sample_ok(1,3) xml_sample_ok(3) sample_size(2)])
     (use sample_size(1) in simp_all)

text \<open>Claim C27. Saving never writes past the size that is named: the result is the length of the whole text, the buffer holds what
  fits of it with a NUL behind it, and the memory from that size on is as it was.\<close>

theorem XmlSaveString_truncates:
  "\<lbrakk>xml_holds s t; document t; int (length (doc_text t)) \<le> SAVE_WRAP; 0 < n; n \<le> int (length buffer)\<rbrakk> \<Longrightarrow>
     \<exists>m. XmlSaveString buffer n s = Some (Ret (int (length (doc_text t)), m)) \<and> c_str m = take (nat n - 1) (doc_text t) \<and>
       length m = length buffer \<and> drop (nat n) m = drop (nat n) buffer"
proof -
  assume s: "xml_holds s t" and t: "document t" and n: "int (length (doc_text t)) \<le> SAVE_WRAP" "0 < n" "n \<le> int (length buffer)"
  obtain m where m: "XmlSaveString buffer n s = Some (Ret (int (length (doc_text t)), m))" "holds_text n m (doc_text t)"
    "length m = length buffer" "drop (nat n) m = drop (nat n) buffer"
    by (rule XmlSaveString_doc [OF s document_writable [OF t], of n buffer]) (use n in \<open>auto simp: doc_text_def intro: that\<close>)
  then show ?thesis using c_str_holds [OF m(2) document_text_NUL [OF t]] by blast
qed

theorem XmlSaveString_truncates_witness:
  "\<exists>m. XmlSaveString (replicate 32 (CHR ''#'')) 20 xml_sample = Some (Ret (int (length (doc_text sample)), m)) \<and>
     c_str m = take 19 (doc_text sample) \<and> length m = 32 \<and> drop 20 m = replicate 12 (CHR ''#'')"
  using XmlSaveString_truncates [OF xml_sample_ok(2) sample_ok(1) sample_size(2), of 20 "replicate 32 (CHR ''#'')"] by simp

end
