(* ===== verification/Spec2Isabelle.thy ===== *)
theory Spec2Isabelle
  imports Trace TuxLook Governor CommReqs CommClient CommLong MxmlIndex MxmlEntity XmlFile
begin

text \<open>
  Sunda is a small transaction monitor in C. Servers offer named services; clients reach them through System V message
  queues, on the machine itself (\<open>tux_call\<close>) or over TCP through a communication server. A task manager (\<open>Governor\<close>)
  starts and supervises the servers; its tables live in shared memory guarded by a semaphore. This library models the
  program function by function and proves what makes its parts correct, and where the code does not do what it means to.

  \<^bold>\<open>The parts and their theories\<close> (paths below \<open>src/dev/src\<close>, headers below \<open>src/dev/include\<close>)

  \<^item> \<open>Sunda_Prelude\<close>: results that may be a fault (\<open>cres\<close>: overrun, null pointer, index outside an array, division by zero),
    the search loop \<open>scan\<close>, 32-bit integers, and the contract \<open>slot_table\<close> of tables with free slots.
  \<^item> \<open>CString\<close>: C strings, \<open>strtok\<close>, \<open>atoi\<close>, \<open>sprintf\<close> of integers, \<open>pubfun/common/funstr.c\<close>. The trimming loops
    equal their list specifications; printed numbers are read back.
  \<^item> \<open>CfgFile\<close>: the configuration reader \<open>pubfun/common/funfile.c\<close> over a stream with its end-of-file flag. The locale
    \<open>param_source\<close> is what \<open>tuxmgr.c\<close> and \<open>Governor.c\<close> rely on; it is interpreted on \<open>cf_nextparm\<close>.
  \<^item> \<open>DateTime\<close>: the calendar of \<open>pubfun/common/funtime.c\<close>, against the day number of the Gregorian calendar.
  \<^item> \<open>Trace\<close>: the trace files of \<open>pubfun/common/funtrace.c\<close>; the hexadecimal dump reads back to the bytes.
  \<^item> \<open>SysV\<close>: the kernel's shared memory and semaphores (\<open>kern\<close>) and \<open>pubfun/common/funmem.c\<close>, \<open>funsem.c\<close>. The lock
    protocol is a step relation; mutual exclusion is an invariant of its reachable states.
  \<^item> \<open>MsgQueue\<close>: message queues and \<open>pubfun/common/funmsq.c\<close>. The locale \<open>mailbox\<close> (one FIFO per message type) is
    interpreted on \<open>MsqSnd\<close> and \<open>MsqRcv\<close>, a refinement of the queue by lists.
  \<^item> \<open>MsgHead\<close>: the structures that travel as bytes (\<open>funmsq.h\<close>, \<open>sunda.h\<close>, \<open>task.h\<close>), instances of the locale \<open>codec\<close>.
  \<^item> \<open>TpMemory\<close>: the typed buffers of \<open>pubfun/tux/tuxmgr.c\<close> with their guard records and the invariant \<open>heap_ok\<close>.
  \<^item> \<open>SdTables\<close>: control block, server, process and service table, and the functions of \<open>tuxmgr.c\<close> that search and
    change them; the service table refines a finite map (locale \<open>registry\<close>).
  \<^item> \<open>SdSystem\<close>: start, connection and removal of the system (\<open>sys_start\<close>, \<open>ipc_connect\<close>, \<open>ipc_remove\<close>).
  \<^item> \<open>TuxCall\<close>: calls, replies, forwarding and the dispatcher of \<open>tuxmgr.c\<close>; \<open>out\<close> lists how a call ends (return,
    \<open>longjmp\<close>, exit, sleep, fault).
  \<^item> \<open>TuxCmd\<close>: \<open>pubfun/tux/tuxcmd.c\<close>, the main program of every server \<open>tuxmain.c\<close>, the example server
    \<open>onlsvr/testsvr/testsvr.c\<close>, and the tools \<open>Main/tm*.c\<close>; \<open>TuxLook\<close>: \<open>tmlook.c\<close> and the tables it prints.
  \<^item> \<open>Governor\<close>: the task manager \<open>Main/Governor.c\<close>: parsing task lines, starting, stopping and restarting servers, the
    administration commands and the main program.
  \<^item> \<open>FunSock\<close>: sockets, \<open>pubfun/common/funsock.c\<close>; what the network does is data. The locale \<open>byte_stream\<close> (a read is the
    front of the flow, however it was cut) is interpreted on \<open>ReadSocket\<close>.
  \<^item> \<open>CommServer\<close>, \<open>CommTable\<close>, \<open>CommSteps\<close>, \<open>CommReqs\<close>: the communication server \<open>comm/commserver/commserver.c\<close>: its
    definitions; its connection table as lists with the invariant \<open>comm_inv\<close>; the step relation \<open>comm_step\<close> of its
    threads, which keeps the invariant; requests, replies, removals and the waiting time.
  \<^item> \<open>CommShort\<close>, \<open>CommLong\<close>, \<open>CommClient\<close>: the servers for short connections \<open>comm/C001\<close> and for one long connection
    \<open>comm/C002\<close>, and the test clients \<open>client/client.c\<close>, \<open>client/simu.c\<close>; the path of a request from the client to a
    service and back.
  \<^item> \<open>MxmlNode\<close>, \<open>MxmlForest\<close>, \<open>MxmlHeap\<close>: the node tree of the XML library, \<open>pubfun/xml/mxml-node.c\<close>, as a heap of
    linked nodes; the invariant \<open>forest\<close> ties its pointers to lists of children, \<open>xinv\<close> adds the types of the values.
  \<^item> \<open>MxmlAttr\<close>, \<open>MxmlSearch\<close>, \<open>MxmlEntity\<close>: attributes and setters (\<open>mxml-attr.c\<close>, \<open>mxml-set.c\<close>), walking and searching
    (\<open>mxml-search.c\<close>, equal to searching the list of the nodes in document order), named characters (\<open>mxml-entity.c\<close>,
    \<open>mxml-private.c\<close>). \<open>MxmlOps\<close>: every call on the heap refines its operation on lists (\<open>xspec\<close>).
  \<^item> \<open>MxmlIndex\<close>: sorted indices over the elements (\<open>mxml-index.c\<close>). The locale \<open>node_order\<close> (the comparison is a total
    preorder) is what the quicksort needs; it is interpreted on \<open>index_compare\<close>. The binary search lists all matches.
  \<^item> \<open>MxmlSave\<close>, \<open>MxmlRead\<close>, \<open>MxmlLoad\<close>: writing and reading of XML text, \<open>mxml-file.c\<close> (and its variant \<open>mxml-file-utf8.c\<close>,
    which the Makefile does not build; a flag of the model tells them apart): the sinks and \<open>mxml_write_node\<close>; the sources, the
    string buffer and the scanning loops; attributes, tags and \<open>mxml_load_data\<close>, cut into the turns of its loop.
  \<^item> \<open>MxmlSafe\<close>, \<open>MxmlTotal\<close>: the reader returns on every input and keeps the node heap well-formed. The locale \<open>char_source\<close> is
    what it relies on, \<open>byte_source\<close> gives it; they are interpreted on strings, files and descriptors.
  \<^item> \<open>XmlText\<close>, \<open>XmlParse\<close>: the text of a document. The locale \<open>sink\<close> (a character is taken and appended) is interpreted on
    strings and descriptors; the writer gives \<open>xml_text\<close>, and the reader makes the document of it again.
  \<^item> \<open>XmlMsg\<close>, \<open>XmlFields\<close>, \<open>XmlStore\<close>, \<open>XmlProps\<close>: the messages of \<open>pubfun/xml/xml.c\<close>; the locale \<open>keyed_store\<close> (a get returns
    what the last put stored) is interpreted on \<open>XmlSet\<close> and \<open>XmlGet\<close>. \<open>XmlFile\<close>: loading and saving a message as text.

  \<^bold>\<open>How they interact.\<close> State is passed explicitly: \<open>kern\<close> is extended to \<open>sys\<close> (segment contents, configuration, clock,
  signals), \<open>proc\<close> to \<open>tproc\<close> (request header, jump flag, buffers), and both with the wake-ups of sleeping calls form the
  \<open>tst\<close> of a call. A client's frame is read by \<open>read_task\<close> (\<open>CommReqs\<close>), goes through \<open>tux_acall\<close> into the request queue, is
  taken by \<open>tux_service\<close> in the server, answered by \<open>tux_return\<close> through the response queue, and written to the connection by
  \<open>write_task\<close>. The tools send commands with \<open>svr_cmd_deal\<close>, which the task manager receives as the service \<open>Governor\<close>.

  \<^bold>\<open>What the lemmas show.\<close> The central properties are the round trip of a call, the exclusion of the lock, the FIFO order of
  the queues per type, the lookup of advertised services, the parsing of task lines, the exact effect of the commands, the
  invariants of buffers, tables and connections, the fate of requests and replies of the communication server, the tree of XML nodes, the fields of a message and its
  round trip through text, the indices over documents, the calendar and the dump of the trace. Properties of kind
  \<open>error\<close> state what goes wrong, with the inputs on which it does.

  \<^bold>\<open>Bounds and fuel.\<close> The endless loops of \<open>tuxmain.c\<close> and \<open>Governor.c\<close> (\<open>serve_loop\<close>, \<open>gov_main\<close>) take a number of turns;
  \<open>None\<close> says that the loop is still running, and statements about them hold for every number of turns. The threads of the
  communication server are modelled by single turns. \<open>clean_row\<close> is a partial function, since its loop need not end;
  that it ends on well-formed tables is proved, and so is the row on which it does not. So are the functions that follow
  the pointers of the node heap (\<open>mxml_del\<close>, \<open>walk_up\<close>, \<open>last_below\<close>, \<open>find_loop\<close>, \<open>index_fill\<close>) and the sort of the index: that they end is proved for
  every heap with the invariant \<open>xinv\<close>, and so are the loops of the reader (\<open>gather\<close>, \<open>attr_loop\<close>, \<open>load_loop\<close>), whose measure is
  the input that is left, and \<open>mxml_write_node\<close> on the documents of \<open>XmlText\<close>. All other loops are total
  functions. Integers are \<open>int\<close> with \<open>i32\<close> where the code stores them in an \<open>int\<close> and a change is possible.

  \<^bold>\<open>What is assumed of the environment.\<close> System calls follow their documentation; \<open>fork\<close>, the clock, the results of socket
  calls and of \<open>pthread_create\<close>, and what other processes do meanwhile are arguments. Reading a result that a function does not return is the
  argument \<open>junk\<close>. The copy inside an array runs upwards.

  \<^bold>\<open>Not modelled.\<close> \<open>mxml-string.c\<close> (replacements of
  functions of the C library that \<open>config.h\<close> switches off) is left out; \<open>strtod\<close> and the handlers of custom nodes are parameters of the reader. Signal masks,
  \<open>daemonize\<close> and process priorities have no state in the model.
\<close>

end
